(* ===== verification/Prelude.thy ===== *)
theory Prelude
  imports
    Complex_Main
    "HOL-Library.Sublist"
    "HOL-Library.List_Lexorder"
    "HOL-Library.Char_ord"
    "HOL-Library.Multiset"
    "HOL-Library.Word"
begin

text \<open>
  The shared base of the development: the JavaScript values every component uses (strings,
  property bags, stable sorting, 32-bit integers), the contracts that several components
  share, stated as locales, and the lemmas about both.

  Strings. A JavaScript string is a sequence of code units; here it is a \<open>string\<close>, so a
  code unit is one \<open>char\<close> and strings range over the units below 256. Case folding is that
  of those units. The few message texts of the source that hold typographic characters (a
  long dash, an ellipsis, an arrow, a not-equal sign) are written with ASCII ones.

  Property bags. A plain object or a \<open>Map\<close> used as a dictionary is an association list in
  insertion order, at most one entry per key; \<open>rec_set\<close> overwrites in place and appends
  a new key, as both do.
\<close>

named_theorems js_defs \<open>definitions of the JavaScript helpers, for evaluation\<close>
named_theorems inv_intros \<open>one preservation lemma per operation of a state machine\<close>

section \<open>Strings\<close>

definition js_lower_char :: "char \<Rightarrow> char" where
  "js_lower_char c = (let n = (of_char c :: nat) in
     if (65 \<le> n \<and> n \<le> 90) \<or> (192 \<le> n \<and> n \<le> 222 \<and> n \<noteq> 215) then char_of (n + 32) else c)"

definition js_lower :: "string \<Rightarrow> string" where
  "js_lower s = map js_lower_char s"

text \<open>Upper case: the sharp s becomes two units; the two units below 256 whose upper case
  lies above 255 (micro sign, y with diaeresis) stay as they are.\<close>

definition js_upper_char :: "char \<Rightarrow> string" where
  "js_upper_char c = (let n = (of_char c :: nat) in
     if (97 \<le> n \<and> n \<le> 122) \<or> (224 \<le> n \<and> n \<le> 254 \<and> n \<noteq> 247) then [char_of (n - 32)]
     else if n = 223 then ''SS'' else [c])"

definition js_upper :: "string \<Rightarrow> string" where
  "js_upper s = concat (map js_upper_char s)"

definition js_is_space :: "char \<Rightarrow> bool" where
  "js_is_space c = (let n = (of_char c :: nat) in (9 \<le> n \<and> n \<le> 13) \<or> n = 32 \<or> n = 160)"

definition js_trim :: "string \<Rightarrow> string" where
  "js_trim s = rev (dropWhile js_is_space (rev (dropWhile js_is_space s)))"

definition js_is_digit :: "char \<Rightarrow> bool" where
  "js_is_digit c = (let n = (of_char c :: nat) in 48 \<le> n \<and> n \<le> 57)"

text \<open>The character classes \<open>[A-Za-z_]\<close> and \<open>\w\<close> of the fixed patterns in the source.\<close>

definition js_is_name_start :: "char \<Rightarrow> bool" where
  "js_is_name_start c = (let n = (of_char c :: nat) in
     (65 \<le> n \<and> n \<le> 90) \<or> (97 \<le> n \<and> n \<le> 122) \<or> n = 95)"

definition js_is_word :: "char \<Rightarrow> bool" where
  "js_is_word c = (js_is_name_start c \<or> js_is_digit c)"

text \<open>\<open>s.split(c)\<close> for a one-unit separator: there is always at least one part.\<close>

fun js_split :: "char \<Rightarrow> string \<Rightarrow> string list" where
  "js_split c [] = [[]]"
| "js_split c (x # xs) =
     (if x = c then [] # js_split c xs
      else (case js_split c xs of [] \<Rightarrow> [[x]] | p # ps \<Rightarrow> (x # p) # ps))"

text \<open>\<open>parts.join(c)\<close> for a one-unit separator.\<close>

fun js_join1 :: "char \<Rightarrow> string list \<Rightarrow> string" where
  "js_join1 c [] = []"
| "js_join1 c [p] = p"
| "js_join1 c (p # q # ps) = p @ c # js_join1 c (q # ps)"

fun js_join :: "string \<Rightarrow> string list \<Rightarrow> string" where
  "js_join sep [] = []"
| "js_join sep [p] = p"
| "js_join sep (p # q # ps) = p @ sep @ js_join sep (q # ps)"

text \<open>\<open>s.indexOf(t)\<close>; \<open>None\<close> is the source's \<open>-1\<close>.\<close>

fun js_index_of :: "string \<Rightarrow> string \<Rightarrow> nat option" where
  "js_index_of t [] = (if t = [] then Some 0 else None)"
| "js_index_of t (x # xs) =
     (if prefix t (x # xs) then Some 0 else map_option Suc (js_index_of t xs))"

definition js_includes :: "string \<Rightarrow> string \<Rightarrow> bool" where
  "js_includes s t = (js_index_of t s \<noteq> None)"

definition js_starts_with :: "string \<Rightarrow> string \<Rightarrow> bool" where
  "js_starts_with s t = prefix t s"

definition js_ends_with :: "string \<Rightarrow> string \<Rightarrow> bool" where
  "js_ends_with s t = suffix t s"

text \<open>\<open>s.slice(1, -1)\<close>: without its first and last unit (empty below two units).\<close>

definition js_inner :: "string \<Rightarrow> string" where
  "js_inner s = butlast (tl s)"

text \<open>\<open>s.replace(/c/g, t)\<close> for a one-unit pattern.\<close>

definition js_replace_char :: "char \<Rightarrow> string \<Rightarrow> string \<Rightarrow> string" where
  "js_replace_char c t s = concat (map (\<lambda>x. if x = c then t else [x]) s)"

text \<open>\<open>s.split(/\r?\n/)\<close>: the lines of a text with either line ending.\<close>

abbreviation LF :: char where "LF \<equiv> CHR 0x0A"
abbreviation CR :: char where "CR \<equiv> CHR 0x0D"

fun js_lines :: "string \<Rightarrow> string list" where
  "js_lines [] = [[]]"
| "js_lines (x # xs) =
     (if x = LF then [] # js_lines xs
      else if x = CR \<and> xs \<noteq> [] \<and> hd xs = LF then [] # js_lines (tl xs)
      else (case js_lines xs of [] \<Rightarrow> [[x]] | p # ps \<Rightarrow> (x # p) # ps))"

text \<open>The length of the UTF-8 encoding (\<open>TextEncoder\<close>): two bytes from unit 128 on.\<close>

definition utf8_length :: "string \<Rightarrow> nat" where
  "utf8_length s = (\<Sum>c\<leftarrow>s. if (of_char c :: nat) < 128 then 1 else 2)"

text \<open>Decimal digits of a natural number, \<open>String(n)\<close>.\<close>

fun js_nat :: "nat \<Rightarrow> string" where
  "js_nat n = (if n < 10 then [char_of (48 + n)] else js_nat (n div 10) @ [char_of (48 + n mod 10)])"

declare js_nat.simps [simp del]

definition js_int :: "int \<Rightarrow> string" where
  "js_int i = (if i < 0 then CHR ''-'' # js_nat (nat (- i)) else js_nat (nat i))"

lemmas [js_defs] = js_lower_def js_lower_char_def js_upper_def js_upper_char_def
  js_is_space_def js_trim_def js_is_digit_def js_is_name_start_def js_is_word_def
  js_includes_def js_starts_with_def js_ends_with_def js_inner_def

lemma js_split_neq_Nil [simp]: "js_split c s \<noteq> []"
  by (induction s) (auto split: list.splits)

lemma js_split_parts: "p \<in> set (js_split c s) \<Longrightarrow> c \<notin> set p"
  by (induction s arbitrary: p) (auto split: list.splits if_splits)

lemma js_join1_Cons: "ps \<noteq> [] \<Longrightarrow> js_join1 c (p # ps) = p @ c # js_join1 c ps"
  by (cases ps) auto

text \<open>Splitting and joining are inverse: joining the parts of a split gives the string back.\<close>

lemma js_join1_split: "js_join1 c (js_split c s) = s"
proof (induction s)
  case Nil
  then show ?case by simp
next
  case (Cons x xs)
  show ?case
  proof (cases "js_split c xs")
    case Nil
    then show ?thesis by simp
  next
    case (Cons p ps)
    with Cons.IH show ?thesis by (cases ps) (auto simp: js_join1_Cons)
  qed
qed

lemma js_split_no_sep: "c \<notin> set p \<Longrightarrow> js_split c p = [p]"
  by (induction p) auto

lemma js_split_append_sep: "c \<notin> set p \<Longrightarrow> js_split c (p @ c # s) = p # js_split c s"
  by (induction p) auto

lemma js_split_join1:
  "ps \<noteq> [] \<Longrightarrow> \<forall>p\<in>set ps. c \<notin> set p \<Longrightarrow> js_split c (js_join1 c ps) = ps"
  by (induction ps rule: js_join1.induct) (auto simp: js_split_no_sep js_split_append_sep)

lemma js_index_of_None: "js_index_of t s = None \<longleftrightarrow> \<not> sublist t s"
  by (induction s) (auto simp: sublist_Cons_right)

lemma js_includes_sublist: "js_includes s t = sublist t s"
  using js_index_of_None [of t s] by (auto simp: js_includes_def)

lemma js_index_of_Some:
  "js_index_of t s = Some i \<Longrightarrow> i + length t \<le> length s \<and> s = take i s @ t @ drop (i + length t) s"
proof (induction s arbitrary: i)
  case Nil
  then show ?case by (auto split: if_splits)
next
  case (Cons x xs)
  show ?case
  proof (cases "prefix t (x # xs)")
    case True
    then have "length t \<le> length (x # xs)" by (rule prefix_length_le)
    with True Cons.prems show ?thesis by (auto simp: prefix_def)
  next
    case False
    with Cons.prems obtain j where j: "js_index_of t xs = Some j" "i = Suc j" by auto
    from Cons.IH [OF j(1)] j(2) show ?thesis by auto
  qed
qed

text \<open>The first occurrence of a separator right after a part that does not contain it.\<close>

lemma js_index_of_char: "c \<notin> set p \<Longrightarrow> js_index_of [c] (p @ c # s) = Some (length p)"
  by (induction p) auto

lemma js_index_of_char_None: "c \<notin> set p \<Longrightarrow> js_index_of [c] p = None"
  by (induction p) auto

lemma index_of_char_first: "js_index_of [c] s = Some q \<Longrightarrow> c \<notin> set (take q s)"
  by (induction s arbitrary: q) (auto split: if_splits simp: prefix_Cons)

lemma index_of_char_absent: "js_index_of [c] s = None \<Longrightarrow> c \<notin> set s"
  by (induction s) (auto split: if_splits)

lemma length_js_lower [simp]: "length (js_lower s) = length s"
  by (simp add: js_lower_def)

lemma js_lower_char_idem [simp]: "js_lower_char (js_lower_char c) = js_lower_char c"
  by (auto simp: js_lower_char_def Let_def)

lemma js_lower_idem [simp]: "js_lower (js_lower s) = js_lower s"
  by (simp add: js_lower_def)

lemma js_lower_append [simp]: "js_lower (s @ t) = js_lower s @ js_lower t"
  by (simp add: js_lower_def)

lemma js_replace_char_Nil [simp]: "js_replace_char c t [] = []"
  by (simp add: js_replace_char_def)

lemma js_replace_char_Cons [simp]:
  "js_replace_char c t (x # s) = (if x = c then t else [x]) @ js_replace_char c t s"
  by (simp add: js_replace_char_def)

lemma js_replace_char_append [simp]:
  "js_replace_char c t (r @ s) = js_replace_char c t r @ js_replace_char c t s"
  by (simp add: js_replace_char_def)

lemma js_lines_neq_Nil [simp]: "js_lines s \<noteq> []"
  by (induction s rule: js_lines.induct) (auto split: list.splits)

lemma js_lines_plain: "LF \<notin> set p \<Longrightarrow> js_lines p = [p]"
  by (induction p rule: js_lines.induct) (auto dest: hd_in_set)

lemma js_lines_append_LF: "LF \<notin> set p \<Longrightarrow> CR \<notin> set p \<Longrightarrow> js_lines (p @ LF # s) = p # js_lines s"
  by (induction p) auto

lemma js_lines_append_CRLF: "LF \<notin> set p \<Longrightarrow> CR \<notin> set p \<Longrightarrow> js_lines (p @ CR # LF # s) = p # js_lines s"
  by (induction p) auto

section \<open>Property bags\<close>

type_synonym 'v record_bag = "(string \<times> 'v) list"

definition rec_get :: "('k \<times> 'v) list \<Rightarrow> 'k \<Rightarrow> 'v option" where
  "rec_get r k = map_of r k"

fun rec_set :: "('k \<times> 'v) list \<Rightarrow> 'k \<Rightarrow> 'v \<Rightarrow> ('k \<times> 'v) list" where
  "rec_set [] k v = [(k, v)]"
| "rec_set ((k', v') # r) k v = (if k' = k then (k, v) # r else (k', v') # rec_set r k v)"

definition rec_del :: "('k \<times> 'v) list \<Rightarrow> 'k \<Rightarrow> ('k \<times> 'v) list" where
  "rec_del r k = filter (\<lambda>(k', _). k' \<noteq> k) r"

definition rec_has :: "('k \<times> 'v) list \<Rightarrow> 'k \<Rightarrow> bool" where
  "rec_has r k = (k \<in> fst ` set r)"

definition rec_keys :: "('k \<times> 'v) list \<Rightarrow> 'k list" where
  "rec_keys r = map fst r"

text \<open>A bag is well formed when no key occurs twice.\<close>

definition rec_wf :: "('k \<times> 'v) list \<Rightarrow> bool" where
  "rec_wf r = distinct (map fst r)"

definition rec_get_or :: "'v \<Rightarrow> ('k \<times> 'v) list \<Rightarrow> 'k \<Rightarrow> 'v" where
  "rec_get_or d r k = (case rec_get r k of None \<Rightarrow> d | Some v \<Rightarrow> v)"

lemma rec_get_Nil [simp]: "rec_get [] k = None"
  by (simp add: rec_get_def)

lemma rec_get_Cons [simp]: "rec_get ((k', v) # r) k = (if k' = k then Some v else rec_get r k)"
  by (simp add: rec_get_def)

lemma rec_get_set [simp]: "rec_get (rec_set r k v) k' = (if k' = k then Some v else rec_get r k')"
  by (induction r k v rule: rec_set.induct) auto

lemma keys_rec_del [simp]: "fst ` set (rec_del r k) = fst ` set r - {k}"
  by (auto simp: rec_del_def image_iff)

lemma rec_get_del [simp]: "rec_get (rec_del r k) k' = (if k' = k then None else rec_get r k')"
  by (induction r) (auto simp: rec_del_def)

lemma rec_get_or_set [simp]:
  "rec_get_or d (rec_set r k v) k' = (if k' = k then v else rec_get_or d r k')"
  by (simp add: rec_get_or_def)

lemma rec_get_or_Nil [simp]: "rec_get_or d [] k = d"
  by (simp add: rec_get_or_def)

lemma rec_has_get: "rec_has r k \<longleftrightarrow> rec_get r k \<noteq> None"
  by (auto simp: rec_has_def rec_get_def map_of_eq_None_iff)

lemma set_keys_rec_set [simp]: "fst ` set (rec_set r k v) = insert k (fst ` set r)"
  by (induction r k v rule: rec_set.induct) auto

lemma set_rec_set_subset: "set (rec_set r k v) \<subseteq> insert (k, v) (set r)"
  by (induction r k v rule: rec_set.induct) auto

lemma set_rec_keys_set [simp]: "set (rec_keys (rec_set r k v)) = insert k (set (rec_keys r))"
  by (simp add: rec_keys_def)

lemma keys_rec_set:
  "map fst (rec_set r k v) = (if k \<in> fst ` set r then map fst r else map fst r @ [k])"
  by (induction r k v rule: rec_set.induct) auto

lemma rec_wf_Nil [simp, intro]: "rec_wf []"
  by (simp add: rec_wf_def)

lemma rec_wf_set [simp, intro]: "rec_wf r \<Longrightarrow> rec_wf (rec_set r k v)"
  by (auto simp: rec_wf_def keys_rec_set)

lemma rec_wf_filter: "rec_wf r \<Longrightarrow> rec_wf (filter P r)"
  by (induction r) (auto simp: rec_wf_def)

lemma rec_wf_del [simp, intro]: "rec_wf r \<Longrightarrow> rec_wf (rec_del r k)"
  by (simp add: rec_del_def rec_wf_filter)

lemma rec_get_in_set: "rec_get r k = Some v \<Longrightarrow> (k, v) \<in> set r"
  by (simp add: rec_get_def map_of_SomeD)

lemma rec_get_keys: "rec_get r k = Some v \<Longrightarrow> k \<in> set (rec_keys r)"
  by (force simp: rec_keys_def dest: rec_get_in_set)

lemma rec_wf_get_iff: "rec_wf r \<Longrightarrow> rec_get r k = Some v \<longleftrightarrow> (k, v) \<in> set r"
  by (simp add: rec_wf_def rec_get_def)

lemma length_rec_set: "length (rec_set r k v) = (if k \<in> fst ` set r then length r else Suc (length r))"
  by (induction r k v rule: rec_set.induct) auto

lemma length_rec_del_le: "length (rec_del r k) \<le> length r"
  by (simp add: rec_del_def)

text \<open>The names every plain object inherits: \<open>name in bag\<close> holds of them, and reading one
gives a function or an object although the bag has no entry.\<close>

definition inherited_names :: "string list" where
  "inherited_names = [''constructor'', ''__defineGetter__'', ''__defineSetter__'', ''hasOwnProperty'',
     ''__lookupGetter__'', ''__lookupSetter__'', ''isPrototypeOf'', ''propertyIsEnumerable'', ''toString'',
     ''valueOf'', ''__proto__'', ''toLocaleString'']"

definition js_in :: "string \<Rightarrow> 'v record_bag \<Rightarrow> bool" where
  "js_in k r = (rec_has r k \<or> k \<in> set inherited_names)"

text \<open>What \<open>r[k]\<close> finds on a plain object: an entry of its own, the inherited member of that name, or
nothing. The text of an inherited member is what \<open>String\<close> and string concatenation make of it. Assigning
to \<open>r['__proto__']\<close> a value that is not an object changes nothing.\<close>

datatype 'v slot = Own 'v | Inherited string

definition js_member :: "'v record_bag \<Rightarrow> string \<Rightarrow> 'v slot option" where
  "js_member r k =
     (case rec_get r k of
        Some v \<Rightarrow> Some (Own v)
      | None \<Rightarrow> if k \<in> set inherited_names then Some (Inherited k) else None)"

definition js_member_or :: "'v \<Rightarrow> 'v record_bag \<Rightarrow> string \<Rightarrow> 'v slot" where
  "js_member_or d r k = (case js_member r k of None \<Rightarrow> Own d | Some m \<Rightarrow> m)"

definition js_put :: "'v record_bag \<Rightarrow> string \<Rightarrow> 'v \<Rightarrow> 'v record_bag" where
  "js_put r k v = (if k = ''__proto__'' then r else rec_set r k v)"

definition inherited_text :: "string \<Rightarrow> string" where
  "inherited_text n =
     (if n = ''__proto__'' then ''[object Object]''
      else ''function '' @ (if n = ''constructor'' then ''Object'' else n) @ ''() { [native code] }'')"

fun slot_text :: "string slot \<Rightarrow> string" where
  "slot_text (Own s) = s"
| "slot_text (Inherited n) = inherited_text n"

lemma js_member_put [simp]:
  "js_member (js_put r k v) k' = (if k' = k \<and> k \<noteq> ''__proto__'' then Some (Own v) else js_member r k')"
  by (auto simp: js_member_def js_put_def)

lemma js_member_or_put [simp]:
  "js_member_or d (js_put r k v) k' = (if k' = k \<and> k \<noteq> ''__proto__'' then Own v else js_member_or d r k')"
  by (simp add: js_member_or_def)

lemma js_member_or_plain [simp]: "k \<notin> set inherited_names \<Longrightarrow> js_member_or d r k = Own (rec_get_or d r k)"
  by (simp add: js_member_or_def js_member_def rec_get_or_def split: option.split)

section \<open>Arrays\<close>

text \<open>\<open>xs.slice(-n)\<close> for a positive \<open>n\<close>: the last \<open>n\<close> elements.\<close>

definition keep_last :: "nat \<Rightarrow> 'a list \<Rightarrow> 'a list" where
  "keep_last n xs = drop (length xs - n) xs"

text \<open>\<open>xs.findIndex(p)\<close>; \<open>None\<close> is the source's \<open>-1\<close>.\<close>

fun js_find_index :: "('a \<Rightarrow> bool) \<Rightarrow> 'a list \<Rightarrow> nat option" where
  "js_find_index P [] = None"
| "js_find_index P (x # xs) = (if P x then Some 0 else map_option Suc (js_find_index P xs))"

text \<open>\<open>xs.splice(i, 0, x)\<close>.\<close>

definition js_insert_at :: "nat \<Rightarrow> 'a \<Rightarrow> 'a list \<Rightarrow> 'a list" where
  "js_insert_at i x xs = take i xs @ x # drop i xs"

text \<open>\<open>xs[i]\<close>; out of range it is \<open>undefined\<close>.\<close>

definition js_nth :: "'a list \<Rightarrow> nat \<Rightarrow> 'a option" where
  "js_nth xs i = (if i < length xs then Some (xs ! i) else None)"

lemma length_keep_last [simp]: "length (keep_last n xs) = min n (length xs)"
  by (simp add: keep_last_def)

lemma keep_last_short [simp]: "length xs \<le> n \<Longrightarrow> keep_last n xs = xs"
  by (simp add: keep_last_def)

lemma keep_last_0 [simp]: "keep_last 0 xs = []"
  by (simp add: keep_last_def)

lemma keep_last_append: "keep_last n (keep_last n xs @ ys) = keep_last n (xs @ ys)"
  by (cases "length xs \<le> n") (simp_all add: keep_last_def add.commute)

lemma keep_last_suffix: "suffix (keep_last n xs) xs"
  by (simp add: keep_last_def suffix_drop)

lemma keep_last_full: "length xs = n \<Longrightarrow> 0 < n \<Longrightarrow> keep_last n (xs @ [x]) = tl xs @ [x]"
  by (cases xs) (auto simp: keep_last_def)

lemma set_map_filter: "set (List.map_filter f xs) = {y. \<exists>x\<in>set xs. f x = Some y}"
  by (auto simp: map_filter_def image_iff) force+

lemma find_Some_filter: "find P xs = (case filter P xs of [] \<Rightarrow> None | x # _ \<Rightarrow> Some x)"
  by (induction xs) auto

lemma find_Some_iff_ex: "find P xs \<noteq> None \<longleftrightarrow> (\<exists>x\<in>set xs. P x)"
  by (induction xs) auto

lemma find_SomeD: "find P xs = Some x \<Longrightarrow> x \<in> set xs \<and> P x"
  by (induction xs) (auto split: if_splits)

lemma find_NoneD: "find P xs = None \<Longrightarrow> x \<in> set xs \<Longrightarrow> \<not> P x"
  by (induction xs) (auto split: if_splits)

lemma js_find_index_Some:
  "js_find_index P xs = Some i \<Longrightarrow> i < length xs \<and> P (xs ! i) \<and> (\<forall>j<i. \<not> P (xs ! j))"
proof (induction xs arbitrary: i)
  case (Cons x xs)
  show ?case
  proof (cases "P x")
    case False
    with Cons.prems obtain j where j: "js_find_index P xs = Some j" "i = Suc j" by auto
    from Cons.IH [OF j(1)] False j(2) show ?thesis by (auto simp: nth_Cons split: nat.splits)
  qed (use Cons.prems in auto)
qed simp

lemma js_find_index_None: "js_find_index P xs = None \<longleftrightarrow> (\<forall>x\<in>set xs. \<not> P x)"
  by (induction xs) auto

lemma mset_js_insert_at [simp]: "mset (js_insert_at i x xs) = add_mset x (mset xs)"
proof -
  have "mset (take i xs @ drop i xs) = mset xs" by (simp only: append_take_drop_id)
  then have "mset (take i xs) + mset (drop i xs) = mset xs" by (simp only: mset_append)
  then show ?thesis by (simp add: js_insert_at_def)
qed

section \<open>Stable sorting with a comparator\<close>

text \<open>
  \<open>xs.sort(cmp)\<close> is stable since ES2019. Insertion from the right puts an element before
  the equal ones that came after it, which is the stable order.
\<close>

fun js_insort :: "('a \<Rightarrow> 'a \<Rightarrow> int) \<Rightarrow> 'a \<Rightarrow> 'a list \<Rightarrow> 'a list" where
  "js_insort cmp x [] = [x]"
| "js_insort cmp x (y # ys) = (if cmp x y \<le> 0 then x # y # ys else y # js_insort cmp x ys)"

definition js_sort :: "('a \<Rightarrow> 'a \<Rightarrow> int) \<Rightarrow> 'a list \<Rightarrow> 'a list" where
  "js_sort cmp xs = foldr (js_insort cmp) xs []"

text \<open>Comparators built as in the source: \<open>a.k - b.k\<close>, and \<open>c1 || c2\<close>.\<close>

definition cmp_key :: "('a \<Rightarrow> int) \<Rightarrow> 'a \<Rightarrow> 'a \<Rightarrow> int" where
  "cmp_key k a b = k a - k b"

definition cmp_then :: "('a \<Rightarrow> 'a \<Rightarrow> int) \<Rightarrow> ('a \<Rightarrow> 'a \<Rightarrow> int) \<Rightarrow> 'a \<Rightarrow> 'a \<Rightarrow> int" where
  "cmp_then c d a b = (if c a b \<noteq> 0 then c a b else d a b)"

definition cmp_on :: "('a \<Rightarrow> 'b) \<Rightarrow> ('b \<Rightarrow> 'b \<Rightarrow> int) \<Rightarrow> 'a \<Rightarrow> 'a \<Rightarrow> int" where
  "cmp_on f c a b = c (f a) (f b)"

text \<open>Comparison of strings by code units, one concrete collation.\<close>

definition code_unit_compare :: "string \<Rightarrow> string \<Rightarrow> int" where
  "code_unit_compare a b = (if a = b then 0 else if a < b then -1 else 1)"

lemma set_js_insort [simp]: "set (js_insort cmp x xs) = insert x (set xs)"
  by (induction xs) auto

lemma mset_js_insort [simp]: "mset (js_insort cmp x xs) = add_mset x (mset xs)"
  by (induction xs) auto

lemma mset_js_sort [simp]: "mset (js_sort cmp xs) = mset xs"
  by (induction xs) (auto simp: js_sort_def)

lemma set_js_sort [simp]: "set (js_sort cmp xs) = set xs"
  by (metis mset_js_sort set_mset_mset)

lemma length_js_sort [simp]: "length (js_sort cmp xs) = length xs"
  by (metis mset_js_sort size_mset)

lemma js_sort_eq_Nil [simp]: "js_sort cmp xs = [] \<longleftrightarrow> xs = []"
  by (metis length_0_conv length_js_sort)

lemma js_sort_Nil [simp]: "js_sort cmp [] = []"
  by (simp add: js_sort_def)

lemma js_sort_Cons: "js_sort cmp (x # xs) = js_insort cmp x (js_sort cmp xs)"
  by (simp add: js_sort_def)

text \<open>
  What \<open>Array.prototype.sort\<close> requires of a comparison function (a consistent comparator):
  a total preorder, told by the sign of the result.
\<close>

locale comparator =
  fixes cmp :: "'a \<Rightarrow> 'a \<Rightarrow> int"
  assumes cmp_refl: "cmp x x = 0"
    and cmp_flip: "cmp x y \<le> 0 \<longleftrightarrow> 0 \<le> cmp y x"
    and cmp_trans: "cmp x y \<le> 0 \<Longrightarrow> cmp y z \<le> 0 \<Longrightarrow> cmp x z \<le> 0"
begin

lemma cmp_total: "cmp x y \<le> 0 \<or> cmp y x \<le> 0"
  using cmp_flip [of x y] by linarith

lemma cmp_zero_flip: "cmp x y = 0 \<longleftrightarrow> cmp y x = 0"
  using cmp_flip [of x y] cmp_flip [of y x] by linarith

lemma cmp_neg_flip: "cmp x y < 0 \<longleftrightarrow> 0 < cmp y x"
  using cmp_flip [of x y] cmp_flip [of y x] by linarith

lemma insort_sorted:
  "sorted_wrt (\<lambda>a b. cmp a b \<le> 0) ys \<Longrightarrow> sorted_wrt (\<lambda>a b. cmp a b \<le> 0) (js_insort cmp x ys)"
proof (induction ys)
  case (Cons y ys)
  show ?case
  proof (cases "cmp x y \<le> 0")
    case True
    with Cons.prems show ?thesis by (auto intro: cmp_trans)
  next
    case False
    with cmp_total [of x y] have "cmp y x \<le> 0" by blast
    with False Cons show ?thesis by auto
  qed
qed simp

lemma sort_sorted: "sorted_wrt (\<lambda>a b. cmp a b \<le> 0) (js_sort cmp xs)"
  by (induction xs) (auto simp: js_sort_Cons intro: insort_sorted)

lemma sort_hd_least: "xs \<noteq> [] \<Longrightarrow> y \<in> set xs \<Longrightarrow> cmp (hd (js_sort cmp xs)) y \<le> 0"
proof -
  assume "xs \<noteq> []" and y: "y \<in> set xs"
  then obtain z zs where z: "js_sort cmp xs = z # zs"
    by (cases "js_sort cmp xs") auto
  with sort_sorted [of xs] have "\<forall>b\<in>set zs. cmp z b \<le> 0" by simp
  moreover from y z have "y \<in> set (z # zs)" by (metis set_js_sort)
  ultimately show ?thesis using z cmp_refl by auto
qed

lemma sorted_unique:
  assumes "mset xs = mset ys"
    and "sorted_wrt (\<lambda>a b. cmp a b \<le> 0) xs" "sorted_wrt (\<lambda>a b. cmp a b \<le> 0) ys"
    and "\<And>a b. a \<in> set xs \<Longrightarrow> b \<in> set xs \<Longrightarrow> cmp a b = 0 \<Longrightarrow> a = b"
  shows "xs = ys"
  using assms
proof (induction xs arbitrary: ys)
  case Nil
  then show ?case by simp
next
  case (Cons x xs)
  then obtain y ys' where ys: "ys = y # ys'" by (cases ys) auto
  have sets: "set (x # xs) = set (y # ys')"
    using Cons.prems(1) ys by (metis set_mset_mset)
  have "cmp x y \<le> 0"
    using Cons.prems(2) sets cmp_refl by (metis list.set_intros(1) order_refl set_ConsD sorted_wrt.simps(2))
  moreover have "cmp y x \<le> 0"
    using Cons.prems(3) ys sets cmp_refl by (metis list.set_intros(1) order_refl set_ConsD sorted_wrt.simps(2))
  ultimately have "cmp x y = 0" using cmp_flip [of y x] by linarith
  then have "x = y" using Cons.prems(4) sets by auto
  with Cons ys show ?case by auto
qed

text \<open>The sorted array does not depend on the order of the input when ties are equal elements.\<close>

lemma sort_perm_invariant:
  assumes "mset xs = mset ys"
    and "\<And>a b. a \<in> set xs \<Longrightarrow> b \<in> set xs \<Longrightarrow> cmp a b = 0 \<Longrightarrow> a = b"
  shows "js_sort cmp xs = js_sort cmp ys"
  by (rule sorted_unique) (use assms sort_sorted in auto)

text \<open>Stability: elements that compare equal keep their order.\<close>

lemma insort_filter_eq:
  "sorted_wrt (\<lambda>a b. cmp a b \<le> 0) ys \<Longrightarrow>
   filter (\<lambda>b. cmp z b = 0) (js_insort cmp x ys) =
     (if cmp z x = 0 then x # filter (\<lambda>b. cmp z b = 0) ys else filter (\<lambda>b. cmp z b = 0) ys)"
proof (induction ys)
  case (Cons y ys)
  show ?case
  proof (cases "cmp x y \<le> 0")
    case False
    then have "cmp z x = 0 \<Longrightarrow> cmp z y \<noteq> 0"
      using cmp_trans [of x z y] cmp_zero_flip [of z x] by auto
    with False Cons show ?thesis by auto
  qed auto
qed auto

lemma sort_stable: "filter (\<lambda>b. cmp z b = 0) (js_sort cmp xs) = filter (\<lambda>b. cmp z b = 0) xs"
  by (induction xs) (auto simp: js_sort_Cons insort_filter_eq sort_sorted)

end

interpretation code_units: comparator code_unit_compare
proof unfold_locales
  fix x y z :: string
  show "code_unit_compare x x = 0" by (simp add: code_unit_compare_def)
  show "code_unit_compare x y \<le> 0 \<longleftrightarrow> 0 \<le> code_unit_compare y x"
    by (auto simp: code_unit_compare_def)
  show "code_unit_compare x y \<le> 0 \<Longrightarrow> code_unit_compare y z \<le> 0 \<Longrightarrow> code_unit_compare x z \<le> 0"
    by (auto simp: code_unit_compare_def split: if_splits)
qed

lemma comparator_cmp_key: "comparator (cmp_key k)"
  by unfold_locales (auto simp: cmp_key_def)

lemma comparator_cmp_on: "comparator c \<Longrightarrow> comparator (cmp_on f c)"
  unfolding comparator_def cmp_on_def by blast

lemma comparator_cmp_then:
  assumes "comparator c" and "comparator d"
  shows "comparator (cmp_then c d)"
proof -
  note flips = comparator.cmp_flip [OF assms(1)] comparator.cmp_flip [OF assms(2)]
  note zero = comparator.cmp_zero_flip [OF assms(1)]
  show ?thesis
  proof
    fix x y z
    show "cmp_then c d x x = 0"
      using assms by (simp add: cmp_then_def comparator.cmp_refl)
    show "cmp_then c d x y \<le> 0 \<longleftrightarrow> 0 \<le> cmp_then c d y x"
      using flips zero [of x y] by (auto simp: cmp_then_def)
    show "cmp_then c d x z \<le> 0" if 1: "cmp_then c d x y \<le> 0" and 2: "cmp_then c d y z \<le> 0"
    proof -
      have xy: "c x y \<le> 0" and yz: "c y z \<le> 0"
        using 1 2 by (auto simp: cmp_then_def split: if_splits)
      then have xz: "c x z \<le> 0" by (rule comparator.cmp_trans [OF assms(1)])
      show ?thesis
      proof (cases "c x z = 0")
        case False
        with xz show ?thesis by (simp add: cmp_then_def)
      next
        case True
        then have "c z x \<le> 0" using zero [of x z] by simp
        then have "c y x \<le> 0" "c z y \<le> 0"
          using xy yz comparator.cmp_trans [OF assms(1)] by blast+
        then have "c x y = 0" "c y z = 0"
          using xy yz flips(1) by (meson dual_order.antisym)+
        with 1 2 True show ?thesis
          by (auto simp: cmp_then_def intro: comparator.cmp_trans [OF assms(2)])
      qed
    qed
  qed
qed

end
