(* ===== verification/Interfaces.thy ===== *)
theory Interfaces
  imports Prelude
begin

text \<open>
  The contracts that several components share. A component that provides one interprets the
  locale in its own theory; a client proves its facts once, here or in a \<open>context\<close> block.

  \<^item> \<open>state_machine\<close>: a step function and an invariant it keeps, with the run lemma;
    \<open>latched_machine\<close> adds a flag that no step clears.
  \<^item> \<open>bounded_window\<close>: a bounded buffer that keeps the most recent entries (the
    transaction journal, the duration window, the recorded drafts, a version history).
  \<^item> \<open>keyed_cache\<close>: a bounded cache; \<open>memo\<close> is the look-up-or-compute client of the
    pattern and body caches, and returns what computing afresh would.
\<close>

section \<open>State machines\<close>

locale state_machine =
  fixes step :: "'s \<Rightarrow> 'e \<Rightarrow> 's"
    and ok :: "'s \<Rightarrow> bool"
  assumes step_ok: "ok s \<Longrightarrow> ok (step s e)"
begin

lemma run_ok: "ok s \<Longrightarrow> ok (foldl step s es)"
  by (induction es arbitrary: s) (auto intro: step_ok)

end

locale latched_machine = state_machine step ok
  for step :: "'s \<Rightarrow> 'e \<Rightarrow> 's" and ok +
  fixes latch :: "'s \<Rightarrow> bool"
  assumes step_latch: "ok s \<Longrightarrow> latch s \<Longrightarrow> latch (step s e)"
begin

lemma run_latch: "ok s \<Longrightarrow> latch s \<Longrightarrow> latch (foldl step s es)"
  by (induction es arbitrary: s) (auto intro: step_ok step_latch)

lemma run_latch_append:
  "ok s \<Longrightarrow> latch (foldl step s es) \<Longrightarrow> latch (foldl step s (es @ fs))"
  by (simp add: run_latch run_ok)

end

section \<open>Bounded windows\<close>

locale bounded_window =
  fixes contents :: "'s \<Rightarrow> 'a list"
    and push :: "'s \<Rightarrow> 'a \<Rightarrow> 's"
    and bound :: "'s \<Rightarrow> nat"
    and inv :: "'s \<Rightarrow> bool"
  assumes push_inv: "inv s \<Longrightarrow> inv (push s x)"
    and push_bound: "inv s \<Longrightarrow> bound (push s x) = bound s"
    and push_contents: "inv s \<Longrightarrow> contents (push s x) = keep_last (bound s) (contents s @ [x])"
    and contents_bound: "inv s \<Longrightarrow> length (contents s) \<le> bound s"
begin

sublocale state_machine push inv
  by unfold_locales (rule push_inv)

lemma run_bound: "inv s \<Longrightarrow> bound (foldl push s xs) = bound s"
  by (induction xs arbitrary: s) (auto simp: push_bound push_inv)

text \<open>After any run of pushes the window holds the most recent entries, oldest first.\<close>

lemma run_contents: "inv s \<Longrightarrow> contents (foldl push s xs) = keep_last (bound s) (contents s @ xs)"
proof (induction xs arbitrary: s)
  case Nil
  then show ?case by (simp add: contents_bound)
next
  case (Cons x xs)
  then show ?case
    by (simp add: push_inv push_bound push_contents keep_last_append)
qed

lemma run_length: "inv s \<Longrightarrow> length (contents (foldl push s xs)) \<le> bound s"
  by (simp add: run_contents)

lemma run_retains: "inv s \<Longrightarrow> length xs \<le> bound s \<Longrightarrow> suffix xs (contents (foldl push s xs))"
  by (auto simp: run_contents keep_last_def suffix_def)

end

section \<open>Caches\<close>

text \<open>
  \<open>stored c k v\<close>: the cache \<open>c\<close> holds \<open>v\<close> for \<open>k\<close>. A look-up answers only what
  is stored and may reorder the entries; a store may evict any other entry but invents none.
\<close>

locale keyed_cache =
  fixes lookup :: "'c \<Rightarrow> 'k \<Rightarrow> 'v option \<times> 'c"
    and store :: "'c \<Rightarrow> 'k \<Rightarrow> 'v \<Rightarrow> 'c"
    and stored :: "'c \<Rightarrow> 'k \<Rightarrow> 'v \<Rightarrow> bool"
    and entries :: "'c \<Rightarrow> nat"
    and limit :: "'c \<Rightarrow> nat"
    and inv :: "'c \<Rightarrow> bool"
  assumes lookup_stored: "inv c \<Longrightarrow> lookup c k = (Some v, c') \<Longrightarrow> stored c k v"
    and lookup_keeps: "inv c \<Longrightarrow> stored (snd (lookup c k)) k' v' \<Longrightarrow> stored c k' v'"
    and lookup_inv: "inv c \<Longrightarrow> inv (snd (lookup c k))"
    and store_sound: "inv c \<Longrightarrow> stored (store c k v) k' v' \<Longrightarrow> (k' = k \<and> v' = v) \<or> stored c k' v'"
    and store_inv: "inv c \<Longrightarrow> inv (store c k v)"
    and within_limit: "inv c \<Longrightarrow> entries c \<le> limit c"
begin

definition memo :: "('k \<Rightarrow> 'v) \<Rightarrow> 'c \<Rightarrow> 'k \<Rightarrow> 'v \<times> 'c" where
  "memo f c k = (case lookup c k of
     (Some v, c') \<Rightarrow> (v, c')
   | (None, c') \<Rightarrow> (f k, store c' k (f k)))"

definition sound :: "('k \<Rightarrow> 'v) \<Rightarrow> 'c \<Rightarrow> bool" where
  "sound f c = (\<forall>k v. stored c k v \<longrightarrow> v = f k)"

lemma memo_result: "inv c \<Longrightarrow> sound f c \<Longrightarrow> fst (memo f c k) = f k"
  by (auto simp: memo_def sound_def split: prod.splits option.splits dest: lookup_stored)

lemma memo_inv: "inv c \<Longrightarrow> inv (snd (memo f c k))"
  using lookup_inv [of c k] by (auto simp: memo_def split: prod.splits option.splits intro: store_inv)

lemma memo_sound: "inv c \<Longrightarrow> sound f c \<Longrightarrow> sound f (snd (memo f c k))"
proof -
  assume c: "inv c" "sound f c"
  obtain r c' where l: "lookup c k = (r, c')" by fastforce
  have i: "inv c'" using lookup_inv [OF c(1), of k] l by simp
  have s: "sound f c'"
    using c lookup_keeps [OF c(1), of k] l by (auto simp: sound_def)
  show ?thesis
  proof (cases r)
    case None
    with l i s store_sound [OF i, of k "f k"] show ?thesis
      by (fastforce simp: memo_def sound_def)
  next
    case (Some v)
    with l s show ?thesis by (simp add: memo_def)
  qed
qed

text \<open>A whole run of requests through the cache gives what computing each afresh gives.\<close>

fun memo_run :: "('k \<Rightarrow> 'v) \<Rightarrow> 'c \<Rightarrow> 'k list \<Rightarrow> 'v list \<times> 'c" where
  "memo_run f c [] = ([], c)"
| "memo_run f c (k # ks) =
     (let (v, c') = memo f c k; (vs, c'') = memo_run f c' ks in (v # vs, c''))"

lemma memo_run_correct:
  "inv c \<Longrightarrow> sound f c \<Longrightarrow>
   fst (memo_run f c ks) = map f ks \<and> inv (snd (memo_run f c ks)) \<and> sound f (snd (memo_run f c ks))"
proof (induction ks arbitrary: c)
  case (Cons k ks)
  obtain v c' where m: "memo f c k = (v, c')" by fastforce
  with Cons.prems have "v = f k" "inv c'" "sound f c'"
    using memo_result [of c f k] memo_inv [of c f k] memo_sound [of c f k] by auto
  with m Cons.IH [of c'] show ?case by (auto simp: Let_def split: prod.splits)
qed simp

end

end
