(* ===== verification/Mock_Types.thy ===== *)
theory Mock_Types
  imports Prelude
begin

text \<open>
  The data model of the API mock engine, from \<open>src/shared/api-mock/contracts.ts\<close>: string
  unions are datatypes, interfaces are records, an optional field is an \<open>option\<close>.
  Timestamps and ids are strings, as in the source; counts, statuses, priorities, delays
  and weights are integers; a probability is a rational.

  \<open>js_host\<close> collects what the engine takes from the JavaScript host and the model does not
  fix: the regular-expression engine on user-supplied patterns, the JSON text codec, number
  formatting, URI and form decoding, and the collation of \<open>localeCompare\<close>; and the content
  matchers of \<open>schemaMatchers.ts\<close> and \<open>xpathMatcher.ts\<close>, which are not modelled. Every
  theorem holds for all hosts, or states what it needs of one.
\<close>

section \<open>JSON values\<close>

text \<open>A data value: what \<open>JSON.parse\<close> returns, and \<open>undefined\<close>, which a path walk or a
missing property yields.\<close>

datatype json =
    JUndef
  | JNull
  | JBool bool
  | JNum rat
  | JStr string
  | JArr "json list"
  | JObj "(string \<times> json) list"

section \<open>Enumerations\<close>

datatype mock_method =
  M_ANY | M_GET | M_HEAD | M_POST | M_PUT | M_PATCH | M_DELETE | M_OPTIONS | M_TRACE

fun method_name :: "mock_method \<Rightarrow> string" where
  "method_name M_ANY = ''ANY''"
| "method_name M_GET = ''GET''"
| "method_name M_HEAD = ''HEAD''"
| "method_name M_POST = ''POST''"
| "method_name M_PUT = ''PUT''"
| "method_name M_PATCH = ''PATCH''"
| "method_name M_DELETE = ''DELETE''"
| "method_name M_OPTIONS = ''OPTIONS''"
| "method_name M_TRACE = ''TRACE''"

datatype predicate_operator =
    Op_exact | Op_contains | Op_prefix | Op_suffix
  | Op_regex | Op_glob
  | Op_present | Op_absent
  | Op_jsonPath_exists | Op_jsonPath_equals
  | Op_jsonSchema
  | Op_json_strict | Op_json_subset
  | Op_xpath_exists | Op_xpath_equals
  | Op_xmlSchema
  | Op_form_field_exact | Op_form_field_regex | Op_form_field_present
  | Op_multipart_field | Op_multipart_file
  | Op_binary_exact | Op_binary_sha256

fun operator_name :: "predicate_operator \<Rightarrow> string" where
  "operator_name Op_exact = ''exact''"
| "operator_name Op_contains = ''contains''"
| "operator_name Op_prefix = ''prefix''"
| "operator_name Op_suffix = ''suffix''"
| "operator_name Op_regex = ''regex''"
| "operator_name Op_glob = ''glob''"
| "operator_name Op_present = ''present''"
| "operator_name Op_absent = ''absent''"
| "operator_name Op_jsonPath_exists = ''jsonPath_exists''"
| "operator_name Op_jsonPath_equals = ''jsonPath_equals''"
| "operator_name Op_jsonSchema = ''jsonSchema''"
| "operator_name Op_json_strict = ''json_strict''"
| "operator_name Op_json_subset = ''json_subset''"
| "operator_name Op_xpath_exists = ''xpath_exists''"
| "operator_name Op_xpath_equals = ''xpath_equals''"
| "operator_name Op_xmlSchema = ''xmlSchema''"
| "operator_name Op_form_field_exact = ''form_field_exact''"
| "operator_name Op_form_field_regex = ''form_field_regex''"
| "operator_name Op_form_field_present = ''form_field_present''"
| "operator_name Op_multipart_field = ''multipart_field''"
| "operator_name Op_multipart_file = ''multipart_file''"
| "operator_name Op_binary_exact = ''binary_exact''"
| "operator_name Op_binary_sha256 = ''binary_sha256''"

datatype response_mode = Mode_rules | Mode_sequence | Mode_weighted | Mode_state

datatype server_state =
  St_stopped | St_starting | St_running | St_applying | St_draining | St_error

datatype path_kind = Path_exact | Path_parameterized | Path_glob | Path_regex

datatype body_kind =
  Body_none | Body_text | Body_json | Body_xml | Body_html | Body_form | Body_binary_base64 | Body_file

datatype fault_kind =
  Fault_none | Fault_timeout | Fault_close | Fault_reset | Fault_malformed | Fault_dribble

datatype outcome =
  Out_matched | Out_ambiguous | Out_unmatched | Out_fault | Out_error | Out_proxied

datatype severity = Sev_error | Sev_warning | Sev_info

datatype predicate_source =
  Src_pathParam | Src_query | Src_header | Src_cookie | Src_security | Src_body | Src_transport

fun source_name :: "predicate_source \<Rightarrow> string" where
  "source_name Src_pathParam = ''pathParam''"
| "source_name Src_query = ''query''"
| "source_name Src_header = ''header''"
| "source_name Src_cookie = ''cookie''"
| "source_name Src_security = ''security''"
| "source_name Src_body = ''body''"
| "source_name Src_transport = ''transport''"

text \<open>The evaluator also handles a combinator outside the declared union (data from a file).\<close>

datatype combinator = Comb_all | Comb_any | Comb_not | Comb_other string

fun combinator_name :: "combinator \<Rightarrow> string" where
  "combinator_name Comb_all = ''all''"
| "combinator_name Comb_any = ''any''"
| "combinator_name Comb_not = ''not''"
| "combinator_name (Comb_other s) = s"

datatype match_style = Style_subset | Style_exact

text \<open>Severities order by how serious they are, the least serious first.\<close>

fun severity_rank :: "severity \<Rightarrow> nat" where
  "severity_rank Sev_info = 0"
| "severity_rank Sev_warning = 1"
| "severity_rank Sev_error = 2"

instantiation severity :: linorder
begin

definition less_eq_severity :: "severity \<Rightarrow> severity \<Rightarrow> bool" where
  "less_eq_severity a b = (severity_rank a \<le> severity_rank b)"

definition less_severity :: "severity \<Rightarrow> severity \<Rightarrow> bool" where
  "less_severity a b = (severity_rank a < severity_rank b)"

instance
proof
  fix x y :: severity
  show "x \<le> y \<Longrightarrow> y \<le> x \<Longrightarrow> x = y"
    by (cases x; cases y) (auto simp: less_eq_severity_def)
qed (auto simp: less_eq_severity_def less_severity_def)

end

section \<open>Predicates\<close>

record predicate_options =
  opt_caseSensitive :: "bool option"
  opt_negate :: "bool option"
  opt_matchStyle :: "match_style option"

text \<open>The expected value is one of a string, a number, a boolean, null, a list of strings,
or an object of those: a JSON value; an absent field is \<open>None\<close>.\<close>

record predicate =
  p_id :: string
  p_source :: predicate_source
  p_selector :: "string option"
  p_operator :: predicate_operator
  p_expected :: "json option"
  p_options :: "predicate_options option"

datatype predicate_group = PGroup (group_id: string) (group_comb: combinator) (group_children: "predicate_node list")
  and predicate_node = PLeaf predicate | PSub predicate_group

section \<open>The host\<close>

text \<open>A value read from a request: a string, several strings (repeated query parameters and
headers), or null.\<close>

datatype pvalue = VNull | VStr string | VList "string list"

record js_host =
  regex_compile :: "string \<Rightarrow> string \<Rightarrow> (string \<Rightarrow> bool) option"
    \<comment> \<open>\<open>new RegExp(source, flags)\<close> as its \<open>test\<close>; \<open>None\<close> where the constructor throws\<close>
  json_parse :: "string \<Rightarrow> json option"
    \<comment> \<open>\<open>JSON.parse\<close>; \<open>None\<close> where it throws\<close>
  json_stringify :: "json \<Rightarrow> string"
  num_to_string :: "rat \<Rightarrow> string"
  locale_compare :: "string \<Rightarrow> string \<Rightarrow> int"
  decode_uri :: "string \<Rightarrow> string option"
    \<comment> \<open>\<open>decodeURIComponent\<close>; \<open>None\<close> where it throws\<close>
  form_get :: "string \<Rightarrow> string \<Rightarrow> string option"
    \<comment> \<open>\<open>new URLSearchParams(body).get(name)\<close>\<close>
  content_matcher :: "predicate_operator \<Rightarrow> pvalue \<Rightarrow> json option \<Rightarrow> predicate_options option \<Rightarrow> string option \<Rightarrow> bool"
    \<comment> \<open>the schema, XML, multipart and digest matchers (not modelled); the last argument is
      the content type\<close>

section \<open>Routes and responses\<close>

record path_matcher =
  pm_kind :: path_kind
  pm_value :: string
  pm_paramNames :: "string list option"
  pm_caseInsensitive :: "bool option"

record response_cookie =
  ck_id :: string
  ck_name :: string
  ck_value :: string
  ck_enabled :: bool
  ck_domain :: "string option"
  ck_path :: "string option"
  ck_maxAge :: "int option"
  ck_expires :: "string option"
  ck_secure :: bool
  ck_httpOnly :: bool
  ck_sameSite :: "string option"

record response_body =
  rb_kind :: body_kind
  rb_content :: string
  rb_contentType :: "string option"

record body_chunk =
  chunk_afterMs :: int
  chunk_body :: string

record behavior =
  bh_delayMs :: int
  bh_jitterMs :: int
  bh_longRunningMs :: "int option"
  bh_chunkSchedule :: "body_chunk list option"
  bh_maxMatches :: "int option"
  bh_expiresAt :: "string option"
  bh_fault :: "fault_kind option"
  bh_probability :: "rat option"

record counter_update =
  cu_key :: string
  cu_delta :: int

record state_transition =
  tr_currentState :: "string option"
  tr_targetState :: string
  tr_counterUpdates :: "counter_update list option"

record response_header =
  rh_id :: string
  rh_key :: string
  rh_value :: string
  rh_enabled :: bool

datatype transform_op = Set_Header | Append_Header | Remove_Header | Set_Status | Replace_Body

record transform_rule =
  tf_id :: string
  tf_enabled :: bool
  tf_op :: transform_op
  tf_key :: "string option"
  tf_value :: "string option"

text \<open>Callbacks of a variant are outbound calls made after delivery and are not modelled.\<close>

record response_variant =
  rv_id :: string
  rv_name :: string
  rv_enabled :: bool
  rv_isDefault :: bool
  rv_conditions :: "predicate_group option"
  rv_weight :: "int option"
  rv_status :: int
  rv_headers :: "response_header list"
  rv_cookies :: "response_cookie list"
  rv_body :: response_body
  rv_behavior :: behavior
  rv_transition :: "state_transition option"
  rv_transforms :: "transform_rule list"

record route =
  rt_id :: string
  rt_name :: string
  rt_enabled :: bool
  rt_method :: mock_method
  rt_path :: path_matcher
  rt_priority :: int
  rt_predicates :: predicate_group
  rt_responseMode :: response_mode
  rt_responses :: "response_variant list"
  rt_tags :: "string list"

section \<open>Settings\<close>

datatype multiple_match_policy = Pol_highest_priority | Pol_reject_multiple
datatype equal_priority_policy = Eq_specificity_then_id | Eq_reject

record static_header =
  sh_key :: string
  sh_value :: string

record static_response =
  sr_status :: int
  sr_headers :: "static_header list"
  sr_body :: string
  sr_contentType :: string

record selection_settings =
  sel_multipleMatchPolicy :: multiple_match_policy
  sel_equalPriorityPolicy :: equal_priority_policy
  sel_ambiguityResponse :: static_response

record journal_settings =
  js_enabled :: bool
  js_maxEntries :: int
  js_maxCapturedBodyBytes :: int
  js_persistToDisk :: bool

record redaction_settings =
  rd_headerNames :: "string list"
  rd_jsonPaths :: "string list"
  rd_preserveScheme :: bool

record cors_settings =
  cors_enabled :: bool
  cors_allowOrigins :: "string list"
  cors_allowMethods :: "mock_method list"
  cors_allowHeaders :: "string list"
  cors_allowCredentials :: bool
  cors_maxAge :: "int option"
  cors_exposeHeaders :: "string list"

datatype fallback_mode = Fall_default_response | Fall_closest_match_debug | Fall_proxy

record fallback_settings =
  fb_unmatchedResponse :: static_response
  fb_mode :: fallback_mode

record proxy_settings =
  px_enabled :: bool
  px_allowlist :: "string list"
  px_blockPrivateNetworks :: bool
  px_maxRedirects :: int
  px_stripHopByHop :: bool
  px_forwardAuth :: bool
  px_forwardCredentialHeaders :: "string list"
  px_timeoutMs :: int
  px_maxResponseBytes :: int
  px_recordAsDrafts :: bool

record limit_settings =
  lim_maxInboundBodyBytes :: nat
  lim_maxResponseBodyBytes :: nat
  lim_maxDelayMs :: int
  lim_longRunningMaxMs :: int

record server_settings =
  ss_selection :: selection_settings
  ss_fallback :: fallback_settings
  ss_proxy :: "proxy_settings option"
  ss_limits :: limit_settings
  ss_journal :: journal_settings
  ss_redaction :: redaction_settings
  ss_cors :: cors_settings

record api_variable =
  av_key :: string
  av_value :: string

record server_definition =
  sd_id :: string
  sd_port :: int
  sd_basePath :: string
  sd_routes :: "route list"
  sd_variables :: "api_variable list"
  sd_settings :: server_settings

section \<open>Captured requests, responses and match explanations\<close>

record captured_request =
  rq_method :: string
  rq_path :: string
  rq_rawPath :: string
  rq_query :: "string list record_bag"
  rq_headers :: "string list record_bag"
  rq_cookies :: "string record_bag"
  rq_body :: "string option"
  rq_bodyTruncated :: bool
  rq_contentType :: "string option"
  rq_contentLength :: "int option"
  rq_remoteAddress :: "string option"
  rq_receivedAt :: string
  rq_clientCertSubject :: "string option"
  rq_clientCertFingerprint :: "string option"

record captured_response =
  rs_status :: int
  rs_headers :: "string list record_bag"
  rs_cookies :: "response_cookie list"
  rs_body :: "string option"
  rs_bodyTruncated :: bool
  rs_contentType :: "string option"
  rs_durationMs :: int
  rs_generationAtResponse :: nat

record predicate_result =
  pr_predicateId :: string
  pr_groupId :: string
  pr_source :: string
  pr_operator :: predicate_operator
  pr_passed :: bool
  pr_evaluated :: bool
  pr_reason :: "string option"
  pr_selector :: "string option"
  pr_combinator :: "combinator option"

record normalized_summary =
  nz_method :: string
  nz_path :: string
  nz_decodedPath :: string
  nz_pathSegments :: "string list"
  nz_query :: "string list record_bag"
  nz_headerKeys :: "string list"
  nz_cookieKeys :: "string list"
  nz_bodyContentType :: "string option"
  nz_bodySizeBytes :: nat

record candidate =
  cd_routeId :: string
  cd_routeName :: string
  cd_priority :: int
  cd_enabled :: bool
  cd_methodMatch :: bool
  cd_pathMatch :: bool
  cd_predicateResults :: "predicate_result list"
  cd_overallMatch :: bool

record specificity_component =
  sc_source :: string
  sc_weight :: int

record specificity_row =
  sp_routeId :: string
  sp_score :: int
  sp_components :: "specificity_component list"

record policy_decision =
  pd_policy :: multiple_match_policy
  pd_equalPriorityPolicy :: equal_priority_policy
  pd_matchedCount :: nat
  pd_highestPriority :: int
  pd_tiedAtHighest :: nat
  pd_outcome :: outcome
  pd_selectedRouteId :: "string option"
  pd_selectedResponseId :: "string option"
  pd_specificityBreakdown :: "specificity_row list option"

record failed_predicate =
  fp_predicateId :: string
  fp_source :: string
  fp_reason :: string

record near_miss =
  nm_routeId :: string
  nm_routeName :: string
  nm_failedPredicates :: "failed_predicate list"
  nm_missDistance :: int

record match_explanation =
  me_normalizedRequest :: normalized_summary
  me_candidates :: "candidate list"
  me_policyDecision :: policy_decision
  me_nearMisses :: "near_miss list"

record transaction =
  tx_id :: string
  tx_serverId :: string
  tx_generation :: nat
  tx_request :: captured_request
  tx_response :: "captured_response option"
  tx_outcome :: outcome
  tx_matchedRouteId :: "string option"
  tx_matchedResponseId :: "string option"

section \<open>A concrete host and sample data\<close>

text \<open>For evaluating the model on concrete inputs: no pattern compiles, no text parses, text
collates by code units.\<close>

definition sample_host :: js_host where
  "sample_host =
     \<lparr>regex_compile = (\<lambda>source flags. None), json_parse = (\<lambda>s. None), json_stringify = (\<lambda>v. ''''),
      num_to_string = (\<lambda>n. ''''), locale_compare = code_unit_compare, decode_uri = (\<lambda>s. Some s),
      form_get = (\<lambda>body name. None), content_matcher = (\<lambda>op v e ob t. False)\<rparr>"

definition sample_behavior :: behavior where
  "sample_behavior =
     \<lparr>bh_delayMs = 0, bh_jitterMs = 0, bh_longRunningMs = None, bh_chunkSchedule = None,
      bh_maxMatches = None, bh_expiresAt = None, bh_fault = None, bh_probability = None\<rparr>"

definition sample_variant :: "string \<Rightarrow> response_variant" where
  "sample_variant i =
     \<lparr>rv_id = i, rv_name = i, rv_enabled = True, rv_isDefault = True, rv_conditions = None,
      rv_weight = None, rv_status = 200, rv_headers = [], rv_cookies = [],
      rv_body = \<lparr>rb_kind = Body_none, rb_content = '''', rb_contentType = None\<rparr>,
      rv_behavior = sample_behavior, rv_transition = None, rv_transforms = []\<rparr>"

definition sample_route :: "string \<Rightarrow> string \<Rightarrow> route" where
  "sample_route i path =
     \<lparr>rt_id = i, rt_name = i, rt_enabled = True, rt_method = M_GET,
      rt_path = \<lparr>pm_kind = Path_exact, pm_value = path, pm_paramNames = None, pm_caseInsensitive = None\<rparr>,
      rt_priority = 0, rt_predicates = PGroup ''g'' Comb_all [], rt_responseMode = Mode_rules,
      rt_responses = [sample_variant (i @ ''-ok'')], rt_tags = []\<rparr>"

definition sample_request :: "string \<Rightarrow> captured_request" where
  "sample_request path =
     \<lparr>rq_method = ''GET'', rq_path = path, rq_rawPath = path, rq_query = [], rq_headers = [],
      rq_cookies = [], rq_body = None, rq_bodyTruncated = False, rq_contentType = None,
      rq_contentLength = None, rq_remoteAddress = None, rq_receivedAt = '''',
      rq_clientCertSubject = None, rq_clientCertFingerprint = None\<rparr>"

definition sample_settings :: server_settings where
  "sample_settings =
     \<lparr>ss_selection = \<lparr>sel_multipleMatchPolicy = Pol_highest_priority,
        sel_equalPriorityPolicy = Eq_specificity_then_id,
        sel_ambiguityResponse = \<lparr>sr_status = 409, sr_headers = [], sr_body = '''', sr_contentType = ''''\<rparr>\<rparr>,
      ss_fallback = \<lparr>fb_unmatchedResponse = \<lparr>sr_status = 404, sr_headers = [], sr_body = '''', sr_contentType = ''''\<rparr>,
        fb_mode = Fall_default_response\<rparr>,
      ss_proxy = None,
      ss_limits = \<lparr>lim_maxInboundBodyBytes = 64, lim_maxResponseBodyBytes = 64, lim_maxDelayMs = 60000,
        lim_longRunningMaxMs = 30000\<rparr>,
      ss_journal = \<lparr>js_enabled = True, js_maxEntries = 2, js_maxCapturedBodyBytes = 8, js_persistToDisk = False\<rparr>,
      ss_redaction = \<lparr>rd_headerNames = [], rd_jsonPaths = [], rd_preserveScheme = False\<rparr>,
      ss_cors = \<lparr>cors_enabled = False, cors_allowOrigins = [], cors_allowMethods = [], cors_allowHeaders = [],
        cors_allowCredentials = False, cors_maxAge = None, cors_exposeHeaders = []\<rparr>\<rparr>"

lemma sample_host_collation: "comparator (locale_compare sample_host)"
  by (simp add: sample_host_def code_units.comparator_axioms)

lemma sample_host_collation_strict: "locale_compare sample_host a b = 0 \<Longrightarrow> a = b"
  by (simp add: sample_host_def code_unit_compare_def split: if_splits)

lemmas sample_defs = sample_host_def sample_behavior_def sample_variant_def sample_route_def
  sample_request_def sample_settings_def

end
