(* ===== verification/Pattern_Cache.thy ===== *)
theory Pattern_Cache
  imports Interfaces Mock_Types
begin

text \<open>
  The bounded least-recently-used cache of \<open>src/shared/api-mock/perfBudgets.ts\<close> (class
  \<open>BoundedCache\<close>, its \<open>Map\<close> in insertion order) and the compiled-pattern cache of
  \<open>patternCache.ts\<close> built on it. The lemmas show the size bound, the eviction order, and
  that answering from the pattern cache is the same as compiling afresh, which is why the
  matchers of the other theories call the compiler directly.
\<close>

section \<open>BoundedCache\<close>

record ('k, 'v) bounded_cache =
  bc_map :: "('k \<times> 'v) list"
  bc_maxSize :: nat

definition bc_new :: "nat \<Rightarrow> ('k, 'v) bounded_cache" where
  "bc_new n = \<lparr>bc_map = [], bc_maxSize = n\<rparr>"

definition bc_get :: "('k, 'v) bounded_cache \<Rightarrow> 'k \<Rightarrow> 'v option \<times> ('k, 'v) bounded_cache" where
  "bc_get c k = (case rec_get (bc_map c) k of
     None \<Rightarrow> (None, c)
   | Some v \<Rightarrow> (Some v, c\<lparr>bc_map := rec_set (rec_del (bc_map c) k) k v\<rparr>))"

definition bc_set :: "('k, 'v) bounded_cache \<Rightarrow> 'k \<Rightarrow> 'v \<Rightarrow> ('k, 'v) bounded_cache" where
  "bc_set c k v =
     (let m1 = (if rec_has (bc_map c) k then rec_del (bc_map c) k else bc_map c);
          m2 = rec_set m1 k v
      in if length m2 > bc_maxSize c then c\<lparr>bc_map := rec_del m2 (fst (hd m2))\<rparr>
         else c\<lparr>bc_map := m2\<rparr>)"

definition bc_size :: "('k, 'v) bounded_cache \<Rightarrow> nat" where
  "bc_size c = length (bc_map c)"

definition bc_clear :: "('k, 'v) bounded_cache \<Rightarrow> ('k, 'v) bounded_cache" where
  "bc_clear c = c\<lparr>bc_map := []\<rparr>"

definition bc_inv :: "('k, 'v) bounded_cache \<Rightarrow> bool" where
  "bc_inv c = (rec_wf (bc_map c) \<and> length (bc_map c) \<le> bc_maxSize c)"

definition bc_stored :: "('k, 'v) bounded_cache \<Rightarrow> 'k \<Rightarrow> 'v \<Rightarrow> bool" where
  "bc_stored c k v = (rec_get (bc_map c) k = Some v)"

lemma rec_set_fresh: "k \<notin> fst ` set r \<Longrightarrow> rec_set r k v = r @ [(k, v)]"
  by (induction r) auto

lemma rec_del_absent: "k \<notin> fst ` set r \<Longrightarrow> rec_del r k = r"
  unfolding rec_del_def by (rule filter_True) force

lemma rec_del_Nil [simp]: "rec_del [] k = []"
  by (simp add: rec_del_def)

lemma rec_del_append: "rec_del (xs @ ys) k = rec_del xs k @ rec_del ys k"
  by (simp add: rec_del_def)

lemma rec_del_Cons [simp]: "rec_del ((k', v) # r) k = (if k' = k then rec_del r k else (k', v) # rec_del r k)"
  by (simp add: rec_del_def)

text \<open>Deleting and storing again moves the key to the end of the map.\<close>

lemma rec_touch: "rec_set (rec_del r k) k v = rec_del r k @ [(k, v)]"
  by (rule rec_set_fresh) simp

lemma bc_set_alt:
  "bc_set c k v =
     (let m = rec_del (bc_map c) k @ [(k, v)]
      in c\<lparr>bc_map := (if length m > bc_maxSize c then rec_del m (fst (hd m)) else m)\<rparr>)"
  by (auto simp: bc_set_def Let_def rec_touch rec_has_def rec_set_fresh rec_del_absent)

lemma length_rec_del_wf: "rec_wf r \<Longrightarrow> k \<in> fst ` set r \<Longrightarrow> Suc (length (rec_del r k)) = length r"
proof (induction r)
  case (Cons p r)
  obtain j w where p: "p = (j, w)" by fastforce
  show ?case
  proof (cases "j = k")
    case True
    with Cons.prems p have "k \<notin> fst ` set r" by (auto simp: rec_wf_def)
    with True p show ?thesis by (simp add: rec_del_absent)
  next
    case False
    with Cons p show ?thesis by (auto simp: rec_wf_def)
  qed
qed simp

lemma rec_wf_touch: "rec_wf r \<Longrightarrow> rec_wf (rec_del r k @ [(k, v)])"
  using rec_touch [of r k v] by (metis rec_wf_del rec_wf_set)

lemma bc_get_inv: "bc_inv c \<Longrightarrow> bc_inv (snd (bc_get c k))"
proof -
  assume i: "bc_inv c"
  show ?thesis
  proof (cases "rec_get (bc_map c) k")
    case None
    with i show ?thesis by (simp add: bc_get_def)
  next
    case (Some v)
    then have "k \<in> fst ` set (bc_map c)" by (force dest: rec_get_in_set)
    with i length_rec_del_wf [of "bc_map c" k] have "length (rec_del (bc_map c) k @ [(k, v)]) \<le> bc_maxSize c"
      by (simp add: bc_inv_def)
    with i Some show ?thesis by (simp add: bc_get_def bc_inv_def rec_touch rec_wf_touch)
  qed
qed

lemma bc_set_inv: "bc_inv c \<Longrightarrow> bc_inv (bc_set c k v)"
proof -
  assume i: "bc_inv c"
  let ?m = "rec_del (bc_map c) k @ [(k, v)]"
  have wf: "rec_wf ?m" using i by (simp add: bc_inv_def rec_wf_touch)
  have len: "length ?m \<le> Suc (bc_maxSize c)"
    using i length_rec_del_le [of "bc_map c" k] by (simp add: bc_inv_def)
  have "Suc (length (rec_del ?m (fst (hd ?m)))) = length ?m"
    by (rule length_rec_del_wf [OF wf]) (cases "rec_del (bc_map c) k"; auto)
  with wf len show ?thesis by (auto simp: bc_set_alt bc_inv_def Let_def)
qed

lemma bc_new_inv: "bc_inv (bc_new n)"
  by (simp add: bc_new_def bc_inv_def)

lemma bc_maxSize_get [simp]: "bc_maxSize (snd (bc_get c k)) = bc_maxSize c"
  by (simp add: bc_get_def split: option.splits)

lemma bc_maxSize_set [simp]: "bc_maxSize (bc_set c k v) = bc_maxSize c"
  by (simp add: bc_set_def Let_def)

lemma bc_stored_set: "bc_stored (bc_set c k v) k' v' \<Longrightarrow> (k' = k \<and> v' = v) \<or> bc_stored c k' v'"
proof -
  have "bc_stored (c\<lparr>bc_map := rec_set (rec_del (bc_map c) k) k v\<rparr>) k' v' \<Longrightarrow>
        (k' = k \<and> v' = v) \<or> bc_stored c k' v'"
    by (auto simp: bc_stored_def split: if_splits)
  then show "bc_stored (bc_set c k v) k' v' \<Longrightarrow> ?thesis"
    by (auto simp: bc_set_alt Let_def bc_stored_def rec_touch split: if_splits)
qed

lemma bc_stored_get: "bc_stored (snd (bc_get c k)) k' v' \<Longrightarrow> bc_stored c k' v'"
  by (auto simp: bc_get_def bc_stored_def split: option.splits if_splits)

interpretation lru: keyed_cache bc_get bc_set bc_stored bc_size bc_maxSize bc_inv
proof unfold_locales
  fix c c' :: "('k, 'v) bounded_cache" and k k' v v'
  show "bc_inv c \<Longrightarrow> bc_get c k = (Some v, c') \<Longrightarrow> bc_stored c k v"
    by (auto simp: bc_get_def bc_stored_def split: option.splits)
  show "bc_inv c \<Longrightarrow> bc_stored (snd (bc_get c k)) k' v' \<Longrightarrow> bc_stored c k' v'"
    by (rule bc_stored_get)
  show "bc_inv c \<Longrightarrow> bc_inv (snd (bc_get c k))" by (rule bc_get_inv)
  show "bc_inv c \<Longrightarrow> bc_stored (bc_set c k v) k' v' \<Longrightarrow> (k' = k \<and> v' = v) \<or> bc_stored c k' v'"
    by (rule bc_stored_set)
  show "bc_inv c \<Longrightarrow> bc_inv (bc_set c k v)" by (rule bc_set_inv)
  show "bc_inv c \<Longrightarrow> bc_size c \<le> bc_maxSize c" by (simp add: bc_inv_def bc_size_def)
qed

section \<open>Eviction order\<close>

datatype ('k, 'v) cache_op = COpGet 'k | COpSet 'k 'v

fun op_key :: "('k, 'v) cache_op \<Rightarrow> 'k" where
  "op_key (COpGet k) = k"
| "op_key (COpSet k v) = k"

fun bc_step :: "('k, 'v) bounded_cache \<Rightarrow> ('k, 'v) cache_op \<Rightarrow> ('k, 'v) bounded_cache" where
  "bc_step c (COpGet k) = snd (bc_get c k)"
| "bc_step c (COpSet k v) = bc_set c k v"

lemma bc_step_inv [inv_intros]: "bc_inv c \<Longrightarrow> bc_inv (bc_step c e)"
  by (cases e) (auto intro: bc_get_inv bc_set_inv)

interpretation lru_run: state_machine bc_step bc_inv
  by unfold_locales (rule bc_step_inv)

text \<open>\<open>recent c k v S\<close>: \<open>k\<close> holds \<open>v\<close>, and only keys of \<open>S\<close> were used after it.\<close>

definition recent :: "('k, 'v) bounded_cache \<Rightarrow> 'k \<Rightarrow> 'v \<Rightarrow> 'k set \<Rightarrow> bool" where
  "recent c k v S = (\<exists>ys zs. bc_map c = ys @ (k, v) # zs \<and> fst ` set zs \<subseteq> S)"

lemma recent_get: "recent c k v S \<Longrightarrow> rec_wf (bc_map c) \<Longrightarrow> fst (bc_get c k) = Some v"
proof -
  assume "recent c k v S" and wf: "rec_wf (bc_map c)"
  then have "(k, v) \<in> set (bc_map c)" by (auto simp: recent_def)
  with wf have "rec_get (bc_map c) k = Some v" by (simp add: rec_wf_get_iff)
  then show ?thesis by (simp add: bc_get_def)
qed

lemma recent_touch:
  assumes "recent c k v S" and "j \<in> S" "k \<notin> S"
  shows "\<exists>ys zs. rec_del (bc_map c) j @ [(j, w)] = ys @ (k, v) # zs \<and> fst ` set zs \<subseteq> S"
proof -
  from assms obtain ys zs where m: "bc_map c = ys @ (k, v) # zs" "fst ` set zs \<subseteq> S"
    by (auto simp: recent_def)
  moreover from assms have "k \<noteq> j" by auto
  ultimately have "rec_del (bc_map c) j @ [(j, w)] = rec_del ys j @ (k, v) # (rec_del zs j @ [(j, w)])"
    and "fst ` set (rec_del zs j @ [(j, w)]) \<subseteq> S"
    using assms(2) by (auto simp: rec_del_append)
  then show ?thesis by blast
qed

lemma recent_step:
  assumes r: "recent c k v S" and i: "bc_inv c" and S: "finite S" "card S < bc_maxSize c" "k \<notin> S"
    and e: "op_key e \<in> S"
  shows "recent (bc_step c e) k v S"
proof (cases e)
  case (COpGet j)
  with r e S recent_touch [OF r, of j] show ?thesis
    by (cases "rec_get (bc_map c) j") (auto simp: bc_get_def recent_def rec_touch)
next
  case (COpSet j w)
  let ?m = "rec_del (bc_map c) j @ [(j, w)]"
  from e COpSet recent_touch [OF r, of j w] S(3)
  obtain ys zs where m: "?m = ys @ (k, v) # zs" and zs: "fst ` set zs \<subseteq> S" by auto
  have wf: "rec_wf ?m" using i by (simp add: bc_inv_def rec_wf_touch)
  have "recent (c\<lparr>bc_map := rec_del ?m (fst (hd ?m))\<rparr>) k v S" if big: "length ?m > bc_maxSize c"
  proof (cases ys)
    case Nil
    have "length zs = card (fst ` set zs)"
      using wf m distinct_card [of "map fst zs"] by (simp add: rec_wf_def)
    also have "\<dots> \<le> card S" using zs S(1) by (simp add: card_mono)
    finally have "length ?m \<le> bc_maxSize c" using S(2) m Nil by simp
    with big show ?thesis by simp
  next
    case (Cons y ys')
    with wf m have "fst y \<noteq> k" and "fst y \<notin> fst ` set zs"
      by (auto simp: rec_wf_def)
    with Cons m zs show ?thesis
      by (cases y) (auto simp: recent_def rec_del_append rec_del_absent)
  qed
  moreover have "recent (c\<lparr>bc_map := ?m\<rparr>) k v S"
    using m zs by (auto simp: recent_def)
  ultimately show ?thesis using COpSet by (simp add: bc_set_alt Let_def)
qed

lemma recent_run:
  "recent c k v S \<Longrightarrow> bc_inv c \<Longrightarrow> finite S \<Longrightarrow> card S < bc_maxSize c \<Longrightarrow> k \<notin> S \<Longrightarrow>
   op_key ` set es \<subseteq> S \<Longrightarrow> recent (foldl bc_step c es) k v S"
proof (induction es arbitrary: c)
  case (Cons e es)
  have "bc_maxSize (bc_step c e) = bc_maxSize c" by (cases e) auto
  with Cons show ?case by (simp add: recent_step bc_step_inv)
qed simp

lemma recent_set: "0 < bc_maxSize c \<Longrightarrow> recent (bc_set c k v) k v {}"
proof -
  assume pos: "0 < bc_maxSize c"
  let ?xs = "rec_del (bc_map c) k"
  have k: "k \<notin> fst ` set ?xs" by simp
  show ?thesis
  proof (cases ?xs)
    case Nil
    with pos show ?thesis by (auto simp: bc_set_alt Let_def recent_def)
  next
    case (Cons x xs')
    with k have "fst x \<noteq> k" by auto
    with Cons show ?thesis by (cases x) (auto simp: bc_set_alt Let_def recent_def rec_del_append)
  qed
qed

section \<open>The compiled-pattern cache\<close>

type_synonym compiled = "(string \<Rightarrow> bool) option"

type_synonym pattern_cache = "(string, compiled) bounded_cache"

definition MAX_COMPILED_PATTERNS :: nat where
  "MAX_COMPILED_PATTERNS = 4096"

definition cache_key :: "string \<Rightarrow> string \<Rightarrow> string" where
  "cache_key source flags = flags @ char_of (0::nat) # source"

definition compileRegexCached :: "js_host \<Rightarrow> pattern_cache \<Rightarrow> string \<Rightarrow> string \<Rightarrow> compiled \<times> pattern_cache" where
  "compileRegexCached h c source flags =
     (let key = cache_key source flags in
      case bc_get c key of
        (Some cached, c') \<Rightarrow> (cached, c')
      | (None, c') \<Rightarrow> (let re = regex_compile h source flags in (re, bc_set c' key re)))"

definition testRegexCached :: "js_host \<Rightarrow> pattern_cache \<Rightarrow> string \<Rightarrow> string \<Rightarrow> string \<Rightarrow> bool \<times> pattern_cache" where
  "testRegexCached h c source flags value =
     (case compileRegexCached h c source flags of
        (Some re, c') \<Rightarrow> (re value, c')
      | (None, c') \<Rightarrow> (False, c'))"

text \<open>What a key stands for: the flags are the part before the first NUL unit.\<close>

definition compile_key :: "js_host \<Rightarrow> string \<Rightarrow> compiled" where
  "compile_key h key = (case js_index_of [char_of (0::nat)] key of
     None \<Rightarrow> None
   | Some i \<Rightarrow> regex_compile h (drop (Suc i) key) (take i key))"

lemma compile_key_cache_key:
  "char_of (0::nat) \<notin> set flags \<Longrightarrow> compile_key h (cache_key source flags) = regex_compile h source flags"
  by (simp add: compile_key_def cache_key_def js_index_of_char)

lemma compileRegexCached_memo:
  "char_of (0::nat) \<notin> set flags \<Longrightarrow>
   compileRegexCached h c source flags = lru.memo (compile_key h) c (cache_key source flags)"
  by (simp add: compileRegexCached_def lru.memo_def compile_key_cache_key Let_def
      split: prod.splits option.splits)

fun compile_run :: "js_host \<Rightarrow> pattern_cache \<Rightarrow> (string \<times> string) list \<Rightarrow> compiled list \<times> pattern_cache" where
  "compile_run h c [] = ([], c)"
| "compile_run h c ((source, flags) # ps) =
     (let (re, c') = compileRegexCached h c source flags; (res, c'') = compile_run h c' ps
      in (re # res, c''))"

lemma compile_run_memo:
  "\<forall>(source, flags)\<in>set ps. char_of (0::nat) \<notin> set flags \<Longrightarrow>
   compile_run h c ps = lru.memo_run (compile_key h) c (map (\<lambda>(source, flags). cache_key source flags) ps)"
  by (induction ps arbitrary: c) (auto simp: compileRegexCached_memo Let_def split: prod.splits)

lemma compile_run_correct:
  assumes "\<forall>(source, flags)\<in>set ps. char_of (0::nat) \<notin> set flags"
  shows "fst (compile_run h (bc_new n) ps) = map (\<lambda>(source, flags). regex_compile h source flags) ps"
    and "bc_inv (snd (compile_run h (bc_new n) ps))"
proof -
  have "lru.sound (compile_key h) (bc_new n)"
    by (simp add: lru.sound_def bc_stored_def bc_new_def)
  note run = lru.memo_run_correct [OF bc_new_inv this, of "map (\<lambda>(source, flags). cache_key source flags) ps"]
  have "map (compile_key h) (map (\<lambda>(source, flags). cache_key source flags) ps)
      = map (\<lambda>(source, flags). regex_compile h source flags) ps"
    using assms by (auto simp: compile_key_cache_key)
  with run show "fst (compile_run h (bc_new n) ps) = map (\<lambda>(source, flags). regex_compile h source flags) ps"
    by (simp add: compile_run_memo [OF assms])
  from run show "bc_inv (snd (compile_run h (bc_new n) ps))"
    by (simp add: compile_run_memo [OF assms])
qed

section \<open>Properties\<close>

text \<open>The pattern cache is transparent: a run of compilations through a cache of any size gives
what compiling each pattern afresh would give, and the cache never holds more entries than its
size. No flag string holds a NUL unit, the separator of the cache key.\<close>

theorem pattern_cache_transparent:
  assumes "\<forall>(source, flags)\<in>set ps. char_of (0::nat) \<notin> set flags"
  shows "fst (compile_run h (bc_new n) ps) = map (\<lambda>(source, flags). regex_compile h source flags) ps \<and>
         bc_inv (snd (compile_run h (bc_new n) ps))"
  using compile_run_correct [OF assms] by simp

theorem pattern_cache_transparent_witness:
  "length (fst (compile_run sample_host (bc_new 1) [(''a'', ''i''), (''b'', ''''), (''a'', ''i'')])) = 3"
proof -
  have "\<forall>(source, flags)\<in>set [(''a'', ''i''), (''b'', ''''), (''a'', ''i'')]. char_of (0::nat) \<notin> set flags"
    by code_simp
  from arg_cong [OF conjunct1 [OF pattern_cache_transparent [OF this, of sample_host 1]], of length]
  show ?thesis by (simp del: compile_run.simps)
qed

text \<open>The bounded cache evicts the least recently used entry: a value just stored is still
answered after any gets and sets of fewer other keys than the cache has room for.\<close>

theorem cache_keeps_recent:
  assumes "bc_inv c" and "finite S" and "card S < bc_maxSize c" and "k \<notin> S" and "op_key ` set es \<subseteq> S"
  shows "fst (bc_get (foldl bc_step (bc_set c k v) es) k) = Some v"
proof (rule recent_get)
  have "recent (bc_set c k v) k v S"
  proof -
    obtain ys where "bc_map (bc_set c k v) = ys @ (k, v) # []"
      using recent_set [of c k v] assms(3) by (auto simp: recent_def)
    then show ?thesis unfolding recent_def by (intro exI [of _ ys] exI [of _ "[]"]) simp
  qed
  then show "recent (foldl bc_step (bc_set c k v) es) k v S"
    using assms by (intro recent_run) (auto intro: bc_set_inv)
  have "bc_inv (foldl bc_step (bc_set c k v) es)"
    by (rule lru_run.run_ok) (rule bc_set_inv [OF assms(1)])
  then show "rec_wf (bc_map (foldl bc_step (bc_set c k v) es))" by (simp add: bc_inv_def)
qed

theorem cache_keeps_recent_witness:
  "fst (bc_get (foldl bc_step (bc_set (bc_new 2) ''a'' (1::nat)) [COpSet ''b'' 2, COpGet ''b'', COpSet ''b'' 3]) ''a'') = Some 1"
  by (rule cache_keeps_recent [where S = "{''b''}"]) (auto simp: bc_new_inv, simp add: bc_new_def)

end
