(* ===== verification/Path_Matcher.thy ===== *)
theory Path_Matcher
  imports Mock_Types
begin

text \<open>
  Path matching, from \<open>src/shared/api-mock/pathMatcher.ts\<close>: the kind inferred from a typed
  path, the normalisation of a matcher, and the four matchers. A glob is translated by the
  code into the source text of a regular expression that is then compiled; the model keeps
  the translation as a list of tokens, one for each piece of text the code emits, and
  \<open>glob_match\<close> is the meaning of the anchored expression made of these pieces.

  The lemmas show that a parameterised match determines the path (filling the captures back
  into the pattern), that globs match exactly the concatenations their tokens describe, and
  that normalisation is idempotent.
\<close>

record path_match_result =
  pmr_matched :: bool
  pmr_params :: "string record_bag"

definition NO_MATCH :: path_match_result where
  "NO_MATCH = \<lparr>pmr_matched = False, pmr_params = []\<rparr>"

section \<open>Kinds and parameter names\<close>

text \<open>The tests \<open>/:[A-Za-z_]\w*/\<close>, \<open>/\{[^}]+\}/\<close> and \<open>/[*?]/\<close>.\<close>

fun has_colon_param :: "string \<Rightarrow> bool" where
  "has_colon_param [] = False"
| "has_colon_param (c # cs) =
     ((c = CHR '':'' \<and> (case cs of [] \<Rightarrow> False | d # _ \<Rightarrow> js_is_name_start d)) \<or> has_colon_param cs)"

fun has_brace_param :: "string \<Rightarrow> bool" where
  "has_brace_param [] = False"
| "has_brace_param (c # cs) =
     ((c = CHR ''{'' \<and> (case js_index_of ''}'' cs of None \<Rightarrow> False | Some j \<Rightarrow> 1 \<le> j)) \<or> has_brace_param cs)"

definition has_glob_char :: "string \<Rightarrow> bool" where
  "has_glob_char s = (CHR ''*'' \<in> set s \<or> CHR ''?'' \<in> set s)"

definition inferPathKind :: "string \<Rightarrow> path_kind option \<Rightarrow> path_kind" where
  "inferPathKind value current =
     (if current = Some Path_regex then Path_regex
      else if has_colon_param value \<or> has_brace_param value then Path_parameterized
      else if has_glob_char value then Path_glob
      else Path_exact)"

text \<open>\<open>/^:[A-Za-z_]\w*$/\<close> on one segment.\<close>

definition is_colon_name :: "string \<Rightarrow> bool" where
  "is_colon_name part = (case part of
     c # d # ds \<Rightarrow> c = CHR '':'' \<and> js_is_name_start d \<and> (\<forall>x\<in>set ds. js_is_word x)
   | _ \<Rightarrow> False)"

definition is_brace_segment :: "string \<Rightarrow> bool" where
  "is_brace_segment part = (js_starts_with part ''{'' \<and> js_ends_with part ''}'')"

definition part_name :: "string \<Rightarrow> string option" where
  "part_name part =
     (if is_colon_name part then Some (drop 1 part)
      else if is_brace_segment part then Some (js_inner part)
      else None)"

fun collect_names :: "string list \<Rightarrow> string list \<Rightarrow> string list" where
  "collect_names names [] = names"
| "collect_names names (part # parts) =
     (case part_name part of
        None \<Rightarrow> collect_names names parts
      | Some name \<Rightarrow>
          collect_names (if name \<noteq> [] \<and> name \<notin> set names then names @ [name] else names) parts)"

definition pathParamNames :: "string \<Rightarrow> string list" where
  "pathParamNames value = collect_names [] (js_split CHR ''/'' value)"

definition normalizePathMatcher :: "path_matcher \<Rightarrow> path_matcher" where
  "normalizePathMatcher m =
     (if pm_kind m \<noteq> Path_exact then
        (if pm_kind m = Path_parameterized \<and> (pm_paramNames m = None \<or> pm_paramNames m = Some []) then
           (let paramNames = pathParamNames (pm_value m) in
            if paramNames \<noteq> [] then m\<lparr>pm_paramNames := Some paramNames\<rparr> else m)
         else m)
      else
        (let kind = inferPathKind (pm_value m) (Some (pm_kind m)) in
         if kind = Path_exact then m
         else
           (let paramNames = (if kind = Path_parameterized then Some (pathParamNames (pm_value m)) else None) in
            case paramNames of
              Some (n # ns) \<Rightarrow> m\<lparr>pm_kind := kind, pm_paramNames := Some (n # ns)\<rparr>
            | _ \<Rightarrow> m\<lparr>pm_kind := kind\<rparr>)))"

section \<open>Exact and parameterised paths\<close>

definition text_eq :: "bool \<Rightarrow> string \<Rightarrow> string \<Rightarrow> bool" where
  "text_eq ci a b = (if ci then js_lower a = js_lower b else a = b)"

definition matchExactPath :: "string \<Rightarrow> string \<Rightarrow> bool \<Rightarrow> path_match_result" where
  "matchExactPath pattern path ci = \<lparr>pmr_matched = text_eq ci pattern path, pmr_params = []\<rparr>"

text \<open>A segment that captures: \<open>:name\<close> (any text after the colon) or \<open>{name}\<close>.\<close>

definition is_capture :: "string \<Rightarrow> bool" where
  "is_capture pp = (js_starts_with pp '':'' \<or> is_brace_segment pp)"

definition capture_name :: "string \<Rightarrow> string" where
  "capture_name pp = (if js_starts_with pp '':'' then drop 1 pp else js_inner pp)"

definition add_capture :: "string record_bag \<Rightarrow> string \<Rightarrow> string \<Rightarrow> string record_bag" where
  "add_capture params pp rp = (if capture_name pp \<noteq> [] then rec_set params (capture_name pp) rp else params)"

fun match_segments :: "bool \<Rightarrow> string record_bag \<Rightarrow> string list \<Rightarrow> string list \<Rightarrow> string record_bag option" where
  "match_segments ci params (pp # pps) (rp # rps) =
     (if is_capture pp then match_segments ci (add_capture params pp rp) pps rps
      else if text_eq ci pp rp then match_segments ci params pps rps
      else None)"
| "match_segments ci params _ _ = Some params"

definition matchParameterizedPath :: "string \<Rightarrow> string \<Rightarrow> bool \<Rightarrow> path_match_result" where
  "matchParameterizedPath pattern path ci =
     (let patternParts = js_split CHR ''/'' pattern; pathParts = js_split CHR ''/'' path in
      if length patternParts \<noteq> length pathParts then NO_MATCH
      else case match_segments ci [] patternParts pathParts of
             None \<Rightarrow> NO_MATCH
           | Some params \<Rightarrow> \<lparr>pmr_matched = True, pmr_params = params\<rparr>)"

section \<open>Globs\<close>

text \<open>The pieces \<open>.*\<close>, \<open>.\<close>, \<open>[^/]*\<close>, \<open>[^/]\<close> and an escaped or plain literal unit.\<close>

datatype glob_token = GAny | GDot | GSegStar | GSegOne | GLit char

definition skip_slash :: "string \<Rightarrow> string" where
  "skip_slash s = (case s of [] \<Rightarrow> [] | c # cs \<Rightarrow> if c = CHR ''/'' then cs else s)"

lemma length_skip_slash [termination_simp]: "length (skip_slash s) \<le> length s"
  by (auto simp: skip_slash_def split: list.splits)

lemma length_skip_slash_tl [termination_simp]: "length (skip_slash (tl cs)) < Suc (length cs)"
  using length_skip_slash [of "tl cs"] by simp

fun globToRegex :: "string \<Rightarrow> glob_token list" where
  "globToRegex [] = []"
| "globToRegex (c # cs) =
     (if c = CHR ''*'' \<and> cs \<noteq> [] \<and> hd cs = CHR ''*'' then GAny # globToRegex (skip_slash (tl cs))
      else if c = CHR ''*'' then GSegStar # globToRegex cs
      else if c = CHR ''?'' then GSegOne # globToRegex cs
      else GLit c # globToRegex cs)"

definition char_eq :: "bool \<Rightarrow> char \<Rightarrow> char \<Rightarrow> bool" where
  "char_eq ci a b = (if ci then js_lower_char a = js_lower_char b else a = b)"

text \<open>What one repetition of a piece may consume: a dot does not match a line end.\<close>

definition is_line_end :: "char \<Rightarrow> bool" where
  "is_line_end c = ((of_char c :: nat) = 10 \<or> (of_char c :: nat) = 13)"

fun glob_match :: "bool \<Rightarrow> glob_token list \<Rightarrow> string \<Rightarrow> bool" where
  "glob_match ci [] s = (s = [])"
| "glob_match ci (GLit c # ts) s = (case s of [] \<Rightarrow> False | x # xs \<Rightarrow> char_eq ci c x \<and> glob_match ci ts xs)"
| "glob_match ci (GSegOne # ts) s = (case s of [] \<Rightarrow> False | x # xs \<Rightarrow> x \<noteq> CHR ''/'' \<and> glob_match ci ts xs)"
| "glob_match ci (GDot # ts) s = (case s of [] \<Rightarrow> False | x # xs \<Rightarrow> \<not> is_line_end x \<and> glob_match ci ts xs)"
| "glob_match ci (GSegStar # ts) s =
     (glob_match ci ts s \<or>
      (case s of [] \<Rightarrow> False | x # xs \<Rightarrow> x \<noteq> CHR ''/'' \<and> glob_match ci (GSegStar # ts) xs))"
| "glob_match ci (GAny # ts) s =
     (glob_match ci ts s \<or>
      (case s of [] \<Rightarrow> False | x # xs \<Rightarrow> \<not> is_line_end x \<and> glob_match ci (GAny # ts) xs))"

definition matchGlobPath :: "string \<Rightarrow> string \<Rightarrow> bool \<Rightarrow> path_match_result" where
  "matchGlobPath pattern path ci =
     \<lparr>pmr_matched = glob_match ci (globToRegex pattern) path, pmr_params = []\<rparr>"

definition matchRegexPath :: "js_host \<Rightarrow> string \<Rightarrow> string \<Rightarrow> bool \<Rightarrow> path_match_result" where
  "matchRegexPath h pattern path ci =
     \<lparr>pmr_matched = (case regex_compile h pattern (if ci then ''i'' else '''') of
                       None \<Rightarrow> False | Some re \<Rightarrow> re path),
      pmr_params = []\<rparr>"

definition matchPath :: "js_host \<Rightarrow> path_matcher \<Rightarrow> string \<Rightarrow> path_match_result" where
  "matchPath h matcher requestPath =
     (let resolved = normalizePathMatcher matcher;
          ci = (case pm_caseInsensitive resolved of None \<Rightarrow> False | Some b \<Rightarrow> b)
      in case pm_kind resolved of
           Path_exact \<Rightarrow> matchExactPath (pm_value resolved) requestPath ci
         | Path_parameterized \<Rightarrow> matchParameterizedPath (pm_value resolved) requestPath ci
         | Path_glob \<Rightarrow> matchGlobPath (pm_value resolved) requestPath ci
         | Path_regex \<Rightarrow> matchRegexPath h (pm_value resolved) requestPath ci)"

section \<open>Lemmas on normalisation\<close>

lemma normalizePathMatcher_value [simp]: "pm_value (normalizePathMatcher m) = pm_value m"
  by (auto simp: normalizePathMatcher_def Let_def split: option.splits list.splits)

lemma normalizePathMatcher_ci [simp]: "pm_caseInsensitive (normalizePathMatcher m) = pm_caseInsensitive m"
  by (auto simp: normalizePathMatcher_def Let_def split: option.splits list.splits)

lemma normalizePathMatcher_other:
  "pm_kind m \<noteq> Path_exact \<Longrightarrow> pm_kind (normalizePathMatcher m) = pm_kind m"
  by (auto simp: normalizePathMatcher_def Let_def)

lemma normalizePathMatcher_exact:
  "pm_kind m = Path_exact \<Longrightarrow>
   pm_kind (normalizePathMatcher m) = inferPathKind (pm_value m) (Some Path_exact)"
  by (auto simp: normalizePathMatcher_def Let_def split: option.splits list.splits)

lemma normalizePathMatcher_idem: "normalizePathMatcher (normalizePathMatcher m) = normalizePathMatcher m"
  by (auto simp: normalizePathMatcher_def inferPathKind_def Let_def split: option.splits list.splits)

lemma collect_names_mono: "set names \<subseteq> set (collect_names names parts)"
  by (induction names parts rule: collect_names.induct) (auto split: option.splits)

lemma collect_names_distinct: "distinct names \<Longrightarrow> distinct (collect_names names parts)"
  by (induction names parts rule: collect_names.induct) (auto split: option.splits)

lemma collect_names_iff:
  "n \<in> set (collect_names names parts) \<longleftrightarrow>
   n \<in> set names \<or> (n \<noteq> [] \<and> (\<exists>p\<in>set parts. part_name p = Some n))"
  by (induction names parts rule: collect_names.induct) (auto split: option.splits)

lemma pathParamNames_iff:
  "n \<in> set (pathParamNames value) \<longleftrightarrow>
   n \<noteq> [] \<and> (\<exists>p\<in>set (js_split CHR ''/'' value). part_name p = Some n)"
  by (simp add: pathParamNames_def collect_names_iff)

lemma is_colon_name_starts: "is_colon_name p \<Longrightarrow> js_starts_with p '':''"
  by (auto simp: is_colon_name_def js_starts_with_def split: list.splits)

lemma brace_not_colon: "is_brace_segment p \<Longrightarrow> \<not> js_starts_with p '':''"
  by (cases p) (auto simp: is_brace_segment_def js_starts_with_def)

lemma part_name_capture: "part_name p = Some n \<Longrightarrow> is_capture p \<and> capture_name p = n"
  by (auto simp: part_name_def is_capture_def capture_name_def is_colon_name_starts brace_not_colon
      split: if_splits)

section \<open>Lemmas on parameterised paths\<close>

definition captures :: "string record_bag \<Rightarrow> string list \<Rightarrow> string list \<Rightarrow> string record_bag" where
  "captures params pps rps =
     fold (\<lambda>(pp, rp) acc. if is_capture pp then add_capture acc pp rp else acc) (zip pps rps) params"

definition segment_ok :: "bool \<Rightarrow> string \<Rightarrow> string \<Rightarrow> bool" where
  "segment_ok ci pp rp = (is_capture pp \<or> text_eq ci pp rp)"

lemma match_segments_iff:
  "length pps = length rps \<Longrightarrow>
   match_segments ci params pps rps =
     (if list_all2 (segment_ok ci) pps rps then Some (captures params pps rps) else None)"
  by (induction pps rps arbitrary: params rule: list_induct2)
    (auto simp: captures_def segment_ok_def)

lemma matchParameterizedPath_iff:
  "pmr_matched (matchParameterizedPath pattern path ci) \<longleftrightarrow>
   list_all2 (segment_ok ci) (js_split CHR ''/'' pattern) (js_split CHR ''/'' path)"
  by (auto simp: matchParameterizedPath_def Let_def NO_MATCH_def match_segments_iff
      dest: list_all2_lengthD)

lemma matchParameterizedPath_params:
  "pmr_matched (matchParameterizedPath pattern path ci) \<Longrightarrow>
   pmr_params (matchParameterizedPath pattern path ci) =
     captures [] (js_split CHR ''/'' pattern) (js_split CHR ''/'' path)"
  by (auto simp: matchParameterizedPath_def Let_def NO_MATCH_def match_segments_iff
      split: option.splits if_splits)

lemma captures_Cons:
  "captures params (pp # pps) (rp # rps) =
     captures (if is_capture pp then add_capture params pp rp else params) pps rps"
  by (simp add: captures_def)

lemma captures_Nil [simp]: "captures params [] rps = params"
  by (simp add: captures_def)

lemma rec_get_add_capture:
  "rec_get (add_capture params pp rp) n =
     (if n \<noteq> [] \<and> n = capture_name pp then Some rp else rec_get params n)"
  by (auto simp: add_capture_def)

lemma captures_other:
  "length pps = length rps \<Longrightarrow> \<forall>pp\<in>set pps. is_capture pp \<longrightarrow> capture_name pp \<noteq> n \<Longrightarrow>
   rec_get (captures params pps rps) n = rec_get params n"
  by (induction pps rps arbitrary: params rule: list_induct2)
    (auto simp: captures_Cons rec_get_add_capture)

text \<open>The keys of the captures are the named captures of the pattern.\<close>

lemma captures_keys:
  "length pps = length rps \<Longrightarrow>
   rec_get (captures params pps rps) n \<noteq> None \<longleftrightarrow>
   rec_get params n \<noteq> None \<or> (n \<noteq> [] \<and> (\<exists>pp\<in>set pps. is_capture pp \<and> capture_name pp = n))"
  by (induction pps rps arbitrary: params rule: list_induct2)
    (auto simp: captures_Cons rec_get_add_capture)

text \<open>Filling the captures back into the pattern.\<close>

definition fill_segment :: "string record_bag \<Rightarrow> string \<Rightarrow> string" where
  "fill_segment params pp = (if is_capture pp then rec_get_or [] params (capture_name pp) else pp)"

definition fill_path :: "string \<Rightarrow> string record_bag \<Rightarrow> string" where
  "fill_path pattern params = js_join1 CHR ''/'' (map (fill_segment params) (js_split CHR ''/'' pattern))"

definition good_pattern :: "string \<Rightarrow> bool" where
  "good_pattern pattern =
     (let names = map capture_name (filter is_capture (js_split CHR ''/'' pattern))
      in distinct names \<and> [] \<notin> set names)"

lemma fill_captures:
  "length pps = length rps \<Longrightarrow> list_all2 (segment_ok False) pps rps \<Longrightarrow>
   distinct (map capture_name (filter is_capture pps)) \<Longrightarrow>
   [] \<notin> set (map capture_name (filter is_capture pps)) \<Longrightarrow>
   map (fill_segment (captures params pps rps)) pps = rps"
proof (induction pps rps arbitrary: params rule: list_induct2)
  case (Cons p ps r rs)
  show ?case
  proof (cases "is_capture p")
    case False
    with Cons show ?thesis
      by (auto simp: captures_Cons fill_segment_def segment_ok_def text_eq_def)
  next
    case True
    with Cons.prems have "\<forall>q\<in>set ps. is_capture q \<longrightarrow> capture_name q \<noteq> capture_name p"
      by (auto simp: image_iff)
    with True Cons have "fill_segment (captures params (p # ps) (r # rs)) p = r"
      by (auto simp: captures_Cons fill_segment_def rec_get_or_def captures_other rec_get_add_capture)
    with True Cons show ?thesis by (auto simp: captures_Cons)
  qed
qed simp

lemma matchParameterizedPath_fill:
  assumes "pmr_matched (matchParameterizedPath pattern path False)" and "good_pattern pattern"
  shows "fill_path pattern (pmr_params (matchParameterizedPath pattern path False)) = path"
proof -
  let ?pps = "js_split CHR ''/'' pattern" and ?rps = "js_split CHR ''/'' path"
  have all: "list_all2 (segment_ok False) ?pps ?rps"
    using assms(1) by (simp add: matchParameterizedPath_iff)
  then have "map (fill_segment (captures [] ?pps ?rps)) ?pps = ?rps"
    using assms(2) by (intro fill_captures) (auto simp: good_pattern_def Let_def dest: list_all2_lengthD)
  with assms(1) show ?thesis
    by (simp add: fill_path_def matchParameterizedPath_params js_join1_split)
qed

section \<open>Lemmas on globs\<close>

text \<open>What each token may stand for.\<close>

fun token_lang :: "bool \<Rightarrow> glob_token \<Rightarrow> string \<Rightarrow> bool" where
  "token_lang ci GAny part = (\<forall>x\<in>set part. \<not> is_line_end x)"
| "token_lang ci GDot part = (\<exists>x. part = [x] \<and> \<not> is_line_end x)"
| "token_lang ci GSegStar part = (CHR ''/'' \<notin> set part)"
| "token_lang ci GSegOne part = (\<exists>x. part = [x] \<and> x \<noteq> CHR ''/'')"
| "token_lang ci (GLit c) part = (\<exists>x. part = [x] \<and> char_eq ci c x)"

lemma list_all2_Cons_ex:
  "(\<exists>parts. list_all2 P (t # ts) parts \<and> concat parts = s) \<longleftrightarrow>
   (\<exists>p parts. P t p \<and> list_all2 P ts parts \<and> p @ concat parts = s)"
  (is "?L \<longleftrightarrow> ?R")
proof
  assume ?L
  then obtain p parts where "P t p" "list_all2 P ts parts" "concat (p # parts) = s"
    by (auto simp: list_all2_Cons1)
  then show ?R by (intro exI [of _ p] exI [of _ parts]) auto
next
  assume ?R
  then obtain p parts where "P t p" "list_all2 P ts parts" "p @ concat parts = s" by blast
  then show ?L by (intro exI [of _ "p # parts"]) auto
qed

lemma one_decompose:
  "(\<exists>p parts. (\<exists>x. p = [x] \<and> Q x) \<and> R parts \<and> p @ concat parts = s) \<longleftrightarrow>
   (case s of [] \<Rightarrow> False | x # xs \<Rightarrow> Q x \<and> (\<exists>parts. R parts \<and> concat parts = xs))"
  (is "?L \<longleftrightarrow> ?R")
proof
  assume ?L
  then show ?R by auto
next
  assume ?R
  then obtain x parts where "Q x" "R parts" "s = x # concat parts" by (auto split: list.splits)
  then show ?L by (intro exI [of _ "[x]"] exI [of _ parts]) auto
qed

lemma star_decompose:
  "(\<exists>p. (\<forall>x\<in>set p. Q x) \<and> (\<exists>r. R r \<and> p @ r = s)) \<longleftrightarrow>
   R s \<or> (case s of [] \<Rightarrow> False | x # xs \<Rightarrow> Q x \<and> (\<exists>p. (\<forall>x\<in>set p. Q x) \<and> (\<exists>r. R r \<and> p @ r = xs)))"
  (is "?L \<longleftrightarrow> ?R")
proof
  assume ?L
  then obtain p r where p: "\<forall>x\<in>set p. Q x" "R r" "p @ r = s" by blast
  show ?R
  proof (cases p)
    case Nil
    with p show ?thesis by simp
  next
    case (Cons a p')
    with p have "s = a # (p' @ r)" "Q a" "\<forall>x\<in>set p'. Q x" by auto
    with p(2) show ?thesis by auto
  qed
next
  assume ?R
  then consider "R s" | x xs p r where "s = x # xs" "Q x" "\<forall>x\<in>set p. Q x" "R r" "p @ r = xs"
    by (auto split: list.splits)
  then show ?L
  proof cases
    case 1
    then show ?thesis by (intro exI [of _ "[]"]) auto
  next
    case 2
    then show ?thesis by (intro exI [of _ "x # p"]) auto
  qed
qed

lemma glob_match_iff:
  "glob_match ci ts s \<longleftrightarrow> (\<exists>parts. list_all2 (token_lang ci) ts parts \<and> concat parts = s)"
proof (induction ci ts s rule: glob_match.induct)
  case (1 ci s)
  then show ?case by auto
next
  case (2 ci c ts s)
  then show ?case
    unfolding list_all2_Cons_ex token_lang.simps one_decompose by (cases s) auto
next
  case (3 ci ts s)
  then show ?case
    unfolding list_all2_Cons_ex token_lang.simps one_decompose by (cases s) auto
next
  case (4 ci ts s)
  then show ?case
    unfolding list_all2_Cons_ex token_lang.simps one_decompose by (cases s) auto
next
  case (5 ci ts s)
  let ?R = "\<lambda>r. \<exists>parts. list_all2 (token_lang ci) ts parts \<and> concat parts = r"
  have lang: "token_lang ci GSegStar p = (\<forall>x\<in>set p. x \<noteq> CHR ''/'')" for p by auto
  have star: "(\<exists>parts. list_all2 (token_lang ci) (GSegStar # ts) parts \<and> concat parts = s') \<longleftrightarrow>
    (\<exists>p. (\<forall>x\<in>set p. x \<noteq> CHR ''/'') \<and> (\<exists>r. ?R r \<and> p @ r = s'))" for s'
    unfolding list_all2_Cons_ex lang by blast
  show ?case
    unfolding star star_decompose [of _ ?R s] using 5 by (cases s) (auto simp: star)
next
  case (6 ci ts s)
  let ?R = "\<lambda>r. \<exists>parts. list_all2 (token_lang ci) ts parts \<and> concat parts = r"
  have star: "(\<exists>parts. list_all2 (token_lang ci) (GAny # ts) parts \<and> concat parts = s') \<longleftrightarrow>
    (\<exists>p. (\<forall>x\<in>set p. \<not> is_line_end x) \<and> (\<exists>r. ?R r \<and> p @ r = s'))" for s'
    unfolding list_all2_Cons_ex token_lang.simps by blast
  show ?case
    unfolding star star_decompose [of _ ?R s] using 6 by (cases s) (auto simp: star)
qed

text \<open>A glob without wildcards matches only itself.\<close>

lemma globToRegex_literal: "\<not> has_glob_char g \<Longrightarrow> globToRegex g = map GLit g"
  by (induction g) (auto simp: has_glob_char_def)

lemma glob_match_literal: "glob_match False (map GLit g) s \<longleftrightarrow> s = g"
  by (induction g arbitrary: s) (auto simp: char_eq_def split: list.splits)

section \<open>Properties\<close>

text \<open>A parameterised path matches exactly the paths of its shape, segment by segment, and what
it captures is enough to rebuild the path: filling the captures back into the pattern gives the
request path. The capture names of the pattern are distinct and not empty.\<close>

theorem parameterized_roundtrip:
  assumes "good_pattern pattern"
  shows "pmr_matched (matchParameterizedPath pattern path False) \<longleftrightarrow>
           list_all2 (\<lambda>pp rp. is_capture pp \<or> pp = rp) (js_split CHR ''/'' pattern) (js_split CHR ''/'' path) \<and>
           fill_path pattern (pmr_params (matchParameterizedPath pattern path False)) = path"
proof -
  have "segment_ok False = (\<lambda>pp rp. is_capture pp \<or> pp = rp)"
    by (intro ext) (simp add: segment_ok_def text_eq_def)
  then show ?thesis
    using matchParameterizedPath_iff [of pattern path False] matchParameterizedPath_fill [of pattern path] assms
    by auto
qed

theorem parameterized_roundtrip_witness:
  "fill_path ''/users/:id'' (pmr_params (matchParameterizedPath ''/users/:id'' ''/users/42'' False)) = ''/users/42''"
proof -
  have "good_pattern ''/users/:id''" and m: "pmr_matched (matchParameterizedPath ''/users/:id'' ''/users/42'' False)"
    by code_simp+
  from parameterized_roundtrip [OF this(1), of "''/users/42''"] m show ?thesis by simp
qed

text \<open>The glob matcher agrees with the meaning of a glob: a path matches exactly when it is a
concatenation of parts, one per token of the compiled pattern, each in the token's language.\<close>

theorem glob_meaning:
  "pmr_matched (matchGlobPath pattern path ci) \<longleftrightarrow>
     (\<exists>parts. list_all2 (token_lang ci) (globToRegex pattern) parts \<and> concat parts = path)"
  by (simp add: matchGlobPath_def glob_match_iff)

end
