(* ===== verification/Json_Model.thy ===== *)
theory Json_Model
  imports Mock_Types
begin

text \<open>
  Data values and the code that walks them: the canonical JSON-path engine of
  \<open>src/shared/utils/jsonPath.ts\<close>, the structural equality and subset tests of the
  predicate evaluator (\<open>src/shared/api-mock/predicateEvaluatorHelpers.ts\<close>) and the
  key-sorting canonical form of \<open>src/shared/api-mock/fingerprint.ts\<close>.

  Objects are bags of their own properties; inherited members of \<open>Object.prototype\<close> are
  not part of a value. Writing a non-index key on an array adds a property that no JSON text
  shows, so \<open>set_in\<close> leaves the array as it is there.

  The lemmas show that structural equality is equality of canonical forms, that the subset
  test is reflexive, and that a path written is the path read.
\<close>

section \<open>Basic access\<close>

fun is_object :: "json \<Rightarrow> bool" where
  "is_object (JArr _) = True"
| "is_object (JObj _) = True"
| "is_object _ = False"

definition is_array :: "json \<Rightarrow> bool" where
  "is_array v = (case v of JArr _ \<Rightarrow> True | _ \<Rightarrow> False)"

text \<open>\<open>v == null\<close>.\<close>

definition is_nullish :: "json \<Rightarrow> bool" where
  "is_nullish v = (v = JUndef \<or> v = JNull)"

text \<open>\<open>/^\d+$/\<close>, and \<open>Number\<close> of such a text.\<close>

definition all_digits :: "string \<Rightarrow> bool" where
  "all_digits s = (s \<noteq> [] \<and> (\<forall>c\<in>set s. js_is_digit c))"

definition digits_value :: "string \<Rightarrow> nat" where
  "digits_value s = foldl (\<lambda>n c. 10 * n + (of_char c - 48)) 0 s"

definition prop_or_undef :: "json record_bag \<Rightarrow> string \<Rightarrow> json" where
  "prop_or_undef fs k = (case rec_get fs k of None \<Rightarrow> JUndef | Some v \<Rightarrow> v)"

definition elem_or_undef :: "json list \<Rightarrow> nat \<Rightarrow> json" where
  "elem_or_undef vs i = (if i < length vs then vs ! i else JUndef)"

text \<open>An array index as a property key: the canonical decimal text.\<close>

definition array_index :: "string \<Rightarrow> nat option" where
  "array_index k = (if all_digits k \<and> js_nat (digits_value k) = k then Some (digits_value k) else None)"

section \<open>JSON paths\<close>

definition STAR :: string where
  "STAR = ''__PATH_STAR__''"

definition stripJsonPathPrefix :: "string \<Rightarrow> string" where
  "stripJsonPathPrefix path =
     (if js_starts_with path ''$.'' then drop 2 path
      else if js_starts_with path ''$'' then drop 1 path
      else path)"

definition path_stop :: "char \<Rightarrow> bool" where
  "path_stop c = (c = CHR ''.'' \<or> c = CHR ''['')"

lemma length_dropWhile_termination [termination_simp]: "length (dropWhile P cs) < Suc (length cs)"
  using length_dropWhile_le [of P cs] by simp

function tokenize :: "string \<Rightarrow> string list" where
  "tokenize [] = []"
| "tokenize (c # cs) =
     (if c = CHR ''.'' then tokenize cs
      else if c = CHR ''['' then
        (case js_index_of '']'' cs of
           None \<Rightarrow> []
         | Some e \<Rightarrow>
             (let inner = js_trim (take e cs)
              in (if inner = ''*'' then STAR else inner) # tokenize (drop (Suc e) cs)))
      else (c # takeWhile (\<lambda>x. \<not> path_stop x) cs) # tokenize (dropWhile (\<lambda>x. \<not> path_stop x) cs))"
  by pat_completeness auto
termination
  by (relation "measure length") (auto intro: le_less_trans [OF length_dropWhile_le])

definition tokenizeJsonPath :: "string \<Rightarrow> string list" where
  "tokenizeJsonPath normalized = tokenize (js_trim normalized)"

fun walkPath :: "json \<Rightarrow> string list \<Rightarrow> json" where
  "walkPath obj [] = obj"
| "walkPath obj (t # ts) =
     (if t = STAR then
        (case obj of
           JArr vs \<Rightarrow> (if ts = [] then obj else JArr (map (\<lambda>el. walkPath el ts) vs))
         | _ \<Rightarrow> JUndef)
      else if t = ''length'' \<and> is_array obj then
        (case obj of JArr vs \<Rightarrow> walkPath (JNum (of_nat (length vs))) ts | _ \<Rightarrow> JUndef)
      else
        (case obj of
           JArr vs \<Rightarrow> walkPath (if all_digits t then elem_or_undef vs (digits_value t) else JUndef) ts
         | JObj fs \<Rightarrow>
             walkPath (prop_or_undef fs (if all_digits t then js_nat (digits_value t) else t)) ts
         | _ \<Rightarrow> JUndef))"

definition getByPath :: "json \<Rightarrow> string \<Rightarrow> json" where
  "getByPath obj path =
     (let normalized = stripJsonPathPrefix path in
      if js_trim normalized = [] then obj
      else (let tokens = tokenizeJsonPath normalized in
            if tokens = [] then obj else walkPath obj tokens))"

definition UNSAFE_KEYS :: "string list" where
  "UNSAFE_KEYS = [''__proto__'', ''prototype'', ''constructor'']"

definition pad_to :: "nat \<Rightarrow> json list \<Rightarrow> json list" where
  "pad_to n vs = vs @ replicate (n - length vs) JUndef"

text \<open>Assigning \<open>value\<close> below \<open>keys\<close>, creating objects on the way.\<close>

fun set_in :: "json \<Rightarrow> string list \<Rightarrow> json \<Rightarrow> json" where
  "set_in obj [] value = value"
| "set_in (JObj fs) (k # ks) value =
     (let child = prop_or_undef fs k;
          child' = (if ks = [] then value
                    else set_in (if is_object child then child else JObj []) ks value)
      in JObj (rec_set fs k child'))"
| "set_in (JArr vs) (k # ks) value =
     (case array_index k of
        None \<Rightarrow> JArr vs
      | Some i \<Rightarrow>
          (let child = elem_or_undef vs i;
               child' = (if ks = [] then value
                         else set_in (if is_object child then child else JObj []) ks value)
           in JArr ((pad_to (Suc i) vs)[i := child'])))"
| "set_in obj (k # ks) value = obj"

definition setByPath :: "json \<Rightarrow> string \<Rightarrow> json \<Rightarrow> json" where
  "setByPath obj path value =
     (let normalized = stripJsonPathPrefix path in
      if js_trim normalized = [] then obj
      else (let keys = filter (\<lambda>k. k \<noteq> []) (js_split CHR ''.'' normalized) in
            if keys = [] then obj
            else if \<exists>k\<in>set keys. k \<in> set UNSAFE_KEYS then obj
            else set_in obj keys value))"

section \<open>Structural equality and subset\<close>

fun deepStrictEqual :: "json \<Rightarrow> json \<Rightarrow> bool"
  and deepStrictEqual_list :: "json list \<Rightarrow> json list \<Rightarrow> bool"
  and deepStrictEqual_fields :: "json record_bag \<Rightarrow> json record_bag \<Rightarrow> bool" where
  "deepStrictEqual (JArr as) b =
     (case b of JArr bs \<Rightarrow> length as = length bs \<and> deepStrictEqual_list as bs | _ \<Rightarrow> False)"
| "deepStrictEqual (JObj fs) b =
     (case b of JObj gs \<Rightarrow> sort (rec_keys fs) = sort (rec_keys gs) \<and> deepStrictEqual_fields fs gs
      | _ \<Rightarrow> False)"
| "deepStrictEqual a b = (a = b)"
| "deepStrictEqual_list [] bs = True"
| "deepStrictEqual_list (a # as) bs =
     (case bs of [] \<Rightarrow> deepStrictEqual a JUndef \<and> deepStrictEqual_list as []
      | b # bs' \<Rightarrow> deepStrictEqual a b \<and> deepStrictEqual_list as bs')"
| "deepStrictEqual_fields [] gs = True"
| "deepStrictEqual_fields ((k, v) # fs) gs =
     (deepStrictEqual v (prop_or_undef gs k) \<and> deepStrictEqual_fields fs gs)"

text \<open>\<open>actual[key]\<close> on an object or an array.\<close>

definition read_prop :: "json \<Rightarrow> string \<Rightarrow> json" where
  "read_prop v k = (case v of
     JObj fs \<Rightarrow> prop_or_undef fs k
   | JArr vs \<Rightarrow>
       (if k = ''length'' then JNum (of_nat (length vs))
        else case array_index k of None \<Rightarrow> JUndef | Some i \<Rightarrow> elem_or_undef vs i)
   | _ \<Rightarrow> JUndef)"

fun isSubset :: "json \<Rightarrow> json \<Rightarrow> bool"
  and isSubset_list :: "json list \<Rightarrow> json list \<Rightarrow> bool"
  and isSubset_fields :: "json record_bag \<Rightarrow> json \<Rightarrow> bool" where
  "isSubset (JArr es) actual = (case actual of JArr as \<Rightarrow> isSubset_list es as | _ \<Rightarrow> False)"
| "isSubset (JObj fs) actual = (if is_object actual then isSubset_fields fs actual else False)"
| "isSubset expected actual = (is_nullish expected \<or> expected = actual)"
| "isSubset_list [] as = True"
| "isSubset_list (e # es) as = (case as of [] \<Rightarrow> False | a # as' \<Rightarrow> isSubset e a \<and> isSubset_list es as')"
| "isSubset_fields [] actual = True"
| "isSubset_fields ((k, v) # fs) actual = (isSubset v (read_prop actual k) \<and> isSubset_fields fs actual)"

section \<open>Canonical form\<close>

fun sortObjectKeys :: "json \<Rightarrow> json"
  and sortObjectKeys_list :: "json list \<Rightarrow> json list"
  and sortObjectKeys_fields :: "json record_bag \<Rightarrow> json record_bag" where
  "sortObjectKeys (JArr vs) = JArr (sortObjectKeys_list vs)"
| "sortObjectKeys (JObj fs) = JObj (sort_key fst (sortObjectKeys_fields fs))"
| "sortObjectKeys v = v"
| "sortObjectKeys_list [] = []"
| "sortObjectKeys_list (v # vs) = sortObjectKeys v # sortObjectKeys_list vs"
| "sortObjectKeys_fields [] = []"
| "sortObjectKeys_fields ((k, v) # fs) = (k, sortObjectKeys v) # sortObjectKeys_fields fs"

text \<open>A value is well formed when no object repeats a key.\<close>

fun json_wf :: "json \<Rightarrow> bool"
  and json_wf_list :: "json list \<Rightarrow> bool"
  and json_wf_fields :: "json record_bag \<Rightarrow> bool" where
  "json_wf (JArr vs) = json_wf_list vs"
| "json_wf (JObj fs) = (rec_wf fs \<and> json_wf_fields fs)"
| "json_wf v = True"
| "json_wf_list [] = True"
| "json_wf_list (v # vs) = (json_wf v \<and> json_wf_list vs)"
| "json_wf_fields [] = True"
| "json_wf_fields ((k, v) # fs) = (json_wf v \<and> json_wf_fields fs)"

section \<open>Lemmas\<close>

lemma sortObjectKeys_list_map [simp]: "sortObjectKeys_list vs = map sortObjectKeys vs"
  by (induction vs) auto

lemma sortObjectKeys_fields_map [simp]:
  "sortObjectKeys_fields fs = map (\<lambda>(k, v). (k, sortObjectKeys v)) fs"
  by (induction fs) auto

lemma json_wf_list_all [simp]: "json_wf_list vs \<longleftrightarrow> (\<forall>v\<in>set vs. json_wf v)"
  by (induction vs) auto

lemma json_wf_fields_all [simp]: "json_wf_fields fs \<longleftrightarrow> (\<forall>(k, v)\<in>set fs. json_wf v)"
  by (induction fs) auto

lemma rec_keys_map [simp]: "map fst (map (\<lambda>(k, v). (k, f v)) fs) = map fst fs"
  by (induction fs) auto

text \<open>Sorting a bag by key loses nothing: equal sorted bags are equal as finite maps.\<close>

lemma sort_key_fst_eq_iff:
  assumes "rec_wf fs" "rec_wf gs"
  shows "sort_key fst fs = sort_key fst gs \<longleftrightarrow> set fs = set gs"
proof
  assume "sort_key fst fs = sort_key fst gs"
  then show "set fs = set gs" by (metis set_sort)
next
  assume s: "set fs = set gs"
  have inj: "inj_on fst (set fs)" using assms(1) by (simp add: rec_wf_def distinct_map)
  show "sort_key fst fs = sort_key fst gs"
  proof (rule map_sorted_distinct_set_unique [where f = fst])
    show "inj_on fst (set (sort_key fst fs) \<union> set (sort_key fst gs))" using inj s by simp
    show "sorted (map fst (sort_key fst fs))" "sorted (map fst (sort_key fst gs))" by simp_all
    show "distinct (map fst (sort_key fst fs))" "distinct (map fst (sort_key fst gs))"
      using assms inj s by (simp_all add: rec_wf_def distinct_map)
    show "set (sort_key fst fs) = set (sort_key fst gs)" using s by simp
  qed
qed

lemma sorted_keys_eq_iff:
  assumes "rec_wf fs" "rec_wf gs"
  shows "sort (rec_keys fs) = sort (rec_keys gs) \<longleftrightarrow> fst ` set fs = fst ` set gs"
proof -
  have "sort (rec_keys fs) = sort (rec_keys gs) \<longleftrightarrow> set (rec_keys fs) = set (rec_keys gs)"
    using assms by (metis rec_keys_def rec_wf_def set_sort sorted_list_of_set_sort_remdups remdups_id_iff_distinct)
  then show ?thesis by (simp add: rec_keys_def)
qed

lemma deepStrictEqual_fields_iff:
  "deepStrictEqual_fields fs gs \<longleftrightarrow> (\<forall>(k, v)\<in>set fs. deepStrictEqual v (prop_or_undef gs k))"
  by (induction fs) auto

lemma deepStrictEqual_list_iff:
  "length as = length bs \<Longrightarrow> deepStrictEqual_list as bs \<longleftrightarrow> list_all2 deepStrictEqual as bs"
  by (induction as bs rule: list_induct2) auto

lemma prop_or_undef_iff:
  "rec_wf fs \<Longrightarrow> k \<in> fst ` set fs \<Longrightarrow> prop_or_undef fs k = v \<longleftrightarrow> (k, v) \<in> set fs"
  by (auto simp: prop_or_undef_def rec_wf_get_iff split: option.splits) (metis rec_wf_get_iff option.inject option.distinct(1) rec_get_def rec_wf_def)+


lemma sortObjectKeys_atom: "\<not> is_object v \<Longrightarrow> v = sortObjectKeys b \<longleftrightarrow> v = b"
  by (cases b; cases v) auto

text \<open>Structural equality is equality of canonical forms.\<close>

lemma deepStrictEqual_canonical:
  "json_wf a \<Longrightarrow> json_wf b \<Longrightarrow> deepStrictEqual a b \<longleftrightarrow> sortObjectKeys a = sortObjectKeys b"
proof (induction a arbitrary: b)
  case (JArr vs)
  show ?case
  proof (cases b)
    case (JArr ws)
    have "list_all2 deepStrictEqual vs ws \<longleftrightarrow> map sortObjectKeys vs = map sortObjectKeys ws"
      if len: "length vs = length ws"
    proof -
      have "deepStrictEqual (vs ! i) (ws ! i) \<longleftrightarrow> sortObjectKeys (vs ! i) = sortObjectKeys (ws ! i)"
        if "i < length vs" for i
      proof (rule JArr.IH)
        show "vs ! i \<in> set vs" using that by simp
        show "json_wf (vs ! i)" using JArr.prems(1) that by simp
        show "json_wf (ws ! i)" using JArr.prems(2) JArr that len by simp
      qed
      then show ?thesis using len by (simp add: list_all2_conv_all_nth list_eq_iff_nth_eq)
    qed
    moreover have "map sortObjectKeys vs = map sortObjectKeys ws \<Longrightarrow> length vs = length ws"
      by (metis length_map)
    ultimately show ?thesis using JArr by (auto simp: deepStrictEqual_list_iff)
  qed auto
next
  case (JObj fs)
  show ?case
  proof (cases b)
    case (JObj gs)
    let ?F = "map (\<lambda>(k, v). (k, sortObjectKeys v)) fs" and ?G = "map (\<lambda>(k, v). (k, sortObjectKeys v)) gs"
    have wf: "rec_wf fs" "rec_wf gs" and wfv: "\<And>k v. (k, v) \<in> set fs \<Longrightarrow> json_wf v" "\<And>k v. (k, v) \<in> set gs \<Longrightarrow> json_wf v"
      using JObj.prems JObj by auto
    then have wfFG: "rec_wf ?F" "rec_wf ?G" by (simp_all only: rec_wf_def rec_keys_map)
    have IH: "deepStrictEqual v w \<longleftrightarrow> sortObjectKeys v = sortObjectKeys w"
      if "(k, v) \<in> set fs" "(k', w) \<in> set gs" for k v k' w
      by (rule JObj.IH [OF that(1)]) (use that wfv in auto)
    have "fst ` set fs = fst ` set gs \<and> (\<forall>(k, v)\<in>set fs. deepStrictEqual v (prop_or_undef gs k)) \<longleftrightarrow>
          set ?F = set ?G" (is "?L \<longleftrightarrow> ?R")
    proof
      assume L: ?L
      have fwd: "(k, sortObjectKeys v) \<in> set ?G" if kv: "(k, v) \<in> set fs" for k v
      proof -
        from L kv have "k \<in> fst ` set gs" by force
        then obtain w where w: "(k, w) \<in> set gs" by auto
        then have "prop_or_undef gs k = w" using prop_or_undef_iff [OF wf(2)] \<open>k \<in> fst ` set gs\<close> by blast
        with L kv have "deepStrictEqual v w" by auto
        with IH [OF kv w] w show ?thesis by force
      qed
      have bwd: "(k, sortObjectKeys w) \<in> set ?F" if kw: "(k, w) \<in> set gs" for k w
      proof -
        from L kw have "k \<in> fst ` set fs" by force
        then obtain v where v: "(k, v) \<in> set fs" by auto
        have "prop_or_undef gs k = w" using prop_or_undef_iff [OF wf(2)] kw by force
        with L v have "deepStrictEqual v w" by auto
        with IH [OF v kw] v show ?thesis by force
      qed
      from fwd bwd show ?R by auto
    next
      assume R: ?R
      then have "fst ` set ?F = fst ` set ?G" by (rule arg_cong)
      then have keys: "fst ` set fs = fst ` set gs" by (simp only: set_map [symmetric] rec_keys_map)
      have "deepStrictEqual v (prop_or_undef gs k)" if kv: "(k, v) \<in> set fs" for k v
      proof -
        have "(k, sortObjectKeys v) \<in> set ?G"
          unfolding R [symmetric] using kv by force
        then obtain w where w: "(k, w) \<in> set gs" "sortObjectKeys v = sortObjectKeys w" by auto
        then have "prop_or_undef gs k = w" using prop_or_undef_iff [OF wf(2)] by force
        with IH [OF kv w(1)] w(2) show ?thesis by simp
      qed
      with keys show ?L by auto
    qed
    then show ?thesis
      using JObj by (simp add: sort_key_fst_eq_iff [OF wfFG] sorted_keys_eq_iff [OF wf] deepStrictEqual_fields_iff)
  qed auto
qed (simp_all add: sortObjectKeys_atom)

text \<open>The subset test holds of a value and itself.\<close>

lemma isSubset_list_refl: "\<forall>v\<in>set vs. isSubset v v \<Longrightarrow> isSubset_list vs vs"
  by (induction vs) auto

lemma isSubset_fields_iff:
  "isSubset_fields fs actual \<longleftrightarrow> (\<forall>(k, v)\<in>set fs. isSubset v (read_prop actual k))"
  by (induction fs) auto

lemma isSubset_refl: "json_wf v \<Longrightarrow> isSubset v v"
proof (induction v)
  case (JArr vs)
  then show ?case by (simp add: isSubset_list_refl)
next
  case (JObj fs)
  then have "rec_wf fs" by simp
  then have "prop_or_undef fs k = v" if "(k, v) \<in> set fs" for k v
    using prop_or_undef_iff that by force
  with JObj show ?case by (auto simp: isSubset_fields_iff read_prop_def)
qed auto

section \<open>Reading back a written path\<close>

text \<open>A key that the path syntax takes literally and that is not an array index.\<close>

definition plain_key :: "string \<Rightarrow> bool" where
  "plain_key k = (k \<noteq> [] \<and> (\<forall>c\<in>set k. js_is_word c) \<and> \<not> all_digits k \<and>
     k \<noteq> ''length'' \<and> k \<noteq> STAR \<and> k \<notin> set UNSAFE_KEYS)"

definition dotted :: "string list \<Rightarrow> string" where
  "dotted keys = js_join1 CHR ''.'' keys"

lemma word_char: "js_is_word c \<Longrightarrow> \<not> path_stop c \<and> \<not> js_is_space c \<and> c \<noteq> CHR ''$''"
  by (auto simp: js_defs path_stop_def Let_def)

lemma plain_key_chars: "plain_key k \<Longrightarrow> c \<in> set k \<Longrightarrow> \<not> path_stop c \<and> \<not> js_is_space c \<and> c \<noteq> CHR ''$''"
  using word_char by (auto simp: plain_key_def)

lemma takeWhile_key:
  "\<forall>c\<in>set k. \<not> path_stop c \<Longrightarrow> takeWhile (\<lambda>x. \<not> path_stop x) (k @ CHR ''.'' # s) = k"
  "\<forall>c\<in>set k. \<not> path_stop c \<Longrightarrow> dropWhile (\<lambda>x. \<not> path_stop x) (k @ CHR ''.'' # s) = CHR ''.'' # s"
  by (induction k) (auto simp: path_stop_def)

lemma tokenize_dotted: "keys \<noteq> [] \<Longrightarrow> \<forall>k\<in>set keys. plain_key k \<Longrightarrow> tokenize (dotted keys) = keys"
proof (induction keys)
  case (Cons k keys)
  from Cons.prems obtain c cs where k: "k = c # cs" and pk: "plain_key k"
    by (cases k) (auto simp: plain_key_def)
  have stop: "\<not> path_stop c" "\<forall>x\<in>set cs. \<not> path_stop x"
    using plain_key_chars [OF pk] k by auto
  show ?case
  proof (cases "keys = []")
    case True
    have tw: "takeWhile (\<lambda>x. \<not> path_stop x) cs = cs" "dropWhile (\<lambda>x. \<not> path_stop x) cs = []"
      using stop(2) by (simp_all add: takeWhile_eq_all_conv dropWhile_eq_Nil_conv)
    from True k stop(1) show ?thesis by (simp add: dotted_def path_stop_def [of c] tw)
  next
    case False
    with Cons k stop show ?thesis
      by (simp add: dotted_def js_join1_Cons takeWhile_key path_stop_def [of c] path_stop_def [of "CHR ''.''"])
  qed
qed simp

lemma dotted_chars: "\<forall>k\<in>set keys. plain_key k \<Longrightarrow> c \<in> set (dotted keys) \<Longrightarrow> \<not> js_is_space c"
  unfolding dotted_def
  by (induction "CHR ''.''" keys rule: js_join1.induct)
    (auto dest: plain_key_chars simp: js_is_space_def Let_def)

lemma js_trim_no_space: "\<forall>c\<in>set s. \<not> js_is_space c \<Longrightarrow> js_trim s = s"
proof -
  have drop: "dropWhile js_is_space t = t" if "\<forall>c\<in>set t. \<not> js_is_space c" for t
    using that by (cases t) auto
  assume "\<forall>c\<in>set s. \<not> js_is_space c"
  then show ?thesis by (simp add: js_trim_def drop)
qed

lemma dotted_neq_Nil: "keys \<noteq> [] \<Longrightarrow> \<forall>k\<in>set keys. plain_key k \<Longrightarrow> dotted keys \<noteq> []"
  by (cases keys; cases "tl keys") (auto simp: dotted_def js_join1_Cons plain_key_def)

lemma split_dotted: "keys \<noteq> [] \<Longrightarrow> \<forall>k\<in>set keys. plain_key k \<Longrightarrow> js_split CHR ''.'' (dotted keys) = keys"
  unfolding dotted_def by (rule js_split_join1) (use plain_key_chars in \<open>fastforce simp: path_stop_def\<close>)+

text \<open>The objects a write goes through: below the root no array lies on the path.\<close>

fun object_path :: "json \<Rightarrow> string list \<Rightarrow> bool" where
  "object_path obj [] = True"
| "object_path (JObj fs) (k # ks) = (\<not> is_array (prop_or_undef fs k) \<and> object_path (prop_or_undef fs k) ks \<or> ks = [])"
| "object_path obj (k # ks) = True"

lemma prop_or_undef_set [simp]: "prop_or_undef (rec_set fs k v) k' = (if k' = k then v else prop_or_undef fs k')"
  by (simp add: prop_or_undef_def)

lemma walk_plain: "plain_key k \<Longrightarrow> walkPath (JObj fs) (k # ks) = walkPath (prop_or_undef fs k) ks"
  by (simp add: plain_key_def is_array_def)

lemma set_in_plain:
  "set_in (JObj fs) (k # k' # ks) value =
     JObj (rec_set fs k (set_in (if is_object (prop_or_undef fs k) then prop_or_undef fs k else JObj []) (k' # ks) value))"
  by simp

lemma walk_set_in:
  "\<forall>k\<in>set (k0 # ks). plain_key k \<Longrightarrow> object_path (JObj fs) (k0 # ks) \<Longrightarrow>
   walkPath (set_in (JObj fs) (k0 # ks) value) (k0 # ks) = value"
proof (induction ks arbitrary: k0 fs)
  case Nil
  have "set_in (JObj fs) [k0] value = JObj (rec_set fs k0 value)" by (simp add: Let_def)
  with Nil show ?case by (simp only: walk_plain list.set ball_simps prop_or_undef_set if_True simp_thms walkPath.simps(1))
next
  case (Cons k1 ks)
  let ?c = "prop_or_undef fs k0"
  have pk: "plain_key k0" using Cons.prems(1) by simp
  have base: "object_path (JObj gs) (k1 # ks)" if "?c = JObj gs" for gs
    using Cons.prems(2) that by simp
  have empty: "object_path (JObj []) (k1 # ks)"
    by (cases ks) (simp_all add: prop_or_undef_def is_array_def)
  have "\<exists>gs. (if is_object ?c then ?c else JObj []) = JObj gs \<and> object_path (JObj gs) (k1 # ks)"
    using Cons.prems(2) base empty by (cases ?c) (auto simp: is_array_def)
  then obtain gs where gs: "(if is_object ?c then ?c else JObj []) = JObj gs" "object_path (JObj gs) (k1 # ks)"
    by blast
  have "walkPath (set_in (JObj fs) (k0 # k1 # ks) value) (k0 # k1 # ks)
      = walkPath (set_in (JObj gs) (k1 # ks) value) (k1 # ks)"
    unfolding set_in_plain walk_plain [OF pk] prop_or_undef_set gs(1) by (simp only: simp_thms if_True)
  also have "\<dots> = value"
    by (rule Cons.IH) (use Cons.prems gs in auto)
  finally show ?case .
qed

lemma get_set_by_path:
  assumes "keys \<noteq> []" "\<forall>k\<in>set keys. plain_key k" "object_path (JObj fs) keys"
    and "stripJsonPathPrefix path = dotted keys"
  shows "getByPath (setByPath (JObj fs) path value) path = value"
proof -
  have trim: "js_trim (dotted keys) = dotted keys"
    using dotted_chars [OF assms(2)] by (simp add: js_trim_no_space)
  have keys: "filter (\<lambda>k. k \<noteq> []) keys = keys"
    using assms(2) by (auto simp: plain_key_def intro: filter_True)
  obtain k0 ks where k: "keys = k0 # ks" using assms(1) by (cases keys) auto
  have safe: "\<not> (\<exists>k\<in>set keys. k \<in> set UNSAFE_KEYS)"
    using assms(2) by (auto simp: plain_key_def)
  have "setByPath (JObj fs) path value = set_in (JObj fs) keys value"
    using assms(1,2,4) safe
    by (simp add: setByPath_def Let_def trim dotted_neq_Nil split_dotted keys)
  moreover have "getByPath v path = walkPath v keys" for v
    using assms by (simp add: getByPath_def Let_def trim dotted_neq_Nil tokenizeJsonPath_def tokenize_dotted)
  ultimately show ?thesis using walk_set_in [of k0 ks fs] assms(2,3) k by simp
qed

section \<open>Properties\<close>

text \<open>Strict equality of two JSON documents is equality of their canonical forms, in which the
keys of every object are sorted; so it ignores key order and nothing else.\<close>

theorem strict_equality_canonical:
  assumes "json_wf a" and "json_wf b"
  shows "deepStrictEqual a b \<longleftrightarrow> sortObjectKeys a = sortObjectKeys b"
  using deepStrictEqual_canonical [OF assms] .

theorem strict_equality_canonical_witness:
  "deepStrictEqual (JObj [(''a'', JBool True), (''b'', JNull)]) (JObj [(''b'', JNull), (''a'', JBool True)])"
proof -
  have "json_wf (JObj [(''a'', JBool True), (''b'', JNull)])" "json_wf (JObj [(''b'', JNull), (''a'', JBool True)])"
    and eq: "sortObjectKeys (JObj [(''a'', JBool True), (''b'', JNull)]) = sortObjectKeys (JObj [(''b'', JNull), (''a'', JBool True)])"
    by (simp_all add: rec_wf_def)
  from strict_equality_canonical [OF this(1,2)] eq show ?thesis by simp
qed

text \<open>Writing a value at a path and reading the path back gives the value, for a path of plain
property names through objects of the document.\<close>

theorem set_then_get:
  assumes "keys \<noteq> []" and "\<forall>k\<in>set keys. plain_key k" and "object_path (JObj fs) keys"
  shows "getByPath (setByPath (JObj fs) (dotted keys) value) (dotted keys) = value"
proof -
  have "stripJsonPathPrefix (dotted keys) = dotted keys"
  proof (cases "dotted keys")
    case (Cons c cs)
    obtain k ks where k: "keys = k # ks" using assms(1) by (cases keys) auto
    with assms(2) have "k \<noteq> []" "\<forall>x\<in>set k. x \<noteq> CHR ''$''"
      using plain_key_chars [of k] by (auto simp: plain_key_def)
    moreover have "prefix k (dotted keys)" using k by (cases ks) (simp_all add: dotted_def)
    ultimately have "c \<noteq> CHR ''$''" using Cons by (cases k) auto
    with Cons show ?thesis by (simp add: stripJsonPathPrefix_def js_starts_with_def)
  qed (simp add: stripJsonPathPrefix_def js_starts_with_def)
  then show ?thesis using get_set_by_path [OF assms] by blast
qed

theorem set_then_get_witness:
  "getByPath (setByPath (JObj [(''user'', JObj [])]) (dotted [''user'', ''name'']) (JStr ''ada'')) (dotted [''user'', ''name'']) = JStr ''ada''"
proof (rule set_then_get)
  show "\<forall>k\<in>set [''user'', ''name'']. plain_key k" by code_simp
  show "object_path (JObj [(''user'', JObj [])]) [''user'', ''name'']" by code_simp
qed simp

end
