(* ===== verification/Predicates.thy ===== *)
theory Predicates
  imports Path_Matcher Json_Model Pattern_Cache
begin

text \<open>
  The predicate evaluator: value extraction and the operators
  (\<open>src/shared/api-mock/predicateEvaluatorHelpers.ts\<close>), the evaluation of predicate trees and
  of a route (\<open>predicateEvaluator.ts\<close>), and the tree edits of the Studio
  (\<open>predicateTree.ts\<close>).

  The evaluator appends result rows to an array it is given and looks only at the rows it
  appended itself; here it returns them. The rows of a None-of group are rewritten in place
  by the code after the children ran; here the rewritten rows are returned.

  \<open>sem_group\<close> is the meaning of a tree without rows. The lemmas show that evaluation
  computes it, and that a rejected request always has a failing row to show for it.
\<close>

section \<open>Values\<close>

definition stripBasePath :: "string \<Rightarrow> string \<Rightarrow> string" where
  "stripBasePath path basePath =
     (if basePath = [] then path
      else if js_starts_with path basePath then
        (let rest = drop (length basePath) path in if rest = [] then ''/'' else rest)
      else path)"

definition first_header :: "captured_request \<Rightarrow> string \<Rightarrow> string option" where
  "first_header req name = (case rec_get (rq_headers req) name of Some (v # _) \<Rightarrow> Some v | _ \<Rightarrow> None)"

text \<open>\<open>atob\<close>: ASCII white space is dropped, up to two padding signs are removed, any other unit
outside the alphabet or a length of one modulo four throws.\<close>

definition b64_value :: "char \<Rightarrow> nat option" where
  "b64_value c = (let n = (of_char c :: nat) in
     if 65 \<le> n \<and> n \<le> 90 then Some (n - 65)
     else if 97 \<le> n \<and> n \<le> 122 then Some (n - 71)
     else if 48 \<le> n \<and> n \<le> 57 then Some (n + 4)
     else if n = 43 then Some 62
     else if n = 47 then Some 63
     else None)"

fun b64_bytes :: "nat list \<Rightarrow> nat list" where
  "b64_bytes (a # b # c # d # r) =
     [a * 4 + b div 16, (b mod 16) * 16 + c div 4, (c mod 4) * 64 + d] @ b64_bytes r"
| "b64_bytes [a, b, c] = [a * 4 + b div 16, (b mod 16) * 16 + c div 4]"
| "b64_bytes [a, b] = [a * 4 + b div 16]"
| "b64_bytes _ = []"

definition b64_strip_padding :: "string \<Rightarrow> string" where
  "b64_strip_padding s =
     (if length s mod 4 = 0 then
        (if js_ends_with s ''=='' then butlast (butlast s)
         else if js_ends_with s ''='' then butlast s else s)
      else s)"

definition js_atob :: "string \<Rightarrow> string option" where
  "js_atob s =
     (let t = b64_strip_padding (filter (\<lambda>c. (of_char c :: nat) \<notin> {9, 10, 12, 13, 32}) s);
          vs = map b64_value t
      in if length t mod 4 = 1 \<or> None \<in> set vs then None
         else Some (map (\<lambda>n. char_of n) (b64_bytes (map the vs))))"

definition API_KEY_HEADERS :: "string list" where
  "API_KEY_HEADERS = [''x-api-key'', ''api-key'', ''x-auth-token'']"

definition extractSecurityValue :: "string option \<Rightarrow> captured_request \<Rightarrow> pvalue" where
  "extractSecurityValue selector req =
     (let authHeader = first_header req ''authorization'';
          to_value = (\<lambda>v. case v of None \<Rightarrow> VNull | Some s \<Rightarrow> VStr s);
          api_key = find (\<lambda>name. rec_has (rq_headers req) name) API_KEY_HEADERS
      in case selector of
           None \<Rightarrow> VNull
         | Some sel \<Rightarrow>
             (if sel = [] then VNull
              else if sel = ''scheme'' then
                (case authHeader of
                   None \<Rightarrow> VNull
                 | Some [] \<Rightarrow> VNull
                 | Some a \<Rightarrow>
                     (case js_index_of '' '' a of
                        Some i \<Rightarrow> if 0 < i then VStr (take i a) else VStr a
                      | None \<Rightarrow> VStr a))
              else if sel = ''username'' then
                (case authHeader of
                   None \<Rightarrow> VNull
                 | Some a \<Rightarrow>
                     (if \<not> js_starts_with (js_lower a) ''basic '' then VNull
                      else (case js_atob (drop 6 a) of
                              None \<Rightarrow> VNull
                            | Some decoded \<Rightarrow>
                                (let username = hd (js_split CHR '':'' decoded)
                                 in if username = [] then VNull else VStr username))))
              else if sel = ''tokenClaim'' then
                (case authHeader of
                   None \<Rightarrow> VNull
                 | Some a \<Rightarrow> if js_starts_with a ''Bearer '' then VStr (drop 7 a) else VNull)
              else if sel = ''apiKeyName'' then to_value api_key
              else if sel = ''apiKeyLocation'' then
                (case api_key of None \<Rightarrow> VNull | Some _ \<Rightarrow> VStr ''header'')
              else if sel = ''certSubject'' then to_value (rq_clientCertSubject req)
              else VNull))"

definition extractValue :: "predicate \<Rightarrow> captured_request \<Rightarrow> string record_bag \<Rightarrow> pvalue" where
  "extractValue pred req pathParams =
     (let str_value = (\<lambda>v. case v of None \<Rightarrow> VNull | Some s \<Rightarrow> VStr s);
          list_value = (\<lambda>v. case v of None \<Rightarrow> VNull | Some ss \<Rightarrow> VList ss);
          with_selector = (\<lambda>f. case p_selector pred of None \<Rightarrow> VNull | Some sel \<Rightarrow> if sel = [] then VNull else f sel)
      in case p_source pred of
           Src_pathParam \<Rightarrow> with_selector (\<lambda>sel. str_value (rec_get pathParams sel))
         | Src_query \<Rightarrow> with_selector (\<lambda>sel. list_value (rec_get (rq_query req) sel))
         | Src_header \<Rightarrow> with_selector (\<lambda>sel. list_value (rec_get (rq_headers req) (js_lower sel)))
         | Src_cookie \<Rightarrow> with_selector (\<lambda>sel. str_value (rec_get (rq_cookies req) sel))
         | Src_security \<Rightarrow> extractSecurityValue (p_selector pred) req
         | Src_body \<Rightarrow> str_value (rq_body req)
         | Src_transport \<Rightarrow> VNull)"

text \<open>\<open>String(v)\<close>; elements of an array are joined with commas, null ones as the empty text.\<close>

fun js_String :: "js_host \<Rightarrow> json \<Rightarrow> string" where
  "js_String h JUndef = ''undefined''"
| "js_String h JNull = ''null''"
| "js_String h (JBool b) = (if b then ''true'' else ''false'')"
| "js_String h (JNum n) = num_to_string h n"
| "js_String h (JStr s) = s"
| "js_String h (JArr vs) = js_join '','' (map (\<lambda>v. if is_nullish v then '''' else js_String h v) vs)"
| "js_String h (JObj _) = ''[object Object]''"

definition or_undef :: "json option \<Rightarrow> json" where
  "or_undef v = (case v of None \<Rightarrow> JUndef | Some w \<Rightarrow> w)"

definition str :: "js_host \<Rightarrow> json option \<Rightarrow> string" where
  "str h e = (if is_nullish (or_undef e) then '''' else js_String h (or_undef e))"

definition flatValue :: "pvalue \<Rightarrow> string option" where
  "flatValue v = (case v of VNull \<Rightarrow> None | VStr s \<Rightarrow> Some s
                  | VList ss \<Rightarrow> (case ss of [] \<Rightarrow> None | s # _ \<Rightarrow> Some s))"

definition anyValue :: "pvalue \<Rightarrow> (string \<Rightarrow> bool) \<Rightarrow> bool" where
  "anyValue v f = (case v of VNull \<Rightarrow> False | VStr s \<Rightarrow> f s | VList ss \<Rightarrow> list_ex f ss)"

definition case_insensitive :: "predicate_options option \<Rightarrow> bool" where
  "case_insensitive opts = (case opts of None \<Rightarrow> False | Some ob \<Rightarrow> opt_caseSensitive ob = Some False)"

section \<open>Operators\<close>

definition matchExact :: "js_host \<Rightarrow> pvalue \<Rightarrow> json option \<Rightarrow> predicate_options option \<Rightarrow> bool" where
  "matchExact h v expected opts =
     (let want = str h expected; ci = case_insensitive opts
      in anyValue v (\<lambda>s. if ci then js_lower s = js_lower want else s = want))"

definition matchContains :: "js_host \<Rightarrow> pvalue \<Rightarrow> json option \<Rightarrow> bool" where
  "matchContains h v expected = anyValue v (\<lambda>s. js_includes s (str h expected))"

definition matchPrefix :: "js_host \<Rightarrow> pvalue \<Rightarrow> json option \<Rightarrow> bool" where
  "matchPrefix h v expected = anyValue v (\<lambda>s. js_starts_with s (str h expected))"

definition matchSuffix :: "js_host \<Rightarrow> pvalue \<Rightarrow> json option \<Rightarrow> bool" where
  "matchSuffix h v expected = anyValue v (\<lambda>s. js_ends_with s (str h expected))"

definition test_pattern :: "js_host \<Rightarrow> string \<Rightarrow> string \<Rightarrow> string \<Rightarrow> bool" where
  "test_pattern h source flags s = (case regex_compile h source flags of None \<Rightarrow> False | Some re \<Rightarrow> re s)"

definition matchRegex :: "js_host \<Rightarrow> pvalue \<Rightarrow> json option \<Rightarrow> predicate_options option \<Rightarrow> bool" where
  "matchRegex h v expected opts =
     anyValue v (test_pattern h (str h expected) (if case_insensitive opts then ''i'' else ''''))"

definition value_glob :: "string \<Rightarrow> glob_token list" where
  "value_glob pattern =
     map (\<lambda>c. if c = CHR ''*'' then GAny else if c = CHR ''?'' then GDot else GLit c) pattern"

definition matchGlob :: "js_host \<Rightarrow> pvalue \<Rightarrow> json option \<Rightarrow> predicate_options option \<Rightarrow> bool" where
  "matchGlob h v expected opts =
     anyValue v (glob_match (case_insensitive opts) (value_glob (str h expected)))"

text \<open>The expected document: a string is parsed, anything else is taken as it is.\<close>

definition expected_json :: "js_host \<Rightarrow> json option \<Rightarrow> json option" where
  "expected_json h expected =
     (case or_undef expected of JStr s \<Rightarrow> json_parse h s | e \<Rightarrow> Some e)"

definition matchJsonWith :: "(json \<Rightarrow> json \<Rightarrow> bool) \<Rightarrow> js_host \<Rightarrow> pvalue \<Rightarrow> json option \<Rightarrow> bool" where
  "matchJsonWith test h v expected =
     (case flatValue v of
        None \<Rightarrow> False
      | Some body \<Rightarrow>
          (case json_parse h body of
             None \<Rightarrow> False
           | Some parsed \<Rightarrow> (case expected_json h expected of None \<Rightarrow> False | Some want \<Rightarrow> test parsed want)))"

definition matchJsonStrict :: "js_host \<Rightarrow> pvalue \<Rightarrow> json option \<Rightarrow> bool" where
  "matchJsonStrict = matchJsonWith deepStrictEqual"

definition matchJsonSubset :: "js_host \<Rightarrow> pvalue \<Rightarrow> json option \<Rightarrow> bool" where
  "matchJsonSubset = matchJsonWith (\<lambda>parsed want. isSubset want parsed)"

definition resolveSimpleJsonPath :: "json \<Rightarrow> string \<Rightarrow> json" where
  "resolveSimpleJsonPath obj path =
     (let trimmed = js_trim path
      in if trimmed = [] \<or> trimmed = ''$'' then obj else getByPath obj trimmed)"

definition formatJsonPathValue :: "js_host \<Rightarrow> json \<Rightarrow> string" where
  "formatJsonPathValue h v = (case v of
     JUndef \<Rightarrow> '''' | JNull \<Rightarrow> ''null'' | JStr s \<Rightarrow> s
   | JNum _ \<Rightarrow> js_String h v | JBool _ \<Rightarrow> js_String h v
   | _ \<Rightarrow> json_stringify h v)"

definition matchJsonPathExists :: "js_host \<Rightarrow> pvalue \<Rightarrow> json option \<Rightarrow> bool" where
  "matchJsonPathExists h v expected =
     (case (flatValue v, expected) of
        (Some body, Some (JStr path)) \<Rightarrow>
          (case json_parse h body of
             None \<Rightarrow> False
           | Some parsed \<Rightarrow> resolveSimpleJsonPath parsed path \<noteq> JUndef)
      | _ \<Rightarrow> False)"

definition matchJsonPathEquals ::
  "js_host \<Rightarrow> pvalue \<Rightarrow> json option \<Rightarrow> match_style option \<Rightarrow> bool" where
  "matchJsonPathEquals h v expected matchStyle =
     (case (flatValue v, expected) of
        (Some body, Some (JArr (JStr path # expectedVal # _))) \<Rightarrow>
          (case json_parse h body of
             None \<Rightarrow> False
           | Some parsed \<Rightarrow>
               (let resolved = resolveSimpleJsonPath parsed path in
                if resolved = JUndef then False
                else
                  (let actual = formatJsonPathValue h resolved;
                       want = formatJsonPathValue h expectedVal
                   in if matchStyle = Some Style_subset \<and> want \<noteq> [] \<and> js_includes actual want then True
                      else if actual = want then True
                      else if is_object resolved then
                        (case (case expectedVal of JStr s \<Rightarrow> json_parse h s | e \<Rightarrow> Some e) of
                           None \<Rightarrow> False
                         | Some doc \<Rightarrow> is_object doc \<and> deepStrictEqual resolved doc)
                      else False)))
      | _ \<Rightarrow> False)"

definition js_falsy :: "json \<Rightarrow> bool" where
  "js_falsy v = (v \<in> {JUndef, JNull, JBool False, JNum 0, JStr ''''})"

datatype form_mode = Form_exact | Form_regex | Form_present

definition matchFormField :: "js_host \<Rightarrow> pvalue \<Rightarrow> json option \<Rightarrow> form_mode \<Rightarrow> bool" where
  "matchFormField h v expected mode =
     (case flatValue v of
        None \<Rightarrow> False
      | Some body \<Rightarrow>
          (let (fieldName, fieldValue) =
                 (case or_undef expected of
                    JArr vs \<Rightarrow> (elem_or_undef vs 0, elem_or_undef vs 1)
                  | JStr s \<Rightarrow> (if mode = Form_present then JStr s else JUndef, JUndef)
                  | _ \<Rightarrow> (JUndef, JUndef));
               want = (if is_nullish fieldValue then '''' else js_String h fieldValue)
           in if js_falsy fieldName then False
              else
                (let actual = form_get h body (js_String h fieldName)
                 in case mode of
                      Form_present \<Rightarrow> actual \<noteq> None
                    | Form_exact \<Rightarrow> actual = Some want
                    | Form_regex \<Rightarrow> (case actual of None \<Rightarrow> False | Some a \<Rightarrow> test_pattern h want '''' a))))"

definition evaluateOperator ::
  "js_host \<Rightarrow> predicate_operator \<Rightarrow> pvalue \<Rightarrow> json option \<Rightarrow> predicate_options option \<Rightarrow> string option \<Rightarrow> bool" where
  "evaluateOperator h operator v expected opts contentType =
     (case operator of
        Op_present \<Rightarrow> v \<noteq> VNull \<and> v \<noteq> VStr ''''
      | Op_absent \<Rightarrow> v = VNull \<or> v = VStr ''''
      | Op_exact \<Rightarrow> matchExact h v expected opts
      | Op_contains \<Rightarrow> matchContains h v expected
      | Op_prefix \<Rightarrow> matchPrefix h v expected
      | Op_suffix \<Rightarrow> matchSuffix h v expected
      | Op_regex \<Rightarrow> matchRegex h v expected opts
      | Op_glob \<Rightarrow> matchGlob h v expected opts
      | Op_json_strict \<Rightarrow> matchJsonStrict h v expected
      | Op_json_subset \<Rightarrow> matchJsonSubset h v expected
      | Op_jsonPath_exists \<Rightarrow> matchJsonPathExists h v expected
      | Op_jsonPath_equals \<Rightarrow>
          matchJsonPathEquals h v expected (case opts of None \<Rightarrow> None | Some ob \<Rightarrow> opt_matchStyle ob)
      | Op_form_field_exact \<Rightarrow> matchFormField h v expected Form_exact
      | Op_form_field_regex \<Rightarrow> matchFormField h v expected Form_regex
      | Op_form_field_present \<Rightarrow> matchFormField h v expected Form_present
      | Op_binary_exact \<Rightarrow> (case v of VStr s \<Rightarrow> s = js_String h (or_undef expected) | _ \<Rightarrow> False)
      | _ \<Rightarrow> content_matcher h operator v expected opts contentType)"

section \<open>Messages\<close>

definition label_with_selector :: "string \<Rightarrow> string option \<Rightarrow> string" where
  "label_with_selector src sel =
     (case sel of None \<Rightarrow> src | Some s \<Rightarrow> if s = [] then src else src @ '' \"'' @ s @ ''\"'')"

definition describeFailure :: "predicate \<Rightarrow> pvalue \<Rightarrow> string" where
  "describeFailure pred v =
     (let label = label_with_selector (source_name (p_source pred)) (p_selector pred);
          shown = (\<lambda>display. label @ '' '' @ operator_name (p_operator pred) @ '' failed - got \"'' @ display @ ''\"'')
      in case v of
           VNull \<Rightarrow> label @ '' was absent''
         | VList ss \<Rightarrow> shown (js_join '', '' ss)
         | VStr s \<Rightarrow> shown (if 80 < length s then take 80 s @ ''...'' else s))"

fun combinatorLabel :: "combinator \<Rightarrow> string" where
  "combinatorLabel Comb_all = ''All of''"
| "combinatorLabel Comb_any = ''Any of''"
| "combinatorLabel Comb_not = ''None of''"
| "combinatorLabel (Comb_other s) = ''Group''"

definition predicateResultLabel :: "predicate_result \<Rightarrow> string" where
  "predicateResultLabel r =
     (case pr_combinator r of
        Some c \<Rightarrow> combinatorLabel c
      | None \<Rightarrow> label_with_selector (pr_source r) (pr_selector r))"

definition describeGroupOutcome :: "combinator \<Rightarrow> bool \<Rightarrow> predicate_result list \<Rightarrow> string" where
  "describeGroupOutcome comb passed childResults =
     (case comb of
        Comb_not \<Rightarrow>
          (if \<exists>r\<in>set childResults. \<not> pr_evaluated r then ''fail-closed - a child could not be evaluated''
           else if passed then ''passed - no child matched''
           else (let matching = filter pr_passed childResults
                 in if matching \<noteq> [] then
                      ''rejected - '' @ js_join '', '' (map predicateResultLabel matching) @ '' matched''
                    else ''rejected - a child matched''))
      | Comb_any \<Rightarrow> if passed then ''passed'' else ''failed - no child passed''
      | Comb_all \<Rightarrow>
          (if passed then ''passed''
           else (let failed = filter (\<lambda>r. \<not> pr_passed r) childResults
                 in if failed \<noteq> [] then
                      ''failed - '' @ js_join '', '' (map predicateResultLabel failed) @ '' did not match''
                    else ''failed - every child must pass''))
      | Comb_other s \<Rightarrow> ''unknown combinator \"'' @ s @ ''\" - fail-closed'')"

section \<open>Evaluating a tree\<close>

definition UNAVAILABLE_PREDICATE_OPERATORS :: "predicate_operator list" where
  "UNAVAILABLE_PREDICATE_OPERATORS = []"

definition isUnavailablePredicateOperator :: "predicate_operator \<Rightarrow> bool" where
  "isUnavailablePredicateOperator operator = (operator \<in> set UNAVAILABLE_PREDICATE_OPERATORS)"

fun isKnownCombinator :: "combinator \<Rightarrow> bool" where
  "isKnownCombinator (Comb_other s) = False"
| "isKnownCombinator _ = True"

definition shouldRecordGroupResult :: "combinator \<Rightarrow> bool \<Rightarrow> bool" where
  "shouldRecordGroupResult comb passed =
     (if comb = Comb_not then True
      else if comb = Comb_any \<and> \<not> passed then True
      else \<not> isKnownCombinator comb)"

definition request_content_type :: "captured_request \<Rightarrow> string option" where
  "request_content_type req =
     (case first_header req ''content-type'' of Some t \<Rightarrow> Some t | None \<Rightarrow> rq_contentType req)"

text \<open>A leaf with its negation option.\<close>

definition leaf_holds :: "js_host \<Rightarrow> captured_request \<Rightarrow> string record_bag \<Rightarrow> predicate \<Rightarrow> bool" where
  "leaf_holds h req pathParams pred =
     (let passed = evaluateOperator h (p_operator pred) (extractValue pred req pathParams)
                     (p_expected pred) (p_options pred) (request_content_type req);
          negate = (case p_options pred of None \<Rightarrow> False | Some ob \<Rightarrow> opt_negate ob = Some True)
      in if negate then \<not> passed else passed)"

definition evaluateSinglePredicate ::
  "js_host \<Rightarrow> captured_request \<Rightarrow> string record_bag \<Rightarrow> string \<Rightarrow> predicate \<Rightarrow> bool \<times> predicate_result list" where
  "evaluateSinglePredicate h req pathParams groupId pred =
     (let row = (\<lambda>passed evaluated reason.
            \<lparr>pr_predicateId = p_id pred, pr_groupId = groupId, pr_source = source_name (p_source pred),
             pr_operator = p_operator pred, pr_passed = passed, pr_evaluated = evaluated,
             pr_reason = reason, pr_selector = p_selector pred, pr_combinator = None\<rparr>)
      in if isUnavailablePredicateOperator (p_operator pred) then
           (False, [row False False (Some (''Operator \"'' @ operator_name (p_operator pred) @
              ''\" is not evaluated yet - this condition never matches''))])
         else
           (let passed = leaf_holds h req pathParams pred
            in (passed, [row passed True
                  (if passed then None else Some (describeFailure pred (extractValue pred req pathParams)))])))"

text \<open>The rewriting of the child rows of a None-of group.\<close>

definition annotate_child :: "bool \<Rightarrow> predicate_result \<Rightarrow> predicate_result" where
  "annotate_child passed r =
     (if pr_combinator r \<noteq> None \<or> \<not> pr_evaluated r then r
      else if \<not> passed \<and> pr_passed r then
        r\<lparr>pr_reason := (case pr_reason r of
            Some s \<Rightarrow> Some s
          | None \<Rightarrow> Some (predicateResultLabel r @ '' matched - rejected by None of''))\<rparr>
      else if passed \<and> \<not> pr_passed r then
        (case pr_reason r of
           Some s \<Rightarrow> if s \<noteq> [] \<and> \<not> js_includes s ''as required''
                     then r\<lparr>pr_reason := Some (s @ '' - as required'')\<rparr> else r
         | None \<Rightarrow> r)
      else r)"

definition group_row :: "string \<Rightarrow> string \<Rightarrow> combinator \<Rightarrow> bool \<Rightarrow> predicate_result list \<Rightarrow> predicate_result" where
  "group_row gid parent comb passed childResults =
     \<lparr>pr_predicateId = ''group:'' @ gid, pr_groupId = parent, pr_source = combinatorLabel comb,
      pr_operator = Op_present, pr_passed = passed, pr_evaluated = True,
      pr_reason = Some (describeGroupOutcome comb passed childResults),
      pr_selector = None, pr_combinator = (if isKnownCombinator comb then Some comb else None)\<rparr>"

fun evaluateGroup ::
    "js_host \<Rightarrow> captured_request \<Rightarrow> string record_bag \<Rightarrow> string \<Rightarrow> predicate_group \<Rightarrow> bool \<times> predicate_result list"
  and evaluateChild ::
    "js_host \<Rightarrow> captured_request \<Rightarrow> string record_bag \<Rightarrow> string \<Rightarrow> predicate_node \<Rightarrow> bool \<times> predicate_result list"
  and evaluateEvery ::
    "js_host \<Rightarrow> captured_request \<Rightarrow> string record_bag \<Rightarrow> string \<Rightarrow> predicate_node list \<Rightarrow> bool \<times> predicate_result list"
  and evaluateSome ::
    "js_host \<Rightarrow> captured_request \<Rightarrow> string record_bag \<Rightarrow> string \<Rightarrow> predicate_node list \<Rightarrow> bool \<times> predicate_result list"
where
  "evaluateGroup h req params parent (PGroup gid comb children) =
     (let (passed, childResults) =
            (case comb of
               Comb_all \<Rightarrow> evaluateEvery h req params gid children
             | Comb_any \<Rightarrow> evaluateSome h req params gid children
             | Comb_not \<Rightarrow>
                 (case evaluateSome h req params gid children of
                    (anyMatched, rows) \<Rightarrow>
                      (let unevaluated = (\<exists>r\<in>set rows. \<not> pr_evaluated r);
                           ok = (\<not> unevaluated \<and> \<not> anyMatched)
                       in (ok, map (annotate_child ok) rows)))
             | Comb_other _ \<Rightarrow> (False, []))
      in (passed,
          childResults @
          (if shouldRecordGroupResult comb passed
           then [group_row gid parent comb passed childResults] else [])))"
| "evaluateChild h req params gid (PLeaf pred) = evaluateSinglePredicate h req params gid pred"
| "evaluateChild h req params gid (PSub g) = evaluateGroup h req params gid g"
| "evaluateEvery h req params gid [] = (True, [])"
| "evaluateEvery h req params gid (n # ns) =
     (case evaluateChild h req params gid n of
        (False, rows) \<Rightarrow> (False, rows)
      | (True, rows) \<Rightarrow> (case evaluateEvery h req params gid ns of (m, rows') \<Rightarrow> (m, rows @ rows')))"
| "evaluateSome h req params gid [] = (False, [])"
| "evaluateSome h req params gid (n # ns) =
     (case evaluateChild h req params gid n of
        (True, rows) \<Rightarrow> (True, rows)
      | (False, rows) \<Rightarrow> (case evaluateSome h req params gid ns of (m, rows') \<Rightarrow> (m, rows @ rows')))"

definition evaluatePredicateGroup :: "js_host \<Rightarrow> predicate_group \<Rightarrow> captured_request \<Rightarrow> string record_bag \<Rightarrow> bool" where
  "evaluatePredicateGroup h g req pathParams = fst (evaluateGroup h req pathParams '''' g)"

section \<open>Evaluating a route\<close>

record route_evaluation =
  ev_routeId :: string
  ev_routeName :: string
  ev_priority :: int
  ev_enabled :: bool
  ev_methodMatch :: bool
  ev_pathMatch :: bool
  ev_pathParams :: "string record_bag"
  ev_predicateResults :: "predicate_result list"
  ev_overallMatch :: bool

definition matchMethod :: "mock_method \<Rightarrow> string \<Rightarrow> bool" where
  "matchMethod routeMethod requestMethod =
     (if routeMethod = M_ANY then True else method_name routeMethod = js_upper requestMethod)"

definition has_conditions :: "response_variant \<Rightarrow> bool" where
  "has_conditions v = (case rv_conditions v of None \<Rightarrow> False | Some g \<Rightarrow> group_children g \<noteq> [])"

definition conditions_hold :: "js_host \<Rightarrow> response_variant \<Rightarrow> captured_request \<Rightarrow> string record_bag \<Rightarrow> bool" where
  "conditions_hold h v req pathParams =
     (case rv_conditions v of None \<Rightarrow> False | Some g \<Rightarrow> evaluatePredicateGroup h g req pathParams)"

definition routeMatchesViaRulesVariant :: "js_host \<Rightarrow> route \<Rightarrow> captured_request \<Rightarrow> string record_bag \<Rightarrow> bool" where
  "routeMatchesViaRulesVariant h rt req pathParams =
     (if rt_responseMode rt \<noteq> Mode_rules then False
      else list_ex (\<lambda>v. rv_enabled v \<and> \<not> rv_isDefault v \<and> has_conditions v \<and> conditions_hold h v req pathParams)
             (rt_responses rt))"

definition evaluateRoute :: "js_host \<Rightarrow> route \<Rightarrow> captured_request \<Rightarrow> string \<Rightarrow> route_evaluation" where
  "evaluateRoute h rt req basePath =
     (let methodMatch = matchMethod (rt_method rt) (rq_method req);
          fullPath = stripBasePath (rq_path req) basePath;
          pathResult = matchPath h (rt_path rt) fullPath;
          methodAndPath = (methodMatch \<and> pmr_matched pathResult);
          (predicatesMatch, predicateResults) =
            (if methodAndPath then evaluateGroup h req (pmr_params pathResult) '''' (rt_predicates rt)
             else (False, []));
          variantConditionMatch =
            (methodAndPath \<and> \<not> predicatesMatch \<and> routeMatchesViaRulesVariant h rt req (pmr_params pathResult))
      in \<lparr>ev_routeId = rt_id rt, ev_routeName = rt_name rt, ev_priority = rt_priority rt,
          ev_enabled = rt_enabled rt, ev_methodMatch = methodMatch, ev_pathMatch = pmr_matched pathResult,
          ev_pathParams = pmr_params pathResult, ev_predicateResults = predicateResults,
          ev_overallMatch = (rt_enabled rt \<and> methodAndPath \<and> (predicatesMatch \<or> variantConditionMatch))\<rparr>)"

section \<open>The meaning of a tree\<close>

fun sem_group :: "(predicate \<Rightarrow> bool) \<Rightarrow> predicate_group \<Rightarrow> bool"
  and sem_node :: "(predicate \<Rightarrow> bool) \<Rightarrow> predicate_node \<Rightarrow> bool"
  and sem_all :: "(predicate \<Rightarrow> bool) \<Rightarrow> predicate_node list \<Rightarrow> bool"
  and sem_any :: "(predicate \<Rightarrow> bool) \<Rightarrow> predicate_node list \<Rightarrow> bool" where
  "sem_group P (PGroup gid comb children) =
     (case comb of Comb_all \<Rightarrow> sem_all P children
      | Comb_any \<Rightarrow> sem_any P children
      | Comb_not \<Rightarrow> \<not> sem_any P children
      | Comb_other _ \<Rightarrow> False)"
| "sem_node P (PLeaf p) = P p"
| "sem_node P (PSub g) = sem_group P g"
| "sem_all P [] = True"
| "sem_all P (n # ns) = (sem_node P n \<and> sem_all P ns)"
| "sem_any P [] = False"
| "sem_any P (n # ns) = (sem_node P n \<or> sem_any P ns)"

lemma sem_all_iff: "sem_all P ns \<longleftrightarrow> (\<forall>n\<in>set ns. sem_node P n)"
  by (induction ns) auto

lemma sem_any_iff: "sem_any P ns \<longleftrightarrow> (\<exists>n\<in>set ns. sem_node P n)"
  by (induction ns) auto

lemma evaluateSingle_passed:
  "fst (evaluateSinglePredicate h req params gid p) = leaf_holds h req params p"
  by (simp add: evaluateSinglePredicate_def isUnavailablePredicateOperator_def
      UNAVAILABLE_PREDICATE_OPERATORS_def Let_def)

lemma evaluateSingle_rows:
  "\<exists>r. snd (evaluateSinglePredicate h req params gid p) = [r] \<and> pr_evaluated r \<and>
       pr_passed r = leaf_holds h req params p"
  by (simp add: evaluateSinglePredicate_def isUnavailablePredicateOperator_def
      UNAVAILABLE_PREDICATE_OPERATORS_def Let_def)

lemma annotate_child_flags [simp]:
  "pr_passed (annotate_child b r) = pr_passed r"
  "pr_evaluated (annotate_child b r) = pr_evaluated r"
  by (auto simp: annotate_child_def split: option.splits)

lemma group_row_flags [simp]:
  "pr_passed (group_row gid parent comb passed rows) = passed"
  "pr_evaluated (group_row gid parent comb passed rows)"
  by (auto simp: group_row_def)

text \<open>Every row is an evaluated one, since no operator is unavailable.\<close>

lemma evaluate_rows_evaluated:
  "r \<in> set (snd (evaluateGroup h req params parent g)) \<Longrightarrow> pr_evaluated r"
  "r \<in> set (snd (evaluateChild h req params gid n)) \<Longrightarrow> pr_evaluated r"
  "r \<in> set (snd (evaluateEvery h req params gid ns)) \<Longrightarrow> pr_evaluated r"
  "r \<in> set (snd (evaluateSome h req params gid ns)) \<Longrightarrow> pr_evaluated r"
proof (induction h req params parent g and h req params gid n and h req params gid ns and h req params gid ns
    arbitrary: r and r and r and r
    rule: evaluateGroup_evaluateChild_evaluateEvery_evaluateSome.induct)
  case (1 h req params parent gid comb children)
  show ?case
  proof (cases comb)
    case Comb_not
    obtain m rows where s: "evaluateSome h req params gid children = (m, rows)" by fastforce
    then have "\<forall>r\<in>set rows. pr_evaluated r" using 1(3) Comb_not by auto
    with s Comb_not 1(4) show ?thesis by (auto simp: Let_def split: if_splits)
  qed (use 1 in \<open>auto simp: Let_def split: prod.splits if_splits\<close>)
next
  case (2 h req params gid p)
  then show ?case using evaluateSingle_rows [of h req params gid p] by auto
qed (auto split: prod.splits bool.splits)

lemma evaluate_sem:
  "fst (evaluateGroup h req params parent g) = sem_group (leaf_holds h req params) g"
  "fst (evaluateChild h req params gid n) = sem_node (leaf_holds h req params) n"
  "fst (evaluateEvery h req params gid ns) = sem_all (leaf_holds h req params) ns"
  "fst (evaluateSome h req params gid ns) = sem_any (leaf_holds h req params) ns"
proof (induction h req params parent g and h req params gid n and h req params gid ns and h req params gid ns
    rule: evaluateGroup_evaluateChild_evaluateEvery_evaluateSome.induct)
  case (1 h req params parent gid comb children)
  show ?case
  proof (cases comb)
    case Comb_not
    obtain m rows where s: "evaluateSome h req params gid children = (m, rows)" by fastforce
    then have "\<forall>r\<in>set rows. pr_evaluated r"
      using evaluate_rows_evaluated(4) [of _ h req params gid children] by simp
    with s Comb_not 1(3) [OF Comb_not] show ?thesis by (simp add: Let_def)
  qed (use 1 in \<open>auto simp: Let_def split: prod.splits\<close>)
qed (auto simp: evaluateSingle_passed split: prod.splits bool.splits)

text \<open>A tree that rejects leaves a row that did not pass.\<close>

lemma evaluate_failure_row:
  "\<not> fst (evaluateGroup h req params parent g) \<Longrightarrow>
     \<exists>r\<in>set (snd (evaluateGroup h req params parent g)). \<not> pr_passed r"
  "\<not> fst (evaluateChild h req params gid n) \<Longrightarrow>
     \<exists>r\<in>set (snd (evaluateChild h req params gid n)). \<not> pr_passed r"
  "\<not> fst (evaluateEvery h req params gid ns) \<Longrightarrow>
     \<exists>r\<in>set (snd (evaluateEvery h req params gid ns)). \<not> pr_passed r"
  "True"
proof (induction h req params parent g and h req params gid n and h req params gid ns and h req params gid ns
    rule: evaluateGroup_evaluateChild_evaluateEvery_evaluateSome.induct)
  case (1 h req params parent gid comb children)
  show ?case
  proof (cases comb)
    case Comb_all
    with 1 show ?thesis by (auto simp: Let_def split: prod.splits)
  qed (use 1 in \<open>auto simp: Let_def shouldRecordGroupResult_def split: prod.splits\<close>)
next
  case (2 h req params gid p)
  then show ?case
    using evaluateSingle_rows [of h req params gid p] evaluateSingle_passed [of h req params gid p] by auto
qed (auto split: prod.splits bool.splits)

lemma evaluatePredicateGroup_sem:
  "evaluatePredicateGroup h g req params = sem_group (leaf_holds h req params) g"
  by (simp add: evaluatePredicateGroup_def evaluate_sem)

text \<open>When a route matches, in terms of the meaning of its tree and of its variants' conditions.\<close>

lemma evaluateRoute_match:
  "ev_overallMatch (evaluateRoute h rt req basePath) \<longleftrightarrow>
     (let p = matchPath h (rt_path rt) (stripBasePath (rq_path req) basePath) in
      rt_enabled rt \<and> matchMethod (rt_method rt) (rq_method req) \<and> pmr_matched p \<and>
      (sem_group (leaf_holds h req (pmr_params p)) (rt_predicates rt) \<or>
       routeMatchesViaRulesVariant h rt req (pmr_params p)))"
  using evaluate_sem(1) [of h req "pmr_params (matchPath h (rt_path rt) (stripBasePath (rq_path req) basePath))" "''''" "rt_predicates rt"]
  by (auto simp: evaluateRoute_def Let_def split: prod.splits if_splits)

lemma evaluateRoute_fields [simp]:
  "ev_routeId (evaluateRoute h rt req basePath) = rt_id rt"
  "ev_priority (evaluateRoute h rt req basePath) = rt_priority rt"
  "ev_routeName (evaluateRoute h rt req basePath) = rt_name rt"
  "ev_enabled (evaluateRoute h rt req basePath) = rt_enabled rt"
  by (simp_all add: evaluateRoute_def Let_def split: prod.splits)

section \<open>Properties\<close>

text \<open>C4. Evaluating a matcher tree computes its meaning: all-of, any-of and none-of over the leaf
conditions, whatever the nesting; an unknown combinator rejects. When the tree rejects, the
explanation has a row that did not pass.\<close>

theorem evaluation_computes_meaning:
  "(fst (evaluateGroup h req params parent g) \<longleftrightarrow> sem_group (leaf_holds h req params) g) \<and>
   (\<not> fst (evaluateGroup h req params parent g) \<longrightarrow>
      list_ex (\<lambda>r. \<not> pr_passed r) (snd (evaluateGroup h req params parent g))) \<and>
   list_all pr_evaluated (snd (evaluateGroup h req params parent g))"
  using evaluate_sem(1) [of h req params parent g] evaluate_failure_row(1) [of h req params parent g]
    evaluate_rows_evaluated(1) [of _ h req params parent g]
  by (simp add: list_all_iff list_ex_iff)

theorem evaluation_computes_meaning_witness:
  "list_ex (\<lambda>r. \<not> pr_passed r) (snd (evaluateGroup sample_host (sample_request ''/a'') [] '''' (PGroup ''g'' Comb_any [])))"
proof -
  have "\<not> fst (evaluateGroup sample_host (sample_request ''/a'') [] '''' (PGroup ''g'' Comb_any []))"
    by (simp add: Let_def)
  with evaluation_computes_meaning [of sample_host "sample_request ''/a''" "[]" "''''" "PGroup ''g'' Comb_any []"]
  show ?thesis by blast
qed

end
