(* ===== verification/Predicate_Tree.thy ===== *)
theory Predicate_Tree
  imports Predicates
begin

text \<open>
  The predicate-tree edits of the mock editor (\<open>src/shared/api-mock/predicateTree.ts\<close>):
  adding a child to a group, patching a leaf or a group, removing a node, counting and
  finding leaves. A patch object is a function on the node's own fields. The editor addresses
  nodes by id, so the lemmas say which nodes an edit touches and that it leaves the others.
\<close>

section \<open>The edits\<close>

fun addChildToGroup :: "predicate_group \<Rightarrow> string \<Rightarrow> predicate_node \<Rightarrow> predicate_group"
  and add_in_node :: "predicate_node \<Rightarrow> string \<Rightarrow> predicate_node \<Rightarrow> predicate_node"
  and add_in_nodes :: "predicate_node list \<Rightarrow> string \<Rightarrow> predicate_node \<Rightarrow> predicate_node list" where
  "addChildToGroup (PGroup i comb children) groupId child =
     (if i = groupId then PGroup i comb (children @ [child])
      else PGroup i comb (add_in_nodes children groupId child))"
| "add_in_node (PSub g) groupId child = PSub (addChildToGroup g groupId child)"
| "add_in_node (PLeaf p) groupId child = PLeaf p"
| "add_in_nodes [] groupId child = []"
| "add_in_nodes (n # ns) groupId child = add_in_node n groupId child # add_in_nodes ns groupId child"

fun updateLeafInTree :: "predicate_group \<Rightarrow> string \<Rightarrow> (predicate \<Rightarrow> predicate) \<Rightarrow> predicate_group"
  and update_leaf_nodes :: "predicate_node list \<Rightarrow> string \<Rightarrow> (predicate \<Rightarrow> predicate) \<Rightarrow> predicate_node list" where
  "updateLeafInTree (PGroup i comb children) leafId patch =
     PGroup i comb (update_leaf_nodes children leafId patch)"
| "update_leaf_nodes [] leafId patch = []"
| "update_leaf_nodes (PSub g # ns) leafId patch =
     PSub (updateLeafInTree g leafId patch) # update_leaf_nodes ns leafId patch"
| "update_leaf_nodes (PLeaf p # ns) leafId patch =
     PLeaf (if p_id p = leafId then patch p else p) # update_leaf_nodes ns leafId patch"

text \<open>A group's patch may change its id and its combinator, not its children.\<close>

fun updateGroupInTree :: "predicate_group \<Rightarrow> string \<Rightarrow> (string \<times> combinator \<Rightarrow> string \<times> combinator) \<Rightarrow> predicate_group"
  and update_group_nodes :: "predicate_node list \<Rightarrow> string \<Rightarrow> (string \<times> combinator \<Rightarrow> string \<times> combinator) \<Rightarrow> predicate_node list" where
  "updateGroupInTree (PGroup i comb children) groupId patch =
     (let (i', comb') = (if i = groupId then patch (i, comb) else (i, comb))
      in PGroup i' comb' (update_group_nodes children groupId patch))"
| "update_group_nodes [] groupId patch = []"
| "update_group_nodes (PSub g # ns) groupId patch =
     PSub (updateGroupInTree g groupId patch) # update_group_nodes ns groupId patch"
| "update_group_nodes (PLeaf p # ns) groupId patch = PLeaf p # update_group_nodes ns groupId patch"

fun node_id :: "predicate_node \<Rightarrow> string" where
  "node_id (PLeaf p) = p_id p"
| "node_id (PSub g) = group_id g"

fun removeNodeFromTree :: "predicate_group \<Rightarrow> string \<Rightarrow> predicate_group"
  and remove_nodes :: "predicate_node list \<Rightarrow> string \<Rightarrow> predicate_node list" where
  "removeNodeFromTree (PGroup i comb children) nodeId = PGroup i comb (remove_nodes children nodeId)"
| "remove_nodes [] nodeId = []"
| "remove_nodes (PSub g # ns) nodeId =
     (if group_id g = nodeId then remove_nodes ns nodeId
      else PSub (removeNodeFromTree g nodeId) # remove_nodes ns nodeId)"
| "remove_nodes (PLeaf p # ns) nodeId =
     (if p_id p = nodeId then remove_nodes ns nodeId else PLeaf p # remove_nodes ns nodeId)"

fun countLeaves :: "predicate_group \<Rightarrow> nat"
  and count_nodes :: "predicate_node list \<Rightarrow> nat" where
  "countLeaves (PGroup i comb children) = count_nodes children"
| "count_nodes [] = 0"
| "count_nodes (PSub g # ns) = countLeaves g + count_nodes ns"
| "count_nodes (PLeaf p # ns) = 1 + count_nodes ns"

fun findLeafInTree :: "predicate_group \<Rightarrow> string \<Rightarrow> predicate option"
  and find_in_nodes :: "predicate_node list \<Rightarrow> string \<Rightarrow> predicate option" where
  "findLeafInTree (PGroup i comb children) leafId = find_in_nodes children leafId"
| "find_in_nodes [] leafId = None"
| "find_in_nodes (PSub g # ns) leafId =
     (case findLeafInTree g leafId of Some hit \<Rightarrow> Some hit | None \<Rightarrow> find_in_nodes ns leafId)"
| "find_in_nodes (PLeaf p # ns) leafId =
     (if p_id p = leafId then Some p else find_in_nodes ns leafId)"

section \<open>What an edit touches\<close>

text \<open>The leaves and the group ids of a tree in document order.\<close>

fun leaves :: "predicate_group \<Rightarrow> predicate list" and node_leaves :: "predicate_node list \<Rightarrow> predicate list" where
  "leaves (PGroup i comb children) = node_leaves children"
| "node_leaves [] = []"
| "node_leaves (PSub g # ns) = leaves g @ node_leaves ns"
| "node_leaves (PLeaf p # ns) = p # node_leaves ns"

fun group_ids :: "predicate_group \<Rightarrow> string list" and nodes_group_ids :: "predicate_node list \<Rightarrow> string list" where
  "group_ids (PGroup i comb children) = i # nodes_group_ids children"
| "nodes_group_ids [] = []"
| "nodes_group_ids (PSub g # ns) = group_ids g @ nodes_group_ids ns"
| "nodes_group_ids (PLeaf p # ns) = nodes_group_ids ns"

fun leaf_list :: "predicate_node \<Rightarrow> predicate list" where
  "leaf_list (PLeaf p) = [p]"
| "leaf_list (PSub g) = leaves g"

fun group_list :: "predicate_node \<Rightarrow> string list" where
  "group_list (PLeaf p) = []"
| "group_list (PSub g) = group_ids g"

lemma node_leaves_Cons: "node_leaves (n # ns) = leaf_list n @ node_leaves ns"
  by (cases n) auto

lemma nodes_group_ids_Cons: "nodes_group_ids (n # ns) = group_list n @ nodes_group_ids ns"
  by (cases n) auto

lemma node_leaves_append [simp]: "node_leaves (ns @ ms) = node_leaves ns @ node_leaves ms"
  by (induction ns) (simp_all add: node_leaves_Cons)

lemma count_leaves: "countLeaves g = length (leaves g)" "count_nodes ns = length (node_leaves ns)"
  by (induction g and ns rule: countLeaves_count_nodes.induct) auto

lemma find_leaf:
  "findLeafInTree g i = find (\<lambda>p. p_id p = i) (leaves g)"
  "find_in_nodes ns i = find (\<lambda>p. p_id p = i) (node_leaves ns)"
proof (induction g i and ns i rule: findLeafInTree_find_in_nodes.induct)
  case (3 g ns i)
  have "find P (xs @ ys) = (case find P xs of Some hit \<Rightarrow> Some hit | None \<Rightarrow> find P ys)"
    for P and xs ys :: "predicate list"
    by (induction xs) auto
  with 3 show ?case by (simp split: option.splits)
qed auto

lemma add_absent:
  "i \<notin> set (group_ids g) \<Longrightarrow> addChildToGroup g i child = g"
  "i \<notin> set (group_list n) \<Longrightarrow> add_in_node n i child = n"
  "i \<notin> set (nodes_group_ids ns) \<Longrightarrow> add_in_nodes ns i child = ns"
  by (induction g i child and n i child and ns i child
    rule: addChildToGroup_add_in_node_add_in_nodes.induct) (auto simp: nodes_group_ids_Cons)

lemma add_leaves:
  "distinct (group_ids g) \<Longrightarrow> i \<in> set (group_ids g) \<Longrightarrow>
     mset (leaves (addChildToGroup g i child)) = mset (leaves g) + mset (leaf_list child)"
  "distinct (group_list n) \<Longrightarrow> i \<in> set (group_list n) \<Longrightarrow>
     mset (leaf_list (add_in_node n i child)) = mset (leaf_list n) + mset (leaf_list child)"
  "distinct (nodes_group_ids ns) \<Longrightarrow> i \<in> set (nodes_group_ids ns) \<Longrightarrow>
     mset (node_leaves (add_in_nodes ns i child)) = mset (node_leaves ns) + mset (leaf_list child)"
proof (induction g i child and n i child and ns i child
    rule: addChildToGroup_add_in_node_add_in_nodes.induct)
  case (1 i comb children groupId child)
  then show ?case by (auto simp: node_leaves_Cons)
next
  case (5 n ns i child)
  show ?case
  proof (cases "i \<in> set (group_list n)")
    case True
    with 5 have "i \<notin> set (nodes_group_ids ns)" by (auto simp: nodes_group_ids_Cons)
    then have "add_in_nodes ns i child = ns" by (rule add_absent)
    with 5 True show ?thesis by (simp add: node_leaves_Cons nodes_group_ids_Cons)
  next
    case False
    then have "add_in_node n i child = n" by (rule add_absent)
    with 5 False show ?thesis by (simp add: node_leaves_Cons nodes_group_ids_Cons)
  qed
qed auto

lemma remove_leaf_ids:
  "set (leaves (removeNodeFromTree g i)) \<subseteq> {p \<in> set (leaves g). p_id p \<noteq> i}"
  "set (node_leaves (remove_nodes ns i)) \<subseteq> {p \<in> set (node_leaves ns). p_id p \<noteq> i}"
  by (induction g i and ns i rule: removeNodeFromTree_remove_nodes.induct)
    (simp_all add: Collect_disj_eq conj_disj_distribR, blast+)

lemma remove_keeps:
  "i \<notin> set (tl (group_ids g)) \<Longrightarrow> leaves (removeNodeFromTree g i) = filter (\<lambda>p. p_id p \<noteq> i) (leaves g)"
  "i \<notin> set (nodes_group_ids ns) \<Longrightarrow> node_leaves (remove_nodes ns i) = filter (\<lambda>p. p_id p \<noteq> i) (node_leaves ns)"
proof (induction g i and ns i rule: removeNodeFromTree_remove_nodes.induct)
  case (3 g ns i)
  then show ?case by (cases g) auto
qed auto

lemma update_leaf_leaves:
  "leaves (updateLeafInTree g i f) = map (\<lambda>p. if p_id p = i then f p else p) (leaves g)"
  "node_leaves (update_leaf_nodes ns i f) = map (\<lambda>p. if p_id p = i then f p else p) (node_leaves ns)"
  by (induction g i f and ns i f rule: updateLeafInTree_update_leaf_nodes.induct) auto

lemma update_group_leaves [simp]:
  "leaves (updateGroupInTree g i f) = leaves g"
  "node_leaves (update_group_nodes ns i f) = node_leaves ns"
  by (induction g i f and ns i f rule: updateGroupInTree_update_group_nodes.induct)
    (auto split: prod.splits)

text \<open>Adding a condition to a group of a matcher tree adds exactly it: when the tree's
group ids are distinct and the group is in the tree, the tree has one leaf more, the new leaf
is found by its id, and every leaf that was there is still found.\<close>

theorem add_condition:
  assumes "distinct (group_ids g)" and "i \<in> set (group_ids g)"
    and "findLeafInTree g (p_id p) = None"
  shows "countLeaves (addChildToGroup g i (PLeaf p)) = countLeaves g + 1 \<and>
    findLeafInTree (addChildToGroup g i (PLeaf p)) (p_id p) = Some p \<and>
    set (leaves (addChildToGroup g i (PLeaf p))) = insert p (set (leaves g))"
proof -
  have m: "mset (leaves (addChildToGroup g i (PLeaf p))) = mset (leaves g) + {#p#}"
    using add_leaves(1) [OF assms(1,2), of "PLeaf p"] by simp
  have c: "countLeaves (addChildToGroup g i (PLeaf p)) = countLeaves g + 1"
    using arg_cong [OF m, of size] by (simp add: count_leaves)
  have s: "set (leaves (addChildToGroup g i (PLeaf p))) = insert p (set (leaves g))"
    using arg_cong [OF m, of set_mset] by simp
  have others: "\<forall>q\<in>set (leaves g). p_id q \<noteq> p_id p"
    using assms(3) find_Some_iff_ex [of "\<lambda>q. p_id q = p_id p" "leaves g"] by (auto simp: find_leaf)
  have "find (\<lambda>q. p_id q = p_id p) (leaves (addChildToGroup g i (PLeaf p))) \<noteq> None"
    using s by (subst find_Some_iff_ex) auto
  then obtain q where q: "find (\<lambda>q. p_id q = p_id p) (leaves (addChildToGroup g i (PLeaf p))) = Some q"
    by auto
  with find_SomeD [OF q] s others have "q = p" by auto
  with q c s show ?thesis by (simp add: find_leaf)
qed

theorem add_condition_witness:
  "countLeaves (addChildToGroup (PGroup ''r'' Comb_all [PSub (PGroup ''s'' Comb_any [])]) ''s''
     (PLeaf \<lparr>p_id = ''p'', p_source = Src_body, p_selector = None, p_operator = Op_present,
       p_expected = None, p_options = None\<rparr>)) = 1"
  using add_condition [of "PGroup ''r'' Comb_all [PSub (PGroup ''s'' Comb_any [])]" "''s''"
      "\<lparr>p_id = ''p'', p_source = Src_body, p_selector = None, p_operator = Op_present,
       p_expected = None, p_options = None\<rparr>"]
  by simp

end
