(* ===== verification/Near_Miss.thy ===== *)
theory Near_Miss
  imports Predicates
begin

text \<open>
  Near-miss ranking (\<open>src/shared/api-mock/nearMissRanking.ts\<close>): path segments, the edit
  distance computed row by row, the path distance, the reasons reported for a rejected route,
  and the ranked list. The edit distance is shown to be the least cost of a sequence of
  insertions, deletions and replacements.
\<close>

section \<open>Paths and the edit distance\<close>

definition MAX_CLOSE_PATH_EDITS :: nat where
  "MAX_CLOSE_PATH_EDITS = 2"

definition pathSegments :: "string \<Rightarrow> string list" where
  "pathSegments path = filter (\<lambda>s. s \<noteq> []) (js_split CHR ''/'' path)"

definition isParamSegment :: "string \<Rightarrow> bool" where
  "isParamSegment seg =
     ((case seg of c # d # r \<Rightarrow> c = CHR '':'' \<and> js_is_name_start d \<and> list_all js_is_word r | _ \<Rightarrow> False)
      \<or> (js_starts_with seg ''{'' \<and> js_ends_with seg ''}'' \<and> 2 < length seg)
      \<or> seg = ''*'' \<or> seg = ''**'')"

text \<open>One pass of the inner loop: from the previous row and the entry to the left, the entries
from \<open>j\<close> on; the row starts with its index.\<close>

fun lev_cells :: "char \<Rightarrow> string \<Rightarrow> nat list \<Rightarrow> nat \<Rightarrow> nat list" where
  "lev_cells x (y # b) (p # q # prev) left =
     (let cost = (if x = y then 0 else 1);
          v = min (min (q + 1) (left + 1)) (p + cost)
      in v # lev_cells x b (q # prev) v)"
| "lev_cells x b prev left = []"

definition lev_row :: "nat \<Rightarrow> char \<Rightarrow> string \<Rightarrow> nat list \<Rightarrow> nat list" where
  "lev_row i x b prev = i # lev_cells x b prev i"

fun lev_rows :: "nat \<Rightarrow> string \<Rightarrow> string \<Rightarrow> nat list \<Rightarrow> nat list" where
  "lev_rows i [] b prev = prev"
| "lev_rows i (x # a) b prev = lev_rows (Suc i) a b (lev_row i x b prev)"

definition levenshtein :: "string \<Rightarrow> string \<Rightarrow> nat" where
  "levenshtein a b =
     (if length a = 0 then length b
      else if length b = 0 then length a
      else lev_rows 1 a b [0..<Suc (length b)] ! length b)"

definition segments_distance :: "(string \<times> string) list \<Rightarrow> nat" where
  "segments_distance ps =
     (\<Sum>(p, r)\<leftarrow>ps. if isParamSegment p then 0 else levenshtein (js_lower p) (js_lower r))"

definition pathMissDistance :: "string \<Rightarrow> string \<Rightarrow> nat" where
  "pathMissDistance pattern requestPath =
     (let pSegs = pathSegments pattern; rSegs = pathSegments requestPath
      in if length pSegs \<noteq> length rSegs then levenshtein (js_lower pattern) (js_lower requestPath)
         else segments_distance (zip pSegs rSegs))"

definition isClosePathMiss :: "string \<Rightarrow> string \<Rightarrow> bool" where
  "isClosePathMiss pattern requestPath =
     (if length (pathSegments pattern) \<noteq> length (pathSegments requestPath) then False
      else pathMissDistance pattern requestPath \<le> MAX_CLOSE_PATH_EDITS)"

definition not_equal_text :: "string \<Rightarrow> string \<Rightarrow> string" where
  "not_equal_text a b = CHR 0x27 # a @ [CHR 0x27] @ '' != '' @ [CHR 0x27] @ b @ [CHR 0x27]"

definition pathMismatchReason :: "string \<Rightarrow> string \<Rightarrow> string" where
  "pathMismatchReason pattern requestPath =
     (case find (\<lambda>(p, r). \<not> isParamSegment p \<and> js_lower p \<noteq> js_lower r)
             (zip (pathSegments pattern) (pathSegments requestPath)) of
        Some (p, r) \<Rightarrow> not_equal_text r p
      | None \<Rightarrow> not_equal_text requestPath pattern)"

section \<open>Collecting near misses\<close>

definition failedFromEvaluation :: "route_evaluation \<Rightarrow> failed_predicate list" where
  "failedFromEvaluation e =
     map (\<lambda>p. \<lparr>fp_predicateId = pr_predicateId p, fp_source = pr_source p,
               fp_reason = (case pr_reason p of None \<Rightarrow> ''failed'' | Some s \<Rightarrow> s)\<rparr>)
       (filter (\<lambda>p. \<not> pr_passed p) (ev_predicateResults e))"

definition syntheticFailures :: "route_evaluation \<Rightarrow> route \<Rightarrow> string \<Rightarrow> string \<Rightarrow> failed_predicate list" where
  "syntheticFailures e rt requestPath requestMethod =
     (if \<not> ev_methodMatch e
      then [\<lparr>fp_predicateId = ''method'', fp_source = ''method'',
             fp_reason = requestMethod @ '' != '' @ method_name (rt_method rt)\<rparr>] else []) @
     (if \<not> ev_pathMatch e
      then [\<lparr>fp_predicateId = ''path'', fp_source = ''path'',
             fp_reason = pathMismatchReason (pm_value (rt_path rt)) requestPath\<rparr>] else []) @
     (if \<not> ev_enabled e \<and> ev_methodMatch e \<and> ev_pathMatch e
      then [\<lparr>fp_predicateId = ''enabled'', fp_source = ''enabled'', fp_reason = ''rule is disabled''\<rparr>]
      else [])"

definition buildRouteIndex :: "route list \<Rightarrow> route record_bag" where
  "buildRouteIndex routes = foldl (\<lambda>index rt. rec_set index (rt_id rt) rt) [] routes"

definition near_miss_of :: "route_evaluation \<Rightarrow> route record_bag \<Rightarrow> string \<Rightarrow> string \<Rightarrow> near_miss option" where
  "near_miss_of e index requestPath requestMethod =
     (if ev_overallMatch e then None
      else (case rec_get index (ev_routeId e) of
              None \<Rightarrow> None
            | Some rt \<Rightarrow>
                (if \<not> (ev_pathMatch e \<or> (ev_methodMatch e \<and> isClosePathMiss (pm_value (rt_path rt)) requestPath))
                 then None
                 else
                   (let evaluatedFails = failedFromEvaluation e;
                        failedPredicates = (if 0 < length evaluatedFails then evaluatedFails
                                            else syntheticFailures e rt requestPath requestMethod);
                        pathDistance = (if ev_pathMatch e then 0
                                        else pathMissDistance (pm_value (rt_path rt)) requestPath)
                    in Some \<lparr>nm_routeId = ev_routeId e, nm_routeName = ev_routeName e,
                             nm_failedPredicates = failedPredicates,
                             nm_missDistance = int (pathDistance * 10 + (if ev_methodMatch e then 0 else 50)
                               + length failedPredicates + (if ev_enabled e then 0 else 1))\<rparr>))))"

definition near_miss_order :: "js_host \<Rightarrow> near_miss \<Rightarrow> near_miss \<Rightarrow> int" where
  "near_miss_order h = cmp_then (cmp_key nm_missDistance) (cmp_on nm_routeId (locale_compare h))"

definition collectNearMisses ::
  "js_host \<Rightarrow> route_evaluation list \<Rightarrow> route list \<Rightarrow> string \<Rightarrow> string \<Rightarrow> near_miss list" where
  "collectNearMisses h evaluations routes requestPath requestMethod =
     js_sort (near_miss_order h)
       (List.map_filter (\<lambda>e. near_miss_of e (buildRouteIndex routes) requestPath requestMethod) evaluations)"

section \<open>The edit distance\<close>

text \<open>Edit scripts: an alignment of two strings, read from the left, and its cost.\<close>

inductive edit_script :: "string \<Rightarrow> string \<Rightarrow> nat \<Rightarrow> bool" where
  edit_done: "edit_script [] [] 0"
| edit_delete: "edit_script a b n \<Longrightarrow> edit_script (x # a) b (Suc n)"
| edit_insert: "edit_script a b n \<Longrightarrow> edit_script a (y # b) (Suc n)"
| edit_keep: "edit_script a b n \<Longrightarrow> edit_script (x # a) (x # b) n"
| edit_replace: "edit_script a b n \<Longrightarrow> edit_script (x # a) (y # b) (Suc n)"

inductive_cases edit_script_Nil: "edit_script [] b n"
inductive_cases edit_script_Cons: "edit_script (x # a) b n"

text \<open>The distance by recursion on the front of the strings.\<close>

fun edit_cost :: "string \<Rightarrow> string \<Rightarrow> nat" where
  "edit_cost [] b = length b"
| "edit_cost a [] = length a"
| "edit_cost (x # a) (y # b) =
     min (min (edit_cost a (y # b) + 1) (edit_cost (x # a) b + 1))
         (edit_cost a b + (if x = y then 0 else 1))"

lemma edit_cost_Nil [simp]: "edit_cost a [] = length a"
  by (cases a) auto

lemma edit_script_insert_all: "edit_script [] b (length b)"
  by (induction b) (auto intro: edit_script.intros)

lemma edit_script_delete_all: "edit_script a [] (length a)"
  by (induction a) (auto intro: edit_script.intros)

lemma edit_cost_script: "edit_script a b (edit_cost a b)"
proof (induction a b rule: edit_cost.induct)
  case (3 x a y b)
  then show ?case
    by (auto simp: min_def intro: edit_script.intros split: if_splits)
next
  case (2 v va)
  then show ?case using edit_script_delete_all [of "v # va"] by simp
qed (simp add: edit_script_insert_all)

lemma edit_cost_delete: "edit_cost (x # a) b \<le> Suc (edit_cost a b)"
  by (cases b) auto

lemma edit_cost_insert: "edit_cost a (y # b) \<le> Suc (edit_cost a b)"
  by (cases a) auto

lemma edit_cost_least: "edit_script a b n \<Longrightarrow> edit_cost a b \<le> n"
proof (induction rule: edit_script.induct)
  case (edit_delete a b n x)
  then show ?case using edit_cost_delete [of x a b] by linarith
next
  case (edit_insert a b n y)
  then show ?case using edit_cost_insert [of a y b] by linarith
qed auto

text \<open>Scripts can be read from either end, so the distance is that of the reversed strings.\<close>

lemma edit_script_snoc_delete: "edit_script a b n \<Longrightarrow> edit_script (a @ [x]) b (Suc n)"
  by (induction rule: edit_script.induct) (auto intro: edit_script.intros)

lemma edit_script_snoc_insert: "edit_script a b n \<Longrightarrow> edit_script a (b @ [y]) (Suc n)"
  by (induction rule: edit_script.induct) (auto intro: edit_script.intros)

lemma edit_script_snoc_replace: "edit_script a b n \<Longrightarrow> edit_script (a @ [x]) (b @ [y]) (Suc n)"
  by (induction rule: edit_script.induct) (auto intro: edit_script.intros)

lemma edit_script_snoc_keep: "edit_script a b n \<Longrightarrow> edit_script (a @ [x]) (b @ [x]) n"
  by (induction rule: edit_script.induct) (auto intro: edit_script.intros)

lemma edit_script_rev: "edit_script a b n \<Longrightarrow> edit_script (rev a) (rev b) n"
  by (induction rule: edit_script.induct)
    (auto intro: edit_script.intros edit_script_snoc_delete edit_script_snoc_insert
      edit_script_snoc_replace edit_script_snoc_keep)

lemma edit_cost_rev: "edit_cost (rev a) (rev b) = edit_cost a b"
proof (rule antisym)
  show "edit_cost (rev a) (rev b) \<le> edit_cost a b"
    by (intro edit_cost_least edit_script_rev edit_cost_script)
  show "edit_cost a b \<le> edit_cost (rev a) (rev b)"
    using edit_cost_least [OF edit_script_rev [OF edit_cost_script [of "rev a" "rev b"]]] by simp
qed

text \<open>A row of the table: the distances from a prefix (kept reversed) to the prefixes of \<open>b\<close>.\<close>

definition row_from :: "string \<Rightarrow> string \<Rightarrow> string \<Rightarrow> nat list" where
  "row_from a b0 b = map (\<lambda>j. edit_cost a (rev (take j b) @ b0)) [0..<Suc (length b)]"

lemma row_from_Nil [simp]: "row_from a b0 [] = [edit_cost a b0]"
  by (simp add: row_from_def)

lemma row_from_Cons: "row_from a b0 (y # b) = edit_cost a b0 # row_from a (y # b0) b"
proof -
  have "[0..<Suc (length (y # b))] = 0 # map Suc [0..<Suc (length b)]"
    by (subst upt_conv_Cons) (simp, simp only: length_Cons map_Suc_upt)
  then show ?thesis by (simp add: row_from_def del: upt_Suc)
qed

lemma row_from_neq_Nil [simp]: "row_from a b0 b \<noteq> []"
  by (simp add: row_from_def)

lemma lev_cells_row:
  "edit_cost (x # a) b0 # lev_cells x b (row_from a b0 b) (edit_cost (x # a) b0) = row_from (x # a) b0 b"
proof (induction b arbitrary: b0)
  case (Cons y b)
  obtain q rest where r: "row_from a (y # b0) b = q # rest"
    by (cases "row_from a (y # b0) b") auto
  moreover have "q = edit_cost a (y # b0)"
    using r by (cases b) (auto simp: row_from_Cons)
  moreover have "edit_cost (x # a) (y # b0) =
    min (min (edit_cost a (y # b0) + 1) (edit_cost (x # a) b0 + 1)) (edit_cost a b0 + (if x = y then 0 else 1))"
    by simp
  ultimately show ?case
    using Cons.IH [of "y # b0"] by (simp add: row_from_Cons Let_def del: edit_cost.simps)
qed simp

lemma lev_row_row: "lev_row (Suc (length a)) x b (row_from a [] b) = row_from (x # a) [] b"
  using lev_cells_row [of x a "[]" b] by (simp add: lev_row_def)

lemma lev_rows_row:
  "lev_rows (Suc (length a0)) a b (row_from a0 [] b) = row_from (rev a @ a0) [] b"
proof (induction a arbitrary: a0)
  case (Cons x a)
  show ?case using Cons.IH [of "x # a0"] by (simp add: lev_row_row)
qed simp

lemma first_row: "row_from [] [] b = [0..<Suc (length b)]"
  by (rule nth_equalityI) (auto simp: row_from_def simp del: upt_Suc)

lemma row_from_last: "row_from a b0 b ! length b = edit_cost a (rev b @ b0)"
  by (simp add: row_from_def del: upt_Suc)

lemma levenshtein_edit_cost: "levenshtein a b = edit_cost a b"
proof -
  have "lev_rows 1 a b [0..<Suc (length b)] = row_from (rev a) [] b"
    using lev_rows_row [of "[]" a b] first_row [of b] by simp
  moreover have "edit_cost (rev a) (rev b) = edit_cost a b" by (rule edit_cost_rev)
  ultimately have "lev_rows 1 a b [0..<Suc (length b)] ! length b = edit_cost a b"
    by (simp only: row_from_last append_Nil2)
  then show ?thesis by (cases "a = []") (simp_all add: levenshtein_def del: upt_Suc)
qed

lemma edit_cost_0: "edit_cost a b = 0 \<longleftrightarrow> a = b"
  by (induction a b rule: edit_cost.induct) (auto simp: min_def)

text \<open>C30. The edit distance of the near-miss ranking, computed row by row in two arrays, is the
least cost of a script of insertions, deletions and replacements between the two strings; it
is zero exactly for equal strings.\<close>

theorem levenshtein_least_edits:
  "edit_script a b (levenshtein a b) \<and> (\<forall>n. edit_script a b n \<longrightarrow> levenshtein a b \<le> n) \<and>
   (levenshtein a b = 0 \<longleftrightarrow> a = b)"
  by (simp add: levenshtein_edit_cost edit_cost_script edit_cost_least edit_cost_0)

theorem levenshtein_least_edits_witness:
  "levenshtein ''ordrs'' ''orders'' = 1 \<and> edit_script ''ordrs'' ''orders'' 1"
  using levenshtein_least_edits [of "''ordrs''" "''orders''"]
  by (simp add: levenshtein_def lev_row_def upt_rec)

end
