(* ===== verification/Routing.thy ===== *)
theory Routing
  imports Near_Miss
begin

text \<open>
  Route selection (\<open>src/shared/api-mock/routeSelector.ts\<close>): every route is evaluated, the
  policies decide between several matches, specificity and the route id break ties, and the
  explanation records how the decision came about. Also the fallback bodies
  (\<open>fallbackBody.ts\<close>) served when no route, or more than one, was selected.

  \<open>accepts\<close> says when a route matches, without result rows; the theorems state the outcome,
  the winner and the near misses with it.
\<close>

section \<open>Selection\<close>

record selection_result =
  sl_outcome :: outcome
  sl_selectedRouteId :: "string option"
  sl_selectedResponseId :: "string option"
  sl_explanation :: match_explanation

definition selectResponse :: "route \<Rightarrow> response_variant option" where
  "selectResponse rt =
     (if rt_responseMode rt \<noteq> Mode_rules then js_nth (rt_responses rt) 0
      else
        (let enabled = filter rv_enabled (rt_responses rt)
         in case find rv_isDefault enabled of
              Some r \<Rightarrow> Some r
            | None \<Rightarrow> js_nth enabled 0))"

fun operatorSpecificityWeight :: "predicate_operator \<Rightarrow> int" where
  "operatorSpecificityWeight Op_exact = 8"
| "operatorSpecificityWeight Op_contains = 5"
| "operatorSpecificityWeight Op_prefix = 5"
| "operatorSpecificityWeight Op_suffix = 5"
| "operatorSpecificityWeight Op_present = 2"
| "operatorSpecificityWeight Op_absent = 2"
| "operatorSpecificityWeight Op_regex = 3"
| "operatorSpecificityWeight Op_glob = 3"
| "operatorSpecificityWeight Op_json_strict = 10"
| "operatorSpecificityWeight Op_json_subset = 7"
| "operatorSpecificityWeight Op_jsonPath_exists = 6"
| "operatorSpecificityWeight Op_jsonPath_equals = 6"
| "operatorSpecificityWeight _ = 1"

definition specificityComponents :: "route \<Rightarrow> route_evaluation \<Rightarrow> specificity_component list" where
  "specificityComponents rt evaluation =
     (let pathWeight = (case pm_kind (rt_path rt) of
            Path_exact \<Rightarrow> 50 | Path_parameterized \<Rightarrow> 30 | Path_glob \<Rightarrow> 15 | Path_regex \<Rightarrow> 10)
      in [\<lparr>sc_source = ''method'', sc_weight = (if rt_method rt = M_ANY then 1 else 10)\<rparr>,
          \<lparr>sc_source = ''path'', sc_weight = pathWeight\<rparr>] @
         map (\<lambda>r. \<lparr>sc_source = pr_source r, sc_weight = operatorSpecificityWeight (pr_operator r)\<rparr>)
           (filter pr_passed (ev_predicateResults evaluation)))"

definition computeSpecificityFromRoute :: "route \<Rightarrow> route_evaluation \<Rightarrow> int" where
  "computeSpecificityFromRoute rt evaluation =
     (\<Sum>c\<leftarrow>specificityComponents rt evaluation. sc_weight c)"

definition computeSpecificity :: "route_evaluation \<Rightarrow> route list \<Rightarrow> int" where
  "computeSpecificity evaluation routes =
     (case find (\<lambda>r. rt_id r = ev_routeId evaluation) routes of
        None \<Rightarrow> 0
      | Some rt \<Rightarrow> computeSpecificityFromRoute rt evaluation)"

definition safeDecodeURI :: "js_host \<Rightarrow> string \<Rightarrow> string" where
  "safeDecodeURI h s = (case decode_uri h s of Some d \<Rightarrow> d | None \<Rightarrow> s)"

definition buildNormalizedSummary :: "js_host \<Rightarrow> captured_request \<Rightarrow> normalized_summary" where
  "buildNormalizedSummary h req =
     (let decodedPath = safeDecodeURI h (rq_path req)
      in \<lparr>nz_method = rq_method req, nz_path = rq_path req, nz_decodedPath = decodedPath,
          nz_pathSegments = filter (\<lambda>s. s \<noteq> []) (js_split CHR ''/'' decodedPath),
          nz_query = rq_query req,
          nz_headerKeys = js_sort code_unit_compare (rec_keys (rq_headers req)),
          nz_cookieKeys = js_sort code_unit_compare (rec_keys (rq_cookies req)),
          nz_bodyContentType = rq_contentType req,
          nz_bodySizeBytes = (case rq_body req of None \<Rightarrow> 0 | Some b \<Rightarrow> utf8_length b)\<rparr>)"

text \<open>\<open>Math.max(...xs)\<close> of at least one number.\<close>

definition js_max :: "int list \<Rightarrow> int" where
  "js_max xs = (case xs of [] \<Rightarrow> 0 | x # r \<Rightarrow> fold max r x)"

definition breakdown_row :: "route record_bag \<Rightarrow> route_evaluation \<Rightarrow> specificity_row" where
  "breakdown_row index m =
     (let components = (case rec_get index (ev_routeId m) of
            Some rt \<Rightarrow> specificityComponents rt m | None \<Rightarrow> [])
      in \<lparr>sp_routeId = ev_routeId m, sp_score = (\<Sum>c\<leftarrow>components. sc_weight c), sp_components = components\<rparr>)"

definition breakdown_order :: "js_host \<Rightarrow> specificity_row \<Rightarrow> specificity_row \<Rightarrow> int" where
  "breakdown_order h = cmp_then (cmp_key (\<lambda>r. - sp_score r)) (cmp_on sp_routeId (locale_compare h))"

definition candidate_of :: "route_evaluation \<Rightarrow> candidate" where
  "candidate_of e =
     \<lparr>cd_routeId = ev_routeId e, cd_routeName = ev_routeName e, cd_priority = ev_priority e,
      cd_enabled = ev_enabled e, cd_methodMatch = ev_methodMatch e, cd_pathMatch = ev_pathMatch e,
      cd_predicateResults = ev_predicateResults e, cd_overallMatch = ev_overallMatch e\<rparr>"

definition buildResult ::
  "js_host \<Rightarrow> outcome \<Rightarrow> string option \<Rightarrow> string option \<Rightarrow> route_evaluation list \<Rightarrow> server_settings
     \<Rightarrow> normalized_summary \<Rightarrow> route list \<Rightarrow> selection_result" where
  "buildResult h outc selectedRouteId selectedResponseId evaluations settings normalizedRequest routes =
     (let matched = filter ev_overallMatch evaluations;
          highestPriority = (if 0 < length matched then js_max (map ev_priority matched) else 0);
          atHighest = filter (\<lambda>m. ev_priority m = highestPriority) matched;
          tiedAtHighest = length atHighest;
          routeIndex = buildRouteIndex routes;
          specificityBreakdown =
            (if 1 < length atHighest
             then Some (js_sort (breakdown_order h) (map (breakdown_row routeIndex) atHighest))
             else None);
          nearMisses = collectNearMisses h evaluations routes (nz_path normalizedRequest) (nz_method normalizedRequest)
      in \<lparr>sl_outcome = outc, sl_selectedRouteId = selectedRouteId, sl_selectedResponseId = selectedResponseId,
          sl_explanation =
            \<lparr>me_normalizedRequest = normalizedRequest,
             me_candidates = map candidate_of evaluations,
             me_policyDecision =
               \<lparr>pd_policy = sel_multipleMatchPolicy (ss_selection settings),
                pd_equalPriorityPolicy = sel_equalPriorityPolicy (ss_selection settings),
                pd_matchedCount = length matched, pd_highestPriority = highestPriority,
                pd_tiedAtHighest = tiedAtHighest, pd_outcome = outc,
                pd_selectedRouteId = selectedRouteId, pd_selectedResponseId = selectedResponseId,
                pd_specificityBreakdown = specificityBreakdown\<rparr>,
             me_nearMisses = nearMisses\<rparr>\<rparr>)"

definition evaluation_specificity :: "route record_bag \<Rightarrow> route_evaluation \<Rightarrow> int" where
  "evaluation_specificity index e =
     (case rec_get index (ev_routeId e) of Some rt \<Rightarrow> computeSpecificityFromRoute rt e | None \<Rightarrow> 0)"

definition winner_order :: "js_host \<Rightarrow> route record_bag \<Rightarrow> route_evaluation \<Rightarrow> route_evaluation \<Rightarrow> int" where
  "winner_order h index =
     cmp_then (cmp_key (\<lambda>e. - evaluation_specificity index e)) (cmp_on ev_routeId (locale_compare h))"

definition selectRoute ::
  "js_host \<Rightarrow> route list \<Rightarrow> captured_request \<Rightarrow> server_settings \<Rightarrow> string \<Rightarrow> selection_result" where
  "selectRoute h routes request settings basePath =
     (let evaluations = map (\<lambda>r. evaluateRoute h r request basePath) routes;
          matched = filter ev_overallMatch evaluations;
          summary = buildNormalizedSummary h request
      in if length matched = 0 then
           buildResult h Out_unmatched None None evaluations settings summary routes
         else if 1 < length matched \<and> sel_multipleMatchPolicy (ss_selection settings) = Pol_reject_multiple then
           buildResult h Out_ambiguous None None evaluations settings summary routes
         else
           (let highestPriority = js_max (map ev_priority matched);
                atHighest = filter (\<lambda>m. ev_priority m = highestPriority) matched;
                routeIndex = buildRouteIndex routes
            in if 1 < length atHighest \<and> sel_equalPriorityPolicy (ss_selection settings) = Eq_reject then
                 buildResult h Out_ambiguous None None evaluations settings summary routes
               else
                 (let sorted = (if 1 < length atHighest then js_sort (winner_order h routeIndex) atHighest
                                else atHighest);
                      winner = hd sorted;
                      selectedResponse = Option.bind (rec_get routeIndex (ev_routeId winner)) selectResponse
                  in buildResult h Out_matched (Some (ev_routeId winner)) (map_option rv_id selectedResponse)
                       evaluations settings summary routes)))"

section \<open>Fallback bodies\<close>

text \<open>The placeholder pattern: two braces, optional white space, one of two names, optional
white space, two braces. The pattern has one way to match at a position.\<close>

definition placeholder_at :: "string \<Rightarrow> (string \<times> string) option" where
  "placeholder_at s =
     (if \<not> js_starts_with s ''{{'' then None
      else
        (let inner = dropWhile js_is_space (drop 2 s);
             close = (\<lambda>name rest. let r = dropWhile js_is_space rest
                                  in if js_starts_with r ''}}'' then Some (name, drop 2 r) else None)
         in if js_starts_with inner ''requestId'' then close ''requestId'' (drop 9 inner)
            else if js_starts_with inner ''competingRuleCount'' then close ''competingRuleCount'' (drop 18 inner)
            else None))"

lemma placeholder_at_shorter: "placeholder_at s = Some (name, rest) \<Longrightarrow> length rest < length s"
proof -
  have dw: "length (dropWhile P u) \<le> length u" for P and u :: string
    by (rule length_dropWhile_le)
  assume p: "placeholder_at s = Some (name, rest)"
  then have two: "2 \<le> length s"
    by (auto simp: placeholder_at_def js_starts_with_def dest!: prefix_length_le split: if_splits)
  have "length rest \<le> length (drop 2 s) - 2"
    using p dw [of js_is_space "drop 2 s"]
      dw [of js_is_space "drop 9 (dropWhile js_is_space (drop 2 s))"]
      dw [of js_is_space "drop 18 (dropWhile js_is_space (drop 2 s))"]
    by (auto simp: placeholder_at_def Let_def split: if_splits)
  with two show ?thesis by simp
qed

function replace_placeholders :: "(string \<Rightarrow> string) \<Rightarrow> string \<Rightarrow> string" where
  "replace_placeholders f s =
     (case placeholder_at s of
        Some (name, rest) \<Rightarrow> f name @ replace_placeholders f rest
      | None \<Rightarrow> (case s of [] \<Rightarrow> [] | c # r \<Rightarrow> c # replace_placeholders f r))"
  by pat_completeness auto
termination
  by (relation "measure (\<lambda>(f, s). length s)") (auto dest: placeholder_at_shorter)

definition renderFallbackBody :: "string \<Rightarrow> string \<Rightarrow> nat option \<Rightarrow> string" where
  "renderFallbackBody body requestId competingRuleCount =
     (if \<not> js_includes body ''{{'' then body
      else replace_placeholders
             (\<lambda>name. if name = ''requestId'' then requestId
                     else js_nat (case competingRuleCount of None \<Rightarrow> 0 | Some n \<Rightarrow> n)) body)"

definition countCompetingRules :: "match_explanation option \<Rightarrow> nat" where
  "countCompetingRules explanation =
     (case explanation of None \<Rightarrow> 0 | Some e \<Rightarrow> pd_matchedCount (me_policyDecision e))"

section \<open>When a route matches, and who wins\<close>

definition accepts :: "js_host \<Rightarrow> captured_request \<Rightarrow> string \<Rightarrow> route \<Rightarrow> bool" where
  "accepts h req basePath rt =
     (let p = matchPath h (rt_path rt) (stripBasePath (rq_path req) basePath)
      in rt_enabled rt \<and> matchMethod (rt_method rt) (rq_method req) \<and> pmr_matched p \<and>
         (sem_group (leaf_holds h req (pmr_params p)) (rt_predicates rt) \<or>
          routeMatchesViaRulesVariant h rt req (pmr_params p)))"

definition route_specificity :: "js_host \<Rightarrow> captured_request \<Rightarrow> string \<Rightarrow> route \<Rightarrow> int" where
  "route_specificity h req basePath rt =
     computeSpecificityFromRoute rt (evaluateRoute h rt req basePath)"

lemma evaluateRoute_accepts: "ev_overallMatch (evaluateRoute h rt req basePath) = accepts h req basePath rt"
  by (simp add: evaluateRoute_match accepts_def)

lemma js_max_Max: "xs \<noteq> [] \<Longrightarrow> js_max xs = Max (set xs)"
  by (cases xs) (simp_all add: js_max_def Max.set_eq_fold [symmetric])

lemma js_max_ge: "x \<in> set xs \<Longrightarrow> x \<le> js_max xs"
  using js_max_Max [of xs] by (cases xs) auto

lemma js_max_in: "xs \<noteq> [] \<Longrightarrow> js_max xs \<in> set xs"
  using js_max_Max [of xs] Max_in [of "set xs"] by auto

lemma route_index_get:
  "rec_get (foldl (\<lambda>index rt. rec_set index (rt_id rt) rt) index routes) i =
     (case find (\<lambda>rt. rt_id rt = i) (rev routes) of Some rt \<Rightarrow> Some rt | None \<Rightarrow> rec_get index i)"
proof (induction routes rule: rev_induct)
  case (snoc rt routes)
  then show ?case by simp
qed simp

lemma buildRouteIndex_get:
  assumes "distinct (map rt_id routes)" and "rt \<in> set routes"
  shows "rec_get (buildRouteIndex routes) (rt_id rt) = Some rt"
proof -
  have "find (\<lambda>r. rt_id r = rt_id rt) (rev routes) \<noteq> None"
    using assms(2) by (subst find_Some_iff_ex) auto
  then obtain r where r: "find (\<lambda>r. rt_id r = rt_id rt) (rev routes) = Some r" by auto
  with find_SomeD [OF r] assms have "r = rt" by (auto simp: distinct_map inj_on_def)
  with r show ?thesis by (simp add: buildRouteIndex_def route_index_get)
qed

text \<open>The routes in play: those that accept, and those of highest priority among them.\<close>

definition accepting :: "js_host \<Rightarrow> captured_request \<Rightarrow> string \<Rightarrow> route list \<Rightarrow> route list" where
  "accepting h req basePath routes = filter (accepts h req basePath) routes"

definition top_accepting :: "js_host \<Rightarrow> captured_request \<Rightarrow> string \<Rightarrow> route list \<Rightarrow> route list" where
  "top_accepting h req basePath routes =
     (let M = accepting h req basePath routes
      in filter (\<lambda>r. \<forall>m\<in>set M. rt_priority m \<le> rt_priority r) M)"

definition winner_order_on_routes :: "js_host \<Rightarrow> captured_request \<Rightarrow> string \<Rightarrow> route \<Rightarrow> route \<Rightarrow> int" where
  "winner_order_on_routes h req basePath =
     cmp_then (cmp_key (\<lambda>r. - route_specificity h req basePath r)) (cmp_on rt_id (locale_compare h))"

lemma comparator_winner_order:
  "comparator (locale_compare h) \<Longrightarrow> comparator (winner_order_on_routes h req basePath)"
  by (simp add: winner_order_on_routes_def comparator_cmp_then comparator_cmp_key comparator_cmp_on)

lemma js_insort_map:
  "(\<forall>y\<in>set ys. c (f x) (f y) = d x y) \<Longrightarrow> js_insort c (f x) (map f ys) = map f (js_insort d x ys)"
  by (induction ys) auto

lemma js_sort_map:
  "(\<forall>x\<in>set xs. \<forall>y\<in>set xs. c (f x) (f y) = d x y) \<Longrightarrow> js_sort c (map f xs) = map f (js_sort d xs)"
  by (induction xs) (auto simp: js_sort_Cons intro!: js_insort_map)

lemma buildResult_fields [simp]:
  "sl_outcome (buildResult h oc ri rp es st nr rs) = oc"
  "sl_selectedRouteId (buildResult h oc ri rp es st nr rs) = ri"
  "sl_selectedResponseId (buildResult h oc ri rp es st nr rs) = rp"
  "me_nearMisses (sl_explanation (buildResult h oc ri rp es st nr rs)) =
     collectNearMisses h es rs (nz_path nr) (nz_method nr)"
  by (simp_all add: buildResult_def Let_def)

lemma matched_evaluations:
  "filter ev_overallMatch (map (\<lambda>r. evaluateRoute h r req basePath) routes) =
     map (\<lambda>r. evaluateRoute h r req basePath) (accepting h req basePath routes)"
  by (simp add: accepting_def filter_map o_def evaluateRoute_accepts)

lemma top_evaluations:
  assumes "accepting h req basePath routes \<noteq> []"
  shows "filter (\<lambda>m. ev_priority m = js_max (map ev_priority (map (\<lambda>r. evaluateRoute h r req basePath)
             (accepting h req basePath routes))))
           (map (\<lambda>r. evaluateRoute h r req basePath) (accepting h req basePath routes)) =
         map (\<lambda>r. evaluateRoute h r req basePath) (top_accepting h req basePath routes)"
proof -
  define ps where "ps = map rt_priority (accepting h req basePath routes)"
  have m: "rt_priority r = js_max ps \<longleftrightarrow> (\<forall>m\<in>set (accepting h req basePath routes). rt_priority m \<le> rt_priority r)"
    if r: "r \<in> set (accepting h req basePath routes)" for r
  proof
    assume "rt_priority r = js_max ps"
    then show "\<forall>m\<in>set (accepting h req basePath routes). rt_priority m \<le> rt_priority r"
      using js_max_ge [of _ ps] by (simp add: ps_def)
  next
    assume top: "\<forall>m\<in>set (accepting h req basePath routes). rt_priority m \<le> rt_priority r"
    have "js_max ps \<in> set ps" using assms by (intro js_max_in) (simp add: ps_def)
    then have "js_max ps \<le> rt_priority r" using top by (auto simp: ps_def)
    moreover have "rt_priority r \<le> js_max ps" using r by (intro js_max_ge) (simp add: ps_def)
    ultimately show "rt_priority r = js_max ps" by simp
  qed
  have "filter (\<lambda>r. rt_priority r = js_max ps) (accepting h req basePath routes) =
      filter (\<lambda>r. \<forall>m\<in>set (accepting h req basePath routes). rt_priority m \<le> rt_priority r)
        (accepting h req basePath routes)"
    by (rule filter_cong [OF refl]) (rule m)
  then show ?thesis
    by (simp add: filter_map o_def top_accepting_def Let_def ps_def)
qed

lemma top_accepting_set:
  "set (top_accepting h req basePath routes) \<subseteq> set (accepting h req basePath routes)"
  "set (accepting h req basePath routes) \<subseteq> set routes"
  by (auto simp: top_accepting_def accepting_def Let_def)

lemma top_accepting_neq_Nil:
  assumes "accepting h req basePath routes \<noteq> []"
  shows "top_accepting h req basePath routes \<noteq> []"
proof -
  define M where "M = accepting h req basePath routes"
  have "js_max (map rt_priority M) \<in> set (map rt_priority M)"
    using assms by (intro js_max_in) (simp add: M_def)
  then obtain r where r: "r \<in> set M" "rt_priority r = js_max (map rt_priority M)" by auto
  then have "\<forall>m\<in>set M. rt_priority m \<le> rt_priority r" using js_max_ge by auto
  with r(1) have "r \<in> set (top_accepting h req basePath routes)"
    by (simp add: top_accepting_def M_def Let_def)
  then show ?thesis by auto
qed

lemma winner_sort:
  assumes "distinct (map rt_id routes)" and "set xs \<subseteq> set routes"
  shows "js_sort (winner_order h (buildRouteIndex routes)) (map (\<lambda>r. evaluateRoute h r req basePath) xs) =
    map (\<lambda>r. evaluateRoute h r req basePath) (js_sort (winner_order_on_routes h req basePath) xs)"
  using assms buildRouteIndex_get [OF assms(1)]
  by (intro js_sort_map)
    (auto simp: winner_order_def winner_order_on_routes_def cmp_then_def cmp_key_def cmp_on_def
      evaluation_specificity_def route_specificity_def subset_iff)

text \<open>The selection in terms of routes: the head of the tied routes in winner order.\<close>

definition rejected_as_ambiguous :: "server_settings \<Rightarrow> nat \<Rightarrow> nat \<Rightarrow> bool" where
  "rejected_as_ambiguous settings matching tied =
     ((1 < matching \<and> sel_multipleMatchPolicy (ss_selection settings) = Pol_reject_multiple) \<or>
      (1 < tied \<and> sel_equalPriorityPolicy (ss_selection settings) = Eq_reject))"

definition winner_of :: "js_host \<Rightarrow> captured_request \<Rightarrow> string \<Rightarrow> route list \<Rightarrow> route" where
  "winner_of h req basePath routes =
     hd (js_sort (winner_order_on_routes h req basePath) (top_accepting h req basePath routes))"

lemma selectRoute_cases:
  "(accepting h req basePath routes = [] \<longrightarrow>
      sl_outcome (selectRoute h routes req settings basePath) = Out_unmatched \<and>
      sl_selectedRouteId (selectRoute h routes req settings basePath) = None \<and>
      sl_selectedResponseId (selectRoute h routes req settings basePath) = None) \<and>
   (accepting h req basePath routes \<noteq> [] \<longrightarrow>
      sl_outcome (selectRoute h routes req settings basePath) =
        (if rejected_as_ambiguous settings (length (accepting h req basePath routes))
              (length (top_accepting h req basePath routes))
         then Out_ambiguous else Out_matched))"
proof (cases "accepting h req basePath routes = []")
  case False
  then show ?thesis
    by (simp only: selectRoute_def Let_def matched_evaluations top_evaluations [OF False] length_map)
      (simp add: rejected_as_ambiguous_def)
qed (simp add: selectRoute_def Let_def matched_evaluations del: length_filter_map)

lemma selectRoute_selected:
  "sl_selectedRouteId (selectRoute h routes req settings basePath) = None \<longleftrightarrow>
     sl_outcome (selectRoute h routes req settings basePath) \<noteq> Out_matched"
  by (simp add: selectRoute_def Let_def)

lemma selectRoute_ambiguous:
  "sl_outcome (selectRoute h routes req settings basePath) = Out_ambiguous \<Longrightarrow>
   sl_selectedRouteId (selectRoute h routes req settings basePath) = None \<and>
   sl_selectedResponseId (selectRoute h routes req settings basePath) = None"
  by (auto simp: selectRoute_def Let_def split: if_splits)

lemma selectRoute_matched:
  assumes "distinct (map rt_id routes)"
    and "sl_outcome (selectRoute h routes req settings basePath) = Out_matched"
  shows "sl_selectedRouteId (selectRoute h routes req settings basePath) =
           Some (rt_id (winner_of h req basePath routes)) \<and>
         sl_selectedResponseId (selectRoute h routes req settings basePath) =
           map_option rv_id (selectResponse (winner_of h req basePath routes))"
proof -
  define T where "T = top_accepting h req basePath routes"
  define w where "w = winner_of h req basePath routes"
  have ne: "accepting h req basePath routes \<noteq> []" using assms(2) selectRoute_cases by fastforce
  then have T: "T \<noteq> []" "set T \<subseteq> set routes"
    using top_accepting_neq_Nil [OF ne] top_accepting_set [of h req basePath routes] by (auto simp: T_def)
  have "w \<in> set T"
    using T(1) set_js_sort [of "winner_order_on_routes h req basePath" T]
    unfolding w_def winner_of_def T_def [symmetric] by (metis hd_in_set js_sort_eq_Nil)
  with T(2) have w: "rec_get (buildRouteIndex routes) (rt_id w) = Some w"
    using buildRouteIndex_get [OF assms(1)] by auto
  have single: "length T \<le> 1 \<Longrightarrow> hd T = w"
    using T(1) by (cases T) (auto simp: w_def winner_of_def T_def [symmetric] js_sort_Cons)
  have many: "hd (map (\<lambda>r. evaluateRoute h r req basePath)
      (js_sort (winner_order_on_routes h req basePath) T)) = evaluateRoute h w req basePath"
    using T(1) by (simp add: hd_map w_def winner_of_def T_def)
  have one: "length T \<le> 1 \<Longrightarrow> hd (map (\<lambda>r. evaluateRoute h r req basePath) T) = evaluateRoute h w req basePath"
    using T(1) single by (simp add: hd_map)
  have T_def': "top_accepting h req basePath routes = T" by (simp add: T_def)
  show ?thesis
    using assms(2) ne w many one unfolding w_def [symmetric]
    by (simp only: selectRoute_def Let_def matched_evaluations top_evaluations [OF ne] T_def' length_map
        winner_sort [OF assms(1) T(2), of h req basePath])
      (auto simp: not_less hd_map T(1) split: if_splits)
qed

section \<open>Properties of selection\<close>

text \<open>The outcome of route selection: unmatched exactly when no route accepts the request;
ambiguous exactly when the policy rejects several matches, or rejects a tie and several
accepting routes share the highest priority; matched otherwise. A route is selected exactly
when the outcome is matched.\<close>

theorem selectRoute_outcome:
  "sl_outcome (selectRoute h routes req settings basePath) =
     (if filter (accepts h req basePath) routes = [] then Out_unmatched
      else if (1 < length (filter (accepts h req basePath) routes) \<and>
               sel_multipleMatchPolicy (ss_selection settings) = Pol_reject_multiple) \<or>
              (1 < length (top_accepting h req basePath routes) \<and>
               sel_equalPriorityPolicy (ss_selection settings) = Eq_reject)
      then Out_ambiguous else Out_matched) \<and>
   (sl_selectedRouteId (selectRoute h routes req settings basePath) = None \<longleftrightarrow>
      sl_outcome (selectRoute h routes req settings basePath) \<noteq> Out_matched)"
  using selectRoute_cases [of h req basePath routes settings]
    selectRoute_selected [of h routes req settings basePath]
  by (simp add: rejected_as_ambiguous_def accepting_def)

lemma winner_of_in_top:
  "accepting h req basePath routes \<noteq> [] \<Longrightarrow>
     winner_of h req basePath routes \<in> set (top_accepting h req basePath routes)"
  using top_accepting_neq_Nil [of h req basePath routes]
    set_js_sort [of "winner_order_on_routes h req basePath" "top_accepting h req basePath routes"]
  unfolding winner_of_def by (metis hd_in_set js_sort_eq_Nil)

lemma winner_of_least:
  "comparator (locale_compare h) \<Longrightarrow> r \<in> set (top_accepting h req basePath routes) \<Longrightarrow>
     winner_order_on_routes h req basePath (winner_of h req basePath routes) r \<le> 0"
  unfolding winner_of_def
  by (rule comparator.sort_hd_least [OF comparator_winner_order]) auto

text \<open>C1. The selected route accepts the request and beats every other accepting route: no
accepting route has a higher priority, none of the same priority is more specific, and among
equally specific ones its id comes first in the collation.\<close>

theorem selectRoute_winner:
  assumes "comparator (locale_compare h)" and "distinct (map rt_id routes)"
    and "sl_selectedRouteId (selectRoute h routes req settings basePath) = Some rid"
  shows "\<exists>w\<in>set routes. rt_id w = rid \<and> accepts h req basePath w \<and>
           sl_selectedResponseId (selectRoute h routes req settings basePath) = map_option rv_id (selectResponse w) \<and>
           (\<forall>r\<in>set routes. accepts h req basePath r \<longrightarrow>
              rt_priority r < rt_priority w \<or>
              (rt_priority r = rt_priority w \<and>
                (route_specificity h req basePath r < route_specificity h req basePath w \<or>
                 (route_specificity h req basePath r = route_specificity h req basePath w \<and>
                  locale_compare h rid (rt_id r) \<le> 0))))"
proof -
  define w where "w = winner_of h req basePath routes"
  have oc: "sl_outcome (selectRoute h routes req settings basePath) = Out_matched"
    using selectRoute_selected [of h routes req settings basePath] assms(3) by force
  then have ne: "accepting h req basePath routes \<noteq> []"
    using selectRoute_cases [of h req basePath routes settings] by force
  note m = selectRoute_matched [OF assms(2) oc, folded w_def]
  with assms(3) have id: "rt_id w = rid" by simp
  have top: "w \<in> set (top_accepting h req basePath routes)"
    using winner_of_in_top [OF ne] by (simp add: w_def)
  then have acc: "w \<in> set routes" "accepts h req basePath w"
    and high: "\<And>r. r \<in> set routes \<Longrightarrow> accepts h req basePath r \<Longrightarrow> rt_priority r \<le> rt_priority w"
    by (auto simp: top_accepting_def accepting_def Let_def)
  have beats: "rt_priority r < rt_priority w \<or>
      (rt_priority r = rt_priority w \<and>
        (route_specificity h req basePath r < route_specificity h req basePath w \<or>
         (route_specificity h req basePath r = route_specificity h req basePath w \<and>
          locale_compare h rid (rt_id r) \<le> 0)))"
    if r: "r \<in> set routes" "accepts h req basePath r" for r
  proof (cases "rt_priority r = rt_priority w")
    case True
    with high r have "r \<in> set (top_accepting h req basePath routes)"
      by (auto simp: top_accepting_def accepting_def Let_def)
    from winner_of_least [OF assms(1) this]
    have "winner_order_on_routes h req basePath w r \<le> 0" by (simp add: w_def)
    with True id show ?thesis
      by (auto simp: winner_order_on_routes_def cmp_then_def cmp_key_def cmp_on_def split: if_splits)
  next
    case False
    with high [OF r] show ?thesis by simp
  qed
  with acc id m show ?thesis by auto
qed

text \<open>C12. Selection does not depend on the order of the route list: when the ids are distinct and
the collation separates them, any two orders of the same routes give the same outcome, the
same route and the same response.\<close>

theorem selectRoute_order_independent:
  assumes "comparator (locale_compare h)" and "mset routes = mset routes'"
    and "distinct (map rt_id routes)"
    and "\<forall>a\<in>set routes. \<forall>b\<in>set routes. locale_compare h (rt_id a) (rt_id b) = 0 \<longrightarrow> rt_id a = rt_id b"
  shows "sl_outcome (selectRoute h routes req settings basePath) =
           sl_outcome (selectRoute h routes' req settings basePath) \<and>
         sl_selectedRouteId (selectRoute h routes req settings basePath) =
           sl_selectedRouteId (selectRoute h routes' req settings basePath) \<and>
         sl_selectedResponseId (selectRoute h routes req settings basePath) =
           sl_selectedResponseId (selectRoute h routes' req settings basePath)"
proof -
  have acc: "mset (accepting h req basePath routes) = mset (accepting h req basePath routes')"
    using assms(2) by (simp add: accepting_def)
  then have acc': "set (accepting h req basePath routes) = set (accepting h req basePath routes')"
    by (rule mset_eq_setD)
  have top: "mset (top_accepting h req basePath routes) = mset (top_accepting h req basePath routes')"
    using acc acc' by (simp add: top_accepting_def Let_def)
  have oc: "sl_outcome (selectRoute h routes req settings basePath) =
           sl_outcome (selectRoute h routes' req settings basePath)"
    using selectRoute_cases [of h req basePath routes settings]
      selectRoute_cases [of h req basePath routes' settings]
      mset_eq_length [OF acc] mset_eq_length [OF top]
    by (metis length_0_conv)
  have "mset (map rt_id routes) = mset (map rt_id routes')" using assms(2) by simp
  then have d': "distinct (map rt_id routes')"
    using assms(3) mset_eq_imp_distinct_iff by blast
  have "winner_of h req basePath routes = winner_of h req basePath routes'"
  proof -
    have eq: "a = b" if "a \<in> set (top_accepting h req basePath routes)"
      "b \<in> set (top_accepting h req basePath routes)" "winner_order_on_routes h req basePath a b = 0" for a b
    proof -
      have ab: "a \<in> set routes" "b \<in> set routes" using that top_accepting_set by blast+
      have "locale_compare h (rt_id a) (rt_id b) = 0"
        using that(3) by (auto simp: winner_order_on_routes_def cmp_then_def cmp_on_def split: if_splits)
      with assms(4) ab have "rt_id a = rt_id b" by blast
      with assms(3) ab show ?thesis by (auto simp: distinct_map inj_on_def)
    qed
    show ?thesis unfolding winner_of_def
      by (rule arg_cong [where f = hd])
        (rule comparator.sort_perm_invariant [OF comparator_winner_order [OF assms(1)] top eq])
  qed
  then show ?thesis
    using oc selectRoute_matched [OF assms(3), of h req settings basePath]
      selectRoute_matched [OF d', of h req settings basePath]
      selectRoute_selected [of h routes req settings basePath]
      selectRoute_selected [of h routes' req settings basePath]
      selectRoute_cases [of h req basePath routes settings]
      selectRoute_cases [of h req basePath routes' settings]
      selectRoute_ambiguous [of h routes req settings basePath]
      selectRoute_ambiguous [of h routes' req settings basePath]
    by (cases "sl_outcome (selectRoute h routes req settings basePath)") (auto split: if_splits)
qed

lemma sample_selection:
  "accepts sample_host (sample_request ''/a'') '''' (sample_route ''x'' ''/a'')"
  "accepts sample_host (sample_request ''/a'') '''' (sample_route ''y'' ''/a'')"
  by (simp_all add: accepts_def sample_defs matchPath_def matchExactPath_def stripBasePath_def
      matchMethod_def normalizePathMatcher_def inferPathKind_def has_glob_char_def text_eq_def js_defs Let_def)

theorem selectRoute_winner_witness:
  "\<exists>w\<in>set [sample_route ''x'' ''/a'']. rt_id w = ''x'' \<and> accepts sample_host (sample_request ''/a'') '''' w"
proof -
  have "sl_selectedRouteId (selectRoute sample_host [sample_route ''x'' ''/a''] (sample_request ''/a'')
      sample_settings '''') = Some ''x''"
    using selectRoute_matched [of "[sample_route ''x'' ''/a'']" sample_host "sample_request ''/a''" sample_settings "''''"]
      selectRoute_cases [of sample_host "sample_request ''/a''" "''''" "[sample_route ''x'' ''/a'']" sample_settings]
    by (simp add: accepting_def top_accepting_def sample_selection winner_of_def js_sort_Cons
        rejected_as_ambiguous_def Let_def) (simp add: sample_route_def)
  from selectRoute_winner [OF sample_host_collation _ this] show ?thesis by auto
qed

theorem selectRoute_order_independent_witness:
  "sl_selectedRouteId (selectRoute sample_host [sample_route ''x'' ''/a'', sample_route ''y'' ''/a'']
      (sample_request ''/a'') sample_settings '''') =
   sl_selectedRouteId (selectRoute sample_host [sample_route ''y'' ''/a'', sample_route ''x'' ''/a'']
      (sample_request ''/a'') sample_settings '''')"
  using selectRoute_order_independent [OF sample_host_collation,
      of "[sample_route ''x'' ''/a'', sample_route ''y'' ''/a'']"
         "[sample_route ''y'' ''/a'', sample_route ''x'' ''/a'']"]
    sample_host_collation_strict
  by (auto simp: sample_route_def)

section \<open>Near misses\<close>

lemma evaluateRoute_flags:
  "ev_pathMatch (evaluateRoute h rt req basePath) =
     pmr_matched (matchPath h (rt_path rt) (stripBasePath (rq_path req) basePath))"
  "ev_methodMatch (evaluateRoute h rt req basePath) = matchMethod (rt_method rt) (rq_method req)"
  by (simp_all add: evaluateRoute_def Let_def split: prod.splits)

text \<open>An enabled route of the right method and path that is rejected has a failed row.\<close>

lemma evaluateRoute_failed_row:
  assumes "\<not> ev_overallMatch e" "ev_enabled e" "ev_methodMatch e" "ev_pathMatch e"
    and e: "e = evaluateRoute h rt req basePath"
  shows "failedFromEvaluation e \<noteq> []"
proof -
  define ps where "ps = pmr_params (matchPath h (rt_path rt) (stripBasePath (rq_path req) basePath))"
  have "\<not> fst (evaluateGroup h req ps '''' (rt_predicates rt))"
    using assms by (auto simp: evaluateRoute_def Let_def ps_def split: prod.splits)
  from evaluate_failure_row(1) [OF this]
  have "\<exists>r\<in>set (ev_predicateResults e). \<not> pr_passed r"
    using assms by (auto simp: evaluateRoute_def Let_def ps_def split: prod.splits)
  then show ?thesis by (auto simp: failedFromEvaluation_def filter_empty_conv)
qed

lemma near_miss_explained:
  assumes "near_miss_of (evaluateRoute h rt req basePath) index path meth = Some nm"
  shows "nm_failedPredicates nm \<noteq> []"
proof -
  define e where "e = evaluateRoute h rt req basePath"
  have "failedFromEvaluation e \<noteq> [] \<or> syntheticFailures e r path meth \<noteq> []" if "\<not> ev_overallMatch e" for r
    using evaluateRoute_failed_row [OF that _ _ _ e_def] by (auto simp: syntheticFailures_def)
  with assms show ?thesis
    unfolding e_def [symmetric] near_miss_of_def
    by (auto simp: Let_def split: if_splits option.splits)
qed

lemma near_miss_of_route:
  assumes "distinct (map rt_id routes)" and "rt \<in> set routes"
  shows "near_miss_of (evaluateRoute h rt req basePath) (buildRouteIndex routes) path meth \<noteq> None \<longleftrightarrow>
    \<not> accepts h req basePath rt \<and>
    (pmr_matched (matchPath h (rt_path rt) (stripBasePath (rq_path req) basePath)) \<or>
     (matchMethod (rt_method rt) (rq_method req) \<and> isClosePathMiss (pm_value (rt_path rt)) path))"
  using buildRouteIndex_get [OF assms]
  by (auto simp: near_miss_of_def evaluateRoute_accepts evaluateRoute_flags Let_def)

lemma near_miss_of_id: "near_miss_of e index path meth = Some nm \<Longrightarrow> nm_routeId nm = ev_routeId e"
  by (auto simp: near_miss_of_def Let_def split: if_splits option.splits)

lemma selectRoute_nearMisses:
  "me_nearMisses (sl_explanation (selectRoute h routes req settings basePath)) =
     collectNearMisses h (map (\<lambda>r. evaluateRoute h r req basePath) routes) routes (rq_path req) (rq_method req)"
  by (simp add: selectRoute_def Let_def buildNormalizedSummary_def)

lemma comparator_near_miss_order: "comparator (locale_compare h) \<Longrightarrow> comparator (near_miss_order h)"
  by (simp add: near_miss_order_def comparator_cmp_then comparator_cmp_key comparator_cmp_on)

text \<open>The near misses of a selection are the rejected routes whose path matched, or whose
method matched and whose path is a typo away; each names at least one reason, and they come
in the order of their distance.\<close>

theorem near_misses_complete:
  assumes "comparator (locale_compare h)" and "distinct (map rt_id routes)"
    and "misses = me_nearMisses (sl_explanation (selectRoute h routes req settings basePath))"
  shows "nm_routeId ` set misses = rt_id ` {rt \<in> set routes. \<not> accepts h req basePath rt \<and>
           (pmr_matched (matchPath h (rt_path rt) (stripBasePath (rq_path req) basePath)) \<or>
            (matchMethod (rt_method rt) (rq_method req) \<and> isClosePathMiss (pm_value (rt_path rt)) (rq_path req)))} \<and>
         (\<forall>nm\<in>set misses. nm_failedPredicates nm \<noteq> []) \<and>
         sorted (map nm_missDistance misses)"
proof -
  define f where "f = (\<lambda>rt. near_miss_of (evaluateRoute h rt req basePath) (buildRouteIndex routes) (rq_path req) (rq_method req))"
  have misses: "set misses = {nm. \<exists>rt\<in>set routes. f rt = Some nm}"
    by (auto simp: assms(3) selectRoute_nearMisses collectNearMisses_def set_map_filter f_def)
  have 1: "nm_routeId ` set misses = rt_id ` {rt \<in> set routes. f rt \<noteq> None}"
    unfolding misses by (force simp: f_def image_iff dest: near_miss_of_id)
  have 2: "\<forall>nm\<in>set misses. nm_failedPredicates nm \<noteq> []"
    unfolding misses f_def using near_miss_explained by blast
  have "sorted_wrt (\<lambda>a b. near_miss_order h a b \<le> 0) misses"
    unfolding assms(3) selectRoute_nearMisses collectNearMisses_def
    by (rule comparator.sort_sorted [OF comparator_near_miss_order [OF assms(1)]])
  then have "sorted_wrt (\<lambda>a b. nm_missDistance a \<le> nm_missDistance b) misses"
    by (rule sorted_wrt_mono_rel [rotated])
      (auto simp: near_miss_order_def cmp_then_def cmp_key_def split: if_splits)
  then have 3: "sorted (map nm_missDistance misses)" by (simp add: sorted_map)
  have "{rt \<in> set routes. f rt \<noteq> None} = {rt \<in> set routes. \<not> accepts h req basePath rt \<and>
           (pmr_matched (matchPath h (rt_path rt) (stripBasePath (rq_path req) basePath)) \<or>
            (matchMethod (rt_method rt) (rq_method req) \<and> isClosePathMiss (pm_value (rt_path rt)) (rq_path req)))}"
    using near_miss_of_route [OF assms(2), of _ h req basePath "rq_path req" "rq_method req"]
    unfolding f_def by blast
  with 1 2 3 show ?thesis by simp
qed

theorem near_misses_complete_witness:
  "sorted (map nm_missDistance (me_nearMisses (sl_explanation
     (selectRoute sample_host [sample_route ''x'' ''/orders''] (sample_request ''/ordrs'') sample_settings ''''))))"
  using near_misses_complete [OF sample_host_collation _ refl,
      of "[sample_route ''x'' ''/orders'']" "sample_request ''/ordrs''" sample_settings "''''"]
  by simp

end
