(* ===== verification/Scenario.thy ===== *)
theory Scenario
  imports Predicates Interfaces
begin

unbundle bit_operations_syntax

text \<open>
  Choosing the response once a route has matched: the scenario runtime
  (\<open>src/shared/api-mock/scenarioRuntime.ts\<close>), the response modes and eligibility gates
  (\<open>responseSelector.ts\<close>), and the delay and fault preview (\<open>faultPreview.ts\<close>, the timeout
  clamp of \<open>defaults.ts\<close>). The stateful operations take the scenario or the sequence
  positions and return them updated. \<open>Math.random()\<close> is an argument in the unit interval;
  dates are compared through \<open>parse_date\<close>, which gives no number for an invalid date.
\<close>

section \<open>The scenario runtime\<close>

text \<open>Both records are plain objects, read with \<open>??\<close>: a key such as \<open>constructor\<close> finds the inherited
member. A number added to a function or to text is appended as text.\<close>

datatype counter = Count int | Joined string

record scenario_state =
  sc_states :: "string record_bag"
  sc_counters :: "counter record_bag"

definition createInitialState :: scenario_state where
  "createInitialState = \<lparr>sc_states = [], sc_counters = []\<rparr>"

definition getState :: "scenario_state \<Rightarrow> string \<Rightarrow> string slot" where
  "getState sc key = js_member_or [] (sc_states sc) key"

definition getCounter :: "scenario_state \<Rightarrow> string \<Rightarrow> counter slot" where
  "getCounter sc key = js_member_or (Count 0) (sc_counters sc) key"

fun counter_add :: "counter slot \<Rightarrow> int \<Rightarrow> counter" where
  "counter_add (Own (Count n)) delta = Count (n + delta)"
| "counter_add (Own (Joined t)) delta = Joined (t @ js_int delta)"
| "counter_add (Inherited n) delta = Joined (inherited_text n @ js_int delta)"

record transition_result =
  trr_applied :: bool
  trr_reason :: "string option"
  trr_previousState :: "string slot option"
  trr_newState :: "string option"

definition apply_counters :: "counter record_bag \<Rightarrow> counter_update list \<Rightarrow> counter record_bag" where
  "apply_counters cs updates =
     foldl (\<lambda>c u. js_put c (cu_key u) (counter_add (js_member_or (Count 0) c (cu_key u)) (cu_delta u))) cs updates"

text \<open>The guard refuses when a state is required, it is not the current one, and the current one is not the
empty text.\<close>

definition applyTransition ::
  "scenario_state \<Rightarrow> string \<Rightarrow> state_transition \<Rightarrow> transition_result \<times> scenario_state" where
  "applyTransition sc stateKey tr =
     (let current = getState sc stateKey;
          applied =
            (\<lparr>trr_applied = True, trr_reason = None, trr_previousState = Some current,
              trr_newState = Some (tr_targetState tr)\<rparr>,
             sc\<lparr>sc_states := js_put (sc_states sc) stateKey (tr_targetState tr),
                sc_counters := (case tr_counterUpdates tr of None \<Rightarrow> sc_counters sc
                                | Some us \<Rightarrow> apply_counters (sc_counters sc) us)\<rparr>)
      in case tr_currentState tr of
           Some wanted \<Rightarrow>
             (if Own wanted \<noteq> current \<and> current \<noteq> Own [] then
                (\<lparr>trr_applied = False,
                  trr_reason = Some (''Guard failed: expected \"'' @ wanted @ ''\", got \"'' @ slot_text current @ ''\"''),
                  trr_previousState = Some current, trr_newState = None\<rparr>, sc)
              else applied)
         | None \<Rightarrow> applied)"

definition resetState :: "scenario_state \<Rightarrow> scenario_state" where
  "resetState sc = sc\<lparr>sc_states := [], sc_counters := []\<rparr>"

section \<open>Sequence responses\<close>

type_synonym sequence_state = "nat record_bag"

datatype exhaustion_policy = Exhaust_cycle | Exhaust_hold_last

definition enabled_responses :: "route \<Rightarrow> response_variant list" where
  "enabled_responses rt = filter rv_enabled (rt_responses rt)"

definition selectSequenceResponse ::
  "route \<Rightarrow> sequence_state \<Rightarrow> exhaustion_policy \<Rightarrow> response_variant option \<times> sequence_state" where
  "selectSequenceResponse rt positions exhaustionPolicy =
     (let enabled = enabled_responses rt
      in if length enabled = 0 then (None, positions)
         else
           (let pos = rec_get_or 0 positions (rt_id rt);
                idx = (if exhaustionPolicy = Exhaust_cycle then pos mod length enabled
                       else min pos (length enabled - 1))
            in (js_nth enabled idx, rec_set positions (rt_id rt) (pos + 1))))"

definition resetSequence :: "sequence_state \<Rightarrow> string option \<Rightarrow> sequence_state" where
  "resetSequence positions routeId =
     (case routeId of
        None \<Rightarrow> []
      | Some i \<Rightarrow> if i = [] then [] else rec_del positions i)"

section \<open>Weighted responses\<close>

text \<open>The seeded hash: 32-bit arithmetic, reduced to the inclusive range.\<close>

definition seed_step :: "32 word \<Rightarrow> char \<Rightarrow> 32 word" where
  "seed_step hash c = push_bit 5 hash - hash + of_nat (of_char c)"

definition seed_hash :: "string \<Rightarrow> 32 word" where
  "seed_hash seed = foldl seed_step 0 seed"

definition seededRandom :: "string \<Rightarrow> int \<Rightarrow> int \<Rightarrow> int" where
  "seededRandom seed lo hi = lo + uint (seed_hash seed AND 0x7FFFFFFF) mod (hi - lo + 1)"

definition variant_weight :: "response_variant \<Rightarrow> int" where
  "variant_weight v = (case rv_weight v of None \<Rightarrow> 0 | Some w \<Rightarrow> w)"

definition total_weight :: "response_variant list \<Rightarrow> int" where
  "total_weight vs = (\<Sum>v\<leftarrow>vs. variant_weight v)"

fun pick_weighted :: "response_variant list \<Rightarrow> int \<Rightarrow> int \<Rightarrow> response_variant option" where
  "pick_weighted [] cumulative roll = None"
| "pick_weighted (v # vs) cumulative roll =
     (let cumulative' = cumulative + variant_weight v
      in if roll < cumulative' then Some v else pick_weighted vs cumulative' roll)"

definition weighted_eligible :: "route \<Rightarrow> response_variant list" where
  "weighted_eligible rt = filter (\<lambda>r. rv_enabled r \<and> 0 < variant_weight r) (rt_responses rt)"

definition selectWeightedResponse :: "route \<Rightarrow> string option \<Rightarrow> rat \<Rightarrow> response_variant option" where
  "selectWeightedResponse rt seed random =
     (let eligible = weighted_eligible rt
      in if length eligible = 0 then None
         else
           (let totalWeight = total_weight eligible
            in if totalWeight \<le> 0 then js_nth eligible 0
               else
                 (let roll = (case seed of
                        Some s \<Rightarrow> if s \<noteq> [] then seededRandom s 0 (totalWeight - 1)
                                  else \<lfloor>random * of_int totalWeight\<rfloor>
                      | None \<Rightarrow> \<lfloor>random * of_int totalWeight\<rfloor>)
                  in case pick_weighted eligible 0 roll of
                       Some v \<Rightarrow> Some v
                     | None \<Rightarrow> js_nth eligible (length eligible - 1))))"

section \<open>State and rules responses\<close>

definition required_state :: "response_variant \<Rightarrow> string option" where
  "required_state v = Option.bind (rv_transition v) tr_currentState"

definition selectStateResponse :: "route \<Rightarrow> scenario_state \<Rightarrow> string \<Rightarrow> response_variant option" where
  "selectStateResponse rt sc stateKey =
     (let current = getState sc stateKey;
          enabled = enabled_responses rt
      in if length enabled = 0 then None
         else
           (case find (\<lambda>r. map_option Own (required_state r) = Some current) enabled of
              Some r \<Rightarrow> Some r
            | None \<Rightarrow>
                (case find (\<lambda>r. required_state r = None \<or> required_state r = Some []) enabled of
                   Some r \<Rightarrow> Some r
                 | None \<Rightarrow> if current = Own [] then js_nth enabled 0 else None)))"

definition selectRulesResponse :: "js_host \<Rightarrow> route \<Rightarrow> captured_request \<Rightarrow> string \<Rightarrow> response_variant option" where
  "selectRulesResponse h rt req basePath =
     (let enabled = enabled_responses rt
      in if length enabled = 0 then None
         else
           (let fullPath = stripBasePath (rq_path req) basePath;
                pathParams = pmr_params (matchPath h (rt_path rt) fullPath)
            in case find (\<lambda>v. \<not> rv_isDefault v \<and> has_conditions v \<and> conditions_hold h v req pathParams) enabled of
                 Some v \<Rightarrow> Some v
               | None \<Rightarrow>
                   (case find rv_isDefault enabled of
                      Some v \<Rightarrow> Some v
                    | None \<Rightarrow> js_nth enabled 0)))"

text \<open>The mode-aware selection of the listener. Only sequence mode changes a state.\<close>

record select_options =
  so_basePath :: "string option"
  so_stateKey :: "string option"
  so_seed :: "string option"

definition selectResponseForRoute ::
  "js_host \<Rightarrow> route \<Rightarrow> captured_request \<Rightarrow> scenario_state \<Rightarrow> sequence_state \<Rightarrow> select_options \<Rightarrow> rat
     \<Rightarrow> response_variant option \<times> sequence_state" where
  "selectResponseForRoute h rt req sc positions opts random =
     (case rt_responseMode rt of
        Mode_sequence \<Rightarrow> selectSequenceResponse rt positions Exhaust_cycle
      | Mode_weighted \<Rightarrow> (selectWeightedResponse rt (so_seed opts) random, positions)
      | Mode_state \<Rightarrow>
          (selectStateResponse rt sc (case so_stateKey opts of None \<Rightarrow> ''default'' | Some k \<Rightarrow> k), positions)
      | Mode_rules \<Rightarrow>
          (selectRulesResponse h rt req (case so_basePath opts of None \<Rightarrow> [] | Some b \<Rightarrow> b), positions))"

section \<open>Eligibility\<close>

text \<open>The reason texts start with distinct words; the one test on them in the source
(\<open>startsWith('Probability')\<close>) tells the last constructor from the others.\<close>

datatype ineligible_reason = Match_limit_reached int | Expired_at string | Probability_not_met rat rat

definition isVariantEligible ::
  "(string \<Rightarrow> int option) \<Rightarrow> response_variant \<Rightarrow> int \<Rightarrow> int \<Rightarrow> rat \<Rightarrow> ineligible_reason option" where
  "isVariantEligible parse_date v matchCount now roll =
     (let b = rv_behavior v;
          limited = (case bh_maxMatches b of None \<Rightarrow> None
                     | Some m \<Rightarrow> if m \<le> matchCount then Some (Match_limit_reached m) else None);
          expired = (case bh_expiresAt b of None \<Rightarrow> None
                     | Some e \<Rightarrow> if e \<noteq> [] \<and> (case parse_date e of None \<Rightarrow> False | Some t \<Rightarrow> t \<le> now)
                                then Some (Expired_at e) else None);
          missed = (case bh_probability b of None \<Rightarrow> None
                    | Some p \<Rightarrow> if p < 1 \<and> p < roll then Some (Probability_not_met p roll) else None)
      in case limited of Some r \<Rightarrow> Some r
         | None \<Rightarrow> (case expired of Some r \<Rightarrow> Some r | None \<Rightarrow> missed))"

definition stripVariantFault :: "response_variant \<Rightarrow> response_variant" where
  "stripVariantFault v =
     (if bh_fault (rv_behavior v) = None \<or> bh_fault (rv_behavior v) = Some Fault_none then v
      else v\<lparr>rv_behavior := (rv_behavior v)\<lparr>bh_fault := None\<rparr>\<rparr>)"

record resolved_variant =
  rr_variant :: response_variant
  rr_fallbackUsed :: bool
  rr_eligibilityReason :: "ineligible_reason option"

record resolve_options =
  ro_matchCount :: int
  ro_now :: int
  ro_probabilityRoll :: rat
  ro_siblingMatchCount :: "string \<Rightarrow> int"
  ro_siblingProbabilityRoll :: "string \<Rightarrow> rat"

definition eligible_sibling :: "(string \<Rightarrow> int option) \<Rightarrow> response_variant \<Rightarrow> resolve_options \<Rightarrow> response_variant \<Rightarrow> bool" where
  "eligible_sibling parse_date selected opts v =
     (rv_enabled v \<and> rv_id v \<noteq> rv_id selected \<and>
      isVariantEligible parse_date v (ro_siblingMatchCount opts (rv_id v)) (ro_now opts)
        (ro_siblingProbabilityRoll opts (rv_id v)) = None)"

definition resolveEligibleVariant ::
  "(string \<Rightarrow> int option) \<Rightarrow> route \<Rightarrow> response_variant \<Rightarrow> resolve_options \<Rightarrow> resolved_variant" where
  "resolveEligibleVariant parse_date rt selected opts =
     (case isVariantEligible parse_date selected (ro_matchCount opts) (ro_now opts) (ro_probabilityRoll opts) of
        None \<Rightarrow> \<lparr>rr_variant = selected, rr_fallbackUsed = False, rr_eligibilityReason = None\<rparr>
      | Some reason \<Rightarrow>
          (let probabilityMiss = (case reason of Probability_not_met _ _ \<Rightarrow> True | _ \<Rightarrow> False);
               selectedByCondition = (\<not> rv_isDefault selected \<and> has_conditions selected)
           in if probabilityMiss \<and> selectedByCondition then
                \<lparr>rr_variant = stripVariantFault selected, rr_fallbackUsed = False, rr_eligibilityReason = Some reason\<rparr>
              else
                (case find (eligible_sibling parse_date selected opts) (rt_responses rt) of
                   Some fallback \<Rightarrow>
                     \<lparr>rr_variant = fallback, rr_fallbackUsed = True, rr_eligibilityReason = Some reason\<rparr>
                 | None \<Rightarrow>
                     \<lparr>rr_variant = selected, rr_fallbackUsed = False, rr_eligibilityReason = Some reason\<rparr>)))"

section \<open>Delays and faults\<close>

definition maxDelayMs_ceiling :: int where
  "maxDelayMs_ceiling = 60000"

definition maxLongRunningMs_ceiling :: int where
  "maxLongRunningMs_ceiling = 3600000"

definition DEFAULT_TIMEOUT_HOLD_MS :: int where
  "DEFAULT_TIMEOUT_HOLD_MS = 5000"

definition clampTimeoutHoldMs :: "int option \<Rightarrow> int \<Rightarrow> int" where
  "clampTimeoutHoldMs requested capMs =
     (let cap = max 1 (min (if 0 < capMs then capMs else maxLongRunningMs_ceiling) maxLongRunningMs_ceiling);
          raw = (case requested of
                   Some r \<Rightarrow> if 0 < r then r else min DEFAULT_TIMEOUT_HOLD_MS cap
                 | None \<Rightarrow> min DEFAULT_TIMEOUT_HOLD_MS cap)
      in max 1 (min raw cap))"

record delay_preview =
  dp_baseMs :: int
  dp_jitterMs :: int
  dp_totalMs :: int

definition resolveMaxDelayMs :: "int \<Rightarrow> int" where
  "resolveMaxDelayMs maxDelayMs = (if 0 < maxDelayMs then maxDelayMs else maxDelayMs_ceiling)"

definition computeVirtualDelayMs :: "response_variant option \<Rightarrow> int \<Rightarrow> string option \<Rightarrow> rat \<Rightarrow> delay_preview" where
  "computeVirtualDelayMs variant maxDelayMs seed random =
     (case variant of
        None \<Rightarrow> \<lparr>dp_baseMs = 0, dp_jitterMs = 0, dp_totalMs = 0\<rparr>
      | Some v \<Rightarrow>
          (let cap = resolveMaxDelayMs maxDelayMs;
               baseMs = min (max 0 (bh_delayMs (rv_behavior v))) cap;
               jitterCap = min (max 0 (bh_jitterMs (rv_behavior v))) cap
           in if jitterCap \<le> 0 then \<lparr>dp_baseMs = baseMs, dp_jitterMs = 0, dp_totalMs = baseMs\<rparr>
              else
                (let drawn = \<lfloor>random * of_int (jitterCap * 2 + 1)\<rfloor> - jitterCap;
                     delta = (case seed of
                         Some s \<Rightarrow> if s \<noteq> [] then seededRandom (s @ '':jitter'') (- jitterCap) jitterCap else drawn
                       | None \<Rightarrow> drawn)
                 in \<lparr>dp_baseMs = baseMs, dp_jitterMs = delta, dp_totalMs = max 0 (min cap (baseMs + delta))\<rparr>)))"

record timeline_step =
  tl_atMs :: int
  tl_label :: string

record fault_preview =
  fv_fault :: fault_kind
  fv_deliveryOutcome :: outcome
  fv_httpCompleted :: bool
  fv_effectiveStatus :: int
  fv_effectiveBody :: string
  fv_wireBody :: string
  fv_timeline :: "timeline_step list"

definition broken_delivery :: "fault_kind \<Rightarrow> timeline_step list \<Rightarrow> fault_preview" where
  "broken_delivery kind timeline =
     \<lparr>fv_fault = kind, fv_deliveryOutcome = Out_fault, fv_httpCompleted = False, fv_effectiveStatus = 0,
      fv_effectiveBody = '''', fv_wireBody = '''', fv_timeline = timeline\<rparr>"

definition dribble_schedule :: "behavior \<Rightarrow> string \<Rightarrow> body_chunk list" where
  "dribble_schedule b body =
     (case bh_chunkSchedule b of
        Some (c # cs) \<Rightarrow> c # cs
      | _ \<Rightarrow> (let half = (length body + 1) div 2
              in [\<lparr>chunk_afterMs = 20, chunk_body = take half body\<rparr>,
                  \<lparr>chunk_afterMs = 40, chunk_body = drop half body\<rparr>]))"

fun chunk_timeline :: "js_host \<Rightarrow> int \<Rightarrow> body_chunk list \<Rightarrow> timeline_step list \<times> int" where
  "chunk_timeline h cursor [] = ([], cursor)"
| "chunk_timeline h cursor (c # cs) =
     (let cursor' = cursor + max 0 (chunk_afterMs c);
          label = ''Chunk '' @ json_stringify h (JStr (take 48 (chunk_body c))) @
                  (if 48 < length (chunk_body c) then ''...'' else '''');
          (steps, last) = chunk_timeline h cursor' cs
      in (\<lparr>tl_atMs = cursor', tl_label = label\<rparr> # steps, last))"

definition previewFaultDelivery ::
  "js_host \<Rightarrow> fault_kind option \<Rightarrow> behavior \<Rightarrow> int \<Rightarrow> string \<Rightarrow> int \<Rightarrow> fault_preview" where
  "previewFaultDelivery h fault b status body longRunningMaxMs =
     (case (case fault of None \<Rightarrow> Fault_none | Some k \<Rightarrow> k) of
        Fault_none \<Rightarrow>
          \<lparr>fv_fault = Fault_none, fv_deliveryOutcome = Out_matched, fv_httpCompleted = True,
           fv_effectiveStatus = status, fv_effectiveBody = body, fv_wireBody = body,
           fv_timeline = [\<lparr>tl_atMs = 0, tl_label = ''Write status + body''\<rparr>]\<rparr>
      | Fault_timeout \<Rightarrow>
          broken_delivery Fault_timeout
            [\<lparr>tl_atMs = 0, tl_label = ''Hold socket open (no HTTP response)''\<rparr>,
             \<lparr>tl_atMs = clampTimeoutHoldMs (bh_longRunningMs b) longRunningMaxMs,
              tl_label = ''Destroy socket (timeout)''\<rparr>]
      | Fault_reset \<Rightarrow>
          broken_delivery Fault_reset [\<lparr>tl_atMs = 0, tl_label = ''Socket destroy (TCP reset)''\<rparr>]
      | Fault_close \<Rightarrow>
          broken_delivery Fault_close [\<lparr>tl_atMs = 0, tl_label = ''Abrupt end without status line''\<rparr>]
      | Fault_malformed \<Rightarrow>
          broken_delivery Fault_malformed [\<lparr>tl_atMs = 0, tl_label = ''Write invalid bytes + destroy''\<rparr>]
      | Fault_dribble \<Rightarrow>
          (let schedule = dribble_schedule b body;
               (steps, cursor) = chunk_timeline h 0 schedule
           in \<lparr>fv_fault = Fault_dribble, fv_deliveryOutcome = Out_fault, fv_httpCompleted = True,
               fv_effectiveStatus = status, fv_effectiveBody = body,
               fv_wireBody = concat (map chunk_body schedule),
               fv_timeline =
                 \<lparr>tl_atMs = 0, tl_label = ''Write headers (Transfer-Encoding: chunked)''\<rparr> # steps
                 @ [\<lparr>tl_atMs = cursor, tl_label = ''End stream''\<rparr>]\<rparr>))"

section \<open>Transitions\<close>

text \<open>What a list of updates makes of a counter: a number moves by the sum of its deltas; text, and the text
of an inherited member, has each delta appended.\<close>

definition deltas_of :: "string \<Rightarrow> counter_update list \<Rightarrow> int list" where
  "deltas_of k us = map cu_delta (filter (\<lambda>u. cu_key u = k) us)"

definition moved_by :: "counter slot \<Rightarrow> int list \<Rightarrow> counter slot" where
  "moved_by c ds =
     (if ds = [] then c
      else Own (case c of
        Own (Count n) \<Rightarrow> Count (n + sum_list ds)
      | Own (Joined t) \<Rightarrow> Joined (t @ concat (map js_int ds))
      | Inherited n \<Rightarrow> Joined (inherited_text n @ concat (map js_int ds))))"

lemma moved_by_Cons: "moved_by c (d # ds) = moved_by (Own (counter_add c d)) ds"
  by (cases "(c, d)" rule: counter_add.cases) (simp_all add: moved_by_def)

lemma apply_counters_get:
  "js_member_or (Count 0) (apply_counters cs us) k =
     (if k = ''__proto__'' then js_member_or (Count 0) cs k else moved_by (js_member_or (Count 0) cs k) (deltas_of k us))"
proof (induction us arbitrary: cs)
  case Nil
  show ?case by (simp add: apply_counters_def deltas_of_def moved_by_def)
next
  case (Cons u us)
  let ?cs = "js_put cs (cu_key u) (counter_add (js_member_or (Count 0) cs (cu_key u)) (cu_delta u))"
  have "apply_counters cs (u # us) = apply_counters ?cs us" by (simp add: apply_counters_def)
  with Cons.IH [of ?cs] show ?case by (simp add: deltas_of_def moved_by_Cons)
qed

definition updates_of :: "state_transition \<Rightarrow> counter_update list" where
  "updates_of tr = (case tr_counterUpdates tr of None \<Rightarrow> [] | Some us \<Rightarrow> us)"

definition guard_fails :: "scenario_state \<Rightarrow> string \<Rightarrow> state_transition \<Rightarrow> bool" where
  "guard_fails sc stateKey tr \<longleftrightarrow>
     getState sc stateKey \<noteq> Own [] \<and> tr_currentState tr \<noteq> None \<and> map_option Own (tr_currentState tr) \<noteq> Some (getState sc stateKey)"

text \<open>C29. A scenario transition is atomic. If its guard names a state other than the current one
and the machine has left its unnamed start, it is refused and nothing changes. Otherwise it
applies as a whole: the machine is in the target state, no other machine's state has changed, and every
counter that is a number has moved by the sum of its deltas. The keys that plain objects inherit are
covered: a machine called \<open>constructor\<close> is not at its unnamed start, since the inherited function is read
as its state, so its first guarded transition is refused; a counter of such a name becomes the text of the
function with the deltas appended; and what is written under \<open>__proto__\<close> is lost.\<close>

theorem applyTransition_atomic:
  "if guard_fails sc stateKey tr
   then \<not> trr_applied (fst (applyTransition sc stateKey tr)) \<and> snd (applyTransition sc stateKey tr) = sc
   else trr_applied (fst (applyTransition sc stateKey tr)) \<and>
        (\<forall>key. getState (snd (applyTransition sc stateKey tr)) key =
           (if key = stateKey \<and> key \<noteq> ''__proto__'' then Own (tr_targetState tr) else getState sc key)) \<and>
        (\<forall>key. getCounter (snd (applyTransition sc stateKey tr)) key =
           (if key = ''__proto__'' then getCounter sc key
            else moved_by (getCounter sc key) (deltas_of key (updates_of tr))))"
proof -
  have c: "js_member_or (Count 0) (case tr_counterUpdates tr of None \<Rightarrow> sc_counters sc
        | Some us \<Rightarrow> apply_counters (sc_counters sc) us) key =
      (if key = ''__proto__'' then js_member_or (Count 0) (sc_counters sc) key
       else moved_by (js_member_or (Count 0) (sc_counters sc) key) (deltas_of key (updates_of tr)))" for key
    by (cases "tr_counterUpdates tr") (simp_all add: updates_of_def deltas_of_def moved_by_def apply_counters_get)
  show ?thesis
    by (cases "tr_currentState tr")
      (auto simp: applyTransition_def guard_fails_def Let_def getCounter_def getState_def c)
qed

section \<open>Sequences\<close>

fun run_sequence :: "route \<Rightarrow> sequence_state \<Rightarrow> nat \<Rightarrow> response_variant option list \<times> sequence_state" where
  "run_sequence rt positions 0 = ([], positions)"
| "run_sequence rt positions (Suc n) =
     (let (v, positions') = selectSequenceResponse rt positions Exhaust_cycle;
          (vs, positions'') = run_sequence rt positions' n
      in (v # vs, positions''))"

text \<open>A sequence route cycles: \<open>n\<close> requests from position \<open>p\<close> are answered by the enabled
responses in turn, starting at \<open>p\<close> and wrapping around, and the positions of other routes
stay as they are.\<close>

theorem sequence_cycles:
  assumes "enabled_responses rt \<noteq> []"
  shows "fst (run_sequence rt positions n) =
           map (\<lambda>i. Some (enabled_responses rt ! ((rec_get_or 0 positions (rt_id rt) + i) mod length (enabled_responses rt))))
             [0..<n] \<and>
         rec_get_or 0 (snd (run_sequence rt positions n)) (rt_id rt) = rec_get_or 0 positions (rt_id rt) + n \<and>
         (\<forall>other. other \<noteq> rt_id rt \<longrightarrow>
            rec_get_or 0 (snd (run_sequence rt positions n)) other = rec_get_or 0 positions other)"
proof (induction n arbitrary: positions)
  case (Suc n)
  define pos where "pos = rec_get_or 0 positions (rt_id rt)"
  have step: "selectSequenceResponse rt positions Exhaust_cycle =
      (Some (enabled_responses rt ! (pos mod length (enabled_responses rt))), rec_set positions (rt_id rt) (pos + 1))"
    using assms by (simp add: selectSequenceResponse_def Let_def js_nth_def pos_def)
  have upt: "[0..<Suc n] = 0 # map Suc [0..<n]" by (simp only: map_Suc_upt upt_conv_Cons zero_less_Suc)
  show ?case
    using Suc [of "rec_set positions (rt_id rt) (pos + 1)"]
    by (simp add: step upt pos_def [symmetric] case_prod_beta del: upt_Suc)
qed simp

theorem sequence_cycles_witness:
  "fst (run_sequence (sample_route ''r'' ''/a'') [] 2) =
     [Some (sample_variant ''r-ok''), Some (sample_variant ''r-ok'')]"
  using sequence_cycles [of "sample_route ''r'' ''/a''" "[]" 2]
  by (simp add: enabled_responses_def sample_route_def sample_variant_def upt_rec)

section \<open>Weights\<close>

lemma seededRandom_range: "lo \<le> hi \<Longrightarrow> lo \<le> seededRandom s lo hi \<and> seededRandom s lo hi \<le> hi"
  using pos_mod_bound [of "hi - lo + 1" "uint (seed_hash s AND 0x7FFFFFFF)"]
  by (simp add: seededRandom_def)

lemma floor_roll_range: "0 \<le> r \<Longrightarrow> r < (1 :: rat) \<Longrightarrow> 0 < t \<Longrightarrow> 0 \<le> \<lfloor>r * of_int t\<rfloor> \<and> \<lfloor>r * of_int t\<rfloor> < t"
proof -
  assume r: "0 \<le> r" "r < 1" and t: "0 < t"
  then have "r * of_int t < 1 * of_int t" by (intro mult_strict_right_mono) auto
  then have "r * of_int t < of_int t" by simp
  moreover have "0 \<le> r * of_int t" using r t by simp
  ultimately show ?thesis by (simp add: floor_less_iff)
qed

lemma total_weight_nonneg: "\<forall>v\<in>set vs. 0 < variant_weight v \<Longrightarrow> 0 \<le> total_weight vs"
  by (induction vs) (auto simp: total_weight_def)

lemma pick_weighted_Some:
  "cumulative \<le> roll \<Longrightarrow> roll < cumulative + total_weight vs \<Longrightarrow> \<exists>v\<in>set vs. pick_weighted vs cumulative roll = Some v"
  by (induction vs arbitrary: cumulative) (auto simp: total_weight_def Let_def algebra_simps)

lemma pick_weighted_in: "pick_weighted vs cumulative roll = Some v \<Longrightarrow> v \<in> set vs"
  by (induction vs arbitrary: cumulative) (auto simp: Let_def split: if_splits)

lemma pick_weighted_range:
  "distinct vs \<Longrightarrow> \<forall>v\<in>set vs. 0 < variant_weight v \<Longrightarrow> v \<in> set vs \<Longrightarrow>
   \<exists>a. cumulative \<le> a \<and> a + variant_weight v \<le> cumulative + total_weight vs \<and>
       (\<forall>roll. cumulative \<le> roll \<longrightarrow> (pick_weighted vs cumulative roll = Some v \<longleftrightarrow> a \<le> roll \<and> roll < a + variant_weight v))"
proof (induction vs arbitrary: cumulative)
  case (Cons u vs)
  have nn: "0 \<le> total_weight vs" using Cons.prems by (intro total_weight_nonneg) auto
  show ?case
  proof (cases "v = u")
    case True
    have "u \<notin> set vs" using Cons.prems by simp
    with pick_weighted_in [of vs _ _ u] have "pick_weighted vs c r \<noteq> Some u" for c r by blast
    with True nn show ?thesis
      by (intro exI [of _ cumulative]) (auto simp: Let_def total_weight_def)
  next
    case False
    with Cons.prems have "v \<in> set vs" by simp
    with Cons.IH [of "cumulative + variant_weight u"] Cons.prems
    obtain a where a: "cumulative + variant_weight u \<le> a"
      "a + variant_weight v \<le> cumulative + variant_weight u + total_weight vs"
      "\<And>roll. cumulative + variant_weight u \<le> roll \<Longrightarrow>
         (pick_weighted vs (cumulative + variant_weight u) roll = Some v) = (a \<le> roll \<and> roll < a + variant_weight v)"
      by auto
    have "0 < variant_weight u" using Cons.prems by simp
    with a False show ?thesis
      by (intro exI [of _ a]) (auto simp: Let_def total_weight_def not_less split: if_splits)
  qed
qed simp

lemma pick_weighted_share:
  assumes "distinct vs" and "\<forall>v\<in>set vs. 0 < variant_weight v" and "v \<in> set vs"
  shows "card {roll \<in> {0..<total_weight vs}. pick_weighted vs 0 roll = Some v} = nat (variant_weight v)"
proof -
  obtain a where a: "0 \<le> a" "a + variant_weight v \<le> total_weight vs"
    "\<And>roll. 0 \<le> roll \<Longrightarrow> (pick_weighted vs 0 roll = Some v) = (a \<le> roll \<and> roll < a + variant_weight v)"
    using pick_weighted_range [OF assms, of 0] by auto
  then have "{roll \<in> {0..<total_weight vs}. pick_weighted vs 0 roll = Some v} = {a..<a + variant_weight v}"
    by auto
  then show ?thesis by simp
qed

text \<open>Weighted selection is proportional: among the rolls below the total weight, as many
choose a variant as its weight says; and whenever some enabled variant has a positive weight,
a selection - seeded or random - returns an enabled variant of positive weight.\<close>

theorem weighted_selection:
  assumes "distinct (rt_responses rt)" and "0 \<le> random" and "random < 1"
    and "v \<in> set (rt_responses rt)" and "rv_enabled v" and "0 < variant_weight v"
  shows "card {roll \<in> {0..<total_weight (weighted_eligible rt)}. pick_weighted (weighted_eligible rt) 0 roll = Some v} =
           nat (variant_weight v) \<and>
         (\<exists>u. selectWeightedResponse rt seed random = Some u \<and> u \<in> set (rt_responses rt) \<and>
              rv_enabled u \<and> 0 < variant_weight u)"
proof -
  let ?el = "weighted_eligible rt"
  have el: "distinct ?el" "\<forall>u\<in>set ?el. 0 < variant_weight u" "v \<in> set ?el"
    using assms by (auto simp: weighted_eligible_def)
  have pos: "0 < total_weight ?el"
  proof -
    obtain a where "0 \<le> a" "a + variant_weight v \<le> total_weight ?el"
      using pick_weighted_range [OF el, of 0] by auto
    with assms(6) show ?thesis by linarith
  qed
  define roll where "roll = (case seed of
      Some s \<Rightarrow> if s \<noteq> [] then seededRandom s 0 (total_weight ?el - 1) else \<lfloor>random * of_int (total_weight ?el)\<rfloor>
    | None \<Rightarrow> \<lfloor>random * of_int (total_weight ?el)\<rfloor>)"
  have "0 \<le> roll \<and> roll < total_weight ?el"
    using seededRandom_range [of 0 "total_weight ?el - 1"] floor_roll_range [OF assms(2,3) pos] pos
    by (auto simp: roll_def split: option.splits)
  then obtain u where u: "u \<in> set ?el" "pick_weighted ?el 0 roll = Some u"
    using pick_weighted_Some [of 0 roll ?el] by auto
  have "selectWeightedResponse rt seed random = Some u"
    using el(3) pos u(2) by (auto simp: selectWeightedResponse_def Let_def roll_def [symmetric])
  with u(1) pick_weighted_share [OF el] show ?thesis by (auto simp: weighted_eligible_def)
qed

theorem weighted_selection_witness:
  "\<exists>u. selectWeightedResponse
     ((sample_route ''r'' ''/a'')\<lparr>rt_responses := [(sample_variant ''v'')\<lparr>rv_weight := Some 3\<rparr>]\<rparr>) (Some ''s'') 0 = Some u"
  using weighted_selection [of "(sample_route ''r'' ''/a'')\<lparr>rt_responses := [(sample_variant ''v'')\<lparr>rv_weight := Some 3\<rparr>]\<rparr>"
      0 "(sample_variant ''v'')\<lparr>rv_weight := Some 3\<rparr>" "Some ''s''"]
  by (auto simp: sample_variant_def variant_weight_def)

section \<open>Eligibility gates\<close>

lemma stripVariantFault_fault:
  "bh_fault (rv_behavior (stripVariantFault v)) = None \<or>
   bh_fault (rv_behavior (stripVariantFault v)) = Some Fault_none"
  by (cases "bh_fault (rv_behavior v) = None \<or> bh_fault (rv_behavior v) = Some Fault_none")
    (simp_all add: stripVariantFault_def)

text \<open>Resolving a selected variant: what is served passes its own gates, or it is the selected
variant itself, with its fault stripped when only its probability missed and a condition had
selected it. The selected variant is replaced only by an enabled sibling that passes, and it
is served despite failing its limit or expiry only when no enabled sibling passes.\<close>

theorem resolveEligibleVariant_result:
  "(let r = resolveEligibleVariant parse_date rt selected opts;
        verdict = isVariantEligible parse_date selected (ro_matchCount opts) (ro_now opts) (ro_probabilityRoll opts)
    in (rr_eligibilityReason r = verdict) \<and>
       (if rr_fallbackUsed r
        then verdict \<noteq> None \<and> rr_variant r \<in> set (rt_responses rt) \<and>
             eligible_sibling parse_date selected opts (rr_variant r)
        else (rr_variant r = selected \<and>
                (verdict = None \<or> (\<forall>v\<in>set (rt_responses rt). \<not> eligible_sibling parse_date selected opts v)))
           \<or> (rr_variant r = stripVariantFault selected \<and> bh_fault (rv_behavior (rr_variant r)) \<in> {None, Some Fault_none} \<and>
              (\<exists>p roll. verdict = Some (Probability_not_met p roll)) \<and>
              \<not> rv_isDefault selected \<and> has_conditions selected)))"
proof (cases "isVariantEligible parse_date selected (ro_matchCount opts) (ro_now opts) (ro_probabilityRoll opts)")
  case None
  then show ?thesis by (simp add: resolveEligibleVariant_def)
next
  case (Some reason)
  show ?thesis
  proof (cases "(\<exists>p roll. reason = Probability_not_met p roll) \<and> \<not> rv_isDefault selected \<and> has_conditions selected")
    case True
    then obtain p roll where "reason = Probability_not_met p roll" by blast
    with True Some stripVariantFault_fault [of selected] show ?thesis
      by (simp add: resolveEligibleVariant_def Let_def)
  next
    case False
    then have miss: "\<not> ((case reason of Probability_not_met _ _ \<Rightarrow> True | _ \<Rightarrow> False) \<and>
        \<not> rv_isDefault selected \<and> has_conditions selected)"
      by (cases reason) auto
    show ?thesis
    proof (cases "find (eligible_sibling parse_date selected opts) (rt_responses rt)")
      case None
      then have "\<forall>v\<in>set (rt_responses rt). \<not> eligible_sibling parse_date selected opts v"
        using find_NoneD by fastforce
      with None Some miss show ?thesis
        by (simp add: resolveEligibleVariant_def Let_def) blast
    next
      case (Some v)
      with \<open>isVariantEligible _ _ _ _ _ = Some reason\<close> miss find_SomeD [OF Some] show ?thesis
        by (simp add: resolveEligibleVariant_def Let_def) blast
    qed
  qed
qed

theorem resolveEligibleVariant_result_witness:
  "rr_variant (resolveEligibleVariant (\<lambda>d. None) (sample_route ''r'' ''/a'') (sample_variant ''v'')
     \<lparr>ro_matchCount = 0, ro_now = 0, ro_probabilityRoll = 0, ro_siblingMatchCount = (\<lambda>i. 0),
      ro_siblingProbabilityRoll = (\<lambda>i. 0)\<rparr>) = sample_variant ''v''"
  using resolveEligibleVariant_result [of "\<lambda>d. None" "sample_route ''r'' ''/a''" "sample_variant ''v''"
      "\<lparr>ro_matchCount = 0, ro_now = 0, ro_probabilityRoll = 0, ro_siblingMatchCount = (\<lambda>i. 0),
      ro_siblingProbabilityRoll = (\<lambda>i. 0)\<rparr>"]
  by (simp add: isVariantEligible_def sample_variant_def sample_behavior_def Let_def split: if_splits)

section \<open>Delays and faults: bounds\<close>

text \<open>The virtual delay of a response lies between zero and the cap, its jitter within the
configured jitter, and a timeout hold within one millisecond and the server's cap and ceiling.\<close>

theorem delays_bounded:
  assumes "0 \<le> random" and "random < 1"
  shows "0 \<le> dp_totalMs (computeVirtualDelayMs v maxDelayMs seed random) \<and>
         dp_totalMs (computeVirtualDelayMs v maxDelayMs seed random) \<le> resolveMaxDelayMs maxDelayMs \<and>
         (case v of None \<Rightarrow> dp_jitterMs (computeVirtualDelayMs v maxDelayMs seed random) = 0
          | Some u \<Rightarrow> \<bar>dp_jitterMs (computeVirtualDelayMs v maxDelayMs seed random)\<bar> \<le> max 0 (bh_jitterMs (rv_behavior u))) \<and>
         1 \<le> clampTimeoutHoldMs requested capMs \<and>
         clampTimeoutHoldMs requested capMs \<le> (if 0 < capMs then min capMs 3600000 else 3600000)"
proof -
  have jitter: "\<bar>\<lfloor>random * of_int (j * 2 + 1)\<rfloor> - j\<bar> \<le> j" if "0 < j" for j
    using floor_roll_range [OF assms, of "j * 2 + 1"] that by linarith
  have seeded: "\<bar>seededRandom s (- j) j\<bar> \<le> j" if "0 < j" for s j
    using seededRandom_range [of "- j" j s] that by linarith
  have cap: "0 \<le> resolveMaxDelayMs maxDelayMs" by (simp add: resolveMaxDelayMs_def maxDelayMs_ceiling_def)
  have total: "0 \<le> dp_totalMs (computeVirtualDelayMs v maxDelayMs seed random) \<and>
         dp_totalMs (computeVirtualDelayMs v maxDelayMs seed random) \<le> resolveMaxDelayMs maxDelayMs"
  proof (cases v)
    case (Some u)
    define c where "c = resolveMaxDelayMs maxDelayMs"
    define base where "base = min (max 0 (bh_delayMs (rv_behavior u))) c"
    have base: "0 \<le> base" "base \<le> c" using cap by (simp_all add: base_def c_def)
    have mid: "0 \<le> max 0 (min c x) \<and> max 0 (min c x) \<le> c" for x using cap by (simp add: c_def)
    show ?thesis
      unfolding computeVirtualDelayMs_def Let_def Some option.case c_def [symmetric] base_def [symmetric]
      by (simp only: delay_preview.simps if_distrib [of dp_totalMs] split: if_split) (simp only: base mid, simp)
  qed (use cap in \<open>simp add: computeVirtualDelayMs_def\<close>)
  have j: "\<bar>dp_jitterMs (computeVirtualDelayMs (Some u) maxDelayMs seed random)\<bar> \<le> max 0 (bh_jitterMs (rv_behavior u))" for u
  proof -
    define jc where "jc = min (max 0 (bh_jitterMs (rv_behavior u))) (resolveMaxDelayMs maxDelayMs)"
    have "jc \<le> max 0 (bh_jitterMs (rv_behavior u))" by (simp add: jc_def)
    moreover have "\<bar>dp_jitterMs (computeVirtualDelayMs (Some u) maxDelayMs seed random)\<bar> \<le> max 0 jc"
      unfolding computeVirtualDelayMs_def Let_def option.case jc_def [symmetric]
      by (cases "jc \<le> 0"; cases seed) (use jitter [of jc] seeded [of jc] in \<open>simp_all only: delay_preview.simps
          if_True if_False option.case not_le\<close>, auto)
    ultimately show ?thesis by linarith
  qed
  have "1 \<le> clampTimeoutHoldMs requested capMs \<and>
      clampTimeoutHoldMs requested capMs \<le> (if 0 < capMs then min capMs 3600000 else 3600000)"
  proof -
    have "max 1 (min raw (max 1 (min (if 0 < capMs then capMs else 3600000) 3600000))) \<le>
        (if 0 < capMs then min capMs 3600000 else 3600000)" for raw
      by (cases "0 < capMs") (simp_all add: min.coboundedI2)
    then show ?thesis
      by (simp only: clampTimeoutHoldMs_def Let_def maxLongRunningMs_ceiling_def) simp
  qed
  with total j show ?thesis by (cases v) (auto simp: computeVirtualDelayMs_def)
qed

theorem delays_bounded_witness:
  "clampTimeoutHoldMs (Some 9000) 2000 \<le> 2000"
  using delays_bounded [of "1 / 2" None 0 None "Some 9000" 2000] by simp

lemma chunk_timeline_times:
  "\<forall>s\<in>set (fst (chunk_timeline h cursor cs)). cursor \<le> tl_atMs s \<and> tl_atMs s \<le> snd (chunk_timeline h cursor cs)"
  "cursor \<le> snd (chunk_timeline h cursor cs)"
  "sorted (map tl_atMs (fst (chunk_timeline h cursor cs)))"
proof (induction cs arbitrary: cursor)
  case (Cons c cs)
  {
    case 1
    show ?case using Cons(1,2) [of "cursor + max 0 (chunk_afterMs c)"]
      by (fastforce simp: Let_def case_prod_beta)
  next
    case 2
    show ?case using Cons(2) [of "cursor + max 0 (chunk_afterMs c)"]
      by (simp add: Let_def case_prod_beta)
  next
    case 3
    show ?case using Cons(1,3) [of "cursor + max 0 (chunk_afterMs c)"]
      by (simp add: Let_def case_prod_beta)
  }
qed simp_all

text \<open>A fault preview is consistent: its timeline is in order, a delivery that completes
carries the response's status and body and one that does not carries nothing, and the chunks
of a dribble without a schedule of its own add up to the whole body.\<close>

theorem fault_preview_consistent:
  "sorted (map tl_atMs (fv_timeline (previewFaultDelivery h fault b status body cap))) \<and>
   (fv_httpCompleted (previewFaultDelivery h fault b status body cap) \<longrightarrow>
      fv_effectiveStatus (previewFaultDelivery h fault b status body cap) = status \<and>
      fv_effectiveBody (previewFaultDelivery h fault b status body cap) = body) \<and>
   (\<not> fv_httpCompleted (previewFaultDelivery h fault b status body cap) \<longrightarrow>
      fv_effectiveBody (previewFaultDelivery h fault b status body cap) = [] \<and>
      fv_wireBody (previewFaultDelivery h fault b status body cap) = []) \<and>
   (bh_chunkSchedule b \<in> {None, Some []} \<and> fv_httpCompleted (previewFaultDelivery h fault b status body cap) \<longrightarrow>
      fv_wireBody (previewFaultDelivery h fault b status body cap) = body)"
proof (cases "case fault of None \<Rightarrow> Fault_none | Some k \<Rightarrow> k")
  case Fault_timeout
  have "0 \<le> clampTimeoutHoldMs (bh_longRunningMs b) cap"
    by (simp add: clampTimeoutHoldMs_def Let_def le_max_iff_disj)
  with Fault_timeout show ?thesis by (simp add: previewFaultDelivery_def broken_delivery_def)
next
  case Fault_dribble
  note t = chunk_timeline_times [where h = h and cursor = 0 and cs = "dribble_schedule b body"]
  have "sorted (map tl_atMs (fst (chunk_timeline h 0 (dribble_schedule b body))) @
      [snd (chunk_timeline h 0 (dribble_schedule b body))])"
    using t by (auto simp: sorted_append)
  moreover have "bh_chunkSchedule b \<in> {None, Some []} \<Longrightarrow>
      concat (map chunk_body (dribble_schedule b body)) = body"
    by (auto simp: dribble_schedule_def Let_def)
  ultimately show ?thesis
    using Fault_dribble t by (auto simp: previewFaultDelivery_def Let_def case_prod_beta)
qed (simp_all add: previewFaultDelivery_def broken_delivery_def)

theorem fault_preview_consistent_witness:
  "fv_wireBody (previewFaultDelivery sample_host (Some Fault_dribble) sample_behavior 200 ''abc'' 0) = ''abc''"
  using fault_preview_consistent [of sample_host "Some Fault_dribble" sample_behavior 200 "''abc''" 0]
  by (simp add: previewFaultDelivery_def sample_behavior_def Let_def case_prod_beta)

end
