(* ===== verification/Journal.thy ===== *)
theory Journal
  imports Interfaces Json_Model
begin

text \<open>
  The transaction journal of a mock server
  (\<open>src-server/api-mock/ApiMockTransactionJournal.ts\<close>): a ring buffer of redacted and
  truncated transactions, queried by filters and an index, with an optional snapshot on disk
  (\<open>apiMockJournalPersist.ts\<close>). The snapshot file is part of the state (\<open>jn_disk\<close>): a write
  that the file system accepts replaces it, and a stored snapshot reads back as written.

  The ring is shown to be a bounded window: it always holds the most recent transactions.
\<close>

section \<open>State\<close>

record journal_snapshot =
  sn_cursor :: nat
  sn_transactions :: "transaction list"
  sn_drops :: nat
  sn_truncations :: nat

record journal =
  jn_buffer :: "transaction list"
  jn_head :: nat
  jn_count :: nat
  jn_cursorCounter :: nat
  jn_maxEntries :: nat
  jn_maxBodyBytes :: int
  jn_redactionHeaders :: "string list"
  jn_redactionJsonPaths :: "string list"
  jn_preserveScheme :: bool
  jn_persistToDisk :: bool
  jn_journalEnabled :: bool
  jn_persistFile :: bool
  jn_drops :: nat
  jn_truncations :: nat
  jn_disk :: "journal_snapshot option"

definition maxJournalEntries_ceiling :: int where
  "maxJournalEntries_ceiling = 500"

definition maxCapturedBodyBytes_ceiling :: int where
  "maxCapturedBodyBytes_ceiling = 1048576"

section \<open>Redaction\<close>

definition REDACTED :: string where
  "REDACTED = ''[REDACTED]''"

definition redactHeaderValue :: "journal \<Rightarrow> string \<Rightarrow> string \<Rightarrow> string" where
  "redactHeaderValue j key v =
     (let header = js_lower key
      in if jn_preserveScheme j \<and> (header = ''authorization'' \<or> header = ''proxy-authorization'') then
           (case js_index_of '' '' v of
              Some i \<Rightarrow> if 0 < i then take i v @ '' '' @ REDACTED else REDACTED
            | None \<Rightarrow> REDACTED)
         else REDACTED)"

definition redactHeaderMap :: "journal \<Rightarrow> string list record_bag \<Rightarrow> string list record_bag" where
  "redactHeaderMap j headers =
     map (\<lambda>(key, vs). (key, if js_lower key \<in> set (jn_redactionHeaders j) then map (redactHeaderValue j key) vs else vs))
       headers"

definition redactCookieMap :: "journal \<Rightarrow> string record_bag \<Rightarrow> string record_bag" where
  "redactCookieMap j cookies =
     (if ''cookie'' \<notin> set (jn_redactionHeaders j) then cookies
      else map (\<lambda>(k, _). (k, REDACTED)) cookies)"

definition redactResponseCookies :: "journal \<Rightarrow> response_cookie list \<Rightarrow> response_cookie list" where
  "redactResponseCookies j cookies =
     (if length cookies = 0 then cookies
      else if ''set-cookie'' \<notin> set (jn_redactionHeaders j) then cookies
      else map (\<lambda>c. c\<lparr>ck_value := REDACTED\<rparr>) cookies)"

text \<open>The loop over the configured paths: the document and whether it changed.\<close>

fun redact_paths :: "string list \<Rightarrow> json \<Rightarrow> bool \<Rightarrow> json \<times> bool" where
  "redact_paths [] doc changed = (doc, changed)"
| "redact_paths (raw # raws) doc changed =
     (let path = js_trim raw
      in if path = [] \<or> js_includes path ''['' then redact_paths raws doc changed
         else if getByPath doc path = JUndef then redact_paths raws doc changed
         else redact_paths raws (setByPath doc path (JStr REDACTED)) True)"

definition redactJsonBody :: "js_host \<Rightarrow> journal \<Rightarrow> string option \<Rightarrow> string option" where
  "redactJsonBody h j body =
     (case body of
        None \<Rightarrow> None
      | Some b \<Rightarrow>
          (if length (jn_redactionJsonPaths j) = 0 then Some b
           else (case json_parse h b of
                   Some (JObj fs) \<Rightarrow>
                     (case redact_paths (jn_redactionJsonPaths j) (JObj fs) False of
                        (doc, changed) \<Rightarrow> if changed then Some (json_stringify h doc) else Some b)
                 | _ \<Rightarrow> Some b)))"

definition redactTransaction :: "js_host \<Rightarrow> journal \<Rightarrow> transaction \<Rightarrow> transaction" where
  "redactTransaction h j tx =
     tx\<lparr>tx_request := (tx_request tx)
          \<lparr>rq_headers := redactHeaderMap j (rq_headers (tx_request tx)),
           rq_cookies := redactCookieMap j (rq_cookies (tx_request tx)),
           rq_body := redactJsonBody h j (rq_body (tx_request tx))\<rparr>,
        tx_response := map_option (\<lambda>r. r
          \<lparr>rs_headers := redactHeaderMap j (rs_headers r),
           rs_cookies := redactResponseCookies j (rs_cookies r),
           rs_body := redactJsonBody h j (rs_body r)\<rparr>) (tx_response tx)\<rparr>"

section \<open>Truncation\<close>

text \<open>\<open>s.slice(0, n)\<close>; a negative end counts from the back.\<close>

definition js_slice_to :: "int \<Rightarrow> string \<Rightarrow> string" where
  "js_slice_to n s = (if 0 \<le> n then take (nat n) s else take (length s - nat (- n)) s)"

definition too_long :: "int \<Rightarrow> string option \<Rightarrow> bool" where
  "too_long n body = (case body of None \<Rightarrow> False | Some b \<Rightarrow> n < int (length b))"

definition cut_body :: "int \<Rightarrow> string option \<Rightarrow> string option" where
  "cut_body n body =
     (case body of None \<Rightarrow> None
      | Some b \<Rightarrow> if b \<noteq> [] \<and> n < int (length b) then Some (js_slice_to n b) else Some b)"

definition truncateBodies :: "int \<Rightarrow> transaction \<Rightarrow> transaction" where
  "truncateBodies n tx =
     tx\<lparr>tx_request := (tx_request tx)
          \<lparr>rq_body := cut_body n (rq_body (tx_request tx)),
           rq_bodyTruncated := rq_bodyTruncated (tx_request tx) \<or> too_long n (rq_body (tx_request tx))\<rparr>,
        tx_response := map_option (\<lambda>r. r
          \<lparr>rs_body := cut_body n (rs_body r),
           rs_bodyTruncated := rs_bodyTruncated r \<or> too_long n (rs_body r)\<rparr>) (tx_response tx)\<rparr>"

definition counts_as_truncation :: "int \<Rightarrow> transaction \<Rightarrow> bool" where
  "counts_as_truncation n tx =
     (too_long n (rq_body (tx_request tx)) \<or> too_long n (Option.bind (tx_response tx) rs_body))"

definition stored_form :: "js_host \<Rightarrow> journal \<Rightarrow> transaction \<Rightarrow> transaction" where
  "stored_form h j tx = truncateBodies (jn_maxBodyBytes j) (redactTransaction h j tx)"

section \<open>Operations\<close>

text \<open>An array store: in place, or just past the end. The journal never stores further out.\<close>

definition js_store :: "nat \<Rightarrow> 'a \<Rightarrow> 'a list \<Rightarrow> 'a list" where
  "js_store i x xs = take i xs @ [x] @ drop (Suc i) xs"

definition toOrdered :: "journal \<Rightarrow> transaction list" where
  "toOrdered j = map (\<lambda>i. jn_buffer j ! ((jn_head j + i) mod jn_maxEntries j)) [0..<jn_count j]"

definition flushToDisk :: "journal \<Rightarrow> journal" where
  "flushToDisk j =
     (if \<not> jn_persistToDisk j \<or> \<not> jn_persistFile j then j
      else j\<lparr>jn_disk := Some \<lparr>sn_cursor = jn_cursorCounter j, sn_transactions = toOrdered j,
                             sn_drops = jn_drops j, sn_truncations = jn_truncations j\<rparr>\<rparr>)"

text \<open>The ring step of \<open>append\<close>.\<close>

definition ring_store :: "journal \<Rightarrow> transaction \<Rightarrow> journal" where
  "ring_store j x =
     (if jn_count j < jn_maxEntries j then
        j\<lparr>jn_buffer := js_store ((jn_head j + jn_count j) mod jn_maxEntries j) x (jn_buffer j),
          jn_count := jn_count j + 1\<rparr>
      else
        j\<lparr>jn_drops := jn_drops j + 1,
          jn_buffer := js_store (jn_head j) x (jn_buffer j),
          jn_head := (jn_head j + 1) mod jn_maxEntries j\<rparr>)"

definition append :: "js_host \<Rightarrow> journal \<Rightarrow> transaction \<Rightarrow> nat \<times> journal" where
  "append h j tx =
     (let cursor = jn_cursorCounter j + 1;
          j1 = j\<lparr>jn_cursorCounter := cursor\<rparr>
      in if \<not> jn_journalEnabled j1 \<or> jn_maxEntries j1 = 0 then (cursor, j1)
         else
           (let redacted = redactTransaction h j1 tx;
                truncated = truncateBodies (jn_maxBodyBytes j1) redacted;
                j2 = (if counts_as_truncation (jn_maxBodyBytes j1) redacted
                      then j1\<lparr>jn_truncations := jn_truncations j1 + 1\<rparr> else j1)
            in (cursor, flushToDisk (ring_store j2 truncated))))"

definition restoreFromDisk :: "js_host \<Rightarrow> journal \<Rightarrow> journal" where
  "restoreFromDisk h j =
     (if \<not> jn_persistFile j \<or> jn_maxEntries j = 0 then j
      else (case jn_disk j of
              None \<Rightarrow> j
            | Some snap \<Rightarrow>
                (let txs = map (stored_form h j) (keep_last (jn_maxEntries j) (sn_transactions snap))
                 in flushToDisk (j\<lparr>jn_buffer := txs, jn_head := 0, jn_count := length txs,
                                   jn_cursorCounter := max (sn_cursor snap) (length txs),
                                   jn_drops := sn_drops snap, jn_truncations := sn_truncations snap\<rparr>))))"

definition new_journal :: "js_host \<Rightarrow> server_settings \<Rightarrow> bool \<Rightarrow> journal_snapshot option \<Rightarrow> journal" where
  "new_journal h settings persistFile disk =
     (let j = \<lparr>jn_buffer = [], jn_head = 0, jn_count = 0, jn_cursorCounter = 0,
               jn_maxEntries = nat (max 0 (min (js_maxEntries (ss_journal settings)) maxJournalEntries_ceiling)),
               jn_maxBodyBytes = min (js_maxCapturedBodyBytes (ss_journal settings)) maxCapturedBodyBytes_ceiling,
               jn_redactionHeaders = map js_lower (rd_headerNames (ss_redaction settings)),
               jn_redactionJsonPaths = rd_jsonPaths (ss_redaction settings),
               jn_preserveScheme = rd_preserveScheme (ss_redaction settings),
               jn_persistToDisk = (js_persistToDisk (ss_journal settings) \<and> persistFile),
               jn_journalEnabled = js_enabled (ss_journal settings), jn_persistFile = persistFile,
               jn_drops = 0, jn_truncations = 0, jn_disk = disk\<rparr>
      in if jn_persistToDisk j \<and> jn_journalEnabled j then restoreFromDisk h j else j)"

definition clear :: "journal \<Rightarrow> journal" where
  "clear j =
     (let j' = j\<lparr>jn_buffer := [], jn_head := 0, jn_count := 0, jn_drops := 0, jn_truncations := 0\<rparr>
      in if jn_persistToDisk j' then flushToDisk j'
         else if jn_persistFile j' then
           j'\<lparr>jn_disk := Some \<lparr>sn_cursor = jn_cursorCounter j', sn_transactions = [],
                              sn_drops = 0, sn_truncations = 0\<rparr>\<rparr>
         else j')"

text \<open>The stored entries are rewritten in place, each index once.\<close>

definition reapplyRedaction :: "js_host \<Rightarrow> journal \<Rightarrow> journal" where
  "reapplyRedaction h j =
     j\<lparr>jn_buffer := foldl (\<lambda>buf i. let idx = (jn_head j + i) mod jn_maxEntries j
                                   in js_store idx (stored_form h j (buf ! idx)) buf)
                     (jn_buffer j) [0..<jn_count j]\<rparr>"

definition updateSettings :: "js_host \<Rightarrow> journal \<Rightarrow> server_settings \<Rightarrow> journal" where
  "updateSettings h j settings =
     (let enabled = js_enabled (ss_journal settings);
          journalEnabling = (enabled \<and> \<not> jn_journalEnabled j);
          next = (js_persistToDisk (ss_journal settings) \<and> jn_persistFile j);
          persistEnabling = (next \<and> \<not> jn_persistToDisk j);
          j1 = j\<lparr>jn_redactionHeaders := map js_lower (rd_headerNames (ss_redaction settings)),
                 jn_redactionJsonPaths := rd_jsonPaths (ss_redaction settings),
                 jn_preserveScheme := rd_preserveScheme (ss_redaction settings),
                 jn_journalEnabled := enabled, jn_persistToDisk := next\<rparr>
      in if jn_journalEnabled j1 \<and> jn_persistToDisk j1 \<and> jn_count j1 = 0 \<and> (persistEnabling \<or> journalEnabling)
         then restoreFromDisk h j1
         else (let j2 = reapplyRedaction h j1 in if jn_persistToDisk j2 then flushToDisk j2 else j2))"

section \<open>Queries\<close>

record journal_query =
  qy_afterCursor :: "int option"
  qy_limit :: "int option"
  qy_methodFilter :: "string option"
  qy_pathFilter :: "string option"
  qy_outcomeFilter :: "string option"

record journal_page =
  pg_transactions :: "transaction list"
  pg_cursor :: nat
  pg_total :: nat
  pg_capped :: bool

fun outcome_name :: "outcome \<Rightarrow> string" where
  "outcome_name Out_matched = ''matched''"
| "outcome_name Out_ambiguous = ''ambiguous''"
| "outcome_name Out_unmatched = ''unmatched''"
| "outcome_name Out_fault = ''fault''"
| "outcome_name Out_error = ''error''"
| "outcome_name Out_proxied = ''proxied''"

definition opt_filter :: "string option \<Rightarrow> (string \<Rightarrow> 'a \<Rightarrow> bool) \<Rightarrow> 'a list \<Rightarrow> 'a list" where
  "opt_filter f P xs = (case f of None \<Rightarrow> xs | Some s \<Rightarrow> if s = [] then xs else filter (P s) xs)"

definition query_filter :: "journal_query \<Rightarrow> transaction list \<Rightarrow> transaction list" where
  "query_filter q txs =
     opt_filter (qy_outcomeFilter q) (\<lambda>s t. outcome_name (tx_outcome t) = s)
       (opt_filter (qy_pathFilter q) (\<lambda>s t. js_includes (js_lower (rq_path (tx_request t))) (js_lower s))
         (opt_filter (qy_methodFilter q) (\<lambda>s t. rq_method (tx_request t) = js_upper s) txs))"

definition query :: "journal \<Rightarrow> journal_query \<Rightarrow> journal_page" where
  "query j q =
     (let filtered = query_filter q (toOrdered j);
          maxPage = maxJournalEntries_ceiling;
          requested = (case qy_limit q of Some l \<Rightarrow> if 0 \<le> l then l else maxPage | None \<Rightarrow> maxPage);
          limit = nat (min requested maxPage);
          startIdx = (case qy_afterCursor q of
              None \<Rightarrow> 0
            | Some c \<Rightarrow>
                (if c = 0 then 0
                 else (case js_find_index (\<lambda>i. c \<le> int i) [0..<length filtered] of
                         None \<Rightarrow> length filtered | Some i \<Rightarrow> i)))
      in \<lparr>pg_transactions = take limit (drop startIdx filtered), pg_cursor = jn_cursorCounter j,
          pg_total = jn_count j, pg_capped = (jn_maxEntries j \<le> jn_count j \<and> 0 < jn_maxEntries j)\<rparr>)"

section \<open>The ring\<close>

text \<open>Until the ring is full it is filled from index zero; then its length is the bound.\<close>

definition journal_inv :: "journal \<Rightarrow> bool" where
  "journal_inv j =
     (jn_count j \<le> jn_maxEntries j \<and> length (jn_buffer j) = jn_count j \<and>
      (jn_count j < jn_maxEntries j \<longrightarrow> jn_head j = 0) \<and>
      (0 < jn_maxEntries j \<longrightarrow> jn_head j < jn_maxEntries j))"

lemma js_store_end [simp]: "length xs = n \<Longrightarrow> js_store n x xs = xs @ [x]"
  by (simp add: js_store_def)

lemma js_store_update: "i < length xs \<Longrightarrow> js_store i x xs = xs[i := x]"
  by (simp add: js_store_def upd_conv_take_nth_drop)

lemma length_toOrdered [simp]: "length (toOrdered j) = jn_count j"
  by (simp add: toOrdered_def)

lemma toOrdered_rotate:
  assumes "journal_inv j" and "0 < jn_maxEntries j"
  shows "toOrdered j = rotate (jn_head j) (jn_buffer j)"
proof (rule nth_equalityI)
  show "length (toOrdered j) = length (rotate (jn_head j) (jn_buffer j))"
    using assms by (simp add: journal_inv_def)
  fix i assume i: "i < length (toOrdered j)"
  show "toOrdered j ! i = rotate (jn_head j) (jn_buffer j) ! i"
  proof (cases "jn_count j < jn_maxEntries j")
    case True
    with assms i show ?thesis by (simp add: toOrdered_def journal_inv_def)
  next
    case False
    with assms i show ?thesis by (simp add: toOrdered_def journal_inv_def nth_rotate)
  qed
qed

lemma rotate_store:
  assumes "h < length xs"
  shows "rotate ((h + 1) mod length xs) (xs[h := x]) = tl (rotate h xs) @ [x]"
proof -
  have "rotate (h + 1) (xs[h := x]) = rotate1 (rotate h (xs[h := x]))" by simp
  also have "rotate h (xs[h := x]) = drop h (xs[h := x]) @ take h (xs[h := x])"
    using assms by (simp add: rotate_drop_take)
  also have "\<dots> = x # drop (Suc h) xs @ take h xs"
    using assms by (simp add: drop_update_swap take_update_cancel Cons_nth_drop_Suc [symmetric] drop_update_cancel)
  finally have "rotate (h + 1) (xs[h := x]) = drop (Suc h) xs @ take h xs @ [x]" by simp
  moreover have "tl (rotate h xs) = drop (Suc h) xs @ take h xs"
    using assms by (simp add: rotate_drop_take Cons_nth_drop_Suc [symmetric])
  moreover have "rotate ((h + 1) mod length xs) (xs[h := x]) = rotate (h + 1) (xs[h := x])"
    using rotate_conv_mod [of "h + 1" "xs[h := x]"] by simp
  ultimately show ?thesis by simp
qed

lemma ring_store_inv [inv_intros]: "journal_inv j \<Longrightarrow> 0 < jn_maxEntries j \<Longrightarrow> journal_inv (ring_store j x)"
  by (auto simp: journal_inv_def ring_store_def js_store_def)

lemma ring_store_contents:
  assumes "journal_inv j" and "0 < jn_maxEntries j"
  shows "toOrdered (ring_store j x) = keep_last (jn_maxEntries j) (toOrdered j @ [x])"
proof -
  have inv: "journal_inv (ring_store j x)" by (rule ring_store_inv [OF assms])
  have bound: "jn_maxEntries (ring_store j x) = jn_maxEntries j" by (simp add: ring_store_def)
  note rot = toOrdered_rotate [OF inv, unfolded bound, OF assms(2)] toOrdered_rotate [OF assms]
  show ?thesis
  proof (cases "jn_count j < jn_maxEntries j")
    case True
    with assms show ?thesis unfolding rot by (simp add: ring_store_def journal_inv_def)
  next
    case False
    with assms have full: "jn_count j = jn_maxEntries j" "length (jn_buffer j) = jn_maxEntries j"
      "jn_head j < jn_maxEntries j"
      by (auto simp: journal_inv_def)
    have "toOrdered (ring_store j x) = tl (toOrdered j) @ [x]"
      using rotate_store [of "jn_head j" "jn_buffer j" x] full unfolding rot
      by (simp add: ring_store_def js_store_update)
    moreover have "length (toOrdered j) = jn_maxEntries j" using full by simp
    ultimately show ?thesis using assms(2) by (simp add: keep_last_full)
  qed
qed

interpretation ring: bounded_window toOrdered ring_store jn_maxEntries
  "\<lambda>j. journal_inv j \<and> 0 < jn_maxEntries j"
proof unfold_locales
  fix j x assume j: "journal_inv j \<and> 0 < jn_maxEntries j"
  show "jn_maxEntries (ring_store j x) = jn_maxEntries j" by (simp add: ring_store_def)
  with j show "journal_inv (ring_store j x) \<and> 0 < jn_maxEntries (ring_store j x)" by (simp add: ring_store_inv)
  show "toOrdered (ring_store j x) = keep_last (jn_maxEntries j) (toOrdered j @ [x])"
    using j by (simp add: ring_store_contents)
  show "length (toOrdered j) \<le> jn_maxEntries j" using j by (simp add: journal_inv_def)
qed

section \<open>Operations keep the ring\<close>

lemma flushToDisk_fields [simp]:
  "toOrdered (flushToDisk j) = toOrdered j" "journal_inv (flushToDisk j) = journal_inv j"
  "jn_maxEntries (flushToDisk j) = jn_maxEntries j" "jn_count (flushToDisk j) = jn_count j"
  "jn_cursorCounter (flushToDisk j) = jn_cursorCounter j" "jn_journalEnabled (flushToDisk j) = jn_journalEnabled j"
  "jn_redactionHeaders (flushToDisk j) = jn_redactionHeaders j"
  "jn_redactionJsonPaths (flushToDisk j) = jn_redactionJsonPaths j"
  "jn_preserveScheme (flushToDisk j) = jn_preserveScheme j" "jn_maxBodyBytes (flushToDisk j) = jn_maxBodyBytes j"
  by (simp_all add: flushToDisk_def toOrdered_def journal_inv_def)

lemma ring_store_fields [simp]:
  "jn_maxEntries (ring_store j x) = jn_maxEntries j"
  "jn_cursorCounter (ring_store j x) = jn_cursorCounter j" "jn_journalEnabled (ring_store j x) = jn_journalEnabled j"
  "jn_redactionHeaders (ring_store j x) = jn_redactionHeaders j"
  "jn_redactionJsonPaths (ring_store j x) = jn_redactionJsonPaths j"
  "jn_preserveScheme (ring_store j x) = jn_preserveScheme j" "jn_maxBodyBytes (ring_store j x) = jn_maxBodyBytes j"
  by (simp_all add: ring_store_def)

text \<open>What redaction and truncation read of the journal's settings.\<close>

definition same_settings :: "journal \<Rightarrow> journal \<Rightarrow> bool" where
  "same_settings j k =
     (jn_redactionHeaders j = jn_redactionHeaders k \<and> jn_redactionJsonPaths j = jn_redactionJsonPaths k \<and>
      jn_preserveScheme j = jn_preserveScheme k \<and> jn_maxBodyBytes j = jn_maxBodyBytes k)"

lemma redactTransaction_same: "same_settings j k \<Longrightarrow> redactTransaction h j = redactTransaction h k"
proof -
  assume "same_settings j k"
  then have s: "jn_redactionHeaders j = jn_redactionHeaders k" "jn_redactionJsonPaths j = jn_redactionJsonPaths k"
    "jn_preserveScheme j = jn_preserveScheme k"
    by (simp_all add: same_settings_def)
  have v: "redactHeaderValue j = redactHeaderValue k"
    by (intro ext) (unfold redactHeaderValue_def s, rule refl)
  have "redactHeaderMap j = redactHeaderMap k"
    by (intro ext) (unfold redactHeaderMap_def s v, rule refl)
  moreover have "redactCookieMap j = redactCookieMap k"
    by (intro ext) (unfold redactCookieMap_def s, rule refl)
  moreover have "redactResponseCookies j = redactResponseCookies k"
    by (intro ext) (unfold redactResponseCookies_def s, rule refl)
  moreover have "redactJsonBody h j = redactJsonBody h k"
    by (intro ext) (unfold redactJsonBody_def s, rule refl)
  ultimately show ?thesis by (intro ext) (simp only: redactTransaction_def)
qed

lemma stored_form_same: "same_settings j k \<Longrightarrow> stored_form h j = stored_form h k"
  using redactTransaction_same [of j k h] by (intro ext) (simp add: stored_form_def same_settings_def)

lemma append_fst: "fst (append h j tx) = jn_cursorCounter j + 1"
  by (simp add: append_def Let_def)

lemma append_keeps:
  "jn_maxEntries (snd (append h j tx)) = jn_maxEntries j"
  "jn_journalEnabled (snd (append h j tx)) = jn_journalEnabled j"
  "jn_cursorCounter (snd (append h j tx)) = jn_cursorCounter j + 1"
  "same_settings (snd (append h j tx)) j"
  by (simp_all add: append_def Let_def same_settings_def)

lemma append_idle:
  "\<not> jn_journalEnabled j \<or> jn_maxEntries j = 0 \<Longrightarrow>
     toOrdered (snd (append h j tx)) = toOrdered j \<and> journal_inv (snd (append h j tx)) = journal_inv j"
  by (auto simp: append_def Let_def toOrdered_def journal_inv_def)

lemma append_active:
  assumes "jn_journalEnabled j" and "0 < jn_maxEntries j"
  shows "\<exists>k. snd (append h j tx) = flushToDisk (ring_store k (stored_form h j tx)) \<and>
    jn_buffer k = jn_buffer j \<and> jn_head k = jn_head j \<and> jn_count k = jn_count j \<and> jn_maxEntries k = jn_maxEntries j"
proof -
  define j1 where "j1 = j\<lparr>jn_cursorCounter := jn_cursorCounter j + 1\<rparr>"
  define r where "r = redactTransaction h j1 tx"
  define k where "k = (if counts_as_truncation (jn_maxBodyBytes j1) r
      then j1\<lparr>jn_truncations := jn_truncations j1 + 1\<rparr> else j1)"
  have "redactTransaction h j1 = redactTransaction h j"
    by (rule redactTransaction_same) (simp add: same_settings_def j1_def)
  then have "truncateBodies (jn_maxBodyBytes j1) r = stored_form h j tx"
    by (simp add: r_def stored_form_def j1_def)
  moreover have "snd (append h j tx) = flushToDisk (ring_store k (truncateBodies (jn_maxBodyBytes j1) r))"
  proof -
    have "jn_journalEnabled j1" "jn_maxEntries j1 \<noteq> 0" using assms by (simp_all add: j1_def)
    then show ?thesis
      unfolding append_def Let_def j1_def [symmetric] r_def [symmetric] k_def [symmetric] by simp
  qed
  moreover have "jn_buffer k = jn_buffer j" "jn_head k = jn_head j" "jn_count k = jn_count j" "jn_maxEntries k = jn_maxEntries j"
    by (simp_all add: k_def j1_def)
  ultimately show ?thesis by metis
qed

lemma append_inv [inv_intros]: "journal_inv j \<Longrightarrow> journal_inv (snd (append h j tx))"
proof (cases "jn_journalEnabled j \<and> 0 < jn_maxEntries j")
  case True
  assume j: "journal_inv j"
  from True obtain k where k: "snd (append h j tx) = flushToDisk (ring_store k (stored_form h j tx))"
    "jn_buffer k = jn_buffer j" "jn_head k = jn_head j" "jn_count k = jn_count j" "jn_maxEntries k = jn_maxEntries j"
    using append_active [of j h tx] by auto
  with j have "journal_inv k" by (simp add: journal_inv_def)
  with True k show ?thesis by (simp add: ring_store_inv)
qed (use append_idle [of j h tx] in auto)

lemma append_contents:
  assumes "journal_inv j" and "jn_journalEnabled j" and "0 < jn_maxEntries j"
  shows "toOrdered (snd (append h j tx)) = keep_last (jn_maxEntries j) (toOrdered j @ [stored_form h j tx])"
proof -
  obtain k where k: "snd (append h j tx) = flushToDisk (ring_store k (stored_form h j tx))"
    "jn_buffer k = jn_buffer j" "jn_head k = jn_head j" "jn_count k = jn_count j" "jn_maxEntries k = jn_maxEntries j"
    using append_active [OF assms(2,3), of h tx] by auto
  with assms(1) have "journal_inv k" "toOrdered k = toOrdered j"
    by (simp_all add: journal_inv_def toOrdered_def)
  with k assms(3) show ?thesis by (simp add: ring.push_contents)
qed

definition append_all :: "js_host \<Rightarrow> journal \<Rightarrow> transaction list \<Rightarrow> journal" where
  "append_all h j txs = foldl (\<lambda>j tx. snd (append h j tx)) j txs"

lemma append_all_contents:
  "journal_inv j \<Longrightarrow> jn_journalEnabled j \<Longrightarrow> 0 < jn_maxEntries j \<Longrightarrow>
     toOrdered (append_all h j txs) = keep_last (jn_maxEntries j) (toOrdered j @ map (stored_form h j) txs) \<and>
     jn_cursorCounter (append_all h j txs) = jn_cursorCounter j + length txs \<and>
     journal_inv (append_all h j txs) \<and> jn_maxEntries (append_all h j txs) = jn_maxEntries j"
proof (induction txs arbitrary: j)
  case Nil
  then have "length (toOrdered j) \<le> jn_maxEntries j" by (simp add: journal_inv_def)
  with Nil show ?case by (simp add: append_all_def)
next
  case (Cons tx txs)
  let ?j = "snd (append h j tx)"
  have "stored_form h ?j = stored_form h j" by (rule stored_form_same) (rule append_keeps)
  then show ?case
    using Cons.IH [of ?j] Cons.prems
    by (simp add: append_all_def append_keeps append_inv append_contents keep_last_append)
qed

text \<open>C20. After any run of transactions an enabled journal of positive capacity holds exactly the most recent ones, oldest
first, each redacted and truncated, and its cursor has counted every one of them.\<close>

theorem journal_keeps_most_recent:
  assumes "journal_inv j" and "jn_journalEnabled j" and "0 < jn_maxEntries j"
  shows "toOrdered (append_all h j txs) = keep_last (jn_maxEntries j) (toOrdered j @ map (stored_form h j) txs) \<and>
         jn_cursorCounter (append_all h j txs) = jn_cursorCounter j + length txs \<and>
         length (toOrdered (append_all h j txs)) \<le> jn_maxEntries j"
  using append_all_contents [OF assms, of h txs] by simp

lemma new_journal_sample:
  "new_journal h sample_settings False None =
     \<lparr>jn_buffer = [], jn_head = 0, jn_count = 0, jn_cursorCounter = 0, jn_maxEntries = 2, jn_maxBodyBytes = 8,
      jn_redactionHeaders = [], jn_redactionJsonPaths = [], jn_preserveScheme = False, jn_persistToDisk = False,
      jn_journalEnabled = True, jn_persistFile = False, jn_drops = 0, jn_truncations = 0, jn_disk = None\<rparr>"
  by (simp add: new_journal_def sample_settings_def maxJournalEntries_ceiling_def maxCapturedBodyBytes_ceiling_def)

definition sample_transaction :: "string \<Rightarrow> transaction" where
  "sample_transaction path =
     \<lparr>tx_id = path, tx_serverId = ''s'', tx_generation = 1, tx_request = sample_request path,
      tx_response = None, tx_outcome = Out_matched, tx_matchedRouteId = None, tx_matchedResponseId = None\<rparr>"

theorem journal_keeps_most_recent_witness:
  "toOrdered (append_all sample_host (new_journal sample_host sample_settings False None)
       [sample_transaction ''/a'', sample_transaction ''/b'', sample_transaction ''/c'']) =
     [stored_form sample_host (new_journal sample_host sample_settings False None) (sample_transaction ''/b''),
      stored_form sample_host (new_journal sample_host sample_settings False None) (sample_transaction ''/c'')]"
  using journal_keeps_most_recent [of "new_journal sample_host sample_settings False None" sample_host
      "[sample_transaction ''/a'', sample_transaction ''/b'', sample_transaction ''/c'']"]
  by (simp add: new_journal_sample journal_inv_def toOrdered_def keep_last_def)

section \<open>All operations\<close>

datatype journal_op = J_append transaction | J_clear | J_update server_settings

fun journal_step :: "js_host \<Rightarrow> journal \<Rightarrow> journal_op \<Rightarrow> journal" where
  "journal_step h j (J_append tx) = snd (append h j tx)"
| "journal_step h j J_clear = clear j"
| "journal_step h j (J_update settings) = updateSettings h j settings"

lemma clear_inv [inv_intros]: "journal_inv j \<Longrightarrow> journal_inv (clear j)"
  by (auto simp: clear_def Let_def journal_inv_def flushToDisk_def)

lemma restore_inv [inv_intros]: "journal_inv j \<Longrightarrow> journal_inv (restoreFromDisk h j)"
  by (cases "jn_disk j") (simp_all add: restoreFromDisk_def Let_def, simp add: journal_inv_def)

lemma restore_maxEntries [simp]: "jn_maxEntries (restoreFromDisk h j) = jn_maxEntries j"
  by (cases "jn_disk j") (simp_all add: restoreFromDisk_def Let_def)

lemma ring_index: "journal_inv j \<Longrightarrow> i < jn_count j \<Longrightarrow> (jn_head j + i) mod jn_maxEntries j < length (jn_buffer j)"
  by (cases "jn_count j < jn_maxEntries j") (auto simp: journal_inv_def)

lemma ring_index_inj:
  assumes "journal_inv j" "i < jn_count j" "k < jn_count j"
    and "(jn_head j + i) mod jn_maxEntries j = (jn_head j + k) mod jn_maxEntries j"
  shows "i = k"
proof (cases "jn_count j < jn_maxEntries j")
  case True
  with assms show ?thesis by (simp add: journal_inv_def)
next
  case False
  with assms(1,2) have "jn_count j = jn_maxEntries j" "jn_head j < jn_maxEntries j"
    by (auto simp: journal_inv_def)
  with assms(2-4) show ?thesis by (auto simp: mod_if split: if_splits)
qed

text \<open>Rewriting entries in place at distinct indices.\<close>

lemma foldl_store:
  "distinct ks \<Longrightarrow> \<forall>k\<in>set ks. k < length xs \<Longrightarrow>
   length (foldl (\<lambda>buf k. js_store k (f (buf ! k)) buf) xs ks) = length xs \<and>
   (\<forall>n<length xs. foldl (\<lambda>buf k. js_store k (f (buf ! k)) buf) xs ks ! n = (if n \<in> set ks then f (xs ! n) else xs ! n))"
  by (induction ks arbitrary: xs) (auto simp: js_store_update nth_list_update)

lemma reapply_buffer:
  assumes "journal_inv j"
  shows "length (jn_buffer (reapplyRedaction h j)) = length (jn_buffer j) \<and>
    toOrdered (reapplyRedaction h j) = map (stored_form h j) (toOrdered j)"
proof -
  define ks where "ks = map (\<lambda>i. (jn_head j + i) mod jn_maxEntries j) [0..<jn_count j]"
  have d: "distinct ks"
    using ring_index_inj [OF assms] by (auto simp: ks_def distinct_map inj_on_def)
  have b: "\<forall>k\<in>set ks. k < length (jn_buffer j)"
    using ring_index [OF assms] by (auto simp: ks_def)
  have buf: "jn_buffer (reapplyRedaction h j) =
      foldl (\<lambda>buf k. js_store k (stored_form h j (buf ! k)) buf) (jn_buffer j) ks"
    by (simp add: reapplyRedaction_def ks_def foldl_map Let_def)
  have rest: "jn_head (reapplyRedaction h j) = jn_head j" "jn_count (reapplyRedaction h j) = jn_count j"
    "jn_maxEntries (reapplyRedaction h j) = jn_maxEntries j"
    by (simp_all add: reapplyRedaction_def)
  note fs = foldl_store [OF d b, of "stored_form h j", folded buf]
  have "toOrdered (reapplyRedaction h j) = map (stored_form h j) (toOrdered j)"
    using fs ring_index [OF assms]
    by (auto simp: toOrdered_def rest ks_def)
  with fs show ?thesis by simp
qed

lemma reapply_inv [inv_intros]: "journal_inv j \<Longrightarrow> journal_inv (reapplyRedaction h j)"
  using reapply_buffer [of j h] by (simp add: journal_inv_def) (simp add: reapplyRedaction_def)

lemma update_inv [inv_intros]: "journal_inv j \<Longrightarrow> journal_inv (updateSettings h j settings)"
proof -
  assume j: "journal_inv j"
  define j1 where "j1 = j\<lparr>jn_redactionHeaders := map js_lower (rd_headerNames (ss_redaction settings)),
                 jn_redactionJsonPaths := rd_jsonPaths (ss_redaction settings),
                 jn_preserveScheme := rd_preserveScheme (ss_redaction settings),
                 jn_journalEnabled := js_enabled (ss_journal settings),
                 jn_persistToDisk := js_persistToDisk (ss_journal settings) \<and> jn_persistFile j\<rparr>"
  have j1: "journal_inv j1" using j by (simp add: j1_def journal_inv_def)
  show ?thesis
    using restore_inv [OF j1] reapply_inv [OF j1]
    unfolding updateSettings_def Let_def j1_def [symmetric] by simp
qed

lemma journal_step_maxEntries: "jn_maxEntries (journal_step h j e) = jn_maxEntries j"
  by (cases e) (simp_all add: append_keeps clear_def flushToDisk_def updateSettings_def reapplyRedaction_def Let_def)

lemma new_journal_inv: "journal_inv (new_journal h settings pf disk) \<and> jn_maxEntries (new_journal h settings pf disk) \<le> 500"
proof -
  define j where "j = \<lparr>jn_buffer = [], jn_head = 0, jn_count = 0, jn_cursorCounter = 0,
               jn_maxEntries = nat (max 0 (min (js_maxEntries (ss_journal settings)) maxJournalEntries_ceiling)),
               jn_maxBodyBytes = min (js_maxCapturedBodyBytes (ss_journal settings)) maxCapturedBodyBytes_ceiling,
               jn_redactionHeaders = map js_lower (rd_headerNames (ss_redaction settings)),
               jn_redactionJsonPaths = rd_jsonPaths (ss_redaction settings),
               jn_preserveScheme = rd_preserveScheme (ss_redaction settings),
               jn_persistToDisk = (js_persistToDisk (ss_journal settings) \<and> pf),
               jn_journalEnabled = js_enabled (ss_journal settings), jn_persistFile = pf,
               jn_drops = 0, jn_truncations = 0, jn_disk = disk\<rparr>"
  have j: "journal_inv j" "jn_maxEntries j \<le> 500"
    by (auto simp: j_def journal_inv_def maxJournalEntries_ceiling_def min_def)
  with restore_inv [OF j(1)] show ?thesis
    unfolding new_journal_def Let_def j_def [symmetric] by simp
qed

interpretation journal_ops: state_machine "journal_step h" "\<lambda>j. journal_inv j \<and> jn_maxEntries j \<le> 500" for h
proof unfold_locales
  fix j e assume "journal_inv j \<and> jn_maxEntries j \<le> 500"
  then show "journal_inv (journal_step h j e) \<and> jn_maxEntries (journal_step h j e) \<le> 500"
    by (cases e) (simp_all add: journal_step_maxEntries append_inv clear_inv update_inv del: journal_step.simps, simp_all add: append_inv clear_inv update_inv)
qed

text \<open>Whatever sequence of appends, clears and settings changes a journal goes through, its ring
stays well formed and it never holds more than the hard ceiling of 500 entries.\<close>

theorem journal_always_bounded:
  "journal_inv (foldl (journal_step h) (new_journal h settings pf disk) ops) \<and>
   length (toOrdered (foldl (journal_step h) (new_journal h settings pf disk) ops)) \<le> 500"
  using journal_ops.run_ok [of "new_journal h settings pf disk" h ops] new_journal_inv [of h settings pf disk]
  by (auto simp: journal_inv_def)

section \<open>Secrets\<close>

definition redacted_text :: "journal \<Rightarrow> string \<Rightarrow> string \<Rightarrow> bool" where
  "redacted_text j key v =
     (v = REDACTED \<or>
      (\<exists>scheme. v = scheme @ '' '' @ REDACTED \<and> CHR '' '' \<notin> set scheme \<and> jn_preserveScheme j \<and>
                js_lower key \<in> {''authorization'', ''proxy-authorization''}))"

lemma js_index_of_space: "js_index_of '' '' v = Some i \<Longrightarrow> CHR '' '' \<notin> set (take i v)"
proof (induction v arbitrary: i)
  case (Cons c v)
  then show ?case by (auto split: if_splits simp: prefix_Cons take_Cons split: nat.splits)
qed (simp split: if_splits)

lemma redactHeaderValue_redacted: "redacted_text j key (redactHeaderValue j key v)"
  using js_index_of_space [of v]
  by (auto simp: redacted_text_def redactHeaderValue_def Let_def split: option.splits)

lemma redactHeaderMap_redacted:
  "(key, vs) \<in> set (redactHeaderMap j hs) \<Longrightarrow> js_lower key \<in> set (jn_redactionHeaders j) \<Longrightarrow>
     \<forall>v\<in>set vs. redacted_text j key v"
  by (auto simp: redactHeaderMap_def redactHeaderValue_redacted)

lemma cut_body_length: "0 \<le> n \<Longrightarrow> cut_body n body = Some b \<Longrightarrow> int (length b) \<le> n"
  by (auto simp: cut_body_def js_slice_to_def split: option.splits if_splits)

lemma stored_form_fields:
  "rq_headers (tx_request (stored_form h j tx)) = redactHeaderMap j (rq_headers (tx_request tx))"
  "rq_body (tx_request (stored_form h j tx)) =
     cut_body (jn_maxBodyBytes j) (redactJsonBody h j (rq_body (tx_request tx)))"
  "tx_response (stored_form h j tx) = map_option (\<lambda>r. r
      \<lparr>rs_headers := redactHeaderMap j (rs_headers r), rs_cookies := redactResponseCookies j (rs_cookies r),
       rs_body := cut_body (jn_maxBodyBytes j) (redactJsonBody h j (rs_body r)),
       rs_bodyTruncated := rs_bodyTruncated r \<or> too_long (jn_maxBodyBytes j) (redactJsonBody h j (rs_body r))\<rparr>) (tx_response tx)"
  by (simp_all add: stored_form_def truncateBodies_def redactTransaction_def option.map_comp o_def)

text \<open>C21. What the journal stores of a transaction shows no secret header: every value of a
configured header, in the request and in the response, is the redaction mark, at most preceded
by the scheme of an authorization header when schemes are preserved. Bodies are cut to the
configured size.\<close>

theorem stored_headers_redacted:
  assumes "0 \<le> jn_maxBodyBytes j"
  shows "(\<forall>key vs v. (key, vs) \<in> set (rq_headers (tx_request (stored_form h j tx))) \<longrightarrow>
            js_lower key \<in> set (jn_redactionHeaders j) \<longrightarrow> v \<in> set vs \<longrightarrow> redacted_text j key v) \<and>
         (\<forall>r key vs v. tx_response (stored_form h j tx) = Some r \<longrightarrow> (key, vs) \<in> set (rs_headers r) \<longrightarrow>
            js_lower key \<in> set (jn_redactionHeaders j) \<longrightarrow> v \<in> set vs \<longrightarrow> redacted_text j key v) \<and>
         (\<forall>b. rq_body (tx_request (stored_form h j tx)) = Some b \<longrightarrow> int (length b) \<le> jn_maxBodyBytes j) \<and>
         (\<forall>r b. tx_response (stored_form h j tx) = Some r \<longrightarrow> rs_body r = Some b \<longrightarrow> int (length b) \<le> jn_maxBodyBytes j)"
  using redactHeaderMap_redacted [of _ _ j] cut_body_length [OF assms]
  unfolding stored_form_fields by (auto simp del: redactHeaderMap_def)

lemma cookie_lower: "js_lower ''Cookie'' = ''cookie''"
  by code_simp

theorem stored_headers_redacted_witness:
  "redacted_text ((new_journal sample_host sample_settings False None)\<lparr>jn_redactionHeaders := [''cookie'']\<rparr>) ''Cookie''
     (redactHeaderValue ((new_journal sample_host sample_settings False None)\<lparr>jn_redactionHeaders := [''cookie'']\<rparr>) ''Cookie'' ''sid=1'')"
  using stored_headers_redacted [of "(new_journal sample_host sample_settings False None)\<lparr>jn_redactionHeaders := [''cookie'']\<rparr>"
      sample_host "(sample_transaction ''/a'')\<lparr>tx_request := (sample_request ''/a'')\<lparr>rq_headers := [(''Cookie'', [''sid=1''])]\<rparr>\<rparr>"]
    cookie_lower
  by (simp add: new_journal_sample stored_form_fields redactHeaderMap_def)

lemma redact_single_path:
  assumes "getByPath doc (js_trim raw) \<noteq> JUndef" and "js_trim raw \<noteq> []" and "\<not> js_includes (js_trim raw) ''[''"
  shows "redact_paths [raw] doc False = (setByPath doc (js_trim raw) (JStr REDACTED), True)"
  using assms by (simp add: Let_def)

text \<open>A configured JSON path is redacted in what is stored: when the body is an object that has
a value at the path, the stored body parses to a document whose value there is the redaction
mark. The path is one of plain property names (none of the three the setter refuses) through
objects; the hypothesis on the host says that serialising the redacted document and parsing
it again gives that document.\<close>

theorem json_path_redacted:
  assumes "jn_redactionJsonPaths j = [path]" and "js_trim path = path"
    and "stripJsonPathPrefix path = dotted keys" and "keys \<noteq> []" and "\<forall>k\<in>set keys. plain_key k"
    and "path \<noteq> []" and "\<not> js_includes path ''[''"
    and "json_parse h body = Some (JObj fs)" and "object_path (JObj fs) keys"
    and "getByPath (JObj fs) path \<noteq> JUndef"
    and "json_parse h (json_stringify h (setByPath (JObj fs) path (JStr REDACTED))) =
           Some (setByPath (JObj fs) path (JStr REDACTED))"
  shows "\<exists>stored doc. redactJsonBody h j (Some body) = Some stored \<and> json_parse h stored = Some doc \<and>
           getByPath doc path = JStr REDACTED"
proof -
  have "redact_paths [path] (JObj fs) False = (setByPath (JObj fs) path (JStr REDACTED), True)"
    using redact_single_path [of "JObj fs" path] assms by simp
  then have "redactJsonBody h j (Some body) = Some (json_stringify h (setByPath (JObj fs) path (JStr REDACTED)))"
    using assms(1,8) by (simp add: redactJsonBody_def)
  with assms(11) get_set_by_path [OF assms(4,5,9,3)] show ?thesis by blast
qed

definition secret_host :: js_host where
  "secret_host = sample_host
     \<lparr>json_parse := (\<lambda>s. if s = ''in'' then Some (JObj [(''pin'', JStr ''1234'')])
                        else if s = ''out'' then Some (JObj [(''pin'', JStr REDACTED)]) else None),
      json_stringify := (\<lambda>v. ''out'')\<rparr>"

theorem json_path_redacted_witness:
  "\<exists>stored doc. redactJsonBody secret_host
       ((new_journal sample_host sample_settings False None)\<lparr>jn_redactionJsonPaths := [''$.pin'']\<rparr>) (Some ''in'') = Some stored \<and>
     json_parse secret_host stored = Some doc \<and> getByPath doc ''$.pin'' = JStr REDACTED"
proof (rule json_path_redacted [where keys = "[''pin'']" and fs = "[(''pin'', JStr ''1234'')]"])
  have set: "setByPath (JObj [(''pin'', JStr ''1234'')]) ''$.pin'' (JStr REDACTED) = JObj [(''pin'', JStr REDACTED)]"
    by code_simp
  show "json_parse secret_host (json_stringify secret_host (setByPath (JObj [(''pin'', JStr ''1234'')]) ''$.pin'' (JStr REDACTED))) =
      Some (setByPath (JObj [(''pin'', JStr ''1234'')]) ''$.pin'' (JStr REDACTED))"
    unfolding set by (simp add: secret_host_def)
qed (simp_all add: new_journal_sample secret_host_def, code_simp+)

text \<open>The setter's safety list defeats the redaction: a path through a property with one of the
refused names leaves the body's secret in the journal, although the path has a value.\<close>

theorem unsafe_path_not_redacted:
  assumes "k \<in> set UNSAFE_KEYS" and "jn_redactionJsonPaths j = [k]"
    and "json_parse h body = Some (JObj fs)" and "json_stringify h (JObj fs) = body"
  shows "redactJsonBody h j (Some body) = Some body"
proof -
  have k: "k \<in> {''__proto__'', ''prototype'', ''constructor''}" using assms(1) by (simp add: UNSAFE_KEYS_def)
  have t: "js_trim k = k" "k \<noteq> []" "\<not> js_includes k ''[''" "stripJsonPathPrefix k = k" "js_split CHR ''.'' k = [k]"
    using k by (elim insertE emptyE; simp; code_simp)+
  have "setByPath (JObj fs) k (JStr REDACTED) = JObj fs"
    using assms(1) by (simp add: setByPath_def Let_def t)
  with assms t show ?thesis by (simp add: redactJsonBody_def Let_def)
qed

section \<open>Polling\<close>

lemma js_find_index_upt:
  "js_find_index (\<lambda>i. c \<le> int i) [m..<n] = (if int n \<le> c \<or> n \<le> m then None else Some (nat (c - int m)))"
proof (induction "n - m" arbitrary: m)
  case (Suc d)
  then have m: "m < n" "[m..<n] = m # [Suc m..<n]" by (auto simp: upt_conv_Cons)
  show ?case
  proof (cases "c \<le> int m")
    case True
    with m show ?thesis by simp
  next
    case False
    with m Suc(1) [of "Suc m"] Suc(2) show ?thesis
      by (auto simp: nat_diff_distrib' Suc_nat_eq_nat_zadd1)
  qed
qed simp

definition poll :: "int \<Rightarrow> journal_query" where
  "poll c = \<lparr>qy_afterCursor = Some c, qy_limit = None, qy_methodFilter = None, qy_pathFilter = None,
             qy_outcomeFilter = None\<rparr>"

lemma poll_page:
  "journal_inv j \<Longrightarrow> jn_maxEntries j \<le> 500 \<Longrightarrow> 0 \<le> c \<Longrightarrow>
     pg_transactions (query j (poll c)) = drop (nat c) (toOrdered j)"
  by (auto simp: query_def poll_def query_filter_def opt_filter_def Let_def js_find_index_upt
      maxJournalEntries_ceiling_def journal_inv_def)

text \<open>Polling with the cursor a page returned stops working once the cursor has reached the
capacity: however many transactions arrive afterwards, the next page is empty. The query
compares the cursor, which counts every transaction ever appended, with positions in the
list of those still held.\<close>

theorem polling_stalls:
  assumes "journal_inv j" and "jn_journalEnabled j" and "0 < jn_maxEntries j" and "jn_maxEntries j \<le> 500"
    and "cursor = pg_cursor (query j q)" and "jn_maxEntries j \<le> cursor"
  shows "pg_transactions (query (append_all h j txs) (poll (int cursor))) = []"
  using append_all_contents [OF assms(1-3), of h txs] assms(4-6)
  by (auto simp: poll_page journal_inv_def)

theorem polling_stalls_witness:
  "pg_transactions (query (append_all sample_host
       ((new_journal sample_host sample_settings False None)\<lparr>jn_cursorCounter := 7\<rparr>) [sample_transaction ''/a'']) (poll 7)) = []"
  using polling_stalls [of "(new_journal sample_host sample_settings False None)\<lparr>jn_cursorCounter := 7\<rparr>" 7
      "poll 0" sample_host "[sample_transaction ''/a'']"]
  by (simp add: new_journal_sample journal_inv_def query_def Let_def)

text \<open>A settings change is applied to what is already stored: unless it makes an empty journal
reload its snapshot, every stored transaction is redacted and truncated again under the new
settings, in place and in order.\<close>

theorem update_reapplies:
  assumes "journal_inv j" and "0 < jn_count j"
  shows "toOrdered (updateSettings h j settings) =
           map (stored_form h (updateSettings h j settings)) (toOrdered j) \<and>
         jn_redactionHeaders (updateSettings h j settings) = map js_lower (rd_headerNames (ss_redaction settings)) \<and>
         jn_redactionJsonPaths (updateSettings h j settings) = rd_jsonPaths (ss_redaction settings)"
proof -
  define j1 where "j1 = j\<lparr>jn_redactionHeaders := map js_lower (rd_headerNames (ss_redaction settings)),
                 jn_redactionJsonPaths := rd_jsonPaths (ss_redaction settings),
                 jn_preserveScheme := rd_preserveScheme (ss_redaction settings),
                 jn_journalEnabled := js_enabled (ss_journal settings),
                 jn_persistToDisk := js_persistToDisk (ss_journal settings) \<and> jn_persistFile j\<rparr>"
  have inv: "journal_inv j1" and ord: "toOrdered j1 = toOrdered j"
    using assms(1) by (simp_all add: j1_def journal_inv_def toOrdered_def)
  have count: "jn_count j1 \<noteq> 0" using assms(2) by (simp add: j1_def)
  define k where "k = updateSettings h j settings"
  have k: "k = reapplyRedaction h j1 \<or> k = flushToDisk (reapplyRedaction h j1)"
    using count unfolding k_def updateSettings_def Let_def j1_def [symmetric] by auto
  have same: "same_settings k j1"
    using k by (auto simp: same_settings_def reapplyRedaction_def)
  then have "stored_form h k = stored_form h j1" by (rule stored_form_same)
  moreover have "toOrdered k = map (stored_form h j1) (toOrdered j)"
    using k reapply_buffer [OF inv, of h] ord by auto
  ultimately show ?thesis
    using same unfolding k_def [symmetric] by (simp add: same_settings_def j1_def)
qed

lemma new_journal_sample_empty:
  "toOrdered (new_journal h sample_settings False None) = []"
  "jn_journalEnabled (new_journal h sample_settings False None)"
  "jn_maxEntries (new_journal h sample_settings False None) = 2"
  by (simp_all add: new_journal_sample toOrdered_def)

theorem update_reapplies_witness:
  "jn_redactionJsonPaths (updateSettings sample_host
     (append_all sample_host (new_journal sample_host sample_settings False None) [sample_transaction ''/a'']) sample_settings) = []"
proof -
  let ?j = "append_all sample_host (new_journal sample_host sample_settings False None) [sample_transaction ''/a'']"
  have "journal_inv ?j" "toOrdered ?j = [stored_form sample_host (new_journal sample_host sample_settings False None) (sample_transaction ''/a'')]"
    using append_all_contents [of "new_journal sample_host sample_settings False None" sample_host "[sample_transaction ''/a'']"]
    using new_journal_inv [of sample_host sample_settings False None] new_journal_sample_empty
    by simp_all
  then have "journal_inv ?j" "0 < jn_count ?j" using length_toOrdered [of ?j] by simp_all
  from update_reapplies [OF this, of sample_host sample_settings] show ?thesis
    by (simp add: sample_settings_def)
qed

theorem unsafe_path_not_redacted_witness:
  "redactJsonBody (sample_host\<lparr>json_parse := (\<lambda>s. Some (JObj [(''constructor'', JStr ''s'')])), json_stringify := (\<lambda>v. ''b'')\<rparr>)
     ((new_journal sample_host sample_settings False None)\<lparr>jn_redactionJsonPaths := [''constructor'']\<rparr>) (Some ''b'') = Some ''b''"
  by (rule unsafe_path_not_redacted [where k = "''constructor''" and fs = "[(''constructor'', JStr ''s'')]"])
    (simp_all add: UNSAFE_KEYS_def)

end
