(* ===== verification/Conflicts.thy ===== *)
theory Conflicts
  imports Predicates
begin

text \<open>
  The static conflict analyzer of the Studio (\<open>src/shared/api-mock/conflictAnalyzer.ts\<close>): every
  pair of enabled routes is compared dimension by dimension and reported unless one dimension
  shows the two disjoint.

  Texts and objects are compared by their JSON text in the source (\<open>JSON.stringify\<close>, a host
  parameter); option objects are compared as records. The route fingerprints (a digest) and the
  time of the witness request are arguments.
\<close>

section \<open>Findings\<close>

datatype conflict_kind =
  Conf_definite_overlap | Conf_potential_overlap | Conf_duplicate | Conf_shadowed | Conf_unreachable

datatype dim_verdict = Dim_overlap | Dim_disjoint | Dim_unknown

record dimension =
  dim_source :: string
  dim_selector :: "string option"
  dim_result :: dim_verdict
  dim_explanation :: string

datatype selection_outcome = Sel_reject_ambiguous | Sel_left_wins | Sel_right_wins | Sel_tie_break | Sel_unknown

record conflict_finding =
  cf_id :: string
  cf_serverId :: string
  cf_ruleIds :: "string \<times> string"
  cf_kind :: conflict_kind
  cf_severity :: severity
  cf_dimensions :: "dimension list"
  cf_selectionOutcome :: selection_outcome
  cf_witnessRequest :: captured_request
  cf_ruleFingerprints :: "string \<times> string"

section \<open>Equality of predicates and trees\<close>

text \<open>\<open>JSON.stringify\<close> of an optional value; \<open>None\<close> is \<open>undefined\<close>.\<close>

definition json_text :: "js_host \<Rightarrow> json option \<Rightarrow> string option" where
  "json_text h e = (case e of None \<Rightarrow> None | Some JUndef \<Rightarrow> None | Some v \<Rightarrow> Some (json_stringify h v))"

definition predicatesEqual :: "js_host \<Rightarrow> predicate \<Rightarrow> predicate \<Rightarrow> bool" where
  "predicatesEqual h a b =
     (p_source a = p_source b \<and> p_selector a = p_selector b \<and> p_operator a = p_operator b \<and>
      json_text h (p_expected a) = json_text h (p_expected b) \<and> p_options a = p_options b)"

fun predicateTreesEqual :: "js_host \<Rightarrow> predicate_group \<Rightarrow> predicate_group \<Rightarrow> bool"
  and predicateNodesEqual :: "js_host \<Rightarrow> predicate_node list \<Rightarrow> predicate_node list \<Rightarrow> bool" where
  "predicateTreesEqual h (PGroup i c ns) (PGroup j d ms) =
     (c = d \<and> length ns = length ms \<and> predicateNodesEqual h ns ms)"
| "predicateNodesEqual h (PSub g # ns) (PSub k # ms) = (predicateTreesEqual h g k \<and> predicateNodesEqual h ns ms)"
| "predicateNodesEqual h (PLeaf p # ns) (PLeaf q # ms) = (predicatesEqual h p q \<and> predicateNodesEqual h ns ms)"
| "predicateNodesEqual h [] [] = True"
| "predicateNodesEqual h _ _ = False"

fun flattenPredicates :: "predicate_group \<Rightarrow> predicate list"
  and flattenNodes :: "predicate_node list \<Rightarrow> predicate list" where
  "flattenPredicates (PGroup i c ns) = flattenNodes ns"
| "flattenNodes [] = []"
| "flattenNodes (PSub g # ns) = flattenPredicates g @ flattenNodes ns"
| "flattenNodes (PLeaf p # ns) = p # flattenNodes ns"

definition isDuplicate :: "js_host \<Rightarrow> route \<Rightarrow> route \<Rightarrow> bool" where
  "isDuplicate h a b =
     (if rt_method a \<noteq> rt_method b then False
      else if pm_kind (rt_path a) \<noteq> pm_kind (rt_path b) \<or> pm_value (rt_path a) \<noteq> pm_value (rt_path b) then False
      else if rt_priority a \<noteq> rt_priority b then False
      else predicateTreesEqual h (rt_predicates a) (rt_predicates b))"

text \<open>As in the source: the routes' flattened conditions, with the groups they stand in
ignored.\<close>

definition isSuperset :: "js_host \<Rightarrow> predicate_group \<Rightarrow> predicate_group \<Rightarrow> bool" where
  "isSuperset h a b =
     (if group_children a = [] then True
      else list_all (\<lambda>bp. list_ex (\<lambda>ap. predicatesEqual h ap bp) (flattenPredicates a)) (flattenPredicates b))"

section \<open>Dimensions\<close>

definition dim :: "string \<Rightarrow> string option \<Rightarrow> dim_verdict \<Rightarrow> string \<Rightarrow> dimension" where
  "dim src sel r e = \<lparr>dim_source = src, dim_selector = sel, dim_result = r, dim_explanation = e\<rparr>"

definition analyzeMethodDimension :: "route \<Rightarrow> route \<Rightarrow> dimension" where
  "analyzeMethodDimension a b =
     (if rt_method a = M_ANY \<or> rt_method b = M_ANY \<or> rt_method a = rt_method b then
        dim ''method'' None Dim_overlap (''Both match '' @
          (if rt_method a = rt_method b then method_name (rt_method a) else ''overlapping methods''))
      else dim ''method'' None Dim_disjoint (method_name (rt_method a) @ '' vs '' @ method_name (rt_method b)))"

definition is_param_segment :: "string \<Rightarrow> bool" where
  "is_param_segment s = (js_starts_with s '':'' \<or> (js_starts_with s ''{'' \<and> js_ends_with s ''}''))"

text \<open>The first pair of literal segments that differ.\<close>

fun literal_clash :: "string list \<Rightarrow> string list \<Rightarrow> (string \<times> string) option" where
  "literal_clash (ap # aps) (bp # bps) =
     (if \<not> is_param_segment ap \<and> \<not> is_param_segment bp \<and> ap \<noteq> bp then Some (ap, bp)
      else literal_clash aps bps)"
| "literal_clash _ _ = None"

definition analyzePathDimension :: "js_host \<Rightarrow> route \<Rightarrow> route \<Rightarrow> dimension" where
  "analyzePathDimension h a b =
     (let pa = rt_path a; pb = rt_path b;
          ka = pm_kind pa; kb = pm_kind pb;
          path = dim ''path'' None
      in if ka = Path_exact \<and> kb = Path_exact then
           (if pm_value pa = pm_value pb then path Dim_overlap (''Both match '' @ pm_value pa)
            else path Dim_disjoint (pm_value pa @ '' vs '' @ pm_value pb))
         else if (ka = Path_parameterized \<and> kb = Path_exact) \<or> (ka = Path_exact \<and> kb = Path_parameterized) then
           (let pattern = (if ka = Path_parameterized then pa else pb);
                literal = (if ka = Path_exact then pa else pb)
            in if pmr_matched (matchPath h pattern (pm_value literal))
               then path Dim_overlap (pm_value pattern @ '' captures '' @ pm_value literal)
               else path Dim_disjoint (pm_value pattern @ '' does not capture '' @ pm_value literal))
         else if (ka = Path_glob \<and> kb = Path_exact) \<or> (ka = Path_exact \<and> kb = Path_glob) then
           (let pattern = (if ka = Path_glob then pa else pb);
                literal = (if ka = Path_exact then pa else pb)
            in if pmr_matched (matchPath h pattern (pm_value literal))
               then path Dim_overlap (pm_value pattern @ '' matches '' @ pm_value literal)
               else path Dim_disjoint (pm_value pattern @ '' does not match '' @ pm_value literal))
         else if ka = Path_regex \<or> kb = Path_regex then
           (if ka = Path_exact \<or> kb = Path_exact then
              (let exact = (if ka = Path_exact then pa else pb);
                   regex = (if ka = Path_regex then pa else pb)
               in case regex_compile h (pm_value regex) '''' of
                    None \<Rightarrow> path Dim_unknown ''Invalid regex''
                  | Some re \<Rightarrow>
                      if re (pm_value exact) then path Dim_overlap (''Regex matches '' @ pm_value exact)
                      else path Dim_disjoint (''Regex does not match '' @ pm_value exact))
            else path Dim_unknown ''Regex intersection is undecidable'')
         else if ka = Path_parameterized \<and> kb = Path_parameterized then
           (let aParts = js_split CHR ''/'' (pm_value pa); bParts = js_split CHR ''/'' (pm_value pb)
            in if length aParts \<noteq> length bParts then path Dim_disjoint ''Different segment count''
               else (case literal_clash aParts bParts of
                       Some (x, y) \<Rightarrow> path Dim_disjoint (''Literal segments differ: '' @ x @ '' vs '' @ y)
                     | None \<Rightarrow> path Dim_overlap ''Compatible parameterized paths''))
         else path Dim_unknown ''Path intersection cannot be determined statically'')"

definition involvesSchemasOrPaths :: "predicate_operator \<Rightarrow> bool" where
  "involvesSchemasOrPaths p = (p \<in> {Op_jsonPath_exists, Op_jsonPath_equals, Op_jsonSchema, Op_xpath_exists,
     Op_xpath_equals, Op_xmlSchema})"

definition negated :: "predicate \<Rightarrow> bool" where
  "negated p = (case p_options p of None \<Rightarrow> False | Some opts \<Rightarrow> opt_negate opts = Some True)"

definition analyzePredicatePairDimension :: "js_host \<Rightarrow> predicate \<Rightarrow> predicate \<Rightarrow> dimension" where
  "analyzePredicatePairDimension h a b =
     (let src = source_name (p_source a); sel = p_selector a;
          label = (case sel of None \<Rightarrow> src | Some s \<Rightarrow> if s = [] then src else src @ '' \"'' @ s @ ''\"'');
          oa = p_operator a; ob = p_operator b;
          ea = js_String h (or_undef (p_expected a)); eb = js_String h (or_undef (p_expected b));
          same = (json_text h (p_expected a) = json_text h (p_expected b));
          d = (\<lambda>r e. dim src sel r (label @ e));
          by_regex = (\<lambda>pattern literal. case regex_compile h pattern '''' of
             None \<Rightarrow> d Dim_unknown '': invalid regex''
           | Some re \<Rightarrow> if re literal then d Dim_overlap '': regex matches exact''
                        else d Dim_disjoint '': regex does not match exact'')
      in if oa = Op_present \<and> ob = Op_absent then d Dim_disjoint '': present vs absent''
         else if oa = Op_absent \<and> ob = Op_present then d Dim_disjoint '': absent vs present''
         else if oa = Op_present \<or> ob = Op_present then d Dim_overlap '': present implies overlap''
         else if oa = Op_absent \<and> ob = Op_absent then d Dim_overlap '': both absent''
         else if negated a \<and> \<not> negated b \<and> oa = Op_exact \<and> ob = Op_exact \<and> same then
           d Dim_disjoint '': negated exact vs same exact''
         else if oa = Op_exact \<and> ob = Op_exact then
           (if same then d Dim_overlap '': identical exact values'' else d Dim_disjoint '': different exact values'')
         else if (oa = Op_exact \<and> ob = Op_contains) \<or> (oa = Op_contains \<and> ob = Op_exact) then
           (let exact = (if oa = Op_exact then ea else eb); sub = (if oa = Op_contains then ea else eb)
            in if js_includes exact sub then d Dim_overlap '': exact contains substring''
               else d Dim_disjoint '': exact does not contain substring'')
         else if oa = Op_regex \<and> ob = Op_exact then by_regex ea eb
         else if oa = Op_exact \<and> ob = Op_regex then by_regex eb ea
         else if oa = Op_regex \<and> ob = Op_regex then d Dim_unknown '': regex intersection undecidable''
         else if involvesSchemasOrPaths oa \<or> involvesSchemasOrPaths ob then
           d Dim_unknown '': schema/path intersection undecidable''
         else d Dim_unknown '': cannot determine overlap'')"

text \<open>The key under which a condition is compared, and the note on one that has no counterpart.\<close>

definition predicate_key :: "predicate \<Rightarrow> string" where
  "predicate_key p = source_name (p_source p) @ '':'' @ (case p_selector p of None \<Rightarrow> [] | Some s \<Rightarrow> s)"

definition one_sided :: "js_host \<Rightarrow> string \<Rightarrow> string \<Rightarrow> predicate \<Rightarrow> dimension" where
  "one_sided h side other p = dim (source_name (p_source p)) (p_selector p) Dim_unknown
     (side @ '' has '' @ operator_name (p_operator p) @
      (case p_selector p of None \<Rightarrow> [] | Some s \<Rightarrow> if s = [] then [] else '' on '' @ s) @
      (if is_nullish (or_undef (p_expected p)) then [] else '' '' @ js_String h (or_undef (p_expected p))) @
      ''; '' @ other @ '' has none'')"

fun left_dimensions :: "js_host \<Rightarrow> predicate list \<Rightarrow> string list \<Rightarrow> predicate list \<Rightarrow> dimension list \<times> string list" where
  "left_dimensions h bPreds seen [] = ([], seen)"
| "left_dimensions h bPreds seen (ap # aps) =
     (if predicate_key ap \<in> set seen then left_dimensions h bPreds seen aps
      else let d = (case find (\<lambda>p. p_source p = p_source ap \<and> p_selector p = p_selector ap) bPreds of
                      Some bp \<Rightarrow> analyzePredicatePairDimension h ap bp
                    | None \<Rightarrow> one_sided h ''Left'' ''right'' ap);
               (ds, seen') = left_dimensions h bPreds (predicate_key ap # seen) aps
           in (d # ds, seen'))"

fun right_dimensions :: "js_host \<Rightarrow> string list \<Rightarrow> predicate list \<Rightarrow> dimension list" where
  "right_dimensions h seen [] = []"
| "right_dimensions h seen (bp # bps) =
     (if predicate_key bp \<in> set seen then right_dimensions h seen bps
      else one_sided h ''Right'' ''left'' bp # right_dimensions h (predicate_key bp # seen) bps)"

definition analyzeDimensions :: "js_host \<Rightarrow> route \<Rightarrow> route \<Rightarrow> dimension list" where
  "analyzeDimensions h a b =
     (let aPreds = flattenPredicates (rt_predicates a); bPreds = flattenPredicates (rt_predicates b);
          (left, seen) = left_dimensions h bPreds [] aPreds
      in [analyzeMethodDimension a b, analyzePathDimension h a b] @ left @ right_dimensions h seen bPreds)"

section \<open>Findings of a pair and of a server\<close>

definition resolveSelectionOutcome :: "route \<Rightarrow> route \<Rightarrow> selection_outcome" where
  "resolveSelectionOutcome a b =
     (if rt_priority b < rt_priority a then Sel_left_wins
      else if rt_priority a < rt_priority b then Sel_right_wins else Sel_reject_ambiguous)"

text \<open>\<open>replace(/:[^/]+/g, '42')\<close> and \<open>replace(/\{[^}]+\}/g, '42')\<close>.\<close>

function fill_colon_params :: "string \<Rightarrow> string" where
  "fill_colon_params [] = []"
| "fill_colon_params (c # cs) =
     (if c = CHR '':'' \<and> takeWhile (\<lambda>x. x \<noteq> CHR ''/'') cs \<noteq> []
      then ''42'' @ fill_colon_params (dropWhile (\<lambda>x. x \<noteq> CHR ''/'') cs)
      else c # fill_colon_params cs)"
  by pat_completeness auto
termination by (relation "measure length") (auto simp: le_imp_less_Suc length_dropWhile_le)

function fill_brace_params :: "string \<Rightarrow> string" where
  "fill_brace_params [] = []"
| "fill_brace_params (c # cs) =
     (let name = takeWhile (\<lambda>x. x \<noteq> CHR ''}'') cs; rest = dropWhile (\<lambda>x. x \<noteq> CHR ''}'') cs
      in if c = CHR ''{'' \<and> name \<noteq> [] \<and> rest \<noteq> [] then ''42'' @ fill_brace_params (tl rest)
         else c # fill_brace_params cs)"
  by pat_completeness auto
termination
  by (relation "measure length")
     (auto intro: le_less_trans [OF diff_le_self] simp: le_imp_less_Suc length_dropWhile_le)

definition or_slash :: "string \<Rightarrow> string" where
  "or_slash s = (if s = [] then ''/'' else s)"

definition pickWitnessPath :: "route \<Rightarrow> route \<Rightarrow> string" where
  "pickWitnessPath a b =
     (if pm_kind (rt_path a) = Path_exact then or_slash (pm_value (rt_path a))
      else if pm_kind (rt_path b) = Path_exact then or_slash (pm_value (rt_path b))
      else (let pattern = (if pm_value (rt_path a) \<noteq> [] then pm_value (rt_path a) else or_slash (pm_value (rt_path b)))
            in or_slash (fill_brace_params (fill_colon_params pattern))))"

definition witness_header :: "js_host \<Rightarrow> string list record_bag \<Rightarrow> predicate \<Rightarrow> string list record_bag" where
  "witness_header h headers p =
     (case p_selector p of
        Some sel \<Rightarrow>
          (if p_source p = Src_header \<and> sel \<noteq> [] \<and> p_operator p \<in> {Op_exact, Op_contains} then
             rec_set headers sel [if is_nullish (or_undef (p_expected p)) then ''value''
                                  else js_String h (or_undef (p_expected p))]
           else headers)
      | None \<Rightarrow> headers)"

definition buildWitnessRequest :: "js_host \<Rightarrow> string \<Rightarrow> route \<Rightarrow> route \<Rightarrow> captured_request" where
  "buildWitnessRequest h now a b =
     (let path = pickWitnessPath a b in
      \<lparr>rq_method = method_name (if rt_method a \<noteq> M_ANY then rt_method a else if rt_method b \<noteq> M_ANY then rt_method b else M_GET),
       rq_path = path, rq_rawPath = path, rq_query = [],
       rq_headers = foldl (witness_header h) [] (flattenPredicates (rt_predicates a) @ flattenPredicates (rt_predicates b)),
       rq_cookies = [], rq_body = None, rq_bodyTruncated = False, rq_contentType = None,
       rq_contentLength = None, rq_remoteAddress = None, rq_receivedAt = now,
       rq_clientCertSubject = None, rq_clientCertFingerprint = None\<rparr>)"

record analysis_context =
  ac_host :: js_host
  ac_serverId :: string
  ac_now :: string
  ac_fingerprint :: "route \<Rightarrow> string"

definition makeFinding :: "analysis_context \<Rightarrow> route \<Rightarrow> route \<Rightarrow> conflict_kind \<Rightarrow> severity \<Rightarrow> dimension list \<Rightarrow> conflict_finding" where
  "makeFinding c a b kind sev dims =
     \<lparr>cf_id = ''conflict-'' @ rt_id a @ ''-'' @ rt_id b, cf_serverId = ac_serverId c,
      cf_ruleIds = (rt_id a, rt_id b), cf_kind = kind, cf_severity = sev, cf_dimensions = dims,
      cf_selectionOutcome = resolveSelectionOutcome a b,
      cf_witnessRequest = buildWitnessRequest (ac_host c) (ac_now c) a b,
      cf_ruleFingerprints = (ac_fingerprint c a, ac_fingerprint c b)\<rparr>"

definition analyzeRoutePair :: "analysis_context \<Rightarrow> route \<Rightarrow> route \<Rightarrow> conflict_finding option" where
  "analyzeRoutePair c a b =
     (let h = ac_host c in
      if isDuplicate h a b then
        Some (makeFinding c a b Conf_duplicate Sev_error
          [dim ''method'' None Dim_overlap (''Both use '' @ method_name (rt_method a)),
           dim ''path'' None Dim_overlap (''Both match '' @ pm_value (rt_path a))])
      else
        (let dims = analyzeDimensions h a b in
         if list_ex (\<lambda>d. dim_result d = Dim_disjoint) dims then None
         else
           (let kind = (if list_ex (\<lambda>d. dim_result d = Dim_unknown) dims then Conf_potential_overlap
                        else Conf_definite_overlap)
            in if rt_priority b < rt_priority a \<and> isSuperset h (rt_predicates a) (rt_predicates b) then
                 Some (makeFinding c a b Conf_shadowed Sev_warning dims)
               else if rt_priority a < rt_priority b \<and> isSuperset h (rt_predicates b) (rt_predicates a) then
                 Some (makeFinding c b a Conf_shadowed Sev_warning dims)
               else Some (makeFinding c a b kind (if kind = Conf_definite_overlap then Sev_warning else Sev_info) dims))))"

fun analyze_pairs :: "analysis_context \<Rightarrow> route list \<Rightarrow> conflict_finding list" where
  "analyze_pairs c [] = []"
| "analyze_pairs c (a # rs) = List.map_filter (analyzeRoutePair c a) rs @ analyze_pairs c rs"

definition analyzeConflicts :: "analysis_context \<Rightarrow> route list \<Rightarrow> conflict_finding list" where
  "analyzeConflicts c routes = analyze_pairs c (filter rt_enabled routes)"

section \<open>Soundness of the path verdict\<close>

text \<open>A path matcher as it is evaluated: case-sensitive, and declared exact only when its text
reads as exact.\<close>

definition plain_matcher :: "path_matcher \<Rightarrow> bool" where
  "plain_matcher m = (pm_caseInsensitive m \<noteq> Some True \<and>
     (pm_kind m = Path_exact \<longrightarrow> inferPathKind (pm_value m) (Some Path_exact) = Path_exact))"

lemma plain_matcher_kind: "plain_matcher m \<Longrightarrow> pm_kind (normalizePathMatcher m) = pm_kind m"
  using normalizePathMatcher_exact [of m] normalizePathMatcher_other [of m]
  by (cases "pm_kind m = Path_exact") (auto simp: plain_matcher_def)

lemma plain_matcher_ci: "plain_matcher m \<Longrightarrow> (case pm_caseInsensitive m of None \<Rightarrow> False | Some b \<Rightarrow> b) = False"
  by (auto simp: plain_matcher_def split: option.splits)

lemma plain_match:
  assumes "plain_matcher m"
  shows "pmr_matched (matchPath h m p) = (case pm_kind m of
      Path_exact \<Rightarrow> p = pm_value m
    | Path_parameterized \<Rightarrow> list_all2 (segment_ok False) (js_split CHR ''/'' (pm_value m)) (js_split CHR ''/'' p)
    | Path_glob \<Rightarrow> glob_match False (globToRegex (pm_value m)) p
    | Path_regex \<Rightarrow> (case regex_compile h (pm_value m) '''' of None \<Rightarrow> False | Some re \<Rightarrow> re p))"
  using plain_matcher_kind [OF assms] plain_matcher_ci [OF assms]
  by (auto simp: matchPath_def Let_def matchExactPath_def text_eq_def matchParameterizedPath_iff
      matchGlobPath_def matchRegexPath_def split: path_kind.splits)

lemma is_param_segment_capture: "is_param_segment s = is_capture s"
  by (simp add: is_param_segment_def is_capture_def is_brace_segment_def)

lemma literal_clash_sound:
  "list_all2 (segment_ok False) aps rps \<Longrightarrow> list_all2 (segment_ok False) bps rps \<Longrightarrow> literal_clash aps bps = None"
proof (induction aps bps arbitrary: rps rule: literal_clash.induct)
  case (1 ap aps bp bps)
  then show ?case
    by (auto simp: list_all2_Cons1 is_param_segment_capture segment_ok_def text_eq_def)
qed simp_all

text \<open>When the analyzer calls the paths of two routes disjoint, they are: no
request path is matched by both, for the exact, parameterized, glob and regular-expression kinds,
as long as both matchers are case-sensitive and evaluated under their declared kind.\<close>

theorem disjoint_paths_sound:
  assumes "plain_matcher (rt_path a)" and "plain_matcher (rt_path b)"
    and "dim_result (analyzePathDimension h a b) = Dim_disjoint"
  shows "\<not> (pmr_matched (matchPath h (rt_path a) p) \<and> pmr_matched (matchPath h (rt_path b) p))"
proof
  assume m: "pmr_matched (matchPath h (rt_path a) p) \<and> pmr_matched (matchPath h (rt_path b) p)"
  note pa = plain_match [OF assms(1)] and pb = plain_match [OF assms(2)]
  show False
  proof (cases "pm_kind (rt_path a) = Path_parameterized \<and> pm_kind (rt_path b) = Path_parameterized")
    case True
    then have *: "list_all2 (segment_ok False) (js_split CHR ''/'' (pm_value (rt_path a))) (js_split CHR ''/'' p)"
      "list_all2 (segment_ok False) (js_split CHR ''/'' (pm_value (rt_path b))) (js_split CHR ''/'' p)"
      using m pa pb by simp_all
    moreover from * have "length (js_split CHR ''/'' (pm_value (rt_path a))) = length (js_split CHR ''/'' (pm_value (rt_path b)))"
      by (auto dest!: list_all2_lengthD)
    ultimately show False using literal_clash_sound [OF *] True assms(3)
      by (auto simp: analyzePathDimension_def dim_def Let_def split: if_splits)
  next
    case False
    with m assms(3) pa pb show False
      by (auto simp: analyzePathDimension_def dim_def Let_def split: if_splits path_kind.splits option.splits)
  qed
qed

theorem disjoint_paths_sound_witness:
  "dim_result (analyzePathDimension sample_host (sample_route ''a'' ''/a'') (sample_route ''b'' ''/b'')) = Dim_disjoint \<and>
   \<not> (pmr_matched (matchPath sample_host (rt_path (sample_route ''a'' ''/a'')) ''/a'') \<and>
      pmr_matched (matchPath sample_host (rt_path (sample_route ''b'' ''/b'')) ''/a''))"
proof -
  have d: "dim_result (analyzePathDimension sample_host (sample_route ''a'' ''/a'') (sample_route ''b'' ''/b'')) = Dim_disjoint"
    by (simp add: analyzePathDimension_def dim_def sample_route_def)
  have "plain_matcher (rt_path (sample_route ''a'' ''/a''))" "plain_matcher (rt_path (sample_route ''b'' ''/b''))"
    by (simp_all add: plain_matcher_def sample_route_def inferPathKind_def has_glob_char_def)
  from disjoint_paths_sound [OF this d, of "''/a''"] d show ?thesis by blast
qed

section \<open>Duplicates\<close>

lemma leaf_holds_cong:
  "p_source p = p_source q \<Longrightarrow> p_selector p = p_selector q \<Longrightarrow> p_operator p = p_operator q \<Longrightarrow>
   p_expected p = p_expected q \<Longrightarrow> p_options p = p_options q \<Longrightarrow> leaf_holds h req ps p = leaf_holds h req ps q"
  by (cases "p_source q") (simp_all add: leaf_holds_def extractValue_def Let_def)

text \<open>The JSON texts of the expected values tell the values apart.\<close>

definition texts_faithful :: "js_host \<Rightarrow> predicate list \<Rightarrow> predicate list \<Rightarrow> bool" where
  "texts_faithful h ps qs = (\<forall>p\<in>set ps. \<forall>q\<in>set qs.
     json_text h (p_expected p) = json_text h (p_expected q) \<longrightarrow> p_expected p = p_expected q)"

lemma equal_trees_sem:
  "predicateTreesEqual h g k \<Longrightarrow> texts_faithful h (flattenPredicates g) (flattenPredicates k) \<Longrightarrow>
     sem_group (leaf_holds h req ps) g = sem_group (leaf_holds h req ps) k"
  "predicateNodesEqual h ns ms \<Longrightarrow> texts_faithful h (flattenNodes ns) (flattenNodes ms) \<Longrightarrow>
     sem_all (leaf_holds h req ps) ns = sem_all (leaf_holds h req ps) ms \<and>
     sem_any (leaf_holds h req ps) ns = sem_any (leaf_holds h req ps) ms"
proof (induction h g k and h ns ms rule: predicateTreesEqual_predicateNodesEqual.induct)
  case (1 h i c ns j d ms)
  then show ?case by (cases c) auto
next
  case (2 h g ns k ms)
  then show ?case by (auto simp: texts_faithful_def)
next
  case (3 h p ns q ms)
  then have "p_expected p = p_expected q" by (simp add: texts_faithful_def predicatesEqual_def)
  then have "leaf_holds h req ps p = leaf_holds h req ps q"
    using 3 by (intro leaf_holds_cong) (auto simp: predicatesEqual_def)
  with 3 show ?case by (auto simp: texts_faithful_def)
qed simp_all

text \<open>Routes reported as duplicates accept the same requests: methods, paths
(under the same case option) and conditions agree on every request, so with equal priorities each
request for one is ambiguous.\<close>

theorem duplicates_accept_the_same:
  assumes "isDuplicate h a b" and "pm_caseInsensitive (rt_path a) = pm_caseInsensitive (rt_path b)"
    and "texts_faithful h (flattenPredicates (rt_predicates a)) (flattenPredicates (rt_predicates b))"
  shows "matchMethod (rt_method a) m = matchMethod (rt_method b) m \<and>
    matchPath h (rt_path a) p = matchPath h (rt_path b) p \<and>
    evaluatePredicateGroup h (rt_predicates a) req ps = evaluatePredicateGroup h (rt_predicates b) req ps \<and>
    rt_priority a = rt_priority b"
proof -
  have d: "rt_method a = rt_method b" "pm_kind (rt_path a) = pm_kind (rt_path b)"
    "pm_value (rt_path a) = pm_value (rt_path b)" "rt_priority a = rt_priority b"
    "predicateTreesEqual h (rt_predicates a) (rt_predicates b)"
    using assms(1) by (auto simp: isDuplicate_def split: if_splits)
  have "pm_kind (normalizePathMatcher (rt_path a)) = pm_kind (normalizePathMatcher (rt_path b))"
    using d(2,3) normalizePathMatcher_exact normalizePathMatcher_other
    by (cases "pm_kind (rt_path a) = Path_exact") simp_all
  then have "matchPath h (rt_path a) p = matchPath h (rt_path b) p"
    using d(3) assms(2) by (simp add: matchPath_def Let_def split: path_kind.split)
  with d equal_trees_sem(1) [OF d(5) assms(3)] show ?thesis by (simp add: evaluatePredicateGroup_sem)
qed

theorem duplicates_accept_the_same_witness:
  "evaluatePredicateGroup sample_host (rt_predicates (sample_route ''a'' ''/a'')) (sample_request ''/a'') [] =
   evaluatePredicateGroup sample_host (rt_predicates (sample_route ''b'' ''/a'')) (sample_request ''/a'') []"
  using duplicates_accept_the_same [of sample_host "sample_route ''a'' ''/a''" "sample_route ''b'' ''/a''"]
  by (simp add: isDuplicate_def sample_route_def texts_faithful_def)

section \<open>Overlaps the analyzer misses\<close>

text \<open>The analyzer overlooks overlaps of negated conditions: a route that
requires a header not to equal one value and a route that requires the header to equal another are
called disjoint (different exact values), although every request with the second value is accepted
by both.\<close>

theorem negated_overlap_missed:
  assumes "rt_predicates a = PGroup ga Comb_all [PLeaf pa]" and "rt_predicates b = PGroup gb Comb_all [PLeaf pb]"
    and "p_source pa = Src_header" and "p_source pb = Src_header"
    and "p_selector pa = Some sel" and "p_selector pb = Some sel" and "sel \<noteq> []"
    and "p_operator pa = Op_exact" and "p_operator pb = Op_exact"
    and "p_expected pa = Some (JStr v)" and "p_expected pb = Some (JStr w)" and "v \<noteq> w"
    and "json_stringify h (JStr v) \<noteq> json_stringify h (JStr w)"
    and "p_options pa = Some \<lparr>opt_caseSensitive = None, opt_negate = Some True, opt_matchStyle = None\<rparr>"
    and "p_options pb = None"
    and "rec_get (rq_headers req) (js_lower sel) = Some [w]"
    and "rt_enabled a" and "rt_enabled b"
    and "matchMethod (rt_method a) (rq_method req)" and "matchMethod (rt_method b) (rq_method req)"
    and "pmr_matched (matchPath h (rt_path a) (stripBasePath (rq_path req) basePath))"
    and "pmr_matched (matchPath h (rt_path b) (stripBasePath (rq_path req) basePath))"
    and "ac_host c = h"
  shows "analyzeRoutePair c a b = None \<and> ev_overallMatch (evaluateRoute h a req basePath) \<and>
         ev_overallMatch (evaluateRoute h b req basePath)"
proof -
  have "\<not> isDuplicate h a b"
    using assms(1,2,14,15) by (simp add: isDuplicate_def predicatesEqual_def)
  moreover have "dim_result (analyzePredicatePairDimension h pa pb) = Dim_disjoint"
    using assms(8-11,13) by (simp add: analyzePredicatePairDimension_def dim_def json_text_def Let_def)
  then have "list_ex (\<lambda>d. dim_result d = Dim_disjoint) (analyzeDimensions h a b)"
    using assms(1-6) by (simp add: analyzeDimensions_def Let_def)
  ultimately have "analyzeRoutePair c a b = None"
    using assms(23) by (simp add: analyzeRoutePair_def Let_def)
  moreover have "leaf_holds h req ps pa" "leaf_holds h req ps pb" for ps
    using assms(3-16) by (simp_all add: leaf_holds_def extractValue_def evaluateOperator_def matchExact_def
        anyValue_def str_def or_undef_def is_nullish_def case_insensitive_def Let_def)
  ultimately show ?thesis
    using assms(1,2,17-22) by (simp add: evaluateRoute_match Let_def)
qed

text \<open>A pair of such routes, and a request both accept.\<close>

definition echo_host :: js_host where
  "echo_host = sample_host\<lparr>json_stringify := (\<lambda>v. case v of JStr s \<Rightarrow> s | _ \<Rightarrow> [])\<rparr>"

definition header_is :: "bool \<Rightarrow> string \<Rightarrow> predicate" where
  "header_is neg v = \<lparr>p_id = v, p_source = Src_header, p_selector = Some ''X-Env'', p_operator = Op_exact,
     p_expected = Some (JStr v),
     p_options = (if neg then Some \<lparr>opt_caseSensitive = None, opt_negate = Some True, opt_matchStyle = None\<rparr> else None)\<rparr>"

definition header_route :: "string \<Rightarrow> predicate \<Rightarrow> route" where
  "header_route i p = (sample_route i ''/a'')\<lparr>rt_predicates := PGroup i Comb_all [PLeaf p]\<rparr>"

definition header_request :: "string \<Rightarrow> captured_request" where
  "header_request v = (sample_request ''/a'')\<lparr>rq_headers := [(''x-env'', [v])]\<rparr>"

theorem negated_overlap_missed_witness:
  "analyzeRoutePair \<lparr>ac_host = echo_host, ac_serverId = [], ac_now = [], ac_fingerprint = (\<lambda>r. [])\<rparr>
     (header_route ''a'' (header_is True ''prod'')) (header_route ''b'' (header_is False ''dev'')) = None \<and>
   ev_overallMatch (evaluateRoute echo_host (header_route ''a'' (header_is True ''prod'')) (header_request ''dev'') []) \<and>
   ev_overallMatch (evaluateRoute echo_host (header_route ''b'' (header_is False ''dev'')) (header_request ''dev'') [])"
proof (rule negated_overlap_missed [where pa = "header_is True ''prod''" and pb = "header_is False ''dev''"
    and v = "''prod''" and w = "''dev''" and sel = "''X-Env''" and ga = "''a''" and gb = "''b''"])
  have "js_lower ''X-Env'' = ''x-env''" by code_simp
  then show "rec_get (rq_headers (header_request ''dev'')) (js_lower ''X-Env'') = Some [''dev'']"
    by (simp add: header_request_def)
  show "matchMethod (rt_method (header_route ''a'' (header_is True ''prod''))) (rq_method (header_request ''dev''))"
    "matchMethod (rt_method (header_route ''b'' (header_is False ''dev''))) (rq_method (header_request ''dev''))"
    by (simp_all add: header_route_def header_request_def sample_route_def sample_request_def matchMethod_def js_upper_def js_upper_char_def)
  show "pmr_matched (matchPath echo_host (rt_path (header_route ''a'' (header_is True ''prod'')))
      (stripBasePath (rq_path (header_request ''dev'')) []))"
    "pmr_matched (matchPath echo_host (rt_path (header_route ''b'' (header_is False ''dev'')))
      (stripBasePath (rq_path (header_request ''dev'')) []))"
    by (simp_all add: header_route_def header_request_def sample_route_def sample_request_def stripBasePath_def
        plain_match plain_matcher_def inferPathKind_def has_glob_char_def)
qed (simp_all add: header_route_def header_is_def echo_host_def sample_route_def)

section \<open>Pairs\<close>

lemma length_map_filter_le: "length (List.map_filter f xs) \<le> length xs"
  by (simp add: map_filter_def)

lemma set_analyze_pairs:
  "set (analyze_pairs c rs) = {f. \<exists>i j. i < j \<and> j < length rs \<and> analyzeRoutePair c (rs ! i) (rs ! j) = Some f}"
proof (induction rs)
  case (Cons r rs)
  have "(\<exists>x\<in>set rs. analyzeRoutePair c r x = Some f) \<or>
        (\<exists>i j. i < j \<and> j < length rs \<and> analyzeRoutePair c (rs ! i) (rs ! j) = Some f) \<longleftrightarrow>
        (\<exists>i j. i < j \<and> j < length (r # rs) \<and> analyzeRoutePair c ((r # rs) ! i) ((r # rs) ! j) = Some f)" (is "?L \<longleftrightarrow> ?R") for f
  proof
    assume ?L
    then show ?R
    proof
      assume "\<exists>x\<in>set rs. analyzeRoutePair c r x = Some f"
      then obtain j where "j < length rs" "analyzeRoutePair c r (rs ! j) = Some f" by (auto simp: in_set_conv_nth)
      then show ?R by (intro exI [of _ 0] exI [of _ "Suc j"]) simp
    next
      assume "\<exists>i j. i < j \<and> j < length rs \<and> analyzeRoutePair c (rs ! i) (rs ! j) = Some f"
      then obtain i j where "i < j" "j < length rs" "analyzeRoutePair c (rs ! i) (rs ! j) = Some f" by blast
      then show ?R by (intro exI [of _ "Suc i"] exI [of _ "Suc j"]) simp
    qed
  next
    assume ?R
    then obtain i j where ij: "i < j" "j < length (r # rs)" "analyzeRoutePair c ((r # rs) ! i) ((r # rs) ! j) = Some f" by blast
    then obtain j' where j: "j = Suc j'" by (cases j) auto
    show ?L
    proof (cases i)
      case 0
      with ij j have "analyzeRoutePair c r (rs ! j') = Some f" "rs ! j' \<in> set rs" by simp_all
      then show ?L by blast
    next
      case (Suc i')
      with ij j have "i' < j'" "j' < length rs" "analyzeRoutePair c (rs ! i') (rs ! j') = Some f" by simp_all
      then show ?L by blast
    qed
  qed
  with Cons.IH show ?case by (simp add: set_map_filter Collect_disj_eq [symmetric])
qed simp

lemma length_analyze_pairs: "2 * length (analyze_pairs c rs) \<le> length rs * (length rs - 1)"
proof (induction rs)
  case (Cons r rs)
  have "2 * length (List.map_filter (analyzeRoutePair c r) rs) \<le> 2 * length rs"
    using length_map_filter_le by simp
  moreover have "2 * length rs + length rs * (length rs - 1) = length (r # rs) * (length (r # rs) - 1)"
    by (cases rs) (simp_all add: algebra_simps)
  ultimately show ?case using Cons.IH by simp
qed simp

text \<open>The analysis reports on each unordered pair of enabled routes at most once,
and on every pair that it does not show to be disjoint.\<close>

theorem conflict_pairs_complete:
  "set (analyzeConflicts c routes) = {f. \<exists>i j. i < j \<and> j < length (filter rt_enabled routes) \<and>
       analyzeRoutePair c (filter rt_enabled routes ! i) (filter rt_enabled routes ! j) = Some f} \<and>
   2 * length (analyzeConflicts c routes) \<le> length (filter rt_enabled routes) * (length (filter rt_enabled routes) - 1)"
  by (simp only: analyzeConflicts_def set_analyze_pairs length_analyze_pairs simp_thms)

end
