(* ===== verification/Request_Normalization.thy ===== *)
theory Request_Normalization
  imports Json_Model
begin

text \<open>
  Normalisation of an incoming request
  (\<open>src/shared/api-mock/requestNormalization.ts\<close>): header names in lower case with their
  values in order, HTTP/2 pseudo-headers, cookies, path and query, the body ceiling, and the
  summary for the match explanation.

  Headers and query are collected in plain objects, read before the first value is stored. A name
  that every object inherits (\<open>constructor\<close>, \<open>__proto__\<close> and so on) finds the inherited
  value there, and pushing to it throws; \<open>Inl\<close> is that exception. The time of receipt is an
  argument where the input has none.
\<close>

section \<open>Input\<close>

datatype header_value = One_Value string | Many_Values "string list"

record raw_request =
  rw_method :: string
  rw_url :: string
  rw_headers :: "(string \<times> header_value option) list"
  rw_body :: "string option"
  rw_remoteAddress :: "string option"
  rw_receivedAt :: "string option"
  rw_clientCertSubject :: "string option"
  rw_clientCertFingerprint :: "string option"

datatype js_error = Type_Error string

definition maxInboundBodyBytes_ceiling :: nat where
  "maxInboundBodyBytes_ceiling = 10485760"

section \<open>Grouping values by name\<close>

text \<open>\<open>if (out[k]) out[k].push(...vs) else out[k] = [...vs]\<close>.\<close>

definition push_values :: "string \<Rightarrow> string list \<Rightarrow> string list record_bag \<Rightarrow> js_error + string list record_bag" where
  "push_values k vs out =
     (case rec_get out k of
        Some ws \<Rightarrow> Inr (rec_set out k (ws @ vs))
      | None \<Rightarrow> if k \<in> set inherited_names then Inl (Type_Error k) else Inr (rec_set out k vs))"

section \<open>Headers\<close>

definition header_values :: "header_value \<Rightarrow> string list" where
  "header_values v = (case v of One_Value s \<Rightarrow> [s] | Many_Values ss \<Rightarrow> ss)"

fun normalize_headers_from ::
  "string list record_bag \<Rightarrow> (string \<times> header_value option) list \<Rightarrow> js_error + string list record_bag" where
  "normalize_headers_from out [] = Inr out"
| "normalize_headers_from out ((key, v) # r) =
     (case v of
        None \<Rightarrow> normalize_headers_from out r
      | Some hv \<Rightarrow>
          (let lowerKey = js_lower key; values = header_values hv
           in if js_starts_with lowerKey '':'' then
                normalize_headers_from
                  (if lowerKey = '':authority'' \<and> rec_get out ''host'' = None then rec_set out ''host'' values else out) r
              else (case push_values lowerKey values out of
                      Inl e \<Rightarrow> Inl e
                    | Inr out' \<Rightarrow> normalize_headers_from out' r)))"

definition normalizeHeaders :: "(string \<times> header_value option) list \<Rightarrow> js_error + string list record_bag" where
  "normalizeHeaders raw = normalize_headers_from [] raw"

section \<open>Cookies\<close>

text \<open>Assigning a string to \<open>__proto__\<close> has no effect.\<close>

definition add_cookie :: "string record_bag \<Rightarrow> string \<Rightarrow> string record_bag" where
  "add_cookie out pair =
     (case js_index_of ''='' pair of
        None \<Rightarrow> out
      | Some i \<Rightarrow>
          (let name = js_trim (take i pair); v = js_trim (drop (i + 1) pair)
           in if name = [] \<or> name = ''__proto__'' then out else rec_set out name v))"

definition parseCookies :: "string option \<Rightarrow> string record_bag" where
  "parseCookies cookieHeader =
     (case cookieHeader of
        None \<Rightarrow> []
      | Some s \<Rightarrow> (if s = [] then [] else foldl add_cookie [] (js_split CHR '';'' s)))"

section \<open>Path and query\<close>

definition safeDecodeURIComponent :: "js_host \<Rightarrow> string \<Rightarrow> string" where
  "safeDecodeURIComponent h s = (case decode_uri h s of None \<Rightarrow> s | Some t \<Rightarrow> t)"

definition query_entry :: "js_host \<Rightarrow> string \<Rightarrow> string \<times> string" where
  "query_entry h part =
     (case js_index_of ''='' part of
        Some i \<Rightarrow> (safeDecodeURIComponent h (take i part), safeDecodeURIComponent h (drop (i + 1) part))
      | None \<Rightarrow> (safeDecodeURIComponent h part, []))"

fun parse_query_from :: "js_host \<Rightarrow> string list record_bag \<Rightarrow> string list \<Rightarrow> js_error + string list record_bag" where
  "parse_query_from h query [] = Inr query"
| "parse_query_from h query (part # parts) =
     (if part = [] then parse_query_from h query parts
      else case query_entry h part of (key, v) \<Rightarrow>
        (case push_values key [v] query of
           Inl e \<Rightarrow> Inl e
         | Inr query' \<Rightarrow> parse_query_from h query' parts))"

record parsed_url =
  pu_rawPath :: string
  pu_path :: string
  pu_query :: "string list record_bag"

definition parseUrl :: "js_host \<Rightarrow> string \<Rightarrow> js_error + parsed_url" where
  "parseUrl h url =
     (let noFragment = hd (js_split CHR ''#'' url)
      in case js_index_of ''?'' noFragment of
           None \<Rightarrow> Inr \<lparr>pu_rawPath = noFragment, pu_path = noFragment, pu_query = []\<rparr>
         | Some q \<Rightarrow>
             (case parse_query_from h [] (js_split CHR ''&'' (drop (q + 1) noFragment)) of
                Inl e \<Rightarrow> Inl e
              | Inr query \<Rightarrow> Inr \<lparr>pu_rawPath = noFragment, pu_path = take q noFragment, pu_query = query\<rparr>))"

section \<open>The request\<close>

text \<open>\<open>parseInt(s, 10)\<close> on texts whose value is finite; \<open>None\<close> is \<open>NaN\<close>.\<close>

definition js_parse_int :: "string \<Rightarrow> int option" where
  "js_parse_int s =
     (let t = dropWhile js_is_space s;
          negative = js_starts_with t ''-'';
          u = (if negative \<or> js_starts_with t ''+'' then tl t else t);
          digits = takeWhile js_is_digit u
      in if digits = [] then None
         else Some (if negative then - int (digits_value digits) else int (digits_value digits)))"

definition first_of :: "string list record_bag \<Rightarrow> string \<Rightarrow> string option" where
  "first_of headers k = (case rec_get headers k of Some (v # vs) \<Rightarrow> Some v | _ \<Rightarrow> None)"

definition if_nonempty :: "string option \<Rightarrow> string option" where
  "if_nonempty v = (case v of Some [] \<Rightarrow> None | _ \<Rightarrow> v)"

definition normalizeRequest ::
  "js_host \<Rightarrow> string \<Rightarrow> raw_request \<Rightarrow> js_error + captured_request \<times> normalized_summary" where
  "normalizeRequest h now raw =
     (case normalizeHeaders (rw_headers raw) of
        Inl e \<Rightarrow> Inl e
      | Inr headers \<Rightarrow>
          (case parseUrl h (rw_url raw) of
             Inl e \<Rightarrow> Inl e
           | Inr u \<Rightarrow>
               (let meth = js_upper (rw_method raw);
                    cookies = parseCookies (map_option (js_join ''; '') (rec_get headers ''cookie''));
                    contentType = first_of headers ''content-type'';
                    contentLength = Option.bind (if_nonempty (first_of headers ''content-length'')) js_parse_int;
                    bodyBytes = (case rw_body raw of None \<Rightarrow> 0 | Some b \<Rightarrow> utf8_length b);
                    truncated = (maxInboundBodyBytes_ceiling < bodyBytes);
                    decodedPath = safeDecodeURIComponent h (pu_path u)
                in Inr
                   (\<lparr>rq_method = meth, rq_path = pu_path u, rq_rawPath = pu_rawPath u, rq_query = pu_query u,
                     rq_headers = headers, rq_cookies = cookies,
                     rq_body = (if truncated then map_option (take maxInboundBodyBytes_ceiling) (rw_body raw)
                                else rw_body raw),
                     rq_bodyTruncated = truncated, rq_contentType = contentType, rq_contentLength = contentLength,
                     rq_remoteAddress = rw_remoteAddress raw,
                     rq_receivedAt = (case rw_receivedAt raw of None \<Rightarrow> now | Some t \<Rightarrow> t),
                     rq_clientCertSubject = if_nonempty (rw_clientCertSubject raw),
                     rq_clientCertFingerprint = if_nonempty (rw_clientCertFingerprint raw)\<rparr>,
                    \<lparr>nz_method = meth, nz_path = pu_path u, nz_decodedPath = decodedPath,
                     nz_pathSegments = filter (\<lambda>s. s \<noteq> []) (js_split CHR ''/'' decodedPath),
                     nz_query = pu_query u,
                     nz_headerKeys = js_sort code_unit_compare (rec_keys headers),
                     nz_cookieKeys = js_sort code_unit_compare (rec_keys cookies),
                     nz_bodyContentType = contentType, nz_bodySizeBytes = bodyBytes\<rparr>))))"

section \<open>Grouping\<close>

text \<open>The values that a list of entries gives a name, in order.\<close>

definition values_of :: "(string \<times> string list) list \<Rightarrow> string \<Rightarrow> string list" where
  "values_of es k = concat (map snd (filter (\<lambda>e. fst e = k) es))"

definition grouped :: "(string \<times> string list) list \<Rightarrow> string \<Rightarrow> string list option" where
  "grouped es k = (if k \<in> fst ` set es then Some (values_of es k) else None)"

fun push_all :: "string list record_bag \<Rightarrow> (string \<times> string list) list \<Rightarrow> js_error + string list record_bag" where
  "push_all out [] = Inr out"
| "push_all out (e # es) = (case push_values (fst e) (snd e) out of Inl x \<Rightarrow> Inl x | Inr out' \<Rightarrow> push_all out' es)"

text \<open>Values already there come first.\<close>

definition group_onto :: "string list record_bag \<Rightarrow> (string \<times> string list) list \<Rightarrow> string \<Rightarrow> string list option" where
  "group_onto out es k = (case rec_get out k of
     Some ws \<Rightarrow> Some (ws @ values_of es k) | None \<Rightarrow> grouped es k)"

definition no_inherited :: "'v record_bag \<Rightarrow> bool" where
  "no_inherited out = (\<forall>k\<in>set inherited_names. rec_get out k = None)"

lemma no_inherited_Nil [simp]: "no_inherited []"
  by (simp add: no_inherited_def)

lemma push_values_throws: "no_inherited out \<Longrightarrow> (\<exists>x. push_values k vs out = Inl x) \<longleftrightarrow> k \<in> set inherited_names"
  by (auto simp: push_values_def no_inherited_def split: option.split)

lemma push_values_no_inherited:
  "no_inherited out \<Longrightarrow> push_values k vs out = Inr out' \<Longrightarrow> no_inherited out'"
  by (auto simp: push_values_def no_inherited_def split: option.splits if_splits)

lemma push_all_throws:
  "no_inherited out \<Longrightarrow> (\<exists>x. push_all out es = Inl x) \<longleftrightarrow> (\<exists>e\<in>set es. fst e \<in> set inherited_names)"
proof (induction es arbitrary: out)
  case (Cons e es)
  show ?case
  proof (cases "push_values (fst e) (snd e) out")
    case (Inl x)
    then show ?thesis using push_values_throws [OF Cons.prems, of "fst e" "snd e"] by auto
  next
    case (Inr out')
    then have "fst e \<notin> set inherited_names"
      using push_values_throws [OF Cons.prems, of "fst e" "snd e"] by auto
    with Cons.IH [OF push_values_no_inherited [OF Cons.prems Inr]] Inr show ?thesis by simp
  qed
qed simp

lemma push_all_groups: "push_all out es = Inr out' \<Longrightarrow> rec_get out' k = group_onto out es k"
proof (induction es arbitrary: out)
  case (Cons e es)
  from Cons.prems obtain out1 where p: "push_values (fst e) (snd e) out = Inr out1" "push_all out1 es = Inr out'"
    by (auto split: sum.splits)
  from p(1) have "rec_get out1 k = (if k = fst e then Some ((case rec_get out k of None \<Rightarrow> [] | Some ws \<Rightarrow> ws) @ snd e)
      else rec_get out k)"
    by (auto simp: push_values_def split: option.splits if_splits)
  with Cons.IH [OF p(2)] show ?case
    by (auto simp: group_onto_def grouped_def values_of_def split: option.split)
qed (simp add: group_onto_def grouped_def values_of_def split: option.split)

section \<open>Headers\<close>

text \<open>The entries of the header list that are header fields, with lower-case names.\<close>

definition header_entries :: "(string \<times> header_value option) list \<Rightarrow> (string \<times> string list) list" where
  "header_entries raw = List.map_filter (\<lambda>(key, v). case v of None \<Rightarrow> None
     | Some hv \<Rightarrow> if js_starts_with (js_lower key) '':'' then None else Some (js_lower key, header_values hv)) raw"

definition authority_values :: "(string \<times> header_value option) list \<Rightarrow> string list list" where
  "authority_values raw = List.map_filter (\<lambda>(key, v). case v of None \<Rightarrow> None
     | Some hv \<Rightarrow> if js_lower key = '':authority'' then Some (header_values hv) else None) raw"

lemma header_entries_simps [simp]:
  "header_entries [] = []"
  "header_entries ((key, None) # r) = header_entries r"
  "header_entries ((key, Some hv) # r) = (if js_starts_with (js_lower key) '':'' then header_entries r
     else (js_lower key, header_values hv) # header_entries r)"
  by (simp_all add: header_entries_def map_filter_simps)

lemma authority_values_simps [simp]:
  "authority_values [] = []"
  "authority_values ((key, None) # r) = authority_values r"
  "authority_values ((key, Some hv) # r) = (if js_lower key = '':authority'' then header_values hv # authority_values r
     else authority_values r)"
  by (simp_all add: authority_values_def map_filter_simps)

lemma host_not_inherited [simp]: "''host'' \<notin> set inherited_names"
  by (simp add: inherited_names_def)

lemma normalize_headers_throws:
  "no_inherited out \<Longrightarrow> (\<exists>x. normalize_headers_from out raw = Inl x) \<longleftrightarrow>
     (\<exists>e\<in>set (header_entries raw). fst e \<in> set inherited_names)"
proof (induction out raw rule: normalize_headers_from.induct)
  case (2 out key v r)
  show ?case
  proof (cases v)
    case None
    with 2 show ?thesis by simp
  next
    case (Some hv)
    show ?thesis
    proof (cases "js_starts_with (js_lower key) '':''")
      case True
      have "no_inherited (if js_lower key = '':authority'' \<and> rec_get out ''host'' = None
          then rec_set out ''host'' (header_values hv) else out)"
        using 2(4) by (auto simp: no_inherited_def)
      from 2(2) [OF Some refl refl True this] True Some show ?thesis by (simp add: Let_def)
    next
      case False
      show ?thesis
      proof (cases "push_values (js_lower key) (header_values hv) out")
        case (Inl x)
        then show ?thesis
          using push_values_throws [OF 2(4), of "js_lower key" "header_values hv"] False Some by (auto simp: Let_def)
      next
        case (Inr out')
        then have "js_lower key \<notin> set inherited_names"
          using push_values_throws [OF 2(4), of "js_lower key" "header_values hv"] by auto
        with 2(3) [OF Some refl refl False Inr push_values_no_inherited [OF 2(4) Inr]] Inr False Some
        show ?thesis by (simp add: Let_def)
      qed
    qed
  qed
qed simp

lemma normalize_headers_groups:
  "normalize_headers_from out raw = Inr out' \<Longrightarrow> k \<noteq> ''host'' \<or> authority_values raw = [] \<or> rec_get out ''host'' \<noteq> None \<Longrightarrow>
     rec_get out' k = group_onto out (header_entries raw) k"
proof (induction out raw rule: normalize_headers_from.induct)
  case (1 out)
  then show ?case by (simp add: group_onto_def grouped_def values_of_def split: option.split)
next
  case (2 out key v r)
  show ?case
  proof (cases v)
    case None
    with 2 show ?thesis by simp
  next
    case (Some hv)
    show ?thesis
    proof (cases "js_starts_with (js_lower key) '':''")
      case True
      define out1 where "out1 = (if js_lower key = '':authority'' \<and> rec_get out ''host'' = None
          then rec_set out ''host'' (header_values hv) else out)"
      have "normalize_headers_from out1 r = Inr out'"
        using 2(4) True Some by (simp add: out1_def Let_def)
      moreover have "k \<noteq> ''host'' \<or> authority_values r = [] \<or> rec_get out1 ''host'' \<noteq> None"
        using 2(5) Some by (auto simp: out1_def split: if_splits)
      ultimately have "rec_get out' k = group_onto out1 (header_entries r) k"
        using 2(2) [OF Some refl refl True] by (simp add: out1_def)
      moreover have "rec_get out1 k = rec_get out k"
        using 2(5) Some by (auto simp: out1_def split: if_splits)
      ultimately show ?thesis using True Some by (simp add: group_onto_def)
    next
      case False
      with 2(4) Some obtain out1 where p: "push_values (js_lower key) (header_values hv) out = Inr out1"
        "normalize_headers_from out1 r = Inr out'"
        by (auto simp: Let_def split: sum.splits)
      from p(1) have g: "rec_get out1 k' = (if k' = js_lower key
          then Some ((case rec_get out k' of None \<Rightarrow> [] | Some ws \<Rightarrow> ws) @ header_values hv) else rec_get out k')" for k'
        by (auto simp: push_values_def split: option.splits if_splits)
      have "js_lower key \<noteq> '':authority''" using False by (auto simp: js_starts_with_def)
      then have "k \<noteq> ''host'' \<or> authority_values r = [] \<or> rec_get out1 ''host'' \<noteq> None"
        using 2(5) Some g [of "''host''"] by auto
      from 2(3) [OF Some refl refl False p(1) p(2) this] g [of k] False Some show ?thesis
        by (auto simp: group_onto_def grouped_def values_of_def split: option.split)
    qed
  qed
qed

section \<open>Query strings\<close>

definition query_entries :: "js_host \<Rightarrow> string list \<Rightarrow> (string \<times> string list) list" where
  "query_entries h parts = map (\<lambda>p. (fst (query_entry h p), [snd (query_entry h p)])) (filter (\<lambda>p. p \<noteq> []) parts)"

lemma parse_query_push: "parse_query_from h q parts = push_all q (query_entries h parts)"
  by (induction h q parts rule: parse_query_from.induct)
    (auto simp: query_entries_def split: sum.split prod.split)

text \<open>The parts of the query string of a URL.\<close>

definition query_parts :: "string \<Rightarrow> string list" where
  "query_parts url = (let noFragment = hd (js_split CHR ''#'' url) in
     case js_index_of ''?'' noFragment of None \<Rightarrow> [] | Some q \<Rightarrow> js_split CHR ''&'' (drop (q + 1) noFragment))"

lemma parseUrl_throws:
  "(\<exists>x. parseUrl h url = Inl x) \<longleftrightarrow> (\<exists>e\<in>set (query_entries h (query_parts url)). fst e \<in> set inherited_names)"
proof (cases "js_index_of ''?'' (hd (js_split CHR ''#'' url))")
  case None
  then show ?thesis by (simp add: parseUrl_def query_parts_def query_entries_def Let_def)
next
  case (Some q)
  then show ?thesis using push_all_throws [of "[]" "query_entries h (query_parts url)"]
    by (auto simp: parseUrl_def query_parts_def parse_query_push Let_def split: sum.split)
qed

section \<open>Properties\<close>

text \<open>Every value of a header is kept, under the lower-case name and in the order
of arrival, and no other value is: what the request offers for a name is the concatenation of what
the raw list gives for its spellings. Pseudo-headers are left out, except that an authority may
serve as the host.\<close>

theorem headers_grouped:
  assumes "normalizeHeaders raw = Inr out" and "k \<noteq> ''host'' \<or> authority_values raw = []"
  shows "rec_get out k = grouped (header_entries raw) k"
proof -
  have "k \<noteq> ''host'' \<or> authority_values raw = [] \<or> rec_get ([] :: string list record_bag) ''host'' \<noteq> None"
    using assms(2) by blast
  from normalize_headers_groups [OF assms(1) [unfolded normalizeHeaders_def] this]
  show ?thesis by (simp add: group_onto_def)
qed

theorem headers_grouped_witness:
  "grouped (header_entries [(''Accept'', Some (One_Value ''a'')), ('':path'', Some (One_Value ''/'')),
     (''ACCEPT'', Some (Many_Values [''b'', ''c'']))]) ''accept'' = Some [''a'', ''b'', ''c'']"
proof -
  have l: "js_lower ''Accept'' = ''accept''" "js_lower ''ACCEPT'' = ''accept''" "js_lower '':path'' = '':path''"
    by code_simp+
  have "normalizeHeaders [(''Accept'', Some (One_Value ''a'')), ('':path'', Some (One_Value ''/'')),
     (''ACCEPT'', Some (Many_Values [''b'', ''c'']))] = Inr [(''accept'', [''a'', ''b'', ''c''])]"
    by (simp add: normalizeHeaders_def l js_starts_with_def header_values_def push_values_def inherited_names_def)
  from headers_grouped [OF this, of "''accept''"] show ?thesis by simp
qed

text \<open>Normalising throws exactly when a header field or a query parameter has the
name of a property that every object inherits, such as \<open>constructor\<close>; a client can send one.\<close>

theorem normalization_throws_iff:
  "(\<exists>e. normalizeRequest h now raw = Inl e) \<longleftrightarrow>
     (\<exists>n\<in>set inherited_names. n \<in> fst ` set (header_entries (rw_headers raw)) \<or>
        n \<in> fst ` set (query_entries h (query_parts (rw_url raw))))"
proof -
  have "(\<exists>e. normalizeRequest h now raw = Inl e) \<longleftrightarrow>
      (\<exists>x. normalizeHeaders (rw_headers raw) = Inl x) \<or> (\<exists>x. parseUrl h (rw_url raw) = Inl x)"
    by (auto simp: normalizeRequest_def Let_def split: sum.split)
  then show ?thesis
    using normalize_headers_throws [of "[]" "rw_headers raw"] parseUrl_throws [of h "rw_url raw"]
    unfolding normalizeHeaders_def by (auto simp: image_iff)
qed

text \<open>The URL a client builds from a path and a list of parameters.\<close>

definition build_query :: "(string \<Rightarrow> string) \<Rightarrow> (string \<times> string) list \<Rightarrow> string" where
  "build_query enc ps = js_join1 CHR ''&'' (map (\<lambda>(k, v). enc k @ ''='' @ enc v) ps)"

definition encoder_ok :: "js_host \<Rightarrow> (string \<Rightarrow> string) \<Rightarrow> bool" where
  "encoder_ok h enc = (\<forall>s. decode_uri h (enc s) = Some s \<and>
     CHR ''&'' \<notin> set (enc s) \<and> CHR ''='' \<notin> set (enc s) \<and> CHR ''#'' \<notin> set (enc s))"

lemma query_entry_built: "encoder_ok h enc \<Longrightarrow> query_entry h (enc k @ ''='' @ enc v) = (k, v)"
  by (simp add: encoder_ok_def query_entry_def safeDecodeURIComponent_def js_index_of_char)

lemma build_query_split:
  "encoder_ok h enc \<Longrightarrow> ps \<noteq> [] \<Longrightarrow>
     js_split CHR ''&'' (build_query enc ps) = map (\<lambda>(k, v). enc k @ ''='' @ enc v) ps"
  by (auto simp: build_query_def encoder_ok_def intro!: js_split_join1)

lemma build_query_no_fragment: "encoder_ok h enc \<Longrightarrow> CHR ''#'' \<notin> set (build_query enc ps)"
proof (induction ps)
  case (Cons p ps)
  then show ?case by (cases ps; cases p) (auto simp: build_query_def encoder_ok_def)
qed (simp add: build_query_def)

text \<open>A URL built from a path and parameters is taken apart into the path and, for
each name, the values of its parameters in order, for every component encoder that the decoder
inverts and that leaves no separator.\<close>

theorem query_roundtrip:
  assumes "encoder_ok h enc" and "ps \<noteq> []" and "CHR ''?'' \<notin> set path" and "CHR ''#'' \<notin> set path"
    and "\<forall>p\<in>set ps. fst p \<notin> set inherited_names"
  shows "\<exists>u. parseUrl h (path @ ''?'' @ build_query enc ps) = Inr u \<and> pu_path u = path \<and>
    (\<forall>k. rec_get (pu_query u) k =
       (if k \<in> fst ` set ps then Some (map snd (filter (\<lambda>p. fst p = k) ps)) else None))"
proof -
  let ?es = "map (\<lambda>(k, v). (k, [v])) ps"
  have "CHR ''#'' \<notin> set (path @ ''?'' @ build_query enc ps)"
    using assms(4) build_query_no_fragment [OF assms(1)] by simp
  then have nf: "hd (js_split CHR ''#'' (path @ ''?'' @ build_query enc ps)) = path @ ''?'' @ build_query enc ps"
    by (simp add: js_split_no_sep)
  have parts: "query_entries h (js_split CHR ''&'' (build_query enc ps)) = ?es"
    using build_query_split [OF assms(1,2)] query_entry_built [OF assms(1)]
    by (simp add: query_entries_def filter_map comp_def split_def)
  have "\<not> (\<exists>x. push_all [] ?es = Inl x)"
    using push_all_throws [of "[]" ?es] assms(5) by auto
  then obtain q where q: "push_all [] ?es = Inr q" by (cases "push_all [] ?es") auto
  have "rec_get q k = (if k \<in> fst ` set ps then Some (map snd (filter (\<lambda>p. fst p = k) ps)) else None)" for k
  proof -
    have "values_of ?es k = map snd (filter (\<lambda>p. fst p = k) ps)" by (induction ps) (auto simp: values_of_def)
    moreover have "k \<in> fst ` set ?es \<longleftrightarrow> k \<in> fst ` set ps" by force
    ultimately show ?thesis using push_all_groups [OF q, of k] by (simp add: group_onto_def grouped_def)
  qed
  then show ?thesis
    using nf parts q js_index_of_char [OF assms(3), of "build_query enc ps"]
    by (simp add: parseUrl_def parse_query_push)
qed

text \<open>A concrete codec: two letters per unit.\<close>

definition nibble_encode :: "string \<Rightarrow> string" where
  "nibble_encode s = concat (map (\<lambda>c. [char_of (97 + (of_char c :: nat) div 16), char_of (97 + (of_char c :: nat) mod 16)]) s)"

fun nibble_decode :: "string \<Rightarrow> string" where
  "nibble_decode (x # y # r) = char_of (16 * (of_char x - 97) + (of_char y - 97) :: nat) # nibble_decode r"
| "nibble_decode s = []"

definition nibble_host :: js_host where
  "nibble_host = sample_host\<lparr>decode_uri := \<lambda>s. Some (nibble_decode s)\<rparr>"

lemma unit_below_256: "(of_char (c :: char) :: nat) < 256"
  using of_char_mod_256 [of c, where 'a = nat] mod_less_divisor [of 256 "of_char c :: nat"] by simp

lemma nibble_units [simp]:
  "(97 + (of_char (c :: char) :: nat) div 16) mod 256 = 97 + of_char c div 16"
  "(97 + (of_char c :: nat) mod 16) mod 256 = 97 + of_char c mod 16"
proof -
  have "(of_char c :: nat) div 16 < 16" using unit_below_256 [of c] by (simp add: less_mult_imp_div_less)
  then show "(97 + (of_char c :: nat) div 16) mod 256 = 97 + of_char c div 16" by simp
qed simp

lemma nibble_decode_encode: "nibble_decode (nibble_encode s) = s"
  by (induction s) (simp_all add: nibble_encode_def)

lemma nibble_letters: "c \<in> set (nibble_encode s) \<Longrightarrow> 97 \<le> (of_char c :: nat)"
  by (auto simp: nibble_encode_def)

lemma nibble_encoder_ok: "encoder_ok nibble_host nibble_encode"
  using nibble_letters [of "CHR ''&''"] nibble_letters [of "CHR ''=''"] nibble_letters [of "CHR ''#''"]
  by (auto simp: encoder_ok_def nibble_host_def nibble_decode_encode)

theorem query_roundtrip_witness:
  "\<exists>u. parseUrl nibble_host (''/a'' @ ''?'' @ build_query nibble_encode [(''x'', ''1''), (''y'', ''2''), (''x'', ''3'')]) = Inr u \<and>
     pu_path u = ''/a'' \<and> rec_get (pu_query u) ''x'' = Some [''1'', ''3'']"
proof -
  have "\<forall>p\<in>set [(''x'', ''1''), (''y'', ''2''), (''x'', ''3'')]. fst p \<notin> set inherited_names"
    by (simp add: inherited_names_def)
  from query_roundtrip [OF nibble_encoder_ok _ _ _ this, of "''/a''"]
  obtain u where u: "parseUrl nibble_host (''/a'' @ ''?'' @ build_query nibble_encode [(''x'', ''1''), (''y'', ''2''), (''x'', ''3'')]) = Inr u"
    "pu_path u = ''/a''"
    "rec_get (pu_query u) ''x'' = Some (map snd (filter (\<lambda>p. fst p = ''x'') [(''x'', ''1''), (''y'', ''2''), (''x'', ''3'')]))"
    by auto
  from u(3) have "rec_get (pu_query u) ''x'' = Some [''1'', ''3'']" by simp
  with u(1,2) show ?thesis by blast
qed

text \<open>The stored body never has more units than the ceiling, is the body itself when
its encoding fits, and is marked as truncated otherwise.\<close>

theorem inbound_body_bounded:
  assumes "normalizeRequest h now raw = Inr (req, s)" and "rw_body raw = Some b"
  shows "(\<exists>b'. rq_body req = Some b' \<and> length b' \<le> maxInboundBodyBytes_ceiling \<and> prefix b' b \<and>
            (\<not> rq_bodyTruncated req \<longrightarrow> b' = b)) \<and>
    rq_bodyTruncated req = (maxInboundBodyBytes_ceiling < utf8_length b) \<and> nz_bodySizeBytes s = utf8_length b"
proof -
  have "length b \<le> utf8_length b" by (induction b) (auto simp: utf8_length_def)
  then show ?thesis using assms
    by (auto simp: normalizeRequest_def Let_def take_is_prefix split: sum.splits if_splits)
qed

theorem normalization_throws_iff_witness:
  "\<exists>e. normalizeRequest sample_host [] \<lparr>rw_method = ''GET'', rw_url = ''/a?constructor=1'', rw_headers = [],
     rw_body = None, rw_remoteAddress = None, rw_receivedAt = None, rw_clientCertSubject = None,
     rw_clientCertFingerprint = None\<rparr> = Inl e"
proof -
  have "''constructor'' \<in> set inherited_names" by (simp add: inherited_names_def)
  moreover have "''constructor'' \<in> fst ` set (query_entries sample_host (query_parts ''/a?constructor=1''))"
    by (simp add: query_parts_def query_entries_def query_entry_def safeDecodeURIComponent_def sample_host_def)
  ultimately show ?thesis
    by (subst normalization_throws_iff) auto
qed

theorem inbound_body_bounded_witness:
  "\<exists>req s. normalizeRequest sample_host [] \<lparr>rw_method = ''GET'', rw_url = ''/a'', rw_headers = [],
     rw_body = Some ''hi'', rw_remoteAddress = None, rw_receivedAt = None, rw_clientCertSubject = None,
     rw_clientCertFingerprint = None\<rparr> = Inr (req, s) \<and> nz_bodySizeBytes s = 2"
proof -
  obtain req s where n: "normalizeRequest sample_host [] \<lparr>rw_method = ''GET'', rw_url = ''/a'', rw_headers = [],
     rw_body = Some ''hi'', rw_remoteAddress = None, rw_receivedAt = None, rw_clientCertSubject = None,
     rw_clientCertFingerprint = None\<rparr> = Inr (req, s)"
    by (simp add: normalizeRequest_def normalizeHeaders_def parseUrl_def Let_def)
  from inbound_body_bounded [OF this] have "nz_bodySizeBytes s = utf8_length ''hi''" by simp
  with n show ?thesis by (simp add: utf8_length_def)
qed

section \<open>Well-formed requests\<close>

text \<open>The type of the requests the matchers work on: names occur once and are not inherited ones,
header names are in lower case and no pseudo-header is left, every name of the query has a value,
cookie names are not empty, the path ends before the query and the fragment, the body respects the
ceiling.\<close>

definition own_names :: "'v record_bag \<Rightarrow> bool" where
  "own_names r = (rec_wf r \<and> set (rec_keys r) \<inter> set inherited_names = {})"

definition header_name_ok :: "string \<Rightarrow> bool" where
  "header_name_ok k = (js_lower k = k \<and> \<not> js_starts_with k '':'')"

definition cookie_name_ok :: "string \<Rightarrow> bool" where
  "cookie_name_ok k = (k \<noteq> [] \<and> k \<noteq> ''__proto__'')"

definition request_wf :: "captured_request \<Rightarrow> bool" where
  "request_wf r =
     (own_names (rq_headers r) \<and> list_all header_name_ok (rec_keys (rq_headers r)) \<and>
      own_names (rq_query r) \<and> list_all (\<lambda>(k, vs). vs \<noteq> []) (rq_query r) \<and>
      rec_wf (rq_cookies r) \<and> list_all cookie_name_ok (rec_keys (rq_cookies r)) \<and>
      CHR ''#'' \<notin> set (rq_rawPath r) \<and> prefix (rq_path r) (rq_rawPath r) \<and> CHR ''?'' \<notin> set (rq_path r) \<and>
      rq_contentType r = first_of (rq_headers r) ''content-type'' \<and>
      (case rq_body r of None \<Rightarrow> True | Some b \<Rightarrow> length b \<le> maxInboundBodyBytes_ceiling))"

lemma own_names_Nil [simp]: "own_names []"
  by (simp add: own_names_def rec_keys_def)

lemma own_names_set: "own_names r \<Longrightarrow> k \<notin> set inherited_names \<Longrightarrow> own_names (rec_set r k v)"
  by (auto simp: own_names_def)

lemma push_values_own: "own_names out \<Longrightarrow> push_values k vs out = Inr out' \<Longrightarrow> own_names out'"
  by (auto simp: push_values_def own_names_def disjoint_iff split: option.splits if_splits)
    (blast dest: rec_get_keys)

lemma push_values_keys: "push_values k vs out = Inr out' \<Longrightarrow> set (rec_keys out') = insert k (set (rec_keys out))"
  by (auto simp: push_values_def split: option.splits if_splits)

lemma push_values_filled:
  "list_all (\<lambda>(k, vs). vs \<noteq> []) out \<Longrightarrow> vs \<noteq> [] \<Longrightarrow> push_values k vs out = Inr out' \<Longrightarrow>
     list_all (\<lambda>(k, vs). vs \<noteq> []) out'"
  using set_rec_set_subset [of out k vs] set_rec_set_subset [of out k "the (rec_get out k) @ vs"]
  by (auto simp: list_all_iff push_values_def split: option.splits if_splits dest!: subsetD)

lemma normalize_headers_own:
  assumes "normalize_headers_from out raw = Inr out'" "own_names out" "list_all header_name_ok (rec_keys out)"
  shows "own_names out' \<and> list_all header_name_ok (rec_keys out')"
  using assms
proof (induction out raw rule: normalize_headers_from.induct)
  case (2 out key v r)
  show ?case
  proof (cases v)
    case None
    with 2 show ?thesis by simp
  next
    case (Some hv)
    show ?thesis
    proof (cases "js_starts_with (js_lower key) '':''")
      case True
      define out1 where "out1 = (if js_lower key = '':authority'' \<and> rec_get out ''host'' = None
          then rec_set out ''host'' (header_values hv) else out)"
      have "header_name_ok ''host''" by (simp add: header_name_ok_def js_lower_def js_lower_char_def js_starts_with_def)
      then have "own_names out1" "list_all header_name_ok (rec_keys out1)"
        using 2(5,6) by (auto simp: out1_def own_names_set list_all_iff)
      with 2(2) [OF Some refl refl True] 2(4) True Some show ?thesis by (simp add: out1_def Let_def)
    next
      case False
      with 2(4) Some obtain out1 where p: "push_values (js_lower key) (header_values hv) out = Inr out1"
        "normalize_headers_from out1 r = Inr out'" by (auto simp: Let_def split: sum.splits)
      have "header_name_ok (js_lower key)" using False by (simp add: header_name_ok_def)
      with 2(6) push_values_keys [OF p(1)] have "list_all header_name_ok (rec_keys out1)"
        by (auto simp: list_all_iff)
      with 2(3) [OF Some refl refl False p(1) p(2) push_values_own [OF 2(5) p(1)]] show ?thesis .
    qed
  qed
qed simp

lemma parse_query_own:
  assumes "parse_query_from h query parts = Inr query'" "own_names query" "list_all (\<lambda>(k, vs). vs \<noteq> []) query"
  shows "own_names query' \<and> list_all (\<lambda>(k, vs). vs \<noteq> []) query'"
  using assms
proof (induction h query parts rule: parse_query_from.induct)
  case (2 h query part parts)
  show ?case
  proof (cases "part = []")
    case False
    obtain key v where kv: "query_entry h part = (key, v)" by fastforce
    from 2(3) False kv obtain q where p: "push_values key [v] query = Inr q" "parse_query_from h q parts = Inr query'"
      by (auto split: sum.splits)
    with 2(2) [OF False kv [symmetric] p(1,2)] push_values_own [OF 2(4) p(1)] push_values_filled [OF 2(5) _ p(1)]
    show ?thesis by simp
  qed (use 2 in simp)
qed simp

lemma parseUrl_wf:
  assumes "parseUrl h url = Inr u"
  shows "CHR ''#'' \<notin> set (pu_rawPath u) \<and> prefix (pu_path u) (pu_rawPath u) \<and> CHR ''?'' \<notin> set (pu_path u) \<and>
    own_names (pu_query u) \<and> list_all (\<lambda>(k, vs). vs \<noteq> []) (pu_query u)"
proof -
  let ?n = "hd (js_split CHR ''#'' url)"
  have nf: "CHR ''#'' \<notin> set ?n" by (rule js_split_parts [of _ _ url]) simp
  show ?thesis
  proof (cases "js_index_of ''?'' ?n")
    case None
    with assms nf show ?thesis by (auto simp: parseUrl_def Let_def dest: index_of_char_absent)
  next
    case (Some q)
    with assms obtain query where p: "parse_query_from h [] (js_split CHR ''&'' (drop (q + 1) ?n)) = Inr query"
      "u = \<lparr>pu_rawPath = ?n, pu_path = take q ?n, pu_query = query\<rparr>"
      by (auto simp: parseUrl_def Let_def split: sum.splits)
    have "CHR ''?'' \<notin> set (take q ?n)" using index_of_char_first Some by blast
    with parse_query_own [OF p(1)] p(2) nf show ?thesis by (simp add: take_is_prefix)
  qed
qed

lemma parseCookies_wf: "rec_wf (parseCookies c) \<and> list_all cookie_name_ok (rec_keys (parseCookies c))"
proof -
  have "rec_wf (foldl add_cookie out ps) \<and> list_all cookie_name_ok (rec_keys (foldl add_cookie out ps))"
    if "rec_wf out \<and> list_all cookie_name_ok (rec_keys out)" for out ps
    using that
  proof (induction ps arbitrary: out)
    case (Cons p ps)
    have "rec_wf (add_cookie out p) \<and> list_all cookie_name_ok (rec_keys (add_cookie out p))"
      using Cons.prems by (auto simp: add_cookie_def Let_def list_all_iff cookie_name_ok_def split: option.split)
    from Cons.IH [OF this] show ?case by simp
  qed simp
  from this [of "[]"] show ?thesis
    by (cases c) (simp_all add: parseCookies_def rec_keys_def)
qed

text \<open>C19. Whatever the host decodes, a normalised request is well formed: names occur once, header
names are in lower case without pseudo-headers, every query name has a value, the path stops before
query and fragment, and the body respects the ceiling; the summary repeats path and query and lists the
same header and cookie names in ascending order of their code units.\<close>

theorem normalized_request_wf:
  assumes "normalizeRequest h now raw = Inr (r, s)"
  shows "request_wf r \<and> mset (nz_headerKeys s) = mset (rec_keys (rq_headers r)) \<and>
    mset (nz_cookieKeys s) = mset (rec_keys (rq_cookies r)) \<and> distinct (nz_headerKeys s) \<and>
    sorted_wrt (\<lambda>a b. a \<le> b) (nz_headerKeys s) \<and> sorted_wrt (\<lambda>a b. a \<le> b) (nz_cookieKeys s) \<and>
    nz_path s = rq_path r \<and> nz_query s = rq_query r \<and> list_all (\<lambda>p. p \<noteq> []) (nz_pathSegments s)"
proof -
  from assms obtain hs u where p: "normalizeHeaders (rw_headers raw) = Inr hs" "parseUrl h (rw_url raw) = Inr u"
    by (auto simp: normalizeRequest_def split: sum.splits)
  have fields: "rq_headers r = hs" "rq_query r = pu_query u" "rq_path r = pu_path u" "rq_rawPath r = pu_rawPath u"
    "rq_contentType r = first_of hs ''content-type''" "nz_path s = pu_path u" "nz_query s = pu_query u"
    "nz_headerKeys s = js_sort code_unit_compare (rec_keys hs)"
    "nz_cookieKeys s = js_sort code_unit_compare (rec_keys (rq_cookies r))"
    "\<exists>c. rq_cookies r = parseCookies c" "\<exists>t. nz_pathSegments s = filter (\<lambda>s. s \<noteq> []) t"
    using assms by (auto simp: normalizeRequest_def p Let_def)
  have "length b \<le> utf8_length b" for b by (induction b) (auto simp: utf8_length_def)
  then have body: "case rq_body r of None \<Rightarrow> True | Some b \<Rightarrow> length b \<le> maxInboundBodyBytes_ceiling"
  proof (cases "rw_body raw")
    case None
    then have "rq_body r = None" using assms by (auto simp: normalizeRequest_def p Let_def)
    then show ?thesis by simp
  next
    case (Some b)
    then have "rq_body r = Some (if maxInboundBodyBytes_ceiling < utf8_length b
        then take maxInboundBodyBytes_ceiling b else b)" using assms by (auto simp: normalizeRequest_def p Let_def)
    with \<open>\<And>b. length b \<le> utf8_length b\<close> [of b] show ?thesis by auto
  qed
  have headers: "own_names hs" "list_all header_name_ok (rec_keys hs)"
    using normalize_headers_own p(1) by (auto simp: normalizeHeaders_def rec_keys_def)
  then have "distinct (js_sort code_unit_compare (rec_keys hs))"
    by (metis mset_js_sort mset_eq_imp_distinct_iff own_names_def rec_keys_def rec_wf_def)
  moreover have "sorted_wrt (\<lambda>a b. a \<le> b) (js_sort code_unit_compare xs)" for xs :: "string list"
    using code_units.sort_sorted [of xs] by (rule sorted_wrt_mono_rel [rotated]) (simp add: code_unit_compare_def split: if_splits)
  moreover have "request_wf r"
    using fields headers body parseUrl_wf [OF p(2)] parseCookies_wf by (auto simp: request_wf_def)
  ultimately show ?thesis using fields by (auto simp: list_all_iff)
qed

theorem normalized_request_wf_witness:
  "\<exists>r s. normalizeRequest sample_host [] \<lparr>rw_method = ''GET'', rw_url = ''/a?x=1'', rw_headers = [(''cookie'', Some (One_Value ''k=v''))],
     rw_body = None, rw_remoteAddress = None, rw_receivedAt = None, rw_clientCertSubject = None,
     rw_clientCertFingerprint = None\<rparr> = Inr (r, s) \<and> request_wf r"
proof -
  have hs: "\<exists>hs. normalizeHeaders [(''cookie'', Some (One_Value ''k=v''))] = Inr hs"
    using normalize_headers_throws [of "[]" "[(''cookie'', Some (One_Value ''k=v''))]"]
    by (cases "normalizeHeaders [(''cookie'', Some (One_Value ''k=v''))]")
      (auto simp: normalizeHeaders_def inherited_names_def js_lower_def js_lower_char_def js_starts_with_def)
  have u: "\<exists>u. parseUrl sample_host ''/a?x=1'' = Inr u"
    by (simp add: parseUrl_def Let_def push_values_def inherited_names_def query_entry_def safeDecodeURIComponent_def sample_host_def)
  obtain r s where n: "normalizeRequest sample_host [] \<lparr>rw_method = ''GET'', rw_url = ''/a?x=1'', rw_headers = [(''cookie'', Some (One_Value ''k=v''))],
     rw_body = None, rw_remoteAddress = None, rw_receivedAt = None, rw_clientCertSubject = None,
     rw_clientCertFingerprint = None\<rparr> = Inr (r, s)"
    using hs u by (auto simp: normalizeRequest_def Let_def)
  from normalized_request_wf [OF this] n show ?thesis by blast
qed

end
