(* ===== verification/Template_Engine.thy ===== *)
theory Template_Engine
  imports Scenario Request_Normalization
begin

text \<open>
  The restricted template engine of response bodies and headers
  (\<open>src/shared/api-mock/templateEngine.ts\<close>) with its faker catalogue (\<open>templateFaker.ts\<close>).

  A template is scanned once from left to right; each \<open>{{...}}\<close> is a reference into the context
  or a call of a helper, and what it yields goes to the output without being scanned again.
  References read own properties. Random identifiers and draws and the clock are parameters, indexed
  by the count of operations. The engine is called with depth 0 only, so the nesting limit never
  applies.
\<close>

section \<open>Context and state\<close>

record template_context =
  tc_method :: string
  tc_path :: string
  tc_pathParams :: "string record_bag"
  tc_query :: "string list record_bag"
  tc_headers :: "string list record_bag"
  tc_cookies :: "string record_bag"
  tc_body :: json
  tc_rawBody :: string
  tc_state :: "string record_bag"
  tc_variables :: "string record_bag"
  tc_counters :: "counter record_bag"
  tc_now :: string
  tc_seed :: string

record template_env =
  te_host :: js_host
  te_uuid :: "nat \<Rightarrow> string"
  te_clock :: "nat \<Rightarrow> string"
  te_random :: "nat \<Rightarrow> rat"

record template_state =
  ts_ops :: nat
  ts_errors :: "string list"

definition TEMPLATE_BLOCKED_KEYS :: "string list" where
  "TEMPLATE_BLOCKED_KEYS = [''__proto__'', ''prototype'', ''constructor'']"

definition MAX_OUTPUT_BYTES :: nat where "MAX_OUTPUT_BYTES = 10485760"
definition MAX_OPS :: nat where "MAX_OPS = 10000"

definition strings_json :: "string record_bag \<Rightarrow> json" where
  "strings_json r = JObj (map (\<lambda>(k, v). (k, JStr v)) r)"

definition lists_json :: "string list record_bag \<Rightarrow> json" where
  "lists_json r = JObj (map (\<lambda>(k, vs). (k, JArr (map JStr vs))) r)"

fun counter_json :: "counter \<Rightarrow> json" where
  "counter_json (Count n) = JNum (of_int n)"
| "counter_json (Joined t) = JStr t"

text \<open>The context as the object a reference walks.\<close>

definition context_json :: "template_context \<Rightarrow> json" where
  "context_json c = JObj
     [(''request'', JObj
        [(''method'', JStr (tc_method c)), (''path'', JStr (tc_path c)), (''pathParams'', strings_json (tc_pathParams c)),
         (''query'', lists_json (tc_query c)), (''headers'', lists_json (tc_headers c)),
         (''cookies'', strings_json (tc_cookies c)), (''body'', tc_body c), (''rawBody'', JStr (tc_rawBody c))]),
      (''state'', strings_json (tc_state c)), (''variables'', strings_json (tc_variables c)),
      (''counters'', JObj (map (\<lambda>(k, n). (k, counter_json n)) (tc_counters c))),
      (''now'', JStr (tc_now c)), (''seed'', JStr (tc_seed c))]"

section \<open>References\<close>

text \<open>\<open>++ops > MAX_OPS\<close> and its error.\<close>

definition operation :: "template_state \<Rightarrow> (template_state \<Rightarrow> string \<times> template_state) \<Rightarrow> string \<times> template_state" where
  "operation st run =
     (let st1 = st\<lparr>ts_ops := ts_ops st + 1\<rparr>
      in if MAX_OPS < ts_ops st1 then ([], st1\<lparr>ts_errors := ts_errors st1 @ [''Operation limit 10000 exceeded'']\<rparr>)
         else run st1)"

definition add_error :: "string \<Rightarrow> template_state \<Rightarrow> template_state" where
  "add_error e st = st\<lparr>ts_errors := ts_errors st @ [e]\<rparr>"

definition walkable :: "json \<Rightarrow> bool" where
  "walkable v = (is_object v \<or> is_array v)"

text \<open>A member that is not the value's own may be inherited: a function, which is not walked any further and
shows as its text.\<close>

definition context_member :: "json \<Rightarrow> string \<Rightarrow> json" where
  "context_member v p =
     (if read_prop v p = JUndef \<and> p \<in> set inherited_names then JStr (inherited_text p) else read_prop v p)"

fun walk_context :: "json \<Rightarrow> string list \<Rightarrow> json option" where
  "walk_context v [] = Some v"
| "walk_context v (p # ps) = (if walkable v then walk_context (context_member v p) ps else None)"

definition reference_text :: "js_host \<Rightarrow> template_context \<Rightarrow> string list \<Rightarrow> string" where
  "reference_text h ctx parts =
     (case walk_context (context_json ctx) parts of
        None \<Rightarrow> [] | Some v \<Rightarrow> if is_nullish v then [] else js_String h v)"

definition resolve_reference :: "template_env \<Rightarrow> template_context \<Rightarrow> string \<Rightarrow> template_state \<Rightarrow> string \<times> template_state" where
  "resolve_reference env ctx path st = operation st (\<lambda>st1.
     let parts = js_split CHR ''.'' path
     in if list_ex (\<lambda>p. p \<in> set TEMPLATE_BLOCKED_KEYS) parts
        then ([], add_error (''Blocked key in path: '' @ path) st1)
        else (reference_text (te_host env) ctx parts, st1))"

section \<open>Seeded draws and the faker catalogue\<close>

text \<open>\<open>min + (hash & 0x7fffffff) % (max - min + 1)\<close>; \<open>None\<close> is \<open>NaN\<close>.\<close>

definition template_random :: "string \<Rightarrow> int option \<Rightarrow> int option \<Rightarrow> int option" where
  "template_random seed lo hi =
     (case (lo, hi) of
        (Some a, Some b) \<Rightarrow>
          (if b - a + 1 = 0 then None
           else Some (a + uint (seed_hash seed AND 0x7FFFFFFF) mod \<bar>b - a + 1\<bar>))
      | _ \<Rightarrow> None)"

definition FIRST :: "string list" where
  "FIRST = [''Ada'', ''Grace'', ''Linus'', ''Niels'', ''Alan'', ''Barbara'', ''Ken'', ''Dorothy'']"
definition LAST :: "string list" where
  "LAST = [''Lovelace'', ''Hopper'', ''Torvalds'', ''Bohr'', ''Turing'', ''Liskov'', ''Thompson'', ''Vaughan'']"
definition CITIES :: "string list" where
  "CITIES = [''Austin'', ''Boston'', ''Seattle'', ''Lisbon'', ''Kyoto'', ''Oslo'', ''Nairobi'', ''Recife'']"
definition WORDS :: "string list" where
  "WORDS = [''alpha'', ''bravo'', ''cipher'', ''delta'', ''echo'', ''falcon'', ''gamma'', ''harbor'']"
definition PRODUCTS :: "string list" where
  "PRODUCTS = [''widget'', ''gasket'', ''relay'', ''sensor'', ''module'', ''adapter'', ''fixture'', ''probe'']"

definition pick :: "string list \<Rightarrow> nat \<Rightarrow> string" where
  "pick items n = items ! (n mod length items)"

fun digits_from :: "32 word \<Rightarrow> nat \<Rightarrow> string \<Rightarrow> string" where
  "digits_from x 0 alphabet = []"
| "digits_from x (Suc n) alphabet =
     (let x' = x * 1664525 + 1013904223
      in alphabet ! (unat x' mod length alphabet) # digits_from x' n alphabet)"

definition digitsFrom :: "nat \<Rightarrow> nat \<Rightarrow> string \<Rightarrow> string" where
  "digitsFrom n len alphabet = digits_from (if n = 0 then 1 else of_nat n) len alphabet"

definition alphanum :: "nat \<Rightarrow> string" where
  "alphanum n = digitsFrom n 8 ''abcdefghijklmnopqrstuvwxyz0123456789''"

definition hexDigits :: "nat \<Rightarrow> nat \<Rightarrow> string" where
  "hexDigits n len = digitsFrom n len ''0123456789abcdef''"

definition js_slice :: "nat \<Rightarrow> nat \<Rightarrow> string \<Rightarrow> string" where
  "js_slice i j s = take (j - i) (drop i s)"

definition faker_key :: "string \<Rightarrow> string" where
  "faker_key path = (let p = js_trim path in if js_starts_with p ''faker.'' then drop 6 p else p)"

text \<open>Draws are not negative, so \<open>Math.abs\<close> has no effect.\<close>

definition renderFakerHelper :: "string \<Rightarrow> nat \<Rightarrow> string" where
  "renderFakerHelper path draw =
     (let key = faker_key path; first = pick FIRST draw; lst = pick LAST (draw + 3)
      in if key = ''person.firstName'' then first
         else if key = ''person.lastName'' then lst
         else if key = ''person.fullName'' then first @ '' '' @ lst
         else if key = ''internet.userName'' then js_lower first @ ''.'' @ js_lower lst
         else if key = ''internet.email'' then js_lower first @ ''.'' @ js_lower lst @ ''@example.test''
         else if key = ''location.city'' then pick CITIES draw
         else if key = ''lorem.word'' then pick WORDS draw
         else if key = ''lorem.sentence'' then ''The '' @ pick WORDS draw @ '' '' @ pick PRODUCTS (draw + 1) @ '' holds.''
         else if key = ''string.alphanumeric'' then alphanum draw
         else if key = ''string.uuid'' then
           (let h = hexDigits draw 32
            in js_slice 0 8 h @ ''-'' @ js_slice 8 12 h @ ''-4'' @ js_slice 13 16 h @ ''-a'' @ js_slice 17 20 h @ ''-'' @
               js_slice 20 32 h)
         else if key = ''number.int'' then js_nat (draw mod 10000)
         else if key = ''datatype.boolean'' then (if draw mod 2 = 0 then ''true'' else ''false'')
         else if key = ''commerce.product'' then pick PRODUCTS draw
         else if key = ''phone.number'' then
           ''+1-555-01'' @ (if draw mod 100 < 10 then ''0'' else []) @ js_nat (draw mod 100)
         else [])"

section \<open>Base 64\<close>

definition b64_char :: "nat \<Rightarrow> char" where
  "b64_char n = (if n < 26 then char_of (n + 65) else if n < 52 then char_of (n + 71)
     else if n < 62 then char_of (n - 4) else if n = 62 then CHR ''+'' else CHR ''/'')"

fun btoa_units :: "nat list \<Rightarrow> string" where
  "btoa_units (a # b # c # r) =
     b64_char (a div 4) # b64_char (a mod 4 * 16 + b div 16) # b64_char (b mod 16 * 4 + c div 64) #
     b64_char (c mod 64) # btoa_units r"
| "btoa_units [a, b] = [b64_char (a div 4), b64_char (a mod 4 * 16 + b div 16), b64_char (b mod 16 * 4), CHR ''='']"
| "btoa_units [a] = [b64_char (a div 4), b64_char (a mod 4 * 16), CHR ''='', CHR ''='']"
| "btoa_units [] = []"

definition js_btoa :: "string \<Rightarrow> string" where
  "js_btoa s = btoa_units (map of_char s)"

section \<open>JSON paths of the body helper\<close>

definition indexed_part :: "string \<Rightarrow> (string \<times> nat) option" where
  "indexed_part part =
     (case js_index_of ''['' part of
        None \<Rightarrow> None
      | Some i \<Rightarrow>
          (let rest = drop (i + 1) part; d = butlast rest
           in if 0 < i \<and> js_ends_with rest '']'' \<and> all_digits d then Some (take i part, digits_value d) else None))"

fun walk_json_path :: "json \<Rightarrow> string list \<Rightarrow> json" where
  "walk_json_path v [] = v"
| "walk_json_path v (part # parts) =
     (if \<not> walkable v then JUndef
      else case indexed_part part of
        Some (key, idx) \<Rightarrow>
          (if key \<in> set TEMPLATE_BLOCKED_KEYS then JUndef
           else case read_prop v key of
             JArr vs \<Rightarrow> walk_json_path (elem_or_undef vs idx) parts
           | _ \<Rightarrow> JUndef)
      | None \<Rightarrow>
          (if part \<in> set TEMPLATE_BLOCKED_KEYS then JUndef else walk_json_path (context_member v part) parts))"

definition strip_dollar :: "string \<Rightarrow> string" where
  "strip_dollar p = (if js_starts_with p ''$.'' then drop 2 p else if js_starts_with p ''$'' then drop 1 p else p)"

definition resolveJsonPath :: "json \<Rightarrow> string \<Rightarrow> json" where
  "resolveJsonPath v path = walk_json_path v (filter (\<lambda>p. p \<noteq> []) (js_split CHR ''.'' (strip_dollar path)))"

section \<open>Helpers\<close>

definition HELPER_NAMES :: "string list" where
  "HELPER_NAMES = [''pathParam'', ''query'', ''header'', ''cookie'', ''state'', ''counter'',
     ''uuid'', ''now'', ''randomInt'', ''oneOf'', ''repeat'', ''base64'', ''jsonPath'', ''faker'']"

definition isHelper :: "string \<Rightarrow> bool" where
  "isHelper name = (name \<in> set HELPER_NAMES)"

definition arg :: "string list \<Rightarrow> nat \<Rightarrow> string \<Rightarrow> string" where
  "arg args i d = (if i < length args then args ! i else d)"

definition first_value :: "string list record_bag \<Rightarrow> string \<Rightarrow> string" where
  "first_value r k = (case rec_get r k of Some (v # vs) \<Rightarrow> v | _ \<Rightarrow> [])"

definition int_text :: "int option \<Rightarrow> string" where
  "int_text n = (case n of None \<Rightarrow> ''NaN'' | Some i \<Rightarrow> js_int i)"

definition random_int :: "template_env \<Rightarrow> template_context \<Rightarrow> nat \<Rightarrow> int option \<Rightarrow> int option \<Rightarrow> string" where
  "random_int env ctx n lo hi =
     (if tc_seed ctx \<noteq> [] then int_text (template_random (tc_seed ctx) lo hi)
      else case (lo, hi) of
        (Some a, Some b) \<Rightarrow> js_int (\<lfloor>te_random env n * of_int (b - a + 1)\<rfloor> + a)
      | _ \<Rightarrow> ''NaN'')"

definition one_of :: "template_env \<Rightarrow> template_context \<Rightarrow> nat \<Rightarrow> string list \<Rightarrow> string" where
  "one_of env ctx n args =
     (if args = [] then []
      else if tc_seed ctx \<noteq> [] then
        (case template_random (tc_seed ctx) (Some 0) (Some (int (length args) - 1)) of
           Some i \<Rightarrow> arg args (nat i) [] | None \<Rightarrow> [])
      else arg args (nat \<lfloor>te_random env n * of_nat (length args)\<rfloor>) [])"

definition repeat_text :: "string list \<Rightarrow> string" where
  "repeat_text args =
     (let n = (case js_parse_int (arg args 0 ''1'') of None \<Rightarrow> 0 | Some i \<Rightarrow> nat (max 0 (min i 100)))
      in concat (replicate n (arg args 1 [])))"

definition json_path_text :: "template_env \<Rightarrow> template_context \<Rightarrow> string list \<Rightarrow> string" where
  "json_path_text env ctx args =
     (if \<not> walkable (tc_body ctx) then []
      else (let resolved = resolveJsonPath (tc_body ctx) (arg args 0 ''$'')
            in if is_nullish resolved then []
               else if walkable resolved then json_stringify (te_host env) resolved
               else js_String (te_host env) resolved))"

definition faker_text :: "template_env \<Rightarrow> template_context \<Rightarrow> string list \<Rightarrow> template_state \<Rightarrow> string \<times> template_state" where
  "faker_text env ctx args st =
     (let path = arg args 0 []
      in if path = [] then ([], add_error ''faker requires a path, e.g. person.firstName'' st)
         else (let draw = (if tc_seed ctx \<noteq> []
                 then nat (Scenario.seededRandom (tc_seed ctx @ '':'' @ path @ '':'' @ js_nat (ts_ops st)) 0 0x7FFFFFFF)
                 else nat \<lfloor>te_random env (ts_ops st) * 0x7FFFFFFF\<rfloor>);
                   v = renderFakerHelper path draw
               in if v = [] then ([], add_error (''Unknown faker helper: '' @ path) st) else (v, st)))"

fun counter_shown :: "counter slot \<Rightarrow> string" where
  "counter_shown (Own (Count n)) = js_int n"
| "counter_shown (Own (Joined t)) = t"
| "counter_shown (Inherited n) = inherited_text n"

definition processHelper ::
  "template_env \<Rightarrow> template_context \<Rightarrow> string \<Rightarrow> string list \<Rightarrow> template_state \<Rightarrow> string \<times> template_state" where
  "processHelper env ctx name args st = operation st (\<lambda>st1.
     let a0 = arg args 0 []; n = ts_ops st1
     in if name = ''pathParam'' then ((if a0 \<noteq> [] then slot_text (js_member_or [] (tc_pathParams ctx) a0) else []), st1)
        else if name = ''query'' then ((if a0 \<noteq> [] then first_value (tc_query ctx) a0 else []), st1)
        else if name = ''header'' then ((if a0 \<noteq> [] then first_value (tc_headers ctx) (js_lower a0) else []), st1)
        else if name = ''cookie'' then ((if a0 \<noteq> [] then slot_text (js_member_or [] (tc_cookies ctx) a0) else []), st1)
        else if name = ''state'' then ((if a0 \<noteq> [] then slot_text (js_member_or [] (tc_state ctx) a0) else []), st1)
        else if name = ''counter'' then ((if a0 \<noteq> [] then counter_shown (js_member_or (Count 0) (tc_counters ctx) a0) else ''0''), st1)
        else if name = ''uuid'' then (te_uuid env n, st1)
        else if name = ''now'' then ((if tc_now ctx \<noteq> [] then tc_now ctx else te_clock env n), st1)
        else if name = ''randomInt'' then
          (random_int env ctx n (js_parse_int (arg args 0 ''0'')) (js_parse_int (arg args 1 ''100'')), st1)
        else if name = ''oneOf'' then (one_of env ctx n args, st1)
        else if name = ''repeat'' then (repeat_text args, st1)
        else if name = ''base64'' then
          (if arg args 1 ''encode'' = ''decode'' then
             (case js_atob a0 of Some t \<Rightarrow> (t, st1) | None \<Rightarrow> ([], add_error ''base64 decode failed'' st1))
           else (js_btoa a0, st1))
        else if name = ''jsonPath'' then (json_path_text env ctx args, st1)
        else if name = ''faker'' then faker_text env ctx args st1
        else ([], add_error (''Unknown helper: '' @ name) st1))"

section \<open>Expressions\<close>

record parse_state =
  ps_parts :: "string list"
  ps_current :: string
  ps_quote :: "char option"

definition flush_part :: "parse_state \<Rightarrow> parse_state" where
  "flush_part p = (if js_trim (ps_current p) \<noteq> []
     then p\<lparr>ps_parts := ps_parts p @ [js_trim (ps_current p)], ps_current := []\<rparr> else p)"

definition parse_char :: "parse_state \<Rightarrow> char \<Rightarrow> parse_state" where
  "parse_char p ch =
     (case ps_quote p of
        Some q \<Rightarrow>
          (if ch = q then p\<lparr>ps_quote := None, ps_parts := ps_parts p @ [ps_current p], ps_current := []\<rparr>
           else p\<lparr>ps_current := ps_current p @ [ch]\<rparr>)
      | None \<Rightarrow>
          (if ch = CHR 0x27 \<or> ch = CHR 0x22 then flush_part (p\<lparr>ps_quote := Some ch\<rparr>)
           else if ch = CHR '' '' \<or> ch = CHR 0x09 then flush_part p
           else p\<lparr>ps_current := ps_current p @ [ch]\<rparr>))"

definition parseExpression :: "string \<Rightarrow> string list" where
  "parseExpression expr =
     ps_parts (flush_part (foldl parse_char \<lparr>ps_parts = [], ps_current = [], ps_quote = None\<rparr> expr))"

section \<open>Rendering\<close>

definition evaluate_expression ::
  "template_env \<Rightarrow> template_context \<Rightarrow> string list \<Rightarrow> template_state \<Rightarrow> string \<times> template_state" where
  "evaluate_expression env ctx parts st =
     (case parts of
        [] \<Rightarrow> ([], st)
      | helperName # helperArgs \<Rightarrow>
          (if helperArgs = [] \<and> \<not> isHelper helperName then resolve_reference env ctx helperName st
           else processHelper env ctx helperName helperArgs st))"

record template_result =
  tr_output :: string
  tr_errors :: "string list"
  tr_truncated :: bool
  tr_operationCount :: nat

function render_from :: "template_env \<Rightarrow> template_context \<Rightarrow> string \<Rightarrow> string \<Rightarrow> template_state \<Rightarrow>
    string \<times> bool \<times> template_state" where
  "render_from env ctx [] result st = (result, False, st)"
| "render_from env ctx (c # r) result st =
     (if MAX_OUTPUT_BYTES < length result then (result, True, st)
      else if c = CHR ''{'' \<and> r \<noteq> [] \<and> hd r = CHR ''{'' then
        (case js_index_of ''}}'' (tl r) of
           None \<Rightarrow> (result @ c # r, False, st)
         | Some i \<Rightarrow>
             (let expr = js_trim (take i (tl r)); rest = drop (i + 2) (tl r)
              in if expr = [] then render_from env ctx rest result st
                 else (case evaluate_expression env ctx (parseExpression expr) st of
                         (v, st') \<Rightarrow> render_from env ctx rest (result @ v) st')))
      else render_from env ctx r (result @ [c]) st)"
  by pat_completeness auto
termination by (relation "measure (\<lambda>(env, ctx, t, r, st). length t)") auto

definition renderTemplate :: "template_env \<Rightarrow> template_context \<Rightarrow> string \<Rightarrow> template_result" where
  "renderTemplate env ctx template =
     (case render_from env ctx template [] \<lparr>ts_ops = 0, ts_errors = []\<rparr> of
        (out, truncated, st) \<Rightarrow>
          \<lparr>tr_output = out, tr_errors = ts_errors st, tr_truncated = truncated, tr_operationCount = ts_ops st\<rparr>)"

section \<open>Substitution\<close>

text \<open>A reference that is parsed as a single name: no quote, blank or closing brace, and not
the name of a helper.\<close>

definition plain_reference :: "string \<Rightarrow> bool" where
  "plain_reference r =
     (r \<noteq> [] \<and> js_trim r = r \<and> \<not> isHelper r \<and>
      (\<forall>c\<in>set r. c \<noteq> CHR ''}'' \<and> c \<noteq> CHR '' '' \<and> c \<noteq> CHR 0x09 \<and> c \<noteq> CHR 0x27 \<and> c \<noteq> CHR 0x22))"

definition blocked_reference :: "string \<Rightarrow> bool" where
  "blocked_reference r = list_ex (\<lambda>p. p \<in> set TEMPLATE_BLOCKED_KEYS) (js_split CHR ''.'' r)"

definition reference_value :: "template_env \<Rightarrow> template_context \<Rightarrow> string \<Rightarrow> string" where
  "reference_value env ctx r =
     (if blocked_reference r then [] else reference_text (te_host env) ctx (js_split CHR ''.'' r))"

text \<open>A template as pieces of text, each followed by a reference, and a tail.\<close>

definition template_of :: "(string \<times> string) list \<Rightarrow> string \<Rightarrow> string" where
  "template_of segs end_text = concat (map (\<lambda>(t, r). t @ ''{{'' @ r @ ''}}'') segs) @ end_text"

definition substituted :: "template_env \<Rightarrow> template_context \<Rightarrow> (string \<times> string) list \<Rightarrow> string \<Rightarrow> string" where
  "substituted env ctx segs end_text = concat (map (\<lambda>(t, r). t @ reference_value env ctx r) segs) @ end_text"

lemma render_text:
  "CHR ''{'' \<notin> set t \<Longrightarrow> length result + length t \<le> MAX_OUTPUT_BYTES \<Longrightarrow>
     render_from env ctx (t @ rest) result st = render_from env ctx rest (result @ t) st"
  by (induction t arbitrary: result) auto

lemma parse_plain:
  "ps_quote p = None \<Longrightarrow> \<forall>c\<in>set r. c \<noteq> CHR '' '' \<and> c \<noteq> CHR 0x09 \<and> c \<noteq> CHR 0x27 \<and> c \<noteq> CHR 0x22 \<Longrightarrow>
     foldl parse_char p r = p\<lparr>ps_current := ps_current p @ r\<rparr>"
  by (induction r arbitrary: p) (simp_all add: parse_char_def)

lemma parseExpression_plain: "plain_reference r \<Longrightarrow> parseExpression r = [r]"
  by (simp add: parseExpression_def parse_plain plain_reference_def flush_part_def)

lemma index_of_braces: "CHR ''}'' \<notin> set r \<Longrightarrow> js_index_of ''}}'' (r @ ''}}'' @ rest) = Some (length r)"
  by (induction r) auto

lemma resolve_value:
  "ts_ops st < MAX_OPS \<Longrightarrow> resolve_reference env ctx r st =
     (reference_value env ctx r,
      st\<lparr>ts_ops := ts_ops st + 1, ts_errors := ts_errors st @ (if blocked_reference r then [''Blocked key in path: '' @ r] else [])\<rparr>)"
  by (simp add: resolve_reference_def operation_def reference_value_def blocked_reference_def add_error_def Let_def)

lemma render_reference:
  assumes "plain_reference r" and "ts_ops st < MAX_OPS" and "length result \<le> MAX_OUTPUT_BYTES"
  shows "render_from env ctx (''{{'' @ r @ ''}}'' @ rest) result st =
    render_from env ctx rest (result @ reference_value env ctx r)
      (st\<lparr>ts_ops := ts_ops st + 1, ts_errors := ts_errors st @ (if blocked_reference r then [''Blocked key in path: '' @ r] else [])\<rparr>)"
proof -
  have i: "js_index_of ''}}'' (r @ ''}}'' @ rest) = Some (length r)"
    using assms(1) by (intro index_of_braces) (auto simp: plain_reference_def)
  have "render_from env ctx (''{{'' @ r @ ''}}'' @ rest) result st =
      (case evaluate_expression env ctx (parseExpression r) st of (v, st') \<Rightarrow> render_from env ctx rest (result @ v) st')"
    using assms(1,3) i by (simp add: plain_reference_def Let_def)
  then show ?thesis
    using assms(1,2) by (simp add: parseExpression_plain evaluate_expression_def resolve_value plain_reference_def)
qed

lemma render_segments:
  assumes "\<forall>(t, r)\<in>set segs. CHR ''{'' \<notin> set t \<and> plain_reference r" and "CHR ''{'' \<notin> set end_text"
    and "ts_ops st + length segs \<le> MAX_OPS"
    and "length result + length (substituted env ctx segs end_text) \<le> MAX_OUTPUT_BYTES"
  shows "render_from env ctx (template_of segs end_text) result st =
    (result @ substituted env ctx segs end_text, False,
     st\<lparr>ts_ops := ts_ops st + length segs, ts_errors := ts_errors st @
        map (\<lambda>r. ''Blocked key in path: '' @ r) (filter blocked_reference (map snd segs))\<rparr>)"
  using assms(1,3,4)
proof (induction segs arbitrary: result st)
  case Nil
  then show ?case
    using render_text [OF assms(2), of result env ctx "[]" st] by (simp add: template_of_def substituted_def)
next
  case (Cons seg segs)
  obtain t r where seg: "seg = (t, r)" by fastforce
  let ?st = "st\<lparr>ts_ops := ts_ops st + 1, ts_errors := ts_errors st @ (if blocked_reference r then [''Blocked key in path: '' @ r] else [])\<rparr>"
  have sub: "substituted env ctx (seg # segs) end_text = t @ reference_value env ctx r @ substituted env ctx segs end_text"
    by (simp add: substituted_def seg)
  have tmpl: "template_of (seg # segs) end_text = t @ ''{{'' @ r @ ''}}'' @ template_of segs end_text"
    by (simp add: template_of_def seg)
  have "render_from env ctx (template_of (seg # segs) end_text) result st =
      render_from env ctx (''{{'' @ r @ ''}}'' @ template_of segs end_text) (result @ t) st"
    unfolding tmpl using Cons.prems seg sub by (intro render_text) auto
  also have "\<dots> = render_from env ctx (template_of segs end_text) ((result @ t) @ reference_value env ctx r) ?st"
    using Cons.prems seg sub by (intro render_reference) auto
  also have "\<dots> = (((result @ t) @ reference_value env ctx r) @ substituted env ctx segs end_text, False,
     ?st\<lparr>ts_ops := ts_ops ?st + length segs, ts_errors := ts_errors ?st @
        map (\<lambda>r. ''Blocked key in path: '' @ r) (filter blocked_reference (map snd segs))\<rparr>)"
    using Cons.prems seg sub by (intro Cons.IH) auto
  finally show ?case unfolding sub by (simp add: seg)
qed

text \<open>Rendering replaces each reference by its value and leaves everything else as it
is, whatever the values contain: braces in request data reach the output verbatim and are never
evaluated. A reference through a blocked key yields nothing and one error.\<close>

theorem template_substitution:
  assumes "\<forall>(t, r)\<in>set segs. CHR ''{'' \<notin> set t \<and> plain_reference r" and "CHR ''{'' \<notin> set end_text"
    and "length segs \<le> MAX_OPS" and "length (substituted env ctx segs end_text) \<le> MAX_OUTPUT_BYTES"
  shows "renderTemplate env ctx (template_of segs end_text) =
    \<lparr>tr_output = substituted env ctx segs end_text,
     tr_errors = map (\<lambda>r. ''Blocked key in path: '' @ r) (filter blocked_reference (map snd segs)),
     tr_truncated = False, tr_operationCount = length segs\<rparr>"
  using render_segments [of segs end_text "\<lparr>ts_ops = 0, ts_errors = []\<rparr>" "[]" env ctx] assms
  by (simp add: renderTemplate_def)

definition sample_context :: template_context where
  "sample_context = \<lparr>tc_method = ''GET'', tc_path = ''/a'', tc_pathParams = [(''id'', ''{{state.x}}'')], tc_query = [],
     tc_headers = [], tc_cookies = [], tc_body = JNull, tc_rawBody = [], tc_state = [(''x'', ''secret'')],
     tc_variables = [], tc_counters = [], tc_now = ''now'', tc_seed = ''s''\<rparr>"

definition sample_template_env :: template_env where
  "sample_template_env = \<lparr>te_host = sample_host, te_uuid = (\<lambda>n. []), te_clock = (\<lambda>n. []), te_random = (\<lambda>n. 0)\<rparr>"

lemma sample_reference:
  "reference_value sample_template_env sample_context ''request.pathParams.id'' = ''{{state.x}}''"
  by code_simp

theorem template_substitution_witness:
  "tr_output (renderTemplate sample_template_env sample_context ''id={{request.pathParams.id}}!'') = ''id={{state.x}}!''"
proof -
  have p: "plain_reference ''request.pathParams.id''" by code_simp
  from p template_substitution [of "[(''id='', ''request.pathParams.id'')]" "''!''" sample_template_env sample_context]
  show ?thesis by (simp add: template_of_def substituted_def sample_reference MAX_OPS_def MAX_OUTPUT_BYTES_def)
qed

section \<open>Base 64 is inverted\<close>

lemma b64_code:
  "n < 64 \<Longrightarrow> (of_char (b64_char n) :: nat) = (if n < 26 then n + 65 else if n < 52 then n + 71
     else if n < 62 then n - 4 else if n = 62 then 43 else 47)"
  by (auto simp: b64_char_def)

lemma b64_value_char: "n < 64 \<Longrightarrow> b64_value (b64_char n) = Some n"
  by (auto simp: b64_value_def b64_code Let_def)

lemma b64_char_plain: "n < 64 \<Longrightarrow> b64_char n \<noteq> CHR ''='' \<and> (of_char (b64_char n) :: nat) \<notin> {9, 10, 12, 13, 32}"
  using b64_code [of n] by (auto split: if_splits)

text \<open>The units of an encoding without its padding, and their values.\<close>

fun b64_values :: "nat list \<Rightarrow> nat list" where
  "b64_values (a # b # c # r) = [a div 4, a mod 4 * 16 + b div 16, b mod 16 * 4 + c div 64, c mod 64] @ b64_values r"
| "b64_values [a, b] = [a div 4, a mod 4 * 16 + b div 16, b mod 16 * 4]"
| "b64_values [a] = [a div 4, a mod 4 * 16]"
| "b64_values [] = []"

definition b64_padding :: "nat list \<Rightarrow> string" where
  "b64_padding us = (if length us mod 3 = 1 then ''=='' else if length us mod 3 = 2 then ''='' else [])"

lemma btoa_values: "btoa_units us = map b64_char (b64_values us) @ b64_padding us"
  by (induction us rule: btoa_units.induct) (auto simp: b64_padding_def)

lemma b64_values_small: "\<forall>u\<in>set us. u < 256 \<Longrightarrow> \<forall>v\<in>set (b64_values us). v < 64"
proof (induction us rule: b64_values.induct)
  case (1 a b c r)
  then have "a < 256" "b < 256" "c < 256" by auto
  then have "a div 4 < 64" "a mod 4 * 16 + b div 16 < 64" "b mod 16 * 4 + c div 64 < 64" by linarith+
  with 1 show ?case by auto
next
  case (2 a b)
  then have "a < 256" "b < 256" by auto
  then have "a div 4 < 64" "a mod 4 * 16 + b div 16 < 64" by linarith+
  then show ?case by auto
next
  case (3 a)
  then have "a div 4 < 64" by auto
  then show ?case by auto
qed simp

lemma b64_bytes_values: "\<forall>u\<in>set us. u < 256 \<Longrightarrow> b64_bytes (b64_values us) = us"
proof (induction us rule: b64_values.induct)
  case (1 a b c r)
  then have "c < 256" "b < 256" by auto
  then have "b div 16 < 16" "c div 64 < 4" by linarith+
  then have "(a mod 4 * 16 + b div 16) div 16 = a mod 4" "(a mod 4 * 16 + b div 16) mod 16 = b div 16"
    "(b mod 16 * 4 + c div 64) div 4 = b mod 16" "(b mod 16 * 4 + c div 64) mod 4 = c div 64" by simp_all
  with 1 show ?case by simp
next
  case (2 a b)
  then have "b div 16 < 16" by auto
  then have "(a mod 4 * 16 + b div 16) div 16 = a mod 4" "(a mod 4 * 16 + b div 16) mod 16 = b div 16" by simp_all
  then show ?case by simp
qed simp_all

lemma length_b64_values:
  "length (b64_values us) mod 4 = (if length us mod 3 = 1 then 2 else if length us mod 3 = 2 then 3 else 0)"
  by (induction us rule: b64_values.induct) (auto simp: mod_Suc)

lemma strip_btoa:
  assumes "\<forall>v\<in>set vs. v < 64" and "length vs mod 4 = (if p = ''=='' then 2 else if p = ''='' then 3 else 0)"
    and "p \<in> {'''', ''='', ''==''}"
  shows "b64_strip_padding (map b64_char vs @ p) = map b64_char vs"
proof -
  have n: "CHR ''='' \<notin> set (map b64_char vs)"
  proof
    assume "CHR ''='' \<in> set (map b64_char vs)"
    then obtain v where "v \<in> set vs" "b64_char v = CHR ''=''" by auto
    with assms(1) b64_char_plain [of v] show False by blast
  qed
  consider "p = []" | "p = ''=''" | "p = ''==''" using assms(3) by blast
  then show ?thesis
  proof cases
    case 1
    have "\<not> suffix ''='' (map b64_char vs)" "\<not> suffix ''=='' (map b64_char vs)"
      using n set_mono_suffix [of "''=''" "map b64_char vs"] set_mono_suffix [of "''==''" "map b64_char vs"] by auto
    with 1 show ?thesis by (simp add: b64_strip_padding_def js_ends_with_def)
  next
    case 2
    have "\<not> suffix ''=='' (map b64_char vs @ ''='')"
    proof
      assume "suffix ''=='' (map b64_char vs @ ''='')"
      then have "suffix [CHR ''=''] (map b64_char vs)"
        using suffix_snoc by (force simp: suffix_def)
      with n set_mono_suffix show False by fastforce
    qed
    moreover have "(length vs + 1) mod 4 = 0" using assms(2) 2 by (simp add: mod_Suc)
    ultimately show ?thesis using 2 by (simp add: b64_strip_padding_def js_ends_with_def suffix_def)
  next
    case 3
    moreover have "(length vs + 2) mod 4 = 0" using assms(2) 3 by (simp add: mod_Suc)
    ultimately show ?thesis by (simp add: b64_strip_padding_def js_ends_with_def suffix_def butlast_append)
  qed
qed

lemma js_atob_btoa: "js_atob (js_btoa s) = Some s"
proof -
  define us where "us = (map of_char s :: nat list)"
  have small: "\<forall>u\<in>set us. u < 256" by (auto simp: us_def unit_below_256)
  note v = b64_values_small [OF small]
  have filt: "filter (\<lambda>c. (of_char c :: nat) \<notin> {9, 10, 12, 13, 32}) (btoa_units us) = btoa_units us"
    unfolding btoa_values filter_id_conv using v b64_char_plain by (auto simp: b64_padding_def)
  have strip: "b64_strip_padding (btoa_units us) = map b64_char (b64_values us)"
    unfolding btoa_values by (rule strip_btoa [OF v]) (auto simp: length_b64_values b64_padding_def)
  have vals: "\<forall>x\<in>set (b64_values us). b64_value (b64_char x) = Some x"
    using v b64_value_char by simp
  then have the_vals: "map (\<lambda>x. the (b64_value (b64_char x))) (b64_values us) = b64_values us"
    by (intro map_idI) simp
  have "map (\<lambda>n. char_of n) (b64_bytes (b64_values us)) = s"
    unfolding b64_bytes_values [OF small] by (simp add: us_def comp_def)
  then show ?thesis
    using filt strip vals the_vals length_b64_values [of us]
    by (simp add: js_atob_def js_btoa_def us_def [symmetric] Let_def comp_def image_iff split: if_splits)
qed

text \<open>The base64 helper reads back what it wrote: decoding the encoding of a text gives
the text, for every text and every context, without an error and at the cost of one operation
each.\<close>

theorem base64_roundtrip:
  assumes "ts_ops st < MAX_OPS" and "ts_ops st' < MAX_OPS"
    and "(encoded, st1) = processHelper env ctx ''base64'' [s] st"
  shows "processHelper env ctx ''base64'' [encoded, ''decode''] st' = (s, st'\<lparr>ts_ops := ts_ops st' + 1\<rparr>) \<and>
    st1 = st\<lparr>ts_ops := ts_ops st + 1\<rparr>"
  using assms by (simp add: processHelper_def operation_def js_atob_btoa arg_def)

theorem base64_roundtrip_witness:
  "fst (processHelper sample_template_env sample_context ''base64''
     [fst (processHelper sample_template_env sample_context ''base64'' [''hi''] \<lparr>ts_ops = 0, ts_errors = []\<rparr>), ''decode'']
     \<lparr>ts_ops = 1, ts_errors = []\<rparr>) = ''hi''"
proof -
  let ?st = "\<lparr>ts_ops = 0, ts_errors = []\<rparr>" and ?st' = "\<lparr>ts_ops = 1, ts_errors = []\<rparr>"
  have "processHelper sample_template_env sample_context ''base64''
      [fst (processHelper sample_template_env sample_context ''base64'' [''hi''] ?st), ''decode''] ?st' =
      (''hi'', ?st'\<lparr>ts_ops := ts_ops ?st' + 1\<rparr>)"
    using base64_roundtrip [of ?st ?st', OF _ _ surjective_pairing [symmetric]] by (simp add: MAX_OPS_def)
  then show ?thesis by simp
qed

end
