(* ===== verification/Response_Renderer.thy ===== *)
theory Response_Renderer
  imports Template_Engine Near_Miss
begin

text \<open>
  Rendering of a selected response: headers, cookies and body of the variant through the template
  engine (\<open>src/shared/api-mock/responseRenderer.ts\<close>), the typed transforms applied afterwards
  (\<open>responseTransforms.ts\<close>), and the debug body for unmatched requests
  (\<open>closestMatchDebug.ts\<close>).

  Each template call gets the template environment of its index, so random identifiers may differ
  between calls; the state threads that index and the count of template errors.
\<close>

type_synonym header_map = "(string \<times> header_value) list"

record rendered_variant =
  rn_status :: int
  rn_headers :: header_map
  rn_body :: string
  rn_templateErrorCount :: nat

section \<open>Rendering\<close>

record render_state =
  rd_calls :: nat
  rd_errors :: nat

definition applyTemplate ::
  "(nat \<Rightarrow> template_env) \<Rightarrow> template_context \<Rightarrow> string \<Rightarrow> render_state \<Rightarrow> string \<times> render_state" where
  "applyTemplate envs ctx v st =
     (if \<not> js_includes v ''{{'' then (v, st)
      else (let r = renderTemplate (envs (rd_calls st)) ctx v
            in (tr_output r, \<lparr>rd_calls = rd_calls st + 1, rd_errors = rd_errors st + length (tr_errors r)\<rparr>)))"

definition template_body :: "js_host \<Rightarrow> captured_request \<Rightarrow> json" where
  "template_body h req = (case rq_body req of None \<Rightarrow> JNull
     | Some b \<Rightarrow> (case json_parse h b of Some v \<Rightarrow> v | None \<Rightarrow> JStr b))"

definition variable_bag :: "api_variable list \<Rightarrow> string record_bag" where
  "variable_bag vs = foldl (\<lambda>r v. rec_set r (av_key v) (av_value v)) [] vs"

definition render_context ::
  "js_host \<Rightarrow> captured_request \<Rightarrow> route \<Rightarrow> string \<Rightarrow> scenario_state \<Rightarrow> api_variable list \<Rightarrow> string \<Rightarrow> string \<Rightarrow> template_context" where
  "render_context h req rt basePath scenario variables seed now =
     \<lparr>tc_method = rq_method req, tc_path = rq_path req,
      tc_pathParams = pmr_params (matchPath h (rt_path rt) (stripBasePath (rq_path req) basePath)),
      tc_query = rq_query req, tc_headers = rq_headers req, tc_cookies = rq_cookies req,
      tc_body = template_body h req, tc_rawBody = (case rq_body req of None \<Rightarrow> [] | Some b \<Rightarrow> b),
      tc_state = sc_states scenario, tc_variables = variable_bag variables, tc_counters = sc_counters scenario,
      tc_now = now, tc_seed = seed\<rparr>"

fun render_headers :: "(nat \<Rightarrow> template_env) \<Rightarrow> template_context \<Rightarrow> header_map \<Rightarrow> response_header list \<Rightarrow> render_state \<Rightarrow>
    header_map \<times> render_state" where
  "render_headers envs ctx out [] st = (out, st)"
| "render_headers envs ctx out (hd' # hds) st =
     (if \<not> rh_enabled hd' then render_headers envs ctx out hds st
      else case applyTemplate envs ctx (rh_value hd') st of
        (v, st') \<Rightarrow> render_headers envs ctx (rec_set out (rh_key hd') (One_Value v)) hds st')"

definition optional_part :: "string \<Rightarrow> string option \<Rightarrow> string list" where
  "optional_part name v = (case if_nonempty v of None \<Rightarrow> [] | Some s \<Rightarrow> [name @ s])"

definition cookie_text :: "response_cookie \<Rightarrow> string \<Rightarrow> string" where
  "cookie_text c v = js_join ''; ''
     ([ck_name c @ ''='' @ v] @ optional_part ''Path='' (ck_path c) @ optional_part ''Domain='' (ck_domain c) @
      (case ck_maxAge c of None \<Rightarrow> [] | Some a \<Rightarrow> [''Max-Age='' @ js_int a]) @
      (if ck_secure c then [''Secure''] else []) @ (if ck_httpOnly c then [''HttpOnly''] else []) @
      optional_part ''SameSite='' (ck_sameSite c))"

fun render_cookies :: "(nat \<Rightarrow> template_env) \<Rightarrow> template_context \<Rightarrow> response_cookie list \<Rightarrow> render_state \<Rightarrow>
    string list \<times> render_state" where
  "render_cookies envs ctx [] st = ([], st)"
| "render_cookies envs ctx (c # cs) st =
     (if \<not> ck_enabled c then render_cookies envs ctx cs st
      else case applyTemplate envs ctx (ck_value c) st of
        (v, st') \<Rightarrow> (case render_cookies envs ctx cs st' of (ts, st'') \<Rightarrow> (cookie_text c v # ts, st'')))"

definition set_cookies :: "string list \<Rightarrow> header_map \<Rightarrow> header_map" where
  "set_cookies cs headers =
     (if length cs = 1 then rec_set headers ''Set-Cookie'' (One_Value (hd cs))
      else if 1 < length cs then rec_set headers ''Set-Cookie'' (Many_Values cs) else headers)"

definition renderResponseVariant ::
  "js_host \<Rightarrow> (nat \<Rightarrow> template_env) \<Rightarrow> response_variant option \<Rightarrow> captured_request \<Rightarrow> route \<Rightarrow> string \<Rightarrow>
     scenario_state \<Rightarrow> api_variable list \<Rightarrow> string \<Rightarrow> nat \<Rightarrow> string \<Rightarrow> rendered_variant" where
  "renderResponseVariant h envs variant req rt basePath scenario variables seed maxResponseBodyBytes now =
     (let ctx = render_context h req rt basePath scenario variables seed now;
          (headers1, st1) = render_headers envs ctx [] (case variant of None \<Rightarrow> [] | Some v \<Rightarrow> rv_headers v)
                              \<lparr>rd_calls = 0, rd_errors = 0\<rparr>;
          headers2 = (case Option.bind variant (\<lambda>v. if_nonempty (rb_contentType (rv_body v))) of
                        None \<Rightarrow> headers1 | Some ct \<Rightarrow> rec_set headers1 ''Content-Type'' (One_Value ct));
          (cookies, st2) = render_cookies envs ctx (case variant of None \<Rightarrow> [] | Some v \<Rightarrow> rv_cookies v) st1;
          (body, st3) = applyTemplate envs ctx (case variant of None \<Rightarrow> [] | Some v \<Rightarrow> rb_content (rv_body v)) st2
      in \<lparr>rn_status = (case variant of None \<Rightarrow> 200 | Some v \<Rightarrow> rv_status v),
          rn_headers = set_cookies cookies headers2,
          rn_body = (if maxResponseBodyBytes < length body then take maxResponseBodyBytes body else body),
          rn_templateErrorCount = rd_errors st3\<rparr>)"

definition toCapturedHeaders :: "header_map \<Rightarrow> string list record_bag" where
  "toCapturedHeaders headers = foldl (\<lambda>out (k, v). rec_set out (js_lower k) (header_values v)) [] headers"

section \<open>Transforms\<close>

record transform_state =
  tx_rendered :: rendered_variant
  tx_applied :: "string list"
  tx_errors :: "string list"

definition resolveValue :: "(template_env \<times> template_context) option \<Rightarrow> string option \<Rightarrow> string" where
  "resolveValue ctx raw =
     (case raw of None \<Rightarrow> []
      | Some v \<Rightarrow> (case ctx of None \<Rightarrow> v
                 | Some (env, c) \<Rightarrow> if \<not> js_includes v ''{{'' then v else tr_output (renderTemplate env c v)))"

definition transform_ok :: "transform_rule \<Rightarrow> rendered_variant \<Rightarrow> transform_state \<Rightarrow> transform_state" where
  "transform_ok rule r ts = ts\<lparr>tx_rendered := r, tx_applied := tx_applied ts @ [tf_id rule]\<rparr>"

definition transform_error :: "transform_rule \<Rightarrow> string \<Rightarrow> transform_state \<Rightarrow> transform_state" where
  "transform_error rule e ts = ts\<lparr>tx_errors := tx_errors ts @ [tf_id rule @ '': '' @ e]\<rparr>"

definition with_key :: "transform_rule \<Rightarrow> string \<Rightarrow> (string \<Rightarrow> rendered_variant) \<Rightarrow> transform_state \<Rightarrow> transform_state" where
  "with_key rule name f ts =
     (case if_nonempty (tf_key rule) of
        None \<Rightarrow> transform_error rule (name @ '' missing key'') ts
      | Some k \<Rightarrow> transform_ok rule (f k) ts)"

definition append_value :: "header_map \<Rightarrow> string \<Rightarrow> string \<Rightarrow> header_map" where
  "append_value headers k next =
     (case rec_get headers k of
        None \<Rightarrow> rec_set headers k (One_Value next)
      | Some (Many_Values vs) \<Rightarrow> rec_set headers k (Many_Values (vs @ [next]))
      | Some (One_Value v) \<Rightarrow> rec_set headers k (Many_Values [v, next]))"

definition remove_header :: "header_map \<Rightarrow> string \<Rightarrow> header_map" where
  "remove_header headers k = filter (\<lambda>(k', v). js_lower k' \<noteq> js_lower k) (rec_del headers k)"

definition apply_transform ::
  "(template_env \<times> template_context) option \<Rightarrow> transform_state \<Rightarrow> transform_rule \<Rightarrow> transform_state" where
  "apply_transform ctx ts rule =
     (if \<not> tf_enabled rule then ts
      else (let r = tx_rendered ts; v = resolveValue ctx (tf_value rule)
            in case tf_op rule of
                 Set_Header \<Rightarrow> with_key rule ''setHeader'' (\<lambda>k. r\<lparr>rn_headers := rec_set (rn_headers r) k (One_Value v)\<rparr>) ts
               | Append_Header \<Rightarrow> with_key rule ''appendHeader'' (\<lambda>k. r\<lparr>rn_headers := append_value (rn_headers r) k v\<rparr>) ts
               | Remove_Header \<Rightarrow> with_key rule ''removeHeader'' (\<lambda>k. r\<lparr>rn_headers := remove_header (rn_headers r) k\<rparr>) ts
               | Set_Status \<Rightarrow>
                   (case js_parse_int v of
                      Some n \<Rightarrow>
                        (if n < 100 \<or> 599 < n then
                           transform_error rule (''invalid status \"'' @ (case tf_value rule of None \<Rightarrow> ''undefined'' | Some s \<Rightarrow> s) @ ''\"'') ts
                         else transform_ok rule (r\<lparr>rn_status := n\<rparr>) ts)
                    | None \<Rightarrow>
                        transform_error rule (''invalid status \"'' @ (case tf_value rule of None \<Rightarrow> ''undefined'' | Some s \<Rightarrow> s) @ ''\"'') ts)
               | Replace_Body \<Rightarrow> transform_ok rule (r\<lparr>rn_body := v\<rparr>) ts))"

definition applyResponseTransforms ::
  "(template_env \<times> template_context) option \<Rightarrow> rendered_variant \<Rightarrow> transform_rule list \<Rightarrow> transform_state" where
  "applyResponseTransforms ctx rendered rules =
     foldl (apply_transform ctx) \<lparr>tx_rendered = rendered, tx_applied = [], tx_errors = []\<rparr> rules"

section \<open>The closest-match debug body\<close>

definition failed_json :: "failed_predicate \<Rightarrow> json" where
  "failed_json f = JObj [(''source'', JStr (fp_source f)), (''reason'', JStr (fp_reason f))]"

definition near_miss_json :: "near_miss \<Rightarrow> json" where
  "near_miss_json nm = JObj
     [(''routeId'', JStr (nm_routeId nm)), (''routeName'', JStr (nm_routeName nm)),
      (''missDistance'', JNum (of_int (nm_missDistance nm))),
      (''failedPredicates'', JArr (map failed_json (take 8 (nm_failedPredicates nm))))]"

definition debug_payload :: "match_explanation \<Rightarrow> json" where
  "debug_payload ex =
     (let nearMisses = map near_miss_json (take 5 (me_nearMisses ex))
      in JObj
        [(''error'', JStr ''not_found''), (''mode'', JStr ''closest_match_debug''),
         (''request'', JObj [(''method'', JStr (nz_method (me_normalizedRequest ex))),
                             (''path'', JStr (nz_path (me_normalizedRequest ex)))]),
         (''nearMissCount'', JNum (of_nat (length (me_nearMisses ex)))), (''nearMisses'', JArr nearMisses),
         (''hint'', JStr (if 0 < length nearMisses then ''Closest library rules that almost matched this request.''
                          else ''No near-miss candidates; check method, path, or base path.''))])"

text \<open>\<open>pretty\<close> is \<open>JSON.stringify\<close> with an indentation of two.\<close>

definition buildClosestMatchDebugBody :: "(json \<Rightarrow> string) \<Rightarrow> match_explanation \<Rightarrow> static_response \<Rightarrow> static_response" where
  "buildClosestMatchDebugBody pretty ex fallback =
     \<lparr>sr_status = (if sr_status fallback = 0 then 404 else sr_status fallback), sr_headers = [],
      sr_body = pretty (debug_payload ex), sr_contentType = ''application/json''\<rparr>"

section \<open>Properties\<close>

lemma applyTemplate_plain: "\<not> js_includes v ''{{'' \<Longrightarrow> applyTemplate envs ctx v st = (v, st)"
  by (simp add: applyTemplate_def)

lemma apply_transform_counts:
  "length (tx_applied (apply_transform ctx ts rule)) + length (tx_errors (apply_transform ctx ts rule)) =
     length (tx_applied ts) + length (tx_errors ts) + (if tf_enabled rule then 1 else 0)"
  by (simp add: apply_transform_def with_key_def transform_ok_def transform_error_def Let_def
      split: transform_op.split option.split)

lemma apply_transform_status:
  "rn_status (tx_rendered ts) = s \<or> (100 \<le> rn_status (tx_rendered ts) \<and> rn_status (tx_rendered ts) \<le> 599) \<Longrightarrow>
   rn_status (tx_rendered (apply_transform ctx ts rule)) = s \<or>
   (100 \<le> rn_status (tx_rendered (apply_transform ctx ts rule)) \<and> rn_status (tx_rendered (apply_transform ctx ts rule)) \<le> 599)"
  by (simp add: apply_transform_def with_key_def transform_ok_def transform_error_def Let_def
      split: transform_op.split option.split)

lemma apply_transform_errors: "rn_templateErrorCount (tx_rendered (apply_transform ctx ts rule)) = rn_templateErrorCount (tx_rendered ts)"
  by (simp add: apply_transform_def with_key_def transform_ok_def transform_error_def Let_def
      split: transform_op.split option.split)

text \<open>Transforms are isolated from delivery: every enabled rule either takes effect or
leaves one error, in order, the status stays the rendered one or becomes a valid HTTP status, and
disabled rules change nothing.\<close>

theorem transforms_isolated:
  "length (tx_applied (applyResponseTransforms ctx r rules)) + length (tx_errors (applyResponseTransforms ctx r rules)) =
     length (filter tf_enabled rules) \<and>
   (rn_status (tx_rendered (applyResponseTransforms ctx r rules)) = rn_status r \<or>
    rn_status (tx_rendered (applyResponseTransforms ctx r rules)) \<in> {100..599}) \<and>
   applyResponseTransforms ctx r rules = applyResponseTransforms ctx r (filter tf_enabled rules)"
proof -
  have counts: "length (tx_applied (foldl (apply_transform ctx) ts rules)) + length (tx_errors (foldl (apply_transform ctx) ts rules)) =
      length (tx_applied ts) + length (tx_errors ts) + length (filter tf_enabled rules)" for ts
    by (induction rules arbitrary: ts) (simp_all add: apply_transform_counts)
  have status: "rn_status (tx_rendered ts) = s \<or> (100 \<le> rn_status (tx_rendered ts) \<and> rn_status (tx_rendered ts) \<le> 599) \<Longrightarrow>
      rn_status (tx_rendered (foldl (apply_transform ctx) ts rules)) = s \<or>
      (100 \<le> rn_status (tx_rendered (foldl (apply_transform ctx) ts rules)) \<and>
       rn_status (tx_rendered (foldl (apply_transform ctx) ts rules)) \<le> 599)" for ts s
    by (induction rules arbitrary: ts) (simp_all add: apply_transform_status)
  have "foldl (apply_transform ctx) ts rules = foldl (apply_transform ctx) ts (filter tf_enabled rules)" for ts
    by (induction rules arbitrary: ts) (auto simp: apply_transform_def)
  then show ?thesis
    using counts [of "\<lparr>tx_rendered = r, tx_applied = [], tx_errors = []\<rparr>"]
      status [of "\<lparr>tx_rendered = r, tx_applied = [], tx_errors = []\<rparr>" "rn_status r"]
    by (simp add: applyResponseTransforms_def)
qed

lemma render_body_bounded:
  "length (rn_body (renderResponseVariant h envs variant req rt basePath scenario variables seed cap now)) \<le> cap"
  by (simp add: renderResponseVariant_def Let_def split: prod.split)

definition plain_variant :: "response_variant \<Rightarrow> bool" where
  "plain_variant v = (list_all (\<lambda>x. \<not> js_includes (rh_value x) ''{{'') (rv_headers v) \<and>
     list_all (\<lambda>c. \<not> js_includes (ck_value c) ''{{'') (rv_cookies v) \<and> \<not> js_includes (rb_content (rv_body v)) ''{{'')"

lemma render_headers_plain:
  "list_all (\<lambda>x. \<not> js_includes (rh_value x) ''{{'') hs \<Longrightarrow> snd (render_headers envs ctx out hs st) = st"
  by (induction envs ctx out hs st rule: render_headers.induct) (simp_all add: applyTemplate_plain)

lemma render_cookies_plain:
  "list_all (\<lambda>c. \<not> js_includes (ck_value c) ''{{'') cs \<Longrightarrow>
     render_cookies envs ctx cs st = (map (\<lambda>c. cookie_text c (ck_value c)) (filter ck_enabled cs), st)"
  by (induction envs ctx cs st rule: render_cookies.induct) (simp_all add: applyTemplate_plain)

text \<open>A variant without templates is delivered as configured: its status, its body cut
to the ceiling and no template errors, whatever the request, the state and the random draws.\<close>

theorem plain_variant_verbatim:
  assumes "plain_variant v" and "r = renderResponseVariant h envs (Some v) req rt basePath scenario variables seed cap now"
  shows "rn_status r = rv_status v \<and> rn_body r = take cap (rb_content (rv_body v)) \<and> rn_templateErrorCount r = 0"
  using assms render_headers_plain [of "rv_headers v"] render_cookies_plain [of "rv_cookies v"]
  by (auto simp: plain_variant_def renderResponseVariant_def applyTemplate_plain Let_def split: prod.splits)
    (metis snd_conv render_state.select_convs(2))

end
