(* ===== verification/Cors.thy ===== *)
theory Cors
  imports Request_Normalization
begin

text \<open>
  CORS headers of the mock listeners (\<open>src/shared/api-mock/corsHeaders.ts\<close>): the preflight
  test, the origin of a request, the headers of an ordinary response and of a preflight.
\<close>

definition DEFAULT_METHODS :: string where
  "DEFAULT_METHODS = ''GET,HEAD,POST,PUT,PATCH,DELETE,OPTIONS''"

definition DEFAULT_HEADERS :: string where
  "DEFAULT_HEADERS = ''Content-Type,Authorization,Accept''"

definition isCorsPreflight :: "string \<Rightarrow> cors_settings \<Rightarrow> bool" where
  "isCorsPreflight meth cors = (cors_enabled cors \<and> js_upper meth = ''OPTIONS'')"

text \<open>\<open>headers.origin ?? headers.Origin\<close>; of several values the first.\<close>

definition requestOriginHeader :: "(string \<times> header_value option) list \<Rightarrow> string option" where
  "requestOriginHeader headers =
     (let own = (\<lambda>k. case rec_get headers k of Some (Some v) \<Rightarrow> Some v | _ \<Rightarrow> None);
          raw = (case own ''origin'' of Some v \<Rightarrow> Some v | None \<Rightarrow> own ''Origin'')
      in case raw of
           None \<Rightarrow> None
         | Some (One_Value s) \<Rightarrow> Some s
         | Some (Many_Values vs) \<Rightarrow> (case vs of [] \<Rightarrow> None | v # _ \<Rightarrow> Some v))"

definition applyAllowOrigin :: "string record_bag \<Rightarrow> cors_settings \<Rightarrow> string \<Rightarrow> bool \<Rightarrow> string record_bag" where
  "applyAllowOrigin headers cors origin wildcard =
     (if cors_allowCredentials cors then
        (if origin \<noteq> ''*'' then
           rec_set (rec_set (rec_set headers ''Access-Control-Allow-Origin'' origin)
             ''Access-Control-Allow-Credentials'' ''true'') ''Vary'' ''Origin''
         else headers)
      else rec_set headers ''Access-Control-Allow-Origin'' (if wildcard then ''*'' else origin))"

definition cors_origin :: "string option \<Rightarrow> string" where
  "cors_origin requestOrigin =
     (case requestOrigin of None \<Rightarrow> ''*'' | Some s \<Rightarrow> if js_trim s = [] then ''*'' else js_trim s)"

definition corsResponseHeaders :: "cors_settings \<Rightarrow> string option \<Rightarrow> string record_bag" where
  "corsResponseHeaders cors requestOrigin =
     (if \<not> cors_enabled cors then []
      else
        (let origin = cors_origin requestOrigin;
             allowlist = cors_allowOrigins cors;
             hasWildcard = (''*'' \<in> set allowlist);
             allowed = (length allowlist = 0 \<or> hasWildcard \<or> origin \<in> set allowlist);
             h1 = (if allowed then applyAllowOrigin [] cors origin (hasWildcard \<or> length allowlist = 0) else []);
             h2 = rec_set h1 ''Access-Control-Allow-Methods''
                    (if 0 < length (cors_allowMethods cors) then js_join '','' (map method_name (cors_allowMethods cors))
                     else DEFAULT_METHODS);
             h3 = rec_set h2 ''Access-Control-Allow-Headers''
                    (if 0 < length (cors_allowHeaders cors) then js_join '','' (cors_allowHeaders cors)
                     else DEFAULT_HEADERS)
         in if 0 < length (cors_exposeHeaders cors)
            then rec_set h3 ''Access-Control-Expose-Headers'' (js_join '','' (cors_exposeHeaders cors))
            else h3))"

definition corsPreflightHeaders :: "cors_settings \<Rightarrow> string option \<Rightarrow> string record_bag" where
  "corsPreflightHeaders cors requestOrigin =
     rec_set (corsResponseHeaders cors requestOrigin) ''Access-Control-Max-Age''
       (js_int (case cors_maxAge cors of None \<Rightarrow> 86400 | Some a \<Rightarrow> a))"

section \<open>What the headers grant\<close>

lemma cors_reads:
  assumes "cors_enabled cors"
  shows "rec_get (corsResponseHeaders cors o') ''Access-Control-Allow-Origin'' =
      (if cors_allowOrigins cors = [] \<or> ''*'' \<in> set (cors_allowOrigins cors) \<or>
          cors_origin o' \<in> set (cors_allowOrigins cors) then
         (if cors_allowCredentials cors then (if cors_origin o' = ''*'' then None else Some (cors_origin o'))
          else Some (if cors_allowOrigins cors = [] \<or> ''*'' \<in> set (cors_allowOrigins cors) then ''*'' else cors_origin o'))
       else None)"
    and "rec_get (corsResponseHeaders cors o') ''Access-Control-Allow-Credentials'' =
      (if (cors_allowOrigins cors = [] \<or> ''*'' \<in> set (cors_allowOrigins cors) \<or>
           cors_origin o' \<in> set (cors_allowOrigins cors)) \<and> cors_allowCredentials cors \<and> cors_origin o' \<noteq> ''*''
       then Some ''true'' else None)"
  using assms by (simp_all add: corsResponseHeaders_def applyAllowOrigin_def Let_def)

text \<open>What a browser is granted: credentials are never combined with the wildcard
origin, an origin is named only if it is the one that asked and the list (when there is one, with
no wildcard) has it, and nothing is granted with CORS off. The converse of the first is a caveat:
with credentials on and an empty or wildcard list, every origin is granted credentials.\<close>

theorem cors_grants:
  "(rec_get (corsResponseHeaders cors o') ''Access-Control-Allow-Credentials'' = Some ''true'' \<longrightarrow>
      rec_get (corsResponseHeaders cors o') ''Access-Control-Allow-Origin'' = Some (cors_origin o') \<and>
      cors_origin o' \<noteq> ''*'' \<and> cors_allowCredentials cors) \<and>
   (rec_get (corsResponseHeaders cors o') ''Access-Control-Allow-Origin'' = Some x \<longrightarrow>
      cors_enabled cors \<and> (x = ''*'' \<or> x = cors_origin o') \<and>
      (cors_allowOrigins cors \<noteq> [] \<and> ''*'' \<notin> set (cors_allowOrigins cors) \<longrightarrow>
         x = cors_origin o' \<and> x \<in> set (cors_allowOrigins cors)))"
proof (cases "cors_enabled cors")
  case True
  then show ?thesis by (auto simp: cors_reads)
qed (simp add: corsResponseHeaders_def)

theorem cors_grants_witness:
  "rec_get (corsResponseHeaders \<lparr>cors_enabled = True, cors_allowOrigins = [''https://a''], cors_allowMethods = [],
     cors_allowHeaders = [], cors_allowCredentials = True, cors_maxAge = None, cors_exposeHeaders = []\<rparr>
     (Some ''https://a'')) ''Access-Control-Allow-Origin'' = Some ''https://a''"
proof -
  let ?c = "\<lparr>cors_enabled = True, cors_allowOrigins = [''https://a''], cors_allowMethods = [],
     cors_allowHeaders = [], cors_allowCredentials = True, cors_maxAge = None, cors_exposeHeaders = []\<rparr>"
  have o: "cors_origin (Some ''https://a'') = ''https://a''" by code_simp
  then have "rec_get (corsResponseHeaders ?c (Some ''https://a'')) ''Access-Control-Allow-Credentials'' = Some ''true''"
    by (simp add: cors_reads)
  with cors_grants [of ?c "Some ''https://a''" "''https://a''"] o show ?thesis by simp
qed

end
