(* ===== verification/Proxy.thy ===== *)
theory Proxy
  imports Request_Normalization
begin

text \<open>
  The outbound proxy of the mock listeners: the URL and header policy
  (\<open>src/shared/api-mock/proxyPolicy.ts\<close>) and the executor with its redirect loop and its
  failover over the allowed origins (\<open>src-server/api-mock/apiMockProxyExecutor.ts\<close>).

  The URL parser, the DNS check and the network are parameters (\<open>proxy_env\<close>); what is fetched
  may depend on the number of the hop. Beside its result the model returns the requests that were
  sent, which the source leaves to the network. Bodies are byte sequences until they are decoded.
  Header objects are read as bags of their own entries.
\<close>

section \<open>Policy\<close>

record url_parts =
  up_protocol :: string
  up_hostname :: string
  up_port :: string

record proxy_request =
  pq_url :: string
  pq_method :: string
  pq_headers :: "string record_bag"
  pq_body :: "string option"

datatype fetch_result =
    Fetch_Error string
  | Fetched int "(string \<times> string) list" string \<comment> \<open>status, header entries, body bytes\<close>

record proxy_env =
  url_parse :: "string \<Rightarrow> url_parts option"
    \<comment> \<open>\<open>new URL(url)\<close>; \<open>None\<close> where it throws\<close>
  url_resolve :: "string \<Rightarrow> string \<Rightarrow> string option"
    \<comment> \<open>\<open>new URL(location, base).toString()\<close>\<close>
  url_target :: "string \<Rightarrow> string option"
    \<comment> \<open>path and query of \<open>new URL(url, 'http://localhost')\<close>\<close>
  dns_check :: "string \<Rightarrow> string option"
    \<comment> \<open>the error of \<open>validateServerOutboundUrlWithDns\<close>, if any\<close>
  fetch :: "nat \<Rightarrow> proxy_request \<Rightarrow> fetch_result"
  utf8_decode :: "string \<Rightarrow> string"

definition BLOCKED_METADATA_HOSTS :: "string list" where
  "BLOCKED_METADATA_HOSTS = [''metadata.google.internal'', ''metadata.goog'', ''169.254.169.254'', ''fd00::1'']"

text \<open>The fixed pattern of private IPv4 prefixes.\<close>

definition private_172 :: "string \<Rightarrow> bool" where
  "private_172 s = (js_starts_with s ''172.'' \<and>
     (case drop 4 s of
        x # y # z # _ \<Rightarrow> z = CHR ''.'' \<and>
          ((x = CHR ''1'' \<and> y \<in> set ''6789'') \<or> (x = CHR ''2'' \<and> js_is_digit y) \<or> (x = CHR ''3'' \<and> y \<in> set ''01''))
      | _ \<Rightarrow> False))"

definition PRIVATE_IPV4 :: "string \<Rightarrow> bool" where
  "PRIVATE_IPV4 s = (js_starts_with s ''10.'' \<or> js_starts_with s ''169.254.'' \<or> private_172 s \<or>
     js_starts_with s ''192.168.'' \<or> js_starts_with s ''127.'' \<or> js_starts_with s ''0.'')"

definition LOOPBACK_IPV6 :: "string \<Rightarrow> bool" where
  "LOOPBACK_IPV6 s = (js_starts_with (js_lower s) ''::1'' \<or> js_starts_with (js_lower s) ''fe80:'')"

definition HOP_BY_HOP_HEADERS :: "string list" where
  "HOP_BY_HOP_HEADERS = [''connection'', ''keep-alive'', ''proxy-authenticate'', ''proxy-authorization'',
     ''proxy-connection'', ''te'', ''trailer'', ''transfer-encoding'', ''upgrade'']"

definition CREDENTIAL_HEADERS :: "string list" where
  "CREDENTIAL_HEADERS = [''authorization'', ''proxy-authorization'', ''cookie'', ''x-api-key'', ''api-key'', ''x-auth-token'']"

definition ANTI_RECURSION_HEADER :: string where
  "ANTI_RECURSION_HEADER = ''x-redfireforge-mock''"

definition isLocalhost :: "string \<Rightarrow> bool" where
  "isLocalhost hostname = (hostname = ''localhost'' \<or> hostname = ''127.0.0.1'' \<or> hostname = ''::1'' \<or>
     js_ends_with hostname ''.localhost'')"

text \<open>\<open>Inl\<close> is the reason of a refusal, \<open>Inr\<close> the resolved host.\<close>

definition url_port :: "url_parts \<Rightarrow> int option" where
  "url_port u = (if up_port u \<noteq> [] then js_parse_int (up_port u)
     else if up_protocol u = ''https:'' then Some 443 else Some 80)"

definition url_origin :: "url_parts \<Rightarrow> string" where
  "url_origin u = up_protocol u @ ''//'' @ up_hostname u @ (if up_port u \<noteq> [] then '':'' @ up_port u else [])"

definition port_text :: "int option \<Rightarrow> string" where
  "port_text p = (case p of None \<Rightarrow> ''NaN'' | Some n \<Rightarrow> js_int n)"

definition checkProxyUrl :: "proxy_env \<Rightarrow> string \<Rightarrow> string list \<Rightarrow> int list \<Rightarrow> string + string" where
  "checkProxyUrl env url allowedUpstreams activePorts =
     (case url_parse env url of
        None \<Rightarrow> Inl (''Invalid URL: '' @ url)
      | Some parsed \<Rightarrow>
          if up_protocol parsed \<noteq> ''http:'' \<and> up_protocol parsed \<noteq> ''https:'' then
            Inl (''Unsupported protocol: '' @ up_protocol parsed)
          else
            (let hostname = js_lower (up_hostname parsed); port = url_port parsed; origin = url_origin parsed
             in if hostname \<in> set BLOCKED_METADATA_HOSTS then Inl (''Blocked metadata host: '' @ hostname)
                else if PRIVATE_IPV4 hostname then Inl (''Blocked private IPv4: '' @ hostname)
                else if LOOPBACK_IPV6 hostname then Inl (''Blocked IPv6 loopback: '' @ hostname)
                else if isLocalhost hostname \<and> (\<exists>p\<in>set activePorts. port = Some p) then
                  Inl (''Self-recursion: port '' @ port_text port @ '' is an active mock listener'')
                else if isLocalhost hostname \<and> port = Some 3001 then Inl ''Blocked: control plane port 3001''
                else if \<not> list_ex (\<lambda>u. js_starts_with origin u \<or> js_starts_with url u) allowedUpstreams then
                  Inl (''Host not in allowlist: '' @ origin)
                else Inr hostname))"

type_synonym header_map = "(string \<times> header_value) list"

definition stripHopByHopHeaders :: "header_map \<Rightarrow> header_map" where
  "stripHopByHopHeaders headers = filter (\<lambda>(k, v). js_lower k \<notin> set HOP_BY_HOP_HEADERS) headers"

definition stripCredentialHeaders :: "header_map \<Rightarrow> string list \<Rightarrow> header_map" where
  "stripCredentialHeaders headers forwardList =
     filter (\<lambda>(k, v). \<not> (js_lower k \<in> set CREDENTIAL_HEADERS \<and> js_lower k \<notin> set (map js_lower forwardList))) headers"

definition addAntiRecursionHeader :: "header_map \<Rightarrow> header_map" where
  "addAntiRecursionHeader headers = rec_set headers ANTI_RECURSION_HEADER (One_Value ''true'')"

definition hasAntiRecursionHeader :: "(string \<times> header_value option) list \<Rightarrow> bool" where
  "hasAntiRecursionHeader headers =
     (case rec_get headers ANTI_RECURSION_HEADER of
        Some (Some (One_Value s)) \<Rightarrow> s = ''true''
      | Some (Some (Many_Values vs)) \<Rightarrow> ''true'' \<in> set vs
      | _ \<Rightarrow> False)"

definition stripSetCookieFromResponse :: "header_map \<Rightarrow> header_map" where
  "stripSetCookieFromResponse headers = filter (\<lambda>(k, v). js_lower k \<noteq> ''set-cookie'') headers"

section \<open>One upstream, with its redirects\<close>

record proxy_result =
  pr_ok :: bool
  pr_status :: int
  pr_headers :: header_map
  pr_body :: string
  pr_error :: "string option"
  pr_redirected :: bool

definition proxy_failed :: "string \<Rightarrow> proxy_result" where
  "proxy_failed e = \<lparr>pr_ok = False, pr_status = 502, pr_headers = [], pr_body = [], pr_error = Some e, pr_redirected = False\<rparr>"

definition PROXY_maxRedirects :: int where "PROXY_maxRedirects = 10"
definition PROXY_maxResponseBytes :: int where "PROXY_maxResponseBytes = 10485760"

definition join_values :: "string \<Rightarrow> header_value \<Rightarrow> string" where
  "join_values k v = (case v of One_Value s \<Rightarrow> s
     | Many_Values vs \<Rightarrow> js_join (if js_lower k = ''cookie'' then ''; '' else '', '') vs)"

definition flattenHeaders :: "header_map \<Rightarrow> string record_bag" where
  "flattenHeaders headers = map (\<lambda>(k, v). (k, join_values k v)) headers"

definition headersFromFetch :: "(string \<times> string) list \<Rightarrow> header_map" where
  "headersFromFetch entries = foldl (\<lambda>out (key, v).
     case rec_get out key of
       None \<Rightarrow> rec_set out key (One_Value v)
     | Some (Many_Values vs) \<Rightarrow> rec_set out key (Many_Values (vs @ [v]))
     | Some (One_Value w) \<Rightarrow> rec_set out key (Many_Values [w, v])) [] entries"

text \<open>\<open>res.headers.get('location')\<close>, taken as absent when empty, as the source does.\<close>

definition location_of :: "(string \<times> string) list \<Rightarrow> string option" where
  "location_of entries = (case map snd (filter (\<lambda>(k, v). k = ''location'') entries) of
     [] \<Rightarrow> None | vs \<Rightarrow> if_nonempty (Some (js_join '', '' vs)))"

text \<open>The headers of the upstream request: of the inbound ones without pseudo-headers and,
by the settings, without hop-by-hop and credential headers.\<close>

definition outbound_headers :: "proxy_settings \<Rightarrow> (string \<times> header_value option) list \<Rightarrow> header_map" where
  "outbound_headers proxy inbound =
     (let h1 = List.map_filter (\<lambda>(k, v). case v of None \<Rightarrow> None
            | Some w \<Rightarrow> if js_starts_with k '':'' then None else Some (k, w)) inbound;
          h2 = (if px_stripHopByHop proxy then stripHopByHopHeaders h1 else h1);
          h3 = stripCredentialHeaders h2 (if px_forwardAuth proxy then px_forwardCredentialHeaders proxy else []);
          h4 = addAntiRecursionHeader h3
      in rec_del (rec_del h4 ''host'') ''content-length'')"

definition clamp :: "int \<Rightarrow> int \<Rightarrow> int \<Rightarrow> int" where
  "clamp low x high = min (max low x) high"

record proxy_input =
  pi_method :: string
  pi_headers :: "(string \<times> header_value option) list"
  pi_body :: "string option"

definition upstream_request :: "proxy_settings \<Rightarrow> proxy_input \<Rightarrow> string \<Rightarrow> proxy_request" where
  "upstream_request proxy inp url =
     \<lparr>pq_url = url, pq_method = pi_method inp,
      pq_headers = flattenHeaders (outbound_headers proxy (pi_headers inp)),
      pq_body = (if js_upper (pi_method inp) \<in> {''GET'', ''HEAD''} then None else pi_body inp)\<rparr>"

text \<open>The redirect loop from hop \<open>hop\<close>, with at most \<open>left\<close> further redirects; the second
component lists the requests sent.\<close>

fun proxy_hops :: "proxy_env \<Rightarrow> proxy_settings \<Rightarrow> int list \<Rightarrow> proxy_input \<Rightarrow> nat \<Rightarrow> nat \<Rightarrow> string \<Rightarrow>
    proxy_result \<times> proxy_request list" where
  "proxy_hops env proxy activePorts inp hop left url =
     (case checkProxyUrl env url (px_allowlist proxy) activePorts of
        Inl reason \<Rightarrow> (proxy_failed reason, [])
      | Inr _ \<Rightarrow>
          (case (if px_blockPrivateNetworks proxy then dns_check env url else None) of
             Some e \<Rightarrow> (proxy_failed e, [])
           | None \<Rightarrow>
               (let req = upstream_request proxy inp url
                in case fetch env hop req of
                     Fetch_Error e \<Rightarrow> (proxy_failed e, [req])
                   | Fetched status entries bytes \<Rightarrow>
                       (case (if 300 \<le> status \<and> status < 400 then location_of entries else None) of
                          Some loc \<Rightarrow>
                            (case url_resolve env url loc of
                               None \<Rightarrow> (proxy_failed ''Invalid URL'', [req])
                             | Some next \<Rightarrow>
                                 (case left of
                                    0 \<Rightarrow> (proxy_failed ''Redirect limit exceeded'', [req])
                                  | Suc left' \<Rightarrow>
                                      (case proxy_hops env proxy activePorts inp (Suc hop) left' next of
                                         (r, reqs) \<Rightarrow> (r, req # reqs))))
                        | None \<Rightarrow>
                            (let h1 = stripSetCookieFromResponse (headersFromFetch entries);
                                 h2 = (if px_stripHopByHop proxy then stripHopByHopHeaders h1 else h1);
                                 maxBytes = nat (clamp 1 (px_maxResponseBytes proxy) PROXY_maxResponseBytes)
                             in (\<lparr>pr_ok = True, pr_status = status, pr_headers = h2,
                                   pr_body = utf8_decode env (take maxBytes bytes), pr_error = None,
                                   pr_redirected = (0 < hop)\<rparr>, [req]))))))"

declare proxy_hops.simps [simp del]

definition executeProxy :: "proxy_env \<Rightarrow> proxy_settings \<Rightarrow> int list \<Rightarrow> proxy_input \<Rightarrow> string \<Rightarrow> proxy_result \<times> proxy_request list" where
  "executeProxy env proxy activePorts inp upstreamUrl =
     proxy_hops env proxy activePorts inp 0 (nat (clamp 0 (px_maxRedirects proxy) PROXY_maxRedirects)) upstreamUrl"

section \<open>Failover\<close>

definition listProxyOrigins :: "proxy_settings \<Rightarrow> string list" where
  "listProxyOrigins proxy =
     (if \<not> px_enabled proxy then [] else filter (\<lambda>s. s \<noteq> []) (map js_trim (px_allowlist proxy)))"

definition shouldTryNextOrigin :: "proxy_result \<Rightarrow> bool" where
  "shouldTryNextOrigin r =
     (\<not> pr_ok r \<or> pr_status r = 404 \<or> (500 \<le> pr_status r \<and> pr_status r \<le> 599))"

definition drop_trailing_slash :: "string \<Rightarrow> string" where
  "drop_trailing_slash s = (if js_ends_with s ''/'' then butlast s else s)"

definition buildUpstreamUrl :: "proxy_env \<Rightarrow> string \<Rightarrow> string \<Rightarrow> string \<Rightarrow> string" where
  "buildUpstreamUrl env allowlistOrigin inboundPath inboundUrl =
     (let base = drop_trailing_slash allowlistOrigin;
          path = (case url_target env inboundUrl of Some t \<Rightarrow> t
                  | None \<Rightarrow> if inboundPath = [] then ''/'' else inboundPath)
      in base @ (if js_starts_with path ''/'' then path else ''/'' @ path))"

text \<open>The results of the origins tried, in order, and the requests sent.\<close>

fun failover_from :: "(string \<Rightarrow> proxy_result \<times> proxy_request list) \<Rightarrow> proxy_result \<Rightarrow> string list \<Rightarrow>
    proxy_result \<times> string list \<times> proxy_request list" where
  "failover_from run prev [] = (prev, [], [])"
| "failover_from run prev (origin # origins) =
     (case run origin of (r, reqs) \<Rightarrow>
        (if shouldTryNextOrigin r then
           (case failover_from run r origins of (r', tried, reqs') \<Rightarrow> (r', origin # tried, reqs @ reqs'))
         else (r, [origin], reqs)))"

definition executeProxyWithFailover ::
  "proxy_env \<Rightarrow> proxy_settings \<Rightarrow> int list \<Rightarrow> proxy_input \<Rightarrow> string \<Rightarrow> string \<Rightarrow>
     proxy_result \<times> string list \<times> proxy_request list" where
  "executeProxyWithFailover env proxy activePorts inp capturedPath inboundUrl =
     failover_from (\<lambda>origin. executeProxy env proxy activePorts inp (buildUpstreamUrl env origin capturedPath inboundUrl))
       (proxy_failed ''Proxy enabled but allowlist is empty'') (listProxyOrigins proxy)"

section \<open>What leaves the proxy\<close>

text \<open>A request the policy lets out.\<close>

definition confined :: "proxy_env \<Rightarrow> proxy_settings \<Rightarrow> int list \<Rightarrow> proxy_request \<Rightarrow> bool" where
  "confined env proxy activePorts req =
     ((\<exists>host. checkProxyUrl env (pq_url req) (px_allowlist proxy) activePorts = Inr host) \<and>
      rec_get (pq_headers req) ANTI_RECURSION_HEADER = Some ''true'' \<and>
      rec_get (pq_headers req) ''host'' = None \<and>
      (\<forall>k\<in>fst ` set (pq_headers req). js_lower k \<in> set CREDENTIAL_HEADERS \<longrightarrow>
         px_forwardAuth proxy \<and> js_lower k \<in> set (map js_lower (px_forwardCredentialHeaders proxy))))"

lemma rec_get_flatten: "rec_get (flattenHeaders hs) k = map_option (join_values k) (rec_get hs k)"
  by (induction hs) (auto simp: flattenHeaders_def)

lemma keys_flatten: "fst ` set (flattenHeaders hs) = fst ` set hs"
  by (force simp: flattenHeaders_def)

lemma stripCredential_keys:
  "k \<in> fst ` set (stripCredentialHeaders hs fs) \<Longrightarrow> js_lower k \<in> set CREDENTIAL_HEADERS \<Longrightarrow> js_lower k \<in> set (map js_lower fs)"
  by (auto simp: stripCredentialHeaders_def)

lemma anti_recursion_plain: "js_lower ANTI_RECURSION_HEADER \<notin> set CREDENTIAL_HEADERS"
  by code_simp

lemma outbound_credentials:
  assumes "k \<in> fst ` set (outbound_headers proxy inbound)" and "js_lower k \<in> set CREDENTIAL_HEADERS"
  shows "px_forwardAuth proxy \<and> js_lower k \<in> set (map js_lower (px_forwardCredentialHeaders proxy))"
proof -
  from assms(1) obtain hs where "k = ANTI_RECURSION_HEADER \<or> k \<in> fst ` set (stripCredentialHeaders hs
      (if px_forwardAuth proxy then px_forwardCredentialHeaders proxy else []))"
    unfolding outbound_headers_def Let_def keys_rec_del addAntiRecursionHeader_def set_keys_rec_set by blast
  with assms(2) anti_recursion_plain
  have "js_lower k \<in> set (map js_lower (if px_forwardAuth proxy then px_forwardCredentialHeaders proxy else []))"
    using stripCredential_keys by blast
  then show ?thesis by (cases "px_forwardAuth proxy") simp_all
qed

lemma upstream_confined:
  "checkProxyUrl env url (px_allowlist proxy) activePorts = Inr host \<Longrightarrow>
     confined env proxy activePorts (upstream_request proxy inp url)"
  using outbound_credentials [of _ proxy "pi_headers inp"]
  by (simp add: confined_def upstream_request_def rec_get_flatten keys_flatten)
    (simp add: outbound_headers_def addAntiRecursionHeader_def ANTI_RECURSION_HEADER_def join_values_def Let_def)

lemma hops_confined:
  "list_all (confined env proxy activePorts) (snd (proxy_hops env proxy activePorts inp hop left url)) \<and>
   length (snd (proxy_hops env proxy activePorts inp hop left url)) \<le> Suc left"
proof (induction env proxy activePorts inp hop left url rule: proxy_hops.induct)
  case (1 env proxy activePorts inp hop left url)
  show ?case
  proof (cases "checkProxyUrl env url (px_allowlist proxy) activePorts")
    case (Inl r)
    then show ?thesis by (simp add: proxy_hops.simps)
  next
    case (Inr host)
    note c = upstream_confined [OF Inr, of inp]
    show ?thesis
    proof (cases "if px_blockPrivateNetworks proxy then dns_check env url else None")
      case (Some e)
      with Inr show ?thesis by (subst (1 2) proxy_hops.simps) simp
    next
      case None
      note IH = "1.IH" [OF Inr None refl]
      show ?thesis
      proof (cases "fetch env hop (upstream_request proxy inp url)")
        case (Fetch_Error e)
        with Inr None c show ?thesis by (subst (1 2) proxy_hops.simps) (simp add: Let_def)
      next
        case (Fetched status entries bytes)
        show ?thesis
        proof (cases "if 300 \<le> status \<and> status < 400 then location_of entries else None")
          case N: None
          with Inr None Fetched c show ?thesis by (subst (1 2) proxy_hops.simps) (simp add: Let_def)
        next
          case L: (Some loc)
          show ?thesis
          proof (cases "url_resolve env url loc")
            case R: None
            with Inr None Fetched L c show ?thesis by (subst (1 2) proxy_hops.simps) (simp add: Let_def)
          next
            case R: (Some next_url)
            show ?thesis
            proof (cases left)
              case 0
              with Inr None Fetched L R c show ?thesis by (subst (1 2) proxy_hops.simps) (simp add: Let_def)
            next
              case (Suc left')
              obtain r reqs where p: "proxy_hops env proxy activePorts inp (Suc hop) left' next_url = (r, reqs)"
                by fastforce
              with IH [OF Fetched L R Suc] Inr None Fetched L R c Suc
              show ?thesis by (subst (1 2) proxy_hops.simps) (simp add: Let_def)
            qed
          qed
        qed
      qed
    qed
  qed
qed

lemma executeProxy_confined:
  "list_all (confined env proxy activePorts) (snd (executeProxy env proxy activePorts inp url)) \<and>
   length (snd (executeProxy env proxy activePorts inp url)) \<le> 11"
  using hops_confined [of env proxy activePorts inp 0 "nat (clamp 0 (px_maxRedirects proxy) PROXY_maxRedirects)" url]
  by (auto simp: executeProxy_def clamp_def PROXY_maxRedirects_def)

lemma failover_requests:
  "(\<And>o'. list_all P (snd (run o')) \<and> length (snd (run o')) \<le> n) \<Longrightarrow>
     list_all P (snd (snd (failover_from run prev os))) \<and> length (snd (snd (failover_from run prev os))) \<le> n * length os"
proof (induction run prev os rule: failover_from.induct)
  case (2 run prev origin origins)
  obtain r reqs where r: "run origin = (r, reqs)" by fastforce
  obtain r' tried reqs' where f: "failover_from run r origins = (r', tried, reqs')" by (metis prod_cases3)
  show ?case
  proof (cases "shouldTryNextOrigin r")
    case True
    with "2.IH" [OF r [symmetric] True "2.prems"] r f "2.prems" [of origin] show ?thesis by simp
  next
    case False
    with r "2.prems" [of origin] show ?thesis by simp
  qed
qed simp

text \<open>C18. Every request that leaves the proxy, on whatever redirects the upstreams send
it, goes to a URL that the policy allows, carries the anti-recursion mark and no host header, and
carries a credential header only when forwarding is on and the header is listed; and an inbound
request causes at most eleven per origin.\<close>

theorem proxied_requests_confined:
  "list_all (confined env proxy activePorts)
     (snd (snd (executeProxyWithFailover env proxy activePorts inp path url))) \<and>
   length (snd (snd (executeProxyWithFailover env proxy activePorts inp path url))) \<le>
     11 * length (listProxyOrigins proxy)"
  unfolding executeProxyWithFailover_def
  by (rule failover_requests) (rule executeProxy_confined)

lemma failover_result:
  assumes "failover_from run prev os = (r, tried, reqs)" and "os \<noteq> []"
  shows "prefix tried os \<and> tried \<noteq> [] \<and> r = fst (run (List.last tried)) \<and>
    (\<forall>x\<in>set (butlast tried). shouldTryNextOrigin (fst (run x))) \<and> (shouldTryNextOrigin r \<longrightarrow> tried = os)"
  using assms
proof (induction os arbitrary: prev r tried reqs)
  case (Cons origin origins)
  obtain q qs where q: "run origin = (q, qs)" by fastforce
  show ?case
  proof (cases "shouldTryNextOrigin q")
    case False
    with Cons.prems q show ?thesis by auto
  next
    case True
    obtain r' t' reqs' where f: "failover_from run q origins = (r', t', reqs')" by (metis prod_cases3)
    with True q Cons.prems have e: "r = r'" "tried = origin # t'" by auto
    show ?thesis
    proof (cases "origins = []")
      case True
      with f have "r' = q" "t' = []" by simp_all
      with True e q show ?thesis by simp
    next
      case False
      note IH = Cons.IH [OF f this]
      have t: "t' \<noteq> []" "prefix t' origins" using IH by blast+
      have "butlast tried = origin # butlast t'" "List.last tried = List.last t'"
        using t e(2) by simp_all
      moreover have "prefix tried (origin # origins)" "tried \<noteq> []" using t e(2) by simp_all
      moreover have "r = fst (run (List.last tried))" using IH e(1) calculation(2) by metis
      moreover have "\<forall>x\<in>set (butlast tried). shouldTryNextOrigin (fst (run x))"
        using IH q True unfolding calculation(1) by (metis fst_conv set_ConsD)
      moreover have "shouldTryNextOrigin r \<longrightarrow> tried = origin # origins" using IH e by metis
      ultimately show ?thesis by blast
    qed
  qed
qed simp

text \<open>Failover tries the listed origins in order and stops at the first that owns the
path: its answer is the one returned, every origin tried before failed, answered 404 or answered a
server error, and only when all of them did is such an answer returned, from the last.\<close>

theorem failover_first_owner:
  assumes "executeProxyWithFailover env proxy activePorts inp path url = (r, tried, reqs)"
    and "run = (\<lambda>o'. fst (executeProxy env proxy activePorts inp (buildUpstreamUrl env o' path url)))"
    and "listProxyOrigins proxy \<noteq> []"
  shows "prefix tried (listProxyOrigins proxy) \<and> tried \<noteq> [] \<and> r = run (List.last tried) \<and>
    (\<forall>x\<in>set (butlast tried). shouldTryNextOrigin (run x)) \<and>
    (shouldTryNextOrigin r \<longrightarrow> tried = listProxyOrigins proxy)"
  unfolding assms(2) using failover_result [OF assms(1) [unfolded executeProxyWithFailover_def] assms(3)] by blast

section \<open>A concrete network\<close>

text \<open>The network for evaluation: the first origin answers 404, every other 200.\<close>

definition sample_proxy :: proxy_settings where
  "sample_proxy = \<lparr>px_enabled = True, px_allowlist = [''http://a'', ''http://b''], px_blockPrivateNetworks = False,
     px_maxRedirects = 1, px_stripHopByHop = True, px_forwardAuth = False, px_forwardCredentialHeaders = [],
     px_timeoutMs = 100, px_maxResponseBytes = 10, px_recordAsDrafts = False\<rparr>"

definition sample_env :: proxy_env where
  "sample_env = \<lparr>url_parse = (\<lambda>u. Some \<lparr>up_protocol = ''http:'', up_hostname = drop 7 u, up_port = []\<rparr>),
     url_resolve = (\<lambda>base loc. Some loc), url_target = (\<lambda>u. Some ''/''), dns_check = (\<lambda>u. None),
     fetch = (\<lambda>hop req. Fetched (if pq_url req = ''http://a/'' then 404 else 200) [] ''ok''),
     utf8_decode = (\<lambda>b. b)\<rparr>"

definition sample_input :: proxy_input where
  "sample_input = \<lparr>pi_method = ''GET'', pi_headers = [], pi_body = None\<rparr>"

lemma sample_hosts:
  "js_lower ''a/'' = ''a/''" "js_lower ''b/'' = ''b/''" "js_lower ''::1'' = ''::1''"
  by code_simp+

lemma sample_host_policy:
  "\<not> PRIVATE_IPV4 ''a/''" "\<not> PRIVATE_IPV4 ''b/''" "\<not> LOOPBACK_IPV6 ''a/''" "\<not> LOOPBACK_IPV6 ''b/''"
  "\<not> isLocalhost ''a/''" "\<not> isLocalhost ''b/''"
  by (simp_all add: PRIVATE_IPV4_def private_172_def LOOPBACK_IPV6_def isLocalhost_def js_starts_with_def
      js_ends_with_def suffix_to_prefix sample_hosts)

lemma sample_checks:
  "checkProxyUrl sample_env ''http://a/'' (px_allowlist sample_proxy) [] = Inr ''a/''"
  "checkProxyUrl sample_env ''http://b/'' (px_allowlist sample_proxy) [] = Inr ''b/''"
  by (simp_all add: checkProxyUrl_def sample_env_def sample_proxy_def sample_hosts sample_host_policy
      BLOCKED_METADATA_HOSTS_def url_origin_def js_starts_with_def)

lemma sample_executions:
  "executeProxy sample_env sample_proxy [] sample_input ''http://a/'' =
     (\<lparr>pr_ok = True, pr_status = 404, pr_headers = [], pr_body = ''ok'', pr_error = None, pr_redirected = False\<rparr>,
      [upstream_request sample_proxy sample_input ''http://a/''])"
  "executeProxy sample_env sample_proxy [] sample_input ''http://b/'' =
     (\<lparr>pr_ok = True, pr_status = 200, pr_headers = [], pr_body = ''ok'', pr_error = None, pr_redirected = False\<rparr>,
      [upstream_request sample_proxy sample_input ''http://b/''])"
  by (simp_all add: executeProxy_def proxy_hops.simps sample_checks)
    (simp_all add: sample_env_def sample_proxy_def upstream_request_def clamp_def PROXY_maxResponseBytes_def
      headersFromFetch_def stripSetCookieFromResponse_def stripHopByHopHeaders_def)

lemma sample_origins: "listProxyOrigins sample_proxy = [''http://a'', ''http://b'']"
proof -
  have "js_trim ''http://a'' = ''http://a''" "js_trim ''http://b'' = ''http://b''" by code_simp+
  then show ?thesis by (simp add: listProxyOrigins_def sample_proxy_def)
qed

lemma sample_failover:
  "executeProxyWithFailover sample_env sample_proxy [] sample_input ''/'' ''/'' =
     (\<lparr>pr_ok = True, pr_status = 200, pr_headers = [], pr_body = ''ok'', pr_error = None, pr_redirected = False\<rparr>,
      [''http://a'', ''http://b''],
      [upstream_request sample_proxy sample_input ''http://a/'', upstream_request sample_proxy sample_input ''http://b/''])"
proof -
  have "buildUpstreamUrl sample_env ''http://a'' ''/'' ''/'' = ''http://a/''"
    "buildUpstreamUrl sample_env ''http://b'' ''/'' ''/'' = ''http://b/''"
    by (simp_all add: buildUpstreamUrl_def sample_env_def drop_trailing_slash_def js_ends_with_def suffix_to_prefix
        js_starts_with_def)
  then show ?thesis
    by (simp add: executeProxyWithFailover_def sample_origins sample_executions shouldTryNextOrigin_def)
qed

theorem failover_first_owner_witness:
  "shouldTryNextOrigin (fst (executeProxy sample_env sample_proxy [] sample_input
     (buildUpstreamUrl sample_env ''http://a'' ''/'' ''/'')))"
  using failover_first_owner [OF sample_failover refl] sample_origins by simp

section \<open>The allowlist\<close>

text \<open>The allowlist is compared as a prefix of the origin: an entry without a
trailing slash also admits every host name and port that merely continues it, for example a
redirect to a registrable domain of somebody else.\<close>

theorem allowlist_is_a_prefix:
  assumes "url_parse env url = Some u" and "up_protocol u = ''http:'' \<or> up_protocol u = ''https:''"
    and "js_lower (up_hostname u) \<notin> set BLOCKED_METADATA_HOSTS" and "\<not> PRIVATE_IPV4 (js_lower (up_hostname u))"
    and "\<not> LOOPBACK_IPV6 (js_lower (up_hostname u))" and "\<not> isLocalhost (js_lower (up_hostname u))"
    and "url_origin u = entry @ continuation" and "entry \<in> set allowed"
  shows "checkProxyUrl env url allowed activePorts = Inr (js_lower (up_hostname u))"
proof -
  have "list_ex (\<lambda>e. js_starts_with (url_origin u) e \<or> js_starts_with url e) allowed"
    using assms(7,8) unfolding list_ex_iff js_starts_with_def by (metis prefixI)
  with assms(1-6) show ?thesis by (auto simp: checkProxyUrl_def Let_def)
qed

theorem allowlist_is_a_prefix_witness:
  "checkProxyUrl sample_env ''http://b.c'' [''http://b''] [] = Inr ''b.c''"
proof -
  have l: "js_lower ''b.c'' = ''b.c''" "js_lower ''::1'' = ''::1''" by code_simp+
  have "checkProxyUrl sample_env ''http://b.c'' [''http://b''] [] =
      Inr (js_lower (up_hostname \<lparr>up_protocol = ''http:'', up_hostname = ''b.c'', up_port = []\<rparr>))"
    by (rule allowlist_is_a_prefix [where entry = "''http://b''" and continuation = "''.c''"])
      (simp_all add: sample_env_def l BLOCKED_METADATA_HOSTS_def PRIVATE_IPV4_def private_172_def LOOPBACK_IPV6_def
        isLocalhost_def js_starts_with_def js_ends_with_def suffix_to_prefix url_origin_def)
  then show ?thesis by (simp add: l)
qed

end
