(* ===== verification/Fault_Executor.thy ===== *)
theory Fault_Executor
  imports Proxy Scenario
begin

text \<open>
  Delivery of a response or a fault on a live connection
  (\<open>src-server/api-mock/apiMockFaultExecutor.ts\<close>). \<open>deliverWithFault\<close> returns a promise: the call is
  \<open>deliver_start\<close>, and what happens until the promise resolves are the events \<open>Timer_Fires\<close> (the one
  timer that is pending; the flag tells whether \<open>res.write\<close> returns) and \<open>Connection_Closed\<close> (the
  close event of the socket or of the HTTP/2 stream). What the code does to the connection is a trace.
  The properties compare a run with \<open>previewFaultDelivery\<close>, which describes it in advance.
\<close>

section \<open>Connection and result\<close>

datatype wire_action =
    Head int header_map \<comment> \<open>\<open>writeHead\<close>\<close>
  | Chunk string \<comment> \<open>\<open>write\<close>\<close>
  | Finish string \<comment> \<open>\<open>end\<close>, with its text\<close>
  | Raw_Bytes string \<comment> \<open>written to the socket itself\<close>
  | Close_Stream
  | Destroy_Session
  | Destroy_Socket

record fault_request =
  fi_http2 :: bool
  fi_fault :: fault_kind
  fi_behavior :: behavior
  fi_longRunningMaxMs :: int
  fi_status :: int
  fi_headers :: header_map
  fi_body :: string

text \<open>What the connection is like when the call is made.\<close>

record connection_env =
  ce_headersSent :: bool
  ce_gone :: bool \<comment> \<open>\<open>connectionAlreadyGone\<close>\<close>
  ce_acceptsHeaders :: "header_map \<Rightarrow> bool"

record fault_delivery =
  fd_outcome :: outcome
  fd_status :: int
  fd_body :: string
  fd_completedHttp :: bool

record fault_run =
  fr_wire :: "wire_action list"
  fr_queue :: "body_chunk list" \<comment> \<open>chunks whose timers are still to come\<close>
  fr_timer :: "int option" \<comment> \<open>the delay of the pending timer\<close>
  fr_clock :: int
  fr_result :: "fault_delivery option" \<comment> \<open>the promise, once it is resolved\<close>

definition responseHeaders :: "fault_request \<Rightarrow> header_map" where
  "responseHeaders r = (if fi_http2 r then stripHopByHopHeaders (fi_headers r) else fi_headers r)"

definition closeFaultStream :: "fault_request \<Rightarrow> wire_action list" where
  "closeFaultStream r = (if fi_http2 r then [Close_Stream] else [])"

definition destroyFaultConnection :: "fault_request \<Rightarrow> wire_action list" where
  "destroyFaultConnection r = closeFaultStream r @ (if fi_http2 r then [Destroy_Session] else []) @ [Destroy_Socket]"

section \<open>The call\<close>

definition broken :: fault_delivery where
  "broken = \<lparr>fd_outcome = Out_fault, fd_status = 0, fd_body = [], fd_completedHttp = False\<rparr>"

definition dribbled :: "fault_request \<Rightarrow> bool \<Rightarrow> fault_delivery" where
  "dribbled r completed = \<lparr>fd_outcome = Out_fault, fd_status = fi_status r, fd_body = fi_body r, fd_completedHttp = completed\<rparr>"

definition resolved :: "wire_action list \<Rightarrow> fault_delivery \<Rightarrow> fault_run" where
  "resolved w d = \<lparr>fr_wire = w, fr_queue = [], fr_timer = None, fr_clock = 0, fr_result = Some d\<rparr>"

definition settle_timeout :: "bool \<Rightarrow> fault_request \<Rightarrow> fault_run \<Rightarrow> fault_run" where
  "settle_timeout destroy r s =
     s\<lparr>fr_timer := None, fr_wire := fr_wire s @ (if destroy then destroyFaultConnection r else []), fr_result := Some broken\<rparr>"

definition settle_dribble :: "bool \<Rightarrow> bool \<Rightarrow> fault_request \<Rightarrow> fault_run \<Rightarrow> fault_run" where
  "settle_dribble completed gone r s =
     s\<lparr>fr_timer := None,
       fr_wire := fr_wire s @ (if completed then [Finish []]
         else if fi_http2 r then (if gone then [] else closeFaultStream r)
         else destroyFaultConnection r),
       fr_result := Some (dribbled r completed)\<rparr>"

text \<open>\<open>writeNext\<close>: the end of the schedule, or the timer of the next chunk.\<close>

definition writeNext :: "fault_request \<Rightarrow> fault_run \<Rightarrow> fault_run" where
  "writeNext r s = (case fr_queue s of
       [] \<Rightarrow> settle_dribble True False r s
     | c # cs \<Rightarrow> s\<lparr>fr_timer := Some (max 0 (chunk_afterMs c))\<rparr>)"

definition dribble_headers :: "fault_request \<Rightarrow> header_map" where
  "dribble_headers r = (if fi_http2 r then responseHeaders r
     else rec_set (responseHeaders r) ''Transfer-Encoding'' (One_Value ''chunked''))"

text \<open>\<open>None\<close> is an exception out of \<open>writeHead\<close>.\<close>

definition deliver_start :: "connection_env \<Rightarrow> fault_request \<Rightarrow> fault_run option" where
  "deliver_start ce r =
     (let idle = \<lparr>fr_wire = [], fr_queue = [], fr_timer = None, fr_clock = 0, fr_result = None\<rparr>
      in case fi_fault r of
        Fault_none \<Rightarrow>
          (let delivered = \<lparr>fd_outcome = Out_matched, fd_status = fi_status r, fd_body = fi_body r, fd_completedHttp = True\<rparr>
           in if ce_headersSent ce then Some (resolved [] delivered)
              else if \<not> ce_acceptsHeaders ce (responseHeaders r) then None
              else Some (resolved [Head (fi_status r) (responseHeaders r), Finish (fi_body r)] delivered))
      | Fault_timeout \<Rightarrow>
          Some (if ce_gone ce then settle_timeout False r idle
                else idle\<lparr>fr_timer := Some (clampTimeoutHoldMs (bh_longRunningMs (fi_behavior r)) (fi_longRunningMaxMs r))\<rparr>)
      | Fault_reset \<Rightarrow> Some (resolved (destroyFaultConnection r) broken)
      | Fault_close \<Rightarrow> Some (resolved (if fi_http2 r then closeFaultStream r else [Finish []]) broken)
      | Fault_malformed \<Rightarrow>
          Some (resolved (if fi_http2 r then destroyFaultConnection r
            else [Raw_Bytes (''HTTP/1.1 BROKEN'' @ [CR, LF] @ ''Not-A-Header'' @ [CR, LF, CR, LF] @ ''{{{''), Destroy_Socket]) broken)
      | Fault_dribble \<Rightarrow>
          (let s = idle\<lparr>fr_queue := dribble_schedule (fi_behavior r) (fi_body r)\<rparr>
           in Some (if ce_gone ce then settle_dribble False True r s
                else if ce_headersSent ce then writeNext r s
                else if \<not> ce_acceptsHeaders ce (dribble_headers r) then settle_dribble False False r s
                else writeNext r (s\<lparr>fr_wire := [Head (fi_status r) (dribble_headers r)]\<rparr>))))"

section \<open>Until it resolves\<close>

datatype fault_event = Timer_Fires bool | Connection_Closed

definition write_chunk :: "bool \<Rightarrow> fault_request \<Rightarrow> fault_run \<Rightarrow> fault_run" where
  "write_chunk writes r s = (case fr_queue s of
       [] \<Rightarrow> s
     | c # cs \<Rightarrow>
         if writes then writeNext r (s\<lparr>fr_queue := cs, fr_wire := fr_wire s @ [Chunk (chunk_body c)]\<rparr>)
         else settle_dribble False False r (s\<lparr>fr_queue := cs\<rparr>))"

definition fault_step :: "fault_request \<Rightarrow> fault_run \<Rightarrow> fault_event \<Rightarrow> fault_run" where
  "fault_step r s e =
     (if fr_result s \<noteq> None then s
      else case e of
        Connection_Closed \<Rightarrow>
          (if fi_fault r = Fault_timeout then settle_timeout False r s else settle_dribble False True r s)
      | Timer_Fires writes \<Rightarrow>
          (case fr_timer s of
             None \<Rightarrow> s
           | Some ms \<Rightarrow>
               (let s1 = s\<lparr>fr_timer := None, fr_clock := fr_clock s + ms\<rparr>
                in if fi_fault r = Fault_timeout then settle_timeout True r s1 else write_chunk writes r s1)))"

abbreviation fault_events :: "fault_request \<Rightarrow> fault_run \<Rightarrow> fault_event list \<Rightarrow> fault_run" where
  "fault_events r \<equiv> foldl (fault_step r)"

text \<open>The text the peer gets as the body.\<close>

fun wire_body :: "wire_action list \<Rightarrow> string" where
  "wire_body [] = []"
| "wire_body (Chunk t # w) = t @ wire_body w"
| "wire_body (Finish t # w) = t @ wire_body w"
| "wire_body (_ # w) = wire_body w"

text \<open>The status line the peer gets: Node sends an implicit 200 when the response is ended before
\<open>writeHead\<close>.\<close>

fun wire_status :: "wire_action list \<Rightarrow> int option" where
  "wire_status [] = None"
| "wire_status (Head st hs # w) = Some st"
| "wire_status (Finish t # w) = Some 200"
| "wire_status (Chunk t # w) = Some 200"
| "wire_status (_ # w) = None"

section \<open>Resolution\<close>

definition promised_body :: "fault_request \<Rightarrow> string" where
  "promised_body r = (case fi_fault r of
       Fault_none \<Rightarrow> fi_body r
     | Fault_dribble \<Rightarrow> concat (map chunk_body (dribble_schedule (fi_behavior r) (fi_body r)))
     | _ \<Rightarrow> [])"

text \<open>While the promise is open, exactly one timer is pending, and what has been written and what is
queued make up the promised body; afterwards a prefix of it has been written.\<close>

definition fault_ok :: "fault_request \<Rightarrow> fault_run \<Rightarrow> bool" where
  "fault_ok r s = (case fr_result s of
       None \<Rightarrow>
         (fi_fault r = Fault_timeout \<and> fr_timer s \<noteq> None \<and> fr_queue s = [] \<and> wire_body (fr_wire s) = []) \<or>
         (fi_fault r = Fault_dribble \<and> fr_queue s \<noteq> [] \<and> fr_timer s = Some (max 0 (chunk_afterMs (hd (fr_queue s)))) \<and>
          wire_body (fr_wire s) @ concat (map chunk_body (fr_queue s)) = promised_body r)
     | Some d \<Rightarrow>
         (if fi_fault r = Fault_none then fd_outcome d = Out_matched
          else d = (if fi_fault r = Fault_dribble then dribbled r (fd_completedHttp d) else broken)) \<and>
         prefix (wire_body (fr_wire s)) (promised_body r) \<and>
         (fd_completedHttp d \<longrightarrow> wire_body (fr_wire s) = promised_body r))"

definition timers_left :: "fault_run \<Rightarrow> nat" where
  "timers_left s = (if fr_result s = None then max 1 (length (fr_queue s)) else 0)"

lemma wire_body_append [simp]: "wire_body (a @ b) = wire_body a @ wire_body b"
  by (induction a rule: wire_body.induct) simp_all

lemma wire_body_closing [simp]:
  "wire_body (closeFaultStream r) = []" "wire_body (destroyFaultConnection r) = []"
  by (simp_all add: closeFaultStream_def destroyFaultConnection_def)

lemma dribble_schedule_nonempty [simp]: "dribble_schedule b body \<noteq> []"
  by (simp add: dribble_schedule_def Let_def split: option.split list.split)

lemma settle_dribble_ok:
  assumes "fi_fault r = Fault_dribble" and "prefix (wire_body (fr_wire s)) (promised_body r)"
    and "completed \<longrightarrow> wire_body (fr_wire s) = promised_body r"
  shows "fault_ok r (settle_dribble completed gone r s)"
  using assms by (auto simp: fault_ok_def settle_dribble_def dribbled_def)

lemma settle_timeout_ok:
  "fi_fault r = Fault_timeout \<Longrightarrow> wire_body (fr_wire s) = [] \<Longrightarrow> fault_ok r (settle_timeout destroy r s)"
  by (auto simp: fault_ok_def settle_timeout_def broken_def)

lemma writeNext_ok:
  assumes "fi_fault r = Fault_dribble" and "fr_result s = None"
    and "wire_body (fr_wire s) @ concat (map chunk_body (fr_queue s)) = promised_body r"
  shows "fault_ok r (writeNext r s)"
proof (cases "fr_queue s")
  case Nil
  with assms settle_dribble_ok [OF assms(1), of s True False] show ?thesis by (simp add: writeNext_def)
next
  case (Cons c cs)
  with assms show ?thesis by (simp add: writeNext_def fault_ok_def)
qed

lemma deliver_start_ok:
  assumes "deliver_start ce r = Some s" and "\<not> ce_headersSent ce"
  shows "fault_ok r s"
proof (cases "fi_fault r")
  case Fault_timeout
  show ?thesis
  proof (cases "ce_gone ce")
    case True
    with assms Fault_timeout show ?thesis by (auto simp: deliver_start_def Let_def intro!: settle_timeout_ok)
  next
    case False
    with assms Fault_timeout show ?thesis by (auto simp: deliver_start_def Let_def fault_ok_def)
  qed
next
  case Fault_dribble
  then have "promised_body r = concat (map chunk_body (dribble_schedule (fi_behavior r) (fi_body r)))"
    by (simp add: promised_body_def)
  with assms Fault_dribble show ?thesis
    by (auto simp: deliver_start_def Let_def intro!: settle_dribble_ok writeNext_ok split: if_splits)
qed (use assms in \<open>auto simp: deliver_start_def resolved_def fault_ok_def promised_body_def broken_def Let_def split: if_splits\<close>)

lemma open_cases:
  assumes "fault_ok r s" and "fr_result s = None"
  obtains (timeout) ms where "fi_fault r = Fault_timeout" "fr_timer s = Some ms" "fr_queue s = []" "wire_body (fr_wire s) = []"
  | (dribble) c cs where "fi_fault r = Fault_dribble" "fr_queue s = c # cs" "fr_timer s = Some (max 0 (chunk_afterMs c))"
      "wire_body (fr_wire s) @ concat (map chunk_body (fr_queue s)) = promised_body r"
  using assms by (cases "fr_queue s") (auto simp: fault_ok_def)

lemma fault_step_settled [simp]: "fr_result s \<noteq> None \<Longrightarrow> fault_step r s e = s"
  by (simp add: fault_step_def)

lemma fault_step_ok: "fault_ok r s \<Longrightarrow> fault_ok r (fault_step r s e)"
proof (cases "fr_result s")
  case None
  assume ok: "fault_ok r s"
  from ok None show ?thesis
  proof (cases rule: open_cases)
    case timeout
    then show ?thesis using None
      by (auto simp: fault_step_def Let_def intro!: settle_timeout_ok split: fault_event.split)
  next
    case (dribble c cs)
    then have "prefix (wire_body (fr_wire s)) (promised_body r)" by (metis prefixI)
    with dribble None show ?thesis
      by (auto simp: fault_step_def write_chunk_def Let_def intro!: settle_dribble_ok writeNext_ok split: fault_event.split)
  qed
qed simp

interpretation fault_runs: state_machine "fault_step r" "fault_ok r" for r
  by unfold_locales (rule fault_step_ok)

lemma settled_run: "fr_result s \<noteq> None \<Longrightarrow> fault_events r s es = s"
  by (induction es) simp_all

lemma fault_step_closed: "fr_result (fault_step r s Connection_Closed) \<noteq> None"
  by (simp add: fault_step_def settle_timeout_def settle_dribble_def)

lemma fault_step_timer:
  assumes "fault_ok r s" and "fr_result s = None"
  shows "timers_left (fault_step r s (Timer_Fires w)) < timers_left s"
  using assms
proof (cases rule: open_cases)
  case timeout
  then show ?thesis using assms by (simp add: fault_step_def settle_timeout_def timers_left_def Let_def)
next
  case (dribble c cs)
  then show ?thesis using assms
    by (cases cs) (simp_all add: fault_step_def write_chunk_def writeNext_def settle_dribble_def timers_left_def Let_def)
qed

lemma timers_settle:
  "fault_ok r s \<Longrightarrow> timers_left s \<le> length (filter (\<lambda>e. e \<noteq> Connection_Closed) es) \<or> Connection_Closed \<in> set es \<Longrightarrow>
     fr_result (fault_events r s es) \<noteq> None"
proof (induction es arbitrary: s)
  case Nil
  then show ?case by (simp add: timers_left_def split: if_splits)
next
  case (Cons e es)
  show ?case
  proof (cases "fr_result s = None")
    case False
    then show ?thesis using settled_run [of s r "e # es"] by simp
  next
    case True
    note IH = Cons.IH [OF fault_step_ok [OF Cons.prems(1), of e]]
    show ?thesis
    proof (cases e)
      case (Timer_Fires w)
      with Cons.prems fault_step_timer [OF Cons.prems(1) True, of w] IH show ?thesis by auto
    next
      case Connection_Closed
      with settled_run [OF fault_step_closed] fault_step_closed [of r s] show ?thesis by simp
    qed
  qed
qed

lemma timers_left_start:
  "deliver_start ce r = Some s \<Longrightarrow> timers_left s \<le> length (dribble_schedule (fi_behavior r) (fi_body r))"
  by (cases "dribble_schedule (fi_behavior r) (fi_body r)")
    (auto simp: deliver_start_def resolved_def timers_left_def settle_timeout_def settle_dribble_def writeNext_def Let_def
      split: fault_kind.splits if_splits)

text \<open>C26. The promise of a delivery always settles, once: after the connection is closed, or
when as many timers have fired as the schedule has chunks, whatever the order, it is resolved and
later events change nothing. By then a prefix of the promised body has been written, all of it if the
delivery counts as completed.\<close>

theorem fault_delivery_settles:
  assumes "deliver_start ce r = Some s" and "\<not> ce_headersSent ce"
    and "Connection_Closed \<in> set es \<or>
      length (dribble_schedule (fi_behavior r) (fi_body r)) \<le> length (filter (\<lambda>e. e \<noteq> Connection_Closed) es)"
    and "s' = fault_events r s es"
  shows "\<exists>d. fr_result s' = Some d \<and> fault_events r s (es @ es') = s' \<and>
    prefix (wire_body (fr_wire s')) (promised_body r) \<and>
    (fd_completedHttp d \<longrightarrow> wire_body (fr_wire s') = promised_body r)"
proof -
  note ok = deliver_start_ok [OF assms(1,2)]
  have "timers_left s \<le> length (filter (\<lambda>e. e \<noteq> Connection_Closed) es) \<or> Connection_Closed \<in> set es"
    using assms(3) timers_left_start [OF assms(1)] by linarith
  then obtain d where d: "fr_result s' = Some d" using timers_settle [OF ok] assms(4) by blast
  have "fault_ok r s'" unfolding assms(4) by (rule fault_runs.run_ok [OF ok])
  then show ?thesis using d settled_run [of s' r es'] assms(4) by (auto simp: fault_ok_def)
qed

section \<open>The preview\<close>

definition chunks_ms :: "body_chunk list \<Rightarrow> int" where
  "chunks_ms cs = (\<Sum>c\<leftarrow>cs. max 0 (chunk_afterMs c))"

lemma chunk_timeline_end: "snd (chunk_timeline h cursor cs) = cursor + chunks_ms cs"
  by (induction h cursor cs rule: chunk_timeline.induct) (simp_all add: chunks_ms_def Let_def case_prod_beta)

text \<open>A dribble that is not disturbed writes its queue to the end.\<close>

lemma dribble_runs:
  assumes "fi_fault r = Fault_dribble" and "fr_result s = None" and "fr_queue s = c # cs"
    and "fr_timer s = Some (max 0 (chunk_afterMs c))"
  shows "fault_events r s (replicate (length (fr_queue s)) (Timer_Fires True)) =
    s\<lparr>fr_queue := [], fr_timer := None, fr_clock := fr_clock s + chunks_ms (fr_queue s),
      fr_wire := fr_wire s @ map (\<lambda>c. Chunk (chunk_body c)) (fr_queue s) @ [Finish []],
      fr_result := Some (dribbled r True)\<rparr>"
  using assms
proof (induction cs arbitrary: s c)
  case Nil
  then show ?case
    by (simp add: fault_step_def write_chunk_def writeNext_def settle_dribble_def chunks_ms_def Let_def)
next
  case (Cons c' cs)
  define s1 where "s1 = fault_step r s (Timer_Fires True)"
  have s1: "s1 = s\<lparr>fr_queue := c' # cs, fr_timer := Some (max 0 (chunk_afterMs c')),
      fr_clock := fr_clock s + max 0 (chunk_afterMs c), fr_wire := fr_wire s @ [Chunk (chunk_body c)]\<rparr>"
    using Cons.prems by (simp add: s1_def fault_step_def write_chunk_def writeNext_def Let_def)
  have "fault_events r s (replicate (length (fr_queue s)) (Timer_Fires True)) =
      fault_events r s1 (replicate (length (fr_queue s1)) (Timer_Fires True))"
    using Cons.prems(3) by (simp add: s1_def [symmetric]) (simp add: s1)
  also have "\<dots> = s1\<lparr>fr_queue := [], fr_timer := None, fr_clock := fr_clock s1 + chunks_ms (fr_queue s1),
      fr_wire := fr_wire s1 @ map (\<lambda>c. Chunk (chunk_body c)) (fr_queue s1) @ [Finish []],
      fr_result := Some (dribbled r True)\<rparr>"
    using Cons.prems(1,2) by (intro Cons.IH [where c = c']) (simp_all add: s1)
  finally show ?case using Cons.prems(3) by (simp add: s1 chunks_ms_def)
qed

lemma wire_body_chunks [simp]: "wire_body (map (\<lambda>c. Chunk (chunk_body c)) cs) = concat (map chunk_body cs)"
  by (induction cs) simp_all

lemma undisturbed_dribble:
  assumes "fi_fault r = Fault_dribble" and "\<not> ce_gone ce" and "\<not> ce_headersSent ce" and "ce_acceptsHeaders ce (dribble_headers r)"
    and "deliver_start ce r = Some s"
  shows "fault_events r s (replicate (length (dribble_schedule (fi_behavior r) (fi_body r))) (Timer_Fires True)) =
    \<lparr>fr_wire = Head (fi_status r) (dribble_headers r) #
       map (\<lambda>c. Chunk (chunk_body c)) (dribble_schedule (fi_behavior r) (fi_body r)) @ [Finish []],
     fr_queue = [], fr_timer = None, fr_clock = chunks_ms (dribble_schedule (fi_behavior r) (fi_body r)),
     fr_result = Some (dribbled r True)\<rparr>"
proof (cases "dribble_schedule (fi_behavior r) (fi_body r)")
  case (Cons c cs)
  then have s: "s = \<lparr>fr_wire = [Head (fi_status r) (dribble_headers r)], fr_queue = c # cs,
      fr_timer = Some (max 0 (chunk_afterMs c)), fr_clock = 0, fr_result = None\<rparr>"
    using assms by (auto simp: deliver_start_def writeNext_def Let_def)
  show ?thesis
    using dribble_runs [OF assms(1), of s c cs] by (simp add: Cons s)
qed simp

lemma undisturbed_more:
  "fr_result (fault_events r s (replicate m e)) \<noteq> None \<Longrightarrow> m \<le> n \<Longrightarrow>
     fault_events r s (replicate n e) = fault_events r s (replicate m e)"
proof -
  assume a: "fr_result (fault_events r s (replicate m e)) \<noteq> None" "m \<le> n"
  then have "replicate n e = replicate m e @ replicate (n - m) e" by (metis le_add_diff_inverse replicate_add)
  then show ?thesis using settled_run [OF a(1)] by simp
qed

text \<open>The preview tells the truth about an undisturbed delivery: once its timers have fired,
outcome, status, body, completion, the body on the wire and the time of the last action are those that
\<open>previewFaultDelivery\<close> announces, for every kind of fault.\<close>

theorem preview_matches_delivery:
  assumes "\<not> ce_gone ce" and "\<not> ce_headersSent ce" and "\<And>hs. ce_acceptsHeaders ce hs"
    and "deliver_start ce r = Some s"
    and "length (dribble_schedule (fi_behavior r) (fi_body r)) \<le> n"
    and "s' = fault_events r s (replicate n (Timer_Fires True))"
    and "p = previewFaultDelivery h (Some (fi_fault r)) (fi_behavior r) (fi_status r) (fi_body r) (fi_longRunningMaxMs r)"
  shows "fr_result s' = Some \<lparr>fd_outcome = fv_deliveryOutcome p, fd_status = fv_effectiveStatus p,
      fd_body = fv_effectiveBody p, fd_completedHttp = fv_httpCompleted p\<rparr> \<and>
    wire_body (fr_wire s') = fv_wireBody p \<and> fr_clock s' = tl_atMs (last (fv_timeline p))"
proof (cases "fi_fault r = Fault_dribble \<or> fi_fault r = Fault_timeout")
  case False
  then have "fr_result s \<noteq> None" "s' = s"
    using assms(1-4) settled_run [of s r] unfolding assms(6)
    by (auto simp: deliver_start_def resolved_def Let_def split: fault_kind.splits)
  with False assms(1-4) show ?thesis unfolding assms(7)
    by (auto simp: deliver_start_def resolved_def previewFaultDelivery_def broken_delivery_def broken_def Let_def
        split: fault_kind.splits)
next
  case True
  then show ?thesis
  proof
    assume f: "fi_fault r = Fault_dribble"
    note d = undisturbed_dribble [OF f assms(1,2,3,4)]
    have "s' = \<lparr>fr_wire = Head (fi_status r) (dribble_headers r) #
         map (\<lambda>c. Chunk (chunk_body c)) (dribble_schedule (fi_behavior r) (fi_body r)) @ [Finish []],
       fr_queue = [], fr_timer = None, fr_clock = chunks_ms (dribble_schedule (fi_behavior r) (fi_body r)),
       fr_result = Some (dribbled r True)\<rparr>"
      unfolding assms(6) d [symmetric] by (rule undisturbed_more [OF _ assms(5)]) (simp add: d)
    with f show ?thesis unfolding assms(7)
      by (simp add: previewFaultDelivery_def dribbled_def chunk_timeline_end Let_def case_prod_beta)
  next
    assume f: "fi_fault r = Fault_timeout"
    have "s' = fault_events r s (replicate 1 (Timer_Fires True))"
      unfolding assms(6)
    proof (rule undisturbed_more)
      show "1 \<le> n" using assms(5) by (cases "dribble_schedule (fi_behavior r) (fi_body r)") auto
    qed (use f assms(1,4) in \<open>auto simp: deliver_start_def fault_step_def settle_timeout_def Let_def\<close>)
    with f assms(1,4) show ?thesis unfolding assms(7)
      by (auto simp: deliver_start_def fault_step_def settle_timeout_def previewFaultDelivery_def broken_delivery_def
          broken_def Let_def)
  qed
qed

text \<open>A close fault over HTTP/1.1 is not abrupt: ending a response whose head was not written
makes Node send its implicit status line, so the client gets an empty 200, where the preview announces
an end without a status line and the transaction records status 0.\<close>

theorem close_fault_answers:
  assumes "fi_fault r = Fault_close" and "\<not> fi_http2 r" and "deliver_start ce r = Some s"
    and "p = previewFaultDelivery h (Some (fi_fault r)) b st body cap"
  shows "wire_status (fr_wire s) = Some 200 \<and> map_option fd_status (fr_result s) = Some 0 \<and>
    \<not> fv_httpCompleted p \<and> fv_timeline p = [\<lparr>tl_atMs = 0, tl_label = ''Abrupt end without status line''\<rparr>]"
  using assms by (auto simp: deliver_start_def resolved_def broken_def previewFaultDelivery_def broken_delivery_def Let_def)

section \<open>Concrete deliveries\<close>

definition sample_connection :: connection_env where
  "sample_connection = \<lparr>ce_headersSent = False, ce_gone = False, ce_acceptsHeaders = (\<lambda>hs. True)\<rparr>"

definition sample_fault :: "fault_kind \<Rightarrow> fault_request" where
  "sample_fault k = \<lparr>fi_http2 = False, fi_fault = k, fi_behavior = sample_behavior, fi_longRunningMaxMs = 0,
     fi_status = 200, fi_headers = [], fi_body = ''abc''\<rparr>"

lemma sample_schedule:
  "dribble_schedule (fi_behavior (sample_fault k)) (fi_body (sample_fault k)) =
     [\<lparr>chunk_afterMs = 20, chunk_body = ''ab''\<rparr>, \<lparr>chunk_afterMs = 40, chunk_body = ''c''\<rparr>]"
  by (simp add: dribble_schedule_def sample_fault_def sample_behavior_def Let_def)

lemma sample_start: "deliver_start sample_connection (sample_fault k) \<noteq> None"
  by (simp add: deliver_start_def sample_connection_def Let_def split: fault_kind.split)

theorem fault_delivery_settles_witness:
  "\<exists>s. deliver_start sample_connection (sample_fault Fault_dribble) = Some s \<and>
     fr_result (fault_events (sample_fault Fault_dribble) s [Timer_Fires True, Connection_Closed]) \<noteq> None"
proof -
  obtain s where s: "deliver_start sample_connection (sample_fault Fault_dribble) = Some s" using sample_start by blast
  from fault_delivery_settles [OF s, of "[Timer_Fires True, Connection_Closed]" _ "[]"] s show ?thesis
    by (auto simp: sample_connection_def)
qed

theorem preview_matches_delivery_witness:
  "\<exists>s. deliver_start sample_connection (sample_fault Fault_dribble) = Some s \<and>
     wire_body (fr_wire (fault_events (sample_fault Fault_dribble) s (replicate 2 (Timer_Fires True)))) =
     fv_wireBody (previewFaultDelivery sample_host (Some Fault_dribble) sample_behavior 200 ''abc'' 0)"
proof -
  obtain s where s: "deliver_start sample_connection (sample_fault Fault_dribble) = Some s" using sample_start by blast
  with preview_matches_delivery [OF _ _ _ s _ refl refl, of 2 sample_host] show ?thesis
    unfolding sample_schedule by (simp add: sample_connection_def) (simp add: sample_fault_def)
qed

theorem close_fault_answers_witness:
  "\<exists>s. deliver_start sample_connection (sample_fault Fault_close) = Some s \<and> wire_status (fr_wire s) = Some 200"
proof -
  obtain s where s: "deliver_start sample_connection (sample_fault Fault_close) = Some s" using sample_start by blast
  with close_fault_answers [OF _ _ s refl, of sample_host sample_behavior 200 "''abc''" 0] show ?thesis
    by (simp add: sample_fault_def)
qed

end
