(* ===== verification/Load_Control.thy ===== *)
theory Load_Control
  imports Interfaces
begin

text \<open>
  The controls of a test run: the error policy (\<open>engine/core/circuitBreaker.ts\<close>), the counting
  semaphore (\<open>shared/utils/semaphore.ts\<close>), the allocation of iterations to tests
  (\<open>engine/core/allocationEngine.ts\<close>), the think time (\<open>engine/core/thinkTime.ts\<close>) and the
  concurrency target and the weighted scenario pool of a load profile
  (\<open>engine/load/loadProfileRunner.ts\<close>).

  Durations and settings are integers, derived quantities are rationals. Random draws are
  arguments: the index drawn at each step of the shuffle, the fraction in \<open>[0, 1)\<close> of the
  uniform think time and the Gaussian deviate.
\<close>

section \<open>Results\<close>

record failure_detail =
  fd_path :: string
  fd_expected :: string
  fd_actual :: string

text \<open>The fields of a result that the engine reads; the captured payload fields are left out.\<close>

record request_result =
  rr_id :: string
  rr_scenarioId :: string
  rr_scenarioName :: string
  rr_url :: string
  rr_method :: string
  rr_httpStatus :: int
  rr_responseTimeMs :: rat
  rr_responseBody :: string
  rr_timestamp :: int
  rr_passed :: bool
  rr_validationMode :: string
  rr_failureDetails :: "failure_detail list"
  rr_errorMessage :: "string option"
  rr_dataRowId :: "string option"
  rr_dataRowLabel :: "string option"
  rr_cancelled :: bool
  rr_transportType :: "string option"

definition sample_result :: "string \<Rightarrow> bool \<Rightarrow> request_result" where
  "sample_result i ok = \<lparr>rr_id = i, rr_scenarioId = ''s1'', rr_scenarioName = ''List'', rr_url = ''/a'',
     rr_method = ''GET'', rr_httpStatus = (if ok then 200 else 500), rr_responseTimeMs = 12,
     rr_responseBody = [], rr_timestamp = 0, rr_passed = ok, rr_validationMode = ''none'',
     rr_failureDetails = (if ok then [] else [\<lparr>fd_path = ''(http)'', fd_expected = ''2xx'', fd_actual = ''HTTP 500''\<rparr>]),
     rr_errorMessage = None, rr_dataRowId = None, rr_dataRowLabel = None,
     rr_cancelled = False, rr_transportType = None\<rparr>"

section \<open>Circuit breaker\<close>

datatype error_policy = Continue | Stop_First | Stop_Threshold

record circuit_breaker =
  errorCount :: nat
  totalCount :: nat
  tripped :: bool
  policy :: error_policy
  maxErrors :: int
  maxErrorRate :: int
  minSampleSize :: int

definition new_breaker :: "error_policy \<Rightarrow> int \<Rightarrow> int \<Rightarrow> int \<Rightarrow> circuit_breaker" where
  "new_breaker p me mr ms = \<lparr>errorCount = 0, totalCount = 0, tripped = False, policy = p,
     maxErrors = me, maxErrorRate = mr, minSampleSize = ms\<rparr>"

definition error_percent :: "nat \<Rightarrow> nat \<Rightarrow> rat" where
  "error_percent e t = of_nat e / of_nat t * 100"

definition breaker_record :: "circuit_breaker \<Rightarrow> request_result \<Rightarrow> circuit_breaker" where
  "breaker_record b r =
     (let b1 = b\<lparr>totalCount := totalCount b + 1\<rparr>;
          b2 = (if \<not> rr_passed r then b1\<lparr>errorCount := errorCount b1 + 1\<rparr> else b1)
      in if policy b2 = Continue then b2
         else if policy b2 = Stop_First \<and> \<not> rr_passed r then b2\<lparr>tripped := True\<rparr>
         else if policy b2 = Stop_Threshold then
           (if maxErrors b2 \<le> int (errorCount b2) then b2\<lparr>tripped := True\<rparr>
            else if minSampleSize b2 \<le> int (totalCount b2) then
              (if of_int (maxErrorRate b2) \<le> error_percent (errorCount b2) (totalCount b2)
               then b2\<lparr>tripped := True\<rparr> else b2)
            else b2)
         else b2)"

definition shouldStop :: "circuit_breaker \<Rightarrow> bool" where
  "shouldStop b = tripped b"

text \<open>\<open>x.toFixed(1)\<close> for a non-negative number: the nearest tenth, halves away from zero.\<close>

definition to_fixed1 :: "rat \<Rightarrow> string" where
  "to_fixed1 x = (let n = nat \<lfloor>x * 10 + 1 / 2\<rfloor> in js_nat (n div 10) @ ''.'' @ js_nat (n mod 10))"

definition breaker_reason :: "circuit_breaker \<Rightarrow> string" where
  "breaker_reason b =
     (if policy b = Stop_First then ''Stopped: first error encountered''
      else if maxErrors b \<le> int (errorCount b) then
        ''Stopped: '' @ js_nat (errorCount b) @ '' errors reached max ('' @ js_int (maxErrors b) @ '')''
      else if totalCount b = 0 then ''Stopped: no requests recorded''
      else ''Stopped: error rate '' @ to_fixed1 (error_percent (errorCount b) (totalCount b)) @
           ''% exceeded '' @ js_int (maxErrorRate b) @ ''%'')"

lemmas breaker_defs = breaker_record_def new_breaker_def error_percent_def shouldStop_def

lemma breaker_record_settings [simp]:
  "policy (breaker_record b r) = policy b" "maxErrors (breaker_record b r) = maxErrors b"
  "maxErrorRate (breaker_record b r) = maxErrorRate b" "minSampleSize (breaker_record b r) = minSampleSize b"
  by (simp_all add: breaker_record_def Let_def)

lemma breaker_record_counts [simp]:
  "totalCount (breaker_record b r) = Suc (totalCount b)"
  "errorCount (breaker_record b r) = errorCount b + (if rr_passed r then 0 else 1)"
  by (simp_all add: breaker_record_def Let_def)

text \<open>The counters agree: no more errors than results.\<close>

definition breaker_ok :: "circuit_breaker \<Rightarrow> bool" where
  "breaker_ok b = (errorCount b \<le> totalCount b)"

lemma breaker_record_ok [inv_intros]: "breaker_ok b \<Longrightarrow> breaker_ok (breaker_record b r)"
  by (simp add: breaker_ok_def)

lemma breaker_record_latch: "shouldStop b \<Longrightarrow> shouldStop (breaker_record b r)"
  by (simp add: breaker_record_def shouldStop_def Let_def)

interpretation breaker: latched_machine breaker_record breaker_ok shouldStop
  by unfold_locales (auto intro: breaker_record_ok breaker_record_latch)

text \<open>When the counts after a result stop the run, by policy.\<close>

definition failures :: "request_result list \<Rightarrow> nat" where
  "failures rs = length (filter (\<lambda>r. \<not> rr_passed r) rs)"

definition stop_condition :: "circuit_breaker \<Rightarrow> request_result list \<Rightarrow> bool" where
  "stop_condition b rs = (case policy b of
     Continue \<Rightarrow> False
   | Stop_First \<Rightarrow> 0 < failures rs
   | Stop_Threshold \<Rightarrow> maxErrors b \<le> int (failures rs) \<or>
       minSampleSize b \<le> int (length rs) \<and>
       of_int (maxErrorRate b) \<le> error_percent (failures rs) (length rs))"

lemma run_breaker_counts:
  "totalCount (foldl breaker_record b rs) = totalCount b + length rs \<and>
   errorCount (foldl breaker_record b rs) = errorCount b + failures rs"
  by (induction rs arbitrary: b) (auto simp: failures_def)

lemma run_breaker_settings [simp]:
  "policy (foldl breaker_record b rs) = policy b" "maxErrors (foldl breaker_record b rs) = maxErrors b"
  "maxErrorRate (foldl breaker_record b rs) = maxErrorRate b"
  "minSampleSize (foldl breaker_record b rs) = minSampleSize b"
  by (induction rs arbitrary: b) auto

lemma breaker_record_trips:
  assumes "totalCount b = length rs" "errorCount b = failures rs"
  shows "tripped (breaker_record b r) \<longleftrightarrow> tripped b \<or> stop_condition b (rs @ [r]) \<and>
           (policy b = Stop_First \<longrightarrow> \<not> rr_passed r)"
  using assms by (cases "policy b"; cases "rr_passed r")
    (simp_all add: breaker_record_def stop_condition_def failures_def Let_def)

lemma ex_prefix_snoc:
  "(\<exists>n. 0 < n \<and> n \<le> length (xs @ [x]) \<and> P (take n (xs @ [x]))) \<longleftrightarrow>
   (\<exists>n. 0 < n \<and> n \<le> length xs \<and> P (take n xs)) \<or> P (xs @ [x])"
proof
  assume "\<exists>n. 0 < n \<and> n \<le> length (xs @ [x]) \<and> P (take n (xs @ [x]))"
  then obtain n where n: "0 < n" "n \<le> Suc (length xs)" "P (take n (xs @ [x]))" by auto
  show "(\<exists>n. 0 < n \<and> n \<le> length xs \<and> P (take n xs)) \<or> P (xs @ [x])"
    by (cases "n \<le> length xs") (use n in \<open>auto simp: not_le le_Suc_eq\<close>)
next
  assume "(\<exists>n. 0 < n \<and> n \<le> length xs \<and> P (take n xs)) \<or> P (xs @ [x])"
  then show "\<exists>n. 0 < n \<and> n \<le> length (xs @ [x]) \<and> P (take n (xs @ [x]))"
  proof
    assume "\<exists>n. 0 < n \<and> n \<le> length xs \<and> P (take n xs)"
    then show ?thesis by (metis append_eq_conv_conj append_take_drop_id diff_is_0_eq le_SucI length_append_singleton take0 take_append append_Nil2)
  next
    assume "P (xs @ [x])"
    then show ?thesis by (intro exI [of _ "Suc (length xs)"]) simp
  qed
qed

lemma breaker_trips_rev:
  assumes "totalCount b = 0" "errorCount b = 0" "\<not> tripped b"
  shows "tripped (foldl breaker_record b rs) \<longleftrightarrow> (\<exists>n. 0 < n \<and> n \<le> length rs \<and> stop_condition b (take n rs))"
proof (induction rs rule: rev_induct)
  case Nil
  with assms show ?case by simp
next
  case (snoc r rs)
  let ?B = "foldl breaker_record b rs"
  have counts: "totalCount ?B = length rs" "errorCount ?B = failures rs"
    using run_breaker_counts [of b rs] assms by simp_all
  have cond: "stop_condition ?B xs = stop_condition b xs" for xs
    by (simp add: stop_condition_def split: error_policy.split)
  have "tripped (foldl breaker_record b (rs @ [r])) \<longleftrightarrow>
      tripped ?B \<or> stop_condition b (rs @ [r]) \<and> (policy b = Stop_First \<longrightarrow> \<not> rr_passed r)"
    using breaker_record_trips [OF counts, of r] cond by simp
  also have "\<dots> \<longleftrightarrow> tripped ?B \<or> stop_condition b (rs @ [r])"
  proof -
    have "tripped ?B" if p: "policy b = Stop_First" "rr_passed r" "stop_condition b (rs @ [r])"
    proof -
      from p have f: "stop_condition b (take (length rs) rs)"
        by (simp add: stop_condition_def failures_def)
      have "0 < length rs" using p by (cases rs) (auto simp: stop_condition_def failures_def)
      with f snoc.IH show ?thesis by blast
    qed
    then show ?thesis by blast
  qed
  also have "\<dots> \<longleftrightarrow> (\<exists>n. 0 < n \<and> n \<le> length (rs @ [r]) \<and> stop_condition b (take n (rs @ [r])))"
    unfolding snoc.IH by (rule ex_prefix_snoc [symmetric])
  finally show ?case .
qed

text \<open>The circuit breaker stops a run exactly when its policy says so: after some recorded
result, an error was seen (stop-first), or the errors so far reached the maximum or, with the
minimum sample reached, the error rate so far reached the limit (stop-threshold); never under
continue. A later success does not take it back, so any tripping prefix is enough.\<close>

theorem breaker_trips_exactly:
  "shouldStop (foldl breaker_record (new_breaker p me mr ms) rs) \<longleftrightarrow>
     (\<exists>n. 0 < n \<and> n \<le> length rs \<and> stop_condition (new_breaker p me mr ms) (take n rs))"
  unfolding shouldStop_def by (rule breaker_trips_rev) (simp_all add: new_breaker_def)

section \<open>Semaphore\<close>

text \<open>A waiter is the identity of the suspended \<open>acquire\<close>; the constructor refuses a bound
below one.\<close>

record semaphore =
  permits :: int
  waiting :: "nat list"

definition new_semaphore :: "int \<Rightarrow> string + semaphore" where
  "new_semaphore n = (if n < 1 then Inl ''Semaphore maxConcurrent must be at least 1''
     else Inr \<lparr>permits = n, waiting = []\<rparr>)"

definition acquire :: "nat \<Rightarrow> semaphore \<Rightarrow> bool \<times> semaphore" where
  "acquire w s = (if 0 < permits s then (True, s\<lparr>permits := permits s - 1\<rparr>)
     else (False, s\<lparr>waiting := waiting s @ [w]\<rparr>))"

definition release :: "semaphore \<Rightarrow> nat option \<times> semaphore" where
  "release s = (case waiting s of
     w # ws \<Rightarrow> (Some w, s\<lparr>waiting := ws\<rparr>)
   | [] \<Rightarrow> (None, s\<lparr>permits := permits s + 1\<rparr>))"

definition sem_available :: "semaphore \<Rightarrow> int" where
  "sem_available s = permits s"

definition waitingCount :: "semaphore \<Rightarrow> nat" where
  "waitingCount s = length (waiting s)"

text \<open>Clients of one semaphore: each asks once, and releases once it holds a permit.\<close>

datatype sem_event = Acquire nat | Release nat

fun sem_step :: "semaphore \<times> nat list \<Rightarrow> sem_event \<Rightarrow> semaphore \<times> nat list" where
  "sem_step (s, hs) (Acquire w) =
     (case acquire w s of (True, s') \<Rightarrow> (s', hs @ [w]) | (False, s') \<Rightarrow> (s', hs))"
| "sem_step (s, hs) (Release w) =
     (if w \<in> set hs then
        (case release s of (None, s') \<Rightarrow> (s', remove1 w hs) | (Some v, s') \<Rightarrow> (s', remove1 w hs @ [v]))
      else (s, hs))"

definition sem_ok :: "int \<Rightarrow> semaphore \<times> nat list \<Rightarrow> bool" where
  "sem_ok n c = (0 \<le> permits (fst c) \<and> permits (fst c) + int (length (snd c)) = n \<and>
     (waiting (fst c) \<noteq> [] \<longrightarrow> permits (fst c) = 0))"

lemma length_remove1_int: "w \<in> set hs \<Longrightarrow> int (length (remove1 w hs)) = int (length hs) - 1"
  using length_pos_if_in_set [of w hs] by (simp add: length_remove1 of_nat_diff Suc_leI)

lemma sem_step_ok [inv_intros]: "sem_ok n c \<Longrightarrow> sem_ok n (sem_step c e)"
proof (cases c)
  case (Pair s hs)
  assume ok: "sem_ok n c"
  show ?thesis
  proof (cases e)
    case (Acquire w)
    with ok Pair show ?thesis by (auto simp: sem_ok_def acquire_def)
  next
    case (Release w)
    with ok Pair show ?thesis
      by (auto simp: sem_ok_def release_def length_remove1_int split: list.splits)
  qed
qed

interpretation sem: state_machine sem_step "sem_ok n"
  by unfold_locales (rule sem_step_ok)

text \<open>At most the given number of operations hold a permit, in every interleaving of
acquires and releases, and no permit lies unused while an operation waits.\<close>

theorem semaphore_bounds:
  assumes "new_semaphore n = Inr s" and "foldl sem_step (s, []) es = (s', holders)"
  shows "int (length holders) \<le> n \<and> (waitingCount s' \<noteq> 0 \<longrightarrow> int (length holders) = n)"
proof -
  have "sem_ok n (s, [])"
    using assms(1) by (auto simp: new_semaphore_def sem_ok_def split: if_splits)
  then have "sem_ok n (s', holders)" using sem.run_ok [of n "(s, [])" es] assms(2) by simp
  then show ?thesis by (auto simp: sem_ok_def waitingCount_def)
qed

theorem semaphore_bounds_witness:
  "let (s', holders) = foldl sem_step (\<lparr>permits = 1, waiting = []\<rparr>, []) [Acquire 1, Acquire 2, Release 1]
   in holders = [2] \<and> int (length holders) \<le> 1"
  using semaphore_bounds [of 1 "\<lparr>permits = 1, waiting = []\<rparr>" "[Acquire 1, Acquire 2, Release 1]"]
  by (simp add: new_semaphore_def acquire_def release_def)

text \<open>The order in which permits are handed out, the order in which they were asked for, and the
number of releases by a holder, in a run.\<close>

fun sem_granted :: "semaphore \<times> nat list \<Rightarrow> sem_event \<Rightarrow> nat list" where
  "sem_granted (s, hs) (Acquire w) = (if fst (acquire w s) then [w] else [])"
| "sem_granted (s, hs) (Release w) =
     (if w \<in> set hs then (case fst (release s) of None \<Rightarrow> [] | Some v \<Rightarrow> [v]) else [])"

fun sem_grants :: "semaphore \<times> nat list \<Rightarrow> sem_event list \<Rightarrow> nat list" where
  "sem_grants c [] = []"
| "sem_grants c (e # es) = sem_granted c e @ sem_grants (sem_step c e) es"

fun sem_requests :: "sem_event list \<Rightarrow> nat list" where
  "sem_requests [] = []"
| "sem_requests (Acquire w # es) = w # sem_requests es"
| "sem_requests (Release w # es) = sem_requests es"

fun sem_releases :: "semaphore \<times> nat list \<Rightarrow> sem_event list \<Rightarrow> nat" where
  "sem_releases c [] = 0"
| "sem_releases c (e # es) =
     (case e of Release w \<Rightarrow> (if w \<in> set (snd c) then 1 else 0) | Acquire w \<Rightarrow> 0) + sem_releases (sem_step c e) es"

lemma sem_grants_fifo:
  "sem_ok n c \<Longrightarrow> sem_grants c es =
     take (nat (permits (fst c)) + sem_releases c es) (waiting (fst c) @ sem_requests es)"
proof (induction es arbitrary: c)
  case Nil
  then show ?case by (auto simp: sem_ok_def)
next
  case (Cons e es)
  obtain s hs where c: "c = (s, hs)" by (cases c)
  have IH: "sem_grants (sem_step c e) es = take (nat (permits (fst (sem_step c e))) + sem_releases (sem_step c e) es)
      (waiting (fst (sem_step c e)) @ sem_requests es)"
    by (rule Cons.IH [OF sem_step_ok [OF Cons.prems]])
  show ?case
  proof (cases e)
    case (Acquire w)
    show ?thesis
    proof (cases "0 < permits s")
      case True
      then have "nat (permits s) = Suc (nat (permits s - 1))" by simp
      with True Cons.prems IH c Acquire show ?thesis by (auto simp: sem_ok_def acquire_def)
    next
      case False
      with Cons.prems IH c Acquire show ?thesis by (auto simp: sem_ok_def acquire_def)
    qed
  next
    case (Release w)
    with Cons.prems IH c show ?thesis
      by (auto simp: sem_ok_def release_def nat_add_distrib split: list.splits)
  qed
qed

text \<open>C32. Permits are handed out in the order they were asked for, and none is withheld: after
any run, exactly the first (bound + releases) requests have been granted. So an operation that
waits behind k others is served once enough holders have released.\<close>

theorem semaphore_serves_in_order:
  assumes "new_semaphore n = Inr s"
  shows "sem_grants (s, []) es = take (nat n + sem_releases (s, []) es) (sem_requests es)"
  using sem_grants_fifo [of n "(s, [])" es] assms
  by (auto simp: new_semaphore_def sem_ok_def split: if_splits)

theorem semaphore_serves_in_order_witness:
  "sem_grants (\<lparr>permits = 1, waiting = []\<rparr>, []) [Acquire 1, Acquire 2, Acquire 3, Release 1] = [1, 2]"
  using semaphore_serves_in_order [of 1 "\<lparr>permits = 1, waiting = []\<rparr>" "[Acquire 1, Acquire 2, Acquire 3, Release 1]"]
  by (simp add: new_semaphore_def acquire_def release_def)

section \<open>Allocation\<close>

datatype scenario_kind = Standard | Parameterized

text \<open>A test as the allocation sees it: its data source, if any, is the list of its rows'
\<open>enabled\<close> flags (an absent flag counts as enabled).\<close>

record load_test =
  lt_id :: string
  lt_name :: string
  lt_rows :: "bool option list option"

record allocation_result =
  ar_testId :: string
  ar_testName :: string
  ar_iterations :: int
  ar_rowCount :: int
  ar_totalRequests :: int

record allocation_summary =
  as_items :: "allocation_result list"
  as_totalRequests :: int
  as_kind :: scenario_kind

definition countEnabledRows :: "load_test \<Rightarrow> int" where
  "countEnabledRows t = (case lt_rows t of
     None \<Rightarrow> 0
   | Some rows \<Rightarrow> if rows = [] then 0 else int (length (filter (\<lambda>e. e \<noteq> Some False) rows)))"

definition computeAllocation :: "load_test list \<Rightarrow> int \<Rightarrow> scenario_kind \<Rightarrow> allocation_summary" where
  "computeAllocation tests n kind =
     (if n \<le> 0 \<or> tests = [] then \<lparr>as_items = [], as_totalRequests = 0, as_kind = kind\<rparr>
      else let items = map (\<lambda>t. let rowCount = (if kind = Parameterized then countEnabledRows t else 0) in
               \<lparr>ar_testId = lt_id t, ar_testName = lt_name t, ar_iterations = n, ar_rowCount = rowCount,
                ar_totalRequests = n * max rowCount 1\<rparr>) tests
           in \<lparr>as_items = items, as_totalRequests = fold (\<lambda>i s. s + ar_totalRequests i) items 0, as_kind = kind\<rparr>)"

section \<open>Think time\<close>

datatype think_time_mode = Think_None | Think_Constant | Think_Uniform | Think_Gaussian

record think_time_config =
  tt_mode :: think_time_mode
  constantMs :: "int option"
  minMs :: "int option"
  maxMs :: "int option"
  meanMs :: "int option"
  stdDevMs :: "int option"

definition or_default :: "int option \<Rightarrow> int \<Rightarrow> int" where
  "or_default v d = (case v of None \<Rightarrow> d | Some x \<Rightarrow> x)"

text \<open>\<open>u\<close> is the value of \<open>Math.random()\<close>, \<open>z\<close> the Box-Muller deviate.\<close>

definition createThinkTimeDelay :: "think_time_config option \<Rightarrow> rat \<Rightarrow> rat \<Rightarrow> rat" where
  "createThinkTimeDelay config u z = (case config of
     None \<Rightarrow> 0
   | Some c \<Rightarrow> (case tt_mode c of
       Think_None \<Rightarrow> 0
     | Think_Constant \<Rightarrow> of_int (max 0 (or_default (constantMs c) 1000))
     | Think_Uniform \<Rightarrow>
         (let mn = max 0 (or_default (minMs c) 500); mx = max mn (or_default (maxMs c) 2000)
          in of_int mn + u * (of_int mx - of_int mn))
     | Think_Gaussian \<Rightarrow>
         (let mean = max 0 (or_default (meanMs c) 1000); sd = max 0 (or_default (stdDevMs c) 300)
          in max 0 (of_int mean + z * of_int sd))))"

text \<open>\<open>applyThinkTime\<close> waits only for a positive rounded delay and a run not yet aborted;
\<open>None\<close> is the immediate continuation.\<close>

definition applyThinkTime :: "rat \<Rightarrow> bool \<Rightarrow> int option" where
  "applyThinkTime d aborted = (let delay = \<lfloor>d + 1 / 2\<rfloor> in if delay \<le> 0 \<or> aborted then None else Some delay)"

section \<open>Load profiles\<close>

datatype load_profile_type = Ramp_Up | Sustained | Spike

record load_profile =
  lp_type :: load_profile_type
  durationSec :: int
  maxConcurrency :: int
  rampUpSec :: "int option"
  spikeConcurrency :: "int option"
  spikeStartSec :: "int option"
  spikeDurationSec :: "int option"

text \<open>\<open>elapsedMs\<close> is the time since the start. \<open>profile.rampUpSec || durationSec\<close> also
replaces a zero.\<close>

definition getTargetConcurrency :: "load_profile \<Rightarrow> rat \<Rightarrow> int" where
  "getTargetConcurrency p elapsedMs =
     (let elapsed = elapsedMs / 1000; dur = durationSec p; mc = maxConcurrency p in
      if of_int dur \<le> elapsed then 0
      else (case lp_type p of
        Sustained \<Rightarrow> mc
      | Ramp_Up \<Rightarrow>
          (let rampSec = (case rampUpSec p of Some r \<Rightarrow> if r = 0 then dur else r | None \<Rightarrow> dur)
           in if rampSec \<le> 0 \<or> of_int rampSec \<le> elapsed then mc
              else max 1 \<lceil>1 + (of_int mc - 1) * (elapsed / of_int rampSec)\<rceil>)
      | Spike \<Rightarrow>
          (let spikeStart = or_default (spikeStartSec p) \<lfloor>of_int dur * (3 / 10 :: rat)\<rfloor>;
               spikeDur = or_default (spikeDurationSec p) \<lceil>of_int dur * (2 / 10 :: rat)\<rceil>;
               spikePeak = or_default (spikeConcurrency p) (mc * 3)
           in if of_int spikeStart \<le> elapsed \<and> elapsed < of_int (spikeStart + spikeDur)
              then max 1 spikePeak else max 1 mc)))"

text \<open>The most a profile may ask for.\<close>

definition peak_concurrency :: "load_profile \<Rightarrow> int" where
  "peak_concurrency p = max 1 (max (maxConcurrency p)
     (if lp_type p = Spike then or_default (spikeConcurrency p) (maxConcurrency p * 3) else 0))"

lemma ceiling_ramp_bounds:
  fixes t :: rat
  assumes "0 \<le> t" "t < 1" "1 \<le> mc"
  shows "1 \<le> \<lceil>1 + (of_int mc - 1) * t\<rceil>" "\<lceil>1 + (of_int mc - 1) * t\<rceil> \<le> mc"
proof -
  have "(1 :: rat) \<le> of_int mc" using assms(3) by simp
  then have m: "(0 :: rat) \<le> of_int mc - 1" by linarith
  have "0 \<le> (of_int mc - 1) * t" using m assms(1) by (rule mult_nonneg_nonneg)
  then show "1 \<le> \<lceil>1 + (of_int mc - 1) * t\<rceil>" by (simp add: le_ceiling_iff)
  have "(of_int mc - 1) * t \<le> (of_int mc - 1) * 1" using m assms(2) by (intro mult_left_mono) simp_all
  then show "\<lceil>1 + (of_int mc - 1) * t\<rceil> \<le> mc" by (simp add: ceiling_le_iff)
qed

definition ramp_seconds :: "load_profile \<Rightarrow> int" where
  "ramp_seconds p = (case rampUpSec p of Some r \<Rightarrow> if r = 0 then durationSec p else r | None \<Rightarrow> durationSec p)"

lemma target_ramp:
  "lp_type p = Ramp_Up \<Longrightarrow> t < of_int (durationSec p) * 1000 \<Longrightarrow> getTargetConcurrency p t =
     (if ramp_seconds p \<le> 0 \<or> of_int (ramp_seconds p) \<le> t / 1000 then maxConcurrency p
      else max 1 \<lceil>1 + (of_int (maxConcurrency p) - 1) * (t / 1000 / of_int (ramp_seconds p))\<rceil>)"
  by (simp add: getTargetConcurrency_def ramp_seconds_def Let_def)

lemma target_after: "of_int (durationSec p) * 1000 \<le> t \<Longrightarrow> getTargetConcurrency p t = 0"
  by (simp add: getTargetConcurrency_def Let_def)

lemma ramp_fraction:
  "0 \<le> t \<Longrightarrow> 0 < r \<Longrightarrow> \<not> of_int r \<le> t / 1000 \<Longrightarrow> 0 \<le> t / 1000 / of_int r \<and> t / 1000 / of_int r < (1 :: rat)"
  by (simp add: divide_less_eq)

lemma ramp_target_bounds:
  assumes "0 \<le> t" "1 \<le> maxConcurrency p" "lp_type p = Ramp_Up" "t < of_int (durationSec p) * 1000"
  shows "1 \<le> getTargetConcurrency p t" "getTargetConcurrency p t \<le> maxConcurrency p"
proof -
  let ?q = "t / 1000 / of_int (ramp_seconds p)"
  show "1 \<le> getTargetConcurrency p t" using assms by (simp add: target_ramp)
  show "getTargetConcurrency p t \<le> maxConcurrency p"
  proof (cases "ramp_seconds p \<le> 0 \<or> of_int (ramp_seconds p) \<le> t / 1000")
    case False
    then have q: "0 \<le> ?q" "?q < 1" using ramp_fraction [OF assms(1)] by auto
    from ceiling_ramp_bounds(2) [OF q assms(2)] False assms show ?thesis by (simp add: target_ramp)
  qed (use assms in \<open>simp add: target_ramp\<close>)
qed

lemma ramp_target_mono:
  assumes "0 \<le> t" "t \<le> t'" "1 \<le> maxConcurrency p" "lp_type p = Ramp_Up" "t' < of_int (durationSec p) * 1000"
  shows "getTargetConcurrency p t \<le> getTargetConcurrency p t'"
proof (cases "ramp_seconds p \<le> 0 \<or> of_int (ramp_seconds p) \<le> t' / 1000")
  case True
  then have "getTargetConcurrency p t' = maxConcurrency p" using assms by (simp add: target_ramp)
  then show ?thesis using ramp_target_bounds(2) [of t p] assms by simp
next
  case False
  let ?r = "of_int (ramp_seconds p) :: rat"
  have r: "0 < ?r" "t' / 1000 < ?r" "t / 1000 < ?r" using False assms(2) by auto
  have "(1 :: rat) \<le> of_int (maxConcurrency p)" using assms(3) by simp
  then have m: "(0 :: rat) \<le> of_int (maxConcurrency p) - 1" by linarith
  have "t / 1000 / ?r \<le> t' / 1000 / ?r" using r assms(2) by (simp add: divide_right_mono)
  then have "(of_int (maxConcurrency p) - 1) * (t / 1000 / ?r) \<le> (of_int (maxConcurrency p) - 1) * (t' / 1000 / ?r)"
    using m by (rule mult_left_mono)
  then have "\<lceil>1 + (of_int (maxConcurrency p) - 1) * (t / 1000 / ?r)\<rceil> \<le> \<lceil>1 + (of_int (maxConcurrency p) - 1) * (t' / 1000 / ?r)\<rceil>"
    by (intro ceiling_mono add_left_mono)
  with False r assms show ?thesis by (simp add: target_ramp not_le)
qed

lemma target_running:
  assumes "1 \<le> maxConcurrency p" "0 \<le> t" "t < of_int (durationSec p) * 1000"
  shows "1 \<le> getTargetConcurrency p t \<and> getTargetConcurrency p t \<le> peak_concurrency p"
proof (cases "lp_type p")
  case Ramp_Up
  with ramp_target_bounds [of t p] assms show ?thesis by (simp add: peak_concurrency_def)
next
  case Sustained
  with assms show ?thesis by (simp add: getTargetConcurrency_def peak_concurrency_def Let_def)
next
  case Spike
  with assms show ?thesis
    by (simp add: getTargetConcurrency_def peak_concurrency_def Let_def le_max_iff_disj) linarith
qed

text \<open>The number of requests a load profile keeps in flight: none from the end of the
duration on; before it at least one and at most the peak; and on a ramp it never falls.\<close>

theorem target_concurrency_bounds:
  assumes "0 \<le> t" and "1 \<le> maxConcurrency p"
  shows "0 \<le> getTargetConcurrency p t \<and> getTargetConcurrency p t \<le> peak_concurrency p \<and>
     (getTargetConcurrency p t = 0 \<longleftrightarrow> of_int (durationSec p) * 1000 \<le> t) \<and>
     (lp_type p = Ramp_Up \<and> t \<le> t' \<and> t' < of_int (durationSec p) * 1000 \<longrightarrow>
        getTargetConcurrency p t \<le> getTargetConcurrency p t')"
proof (cases "t < of_int (durationSec p) * 1000")
  case True
  with target_running [OF assms(2,1)] ramp_target_mono [OF assms(1) _ assms(2)] show ?thesis by auto
next
  case False
  then have "getTargetConcurrency p t = 0" by (simp add: target_after)
  with False show ?thesis by (auto simp: peak_concurrency_def)
qed

theorem target_concurrency_bounds_witness:
  "getTargetConcurrency \<lparr>lp_type = Ramp_Up, durationSec = 10, maxConcurrency = 5, rampUpSec = Some 4,
     spikeConcurrency = None, spikeStartSec = None, spikeDurationSec = None\<rparr> 2000 = 3 \<and>
   getTargetConcurrency \<lparr>lp_type = Ramp_Up, durationSec = 10, maxConcurrency = 5, rampUpSec = Some 4,
     spikeConcurrency = None, spikeStartSec = None, spikeDurationSec = None\<rparr> 2000 \<le> 5"
  using target_concurrency_bounds [of 2000 "\<lparr>lp_type = Ramp_Up, durationSec = 10, maxConcurrency = 5,
     rampUpSec = Some 4, spikeConcurrency = None, spikeStartSec = None, spikeDurationSec = None\<rparr>" 3000]
  by (simp add: getTargetConcurrency_def peak_concurrency_def)

section \<open>Weighted scenario pool\<close>

record load_scenario =
  ls_id :: string
  ls_name :: string
  ls_url :: string
  ls_method :: string
  ls_actionType :: "string option"
  ls_validationMode :: string
  ls_dataRowId :: "string option"
  ls_dataRowLabel :: "string option"

text \<open>The shuffle from the last index down to 1; \<open>draw i\<close> is the index drawn at \<open>i\<close>.\<close>

definition swap_at :: "nat \<Rightarrow> nat \<Rightarrow> 'a list \<Rightarrow> 'a list" where
  "swap_at i j xs = xs[j := xs ! i, i := xs ! j]"

fun shuffle_from :: "(nat \<Rightarrow> nat) \<Rightarrow> nat \<Rightarrow> 'a list \<Rightarrow> 'a list" where
  "shuffle_from draw 0 xs = xs"
| "shuffle_from draw (Suc i) xs = shuffle_from draw i (swap_at (Suc i) (draw (Suc i)) xs)"

definition fisher_yates :: "(nat \<Rightarrow> nat) \<Rightarrow> 'a list \<Rightarrow> 'a list" where
  "fisher_yates draw xs = shuffle_from draw (length xs - 1) xs"

definition weighted_entries :: "load_scenario list \<Rightarrow> (string \<times> int) list \<Rightarrow> load_scenario list" where
  "weighted_entries scenarios weights = concat (map (\<lambda>(i, w).
     case find (\<lambda>s. ls_id s = i) scenarios of Some sc \<Rightarrow> replicate (nat w) sc | None \<Rightarrow> [])
     (filter (\<lambda>(i, w). 0 < w) weights))"

definition weighted_pool :: "load_scenario list \<Rightarrow> (string \<times> int) list \<Rightarrow> load_scenario list" where
  "weighted_pool scenarios weights = (let pool = weighted_entries scenarios weights
     in if pool = [] \<and> scenarios \<noteq> [] then [hd scenarios] else pool)"

definition buildWeightedIterator ::
  "(nat \<Rightarrow> nat) \<Rightarrow> load_scenario list \<Rightarrow> (string \<times> int) list \<Rightarrow> load_scenario list" where
  "buildWeightedIterator draw scenarios weights = fisher_yates draw (weighted_pool scenarios weights)"

text \<open>The closure the iterator returns: the \<open>idx\<close>-th call. An empty pool yields
\<open>undefined\<close>.\<close>

definition nextScenario :: "load_scenario list \<Rightarrow> nat \<Rightarrow> load_scenario option" where
  "nextScenario pool idx = (if pool = [] then None else Some (pool ! (idx mod length pool)))"

lemma mset_shuffle_from:
  "\<forall>i. draw i \<le> i \<Longrightarrow> n < length xs \<Longrightarrow> mset (shuffle_from draw n xs) = mset xs"
proof (induction n arbitrary: xs)
  case (Suc n)
  have "mset (swap_at (Suc n) (draw (Suc n)) xs) = mset xs"
    unfolding swap_at_def using Suc.prems by (intro mset_swap) (auto intro: le_less_trans)
  with Suc show ?case by (simp add: swap_at_def)
qed simp

lemma mset_fisher_yates: "\<forall>i. draw i \<le> i \<Longrightarrow> mset (fisher_yates draw xs) = mset xs"
  by (cases xs) (simp_all add: fisher_yates_def mset_shuffle_from)

lemma count_map_filter: "count (mset (map f xs)) c = length (filter (\<lambda>x. f x = c) xs)"
  by (induction xs) auto

text \<open>Any cycle of calls yields each entry of the pool once.\<close>

lemma mset_cycle:
  "xs \<noteq> [] \<Longrightarrow> mset (map (\<lambda>i. xs ! (i mod length xs)) [k..<k + length xs]) = mset xs"
proof -
  assume "xs \<noteq> []"
  have "map (\<lambda>i. xs ! (i mod length xs)) [k..<k + length xs] = rotate k xs"
    by (rule nth_equalityI) (simp_all add: nth_rotate)
  moreover have "mset (rotate k xs) = mset xs"
    unfolding rotate_drop_take by (metis append_take_drop_id mset_append union_commute)
  ultimately show ?thesis by simp
qed

lemma count_weighted_entries:
  assumes "distinct (map ls_id scenarios)" "sc \<in> set scenarios" "distinct (map fst weights)"
  shows "count (mset (weighted_entries scenarios weights)) sc =
         (case map_of weights (ls_id sc) of Some w \<Rightarrow> nat w | None \<Rightarrow> 0)"
  using assms(3) unfolding weighted_entries_def
proof (induction weights)
  case Nil
  then show ?case by simp
next
  case (Cons iw ws)
  obtain i w where iw: "iw = (i, w)" by (cases iw)
  have found: "find (\<lambda>s. ls_id s = i) scenarios = Some sc'" if "sc' \<in> set scenarios" "ls_id sc' = i" for sc'
    using assms(1) that by (induction scenarios) auto
  show ?case
  proof (cases "i = ls_id sc")
    case True
    then have none: "map_of ws (ls_id sc) = None" using Cons.prems iw by (auto simp: map_of_eq_None_iff)
    show ?thesis using Cons found [OF assms(2)] True iw none by simp
  next
    case False
    have "find (\<lambda>s. ls_id s = i) scenarios \<noteq> Some sc" using False by (auto dest: find_SomeD)
    then have "count (mset (case find (\<lambda>s. ls_id s = i) scenarios of Some sc \<Rightarrow> replicate (nat w) sc | None \<Rightarrow> [])) sc = 0"
      by (cases "find (\<lambda>s. ls_id s = i) scenarios") (auto split: if_splits)
    moreover have "0 < w \<longrightarrow> find (\<lambda>s. ls_id s = i) scenarios \<noteq> Some sc" using False by (auto dest: find_SomeD)
    moreover have "0 < w \<longrightarrow> Some sc \<noteq> find (\<lambda>s. ls_id s = i) scenarios" using False by (auto dest: find_SomeD [OF sym])
    ultimately show ?thesis using False Cons iw by (auto split: option.splits)
  qed
qed

text \<open>The weighted scenario pool is exact: whatever the shuffle draws, any window of calls as
long as the pool launches each scenario exactly as often as its weight says.\<close>

theorem weighted_pool_exact:
  assumes "distinct (map ls_id scenarios)" and "distinct (map fst weights)"
    and "sc \<in> set scenarios" and "map_of weights (ls_id sc) = Some w" and "0 < w"
    and "\<forall>i. draw i \<le> i" and "pool = buildWeightedIterator draw scenarios weights"
  shows "length (filter (\<lambda>i. nextScenario pool i = Some sc) [k..<k + length pool]) = nat w"
proof -
  let ?raw = "weighted_pool scenarios weights"
  have cnt: "count (mset ?raw) sc = nat w"
  proof -
    have c: "count (mset (weighted_entries scenarios weights)) sc = nat w"
      using count_weighted_entries [OF assms(1,3,2)] assms(4) by simp
    then have "weighted_entries scenarios weights \<noteq> []" using assms(5) by auto
    with c show ?thesis by (simp add: weighted_pool_def)
  qed
  have mp: "mset pool = mset ?raw"
    unfolding assms(7) buildWeightedIterator_def by (rule mset_fisher_yates [OF assms(6)])
  have ne: "pool \<noteq> []" using cnt mp assms(5) by auto
  have "length (filter (\<lambda>i. nextScenario pool i = Some sc) [k..<k + length pool]) =
      count (mset (map (\<lambda>i. pool ! (i mod length pool)) [k..<k + length pool])) sc"
    using ne by (simp add: nextScenario_def count_map_filter del: mset_map)
  also have "\<dots> = nat w" using cnt mp mset_cycle [OF ne, of k] by simp
  finally show ?thesis .
qed

definition sample_scenario :: "string \<Rightarrow> load_scenario" where
  "sample_scenario i = \<lparr>ls_id = i, ls_name = i, ls_url = ''http://h/a'', ls_method = ''GET'', ls_actionType = None,
     ls_validationMode = ''none'', ls_dataRowId = None, ls_dataRowLabel = None\<rparr>"

lemma sample_scenario_id [simp]: "ls_id (sample_scenario i) = i"
  by (simp add: sample_scenario_def)

lemma sample_scenario_eq [simp]: "sample_scenario i = sample_scenario j \<longleftrightarrow> i = j"
  by (simp add: sample_scenario_def)

theorem weighted_pool_exact_witness:
  "length (filter (\<lambda>i. nextScenario (buildWeightedIterator (\<lambda>i. 0)
     [sample_scenario ''a'', sample_scenario ''b''] [(''a'', 2), (''b'', 1)]) i = Some (sample_scenario ''a'')) [5..<8]) = 2"
proof -
  have "length (buildWeightedIterator (\<lambda>i. 0) [sample_scenario ''a'', sample_scenario ''b''] [(''a'', 2), (''b'', 1)]) = 3"
    by (simp add: buildWeightedIterator_def fisher_yates_def swap_at_def weighted_pool_def weighted_entries_def
        eval_nat_numeral)
  then show ?thesis
    using weighted_pool_exact [of "[sample_scenario ''a'', sample_scenario ''b'']" "[(''a'', 2), (''b'', 1)]"
      "sample_scenario ''a''" 2 "\<lambda>i. 0" _ 5, OF _ _ _ _ _ _ refl] by simp
qed

end
