(* ===== verification/Load_Results.thy ===== *)
theory Load_Results
  imports Load_Control
begin

text \<open>
  The evaluation of a test run: percentiles (\<open>shared/utils/percentiles.ts\<close>), the run summary
  (\<open>engine/core/metrics.ts\<close>), row trace keys (\<open>shared/grpc/grpcHarnessRowIdentity.ts\<close>) and the
  merge of re-run rows into a run (\<open>engine/core/rerunMerge.ts\<close>).

  Times and rates are exact rationals where the source has floating-point numbers.
\<close>

section \<open>Percentiles\<close>

definition percentile :: "rat list \<Rightarrow> rat \<Rightarrow> rat" where
  "percentile xs p = (if xs = [] then 0 else
     let n = int (length xs);
         idx = min (n - 1) (max 0 (if 999 / 1000 \<le> p then \<lceil>of_int n * p\<rceil> - 1 else \<lfloor>of_int n * p\<rfloor>))
     in xs ! nat idx)"

record percentile_summary =
  ps_min :: rat
  ps_max :: rat
  ps_mean :: rat
  ps_p50 :: rat
  ps_p90 :: rat
  ps_p95 :: rat
  ps_p99 :: rat
  ps_p999 :: rat

definition computePercentiles :: "rat list \<Rightarrow> percentile_summary" where
  "computePercentiles xs =
     (if xs = [] then \<lparr>ps_min = 0, ps_max = 0, ps_mean = 0, ps_p50 = 0, ps_p90 = 0, ps_p95 = 0, ps_p99 = 0, ps_p999 = 0\<rparr>
      else let n = length xs; total = sum_list xs in
        \<lparr>ps_min = xs ! 0, ps_max = xs ! (n - 1), ps_mean = total / of_nat n,
         ps_p50 = percentile xs (50 / 100), ps_p90 = percentile xs (90 / 100), ps_p95 = percentile xs (95 / 100),
         ps_p99 = percentile xs (99 / 100), ps_p999 = percentile xs (999 / 1000)\<rparr>)"

text \<open>\<open>Math.round\<close> rounds halves up.\<close>

definition js_round :: "rat \<Rightarrow> int" where
  "js_round x = \<lfloor>x + 1 / 2\<rfloor>"

definition round2 :: "rat \<Rightarrow> rat" where
  "round2 v = of_int (js_round (v * 100)) / 100"

text \<open>The index a percentile reads.\<close>

definition percentile_index :: "nat \<Rightarrow> rat \<Rightarrow> nat" where
  "percentile_index n p =
     nat (min (int n - 1) (max 0 (if 999 / 1000 \<le> p then \<lceil>of_nat n * p\<rceil> - 1 else \<lfloor>of_nat n * p\<rfloor>)))"

lemma percentile_nth: "xs \<noteq> [] \<Longrightarrow> percentile xs p = xs ! percentile_index (length xs) p"
  by (simp add: percentile_def percentile_index_def)

lemma percentile_index_less: "0 < n \<Longrightarrow> percentile_index n p < n"
  unfolding percentile_index_def by (subst nat_less_iff) (simp_all add: min_less_iff_disj)

lemma percentile_index_mono:
  assumes "p \<le> q"
  shows "percentile_index n p \<le> percentile_index n q"
proof (cases "n = 0")
  case False
  have le: "of_nat n * p \<le> of_nat n * q" using assms by (simp add: mult_left_mono)
  have "(if 999 / 1000 \<le> p then \<lceil>of_nat n * p\<rceil> - 1 else \<lfloor>of_nat n * p\<rfloor>) \<le>
        (if 999 / 1000 \<le> q then \<lceil>of_nat n * q\<rceil> - 1 else \<lfloor>of_nat n * q\<rfloor>)"
  proof (cases "999 / 1000 \<le> p")
    case True
    with assms ceiling_mono [OF le] show ?thesis by simp
  next
    case p: False
    show ?thesis
    proof (cases "999 / 1000 \<le> q")
      case True
      with p have "p < q" by simp
      with False have "of_nat n * p < of_nat n * q" by simp
      moreover have "of_int \<lfloor>of_nat n * p\<rfloor> \<le> of_nat n * p" by (rule of_int_floor_le)
      moreover have "of_nat n * q \<le> of_int \<lceil>of_nat n * q\<rceil>" by (rule le_of_int_ceiling)
      ultimately have "(of_int \<lfloor>of_nat n * p\<rfloor> :: rat) < of_int \<lceil>of_nat n * q\<rceil>" by linarith
      then have "\<lfloor>of_nat n * p\<rfloor> < \<lceil>of_nat n * q\<rceil>" by (simp only: of_int_less_iff)
      with p True show ?thesis by simp
    next
      case False
      with p floor_mono [OF le] show ?thesis by simp
    qed
  qed
  then show ?thesis unfolding percentile_index_def by (intro nat_mono min.mono max.mono order_refl)
qed (simp add: percentile_index_def)

lemma percentile_mono:
  "sorted xs \<Longrightarrow> p \<le> q \<Longrightarrow> percentile xs p \<le> percentile xs q"
proof (cases "xs = []")
  case False
  assume "sorted xs" "p \<le> q"
  with False percentile_index_mono [of p q "length xs"] percentile_index_less [of "length xs" q]
  show ?thesis by (simp add: percentile_nth sorted_nth_mono)
qed (simp add: percentile_def)

lemma percentile_in_range:
  "sorted xs \<Longrightarrow> xs \<noteq> [] \<Longrightarrow> percentile xs p \<in> set xs \<and> xs ! 0 \<le> percentile xs p \<and> percentile xs p \<le> xs ! (length xs - 1)"
  using percentile_index_less [of "length xs" p]
  by (auto simp: percentile_nth intro!: sorted_nth_mono)

text \<open>The percentiles of a sorted sample are values of the sample and come in order: minimum,
50th, 90th, 95th, 99th, 99.9th, maximum, although the 99.9th uses another index rule than the
others.\<close>

theorem percentiles_ordered:
  assumes "sorted xs" and "xs \<noteq> []" and "s = computePercentiles xs"
  shows "{ps_p50 s, ps_p90 s, ps_p95 s, ps_p99 s, ps_p999 s} \<subseteq> set xs \<and>
    sorted [ps_min s, ps_p50 s, ps_p90 s, ps_p95 s, ps_p99 s, ps_p999 s, ps_max s] \<and>
    ps_min s = Min (set xs) \<and> ps_max s = Max (set xs)"
proof -
  have ends: "xs ! 0 \<le> y" "y \<le> xs ! (length xs - 1)" if "y \<in> set xs" for y
    using that assms(1,2) by (auto simp: in_set_conv_nth intro!: sorted_nth_mono)
  have "Min (set xs) = xs ! 0" by (rule Min_eqI) (use assms(2) ends in auto)
  moreover have "Max (set xs) = xs ! (length xs - 1)" by (rule Max_eqI) (use assms(2) ends in auto)
  ultimately show ?thesis
    using assms percentile_in_range [OF assms(1,2)] ends(1) [OF last_in_set [OF assms(2)]]
    by (simp add: computePercentiles_def Let_def percentile_mono last_conv_nth)
qed

theorem percentiles_ordered_witness:
  "sorted [1, 2 :: rat] \<and> ps_p50 (computePercentiles [1, 2]) = 2 \<and>
   ps_max (computePercentiles [1, 2]) = Max (set [1, 2])"
  using percentiles_ordered [of "[1, 2]" "computePercentiles [1, 2]", OF _ _ refl]
  by (simp add: computePercentiles_def percentile_def)

section \<open>Run summary\<close>

record test_summary =
  ts_tps :: rat
  ts_avgResponseTime :: rat
  ts_minResponseTime :: rat
  ts_maxResponseTime :: rat
  ts_p50ResponseTime :: rat
  ts_p95ResponseTime :: rat
  ts_p99ResponseTime :: rat
  ts_p999ResponseTime :: rat
  ts_errorRate :: rat
  ts_errorsByStatus :: "(int \<times> nat) list"
  ts_totalRequests :: nat
  ts_successfulRequests :: nat
  ts_failedRequests :: nat
  ts_failedValidations :: nat
  ts_totalDurationMs :: rat
  ts_cancelledRequests :: nat

text \<open>The counters of the loop over the results that were not cancelled.\<close>

record metric_counts =
  mc_byStatus :: "(int \<times> nat) list"
  mc_failed :: nat
  mc_invalid :: nat

definition is_http :: "request_result \<Rightarrow> bool" where
  "is_http r = (rr_transportType r = None \<or> rr_transportType r = Some ''http'')"

definition http_failed :: "request_result \<Rightarrow> bool" where
  "http_failed r = (is_http r \<and> (400 \<le> rr_httpStatus r \<or> rr_httpStatus r = 0))"

definition count_result :: "metric_counts \<Rightarrow> request_result \<Rightarrow> metric_counts" where
  "count_result c r =
     (let c1 = (if http_failed r then
                  c\<lparr>mc_failed := mc_failed c + 1,
                    mc_byStatus := rec_set (mc_byStatus c) (rr_httpStatus r) (rec_get_or 0 (mc_byStatus c) (rr_httpStatus r) + 1)\<rparr>
                else if \<not> is_http r \<and> \<not> rr_passed r then c\<lparr>mc_failed := mc_failed c + 1\<rparr>
                else c)
      in if \<not> rr_passed r \<and> rr_failureDetails r \<noteq> [] then c1\<lparr>mc_invalid := mc_invalid c1 + 1\<rparr> else c1)"

definition computeMetrics :: "request_result list \<Rightarrow> rat \<Rightarrow> test_summary" where
  "computeMetrics results duration =
     (let active = filter (\<lambda>r. \<not> rr_cancelled r) results;
          times = sort (map rr_responseTimeMs active);
          total = length active
      in if total = 0 then
           \<lparr>ts_tps = 0, ts_avgResponseTime = 0, ts_minResponseTime = 0, ts_maxResponseTime = 0,
            ts_p50ResponseTime = 0, ts_p95ResponseTime = 0, ts_p99ResponseTime = 0, ts_p999ResponseTime = 0,
            ts_errorRate = 0, ts_errorsByStatus = [], ts_totalRequests = length results,
            ts_successfulRequests = 0, ts_failedRequests = 0, ts_failedValidations = 0,
            ts_totalDurationMs = duration, ts_cancelledRequests = length results - total\<rparr>
         else
           (let avg = sum_list times / of_nat total;
                tps = (if 0 < duration then of_nat total / duration * 1000 else 0);
                c = foldl count_result \<lparr>mc_byStatus = [], mc_failed = 0, mc_invalid = 0\<rparr> active;
                errorRate = of_nat (mc_failed c) / of_nat total * 100
            in \<lparr>ts_tps = round2 tps, ts_avgResponseTime = round2 avg,
                ts_minResponseTime = round2 (times ! 0), ts_maxResponseTime = round2 (times ! (total - 1)),
                ts_p50ResponseTime = round2 (percentile times (50 / 100)),
                ts_p95ResponseTime = round2 (percentile times (95 / 100)),
                ts_p99ResponseTime = round2 (percentile times (99 / 100)),
                ts_p999ResponseTime = round2 (percentile times (999 / 1000)),
                ts_errorRate = round2 errorRate, ts_errorsByStatus = mc_byStatus c,
                ts_totalRequests = length results, ts_successfulRequests = total - mc_failed c,
                ts_failedRequests = mc_failed c, ts_failedValidations = mc_invalid c,
                ts_totalDurationMs = of_int (js_round duration), ts_cancelledRequests = length results - total\<rparr>))"

text \<open>What the counters count.\<close>

definition request_failed :: "request_result \<Rightarrow> bool" where
  "request_failed r = (if is_http r then 400 \<le> rr_httpStatus r \<or> rr_httpStatus r = 0 else \<not> rr_passed r)"

lemma count_results:
  "mc_failed (foldl count_result c rs) = mc_failed c + length (filter request_failed rs) \<and>
   mc_invalid (foldl count_result c rs) =
     mc_invalid c + length (filter (\<lambda>r. \<not> rr_passed r \<and> rr_failureDetails r \<noteq> []) rs) \<and>
   rec_get_or 0 (mc_byStatus (foldl count_result c rs)) s =
     rec_get_or 0 (mc_byStatus c) s + length (filter (\<lambda>r. http_failed r \<and> rr_httpStatus r = s) rs)"
proof (induction rs arbitrary: c)
  case (Cons r rs)
  have "mc_failed (count_result c r) = mc_failed c + (if request_failed r then 1 else 0)"
    "mc_invalid (count_result c r) = mc_invalid c + (if \<not> rr_passed r \<and> rr_failureDetails r \<noteq> [] then 1 else 0)"
    "rec_get_or 0 (mc_byStatus (count_result c r)) s =
       rec_get_or 0 (mc_byStatus c) s + (if http_failed r \<and> rr_httpStatus r = s then 1 else 0)"
    by (auto simp: count_result_def request_failed_def http_failed_def Let_def)
  with Cons.IH [of "count_result c r"] show ?case by simp
qed simp

text \<open>The run summary accounts for every result: each is cancelled, failed or successful;
failures are HTTP results with a status of at least 400 or none at all and, on other transports,
results that did not pass; and the count under a status is the number of failed HTTP results that
have it.\<close>

theorem metrics_account_for_results:
  assumes "s = computeMetrics results duration"
  shows "ts_totalRequests s = length results \<and>
    ts_cancelledRequests s + ts_failedRequests s + ts_successfulRequests s = length results \<and>
    ts_failedRequests s = length (filter (\<lambda>r. \<not> rr_cancelled r \<and> request_failed r) results) \<and>
    rec_get_or 0 (ts_errorsByStatus s) code =
      length (filter (\<lambda>r. \<not> rr_cancelled r \<and> http_failed r \<and> rr_httpStatus r = code) results)"
proof -
  let ?active = "filter (\<lambda>r. \<not> rr_cancelled r) results"
  let ?c = "foldl count_result \<lparr>mc_byStatus = [], mc_failed = 0, mc_invalid = 0\<rparr> ?active"
  have c: "mc_failed ?c = length (filter request_failed ?active)"
    "rec_get_or 0 (mc_byStatus ?c) code = length (filter (\<lambda>r. http_failed r \<and> rr_httpStatus r = code) ?active)"
    using count_results [of "\<lparr>mc_byStatus = [], mc_failed = 0, mc_invalid = 0\<rparr>" ?active code] by simp_all
  have le: "length (filter request_failed ?active) \<le> length ?active" "length ?active \<le> length results"
    by (rule length_filter_le)+
  show ?thesis
  proof (cases "?active = []")
    case True
    then have "filter (\<lambda>r. \<not> rr_cancelled r \<and> P r) results = []" for P by (auto simp: filter_empty_conv)
    with True show ?thesis unfolding assms computeMetrics_def by simp
  next
    case False
    with c le show ?thesis unfolding assms computeMetrics_def
      by (simp add: Let_def) (insert length_filter_le [of "\<lambda>r. \<not> rr_cancelled r" results], linarith)
  qed
qed

theorem metrics_account_for_results_witness:
  "ts_failedRequests (computeMetrics [sample_result ''1'' True, sample_result ''2'' False] 1000) = 1 \<and>
   ts_totalRequests (computeMetrics [sample_result ''1'' True, sample_result ''2'' False] 1000) = 2"
  using metrics_account_for_results [OF refl, of "[sample_result ''1'' True, sample_result ''2'' False]" 1000]
  by (simp add: sample_result_def request_failed_def is_http_def)

section \<open>Row trace keys\<close>

definition TRACE_SEP :: string where
  "TRACE_SEP = ''::''"

definition buildRowTraceKey :: "string \<Rightarrow> string \<Rightarrow> string" where
  "buildRowTraceKey scenarioId dataRowId = scenarioId @ TRACE_SEP @ dataRowId"

definition buildResultTraceKey :: "string \<Rightarrow> string option \<Rightarrow> string" where
  "buildResultTraceKey scenarioId dataRowId =
     buildRowTraceKey scenarioId (case dataRowId of None \<Rightarrow> [] | Some d \<Rightarrow> d)"

definition parseRowTraceKey :: "string \<Rightarrow> string \<times> string option" where
  "parseRowTraceKey traceKey = (case js_index_of TRACE_SEP traceKey of
     None \<Rightarrow> (traceKey, None)
   | Some i \<Rightarrow> (take i traceKey, (let rest = drop (i + length TRACE_SEP) traceKey in
       if rest = [] then None else Some rest)))"

text \<open>The separator is found at the join when the scenario identity neither contains it nor ends
in a colon.\<close>

lemma sep_index:
  "\<not> sublist TRACE_SEP s \<Longrightarrow> (s = [] \<or> last s \<noteq> CHR '':'') \<Longrightarrow>
   js_index_of TRACE_SEP (s @ TRACE_SEP @ d) = Some (length s)"
proof (induction s)
  case Nil
  then show ?case by (simp add: TRACE_SEP_def)
next
  case (Cons x xs)
  have np: "\<not> prefix TRACE_SEP (x # xs @ TRACE_SEP @ d)"
  proof
    assume "prefix TRACE_SEP (x # xs @ TRACE_SEP @ d)"
    then have x: "x = CHR '':''" and p: "prefix '':'' (xs @ TRACE_SEP @ d)" by (auto simp: TRACE_SEP_def)
    show False
    proof (cases xs)
      case Nil
      with x Cons.prems show False by simp
    next
      case (Cons y ys)
      with p x have "prefix TRACE_SEP (x # xs)" by (simp add: TRACE_SEP_def)
      with Cons.prems show False by (auto dest: prefix_imp_sublist)
    qed
  qed
  have "\<not> sublist TRACE_SEP xs" "xs = [] \<or> last xs \<noteq> CHR '':''"
    using Cons.prems by (auto simp: sublist_Cons_right split: if_splits)
  with Cons.IH np show ?case by (simp add: TRACE_SEP_def)
qed

text \<open>Row trace keys round-trip: parsing the key built from a scenario and a row gives both back,
and an empty row as none, whenever the scenario identity does not contain the separator or end in a
colon. So distinct rows have distinct keys.\<close>

theorem trace_key_roundtrip:
  assumes "\<not> sublist TRACE_SEP s" and "s = [] \<or> last s \<noteq> CHR '':''"
  shows "parseRowTraceKey (buildResultTraceKey s d) = (s, case d of Some [] \<Rightarrow> None | _ \<Rightarrow> d)"
  using sep_index [OF assms, of "case d of None \<Rightarrow> [] | Some x \<Rightarrow> x"]
  by (auto simp: parseRowTraceKey_def buildResultTraceKey_def buildRowTraceKey_def Let_def split: option.splits list.splits)

theorem trace_key_roundtrip_witness:
  "parseRowTraceKey (buildResultTraceKey ''tc:1'' (Some ''row::7'')) = (''tc:1'', Some ''row::7'')"
  using trace_key_roundtrip [of "''tc:1''" "Some ''row::7''"] by (simp add: TRACE_SEP_def sublist_Cons_right)

section \<open>Merging a re-run\<close>

record test_run =
  tr_id :: string
  tr_timestamp :: int
  tr_summary :: test_summary
  tr_results :: "request_result list"

definition result_key :: "request_result \<Rightarrow> string" where
  "result_key r = buildResultTraceKey (rr_scenarioId r) (rr_dataRowId r)"

definition mergeRerunResults :: "test_run \<Rightarrow> request_result list \<Rightarrow> test_run" where
  "mergeRerunResults original reruns =
     (let rerunKeys = set (map result_key reruns);
          kept = filter (\<lambda>r. result_key r \<notin> rerunKeys) (tr_results original);
          merged = kept @ reruns
      in original\<lparr>tr_results := merged,
                  tr_summary := computeMetrics merged (ts_totalDurationMs (tr_summary original))\<rparr>)"

definition results_of :: "string \<Rightarrow> request_result list \<Rightarrow> request_result list" where
  "results_of k rs = filter (\<lambda>r. result_key r = k) rs"

text \<open>A merge of re-run rows replaces exactly the re-run rows: for a row that was run again the
merged results are those of the re-run, for any other row those of the original run, in their order;
merging the same re-run twice changes no result; and the summary counts the merged results.\<close>

theorem merge_replaces_rerun_rows:
  "results_of k (tr_results (mergeRerunResults run reruns)) =
     (if results_of k reruns \<noteq> [] then results_of k reruns else results_of k (tr_results run)) \<and>
   tr_results (mergeRerunResults (mergeRerunResults run reruns) reruns) = tr_results (mergeRerunResults run reruns) \<and>
   ts_totalRequests (tr_summary (mergeRerunResults run reruns)) = length (tr_results (mergeRerunResults run reruns))"
proof (intro conjI)
  show "results_of k (tr_results (mergeRerunResults run reruns)) =
      (if results_of k reruns \<noteq> [] then results_of k reruns else results_of k (tr_results run))"
  proof (cases "k \<in> set (map result_key reruns)")
    case True
    then have "results_of k reruns \<noteq> []" by (auto simp: results_of_def filter_empty_conv)
    with True show ?thesis by (auto simp: mergeRerunResults_def results_of_def filter_empty_conv Let_def)
  next
    case False
    then have "results_of k reruns = []" by (auto simp: results_of_def filter_empty_conv)
    moreover have "filter (\<lambda>r. result_key r \<notin> set (map result_key reruns) \<and> result_key r = k) rs =
        filter (\<lambda>r. result_key r = k) rs" for rs using False by (intro filter_cong) auto
    ultimately show ?thesis by (simp add: mergeRerunResults_def results_of_def Let_def)
  qed
  show "tr_results (mergeRerunResults (mergeRerunResults run reruns) reruns) = tr_results (mergeRerunResults run reruns)"
    by (simp add: mergeRerunResults_def Let_def filter_empty_conv)
  show "ts_totalRequests (tr_summary (mergeRerunResults run reruns)) = length (tr_results (mergeRerunResults run reruns))"
    by (simp add: mergeRerunResults_def computeMetrics_def Let_def)
qed

end
