(* ===== verification/Diagnostics.thy ===== *)
theory Diagnostics
  imports Interfaces Predicate_Tree Load_Results
begin

text \<open>
  Local diagnostics of a mock listener (\<open>src/shared/api-mock/localDiagnostics.ts\<close>): a rolling
  window of match durations, counts per outcome and of template errors. Durations are exact
  rationals; the outcome object is a function.
\<close>

definition WINDOW :: nat where
  "WINDOW = 100"

definition emptyOutcomeCounts :: "outcome \<Rightarrow> nat" where
  "emptyOutcomeCounts = (\<lambda>_. 0)"

definition countRoutePredicates :: "route list \<Rightarrow> nat" where
  "countRoutePredicates routes = foldl (\<lambda>n r. n + countLeaves (rt_predicates r)) 0 routes"

record match_duration =
  md_lastMs :: rat
  md_p95Ms :: rat
  md_count :: nat

definition summarizeMatchDurations :: "rat list \<Rightarrow> match_duration" where
  "summarizeMatchDurations samples =
     (if samples = [] then \<lparr>md_lastMs = 0, md_p95Ms = 0, md_count = 0\<rparr>
      else \<lparr>md_lastMs = List.last samples, md_p95Ms = percentile (sort samples) (95 / 100), md_count = length samples\<rparr>)"

record diagnostics =
  dg_samples :: "rat list"
  dg_outcomes :: "outcome \<Rightarrow> nat"
  dg_templateErrors :: nat

definition new_diagnostics :: diagnostics where
  "new_diagnostics = \<lparr>dg_samples = [], dg_outcomes = emptyOutcomeCounts, dg_templateErrors = 0\<rparr>"

text \<open>\<open>samples.push(x); if (samples.length > WINDOW) samples.shift()\<close>.\<close>

definition push_window :: "'a list \<Rightarrow> 'a \<Rightarrow> 'a list" where
  "push_window samples x = (let s = samples @ [x] in if WINDOW < length s then tl s else s)"

definition recordMatch :: "diagnostics \<Rightarrow> rat \<Rightarrow> outcome \<Rightarrow> diagnostics" where
  "recordMatch dg durationMs oc = dg\<lparr>dg_samples := push_window (dg_samples dg) (max 0 durationMs),
     dg_outcomes := (dg_outcomes dg)(oc := dg_outcomes dg oc + 1)\<rparr>"

definition addTemplateErrors :: "diagnostics \<Rightarrow> int \<Rightarrow> diagnostics" where
  "addTemplateErrors dg n =
     (if 0 < n then dg\<lparr>dg_templateErrors := dg_templateErrors dg + nat n\<rparr> else dg)"

definition diagnostics_snapshot :: "diagnostics \<Rightarrow> match_duration \<times> (outcome \<Rightarrow> nat) \<times> nat" where
  "diagnostics_snapshot dg = (summarizeMatchDurations (dg_samples dg), dg_outcomes dg, dg_templateErrors dg)"

definition diagnostics_reset :: "diagnostics \<Rightarrow> diagnostics" where
  "diagnostics_reset dg = dg\<lparr>dg_samples := [], dg_outcomes := emptyOutcomeCounts, dg_templateErrors := 0\<rparr>"

section \<open>The window\<close>

interpretation duration_window: bounded_window "\<lambda>s. s" push_window "\<lambda>_. WINDOW" "\<lambda>s. length s \<le> WINDOW"
proof unfold_locales
  fix s :: "'a list" and x assume l: "length s \<le> WINDOW"
  then show "length (push_window s x) \<le> WINDOW" by (auto simp: push_window_def Let_def)
  show "push_window s x = keep_last WINDOW (s @ [x])"
  proof (cases "length s = WINDOW")
    case True
    then show ?thesis by (cases s) (auto simp: push_window_def keep_last_def WINDOW_def)
  next
    case False
    with l show ?thesis by (simp add: push_window_def)
  qed
qed simp_all

definition record_all :: "diagnostics \<Rightarrow> (rat \<times> outcome) list \<Rightarrow> diagnostics" where
  "record_all dg ms = foldl (\<lambda>d (t, oc). recordMatch d t oc) dg ms"

lemma record_all_samples: "dg_samples (record_all dg ms) = foldl push_window (dg_samples dg) (map (\<lambda>m. max 0 (fst m)) ms)"
  by (induction ms arbitrary: dg) (auto simp: record_all_def recordMatch_def)

lemma record_all_outcomes: "dg_outcomes (record_all dg ms) oc = dg_outcomes dg oc + length (filter (\<lambda>m. snd m = oc) ms)"
  by (induction ms arbitrary: dg) (auto simp: record_all_def recordMatch_def)

lemma percentile_member: "xs \<noteq> [] \<Longrightarrow> percentile (sort xs) p \<in> set xs"
proof -
  assume "xs \<noteq> []"
  then have "0 < length (sort xs)" "sort xs \<noteq> []" by (simp, metis length_sort length_0_conv)
  from nth_mem [OF percentile_index_less [OF this(1)]] this(2) show ?thesis by (simp add: percentile_nth)
qed

text \<open>After any sequence of matches the collector counts every match under its outcome,
the window holds the durations of the latest hundred (negative ones as zero), and the summary is
over those: its last duration is that of the last match, its percentile one of theirs.\<close>

theorem diagnostics_account:
  assumes "ms \<noteq> []" and "s = summarizeMatchDurations (dg_samples (record_all new_diagnostics ms))"
  shows "dg_outcomes (record_all new_diagnostics ms) oc = length (filter (\<lambda>m. snd m = oc) ms) \<and>
    dg_samples (record_all new_diagnostics ms) = keep_last 100 (map (\<lambda>m. max 0 (fst m)) ms) \<and>
    md_count s = min 100 (length ms) \<and> md_lastMs s = max 0 (fst (List.last ms)) \<and>
    md_p95Ms s \<in> set (keep_last 100 (map (\<lambda>m. max 0 (fst m)) ms))"
proof -
  let ?w = "keep_last 100 (map (\<lambda>m. max 0 (fst m)) ms)"
  have w: "dg_samples (record_all new_diagnostics ms) = ?w"
    using duration_window.run_contents [of "[]" "map (\<lambda>m. max 0 (fst m)) ms"]
    by (simp add: record_all_samples new_diagnostics_def WINDOW_def)
  have short: "length ms - 100 < length ms" using assms(1) by simp
  then have ne: "?w \<noteq> []" by (simp add: keep_last_def)
  have "List.last ?w = max 0 (fst (List.last ms))"
    using assms(1) short by (simp add: keep_last_def last_drop last_map)
  moreover have "percentile (sort ?w) (95 / 100) \<in> set ?w"
    by (rule percentile_member [OF ne])
  ultimately show ?thesis
    using ne assms(2) by (simp add: w summarizeMatchDurations_def record_all_outcomes)
      (simp add: new_diagnostics_def emptyOutcomeCounts_def)
qed

theorem diagnostics_account_witness:
  "dg_outcomes (record_all new_diagnostics [(1, Out_matched), (- 1, Out_fault), (2, Out_matched)]) Out_matched = 2"
  using diagnostics_account [of "[(1, Out_matched), (- 1, Out_fault), (2, Out_matched)]" _ Out_matched] by simp

end
