(* ===== verification/Listener.thy ===== *)
theory Listener
  imports Routing Response_Renderer Proxy Cors Diagnostics Journal
begin

text \<open>
  The network listener of a mock server (\<open>src-server/api-mock/ApiMockNetworkListener.ts\<close>): the
  request pipeline that composes normalisation, route selection, response selection, rendering,
  faults, fallbacks and the proxy, with the counters and the deferred deliveries it keeps, and the
  outcomes of the fault executor (\<open>apiMockFaultExecutor.ts\<close>).

  The code between two awaits is one step. A request that has to wait (for its delay, for a fault
  that holds the socket, for the proxy) is an entry of \<open>ls_pending\<close> until a later event completes
  it. Sockets, TLS and HTTP/2 are outside: whether the client is gone, whether Node accepts a header
  map, the clock, identifiers and random draws come with the event (\<open>request_env\<close>). What the
  listener sends and the transactions it reports are recorded in the state. Drafts recorded from
  proxied exchanges and outbound callbacks are not modelled.
\<close>

section \<open>Environment of a request\<close>

record request_env =
  re_host :: js_host
  re_parse_date :: "string \<Rightarrow> int option"
  re_now :: string
  re_nowMs :: int
  re_templates :: "nat \<Rightarrow> template_env"
  re_pretty :: "json \<Rightarrow> string"
  re_weightedRoll :: rat
  re_probabilityRoll :: rat
  re_siblingRoll :: "string \<Rightarrow> rat"
  re_jitter :: rat
  re_requestId :: string
  re_transactionId :: string
  re_matchMs :: rat
  re_uptime :: rat
  re_gone :: bool \<comment> \<open>\<open>clientGone(req, res)\<close> when the body has ended\<close>
  re_http2 :: bool
  re_acceptsHeaders :: "header_map \<Rightarrow> bool" \<comment> \<open>\<open>writeHead\<close> does not throw\<close>

record received =
  rc_raw :: raw_request
  rc_truncated :: bool
  rc_generation :: nat \<comment> \<open>the generation when the request arrived\<close>

text \<open>The body chunks kept: whole chunks while their total stays within the limit.\<close>

fun collect_body :: "nat \<Rightarrow> nat \<Rightarrow> string list \<Rightarrow> string list \<times> bool" where
  "collect_body maxBody n [] = ([], False)"
| "collect_body maxBody n (c # cs) =
     (let n' = n + length c
      in case collect_body maxBody n' cs of
           (kept, truncated) \<Rightarrow> if n' \<le> maxBody then (c # kept, truncated) else (kept, True))"

section \<open>State\<close>

record delivery =
  dv_env :: request_env
  dv_raw :: raw_request
  dv_captured :: captured_request
  dv_variant :: "response_variant option"
  dv_rendered :: rendered_variant
  dv_selection :: selection_result
  dv_generation :: nat

datatype pending =
    Timed nat delivery \<comment> \<open>epoch; waiting for its delay\<close>
  | Holding nat delivery \<comment> \<open>in \<open>deliverWithFault\<close> of a timeout or a dribble\<close>
  | Proxying nat received request_env captured_request selection_result proxy_settings

record listener =
  ls_serverId :: string
  ls_definition :: server_definition
  ls_hasHandler :: bool
  ls_server :: bool \<comment> \<open>\<open>server !== null\<close>\<close>
  ls_draining :: bool
  ls_port :: int
  ls_generation :: nat
  ls_scenario :: scenario_state
  ls_sequence :: sequence_state
  ls_matchCounts :: "nat record_bag"
  ls_inFlight :: int
  ls_epoch :: nat
  ls_pending :: "pending list"
  ls_diagnostics :: diagnostics
  ls_sent :: "(int \<times> header_map \<times> string) list"
  ls_transactions :: "transaction list"

definition new_listener :: "string \<Rightarrow> server_definition \<Rightarrow> bool \<Rightarrow> listener" where
  "new_listener i d handler =
     \<lparr>ls_serverId = i, ls_definition = d, ls_hasHandler = handler, ls_server = False, ls_draining = False,
      ls_port = 0, ls_generation = 0, ls_scenario = createInitialState, ls_sequence = [], ls_matchCounts = [],
      ls_inFlight = 0, ls_epoch = 0, ls_pending = [], ls_diagnostics = new_diagnostics, ls_sent = [],
      ls_transactions = []\<rparr>"

definition isRunning :: "listener \<Rightarrow> bool" where
  "isRunning ls = (ls_server ls \<and> \<not> ls_draining ls)"

abbreviation ls_settings :: "listener \<Rightarrow> server_settings" where
  "ls_settings ls \<equiv> sd_settings (ls_definition ls)"

abbreviation ls_basePath :: "listener \<Rightarrow> string" where
  "ls_basePath ls \<equiv> sd_basePath (ls_definition ls)"

section \<open>Lifecycle\<close>

fun is_timed :: "pending \<Rightarrow> bool" where
  "is_timed (Timed e d) = True" | "is_timed _ = False"

fun pending_epoch :: "pending \<Rightarrow> nat" where
  "pending_epoch (Timed e d) = e"
| "pending_epoch (Holding e d) = e"
| "pending_epoch (Proxying e r v c s p) = e"

definition cancelDeferredDeliveries :: "listener \<Rightarrow> listener" where
  "cancelDeferredDeliveries ls =
     ls\<lparr>ls_epoch := ls_epoch ls + 1, ls_pending := filter (\<lambda>p. \<not> is_timed p) (ls_pending ls),
        ls_inFlight := 0, ls_diagnostics := diagnostics_reset (ls_diagnostics ls)\<rparr>"

text \<open>Binding the port may fail (\<open>listens\<close>); \<open>Inl\<close> is the thrown error.\<close>

definition listener_start :: "bool \<Rightarrow> listener \<Rightarrow> (string + int \<times> nat) \<times> listener" where
  "listener_start listens ls =
     (if ls_server ls then (Inl (''Listener '' @ ls_serverId ls @ '' is already running''), ls)
      else (let ls1 = (cancelDeferredDeliveries ls)\<lparr>ls_port := sd_port (ls_definition ls), ls_generation := 1, ls_draining := False\<rparr>
            in if listens then (Inr (ls_port ls1, ls_generation ls1), ls1\<lparr>ls_server := True\<rparr>)
               else (Inl ''listen failed'', ls1)))"

text \<open>\<open>stop\<close> up to its await, and its end.\<close>

definition stop_begin :: "listener \<Rightarrow> listener" where
  "stop_begin ls =
     (let ls1 = cancelDeferredDeliveries ls
      in if \<not> ls_server ls1 then ls1 else ls1\<lparr>ls_draining := True, ls_server := False\<rparr>)"

definition stop_end :: "listener \<Rightarrow> listener" where
  "stop_end ls = ls\<lparr>ls_draining := False\<rparr>"

definition listener_commit :: "server_definition \<Rightarrow> listener \<Rightarrow> nat \<times> listener" where
  "listener_commit d ls =
     (let ls1 = ls\<lparr>ls_definition := d, ls_generation := ls_generation ls + 1\<rparr> in (ls_generation ls1, ls1))"

definition resetScenario :: "listener \<Rightarrow> listener" where
  "resetScenario ls = ls\<lparr>ls_scenario := resetState (ls_scenario ls), ls_sequence := resetSequence (ls_sequence ls) None,
     ls_matchCounts := []\<rparr>"

section \<open>Sending and recording\<close>

definition assign_headers :: "header_map \<Rightarrow> string record_bag \<Rightarrow> header_map" where
  "assign_headers headers extra = foldl (\<lambda>hs (k, v). rec_set hs k (One_Value v)) headers extra"

definition mergeCorsHeaders :: "request_env \<Rightarrow> raw_request \<Rightarrow> header_map \<Rightarrow> bool \<Rightarrow> listener \<Rightarrow> header_map" where
  "mergeCorsHeaders env raw headers preflight ls =
     (let cors = ss_cors (ls_settings ls); origin = requestOriginHeader (rw_headers raw);
          merged = assign_headers headers
            (if preflight then corsPreflightHeaders cors origin else corsResponseHeaders cors origin)
      in if re_http2 env then stripHopByHopHeaders merged else merged)"

text \<open>\<open>writeHead\<close> and \<open>end\<close>; where Node refuses the headers the pipeline throws and the
client gets an empty 500. The flag tells whether the send went through.\<close>

definition send :: "request_env \<Rightarrow> int \<Rightarrow> header_map \<Rightarrow> string \<Rightarrow> listener \<Rightarrow> bool \<times> listener" where
  "send env status headers body ls =
     (if re_acceptsHeaders env headers then (True, ls\<lparr>ls_sent := ls_sent ls @ [(status, headers, body)]\<rparr>)
      else (False, ls))"

definition server_error :: "listener \<Rightarrow> listener" where
  "server_error ls = ls\<lparr>ls_sent := ls_sent ls @ [(500, [], [])]\<rparr>"

definition recordTransaction ::
  "captured_request \<Rightarrow> outcome \<Rightarrow> int \<Rightarrow> string \<Rightarrow> nat \<Rightarrow> selection_result \<Rightarrow> string option \<Rightarrow> header_map \<Rightarrow> string
     \<Rightarrow> listener \<Rightarrow> listener" where
  "recordTransaction request oc status body generation result matchedResponseId responseHeaders txId ls =
     (if \<not> ls_hasHandler ls then ls
      else if \<not> js_enabled (ss_journal (ls_settings ls)) then ls
      else (let maxBody = nat (js_maxCapturedBodyBytes (ss_journal (ls_settings ls)))
            in ls\<lparr>ls_transactions := ls_transactions ls @
                 [\<lparr>tx_id = txId, tx_serverId = ls_serverId ls, tx_generation = generation, tx_request = request,
                   tx_response = Some \<lparr>rs_status = status,
                      rs_headers = map (\<lambda>(k, v). (k, header_values v)) responseHeaders, rs_cookies = [],
                      rs_body = Some (if maxBody < length body then take maxBody body else body),
                      rs_bodyTruncated = (maxBody < length body), rs_contentType = None, rs_durationMs = 0,
                      rs_generationAtResponse = generation\<rparr>,
                   tx_outcome = oc, tx_matchedRouteId = sl_selectedRouteId result,
                   tx_matchedResponseId = (case matchedResponseId of Some r \<Rightarrow> Some r | None \<Rightarrow> sl_selectedResponseId result)\<rparr>]\<rparr>))"

definition recordDelivery ::
  "request_env \<Rightarrow> captured_request \<Rightarrow> nat \<Rightarrow> selection_result \<Rightarrow> outcome \<Rightarrow> int \<Rightarrow> string \<Rightarrow> string option \<Rightarrow> header_map
     \<Rightarrow> string option \<Rightarrow> listener \<Rightarrow> listener" where
  "recordDelivery env captured gen result oc status body matchedResponseId responseHeaders txId ls =
     recordTransaction captured oc status body gen result matchedResponseId responseHeaders
       (case txId of Some t \<Rightarrow> t | None \<Rightarrow> re_transactionId env)
       (ls\<lparr>ls_diagnostics := recordMatch (ls_diagnostics ls) (re_matchMs env) oc\<rparr>)"

definition release_slot :: "nat \<Rightarrow> listener \<Rightarrow> listener" where
  "release_slot epoch ls = (if ls_epoch ls = epoch then ls\<lparr>ls_inFlight := ls_inFlight ls - 1\<rparr> else ls)"

section \<open>Response selection\<close>

definition select_variant ::
  "request_env \<Rightarrow> route \<Rightarrow> captured_request \<Rightarrow> string \<Rightarrow> string \<Rightarrow> scenario_state \<Rightarrow> sequence_state \<Rightarrow> nat record_bag
     \<Rightarrow> response_variant option \<times> sequence_state" where
  "select_variant env rt req basePath seed scenario positions counts =
     (case selectResponseForRoute (re_host env) rt req scenario positions
             \<lparr>so_basePath = Some basePath, so_stateKey = Some ''default'', so_seed = Some seed\<rparr> (re_weightedRoll env) of
        (None, positions') \<Rightarrow> (None, positions')
      | (Some selected, positions') \<Rightarrow>
          (Some (rr_variant (resolveEligibleVariant (re_parse_date env) rt selected
             \<lparr>ro_matchCount = int (rec_get_or 0 counts (rv_id selected)), ro_now = re_nowMs env,
              ro_probabilityRoll = re_probabilityRoll env,
              ro_siblingMatchCount = (\<lambda>i. int (rec_get_or 0 counts i)),
              ro_siblingProbabilityRoll = re_siblingRoll env\<rparr>)), positions'))"

definition count_match :: "response_variant option \<Rightarrow> nat record_bag \<Rightarrow> nat record_bag" where
  "count_match variant counts = (case variant of None \<Rightarrow> counts
     | Some v \<Rightarrow> rec_set counts (rv_id v) (rec_get_or 0 counts (rv_id v) + 1))"

section \<open>Delivery\<close>

definition delivery_fault :: "response_variant option \<Rightarrow> fault_kind" where
  "delivery_fault variant = (case variant of None \<Rightarrow> Fault_none
     | Some v \<Rightarrow> (case bh_fault (rv_behavior v) of None \<Rightarrow> Fault_none | Some f \<Rightarrow> f))"

text \<open>What \<open>deliverWithFault\<close> resolves to.\<close>

definition fault_result :: "fault_kind \<Rightarrow> int \<Rightarrow> string \<Rightarrow> outcome \<times> int \<times> string" where
  "fault_result fault status body =
     (if fault = Fault_none then (Out_matched, status, body)
      else if fault = Fault_dribble then (Out_fault, status, body)
      else (Out_fault, 0, []))"

definition holds_socket :: "fault_kind \<Rightarrow> bool" where
  "holds_socket fault = (fault = Fault_timeout \<or> fault = Fault_dribble)"

definition apply_variant_transition :: "response_variant option \<Rightarrow> listener \<Rightarrow> listener" where
  "apply_variant_transition variant ls =
     (case Option.bind variant rv_transition of
        None \<Rightarrow> ls
      | Some tr \<Rightarrow> ls\<lparr>ls_scenario := snd (applyTransition (ls_scenario ls) ''default'' tr)\<rparr>)"

definition record_delivered :: "delivery \<Rightarrow> listener \<Rightarrow> listener" where
  "record_delivered d ls =
     (case fault_result (delivery_fault (dv_variant d)) (rn_status (dv_rendered d)) (rn_body (dv_rendered d)) of
        (oc, status, body) \<Rightarrow>
          recordDelivery (dv_env d) (dv_captured d) (dv_generation d) (dv_selection d) oc status body
            (map_option rv_id (dv_variant d)) (rn_headers (dv_rendered d)) None ls)"

datatype progress_of_delivery = Delivered | Held | Thrown

definition deliver :: "bool \<Rightarrow> delivery \<Rightarrow> listener \<Rightarrow> progress_of_delivery \<times> listener" where
  "deliver gone d ls =
     (if gone then (Delivered, ls)
      else
        (let ls1 = apply_variant_transition (dv_variant d) ls;
             fault = delivery_fault (dv_variant d);
             headers = mergeCorsHeaders (dv_env d) (dv_raw d) (rn_headers (dv_rendered d)) False ls1
         in if fault = Fault_none then
              (case send (dv_env d) (rn_status (dv_rendered d)) headers (rn_body (dv_rendered d)) ls1 of
                 (True, ls2) \<Rightarrow> (Delivered, record_delivered d ls2)
               | (False, ls2) \<Rightarrow> (Thrown, ls2))
            else if holds_socket fault then (Held, ls1)
            else (Delivered, record_delivered d ls1)))"

section \<open>The request pipeline\<close>

definition HEALTH_PATH_LIVE :: string where "HEALTH_PATH_LIVE = ''/__rff/health/live''"
definition HEALTH_PATH_READY :: string where "HEALTH_PATH_READY = ''/__rff/health/ready''"

definition health_reply :: "request_env \<Rightarrow> received \<Rightarrow> listener \<Rightarrow> (int \<times> string) option" where
  "health_reply env rc ls =
     (let urlPath = hd (js_split CHR ''?'' (rw_url (rc_raw rc)))
      in if rw_method (rc_raw rc) = ''GET'' \<and> (urlPath = HEALTH_PATH_LIVE \<or> urlPath = HEALTH_PATH_READY) then
           (let isReady = (1 \<le> rc_generation rc);
                status = (if urlPath = HEALTH_PATH_READY \<and> \<not> isReady then 503 else 200)
            in Some (status, json_stringify (re_host env) (JObj
                 [(''status'', JStr (if status = 200 then ''ok'' else ''not_ready'')),
                  (''probe'', JStr (if urlPath = HEALTH_PATH_LIVE then ''liveness'' else ''readiness'')),
                  (''serverId'', JStr (sd_id (ls_definition ls))),
                  (''generation'', JNum (of_nat (rc_generation rc))), (''uptime'', JNum (re_uptime env))])))
         else None)"

definition json_header :: header_map where
  "json_header = [(''Content-Type'', One_Value ''application/json'')]"

text \<open>A reply of the pipeline itself: sent, recorded, and the slot released; where the headers
are refused the exception skips the record.\<close>

definition static_reply ::
  "request_env \<Rightarrow> raw_request \<Rightarrow> int \<Rightarrow> header_map \<Rightarrow> string \<Rightarrow> (listener \<Rightarrow> listener) \<Rightarrow> nat \<Rightarrow> listener \<Rightarrow> listener" where
  "static_reply env raw status headers body rec_step epoch ls =
     (case send env status (mergeCorsHeaders env raw headers False ls) body ls of
        (True, ls1) \<Rightarrow> release_slot epoch (rec_step ls1)
      | (False, ls1) \<Rightarrow> server_error (release_slot epoch ls1))"

definition response_seed :: "captured_request \<Rightarrow> string \<Rightarrow> string" where
  "response_seed captured routeId = rq_receivedAt captured @ '':'' @ routeId"

text \<open>The end of the matched branch: wait for the delay, or deliver at once.\<close>

definition start_delivery :: "bool \<Rightarrow> int \<Rightarrow> delivery \<Rightarrow> nat \<Rightarrow> listener \<Rightarrow> listener" where
  "start_delivery gone delayMs d epoch ls =
     (if 0 < delayMs then ls\<lparr>ls_pending := ls_pending ls @ [Timed epoch d]\<rparr>
      else (case deliver gone d ls of
              (Delivered, ls2) \<Rightarrow> release_slot epoch ls2
            | (Held, ls2) \<Rightarrow> ls2\<lparr>ls_pending := ls_pending ls2 @ [Holding epoch d]\<rparr>
            | (Thrown, ls2) \<Rightarrow> server_error (release_slot epoch ls2)))"

definition process_matched ::
  "request_env \<Rightarrow> received \<Rightarrow> captured_request \<Rightarrow> selection_result \<Rightarrow> route \<Rightarrow> listener \<Rightarrow> listener" where
  "process_matched env rc captured result rt ls =
     (let limits = ss_limits (ls_settings ls);
          seed = response_seed captured (rt_id rt);
          (variant, positions) = select_variant env rt captured (ls_basePath ls) (seed @ '':'' @ rq_path captured)
             (ls_scenario ls) (ls_sequence ls) (ls_matchCounts ls);
          rendered = renderResponseVariant (re_host env) (re_templates env) variant captured rt (ls_basePath ls)
             (ls_scenario ls) (sd_variables (ls_definition ls)) seed (lim_maxResponseBodyBytes limits) (re_now env);
          transformed = tx_rendered (applyResponseTransforms None rendered
             (case variant of None \<Rightarrow> [] | Some v \<Rightarrow> rv_transforms v));
          delayMs = dp_totalMs (computeVirtualDelayMs variant (lim_maxDelayMs limits) None (re_jitter env));
          d = \<lparr>dv_env = env, dv_raw = rc_raw rc, dv_captured = captured, dv_variant = variant, dv_rendered = transformed,
               dv_selection = result, dv_generation = rc_generation rc\<rparr>;
          ls1 = ls\<lparr>ls_sequence := positions, ls_matchCounts := count_match variant (ls_matchCounts ls),
                   ls_diagnostics := addTemplateErrors (ls_diagnostics ls) (int (rn_templateErrorCount rendered))\<rparr>
      in start_delivery (re_gone env) delayMs d (ls_epoch ls) ls1)"

definition record_unmatched ::
  "request_env \<Rightarrow> received \<Rightarrow> captured_request \<Rightarrow> selection_result \<Rightarrow> outcome \<Rightarrow> int \<Rightarrow> string \<Rightarrow> string option \<Rightarrow> listener \<Rightarrow> listener" where
  "record_unmatched env rc captured result oc status body txId =
     recordDelivery env captured (rc_generation rc) result oc status body None [] txId"

definition process_unmatched ::
  "request_env \<Rightarrow> received \<Rightarrow> captured_request \<Rightarrow> selection_result \<Rightarrow> listener \<Rightarrow> listener" where
  "process_unmatched env rc captured result ls =
     (let epoch = ls_epoch ls; raw = rc_raw rc; fb = ss_fallback (ls_settings ls);
          fallback = fb_unmatchedResponse fb; oc = sl_outcome result
      in if fb_mode fb = Fall_closest_match_debug then
           (let debug = buildClosestMatchDebugBody (re_pretty env) (sl_explanation result) fallback
            in static_reply env raw (sr_status debug) [(''Content-Type'', One_Value (sr_contentType debug))] (sr_body debug)
                 (record_unmatched env rc captured result oc (sr_status debug) (sr_body debug) (Some (re_requestId env))) epoch ls)
         else case (if fb_mode fb = Fall_proxy then ss_proxy (ls_settings ls) else None) of
           Some proxy \<Rightarrow>
             (if \<not> px_enabled proxy then
                (let body = renderFallbackBody (sr_body fallback) (re_requestId env) None
                 in static_reply env raw (sr_status fallback) [(''Content-Type'', One_Value (sr_contentType fallback))] body
                      (record_unmatched env rc captured result oc (sr_status fallback) body (Some (re_requestId env))) epoch ls)
              else if listProxyOrigins proxy = [] then
                (let body = json_stringify (re_host env) (JObj [(''error'', JStr ''proxy_misconfigured''),
                       (''message'', JStr ''Proxy enabled but allowlist is empty'')])
                 in static_reply env raw 502 json_header body
                      (record_unmatched env rc captured result Out_error 502 body None) epoch ls)
              else ls\<lparr>ls_pending := ls_pending ls @ [Proxying epoch rc env captured result proxy]\<rparr>)
         | None \<Rightarrow>
             (let body = renderFallbackBody (sr_body fallback) (re_requestId env) None
              in static_reply env raw (sr_status fallback) [(''Content-Type'', One_Value (sr_contentType fallback))] body
                   (record_unmatched env rc captured result oc (sr_status fallback) body (Some (re_requestId env))) epoch ls))"

definition process_ambiguous ::
  "request_env \<Rightarrow> received \<Rightarrow> captured_request \<Rightarrow> selection_result \<Rightarrow> listener \<Rightarrow> listener" where
  "process_ambiguous env rc captured result ls =
     (let amb = sel_ambiguityResponse (ss_selection (ls_settings ls));
          body = renderFallbackBody (sr_body amb) (re_requestId env) (Some (countCompetingRules (Some (sl_explanation result))))
      in static_reply env (rc_raw rc) (sr_status amb) [(''Content-Type'', One_Value (sr_contentType amb))] body
           (record_unmatched env rc captured result Out_ambiguous (sr_status amb) body (Some (re_requestId env)))
           (ls_epoch ls) ls)"

definition process_captured :: "request_env \<Rightarrow> received \<Rightarrow> captured_request \<Rightarrow> listener \<Rightarrow> listener" where
  "process_captured env rc captured ls0 =
     (let ls = ls0\<lparr>ls_inFlight := ls_inFlight ls0 + 1\<rparr>;
          result = selectRoute (re_host env) (sd_routes (ls_definition ls)) captured (ls_settings ls) (ls_basePath ls)
      in case (if sl_outcome result = Out_matched then if_nonempty (sl_selectedRouteId result) else None) of
           Some rid \<Rightarrow>
             (case find (\<lambda>r. rt_id r = rid) (sd_routes (ls_definition ls)) of
                Some rt \<Rightarrow> process_matched env rc captured result rt ls
              | None \<Rightarrow> server_error (release_slot (ls_epoch ls) ls))
         | None \<Rightarrow> if sl_outcome result = Out_ambiguous then process_ambiguous env rc captured result ls
                  else process_unmatched env rc captured result ls)"

definition plain_send :: "request_env \<Rightarrow> int \<Rightarrow> header_map \<Rightarrow> string \<Rightarrow> listener \<Rightarrow> listener" where
  "plain_send env status headers body ls =
     (case send env status headers body ls of (True, ls1) \<Rightarrow> ls1 | (False, ls1) \<Rightarrow> server_error ls1)"

definition processRequest :: "request_env \<Rightarrow> received \<Rightarrow> listener \<Rightarrow> listener" where
  "processRequest env rc ls =
     (let raw = rc_raw rc
      in if re_gone env then ls
         else if isCorsPreflight (rw_method raw) (ss_cors (ls_settings ls)) then
           plain_send env 204 (mergeCorsHeaders env raw [] True ls) [] ls
         else if hasAntiRecursionHeader (rw_headers raw) then
           plain_send env 508 (mergeCorsHeaders env raw json_header False ls)
             (json_stringify (re_host env) (JObj [(''error'', JStr ''loop_detected''),
                (''message'', JStr ''X-RedfireForge-Mock recursion rejected'')])) ls
         else case health_reply env rc ls of
           Some (status, body) \<Rightarrow>
             plain_send env status (json_header @ [(''Cache-Control'', One_Value ''no-store'')]) body ls
         | None \<Rightarrow>
             (case normalizeRequest (re_host env) (re_now env) raw of
                Inl e \<Rightarrow> server_error ls
              | Inr (captured, summary) \<Rightarrow>
                  process_captured env rc (captured\<lparr>rq_bodyTruncated := rc_truncated rc\<rparr>) ls))"

section \<open>Later events\<close>

definition take_pending :: "nat \<Rightarrow> listener \<Rightarrow> listener" where
  "take_pending k ls = ls\<lparr>ls_pending := take k (ls_pending ls) @ drop (Suc k) (ls_pending ls)\<rparr>"

text \<open>The delay of entry \<open>k\<close> is over: \<open>deliver\<close>; an exception is swallowed.\<close>

definition fire_timer :: "nat \<Rightarrow> bool \<Rightarrow> listener \<Rightarrow> listener" where
  "fire_timer k gone ls =
     (case js_nth (ls_pending ls) k of
        Some (Timed epoch d) \<Rightarrow>
          (case deliver gone d (take_pending k ls) of
             (Held, ls1) \<Rightarrow> ls1\<lparr>ls_pending := ls_pending ls1 @ [Holding epoch d]\<rparr>
           | (_, ls1) \<Rightarrow> release_slot epoch ls1)
      | _ \<Rightarrow> ls)"

definition proxy_reply ::
  "bool \<Rightarrow> proxy_result \<Rightarrow> received \<Rightarrow> request_env \<Rightarrow> captured_request \<Rightarrow> selection_result \<Rightarrow> nat \<Rightarrow> listener \<Rightarrow> listener" where
  "proxy_reply gone proxied rc env captured result epoch ls =
     (if gone then release_slot epoch ls
      else if \<not> pr_ok proxied then
        (let body = json_stringify (re_host env) (JObj [(''error'', JStr ''proxy_failed''),
               (''message'', JStr (case pr_error proxied of None \<Rightarrow> ''upstream error'' | Some e \<Rightarrow> e))])
         in static_reply env (rc_raw rc) 502 json_header body
              (record_unmatched env rc captured result Out_error 502 body None) epoch ls)
      else
        static_reply env (rc_raw rc) (pr_status proxied)
          (map (\<lambda>(k, v). (k, One_Value (case v of One_Value s \<Rightarrow> s | Many_Values vs \<Rightarrow> js_join '', '' vs))) (pr_headers proxied))
          (pr_body proxied)
          (recordDelivery env captured (rc_generation rc) result Out_proxied (pr_status proxied) (pr_body proxied) None
             (pr_headers proxied) None) epoch ls)"

text \<open>A held delivery or a proxied request completes.\<close>

definition complete_pending :: "nat \<Rightarrow> bool \<Rightarrow> proxy_env \<Rightarrow> int list \<Rightarrow> listener \<Rightarrow> listener" where
  "complete_pending k gone penv ports ls =
     (case js_nth (ls_pending ls) k of
        Some (Holding epoch d) \<Rightarrow> release_slot epoch (record_delivered d (take_pending k ls))
      | Some (Proxying epoch rc env captured result proxy) \<Rightarrow>
          (let proxied = fst (executeProxyWithFailover penv proxy ports
                 \<lparr>pi_method = rw_method (rc_raw rc), pi_headers = rw_headers (rc_raw rc), pi_body = rw_body (rc_raw rc)\<rparr>
                 (rq_path captured) (rw_url (rc_raw rc)))
           in proxy_reply gone proxied rc env captured result epoch (take_pending k ls))
      | _ \<Rightarrow> ls)"

datatype listener_event =
    Start bool
  | Stop_Begin
  | Stop_End
  | Commit server_definition
  | Reset_Scenario
  | Request request_env received
  | Fire nat bool
  | Complete nat bool proxy_env "int list"

fun listener_step :: "listener \<Rightarrow> listener_event \<Rightarrow> listener" where
  "listener_step ls (Start listens) = snd (listener_start listens ls)"
| "listener_step ls Stop_Begin = stop_begin ls"
| "listener_step ls Stop_End = stop_end ls"
| "listener_step ls (Commit d) = snd (listener_commit d ls)"
| "listener_step ls Reset_Scenario = resetScenario ls"
| "listener_step ls (Request env rc) = processRequest env rc ls"
| "listener_step ls (Fire k gone) = fire_timer k gone ls"
| "listener_step ls (Complete k gone penv ports) = complete_pending k gone penv ports ls"

section \<open>Frames\<close>

text \<open>What sending, recording and releasing leave alone.\<close>

definition same_runtime :: "listener \<Rightarrow> listener \<Rightarrow> bool" where
  "same_runtime ls ls' = (ls_epoch ls' = ls_epoch ls \<and> ls_pending ls' = ls_pending ls \<and>
     ls_definition ls' = ls_definition ls \<and> ls_generation ls' = ls_generation ls \<and> ls_server ls' = ls_server ls)"

lemma recordTransaction_frame [simp]:
  "ls_epoch (recordTransaction a b c d e f g i j ls) = ls_epoch ls"
  "ls_pending (recordTransaction a b c d e f g i j ls) = ls_pending ls"
  "ls_inFlight (recordTransaction a b c d e f g i j ls) = ls_inFlight ls"
  "ls_definition (recordTransaction a b c d e f g i j ls) = ls_definition ls"
  "ls_scenario (recordTransaction a b c d e f g i j ls) = ls_scenario ls"
  "ls_sequence (recordTransaction a b c d e f g i j ls) = ls_sequence ls"
  "ls_matchCounts (recordTransaction a b c d e f g i j ls) = ls_matchCounts ls"
  "ls_sent (recordTransaction a b c d e f g i j ls) = ls_sent ls"
  by (simp_all add: recordTransaction_def Let_def)

lemma recordDelivery_frame [simp]:
  "ls_epoch (recordDelivery env a b c d e f g i j ls) = ls_epoch ls"
  "ls_pending (recordDelivery env a b c d e f g i j ls) = ls_pending ls"
  "ls_inFlight (recordDelivery env a b c d e f g i j ls) = ls_inFlight ls"
  "ls_definition (recordDelivery env a b c d e f g i j ls) = ls_definition ls"
  "ls_scenario (recordDelivery env a b c d e f g i j ls) = ls_scenario ls"
  "ls_sequence (recordDelivery env a b c d e f g i j ls) = ls_sequence ls"
  "ls_matchCounts (recordDelivery env a b c d e f g i j ls) = ls_matchCounts ls"
  "ls_sent (recordDelivery env a b c d e f g i j ls) = ls_sent ls"
  by (simp_all add: recordDelivery_def)

lemma record_delivered_frame [simp]:
  "ls_epoch (record_delivered d ls) = ls_epoch ls" "ls_pending (record_delivered d ls) = ls_pending ls"
  "ls_inFlight (record_delivered d ls) = ls_inFlight ls" "ls_scenario (record_delivered d ls) = ls_scenario ls"
  "ls_sequence (record_delivered d ls) = ls_sequence ls" "ls_matchCounts (record_delivered d ls) = ls_matchCounts ls"
  by (simp_all add: record_delivered_def split: prod.split)

lemma transition_frame [simp]:
  "ls_epoch (apply_variant_transition v ls) = ls_epoch ls" "ls_pending (apply_variant_transition v ls) = ls_pending ls"
  "ls_inFlight (apply_variant_transition v ls) = ls_inFlight ls"
  "ls_sequence (apply_variant_transition v ls) = ls_sequence ls"
  "ls_matchCounts (apply_variant_transition v ls) = ls_matchCounts ls"
  "ls_definition (apply_variant_transition v ls) = ls_definition ls"
  "ls_sent (apply_variant_transition v ls) = ls_sent ls"
  "ls_transactions (apply_variant_transition v ls) = ls_transactions ls"
  "ls_hasHandler (apply_variant_transition v ls) = ls_hasHandler ls"
  "ls_serverId (apply_variant_transition v ls) = ls_serverId ls"
  by (simp_all add: apply_variant_transition_def split: option.split)

lemma send_frame:
  "send env status headers body ls = (b, ls') \<Longrightarrow>
     ls_epoch ls' = ls_epoch ls \<and> ls_pending ls' = ls_pending ls \<and> ls_inFlight ls' = ls_inFlight ls"
  by (auto simp: send_def split: if_splits)

lemma server_error_frame [simp]:
  "ls_epoch (server_error ls) = ls_epoch ls" "ls_pending (server_error ls) = ls_pending ls"
  "ls_inFlight (server_error ls) = ls_inFlight ls"
  by (simp_all add: server_error_def)

lemma release_frame [simp]:
  "ls_epoch (release_slot e ls) = ls_epoch ls" "ls_pending (release_slot e ls) = ls_pending ls"
  "ls_inFlight (release_slot e ls) = (if ls_epoch ls = e then ls_inFlight ls - 1 else ls_inFlight ls)"
  by (simp_all add: release_slot_def)

lemma plain_send_frame [simp]:
  "ls_epoch (plain_send env s hs b ls) = ls_epoch ls" "ls_pending (plain_send env s hs b ls) = ls_pending ls"
  "ls_inFlight (plain_send env s hs b ls) = ls_inFlight ls"
  by (simp_all add: plain_send_def send_def)

lemma deliver_frame:
  "deliver gone d ls = (p, ls') \<Longrightarrow>
     ls_epoch ls' = ls_epoch ls \<and> ls_pending ls' = ls_pending ls \<and> ls_inFlight ls' = ls_inFlight ls"
  by (auto simp: deliver_def send_def Let_def split: if_splits)

section \<open>Requests in flight\<close>

definition in_flight :: "listener \<Rightarrow> nat" where
  "in_flight ls = length (filter (\<lambda>p. pending_epoch p = ls_epoch ls) (ls_pending ls))"

text \<open>The invariant: the counter is the number of requests of the current epoch that still wait;
no entry is from the future, and timers are from the current epoch.\<close>

definition listener_ok :: "listener \<Rightarrow> bool" where
  "listener_ok ls = (ls_inFlight ls = int (in_flight ls) \<and>
     list_all (\<lambda>p. pending_epoch p \<le> ls_epoch ls \<and> (is_timed p \<longrightarrow> pending_epoch p = ls_epoch ls)) (ls_pending ls))"

text \<open>One more request than entries, while it is being processed.\<close>

definition listener_busy :: "listener \<Rightarrow> bool" where
  "listener_busy ls = listener_ok (ls\<lparr>ls_inFlight := ls_inFlight ls - 1\<rparr>)"

lemma listener_busy_iff:
  "listener_busy ls \<longleftrightarrow> ls_inFlight ls = int (in_flight ls) + 1 \<and>
     list_all (\<lambda>p. pending_epoch p \<le> ls_epoch ls \<and> (is_timed p \<longrightarrow> pending_epoch p = ls_epoch ls)) (ls_pending ls)"
  by (auto simp: listener_busy_def listener_ok_def in_flight_def)

lemma static_reply_ok:
  assumes "listener_busy ls" and "epoch = ls_epoch ls"
    and "\<And>l. ls_epoch (f l) = ls_epoch l \<and> ls_pending (f l) = ls_pending l \<and> ls_inFlight (f l) = ls_inFlight l"
  shows "listener_ok (static_reply env raw status headers body f epoch ls)"
  using assms(1,2) assms(3)
  by (auto simp: static_reply_def send_def listener_busy_iff listener_ok_def in_flight_def)

lemma record_unmatched_frame:
  "ls_epoch (record_unmatched env rc cp r oc s b t l) = ls_epoch l \<and>
   ls_pending (record_unmatched env rc cp r oc s b t l) = ls_pending l \<and>
   ls_inFlight (record_unmatched env rc cp r oc s b t l) = ls_inFlight l"
  by (simp add: record_unmatched_def)

lemma wait_ok:
  "listener_busy ls \<Longrightarrow> pending_epoch p = ls_epoch ls \<Longrightarrow> listener_ok (ls\<lparr>ls_pending := ls_pending ls @ [p]\<rparr>)"
  by (simp add: listener_busy_iff listener_ok_def in_flight_def)

lemma release_ok: "listener_busy ls \<Longrightarrow> listener_ok (release_slot (ls_epoch ls) ls)"
  by (simp add: listener_busy_iff listener_ok_def in_flight_def)

lemma held_ok:
  "listener_busy ls \<Longrightarrow> deliver gone d ls = (Held, ls') \<Longrightarrow> listener_ok (ls'\<lparr>ls_pending := ls_pending ls' @ [Holding (ls_epoch ls) d]\<rparr>)"
  using deliver_frame [of gone d ls Held ls'] by (simp add: listener_busy_iff listener_ok_def in_flight_def)

lemma delivered_ok:
  "listener_busy ls \<Longrightarrow> deliver gone d ls = (p, ls') \<Longrightarrow> listener_ok (release_slot (ls_epoch ls) ls')"
  using deliver_frame [of gone d ls p ls'] by (simp add: listener_busy_iff listener_ok_def in_flight_def)

lemma server_error_ok [simp]: "listener_ok (server_error ls) = listener_ok ls"
  by (simp add: listener_ok_def in_flight_def)

lemma listener_ok_update [simp]:
  "listener_busy (ls\<lparr>ls_sequence := a, ls_matchCounts := b, ls_diagnostics := c\<rparr>) = listener_busy ls"
  by (simp add: listener_busy_iff in_flight_def)

lemma start_delivery_ok: "listener_busy ls \<Longrightarrow> listener_ok (start_delivery gone delayMs d (ls_epoch ls) ls)"
  using wait_ok [of ls "Timed (ls_epoch ls) d"] held_ok [of ls gone d] delivered_ok [of ls gone d]
  by (simp add: start_delivery_def split: prod.split progress_of_delivery.split)

lemma process_matched_ok:
  assumes "listener_busy ls"
  shows "listener_ok (process_matched env rc cp r rt ls)"
proof -
  obtain v ps where v: "select_variant env rt cp (ls_basePath ls) (response_seed cp (rt_id rt) @ '':'' @ rq_path cp)
      (ls_scenario ls) (ls_sequence ls) (ls_matchCounts ls) = (v, ps)" by fastforce
  have "ls_epoch ls = ls_epoch (ls\<lparr>ls_sequence := a, ls_matchCounts := b, ls_diagnostics := c\<rparr>)" for a b c by simp
  then show ?thesis
    unfolding process_matched_def Let_def v prod.case using assms
    by (metis start_delivery_ok listener_ok_update)
qed

lemma process_unmatched_ok: "listener_busy ls \<Longrightarrow> listener_ok (process_unmatched env rc cp r ls)"
  by (auto simp: process_unmatched_def Let_def record_unmatched_frame intro!: static_reply_ok wait_ok
      split: option.split)

lemma process_ambiguous_ok: "listener_busy ls \<Longrightarrow> listener_ok (process_ambiguous env rc cp r ls)"
  by (auto simp: process_ambiguous_def Let_def record_unmatched_frame intro!: static_reply_ok)

lemma process_captured_ok: "listener_ok ls \<Longrightarrow> listener_ok (process_captured env rc cp ls)"
proof -
  assume "listener_ok ls"
  then have b: "listener_busy (ls\<lparr>ls_inFlight := ls_inFlight ls + 1\<rparr>)"
    by (simp add: listener_busy_iff listener_ok_def in_flight_def)
  from release_ok [OF b] show ?thesis
    using process_matched_ok [OF b] process_unmatched_ok [OF b] process_ambiguous_ok [OF b]
    by (simp add: process_captured_def Let_def split: option.split)
qed

lemma plain_send_ok [simp]: "listener_ok (plain_send env s hs b ls) = listener_ok ls"
  by (simp add: listener_ok_def in_flight_def)

lemma processRequest_ok: "listener_ok ls \<Longrightarrow> listener_ok (processRequest env rc ls)"
  by (auto simp: processRequest_def Let_def process_captured_ok split: option.split sum.split)

text \<open>Taking an entry out leaves a busy listener when the entry is of the current epoch, and an
ordinary one when it is older.\<close>

lemma take_pending_ok:
  assumes "listener_ok ls" and "js_nth (ls_pending ls) k = Some p"
  shows "if pending_epoch p = ls_epoch ls then listener_busy (take_pending k ls) else listener_ok (take_pending k ls)"
proof -
  have k: "k < length (ls_pending ls)" "ls_pending ls ! k = p" using assms(2) by (auto simp: js_nth_def split: if_splits)
  define a b where "a = take k (ls_pending ls)" and "b = drop (Suc k) (ls_pending ls)"
  have t: "take_pending k ls = ls\<lparr>ls_pending := a @ b\<rparr>" by (simp add: take_pending_def a_def b_def)
  have "ls_pending ls = a @ p # b" using k id_take_nth_drop [of k "ls_pending ls"] by (simp add: a_def b_def)
  then show ?thesis using assms(1) unfolding t
    by (auto simp: listener_busy_iff listener_ok_def in_flight_def)
qed

lemma take_pending_epoch [simp]: "ls_epoch (take_pending k ls) = ls_epoch ls"
  by (simp add: take_pending_def)

lemma release_other [simp]: "e \<noteq> ls_epoch ls \<Longrightarrow> release_slot e ls = ls"
  by (auto simp: release_slot_def)

lemma fire_timer_ok: "listener_ok ls \<Longrightarrow> listener_ok (fire_timer k gone ls)"
proof (cases "js_nth (ls_pending ls) k")
  case (Some p)
  assume ok: "listener_ok ls"
  show ?thesis
  proof (cases p)
    case (Timed epoch d)
    have "list_all (\<lambda>p. is_timed p \<longrightarrow> pending_epoch p = ls_epoch ls) (ls_pending ls)"
      using ok by (auto simp: listener_ok_def list_all_iff)
    then have e: "epoch = ls_epoch ls"
      using Some Timed by (auto simp: js_nth_def list_all_length split: if_splits)
    then have b: "listener_busy (take_pending k ls)" using take_pending_ok [OF ok Some] Timed by simp
    obtain q ls1 where d: "deliver gone d (take_pending k ls) = (q, ls1)" by fastforce
    show ?thesis
      using Some Timed e d held_ok [OF b, of gone d ls1] delivered_ok [OF b d]
      by (cases q) (auto simp: fire_timer_def)
  qed (use ok Some in \<open>simp_all add: fire_timer_def\<close>)
qed (simp add: fire_timer_def)

lemma release_old_ok: "listener_ok ls \<Longrightarrow> e \<noteq> ls_epoch ls \<Longrightarrow> listener_ok (release_slot e ls)"
  by simp

lemma frame_ok:
  "ls_epoch ls' = ls_epoch ls \<Longrightarrow> ls_pending ls' = ls_pending ls \<Longrightarrow> ls_inFlight ls' = ls_inFlight ls \<Longrightarrow>
     listener_ok ls' = listener_ok ls \<and> listener_busy ls' = listener_busy ls"
  by (simp add: listener_ok_def listener_busy_iff in_flight_def)

lemma complete_pending_ok: "listener_ok ls \<Longrightarrow> listener_ok (complete_pending k gone penv ports ls)"
proof (cases "js_nth (ls_pending ls) k")
  case (Some p)
  assume ok: "listener_ok ls"
  note t = take_pending_ok [OF ok Some]
  show ?thesis
  proof (cases p)
    case (Holding epoch d)
    define l where "l = record_delivered d (take_pending k ls)"
    have "listener_ok l = listener_ok (take_pending k ls) \<and> listener_busy l = listener_busy (take_pending k ls)"
      unfolding l_def by (rule frame_ok) simp_all
    moreover have "ls_epoch l = ls_epoch ls" by (simp add: l_def)
    ultimately have "listener_ok (release_slot epoch l)"
      using t Holding release_ok [of l] by (cases "epoch = ls_epoch ls") auto
    with Some Holding show ?thesis by (simp add: complete_pending_def l_def)
  next
    case (Proxying epoch rc env cp r px)
    define l where "l = take_pending k ls"
    have le: "ls_epoch l = ls_epoch ls" by (simp add: l_def)
    have s: "listener_ok (static_reply env (rc_raw rc) s hs b f epoch l)"
      if "\<And>l. ls_epoch (f l) = ls_epoch l \<and> ls_pending (f l) = ls_pending l \<and> ls_inFlight (f l) = ls_inFlight l" for s hs b f
    proof (cases "epoch = ls_epoch ls")
      case True
      with t Proxying le that show ?thesis by (intro static_reply_ok) (simp_all add: l_def)
    next
      case False
      with t Proxying have "listener_ok l" by (simp add: l_def)
      with False le that show ?thesis
        by (auto simp: static_reply_def send_def listener_ok_def in_flight_def)
    qed
    have r: "listener_ok (release_slot epoch l)"
      using t Proxying le release_ok [of l] by (cases "epoch = ls_epoch ls") (auto simp: l_def)
    show ?thesis using Some Proxying s r
      by (simp add: complete_pending_def proxy_reply_def record_unmatched_frame Let_def l_def [symmetric])
  qed (use ok Some in \<open>simp add: complete_pending_def\<close>)
qed (simp add: complete_pending_def)

lemma cancel_ok: "listener_ok ls \<Longrightarrow> listener_ok (cancelDeferredDeliveries ls) \<and> ls_inFlight (cancelDeferredDeliveries ls) = 0"
proof -
  assume "listener_ok ls"
  then have "filter (\<lambda>p. pending_epoch p = Suc (ls_epoch ls) \<and> \<not> is_timed p) (ls_pending ls) = []"
    by (auto simp: listener_ok_def list_all_iff filter_empty_conv)
  with \<open>listener_ok ls\<close> show ?thesis
    by (auto simp: cancelDeferredDeliveries_def listener_ok_def in_flight_def list_all_iff conj_commute)
qed

lemma listener_step_ok: "listener_ok ls \<Longrightarrow> listener_ok (listener_step ls e)"
proof (induction ls e rule: listener_step.induct)
  case (1 ls listens)
  have "listener_ok (cancelDeferredDeliveries ls)" using cancel_ok [OF 1] by simp
  then have "listener_ok (snd (listener_start listens ls))"
    using 1 by (auto simp: listener_start_def listener_ok_def in_flight_def Let_def)
  then show ?case by simp
next
  case (2 ls)
  have "listener_ok (cancelDeferredDeliveries ls)" using cancel_ok [OF 2] by simp
  then show ?case by (auto simp: stop_begin_def listener_ok_def in_flight_def Let_def)
next
  case (3 ls)
  then show ?case by (simp add: stop_end_def listener_ok_def in_flight_def)
next
  case (4 ls d)
  then show ?case by (simp add: listener_commit_def listener_ok_def in_flight_def Let_def)
next
  case (5 ls)
  then show ?case by (simp add: resetScenario_def listener_ok_def in_flight_def)
qed (simp_all add: processRequest_ok fire_timer_ok complete_pending_ok)

interpretation listener_runs: state_machine listener_step listener_ok
  by unfold_locales (rule listener_step_ok)

lemma new_listener_ok: "listener_ok (new_listener i d h)"
  by (simp add: new_listener_def listener_ok_def in_flight_def)

text \<open>C13. The count of requests in flight is exact in every run of requests, deliveries,
commits, stops and restarts: it is the number of requests of the current epoch that still wait, so
it never goes below zero, is not moved by deliveries that survive a restart, and is zero right
after a stop.\<close>

theorem in_flight_exact:
  assumes "st = foldl listener_step (new_listener i d h) es"
  shows "ls_inFlight st = int (in_flight st) \<and> ls_inFlight (listener_step st Stop_Begin) = 0 \<and>
    list_all (\<lambda>p. is_timed p \<longrightarrow> pending_epoch p = ls_epoch st) (ls_pending st)"
proof -
  have ok: "listener_ok st" unfolding assms by (rule listener_runs.run_ok [OF new_listener_ok])
  have "list_all (\<lambda>p. is_timed p \<longrightarrow> pending_epoch p = ls_epoch st) (ls_pending st)"
    using ok by (auto simp: listener_ok_def list_all_iff)
  with ok cancel_ok [OF ok] show ?thesis by (simp add: listener_ok_def stop_begin_def Let_def)
qed

section \<open>Bodies\<close>

lemma collect_body_spec:
  "collect_body maxBody n cs = (kept, truncated) \<Longrightarrow> n \<le> maxBody \<Longrightarrow>
     prefix kept cs \<and> n + length (concat kept) \<le> maxBody \<and> truncated = (maxBody < n + length (concat cs)) \<and>
     (kept \<noteq> cs \<longrightarrow> maxBody < n + length (concat (take (Suc (length kept)) cs)))"
proof (induction cs arbitrary: n kept truncated)
  case (Cons c cs)
  obtain kept' truncated' where r: "collect_body maxBody (n + length c) cs = (kept', truncated')" by fastforce
  show ?case
  proof (cases "n + length c \<le> maxBody")
    case True
    with Cons.IH [OF r True] Cons.prems r show ?thesis by (auto simp: Let_def)
  next
    case False
    have none: "maxBody < m \<Longrightarrow> fst (collect_body maxBody m xs) = []" for m xs
      by (induction xs arbitrary: m) (auto simp: Let_def case_prod_beta)
    from none [of "n + length c" cs] False Cons.prems r show ?thesis by (auto simp: Let_def)
  qed
qed simp

text \<open>Of the chunks of a body the longest run from the start that fits the limit is
kept, whole chunks only, and the body counts as truncated exactly when the chunks together exceed
the limit.\<close>

theorem inbound_chunks_kept:
  assumes "collect_body maxBody 0 chunks = (kept, truncated)"
  shows "prefix kept chunks \<and> length (concat kept) \<le> maxBody \<and> truncated = (maxBody < length (concat chunks)) \<and>
    (kept \<noteq> chunks \<longrightarrow> maxBody < length (concat (take (Suc (length kept)) chunks)))"
  using collect_body_spec [OF assms] by simp

theorem inbound_chunks_kept_witness:
  "collect_body 3 0 [''ab'', ''cd'', ''e''] = ([''ab''], True) \<and> length (concat [''ab'']) \<le> 3"
  using inbound_chunks_kept [of 3 "[''ab'', ''cd'', ''e'']" "[''ab'']" True] by simp

section \<open>Requests that reach the routes\<close>

text \<open>No reserved answer applies: the client is there, and the request is no preflight, no loop
and no health probe.\<close>

definition reaches_routes :: "request_env \<Rightarrow> received \<Rightarrow> listener \<Rightarrow> bool" where
  "reaches_routes env rc ls =
     (\<not> re_gone env \<and> \<not> isCorsPreflight (rw_method (rc_raw rc)) (ss_cors (ls_settings ls)) \<and>
      \<not> hasAntiRecursionHeader (rw_headers (rc_raw rc)) \<and> health_reply env rc ls = None)"

lemma processRequest_reaches:
  "reaches_routes env rc ls \<Longrightarrow> normalizeRequest (re_host env) (re_now env) (rc_raw rc) = Inr (captured, summary) \<Longrightarrow>
     processRequest env rc ls = process_captured env rc (captured\<lparr>rq_bodyTruncated := rc_truncated rc\<rparr>) ls"
  by (simp add: processRequest_def reaches_routes_def Let_def)

lemma normalization_throws:
  "(\<exists>e. normalizeRequest h now raw = Inl e) \<longleftrightarrow>
     (\<exists>x. normalizeHeaders (rw_headers raw) = Inl x) \<or> (\<exists>x. parseUrl h (rw_url raw) = Inl x)"
  by (auto simp: normalizeRequest_def Let_def split: sum.split)

text \<open>A client can make the listener fail: a request with a header or a query
parameter named like an inherited property, for example \<open>?constructor=1\<close>, is answered with an
empty 500 whatever the routes are, and leaves no transaction and no other trace.\<close>

theorem inherited_name_fails:
  assumes "reaches_routes env rc ls" and "n \<in> set inherited_names"
    and "n \<in> fst ` set (header_entries (rw_headers (rc_raw rc))) \<or>
         n \<in> fst ` set (query_entries (re_host env) (query_parts (rw_url (rc_raw rc))))"
  shows "processRequest env rc ls = ls\<lparr>ls_sent := ls_sent ls @ [(500, [], [])]\<rparr>"
proof -
  have "(\<exists>x. normalizeHeaders (rw_headers (rc_raw rc)) = Inl x) \<or> (\<exists>x. parseUrl (re_host env) (rw_url (rc_raw rc)) = Inl x)"
    using assms(2,3) normalize_headers_throws [OF no_inherited_Nil, of "rw_headers (rc_raw rc)"]
      parseUrl_throws [of "re_host env" "rw_url (rc_raw rc)"]
    unfolding normalizeHeaders_def by (metis imageE)
  then obtain e where "normalizeRequest (re_host env) (re_now env) (rc_raw rc) = Inl e"
    using normalization_throws by blast
  with assms(1) show ?thesis by (simp add: processRequest_def reaches_routes_def server_error_def Let_def)
qed

section \<open>A concrete request\<close>

definition sample_request_env :: request_env where
  "sample_request_env = \<lparr>re_host = sample_host, re_parse_date = (\<lambda>s. None), re_now = ''t'', re_nowMs = 0,
     re_templates = (\<lambda>n. sample_template_env), re_pretty = (\<lambda>v. []), re_weightedRoll = 0, re_probabilityRoll = 0,
     re_siblingRoll = (\<lambda>i. 0), re_jitter = 0, re_requestId = ''q1'', re_transactionId = ''t1'', re_matchMs = 0,
     re_uptime = 0, re_gone = False, re_http2 = False, re_acceptsHeaders = (\<lambda>hs. True)\<rparr>"

definition sample_received :: "string \<Rightarrow> received" where
  "sample_received url = \<lparr>rc_raw = \<lparr>rw_method = ''GET'', rw_url = url, rw_headers = [], rw_body = None, rw_remoteAddress = None,
     rw_receivedAt = None, rw_clientCertSubject = None, rw_clientCertFingerprint = None\<rparr>,
     rc_truncated = False, rc_generation = 1\<rparr>"

definition sample_definition :: server_definition where
  "sample_definition = \<lparr>sd_id = ''s'', sd_port = 4600, sd_basePath = [], sd_routes = [sample_route ''a'' ''/a''],
     sd_variables = [], sd_settings = sample_settings\<rparr>"

definition sample_listener :: listener where
  "sample_listener = new_listener ''s'' sample_definition True"

lemma sample_reaches:
  "url \<in> {''/a'', ''/b'', ''/a?constructor=1''} \<Longrightarrow> reaches_routes sample_request_env (sample_received url) sample_listener"
  by (auto simp: reaches_routes_def sample_request_env_def sample_received_def sample_listener_def new_listener_def
      sample_definition_def sample_settings_def isCorsPreflight_def hasAntiRecursionHeader_def health_reply_def
      HEALTH_PATH_LIVE_def HEALTH_PATH_READY_def Let_def)

theorem inherited_name_fails_witness:
  "processRequest sample_request_env (sample_received ''/a?constructor=1'') sample_listener =
     sample_listener\<lparr>ls_sent := ls_sent sample_listener @ [(500, [], [])]\<rparr>"
proof (rule inherited_name_fails [where n = "''constructor''"])
  show "''constructor'' \<in> set inherited_names" by (simp add: inherited_names_def)
  have "''constructor'' \<in> fst ` set (query_entries sample_host (query_parts ''/a?constructor=1''))"
    by (simp add: query_parts_def query_entries_def query_entry_def safeDecodeURIComponent_def sample_host_def)
  then show "''constructor'' \<in> fst ` set (header_entries (rw_headers (rc_raw (sample_received ''/a?constructor=1'')))) \<or>
      ''constructor'' \<in> fst ` set (query_entries (re_host sample_request_env)
         (query_parts (rw_url (rc_raw (sample_received ''/a?constructor=1'')))))"
    by (simp add: sample_received_def sample_request_env_def)
qed (simp add: sample_reaches)

theorem in_flight_exact_witness:
  "ls_inFlight (listener_step sample_listener (Request sample_request_env (sample_received ''/a''))) =
     int (in_flight (listener_step sample_listener (Request sample_request_env (sample_received ''/a''))))"
  using in_flight_exact [of _ "''s''" sample_definition True "[Request sample_request_env (sample_received ''/a'')]"]
  by (simp add: sample_listener_def)

section \<open>A matched request\<close>

text \<open>The variant a request of a route gets, the response rendered for it and its transforms.\<close>

definition chosen_variant :: "request_env \<Rightarrow> captured_request \<Rightarrow> route \<Rightarrow> listener \<Rightarrow> response_variant option" where
  "chosen_variant env captured rt ls =
     fst (select_variant env rt captured (ls_basePath ls) (response_seed captured (rt_id rt) @ '':'' @ rq_path captured)
       (ls_scenario ls) (ls_sequence ls) (ls_matchCounts ls))"

definition chosen_response :: "request_env \<Rightarrow> captured_request \<Rightarrow> route \<Rightarrow> listener \<Rightarrow> rendered_variant" where
  "chosen_response env captured rt ls =
     tx_rendered (applyResponseTransforms None
       (renderResponseVariant (re_host env) (re_templates env) (chosen_variant env captured rt ls) captured rt (ls_basePath ls)
          (ls_scenario ls) (sd_variables (ls_definition ls)) (response_seed captured (rt_id rt))
          (lim_maxResponseBodyBytes (ss_limits (ls_settings ls))) (re_now env))
       (case chosen_variant env captured rt ls of None \<Rightarrow> [] | Some v \<Rightarrow> rv_transforms v))"

definition selected_route :: "request_env \<Rightarrow> captured_request \<Rightarrow> listener \<Rightarrow> route option" where
  "selected_route env captured ls =
     (let result = selectRoute (re_host env) (sd_routes (ls_definition ls)) captured (ls_settings ls) (ls_basePath ls)
      in case (if sl_outcome result = Out_matched then if_nonempty (sl_selectedRouteId result) else None) of
           Some rid \<Rightarrow> find (\<lambda>r. rt_id r = rid) (sd_routes (ls_definition ls)) | None \<Rightarrow> None)"

text \<open>No delay, no fault, and Node accepts the headers.\<close>

definition plain_delivery :: "request_env \<Rightarrow> received \<Rightarrow> captured_request \<Rightarrow> route \<Rightarrow> listener \<Rightarrow> bool" where
  "plain_delivery env rc captured rt ls =
     (dp_totalMs (computeVirtualDelayMs (chosen_variant env captured rt ls)
        (lim_maxDelayMs (ss_limits (ls_settings ls))) None (re_jitter env)) \<le> 0 \<and>
      delivery_fault (chosen_variant env captured rt ls) = Fault_none \<and>
      re_acceptsHeaders env (mergeCorsHeaders env (rc_raw rc) (rn_headers (chosen_response env captured rt ls)) False ls))"

lemma mergeCors_definition:
  "ls_definition ls' = ls_definition ls \<Longrightarrow> mergeCorsHeaders env raw hs p ls' = mergeCorsHeaders env raw hs p ls"
  by (simp add: mergeCorsHeaders_def)

lemma if_nonempty_id: "if_nonempty v = Some s \<Longrightarrow> v = Some s"
  by (cases v) (auto simp: if_nonempty_def split: list.splits)

lemma record_delivered_plain:
  "delivery_fault (dv_variant d) = Fault_none \<Longrightarrow> ls_hasHandler ls \<Longrightarrow> js_enabled (ss_journal (ls_settings ls)) \<Longrightarrow>
   \<exists>tx. ls_transactions (record_delivered d ls) = ls_transactions ls @ [tx] \<and> tx_outcome tx = Out_matched \<and>
     tx_matchedRouteId tx = sl_selectedRouteId (dv_selection d) \<and>
     (dv_variant d \<noteq> None \<longrightarrow> tx_matchedResponseId tx = map_option rv_id (dv_variant d)) \<and>
     tx_generation tx = dv_generation d \<and> map_option rs_status (tx_response tx) = Some (rn_status (dv_rendered d))"
  by (simp add: record_delivered_def fault_result_def recordDelivery_def recordTransaction_def Let_def split: option.split)

lemma release_more [simp]:
  "ls_sent (release_slot e ls) = ls_sent ls" "ls_transactions (release_slot e ls) = ls_transactions ls"
  "ls_scenario (release_slot e ls) = ls_scenario ls" "ls_matchCounts (release_slot e ls) = ls_matchCounts ls"
  by (simp_all add: release_slot_def)

lemma record_delivered_sent [simp]: "ls_sent (record_delivered d ls) = ls_sent ls"
  by (simp add: record_delivered_def split: prod.split)

text \<open>The three stages of a matched request: its route, its delivery, the delivery's end.\<close>

lemma selected_route_matched:
  assumes "reaches_routes env rc ls"
    and "normalizeRequest (re_host env) (re_now env) (rc_raw rc) = Inr (captured0, summary)"
    and "captured = captured0\<lparr>rq_bodyTruncated := rc_truncated rc\<rparr>"
    and "selected_route env captured ls = Some rt"
  obtains result where "sl_selectedRouteId result = Some (rt_id rt)"
    and "processRequest env rc ls = process_matched env rc captured result rt (ls\<lparr>ls_inFlight := ls_inFlight ls + 1\<rparr>)"
proof -
  define ls1 where "ls1 = ls\<lparr>ls_inFlight := ls_inFlight ls + 1\<rparr>"
  define result where "result = selectRoute (re_host env) (sd_routes (ls_definition ls)) captured (ls_settings ls) (ls_basePath ls)"
  obtain rid where rid: "sl_outcome result = Out_matched" "sl_selectedRouteId result = Some rid" "if_nonempty (sl_selectedRouteId result) = Some rid"
    "find (\<lambda>r. rt_id r = rid) (sd_routes (ls_definition ls)) = Some rt"
    using assms(4) if_nonempty_id [of "sl_selectedRouteId result"]
    by (auto simp: selected_route_def result_def [symmetric] Let_def split: if_splits option.splits)
  then have id: "rt_id rt = rid" by (auto dest: find_SomeD)
  have s: "selectRoute (re_host env) (sd_routes (ls_definition ls1)) captured (ls_settings ls1) (ls_basePath ls1) = result"
    "ls_definition ls1 = ls_definition ls"
    by (simp_all add: result_def ls1_def)
  have "processRequest env rc ls = process_matched env rc captured result rt ls1"
    unfolding processRequest_reaches [OF assms(1,2)] assms(3) [symmetric] process_captured_def Let_def
      ls1_def [symmetric] using rid s by simp
  with that rid(2) id show thesis unfolding ls1_def by blast
qed

lemma process_matched_delivery:
  "\<exists>positions errors. process_matched env rc captured result rt (ls\<lparr>ls_inFlight := n\<rparr>) =
     start_delivery (re_gone env)
       (dp_totalMs (computeVirtualDelayMs (chosen_variant env captured rt ls) (lim_maxDelayMs (ss_limits (ls_settings ls))) None (re_jitter env)))
       \<lparr>dv_env = env, dv_raw = rc_raw rc, dv_captured = captured, dv_variant = chosen_variant env captured rt ls,
        dv_rendered = chosen_response env captured rt ls, dv_selection = result, dv_generation = rc_generation rc\<rparr>
       (ls_epoch ls)
       (ls\<lparr>ls_inFlight := n, ls_sequence := positions,
          ls_matchCounts := count_match (chosen_variant env captured rt ls) (ls_matchCounts ls), ls_diagnostics := errors\<rparr>)"
proof -
  obtain v positions where v: "select_variant env rt captured (ls_basePath ls) (response_seed captured (rt_id rt) @ '':'' @ rq_path captured)
       (ls_scenario ls) (ls_sequence ls) (ls_matchCounts ls) = (v, positions)" by fastforce
  then have "chosen_variant env captured rt ls = v" by (simp add: chosen_variant_def)
  with v show ?thesis
    by (auto simp: process_matched_def chosen_response_def Let_def)
qed

lemma plain_start_delivery:
  assumes "delayMs \<le> 0" and "delivery_fault (dv_variant d) = Fault_none"
    and headers: "headers = mergeCorsHeaders (dv_env d) (dv_raw d) (rn_headers (dv_rendered d)) False ls"
    and "re_acceptsHeaders (dv_env d) headers"
  shows "start_delivery False delayMs d e ls =
    release_slot e (record_delivered d ((apply_variant_transition (dv_variant d) ls)
      \<lparr>ls_sent := ls_sent ls @ [(rn_status (dv_rendered d), headers, rn_body (dv_rendered d))]\<rparr>))"
proof -
  have "mergeCorsHeaders (dv_env d) (dv_raw d) (rn_headers (dv_rendered d)) False (apply_variant_transition (dv_variant d) ls) = headers"
    unfolding headers by (rule mergeCors_definition) simp
  then show ?thesis using assms(1,2,4)
    by (simp add: start_delivery_def deliver_def send_def Let_def)
qed

lemma record_delivered_runtime [simp]:
  "ls_scenario (record_delivered d l) = ls_scenario l" "ls_matchCounts (record_delivered d l) = ls_matchCounts l"
  by (simp_all add: record_delivered_def split: prod.split)

lemma transition_scenario:
  "ls_scenario ls' = ls_scenario ls \<Longrightarrow>
     ls_scenario (apply_variant_transition v ls') = ls_scenario (apply_variant_transition v ls)"
  by (simp add: apply_variant_transition_def split: option.split)

text \<open>C2. A plain request that a route wins is answered exactly once, with the response of the
selected variant and the CORS headers merged in, and reported exactly once: as matched, with that
status, the route and the variant, under the generation at which it arrived (even if the definition
has been replaced since). Its scenario transition is applied after the response was rendered, the
variant's count goes up by one and the slot is free again. The claim is about a server with a
transaction handler and an enabled journal; about a request that can be normalised and reaches the routes
(the client is still there, it is no CORS preflight, carries no mark of proxied traffic and does not ask
for the health of the server); and about a plain delivery: no delay, no fault, and response headers that
Node accepts. Of faulted and delayed deliveries it says nothing.\<close>

theorem matched_request_served:
  assumes "reaches_routes env rc ls"
    and "normalizeRequest (re_host env) (re_now env) (rc_raw rc) = Inr (captured0, summary)"
    and "captured = captured0\<lparr>rq_bodyTruncated := rc_truncated rc\<rparr>"
    and "selected_route env captured ls = Some rt"
    and "plain_delivery env rc captured rt ls"
    and "ls_hasHandler ls" and "js_enabled (ss_journal (ls_settings ls))"
    and "ls' = processRequest env rc ls" and "r = chosen_response env captured rt ls"
    and "v = chosen_variant env captured rt ls"
  shows "ls_sent ls' = ls_sent ls @
      [(rn_status r, mergeCorsHeaders env (rc_raw rc) (rn_headers r) False ls, rn_body r)] \<and>
    (\<exists>tx. ls_transactions ls' = ls_transactions ls @ [tx] \<and> tx_outcome tx = Out_matched \<and>
       tx_matchedRouteId tx = Some (rt_id rt) \<and> (v \<noteq> None \<longrightarrow> tx_matchedResponseId tx = map_option rv_id v) \<and>
       tx_generation tx = rc_generation rc \<and> map_option rs_status (tx_response tx) = Some (rn_status r)) \<and>
    ls_scenario ls' = ls_scenario (apply_variant_transition v ls) \<and>
    ls_matchCounts ls' = count_match v (ls_matchCounts ls) \<and> ls_inFlight ls' = ls_inFlight ls \<and>
    ls_pending ls' = ls_pending ls"
proof -
  obtain result where res: "sl_selectedRouteId result = Some (rt_id rt)"
    "ls' = process_matched env rc captured result rt (ls\<lparr>ls_inFlight := ls_inFlight ls + 1\<rparr>)"
    using selected_route_matched [OF assms(1-4)] assms(8) by metis
  define d where "d = \<lparr>dv_env = env, dv_raw = rc_raw rc, dv_captured = captured, dv_variant = v, dv_rendered = r,
      dv_selection = result, dv_generation = rc_generation rc\<rparr>"
  have d: "dv_variant d = v" "dv_selection d = result" "dv_generation d = rc_generation rc" "dv_rendered d = r"
    "dv_env d = env" "dv_raw d = rc_raw rc" by (simp_all add: d_def)
  define hs where "hs = mergeCorsHeaders env (rc_raw rc) (rn_headers r) False ls"
  obtain positions errors where m: "ls' = start_delivery (re_gone env)
      (dp_totalMs (computeVirtualDelayMs v (lim_maxDelayMs (ss_limits (ls_settings ls))) None (re_jitter env))) d (ls_epoch ls)
      (ls\<lparr>ls_inFlight := ls_inFlight ls + 1, ls_sequence := positions, ls_matchCounts := count_match v (ls_matchCounts ls),
         ls_diagnostics := errors\<rparr>)" (is "_ = start_delivery _ _ _ _ ?ls2")
    using process_matched_delivery [of env rc captured result rt "ls_inFlight ls + 1" ls]
    unfolding assms(9,10) d_def res(2) by blast
  define l where "l = (apply_variant_transition v ?ls2)\<lparr>ls_sent := ls_sent ls @ [(rn_status r, hs, rn_body r)]\<rparr>"
  have plain: "delivery_fault v = Fault_none" "\<not> re_gone env" "re_acceptsHeaders env hs"
    "dp_totalMs (computeVirtualDelayMs v (lim_maxDelayMs (ss_limits (ls_settings ls))) None (re_jitter env)) \<le> 0"
    using assms(1,5,9,10) by (simp_all add: plain_delivery_def reaches_routes_def hs_def)
  have "hs = mergeCorsHeaders env (rc_raw rc) (rn_headers r) False ?ls2"
    unfolding hs_def by (rule mergeCors_definition [symmetric]) simp
  with plain have fl: "ls' = release_slot (ls_epoch ls) (record_delivered d l)"
    using plain_start_delivery [of _ d hs ?ls2] unfolding m l_def d by simp
  have l: "ls_scenario l = ls_scenario (apply_variant_transition v ls)" "ls_transactions l = ls_transactions ls"
    "ls_matchCounts l = count_match v (ls_matchCounts ls)" "ls_inFlight l = ls_inFlight ls + 1" "ls_pending l = ls_pending ls"
    "ls_epoch l = ls_epoch ls" "ls_hasHandler l" "js_enabled (ss_journal (ls_settings l))"
    "ls_sent l = ls_sent ls @ [(rn_status r, hs, rn_body r)]"
    using assms(6,7) transition_scenario [of ?ls2 ls v] by (simp_all add: l_def)
  have "\<exists>tx. ls_transactions (record_delivered d l) = ls_transactions ls @ [tx] \<and> tx_outcome tx = Out_matched \<and>
      tx_matchedRouteId tx = Some (rt_id rt) \<and> (v \<noteq> None \<longrightarrow> tx_matchedResponseId tx = map_option rv_id v) \<and>
      tx_generation tx = rc_generation rc \<and> map_option rs_status (tx_response tx) = Some (rn_status r)"
    using record_delivered_plain [of d l] plain(1) l(7,8) unfolding d l(2) res(1) by blast
  with fl show ?thesis
    by (simp only: release_more record_delivered_sent record_delivered_runtime l hs_def) (simp add: release_slot_def l)
qed

lemma sample_normalized:
  obtains captured summary where "normalizeRequest sample_host ''t'' (rc_raw (sample_received ''/a'')) = Inr (captured, summary)"
    and "rq_path captured = ''/a''" and "rq_method captured = ''GET''" and "rq_bodyTruncated captured = False"
proof -
  obtain captured summary where n: "normalizeRequest sample_host ''t'' (rc_raw (sample_received ''/a'')) = Inr (captured, summary)"
    by (simp add: sample_received_def normalizeRequest_def normalizeHeaders_def parseUrl_def Let_def)
  then have "rq_path captured = ''/a''" "rq_method captured = ''GET''" "rq_bodyTruncated captured = False"
    by (auto simp: sample_received_def normalizeRequest_def normalizeHeaders_def parseUrl_def Let_def js_defs sample_host_def)
  with n that show thesis by blast
qed

lemma sample_selected:
  assumes "rq_path c = ''/a''" and "rq_method c = ''GET''" and "re_host env = sample_host"
  shows "selected_route env c sample_listener = Some (sample_route ''a'' ''/a'')"
proof -
  let ?rt = "sample_route ''a'' ''/a''"
  have a: "accepts sample_host c [] ?rt"
    using assms(1,2) by (simp add: accepts_def sample_defs matchPath_def matchExactPath_def stripBasePath_def
      matchMethod_def normalizePathMatcher_def inferPathKind_def has_glob_char_def text_eq_def js_defs Let_def)
  have "sl_outcome (selectRoute sample_host [?rt] c sample_settings []) = Out_matched \<and>
      sl_selectedRouteId (selectRoute sample_host [?rt] c sample_settings []) = Some ''a''"
    using a selectRoute_matched [of "[?rt]" sample_host c sample_settings "[]"]
      selectRoute_cases [of sample_host c "[]" "[?rt]" sample_settings]
    by (simp add: accepting_def top_accepting_def winner_of_def js_sort_Cons rejected_as_ambiguous_def Let_def)
      (simp add: sample_route_def)
  then show ?thesis
    by (simp add: selected_route_def sample_listener_def new_listener_def sample_definition_def assms(3)
        if_nonempty_def sample_route_def Let_def)
qed

theorem matched_request_served_witness:
  "map fst (ls_sent (processRequest sample_request_env (sample_received ''/a'') sample_listener)) = [200]"
proof -
  let ?ls = "sample_listener" and ?rt = "sample_route ''a'' ''/a''"
  obtain captured summary where n: "normalizeRequest sample_host ''t'' (rc_raw (sample_received ''/a'')) = Inr (captured, summary)"
    and c: "rq_path captured = ''/a''" "rq_method captured = ''GET''" "rq_bodyTruncated captured = False" by (rule sample_normalized)
  let ?c = "captured\<lparr>rq_bodyTruncated := False\<rparr>"
  have s: "selected_route sample_request_env ?c ?ls = Some ?rt"
    using c by (intro sample_selected) (simp_all add: sample_request_env_def)
  have v: "chosen_variant sample_request_env ?c ?rt ?ls = Some (sample_variant ''a-ok'')"
    by (simp add: chosen_variant_def select_variant_def selectResponseForRoute_def selectRulesResponse_def
        resolveEligibleVariant_def isVariantEligible_def enabled_responses_def sample_defs Let_def)
  have d: "plain_delivery sample_request_env (sample_received ''/a'') ?c ?rt ?ls"
    by (simp add: plain_delivery_def v delivery_fault_def computeVirtualDelayMs_def Let_def)
      (simp add: sample_defs sample_request_env_def)
  have "rn_status (chosen_response sample_request_env ?c ?rt ?ls) = 200"
    by (simp add: chosen_response_def v renderResponseVariant_def applyResponseTransforms_def Let_def split: prod.split)
      (simp add: sample_defs)
  moreover have n': "normalizeRequest (re_host sample_request_env) (re_now sample_request_env)
      (rc_raw (sample_received ''/a'')) = Inr (captured, summary)"
    using n by (simp add: sample_request_env_def)
  moreover have c': "?c = captured\<lparr>rq_bodyTruncated := rc_truncated (sample_received ''/a'')\<rparr>"
    and h: "ls_hasHandler ?ls" "js_enabled (ss_journal (ls_settings ?ls))" and e: "ls_sent ?ls = []"
    by (simp_all add: sample_received_def sample_listener_def new_listener_def sample_definition_def sample_settings_def)
  moreover have r: "reaches_routes sample_request_env (sample_received ''/a'') ?ls" by (rule sample_reaches) simp
  ultimately show ?thesis
    using matched_request_served [OF r n' c' s d h refl refl refl, THEN conjunct1] e by simp
qed

end
