(* ===== verification/Simulation.thy ===== *)
theory Simulation
  imports Listener
begin

text \<open>
  The simulation engine (\<open>api-mock/simulation.ts\<close>): it evaluates sample requests against a library of
  routes without sockets or journal, keeping scenario, sequence and match counts in a working context.
  Its contract is to mirror the listener, and the properties are about that: the working context is
  an abstraction of the listener's state, and a simulated sample is a step of the abstraction.

  Clock and random draws are fields of \<open>sim_env\<close>. A frozen clock that is no date makes every expiry
  test false, as comparisons with NaN are.
\<close>

section \<open>Inputs and results\<close>

record sim_env =
  se_host :: js_host
  se_parse_date :: "string \<Rightarrow> int option"
  se_templates :: "nat \<Rightarrow> template_env"
  se_pretty :: "json \<Rightarrow> string"
  se_now :: string \<comment> \<open>\<open>new Date().toISOString()\<close>\<close>
  se_random :: rat

record expectation =
  ex_outcome :: "outcome option"
  ex_routeId :: "string option"
  ex_responseId :: "string option"
  ex_status :: "int option"
  ex_bodyContains :: "string option"
  ex_bodyExact :: "string option"

record simulation_sample =
  sm_id :: string
  sm_request :: captured_request
  sm_expected :: "expectation option"

record working_context =
  wc_scenario :: scenario_state
  wc_sequence :: sequence_state
  wc_counts :: "nat record_bag"

record runtime_context =
  rtc_scenario :: "scenario_state option"
  rtc_sequence :: "sequence_state option"
  rtc_counts :: "nat record_bag option"

record partial_settings =
  ps_selection :: "selection_settings option"
  ps_fallback :: "fallback_settings option"
  ps_proxy :: "proxy_settings option"
  ps_limits :: "limit_settings option"
  ps_journal :: "journal_settings option"
  ps_redaction :: "redaction_settings option"
  ps_cors :: "cors_settings option"

record simulation_input =
  sn_routes :: "route list"
  sn_settings :: "partial_settings option"
  sn_basePath :: "string option"
  sn_generation :: "nat option"
  sn_variables :: "api_variable list option"
  sn_seed :: "string option"
  sn_now :: "string option"
  sn_runtime :: "runtime_context option"
  sn_sequentialBatch :: "bool option"

record simulation_preview =
  pw_responseMode :: "response_mode option"
  pw_selectedResponseId :: "string option"
  pw_selectedResponseName :: "string option"
  pw_eligibilityFallback :: "bool option"
  pw_eligibilityReason :: "ineligible_reason option"
  pw_sequenceIndex :: "nat option"
  pw_virtualDelayMs :: int
  pw_baseDelayMs :: int
  pw_jitterAppliedMs :: int
  pw_fault :: fault_kind
  pw_faultTimeline :: "timeline_step list"
  pw_httpCompleted :: bool
  pw_wireBody :: "string option"
  pw_stateKey :: "string option"
  pw_stateBefore :: "string option"
  pw_stateAfter :: "string option"
  pw_transitionApplied :: "bool option"
  pw_countersAfter :: "counter record_bag option"

record simulation_result =
  sr_sampleId :: string
  sr_generation :: "nat option" \<comment> \<open>\<open>None\<close> is \<open>'draft'\<close>\<close>
  sr_passed :: "bool option"
  sr_outcome :: outcome
  sr_renderedResponse :: "captured_response option"
  sr_preview :: "simulation_preview option"
  sr_trace :: match_explanation

section \<open>Default settings\<close>

definition DEFAULT_AMBIGUITY_RESPONSE :: static_response where
  "DEFAULT_AMBIGUITY_RESPONSE = \<lparr>sr_status = 409, sr_headers = [\<lparr>sh_key = ''Content-Type'', sh_value = ''application/json''\<rparr>],
     sr_body = ''{\"error\":\"ambiguous\",\"requestId\":\"{{requestId}}\",\"competingRules\":{{competingRuleCount}}}'',
     sr_contentType = ''application/json''\<rparr>"

definition DEFAULT_UNMATCHED_RESPONSE :: static_response where
  "DEFAULT_UNMATCHED_RESPONSE = \<lparr>sr_status = 404, sr_headers = [\<lparr>sh_key = ''Content-Type'', sh_value = ''application/json''\<rparr>],
     sr_body = ''{\"error\":\"not_found\",\"requestId\":\"{{requestId}}\"}'', sr_contentType = ''application/json''\<rparr>"

definition DEFAULT_PROXY_SETTINGS :: proxy_settings where
  "DEFAULT_PROXY_SETTINGS = \<lparr>px_enabled = False, px_allowlist = [], px_blockPrivateNetworks = True, px_maxRedirects = 5,
     px_stripHopByHop = True, px_forwardAuth = False, px_forwardCredentialHeaders = [], px_timeoutMs = 10000,
     px_maxResponseBytes = 1048576, px_recordAsDrafts = True\<rparr>"

definition DEFAULT_SETTINGS :: server_settings where
  "DEFAULT_SETTINGS =
     \<lparr>ss_selection = \<lparr>sel_multipleMatchPolicy = Pol_highest_priority, sel_equalPriorityPolicy = Eq_reject,
        sel_ambiguityResponse = DEFAULT_AMBIGUITY_RESPONSE\<rparr>,
      ss_fallback = \<lparr>fb_unmatchedResponse = DEFAULT_UNMATCHED_RESPONSE, fb_mode = Fall_default_response\<rparr>,
      ss_proxy = Some DEFAULT_PROXY_SETTINGS,
      ss_limits = \<lparr>lim_maxInboundBodyBytes = 1048576, lim_maxResponseBodyBytes = 1048576, lim_maxDelayMs = 0,
        lim_longRunningMaxMs = 30000\<rparr>,
      ss_journal = \<lparr>js_enabled = True, js_maxEntries = 500, js_maxCapturedBodyBytes = 262144, js_persistToDisk = False\<rparr>,
      ss_redaction = \<lparr>rd_headerNames = [''authorization'', ''proxy-authorization'', ''cookie'', ''set-cookie'', ''x-api-key'',
          ''api-key'', ''x-auth-token''], rd_jsonPaths = [], rd_preserveScheme = True\<rparr>,
      ss_cors = \<lparr>cors_enabled = False, cors_allowOrigins = [''*''],
        cors_allowMethods = [M_GET, M_HEAD, M_POST, M_PUT, M_PATCH, M_DELETE, M_OPTIONS],
        cors_allowHeaders = [''Content-Type'', ''Authorization'', ''Accept''], cors_allowCredentials = False,
        cors_maxAge = Some 86400, cors_exposeHeaders = []\<rparr>\<rparr>"

definition DEFAULT_BEHAVIOR :: behavior where
  "DEFAULT_BEHAVIOR = \<lparr>bh_delayMs = 0, bh_jitterMs = 0, bh_longRunningMs = None, bh_chunkSchedule = None,
     bh_maxMatches = None, bh_expiresAt = None, bh_fault = None, bh_probability = None\<rparr>"

definition or_else_default :: "'a option \<Rightarrow> 'a \<Rightarrow> 'a" where
  "or_else_default v d = (case v of None \<Rightarrow> d | Some x \<Rightarrow> x)"

definition mergeSettings :: "partial_settings option \<Rightarrow> server_settings" where
  "mergeSettings partial =
     (case partial of
        None \<Rightarrow> DEFAULT_SETTINGS
      | Some p \<Rightarrow>
          \<lparr>ss_selection = or_else_default (ps_selection p) (ss_selection DEFAULT_SETTINGS),
           ss_fallback = or_else_default (ps_fallback p) (ss_fallback DEFAULT_SETTINGS),
           ss_proxy = (case ps_proxy p of None \<Rightarrow> ss_proxy DEFAULT_SETTINGS | Some x \<Rightarrow> Some x),
           ss_limits = or_else_default (ps_limits p) (ss_limits DEFAULT_SETTINGS),
           ss_journal = or_else_default (ps_journal p) (ss_journal DEFAULT_SETTINGS),
           ss_redaction = or_else_default (ps_redaction p) (ss_redaction DEFAULT_SETTINGS),
           ss_cors = or_else_default (ps_cors p) (ss_cors DEFAULT_SETTINGS)\<rparr>)"

section \<open>Selection\<close>

definition hashUnit :: "string \<Rightarrow> rat" where
  "hashUnit seed = of_int (uint (seed_hash seed AND 0x7FFFFFFF)) / 2147483648"

definition cloneRuntime :: "runtime_context option \<Rightarrow> working_context" where
  "cloneRuntime runtime =
     \<lparr>wc_scenario = or_else_default (Option.bind runtime rtc_scenario) createInitialState,
      wc_sequence = or_else_default (Option.bind runtime rtc_sequence) [],
      wc_counts = or_else_default (Option.bind runtime rtc_counts) []\<rparr>"

record preview_selection =
  pv_variant :: "response_variant option"
  pv_fallbackUsed :: bool
  pv_eligibilityReason :: "ineligible_reason option"

definition selectVariantForPreview ::
  "sim_env \<Rightarrow> route \<Rightarrow> captured_request \<Rightarrow> working_context \<Rightarrow> string \<Rightarrow> string \<Rightarrow> string
     \<Rightarrow> preview_selection \<times> sequence_state" where
  "selectVariantForPreview env rt req ctx basePath seed now =
     (case selectResponseForRoute (se_host env) rt req (wc_scenario ctx) (wc_sequence ctx)
             \<lparr>so_basePath = Some basePath, so_stateKey = Some ''default'', so_seed = Some seed\<rparr> (se_random env) of
        (None, positions) \<Rightarrow> (\<lparr>pv_variant = None, pv_fallbackUsed = False, pv_eligibilityReason = None\<rparr>, positions)
      | (Some selected, positions) \<Rightarrow>
          (let parse = (case se_parse_date env now of None \<Rightarrow> (\<lambda>d. None) | Some t \<Rightarrow> se_parse_date env);
               r = resolveEligibleVariant parse rt selected
                 \<lparr>ro_matchCount = int (rec_get_or 0 (wc_counts ctx) (rv_id selected)),
                  ro_now = (case se_parse_date env now of None \<Rightarrow> 0 | Some t \<Rightarrow> t),
                  ro_probabilityRoll = hashUnit (seed @ '':prob''),
                  ro_siblingMatchCount = (\<lambda>i. int (rec_get_or 0 (wc_counts ctx) i)),
                  ro_siblingProbabilityRoll = (\<lambda>i. hashUnit (seed @ '':prob:'' @ i))\<rparr>
           in (\<lparr>pv_variant = Some (rr_variant r), pv_fallbackUsed = rr_fallbackUsed r,
                pv_eligibilityReason = rr_eligibilityReason r\<rparr>, positions)))"

section \<open>Expectations\<close>

definition checkExpectations ::
  "expectation \<Rightarrow> string option \<Rightarrow> string option \<Rightarrow> outcome \<Rightarrow> captured_response option \<Rightarrow> bool" where
  "checkExpectations ex routeId responseId oc rendered =
     (let actualStatus = (case rendered of Some r \<Rightarrow> Some (rs_status r)
            | None \<Rightarrow> if oc = Out_ambiguous then Some 409 else if oc = Out_unmatched then Some 404 else None);
          body = Option.bind rendered rs_body
      in if (case ex_outcome ex of None \<Rightarrow> False | Some x \<Rightarrow> x \<noteq> oc) then False
         else if if_nonempty (ex_routeId ex) \<noteq> None \<and> ex_routeId ex \<noteq> routeId then False
         else if if_nonempty (ex_responseId ex) \<noteq> None \<and> ex_responseId ex \<noteq> responseId then False
         else if ex_status ex \<noteq> None \<and> actualStatus \<noteq> None \<and> actualStatus \<noteq> ex_status ex then False
         else if (case ex_bodyContains ex of None \<Rightarrow> False
                  | Some t \<Rightarrow> (case body of None \<Rightarrow> True | Some b \<Rightarrow> \<not> js_includes b t)) then False
         else if (case ex_bodyExact ex of None \<Rightarrow> False | Some t \<Rightarrow> body \<noteq> Some t) then False
         else True)"

definition staticCaptured :: "int \<Rightarrow> string \<Rightarrow> string \<Rightarrow> nat option \<Rightarrow> captured_response" where
  "staticCaptured status contentType body generation =
     \<lparr>rs_status = status, rs_headers = [(''content-type'', [contentType])], rs_cookies = [], rs_body = Some body,
      rs_bodyTruncated = False, rs_contentType = Some contentType, rs_durationMs = 0,
      rs_generationAtResponse = or_else_default generation 0\<rparr>"

definition emptyPreview :: simulation_preview where
  "emptyPreview =
     \<lparr>pw_responseMode = None, pw_selectedResponseId = None, pw_selectedResponseName = None, pw_eligibilityFallback = None,
      pw_eligibilityReason = None, pw_sequenceIndex = None, pw_virtualDelayMs = 0, pw_baseDelayMs = 0,
      pw_jitterAppliedMs = 0, pw_fault = Fault_none, pw_faultTimeline = [], pw_httpCompleted = True, pw_wireBody = None,
      pw_stateKey = None, pw_stateBefore = None, pw_stateAfter = None, pw_transitionApplied = None, pw_countersAfter = None\<rparr>"

section \<open>One sample\<close>

record matched_simulation =
  ms_outcome :: outcome
  ms_variant :: "response_variant option"
  ms_response :: captured_response
  ms_preview :: simulation_preview
  ms_context :: working_context

definition simulate_matched ::
  "sim_env \<Rightarrow> simulation_input \<Rightarrow> server_settings \<Rightarrow> string \<Rightarrow> string \<Rightarrow> captured_request \<Rightarrow> route \<Rightarrow> working_context
     \<Rightarrow> matched_simulation" where
  "simulate_matched env inp settings seed now req rt ctx =
     (let basePath = or_else_default (sn_basePath inp) [];
          (selection, positions) = selectVariantForPreview env rt req ctx basePath (seed @ '':'' @ rt_id rt @ '':'' @ rq_path req) now;
          variant = pv_variant selection;
          counts = count_match variant (wc_counts ctx);
          rendered = renderResponseVariant (se_host env) (se_templates env) variant req rt basePath (wc_scenario ctx)
            (or_else_default (sn_variables inp) []) (seed @ '':'' @ rt_id rt) (lim_maxResponseBodyBytes (ss_limits settings)) now;
          delay = computeVirtualDelayMs variant (lim_maxDelayMs (ss_limits settings)) (Some (seed @ '':delay'')) (se_random env);
          behavior = (case variant of None \<Rightarrow> DEFAULT_BEHAVIOR | Some v \<Rightarrow> rv_behavior v);
          fv = previewFaultDelivery (se_host env) (Option.bind variant (\<lambda>v. bh_fault (rv_behavior v))) behavior
            (rn_status rendered) (rn_body rendered) (lim_longRunningMaxMs (ss_limits settings));
          (applied, scenario) = (case Option.bind variant rv_transition of
             None \<Rightarrow> (False, wc_scenario ctx)
           | Some tr \<Rightarrow> (case applyTransition (wc_scenario ctx) ''default'' tr of (r, sc) \<Rightarrow> (trr_applied r, sc)));
          headers = toCapturedHeaders (rn_headers rendered);
          enabled = enabled_responses rt;
          sequenceIndex = (if rt_responseMode rt = Mode_sequence then Some (rec_get_or 1 positions (rt_id rt) - 1) else None)
      in \<lparr>ms_outcome = fv_deliveryOutcome fv, ms_variant = variant,
          ms_response =
            \<lparr>rs_status = fv_effectiveStatus fv, rs_headers = headers,
             rs_cookies = (case variant of None \<Rightarrow> [] | Some v \<Rightarrow> rv_cookies v),
             rs_body = (if fv_httpCompleted fv then Some (fv_effectiveBody fv) else None), rs_bodyTruncated = False,
             rs_contentType = Option.bind (rec_get headers ''content-type'') (\<lambda>vs. js_nth vs 0),
             rs_durationMs = dp_totalMs delay, rs_generationAtResponse = or_else_default (sn_generation inp) 0\<rparr>,
          ms_preview =
            \<lparr>pw_responseMode = Some (rt_responseMode rt), pw_selectedResponseId = map_option rv_id variant,
             pw_selectedResponseName = map_option rv_name variant,
             pw_eligibilityFallback = Some (pv_fallbackUsed selection), pw_eligibilityReason = pv_eligibilityReason selection,
             pw_sequenceIndex = (if enabled \<noteq> [] then map_option (\<lambda>i. i mod length enabled) sequenceIndex else sequenceIndex),
             pw_virtualDelayMs = dp_totalMs delay, pw_baseDelayMs = dp_baseMs delay, pw_jitterAppliedMs = dp_jitterMs delay,
             pw_fault = fv_fault fv, pw_faultTimeline = fv_timeline fv, pw_httpCompleted = fv_httpCompleted fv,
             pw_wireBody = Some (fv_wireBody fv), pw_stateKey = Some ''default'',
             pw_stateBefore = Some (slot_text (getState (wc_scenario ctx) ''default'')),
             pw_stateAfter = Some (slot_text (getState scenario ''default'')), pw_transitionApplied = Some applied,
             pw_countersAfter = Some (sc_counters scenario)\<rparr>,
          ms_context = \<lparr>wc_scenario = scenario, wc_sequence = positions, wc_counts = counts\<rparr>\<rparr>)"

text \<open>\<open>closest_match_debug\<close> or the fallback body; a proxy is not simulated.\<close>

definition simulate_unmatched :: "sim_env \<Rightarrow> simulation_input \<Rightarrow> server_settings \<Rightarrow> string \<Rightarrow> match_explanation \<Rightarrow> captured_response" where
  "simulate_unmatched env inp settings sampleId explanation =
     (let fb = fb_unmatchedResponse (ss_fallback settings)
      in if fb_mode (ss_fallback settings) = Fall_closest_match_debug then
           (let debug = buildClosestMatchDebugBody (se_pretty env) explanation fb
            in staticCaptured (sr_status debug) (sr_contentType debug) (sr_body debug) (sn_generation inp))
         else staticCaptured (sr_status fb) (sr_contentType fb) (renderFallbackBody (sr_body fb) sampleId None) (sn_generation inp))"

definition simulateSingle ::
  "sim_env \<Rightarrow> simulation_sample \<Rightarrow> simulation_input \<Rightarrow> working_context option \<Rightarrow> simulation_result \<times> working_context" where
  "simulateSingle env sample inp working =
     (let settings = mergeSettings (sn_settings inp);
          req = sm_request sample;
          result = selectRoute (se_host env) (sn_routes inp) req settings (or_else_default (sn_basePath inp) []);
          ctx = or_else_default working (cloneRuntime (sn_runtime inp));
          seed = or_else_default (sn_seed inp) (rq_receivedAt req @ '':'' @ sm_id sample);
          now = or_else_default (sn_now inp) (se_now env);
          finish = (\<lambda>oc responseId rendered preview ctx'.
            (\<lparr>sr_sampleId = sm_id sample, sr_generation = sn_generation inp,
              sr_passed = map_option (\<lambda>ex. checkExpectations ex (sl_selectedRouteId result) responseId oc rendered) (sm_expected sample),
              sr_outcome = oc, sr_renderedResponse = rendered, sr_preview = preview,
              sr_trace = (sl_explanation result)\<lparr>me_policyDecision :=
                (me_policyDecision (sl_explanation result))\<lparr>pd_selectedResponseId := responseId\<rparr>\<rparr>\<rparr>, ctx'));
          unchanged = (\<lambda>oc rendered preview.
            (\<lparr>sr_sampleId = sm_id sample, sr_generation = sn_generation inp,
              sr_passed = map_option (\<lambda>ex. checkExpectations ex (sl_selectedRouteId result) (sl_selectedResponseId result) oc rendered)
                (sm_expected sample),
              sr_outcome = oc, sr_renderedResponse = rendered, sr_preview = preview, sr_trace = sl_explanation result\<rparr>, ctx))
      in case (if sl_outcome result = Out_matched then if_nonempty (sl_selectedRouteId result) else None) of
           Some rid \<Rightarrow>
             (case find (\<lambda>r. rt_id r = rid) (sn_routes inp) of
                None \<Rightarrow> unchanged (sl_outcome result) None None
              | Some rt \<Rightarrow>
                  (let m = simulate_matched env inp settings seed now req rt ctx
                   in finish (ms_outcome m) (map_option rv_id (ms_variant m)) (Some (ms_response m)) (Some (ms_preview m)) (ms_context m)))
         | None \<Rightarrow>
             (if sl_outcome result = Out_ambiguous then
                (let amb = sel_ambiguityResponse (ss_selection settings);
                     body = renderFallbackBody (sr_body amb) (sm_id sample) (Some (countCompetingRules (Some (sl_explanation result))))
                 in unchanged Out_ambiguous (Some (staticCaptured (sr_status amb) (sr_contentType amb) body (sn_generation inp))) (Some emptyPreview))
              else if sl_outcome result = Out_unmatched then
                unchanged Out_unmatched (Some (simulate_unmatched env inp settings (sm_id sample) (sl_explanation result))) (Some emptyPreview)
              else unchanged (sl_outcome result) None None))"

section \<open>Batches\<close>

fun simulate_in_turn ::
  "(nat \<Rightarrow> sim_env) \<Rightarrow> nat \<Rightarrow> simulation_sample list \<Rightarrow> simulation_input \<Rightarrow> working_context \<Rightarrow> simulation_result list \<times> working_context" where
  "simulate_in_turn envs n [] inp ctx = ([], ctx)"
| "simulate_in_turn envs n (s # ss) inp ctx =
     (case simulateSingle (envs n) s inp (Some ctx) of
        (r, ctx') \<Rightarrow> (case simulate_in_turn envs (Suc n) ss inp ctx' of (rs, ctx'') \<Rightarrow> (r # rs, ctx'')))"

definition simulateBatch :: "(nat \<Rightarrow> sim_env) \<Rightarrow> simulation_sample list \<Rightarrow> simulation_input \<Rightarrow> simulation_result list" where
  "simulateBatch envs samples inp =
     (if sn_sequentialBatch inp = Some False then map (\<lambda>(i, s). fst (simulateSingle (envs i) s inp None)) (enumerate 0 samples)
      else fst (simulate_in_turn envs 0 samples inp (cloneRuntime (sn_runtime inp))))"

section \<open>The simulation mirrors the listener\<close>

text \<open>The abstraction: of a listener's state the simulation keeps scenario, sequence and counts.\<close>

definition runtime_of :: "listener \<Rightarrow> working_context" where
  "runtime_of ls = \<lparr>wc_scenario = ls_scenario ls, wc_sequence = ls_sequence ls, wc_counts = ls_matchCounts ls\<rparr>"

definition settings_of :: "server_settings \<Rightarrow> partial_settings" where
  "settings_of s = \<lparr>ps_selection = Some (ss_selection s), ps_fallback = Some (ss_fallback s), ps_proxy = ss_proxy s,
     ps_limits = Some (ss_limits s), ps_journal = Some (ss_journal s), ps_redaction = Some (ss_redaction s),
     ps_cors = Some (ss_cors s)\<rparr>"

text \<open>The input that describes a listener, with the seed of a request.\<close>

definition mirrors :: "simulation_input \<Rightarrow> captured_request \<Rightarrow> string \<Rightarrow> server_definition \<Rightarrow> bool" where
  "mirrors inp req now d =
     (sn_routes inp = sd_routes d \<and> sn_settings inp = Some (settings_of (sd_settings d)) \<and>
      sn_basePath inp = Some (sd_basePath d) \<and> sn_variables inp = Some (sd_variables d) \<and>
      sn_seed inp = Some (rq_receivedAt req) \<and> sn_now inp = Some now)"

text \<open>Same host and clock, and the probability draws of the request are the seeded ones.\<close>

definition same_draws :: "sim_env \<Rightarrow> request_env \<Rightarrow> captured_request \<Rightarrow> route \<Rightarrow> bool" where
  "same_draws senv env req rt =
     (let seed = response_seed req (rt_id rt) @ '':'' @ rq_path req
      in se_host senv = re_host env \<and> se_parse_date senv = re_parse_date env \<and>
         re_parse_date env (re_now env) = Some (re_nowMs env) \<and> se_templates senv = re_templates env \<and>
         re_probabilityRoll env = hashUnit (seed @ '':prob'') \<and>
         re_siblingRoll env = (\<lambda>i. hashUnit (seed @ '':prob:'' @ i)))"

lemma runtime_of_release [simp]: "runtime_of (release_slot e ls) = runtime_of ls"
  by (simp add: runtime_of_def release_slot_def)

lemma runtime_of_recorded [simp]:
  "runtime_of (recordDelivery env a b c oc f g i j k ls) = runtime_of ls"
  "runtime_of (record_delivered d ls) = runtime_of ls" "runtime_of (server_error ls) = runtime_of ls"
  "runtime_of (ls\<lparr>ls_pending := p\<rparr>) = runtime_of ls" "runtime_of (ls\<lparr>ls_sent := q\<rparr>) = runtime_of ls"
  "runtime_of (ls\<lparr>ls_inFlight := n\<rparr>) = runtime_of ls"
  by (simp_all add: runtime_of_def server_error_def)

lemma runtime_of_send: "send env st hs b ls = (ok, ls') \<Longrightarrow> runtime_of ls' = runtime_of ls"
  by (auto simp: send_def split: if_splits)

lemma runtime_of_static_reply [simp]:
  "(\<And>l. runtime_of (f l) = runtime_of l) \<Longrightarrow> runtime_of (static_reply env raw st hs b f e ls) = runtime_of ls"
  by (auto simp: static_reply_def send_def split: if_splits)

lemma runtime_of_unmatched: "runtime_of (process_unmatched env rc captured result ls) = runtime_of ls"
  by (simp add: process_unmatched_def record_unmatched_def Let_def split: option.split)

lemma runtime_of_ambiguous: "runtime_of (process_ambiguous env rc captured result ls) = runtime_of ls"
  by (simp add: process_ambiguous_def record_unmatched_def Let_def)

text \<open>Without a delay the transition happens at once, whatever becomes of the delivery.\<close>

lemma runtime_of_start_delivery:
  "delayMs \<le> 0 \<Longrightarrow> runtime_of (start_delivery False delayMs d e ls) = runtime_of (apply_variant_transition (dv_variant d) ls)"
  using runtime_of_send
  by (auto simp: start_delivery_def deliver_def Let_def split: prod.splits bool.splits if_splits)

lemma weighted_seeded: "s \<noteq> [] \<Longrightarrow> selectWeightedResponse rt (Some s) x = selectWeightedResponse rt (Some s) y"
  by (simp add: selectWeightedResponse_def Let_def)

lemma select_seeded:
  "s \<noteq> [] \<Longrightarrow> selectResponseForRoute h rt req sc ps \<lparr>so_basePath = b, so_stateKey = k, so_seed = Some s\<rparr> x =
     selectResponseForRoute h rt req sc ps \<lparr>so_basePath = b, so_stateKey = k, so_seed = Some s\<rparr> y"
  using weighted_seeded [of s rt x y] by (simp add: selectResponseForRoute_def split: response_mode.split)

text \<open>Live and simulated selection choose the same variant and move the same cursor.\<close>

lemma same_selection:
  assumes "same_draws senv env req rt"
    and "seed = response_seed req (rt_id rt) @ '':'' @ rq_path req"
  shows "(case selectVariantForPreview senv rt req (runtime_of ls) basePath seed (re_now env) of
      (p, positions) \<Rightarrow> (pv_variant p, positions)) =
    select_variant env rt req basePath seed (ls_scenario ls) (ls_sequence ls) (ls_matchCounts ls)"
proof -
  have "seed \<noteq> []" by (simp add: assms(2) response_seed_def)
  then show ?thesis
    using assms select_seeded [of seed "re_host env" rt req "ls_scenario ls" "ls_sequence ls" "Some basePath" "Some ''default''"
        "se_random senv" "re_weightedRoll env"]
    by (simp add: selectVariantForPreview_def select_variant_def runtime_of_def same_draws_def Let_def
        split: prod.split option.split)
qed

lemma merged_settings [simp]:
  "ss_selection (mergeSettings (Some (settings_of s))) = ss_selection s"
  "ss_fallback (mergeSettings (Some (settings_of s))) = ss_fallback s"
  "ss_limits (mergeSettings (Some (settings_of s))) = ss_limits s"
  by (simp_all add: mergeSettings_def settings_of_def or_else_default_def)

lemma selectRoute_settings: "ss_selection s = ss_selection s' \<Longrightarrow> selectRoute h rs req s b = selectRoute h rs req s' b"
  by (simp only: selectRoute_def buildResult_def)

text \<open>The matched branch of a sample and of a request, from the same state.\<close>

lemma simulate_matched_runtime:
  assumes "same_draws senv env captured rt" and "mirrors inp captured (re_now env) (ls_definition ls)"
    and "settings = mergeSettings (sn_settings inp)" and "\<not> re_gone env"
    and "dp_totalMs (computeVirtualDelayMs (chosen_variant env captured rt ls) (lim_maxDelayMs (ss_limits (ls_settings ls))) None (re_jitter env)) \<le> 0"
  shows "ms_context (simulate_matched senv inp settings (rq_receivedAt captured) (re_now env) captured rt (runtime_of ls)) =
      runtime_of (process_matched env rc captured result rt (ls\<lparr>ls_inFlight := n\<rparr>))"
    and "ms_variant (simulate_matched senv inp settings (rq_receivedAt captured) (re_now env) captured rt (runtime_of ls)) =
      chosen_variant env captured rt ls"
proof -
  let ?seed = "response_seed captured (rt_id rt) @ '':'' @ rq_path captured"
  have seed: "rq_receivedAt captured @ '':'' @ rt_id rt @ '':'' @ rq_path captured = ?seed"
    by (simp add: response_seed_def)
  obtain v positions where v: "select_variant env rt captured (ls_basePath ls) ?seed (ls_scenario ls) (ls_sequence ls) (ls_matchCounts ls) = (v, positions)"
    by fastforce
  obtain p where p: "selectVariantForPreview senv rt captured (runtime_of ls) (ls_basePath ls) ?seed (re_now env) = (p, positions)" "pv_variant p = v"
    using same_selection [OF assms(1) refl, of ls "ls_basePath ls"] v by (auto split: prod.splits)
  have c: "chosen_variant env captured rt ls = v" unfolding chosen_variant_def v by simp
  have b: "or_else_default (sn_basePath inp) [] = ls_basePath ls"
    using assms(2) by (simp add: mirrors_def or_else_default_def)
  let ?sim = "simulate_matched senv inp settings (rq_receivedAt captured) (re_now env) captured rt (runtime_of ls)"
  show "ms_variant ?sim = chosen_variant env captured rt ls"
    unfolding simulate_matched_def b seed Let_def p(1) prod.case by (simp add: p(2) c split: prod.split)
  have "ms_context ?sim = \<lparr>wc_scenario = (case Option.bind v rv_transition of None \<Rightarrow> ls_scenario ls
          | Some tr \<Rightarrow> snd (applyTransition (ls_scenario ls) ''default'' tr)),
        wc_sequence = positions, wc_counts = count_match v (ls_matchCounts ls)\<rparr>"
    unfolding simulate_matched_def b seed Let_def p(1) prod.case
    by (simp add: p(2) split: prod.split option.split) (simp add: runtime_of_def)
  also have "\<dots> = runtime_of (process_matched env rc captured result rt (ls\<lparr>ls_inFlight := n\<rparr>))"
    using assms(4,5) c
    unfolding process_matched_def Let_def
    by (simp add: v [simplified] runtime_of_start_delivery)
      (simp add: runtime_of_def apply_variant_transition_def split: option.split)
  finally show "ms_context ?sim = runtime_of (process_matched env rc captured result rt (ls\<lparr>ls_inFlight := n\<rparr>))" .
qed

text \<open>C3. The simulation tracks the listener: from the listener's scenario, sequence and
counts, a sample of the same request ends with the scenario, sequence and counts the listener has
after serving it, whether the request is matched, ambiguous or unmatched, provided that its response
is not delayed, and that seed, clock and probability draws agree.\<close>

theorem simulation_tracks_listener:
  assumes "reaches_routes env rc ls"
    and "normalizeRequest (re_host env) (re_now env) (rc_raw rc) = Inr (captured0, summary)"
    and "captured = captured0\<lparr>rq_bodyTruncated := rc_truncated rc\<rparr>"
    and "mirrors inp captured (re_now env) (ls_definition ls)" and "sm_request sample = captured" and "se_host senv = re_host env"
    and "\<And>rt. selected_route env captured ls = Some rt \<Longrightarrow> same_draws senv env captured rt \<and>
      dp_totalMs (computeVirtualDelayMs (chosen_variant env captured rt ls) (lim_maxDelayMs (ss_limits (ls_settings ls))) None (re_jitter env)) \<le> 0"
  shows "snd (simulateSingle senv sample inp (Some (runtime_of ls))) = runtime_of (processRequest env rc ls)"
proof -
  let ?result = "selectRoute (re_host env) (sd_routes (ls_definition ls)) captured (ls_settings ls) (ls_basePath ls)"
  have m: "sn_routes inp = sd_routes (ls_definition ls)" "sn_settings inp = Some (settings_of (ls_settings ls))"
    "sn_basePath inp = Some (ls_basePath ls)" "sn_seed inp = Some (rq_receivedAt captured)" "sn_now inp = Some (re_now env)"
    using assms(4) by (simp_all add: mirrors_def)
  have r: "selectRoute (se_host senv) (sn_routes inp) captured (mergeSettings (sn_settings inp)) (or_else_default (sn_basePath inp) []) = ?result"
    unfolding m assms(6) by (simp add: or_else_default_def) (rule selectRoute_settings, simp)
  have listener: "runtime_of (processRequest env rc ls) =
      (case selected_route env captured ls of
         None \<Rightarrow> runtime_of ls
       | Some rt \<Rightarrow> runtime_of (process_matched env rc captured ?result rt (ls\<lparr>ls_inFlight := ls_inFlight ls + 1\<rparr>)))"
    unfolding processRequest_reaches [OF assms(1,2)] assms(3) [symmetric]
    by (simp add: process_captured_def selected_route_def runtime_of_unmatched runtime_of_ambiguous Let_def split: option.split)
  have simulated: "snd (simulateSingle senv sample inp (Some (runtime_of ls))) =
      (case selected_route env captured ls of
         None \<Rightarrow> runtime_of ls
       | Some rt \<Rightarrow> ms_context (simulate_matched senv inp (mergeSettings (sn_settings inp)) (rq_receivedAt captured) (re_now env)
           captured rt (runtime_of ls)))"
    unfolding simulateSingle_def Let_def assms(5) r
    by (simp add: m or_else_default_def selected_route_def Let_def split: option.split)
  show ?thesis
  proof (cases "selected_route env captured ls")
    case None
    then show ?thesis using listener simulated by simp
  next
    case (Some rt)
    have "\<not> re_gone env" using assms(1) by (simp add: reaches_routes_def)
    with Some listener simulated assms(7) [OF Some] simulate_matched_runtime(1) [OF _ assms(4) refl]
    show ?thesis by simp
  qed
qed

section \<open>The simulated response\<close>

lemma fault_result_previewed:
  "fault_result (delivery_fault v) st body =
     (let p = previewFaultDelivery h (Option.bind v (\<lambda>v. bh_fault (rv_behavior v)))
            (case v of None \<Rightarrow> DEFAULT_BEHAVIOR | Some v \<Rightarrow> rv_behavior v) st body cap
      in (fv_deliveryOutcome p, fv_effectiveStatus p, fv_effectiveBody p)) \<and>
   fv_httpCompleted (previewFaultDelivery h (Option.bind v (\<lambda>v. bh_fault (rv_behavior v)))
            (case v of None \<Rightarrow> DEFAULT_BEHAVIOR | Some v \<Rightarrow> rv_behavior v) st body cap) =
     (delivery_fault v \<in> {Fault_none, Fault_dribble})"
proof (cases "delivery_fault v")
  case Fault_dribble
  then show ?thesis
    by (cases v) (auto simp: delivery_fault_def fault_result_def previewFaultDelivery_def Let_def split: option.splits prod.split)
qed (cases v; auto simp: delivery_fault_def fault_result_def previewFaultDelivery_def broken_delivery_def Let_def split: option.splits)+

text \<open>What the variant of a request renders to before its transforms.\<close>

definition rendered_variant_of :: "request_env \<Rightarrow> captured_request \<Rightarrow> route \<Rightarrow> listener \<Rightarrow> rendered_variant" where
  "rendered_variant_of env captured rt ls =
     renderResponseVariant (re_host env) (re_templates env) (chosen_variant env captured rt ls) captured rt (ls_basePath ls)
       (ls_scenario ls) (sd_variables (ls_definition ls)) (response_seed captured (rt_id rt))
       (lim_maxResponseBodyBytes (ss_limits (ls_settings ls))) (re_now env)"

lemma no_transforms:
  "\<forall>v. chosen_variant env captured rt ls = Some v \<longrightarrow> filter tf_enabled (rv_transforms v) = [] \<Longrightarrow>
     chosen_response env captured rt ls = rendered_variant_of env captured rt ls"
proof -
  assume a: "\<forall>v. chosen_variant env captured rt ls = Some v \<longrightarrow> filter tf_enabled (rv_transforms v) = []"
  have "tx_rendered (applyResponseTransforms None r rules) = r" if "filter tf_enabled rules = []" for r rules
    using that by (induction rules) (auto simp: applyResponseTransforms_def apply_transform_def split: if_splits)
  with a show ?thesis by (auto simp: chosen_response_def rendered_variant_of_def applyResponseTransforms_def split: option.split)
qed

lemma simulate_matched_response:
  assumes "same_draws senv env captured rt" and "mirrors inp captured (re_now env) (ls_definition ls)"
    and "settings = mergeSettings (sn_settings inp)"
    and "m = simulate_matched senv inp settings (rq_receivedAt captured) (re_now env) captured rt (runtime_of ls)"
    and "r = rendered_variant_of env captured rt ls" and "v = chosen_variant env captured rt ls"
    and "fault_result (delivery_fault v) (rn_status r) (rn_body r) = (oc, status, body)"
  shows "ms_outcome m = oc \<and> rs_status (ms_response m) = status \<and>
    rs_headers (ms_response m) = toCapturedHeaders (rn_headers r) \<and> 
    rs_body (ms_response m) = (if delivery_fault v \<in> {Fault_none, Fault_dribble} then Some body else None)"
proof -
  let ?seed = "response_seed captured (rt_id rt) @ '':'' @ rq_path captured"
  have seed: "rq_receivedAt captured @ '':'' @ rt_id rt @ '':'' @ rq_path captured = ?seed"
    and seed': "rq_receivedAt captured @ '':'' @ rt_id rt = response_seed captured (rt_id rt)"
    by (simp_all add: response_seed_def)
  obtain p positions where p: "selectVariantForPreview senv rt captured (runtime_of ls) (ls_basePath ls) ?seed (re_now env) = (p, positions)" "pv_variant p = v"
    using same_selection [OF assms(1) refl, of ls "ls_basePath ls"] unfolding assms(6) chosen_variant_def
    by (cases "select_variant env rt captured (ls_basePath ls) ?seed (ls_scenario ls) (ls_sequence ls) (ls_matchCounts ls)")
      (auto split: prod.splits)
  have b: "or_else_default (sn_basePath inp) [] = ls_basePath ls" "or_else_default (sn_variables inp) [] = sd_variables (ls_definition ls)"
    "ss_limits settings = ss_limits (ls_settings ls)" "wc_scenario (runtime_of ls) = ls_scenario ls"
    using assms(2,3) by (simp_all add: mirrors_def or_else_default_def runtime_of_def)
  have h: "se_host senv = re_host env" "se_templates senv = re_templates env"
    using assms(1) by (simp_all add: same_draws_def Let_def)
  have r: "renderResponseVariant (re_host env) (re_templates env) v captured rt (ls_basePath ls) (ls_scenario ls)
      (sd_variables (ls_definition ls)) (response_seed captured (rt_id rt)) (lim_maxResponseBodyBytes (ss_limits (ls_settings ls)))
      (re_now env) = r"
    by (simp add: assms(5,6) rendered_variant_of_def)
  show ?thesis
    unfolding assms(4) simulate_matched_def b h seed seed' Let_def p(1) prod.case p(2) r
    using fault_result_previewed [of v "rn_status r" "rn_body r" "re_host env" "lim_longRunningMaxMs (ss_limits (ls_settings ls))"]
    by (simp add: assms(7) Let_def split: prod.split)
qed

text \<open>The simulated response of a matched request is the live one: the outcome and the
status are those the transaction of the listener's delivery records, with the same headers and body
for every fault, rendered from the same variant. The one difference is the response transforms, which
the simulation leaves out.\<close>

theorem simulated_response_is_live:
  assumes "mirrors inp captured (re_now env) (ls_definition ls)" and "sm_request sample = captured" and "se_host senv = re_host env"
    and "selected_route env captured ls = Some rt" and "same_draws senv env captured rt"
    and "result = fst (simulateSingle senv sample inp (Some (runtime_of ls)))"
    and "r = rendered_variant_of env captured rt ls" and "v = chosen_variant env captured rt ls"
    and "fault_result (delivery_fault v) (rn_status r) (rn_body r) = (oc, status, body)"
  shows "sr_outcome result = oc \<and> (\<exists>resp. sr_renderedResponse result = Some resp \<and> rs_status resp = status \<and>
      rs_headers resp = toCapturedHeaders (rn_headers r) \<and> 
      rs_body resp = (if delivery_fault v \<in> {Fault_none, Fault_dribble} then Some body else None)) \<and>
    ((\<forall>w. v = Some w \<longrightarrow> filter tf_enabled (rv_transforms w) = []) \<longrightarrow> chosen_response env captured rt ls = r)"
proof -
  let ?m = "simulate_matched senv inp (mergeSettings (sn_settings inp)) (rq_receivedAt captured) (re_now env) captured rt (runtime_of ls)"
  have m: "sn_routes inp = sd_routes (ls_definition ls)" "sn_settings inp = Some (settings_of (ls_settings ls))"
    "sn_basePath inp = Some (ls_basePath ls)" "sn_seed inp = Some (rq_receivedAt captured)" "sn_now inp = Some (re_now env)"
    using assms(1) by (simp_all add: mirrors_def)
  have s: "selectRoute (se_host senv) (sn_routes inp) captured (mergeSettings (sn_settings inp)) (or_else_default (sn_basePath inp) []) =
      selectRoute (re_host env) (sd_routes (ls_definition ls)) captured (ls_settings ls) (ls_basePath ls)"
    unfolding m assms(3) by (simp add: or_else_default_def) (rule selectRoute_settings, simp)
  obtain rid where rid: "sl_outcome (selectRoute (re_host env) (sd_routes (ls_definition ls)) captured (ls_settings ls) (ls_basePath ls)) = Out_matched"
      "if_nonempty (sl_selectedRouteId (selectRoute (re_host env) (sd_routes (ls_definition ls)) captured (ls_settings ls) (ls_basePath ls))) = Some rid"
      "find (\<lambda>r. rt_id r = rid) (sd_routes (ls_definition ls)) = Some rt"
    using assms(4) by (auto simp: selected_route_def Let_def split: if_splits option.splits)
  have "sr_outcome result = ms_outcome ?m \<and> sr_renderedResponse result = Some (ms_response ?m)"
    unfolding assms(6) simulateSingle_def Let_def assms(2) s by (simp add: m or_else_default_def rid)
  with simulate_matched_response [OF assms(5,1) refl refl assms(7,8,9)] no_transforms [of env captured rt ls] show ?thesis
    unfolding assms(7,8) by blast
qed

section \<open>A concrete sample\<close>

definition seeded_env :: "captured_request \<Rightarrow> request_env" where
  "seeded_env captured = (let seed = response_seed captured ''a'' @ '':'' @ rq_path captured
     in sample_request_env\<lparr>re_parse_date := (\<lambda>d. Some 0), re_probabilityRoll := hashUnit (seed @ '':prob''),
          re_siblingRoll := (\<lambda>i. hashUnit (seed @ '':prob:'' @ i))\<rparr>)"

definition seeded_sim_env :: sim_env where
  "seeded_sim_env = \<lparr>se_host = sample_host, se_parse_date = (\<lambda>d. Some 0), se_templates = (\<lambda>n. sample_template_env),
     se_pretty = (\<lambda>v. []), se_now = ''t'', se_random = 0\<rparr>"

definition sample_input_of :: "captured_request \<Rightarrow> simulation_input" where
  "sample_input_of captured = \<lparr>sn_routes = sd_routes sample_definition, sn_settings = Some (settings_of sample_settings),
     sn_basePath = Some [], sn_generation = None, sn_variables = Some [], sn_seed = Some (rq_receivedAt captured),
     sn_now = Some ''t'', sn_runtime = None, sn_sequentialBatch = None\<rparr>"

lemma seeded_env_fields [simp]:
  "re_host (seeded_env c) = sample_host" "re_now (seeded_env c) = ''t''" "re_jitter (seeded_env c) = 0"
  by (simp_all add: seeded_env_def sample_request_env_def Let_def)

lemma seeded_mirrors: "mirrors (sample_input_of c) c ''t'' (ls_definition sample_listener)"
  by (simp add: mirrors_def sample_input_of_def sample_listener_def new_listener_def sample_definition_def)

lemma seeded_draws: "same_draws seeded_sim_env (seeded_env c) c (sample_route ''a'' ''/a'')"
  by (simp add: same_draws_def seeded_sim_env_def seeded_env_def sample_request_env_def sample_route_def Let_def)

lemma seeded_selected: "selected_route (seeded_env c) c sample_listener = Some rt \<Longrightarrow> rt = sample_route ''a'' ''/a''"
  by (auto simp: selected_route_def sample_listener_def new_listener_def sample_definition_def Let_def
      split: if_splits option.splits)

lemma seeded_variant:
  "chosen_variant (seeded_env c) c (sample_route ''a'' ''/a'') sample_listener = Some (sample_variant ''a-ok'')"
  by (simp add: chosen_variant_def select_variant_def selectResponseForRoute_def selectRulesResponse_def
      resolveEligibleVariant_def isVariantEligible_def enabled_responses_def sample_defs Let_def)

lemma seeded_reaches: "reaches_routes (seeded_env c) (sample_received ''/a'') sample_listener"
  using sample_reaches [of "''/a''"]
  by (simp add: reaches_routes_def seeded_env_def health_reply_def Let_def split: if_splits)

theorem simulation_tracks_listener_witness:
  "\<exists>c sample. snd (simulateSingle seeded_sim_env sample (sample_input_of c) (Some (runtime_of sample_listener))) =
     runtime_of (processRequest (seeded_env c) (sample_received ''/a'') sample_listener)"
proof -
  obtain captured summary where n: "normalizeRequest sample_host ''t'' (rc_raw (sample_received ''/a'')) = Inr (captured, summary)"
    by (rule sample_normalized)
  let ?c = "captured\<lparr>rq_bodyTruncated := rc_truncated (sample_received ''/a'')\<rparr>"
  let ?s = "\<lparr>sm_id = ''s1'', sm_request = ?c, sm_expected = None\<rparr>"
  have n': "normalizeRequest (re_host (seeded_env ?c)) (re_now (seeded_env ?c)) (rc_raw (sample_received ''/a'')) = Inr (captured, summary)"
    using n by simp
  have d: "same_draws seeded_sim_env (seeded_env ?c) ?c rt \<and>
      dp_totalMs (computeVirtualDelayMs (chosen_variant (seeded_env ?c) ?c rt sample_listener)
        (lim_maxDelayMs (ss_limits (ls_settings sample_listener))) None (re_jitter (seeded_env ?c))) \<le> 0"
    if "selected_route (seeded_env ?c) ?c sample_listener = Some rt" for rt
    unfolding seeded_selected [OF that] seeded_variant using seeded_draws [of ?c]
    by (simp add: computeVirtualDelayMs_def Let_def) (simp add: sample_defs)
  have "snd (simulateSingle seeded_sim_env ?s (sample_input_of ?c) (Some (runtime_of sample_listener))) =
      runtime_of (processRequest (seeded_env ?c) (sample_received ''/a'') sample_listener)"
    by (rule simulation_tracks_listener [OF seeded_reaches n' refl _ _ _ d])
      (simp_all add: seeded_mirrors seeded_sim_env_def)
  then show ?thesis by blast
qed

theorem simulated_response_is_live_witness:
  "\<exists>c sample resp. sr_renderedResponse (fst (simulateSingle seeded_sim_env sample (sample_input_of c) (Some (runtime_of sample_listener)))) =
     Some resp \<and> rs_status resp = 200"
proof -
  let ?rt = "sample_route ''a'' ''/a''"
  obtain c summary where c: "normalizeRequest sample_host ''t'' (rc_raw (sample_received ''/a'')) = Inr (c, summary)"
    "rq_path c = ''/a''" "rq_method c = ''GET''" "rq_bodyTruncated c = False" by (rule sample_normalized)
  let ?s = "\<lparr>sm_id = ''s1'', sm_request = c, sm_expected = None\<rparr>"
  have s: "selected_route (seeded_env c) c sample_listener = Some ?rt" using sample_selected [OF c(2,3)] by simp
  define r where "r = rendered_variant_of (seeded_env c) c ?rt sample_listener"
  have 200: "rn_status r = 200"
    by (simp add: r_def rendered_variant_of_def seeded_variant renderResponseVariant_def Let_def split: prod.split)
      (simp add: sample_defs)
  have f: "fault_result (delivery_fault (Some (sample_variant ''a-ok''))) (rn_status r) (rn_body r) = (Out_matched, rn_status r, rn_body r)"
    by (simp add: delivery_fault_def fault_result_def sample_defs)
  have m: "mirrors (sample_input_of c) c (re_now (seeded_env c)) (ls_definition sample_listener)" using seeded_mirrors [of c] by simp
  have h: "se_host seeded_sim_env = re_host (seeded_env c)" by (simp add: seeded_sim_env_def)
  have q: "sm_request ?s = c" by simp
  from simulated_response_is_live [OF m q h s seeded_draws refl r_def seeded_variant [symmetric] f] 200
  show ?thesis by metis
qed

end
