(* ===== verification/Recording.thy ===== *)
theory Recording
  imports Simulation
begin

text \<open>
  From a captured exchange to a route: the source-to-rule converter that every import uses
  (\<open>api-mock/sourceToRule.ts\<close>), and the recording of proxied exchanges as inactive drafts with their
  redaction and merge into a library (\<open>api-mock/proxyRecording.ts\<close>).

  Identifiers are draws \<open>uuid n\<close>, numbered in the order in which they are made, and the clock is an
  argument. The arrow in a fingerprint is written \<open>->\<close>. Fields that no other part reads (creation and
  update times, folders, the digest kept for HAR sources, the import label) are left out.
\<close>

section \<open>Sources and results\<close>

record source_scenario =
  ssc_name :: "string option"
  ssc_requiredState :: "string option"
  ssc_newState :: "string option"

record source_request =
  sq_method :: string
  sq_path :: string
  sq_headers :: "string record_bag option"
  sq_query :: "string record_bag option"
  sq_cookies :: "string record_bag option"
  sq_body :: "string option"
  sq_contentType :: "string option"
  sq_responseBody :: "string option"
  sq_responseContentType :: "string option"
  sq_priority :: "int option"
  sq_status :: "int option"
  sq_delayMs :: "int option"
  sq_fault :: "fault_kind option"
  sq_scenario :: "source_scenario option"
  sq_predicates :: "predicate list option"

record conversion_options =
  co_defaultPriority :: "int option"
  co_defaultStatus :: "int option"
  co_defaultResponseBody :: "string option"
  co_defaultResponseContentType :: "string option"

record import_diagnostic =
  id_code :: string
  id_severity :: severity
  id_path :: string
  id_message :: string

record conversion =
  cn_route :: route
  cn_sample :: simulation_sample
  cn_diagnostics :: "import_diagnostic list"

record conversion_env =
  ce_host :: js_host
  ce_uuid :: "nat \<Rightarrow> string"
  ce_clock :: string

section \<open>The converter\<close>

definition METHODS :: "mock_method list" where
  "METHODS = [M_ANY, M_GET, M_HEAD, M_POST, M_PUT, M_PATCH, M_DELETE, M_OPTIONS, M_TRACE]"

definition normalizeMethod :: "string \<Rightarrow> mock_method \<times> import_diagnostic list" where
  "normalizeMethod m =
     (case find (\<lambda>x. method_name x = js_upper m) METHODS of
        Some x \<Rightarrow> (x, [])
      | None \<Rightarrow> (M_GET, [\<lparr>id_code = ''AMS-IMPORT-UNSUPPORTED-FIELD'', id_severity = Sev_warning, id_path = ''/method'',
                    id_message = ''Unknown HTTP method \"'' @ m @ ''\", defaulting to GET''\<rparr>]))"

definition unmatched_headers :: "string list" where
  "unmatched_headers = [''cookie'', ''host'', ''user-agent'', ''content-length'']"

definition import_predicate :: "string \<Rightarrow> predicate_source \<Rightarrow> string option \<Rightarrow> predicate_operator \<Rightarrow> json \<Rightarrow> predicate" where
  "import_predicate uuid src sel operator expected =
     \<lparr>p_id = ''pred-'' @ take 6 uuid, p_source = src, p_selector = sel, p_operator = operator, p_expected = Some expected,
      p_options = None\<rparr>"

definition header_rules :: "string record_bag \<Rightarrow> (string \<times> string) list" where
  "header_rules hs = filter (\<lambda>(k, v). k \<notin> set unmatched_headers) (map (\<lambda>(k, v). (js_lower k, v)) hs)"

definition body_rule :: "js_host \<Rightarrow> string \<Rightarrow> source_request \<Rightarrow> predicate list \<times> import_diagnostic list" where
  "body_rule h uuid inp =
     (case (if_nonempty (sq_body inp), sq_contentType inp) of
        (Some body, Some ct) \<Rightarrow>
          (if js_includes ct ''json'' then
             (case json_parse h body of
                Some parsed \<Rightarrow>
                  ([(import_predicate uuid Src_body None Op_json_subset parsed)
                      \<lparr>p_options := Some \<lparr>opt_caseSensitive = None, opt_negate = None, opt_matchStyle = Some Style_subset\<rparr>\<rparr>], [])
              | None \<Rightarrow>
                  ([import_predicate uuid Src_body None Op_exact (JStr body)],
                   [\<lparr>id_code = ''AMS-IMPORT-LOSS'', id_severity = Sev_warning, id_path = ''/body'',
                     id_message = ''Request body is not valid JSON; stored as exact text match''\<rparr>]))
           else ([], []))
      | _ \<Rightarrow> ([], []))"

definition buildPredicates :: "conversion_env \<Rightarrow> source_request \<Rightarrow> predicate_group \<times> import_diagnostic list" where
  "buildPredicates env inp =
     (let headers = header_rules (or_else_default (sq_headers inp) []);
          query = or_else_default (sq_query inp) [];
          rules = map (\<lambda>(k, v). (Src_header, k, v)) headers @ map (\<lambda>(k, v). (Src_query, k, v)) query;
          exact = map (\<lambda>(i, src, k, v). import_predicate (ce_uuid env i) src (Some k) Op_exact (JStr v)) (enumerate 3 rules);
          (body, diagnostics) = body_rule (ce_host env) (ce_uuid env (3 + length rules)) inp;
          own = or_else_default (sq_predicates inp) []
      in (PGroup (''pg-'' @ take 6 (ce_uuid env (3 + length rules + length body))) Comb_all
            (map PLeaf (exact @ body @ own)), diagnostics))"

definition createDefaultResponse :: "string \<Rightarrow> response_variant" where
  "createDefaultResponse i =
     \<lparr>rv_id = i, rv_name = ''200 Default'', rv_enabled = True, rv_isDefault = True, rv_conditions = None, rv_weight = None,
      rv_status = 200, rv_headers = [], rv_cookies = [],
      rv_body = \<lparr>rb_kind = Body_none, rb_content = [], rb_contentType = None\<rparr>, rv_behavior = DEFAULT_BEHAVIOR,
      rv_transition = None, rv_transforms = []\<rparr>"

definition scenario_transition :: "source_scenario option \<Rightarrow> state_transition option" where
  "scenario_transition sc =
     (case sc of
        None \<Rightarrow> None
      | Some s \<Rightarrow>
          (if if_nonempty (ssc_newState s) = None \<and> if_nonempty (ssc_requiredState s) = None then None
           else Some \<lparr>tr_currentState = ssc_requiredState s,
             tr_targetState = (case if_nonempty (ssc_newState s) of Some n \<Rightarrow> n
               | None \<Rightarrow> (case if_nonempty (ssc_requiredState s) of Some q \<Rightarrow> q | None \<Rightarrow> ''Started'')),
             tr_counterUpdates = None\<rparr>))"

definition import_response :: "string \<Rightarrow> source_request \<Rightarrow> conversion_options \<Rightarrow> response_variant" where
  "import_response i inp opts =
     (let base = createDefaultResponse i;
          content = (case co_defaultResponseBody opts of Some b \<Rightarrow> b | None \<Rightarrow> or_else_default (sq_responseBody inp) []);
          contentType = (case co_defaultResponseContentType opts of Some t \<Rightarrow> t
            | None \<Rightarrow> or_else_default (sq_responseContentType inp) ''application/json'')
      in base\<lparr>
        rv_status := (case sq_status inp of Some st \<Rightarrow> st | None \<Rightarrow> or_else_default (co_defaultStatus opts) 200),
        rv_body := \<lparr>rb_kind = (if js_includes contentType ''json'' then Body_json else Body_text), rb_content = content,
          rb_contentType = Some contentType\<rparr>,
        rv_behavior := (rv_behavior base)\<lparr>bh_delayMs := or_else_default (sq_delayMs inp) (bh_delayMs (rv_behavior base)),
          bh_fault := (if sq_fault inp = Some Fault_none then None else sq_fault inp)\<rparr>,
        rv_transition := scenario_transition (sq_scenario inp)\<rparr>)"

definition scenario_tags :: "source_scenario option \<Rightarrow> string list" where
  "scenario_tags sc =
     (case sc of None \<Rightarrow> []
      | Some s \<Rightarrow>
          (let tag = (\<lambda>label v. case if_nonempty v of None \<Rightarrow> [] | Some x \<Rightarrow> [label @ x])
           in tag ''scenario:'' (ssc_name s) @ tag ''scenario-required:'' (ssc_requiredState s) @ tag ''scenario-new:'' (ssc_newState s)))"

text \<open>\<open>URLSearchParams\<close>: form encoding of UTF-8.\<close>

definition hex_digit :: "nat \<Rightarrow> char" where
  "hex_digit n = ''0123456789ABCDEF'' ! (n mod 16)"

definition form_unit :: "char \<Rightarrow> string" where
  "form_unit c =
     (let n = (of_char c :: nat); byte = (\<lambda>b. [CHR ''%'', hex_digit (b div 16), hex_digit b])
      in if js_is_word c \<or> c \<in> set ''*-.'' then [c]
         else if c = CHR '' '' then ''+''
         else if n < 128 then byte n
         else byte (192 + n div 64) @ byte (128 + n mod 64))"

definition search_params :: "string record_bag \<Rightarrow> string" where
  "search_params q = js_join ''&'' (map (\<lambda>(k, v). concat (map form_unit k) @ ''='' @ concat (map form_unit v)) q)"

definition from_entries :: "('k \<times> 'v) list \<Rightarrow> ('k \<times> 'v) list" where
  "from_entries es = foldl (\<lambda>out (k, v). rec_set out k v) [] es"

definition source_capture :: "conversion_env \<Rightarrow> mock_method \<Rightarrow> source_request \<Rightarrow> captured_request" where
  "source_capture env m inp =
     \<lparr>rq_method = method_name m, rq_path = sq_path inp,
      rq_rawPath = sq_path inp @ (case sq_query inp of None \<Rightarrow> [] | Some q \<Rightarrow> ''?'' @ search_params q),
      rq_query = from_entries (map (\<lambda>(k, v). (k, [v])) (or_else_default (sq_query inp) [])),
      rq_headers = from_entries (map (\<lambda>(k, v). (js_lower k, [v])) (or_else_default (sq_headers inp) [])),
      rq_cookies = or_else_default (sq_cookies inp) [], rq_body = sq_body inp, rq_bodyTruncated = False,
      rq_contentType = None, rq_contentLength = None, rq_remoteAddress = None, rq_receivedAt = ce_clock env,
      rq_clientCertSubject = None, rq_clientCertFingerprint = None\<rparr>"

definition convertSourceToRule :: "conversion_env \<Rightarrow> source_request \<Rightarrow> conversion_options \<Rightarrow> conversion" where
  "convertSourceToRule env inp opts =
     (let routeId = ''route-'' @ take 8 (ce_uuid env 0);
          sampleId = ''sample-'' @ take 8 (ce_uuid env 1);
          respId = ''resp-'' @ take 8 (ce_uuid env 2);
          (m, methodDiagnostics) = normalizeMethod (sq_method inp);
          (predicates, predicateDiagnostics) = buildPredicates env inp;
          name = method_name m @ '' '' @ sq_path inp
      in \<lparr>cn_route =
            \<lparr>rt_id = routeId,
             rt_name = (case if_nonempty (Option.bind (sq_scenario inp) ssc_name) of
                Some s \<Rightarrow> name @ '' ['' @ s @ '']'' | None \<Rightarrow> name),
             rt_enabled = False, rt_method = m,
             rt_path = normalizePathMatcher \<lparr>pm_kind = Path_exact, pm_value = sq_path inp, pm_paramNames = None, pm_caseInsensitive = None\<rparr>,
             rt_priority = (case sq_priority inp of Some p \<Rightarrow> p | None \<Rightarrow> or_else_default (co_defaultPriority opts) 10),
             rt_predicates = predicates, rt_responseMode = Mode_rules, rt_responses = [import_response respId inp opts],
             rt_tags = scenario_tags (sq_scenario inp)\<rparr>,
          cn_sample =
            \<lparr>sm_id = sampleId, sm_request = source_capture env m inp,
             sm_expected = Some \<lparr>ex_outcome = Some Out_matched, ex_routeId = Some routeId, ex_responseId = None,
               ex_status = Some (or_else_default (co_defaultStatus opts) 200), ex_bodyContains = None, ex_bodyExact = None\<rparr>\<rparr>,
          cn_diagnostics = methodDiagnostics @ predicateDiagnostics\<rparr>)"

definition convertBatch :: "(nat \<Rightarrow> conversion_env) \<Rightarrow> source_request list \<Rightarrow> conversion_options \<Rightarrow> conversion list" where
  "convertBatch envs inputs opts = map (\<lambda>(i, inp). convertSourceToRule (envs i) inp opts) (enumerate 0 inputs)"

section \<open>Recorded drafts\<close>

record proxied_response =
  pc_status :: int
  pc_headers :: header_map
  pc_body :: string
  pc_contentType :: "string option"

record recorded_draft =
  dr_id :: string
  dr_fingerprint :: string
  dr_recordedAt :: string
  dr_route :: route
  dr_sample :: simulation_sample
  dr_diagnostics :: "import_diagnostic list"

definition RESPONSE_HEADER_SKIP :: "string list" where
  "RESPONSE_HEADER_SKIP = [''content-type'', ''content-length'', ''content-encoding'', ''set-cookie'', ''connection'', ''keep-alive'',
     ''proxy-authenticate'', ''proxy-authorization'', ''proxy-connection'', ''te'', ''trailer'', ''transfer-encoding'', ''upgrade'',
     ''x-redfireforge-mock'']"

definition draftFingerprint :: "string \<Rightarrow> string \<Rightarrow> int \<Rightarrow> string" where
  "draftFingerprint m path status = js_upper m @ '' '' @ path @ '' -> '' @ js_int status"

text \<open>\<open>/^(\S+)\s+/\<close>: the scheme before the white space.\<close>

definition scheme_of :: "string \<Rightarrow> string option" where
  "scheme_of s =
     (let scheme = takeWhile (\<lambda>c. \<not> js_is_space c) s
      in if scheme \<noteq> [] \<and> length scheme < length s then Some scheme else None)"

definition redact_header :: "bool \<Rightarrow> string \<Rightarrow> string" where
  "redact_header preserveScheme value =
     (case (if preserveScheme then scheme_of value else None) of
        Some scheme \<Rightarrow> scheme @ '' [REDACTED]''
      | None \<Rightarrow> ''[REDACTED]'')"

definition joined_value :: "header_value \<Rightarrow> string" where
  "joined_value v = (case v of One_Value s \<Rightarrow> s | Many_Values vs \<Rightarrow> js_join '', '' vs)"

definition redact_entry :: "string list \<Rightarrow> bool \<Rightarrow> string \<times> header_value \<Rightarrow> string" where
  "redact_entry names preserveScheme e =
     (if js_lower (fst e) \<in> set names then redact_header preserveScheme (joined_value (snd e)) else joined_value (snd e))"

definition recording_header_map :: "header_map \<Rightarrow> string list \<Rightarrow> bool \<Rightarrow> string record_bag" where
  "recording_header_map headers headerNames preserveScheme =
     foldl (\<lambda>out e. rec_set out (fst e) (redact_entry (map js_lower headerNames) preserveScheme e)) [] headers"

definition responseHeadersToVariant :: "(nat \<Rightarrow> string) \<Rightarrow> header_map \<Rightarrow> string list \<Rightarrow> bool \<Rightarrow> response_header list" where
  "responseHeadersToVariant uuid headers headerNames preserveScheme =
     map (\<lambda>(i, k, v). \<lparr>rh_id = ''hdr-'' @ take 8 (uuid i), rh_key = k, rh_value = v, rh_enabled = True\<rparr>)
       (enumerate 0 (filter (\<lambda>(k, v). k \<noteq> [] \<and> js_lower k \<notin> set RESPONSE_HEADER_SKIP)
          (recording_header_map headers headerNames preserveScheme)))"

definition first_header_value :: "header_map \<Rightarrow> string \<Rightarrow> string option" where
  "first_header_value headers k =
     (case rec_get headers k of None \<Rightarrow> None | Some (One_Value s) \<Rightarrow> Some s | Some (Many_Values vs) \<Rightarrow> js_nth vs 0)"

definition first_defined :: "'a option \<Rightarrow> 'a option \<Rightarrow> 'a option" where
  "first_defined a b = (case a of None \<Rightarrow> b | Some x \<Rightarrow> Some x)"

definition secret_hits :: "string list record_bag \<Rightarrow> string list \<Rightarrow> nat" where
  "secret_hits headers headerNames = length (filter (\<lambda>k. js_lower k \<in> set (map js_lower headerNames)) (rec_keys headers))"

definition proxied_source :: "captured_request \<Rightarrow> proxied_response \<Rightarrow> redaction_settings \<Rightarrow> source_request" where
  "proxied_source req resp rd =
     (let headers = recording_header_map (map (\<lambda>(k, vs). (k, Many_Values vs)) (rq_headers req)) (rd_headerNames rd) (rd_preserveScheme rd);
          query = from_entries (map (\<lambda>(k, vs). (k, or_else_default (js_nth vs 0) [])) (rq_query req));
          contentType = first_defined (pc_contentType resp)
            (first_defined (first_header_value (pc_headers resp) ''content-type'') (first_header_value (pc_headers resp) ''Content-Type''))
      in \<lparr>sq_method = rq_method req, sq_path = rq_path req, sq_headers = Some headers, sq_query = Some query,
          sq_cookies = None, sq_body = rq_body req,
          sq_contentType = first_defined (rec_get headers ''content-type'') (rec_get headers ''Content-Type''),
          sq_responseBody = Some (pc_body resp), sq_responseContentType = contentType, sq_priority = None,
          sq_status = Some (pc_status resp), sq_delayMs = None, sq_fault = None, sq_scenario = None, sq_predicates = None\<rparr>)"

definition proxiedExchangeToDraft ::
  "conversion_env \<Rightarrow> captured_request \<Rightarrow> proxied_response \<Rightarrow> redaction_settings \<Rightarrow> conversion" where
  "proxiedExchangeToDraft env req resp rd =
     (let result = convertSourceToRule env (proxied_source req resp rd)
            \<lparr>co_defaultPriority = None, co_defaultStatus = None, co_defaultResponseBody = None, co_defaultResponseContentType = None\<rparr>;
          hits = secret_hits (rq_headers req) (rd_headerNames rd);
          drawn = 4 + length (group_children (rt_predicates (cn_route result)));
          recordedHeaders = responseHeadersToVariant (\<lambda>i. ce_uuid env (drawn + i)) (pc_headers resp) (rd_headerNames rd) (rd_preserveScheme rd)
      in result\<lparr>
        cn_route := (cn_route result)\<lparr>rt_enabled := False,
          rt_name := ''Recorded '' @ rq_method req @ '' '' @ rq_path req,
          rt_responses := (case rt_responses (cn_route result) of [] \<Rightarrow> [] | v # vs \<Rightarrow> v\<lparr>rv_headers := recordedHeaders\<rparr> # vs)\<rparr>,
        cn_diagnostics := cn_diagnostics result @
          (if 0 < hits then
             [\<lparr>id_code = ''AMS-REDACTION-SECRET-DETECTED'', id_severity = Sev_warning, id_path = ''/recording'',
               id_message = ''Redacted '' @ js_nat hits @ '' secret header(s) from recorded draft. Review before enabling.''\<rparr>]
           else [])\<rparr>)"

definition toRecordedDraft :: "conversion \<Rightarrow> string \<Rightarrow> string \<Rightarrow> string \<Rightarrow> recorded_draft" where
  "toRecordedDraft c fingerprint recordedAt i =
     \<lparr>dr_id = i, dr_fingerprint = fingerprint, dr_recordedAt = recordedAt, dr_route = (cn_route c)\<lparr>rt_enabled := False\<rparr>,
      dr_sample = cn_sample c, dr_diagnostics = cn_diagnostics c\<rparr>"

text \<open>A capture of the native listener, with the redaction settings it was made under. The code returns
null for a capture it cannot read; a capture of this type can be read.\<close>

record native_capture =
  nc_id :: string
  nc_fingerprint :: string
  nc_recordedAt :: string
  nc_request :: captured_request
  nc_response :: proxied_response
  nc_headerNames :: "string list option"
  nc_jsonPaths :: "string list option"
  nc_preserveScheme :: "bool option"

definition nativeCaptureToDraft :: "conversion_env \<Rightarrow> native_capture \<Rightarrow> recorded_draft" where
  "nativeCaptureToDraft env capture =
     (let d = ss_redaction DEFAULT_SETTINGS;
          conversion = proxiedExchangeToDraft env (nc_request capture) (nc_response capture)
            \<lparr>rd_headerNames = or_else_default (nc_headerNames capture) (rd_headerNames d),
             rd_jsonPaths = or_else_default (nc_jsonPaths capture) (rd_jsonPaths d),
             rd_preserveScheme = or_else_default (nc_preserveScheme capture) (rd_preserveScheme d)\<rparr>
      in toRecordedDraft conversion (nc_fingerprint capture) (nc_recordedAt capture) (nc_id capture))"

definition routeFingerprintFromRoute :: "route \<Rightarrow> string" where
  "routeFingerprintFromRoute rt =
     draftFingerprint (method_name (rt_method rt)) (pm_value (rt_path rt))
       (case find rv_enabled (rt_responses rt) of
          Some v \<Rightarrow> rv_status v
        | None \<Rightarrow> (case rt_responses rt of v # _ \<Rightarrow> rv_status v | [] \<Rightarrow> 200))"

definition fillMissingResponseHeaders :: "route \<Rightarrow> route \<Rightarrow> route option" where
  "fillMissingResponseHeaders existing incoming =
     (case rt_responses incoming of
        [] \<Rightarrow> None
      | source # _ \<Rightarrow>
          (if rv_headers source = [] \<or> rt_responses existing = [] then None
           else (let target = (case js_find_index rv_enabled (rt_responses existing) of Some i \<Rightarrow> i | None \<Rightarrow> 0)
                 in if rv_headers (rt_responses existing ! target) \<noteq> [] then None
                    else Some (existing\<lparr>rt_responses := (rt_responses existing)
                      [target := (rt_responses existing ! target)\<lparr>rv_headers := rv_headers source\<rparr>]\<rparr>))))"

record merge_state =
  mg_seen :: "string list"
  mg_routes :: "route list"
  mg_added :: nat
  mg_skipped :: nat
  mg_updated :: nat

definition merge_draft :: "merge_state \<Rightarrow> recorded_draft \<Rightarrow> merge_state" where
  "merge_draft m d =
     (if dr_fingerprint d \<in> set (mg_seen m) then
        (case js_find_index (\<lambda>rt. routeFingerprintFromRoute rt = dr_fingerprint d) (mg_routes m) of
           None \<Rightarrow> m\<lparr>mg_skipped := mg_skipped m + 1\<rparr>
         | Some i \<Rightarrow>
             (case fillMissingResponseHeaders (mg_routes m ! i) (dr_route d) of
                Some filled \<Rightarrow> m\<lparr>mg_routes := (mg_routes m)[i := filled], mg_updated := mg_updated m + 1\<rparr>
              | None \<Rightarrow> m\<lparr>mg_skipped := mg_skipped m + 1\<rparr>))
      else m\<lparr>mg_seen := mg_seen m @ [dr_fingerprint d], mg_routes := mg_routes m @ [(dr_route d)\<lparr>rt_enabled := False\<rparr>],
             mg_added := mg_added m + 1\<rparr>)"

definition mergeRecordedDraftsIntoRoutes :: "route list \<Rightarrow> recorded_draft list \<Rightarrow> merge_state" where
  "mergeRecordedDraftsIntoRoutes existing drafts =
     foldl merge_draft \<lparr>mg_seen = map routeFingerprintFromRoute existing, mg_routes = existing, mg_added = 0, mg_skipped = 0,
       mg_updated = 0\<rparr> drafts"

section \<open>A converted route accepts its source\<close>

text \<open>A source whose path has no pattern characters, with distinct non-empty header and query names,
without conditions of its own, and whose JSON body is not a JSON string.\<close>

definition importable :: "js_host \<Rightarrow> source_request \<Rightarrow> bool" where
  "importable h inp \<longleftrightarrow>
     inferPathKind (sq_path inp) (Some Path_exact) = Path_exact \<and>
     distinct (map (js_lower \<circ> fst) (or_else_default (sq_headers inp) [])) \<and>
     [] \<notin> fst ` set (or_else_default (sq_headers inp) []) \<and>
     rec_wf (or_else_default (sq_query inp) []) \<and> [] \<notin> fst ` set (or_else_default (sq_query inp) []) \<and>
     sq_predicates inp = None \<and>
     (\<forall>body v. sq_body inp = Some body \<and> json_parse h body = Some v \<longrightarrow> json_wf v \<and> (\<forall>t. v \<noteq> JStr t))"

lemma foldl_rec_set:
  "distinct (map fst es) \<Longrightarrow> fst ` set es \<inter> fst ` set out = {} \<Longrightarrow> foldl (\<lambda>out (k, v). rec_set out k v) out es = out @ es"
proof (induction es arbitrary: out)
  case (Cons e es)
  obtain k v where e: "e = (k, v)" by (cases e)
  have new: "k \<notin> fst ` set out \<Longrightarrow> rec_set out k v = out @ [(k, v)]" for out :: "('a \<times> 'b) list"
    by (induction out k v rule: rec_set.induct) auto
  show ?case using Cons.prems Cons.IH [of "out @ [(k, v)]"] new by (auto simp: e)
qed simp

lemma from_entries_distinct: "distinct (map fst es) \<Longrightarrow> from_entries es = es"
  using foldl_rec_set [of es "[]"] by (simp add: from_entries_def)

lemma method_name_upper [simp]: "js_upper (method_name m) = method_name m"
  by (induct m) (code_simp+)

lemma matchMethod_self [simp]: "matchMethod m (method_name m)"
  by (simp add: matchMethod_def)

lemma exact_leaf:
  "leaf_holds h req params (import_predicate u src sel Op_exact (JStr s)) =
     anyValue (extractValue (import_predicate u src sel Op_exact (JStr s)) req params) (\<lambda>t. t = s)"
  by (simp add: leaf_holds_def import_predicate_def evaluateOperator_def isUnavailablePredicateOperator_def matchExact_def
      case_insensitive_def str_def or_undef_def is_nullish_def)

lemma json_leaf:
  assumes "rq_body req = Some body" and "json_parse h body = Some v" and "json_wf v" and "\<And>t. v \<noteq> JStr t"
  shows "leaf_holds h req params ((import_predicate u Src_body None Op_json_subset v)\<lparr>p_options := Some
    \<lparr>opt_caseSensitive = None, opt_negate = None, opt_matchStyle = Some Style_subset\<rparr>\<rparr>)"
  using assms isSubset_refl [of v]
  by (cases v) (auto simp: leaf_holds_def import_predicate_def evaluateOperator_def extractValue_def matchJsonSubset_def
      matchJsonWith_def flatValue_def expected_json_def or_undef_def)

lemma exact_body_leaf:
  "rq_body req = Some body \<Longrightarrow> leaf_holds h req params (import_predicate u Src_body None Op_exact (JStr body))"
  by (simp add: exact_leaf) (simp add: extractValue_def import_predicate_def anyValue_def)

lemma js_lower_eq_Nil [simp]: "js_lower k = [] \<longleftrightarrow> k = []"
  by (simp add: js_lower_def)

lemma header_leaf:
  "k \<noteq> [] \<Longrightarrow> rec_get (rq_headers req) (js_lower k) = Some [v] \<Longrightarrow>
   leaf_holds h req params (import_predicate u Src_header (Some (js_lower k)) Op_exact (JStr v))"
  by (simp add: exact_leaf) (simp add: extractValue_def import_predicate_def anyValue_def)

lemma query_leaf:
  "k \<noteq> [] \<Longrightarrow> rec_get (rq_query req) k = Some [v] \<Longrightarrow>
   leaf_holds h req params (import_predicate u Src_query (Some k) Op_exact (JStr v))"
  by (simp add: exact_leaf) (simp add: extractValue_def import_predicate_def anyValue_def)

lemma captured_header:
  assumes "importable h inp" and "(k, v) \<in> set (or_else_default (sq_headers inp) [])"
  shows "rec_get (rq_headers (source_capture env m inp)) (js_lower k) = Some [v]"
proof -
  let ?es = "map (\<lambda>(k, v). (js_lower k, [v])) (or_else_default (sq_headers inp) [])"
  have d: "distinct (map fst ?es)" using assms(1) by (simp add: importable_def comp_def case_prod_unfold)
  moreover have "(js_lower k, [v]) \<in> set ?es" using assms(2) by force
  ultimately have "map_of ?es (js_lower k) = Some [v]" by simp
  then show ?thesis using from_entries_distinct [OF d] by (simp add: source_capture_def rec_get_def)
qed

lemma captured_query:
  assumes "importable h inp" and "(k, v) \<in> set (or_else_default (sq_query inp) [])"
  shows "rec_get (rq_query (source_capture env m inp)) k = Some [v]"
proof -
  let ?es = "map (\<lambda>(k, v). (k, [v])) (or_else_default (sq_query inp) [])"
  have d: "distinct (map fst ?es)" using assms(1) by (simp add: importable_def comp_def case_prod_unfold rec_wf_def)
  moreover have "(k, [v]) \<in> set ?es" using assms(2) by force
  ultimately have "map_of ?es k = Some [v]" by simp
  then show ?thesis using from_entries_distinct [OF d] by (simp add: source_capture_def rec_get_def)
qed

lemma if_nonempty_none: "if_nonempty None = None"
  by (simp add: if_nonempty_def)

lemma if_nonempty_some: "if_nonempty (Some t) = (if t = [] then None else Some t)"
  by (simp add: if_nonempty_def split: list.split)

lemma body_rule_holds:
  assumes "importable h inp" and "rq_body req = sq_body inp" and "p \<in> set (fst (body_rule h u inp))"
  shows "leaf_holds h req params p"
proof -
  obtain body where body: "sq_body inp = Some body"
    using assms(3) by (cases "sq_body inp") (simp_all add: body_rule_def if_nonempty_def)
  have wf: "json_wf v \<and> (\<forall>t. v \<noteq> JStr t)" if "json_parse h body = Some v" for v
    using assms(1) body that by (simp add: importable_def)
  show ?thesis
  proof (cases "json_parse h body")
    case None
    then show ?thesis using assms(2,3) exact_body_leaf [of req body]
      by (auto simp: body_rule_def body if_nonempty_some split: option.splits if_splits)
  next
    case (Some v)
    then show ?thesis using assms(2,3) json_leaf [of req body h v] wf [OF Some]
      by (auto simp: body_rule_def body if_nonempty_some split: option.splits if_splits)
  qed
qed

lemma rule_holds:
  assumes "importable h inp" and "(src, k, v) \<in> set (map (\<lambda>(k, v). (Src_header, k, v)) (header_rules (or_else_default (sq_headers inp) []))
      @ map (\<lambda>(k, v). (Src_query, k, v)) (or_else_default (sq_query inp) []))"
  shows "leaf_holds h (source_capture env m inp) params (import_predicate u src (Some k) Op_exact (JStr v))"
proof -
  consider (header) k0 where "src = Src_header" "k = js_lower k0" "(k0, v) \<in> set (or_else_default (sq_headers inp) [])"
    | (query) "src = Src_query" "(k, v) \<in> set (or_else_default (sq_query inp) [])"
    using assms(2) by (auto simp: header_rules_def)
  then show ?thesis
  proof cases
    case header
    then have "k0 \<noteq> []" using assms(1) by (force simp: importable_def)
    then show ?thesis using header header_leaf captured_header [OF assms(1)] by metis
  next
    case query
    then have "k \<noteq> []" using assms(1) by (force simp: importable_def)
    then show ?thesis using query query_leaf captured_query [OF assms(1)] by metis
  qed
qed

lemma enumerate_member: "(i, x) \<in> set (enumerate n xs) \<Longrightarrow> x \<in> set xs"
  by (auto simp: enumerate_eq_zip dest: set_zip_rightD)

abbreviation "source_rules inp \<equiv>
  map (\<lambda>(k, v). (Src_header, k, v)) (header_rules (or_else_default (sq_headers inp) []))
    @ map (\<lambda>(k, v). (Src_query, k, v)) (or_else_default (sq_query inp) [])"

lemma built_meaning:
  assumes "sq_predicates inp = None"
  shows "sem_group P (fst (buildPredicates env inp)) \<longleftrightarrow>
      (\<forall>(i, src, k, v)\<in>set (enumerate 3 (source_rules inp)). P (import_predicate (ce_uuid env i) src (Some k) Op_exact (JStr v))) \<and>
      (\<forall>p\<in>set (fst (body_rule (ce_host env) (ce_uuid env (3 + length (source_rules inp))) inp)). P p)"
  by (simp add: buildPredicates_def Let_def sem_all_iff assms or_else_default_def ball_Un case_prod_unfold)

lemma source_predicates_hold:
  assumes "importable (ce_host env) inp"
  shows "sem_group (leaf_holds (ce_host env) (source_capture env m inp) params) (fst (buildPredicates env inp))"
proof -
  have b: "rq_body (source_capture env m inp) = sq_body inp" by (simp add: source_capture_def)
  have own: "sq_predicates inp = None" using assms by (simp add: importable_def)
  have "\<forall>(i, src, k, v)\<in>set (enumerate 3 (source_rules inp)).
      leaf_holds (ce_host env) (source_capture env m inp) params (import_predicate (ce_uuid env i) src (Some k) Op_exact (JStr v))"
    using rule_holds [OF assms] by (fastforce dest: enumerate_member)
  then show ?thesis using body_rule_holds [OF assms b] unfolding built_meaning [OF own] by blast
qed

lemma imported_path_value: "pm_value (normalizePathMatcher m) = pm_value m"
  by (simp add: normalizePathMatcher_def Let_def split: option.split list.split)

lemma converted_fields:
  "rt_method (cn_route (convertSourceToRule env inp opts)) = fst (normalizeMethod (sq_method inp))"
  "rt_path (cn_route (convertSourceToRule env inp opts)) =
     normalizePathMatcher \<lparr>pm_kind = Path_exact, pm_value = sq_path inp, pm_paramNames = None, pm_caseInsensitive = None\<rparr>"
  "rt_predicates (cn_route (convertSourceToRule env inp opts)) = fst (buildPredicates env inp)"
  "rt_responses (cn_route (convertSourceToRule env inp opts)) = [import_response (''resp-'' @ take 8 (ce_uuid env 2)) inp opts]"
  "rt_responseMode (cn_route (convertSourceToRule env inp opts)) = Mode_rules"
  "rt_id (cn_route (convertSourceToRule env inp opts)) = ''route-'' @ take 8 (ce_uuid env 0)"
  "rt_enabled (cn_route (convertSourceToRule env inp opts)) = False"
  "sm_request (cn_sample (convertSourceToRule env inp opts)) = source_capture env (fst (normalizeMethod (sq_method inp))) inp"
  "sm_expected (cn_sample (convertSourceToRule env inp opts)) = Some \<lparr>ex_outcome = Some Out_matched,
     ex_routeId = Some (''route-'' @ take 8 (ce_uuid env 0)), ex_responseId = None,
     ex_status = Some (or_else_default (co_defaultStatus opts) 200), ex_bodyContains = None, ex_bodyExact = None\<rparr>"
  by (simp_all add: convertSourceToRule_def Let_def case_prod_unfold)

lemma plain_path_matches:
  assumes "inferPathKind p (Some Path_exact) = Path_exact"
  shows "matchPath h (normalizePathMatcher \<lparr>pm_kind = Path_exact, pm_value = p, pm_paramNames = None, pm_caseInsensitive = None\<rparr>) p =
    \<lparr>pmr_matched = True, pmr_params = []\<rparr>"
  using assms by (simp add: matchPath_def normalizePathMatcher_def matchExactPath_def text_eq_def Let_def)

lemma converted_accepts:
  assumes "importable (ce_host env) inp"
  shows "accepts (ce_host env) (source_capture env (fst (normalizeMethod (sq_method inp))) inp) []
    ((cn_route (convertSourceToRule env inp opts))\<lparr>rt_enabled := True\<rparr>)"
proof -
  have p: "rq_path (source_capture env m inp) = sq_path inp" "rq_method (source_capture env m inp) = method_name m" for m
    by (simp_all add: source_capture_def)
  have k: "inferPathKind (sq_path inp) (Some Path_exact) = Path_exact" using assms by (simp add: importable_def)
  show ?thesis
    using source_predicates_hold [OF assms]
    by (simp add: accepts_def converted_fields p plain_path_matches [OF k] stripBasePath_def Let_def)
qed

lemma single_accepting_route:
  assumes "accepts h req basePath rt"
  shows "sl_outcome (selectRoute h [rt] req settings basePath) = Out_matched \<and>
    sl_selectedRouteId (selectRoute h [rt] req settings basePath) = Some (rt_id rt)"
proof -
  have a: "accepting h req basePath [rt] = [rt]" using assms by (simp add: accepting_def)
  have t: "top_accepting h req basePath [rt] = [rt]" by (simp add: top_accepting_def a js_max_def)
  have m: "sl_outcome (selectRoute h [rt] req settings basePath) = Out_matched"
    using selectRoute_cases [of h req basePath "[rt]" settings] by (simp add: a t rejected_as_ambiguous_def)
  moreover have "winner_of h req basePath [rt] = rt" using winner_of_in_top [of h req basePath "[rt]"] by (simp add: a t)
  ultimately show ?thesis using selectRoute_matched [of "[rt]", OF _ m] by simp
qed

lemma import_response_fields:
  "rv_enabled (import_response i inp opts)" "rv_isDefault (import_response i inp opts)"
  "rv_conditions (import_response i inp opts) = None" "rv_id (import_response i inp opts) = i"
  "rv_status (import_response i inp opts) = (case sq_status inp of Some st \<Rightarrow> st | None \<Rightarrow> or_else_default (co_defaultStatus opts) 200)"
  "isVariantEligible parse (import_response i inp opts) n now roll = None"
  "bh_fault (rv_behavior (import_response i inp opts)) = (if sq_fault inp = Some Fault_none then None else sq_fault inp)"
  by (simp_all add: import_response_def createDefaultResponse_def isVariantEligible_def DEFAULT_BEHAVIOR_def Let_def)

lemma single_variant_preview:
  assumes "rt_responses rt = [import_response i inp opts]" and "rt_responseMode rt = Mode_rules"
  shows "\<exists>positions. selectVariantForPreview env rt req ctx basePath seed now =
    (\<lparr>pv_variant = Some (import_response i inp opts), pv_fallbackUsed = False, pv_eligibilityReason = None\<rparr>, positions)"
  by (simp add: selectVariantForPreview_def selectResponseForRoute_def selectRulesResponse_def assms enabled_responses_def
      import_response_fields has_conditions_def resolveEligibleVariant_def Let_def)

lemma single_variant_simulated:
  assumes "rt_responses rt = [import_response i inp opts]" and "rt_responseMode rt = Mode_rules" and "sq_fault inp \<in> {None, Some Fault_none}"
    and "m = simulate_matched env si settings seed now req rt ctx"
  shows "ms_outcome m = Out_matched \<and> rs_status (ms_response m) = rv_status (import_response i inp opts)"
proof -
  obtain positions where p: "selectVariantForPreview env rt req ctx (or_else_default (sn_basePath si) [])
      (seed @ '':'' @ rt_id rt @ '':'' @ rq_path req) now =
    (\<lparr>pv_variant = Some (import_response i inp opts), pv_fallbackUsed = False, pv_eligibilityReason = None\<rparr>, positions)"
    using single_variant_preview [OF assms(1,2)] by blast
  have f: "bh_fault (rv_behavior (import_response i inp opts)) = None" using assms(3) by (auto simp: import_response_fields)
  show ?thesis
    unfolding assms(4) simulate_matched_def Let_def p prod.case
    by (simp add: f previewFaultDelivery_def renderResponseVariant_def Let_def split: prod.split)
qed

text \<open>An import is consistent with itself: once its route is enabled, a simulation of the sample that
came with it selects that route, whatever the settings, and the sample passes exactly when the status
the route answers with is the status the sample expects. The two differ for a source with a status of
its own: the route takes it, the sample expects the default.\<close>

theorem imported_sample_passes:
  assumes "importable (ce_host env) inp" and "sq_fault inp \<in> {None, Some Fault_none}"
    and "conversion = convertSourceToRule env inp opts"
    and "sn_routes si = [(cn_route conversion)\<lparr>rt_enabled := True\<rparr>]" and "sn_basePath si = None"
    and "se_host senv = ce_host env" and "result = fst (simulateSingle senv (cn_sample conversion) si working)"
  shows "sr_outcome result = Out_matched \<and>
    (\<exists>resp. sr_renderedResponse result = Some resp \<and>
      rs_status resp = (case sq_status inp of Some st \<Rightarrow> st | None \<Rightarrow> or_else_default (co_defaultStatus opts) 200) \<and>
      (sr_passed result = Some (rs_status resp = or_else_default (co_defaultStatus opts) 200)))"
proof -
  define rt where "rt = (cn_route conversion)\<lparr>rt_enabled := True\<rparr>"
  have r: "rt_responses rt = [import_response (''resp-'' @ take 8 (ce_uuid env 2)) inp opts]" "rt_responseMode rt = Mode_rules"
    "rt_id rt = ''route-'' @ take 8 (ce_uuid env 0)"
    by (simp_all add: rt_def assms(3) converted_fields)
  have s: "sl_outcome (selectRoute (ce_host env) [rt] (sm_request (cn_sample conversion)) settings []) = Out_matched \<and>
    sl_selectedRouteId (selectRoute (ce_host env) [rt] (sm_request (cn_sample conversion)) settings []) = Some (rt_id rt)" for settings
    using single_accepting_route [OF converted_accepts [OF assms(1)]] by (simp add: rt_def assms(3) converted_fields(8))
  have ne: "if_nonempty (Some (rt_id rt)) = Some (rt_id rt)" by (simp add: if_nonempty_some r(3))
  define m where "m = simulate_matched senv si (mergeSettings (sn_settings si))
      (or_else_default (sn_seed si) (rq_receivedAt (sm_request (cn_sample conversion)) @ '':'' @ sm_id (cn_sample conversion)))
      (or_else_default (sn_now si) (se_now senv)) (sm_request (cn_sample conversion)) rt (or_else_default working (cloneRuntime (sn_runtime si)))"
  have "sr_outcome result = ms_outcome m \<and> sr_renderedResponse result = Some (ms_response m) \<and>
      sr_passed result = Some (checkExpectations (the (sm_expected (cn_sample conversion))) (Some (rt_id rt))
        (map_option rv_id (ms_variant m)) (ms_outcome m) (Some (ms_response m)))"
    unfolding assms(7) simulateSingle_def Let_def assms(4-6) rt_def [symmetric]
    by (simp add: or_else_default_def s ne m_def) (simp add: assms(3) converted_fields(9))
  moreover note single_variant_simulated [OF r(1,2) assms(2) m_def]
  ultimately show ?thesis
    by (simp add: checkExpectations_def Let_def assms(3) converted_fields(9) r(3) import_response_fields if_nonempty_none)
qed

section \<open>What a recorded draft shows\<close>

lemma recording_header_map_entry:
  assumes "(k, v) \<in> set (recording_header_map hs names ps)"
  shows "\<exists>raw. (k, raw) \<in> set hs \<and> v = redact_entry (map js_lower names) ps (k, raw)"
proof -
  have "set (recording_header_map hs names ps) \<subseteq> (\<lambda>e. (fst e, redact_entry (map js_lower names) ps e)) ` set hs"
  proof (induction hs rule: rev_induct)
    case (snoc e hs)
    then show ?case
      using set_rec_set_subset [of "recording_header_map hs names ps" "fst e" "redact_entry (map js_lower names) ps e"]
      by (simp add: recording_header_map_def) blast
  qed (simp add: recording_header_map_def)
  with assms show ?thesis by fastforce
qed

lemma recording_header_map_distinct:
  "distinct (map fst hs) \<Longrightarrow>
   recording_header_map hs names ps = map (\<lambda>e. (fst e, redact_entry (map js_lower names) ps e)) hs"
proof (induction hs rule: rev_induct)
  case (snoc e hs)
  have new: "k \<notin> fst ` set out \<Longrightarrow> rec_set out k v = out @ [(k, v)]" for out and k v :: string
    by (induction out k v rule: rec_set.induct) auto
  show ?case using snoc new by (auto simp: recording_header_map_def image_image)
qed (simp add: recording_header_map_def)

text \<open>The value is replaced, or the text before its first white space is kept.\<close>

definition redacted_from :: "bool \<Rightarrow> string \<Rightarrow> string \<Rightarrow> bool" where
  "redacted_from preserveScheme value shown \<longleftrightarrow>
     shown = ''[REDACTED]'' \<or>
     (preserveScheme \<and> (\<exists>scheme c rest. value = scheme @ c # rest \<and> js_is_space c \<and> (\<forall>x\<in>set scheme. \<not> js_is_space x) \<and>
        shown = scheme @ '' [REDACTED]''))"

lemma redact_header_shape: "redacted_from ps value (redact_header ps value)"
proof (cases "ps \<and> scheme_of value \<noteq> None")
  case True
  let ?w = "takeWhile (\<lambda>c. \<not> js_is_space c) value"
  have w: "?w \<noteq> []" "length ?w < length value" using True by (auto simp: scheme_of_def Let_def split: if_splits)
  then obtain c rest where "dropWhile (\<lambda>c. \<not> js_is_space c) value = c # rest"
    by (metis list.exhaust length_append less_not_refl list.size(3) add.right_neutral takeWhile_dropWhile_id)
  then have "value = ?w @ c # rest \<and> js_is_space c"
    by (metis takeWhile_dropWhile_id hd_dropWhile list.distinct(1) list.sel(1))
  moreover have "redact_header ps value = ?w @ '' [REDACTED]''" using True w by (simp add: redact_header_def scheme_of_def Let_def)
  moreover have "\<forall>x\<in>set ?w. \<not> js_is_space x" by (auto dest: set_takeWhileD)
  ultimately show ?thesis using True unfolding redacted_from_def by blast
next
  case False
  then show ?thesis by (auto simp: redacted_from_def redact_header_def)
qed

lemma draft_fields:
  "rt_enabled (cn_route (proxiedExchangeToDraft env req resp rd)) = False"
  "rt_method (cn_route (proxiedExchangeToDraft env req resp rd)) = fst (normalizeMethod (rq_method req))"
  "rt_path (cn_route (proxiedExchangeToDraft env req resp rd)) =
     normalizePathMatcher \<lparr>pm_kind = Path_exact, pm_value = rq_path req, pm_paramNames = None, pm_caseInsensitive = None\<rparr>"
  "rt_predicates (cn_route (proxiedExchangeToDraft env req resp rd)) = fst (buildPredicates env (proxied_source req resp rd))"
  "rt_responseMode (cn_route (proxiedExchangeToDraft env req resp rd)) = Mode_rules"
  "\<exists>uuid opts. rt_responses (cn_route (proxiedExchangeToDraft env req resp rd)) =
     [(import_response (''resp-'' @ take 8 (ce_uuid env 2)) (proxied_source req resp rd) opts)
        \<lparr>rv_headers := responseHeadersToVariant uuid (pc_headers resp) (rd_headerNames rd) (rd_preserveScheme rd)\<rparr>]"
  "sm_request (cn_sample (proxiedExchangeToDraft env req resp rd)) =
     source_capture env (fst (normalizeMethod (rq_method req))) (proxied_source req resp rd)"
  by (auto simp: proxiedExchangeToDraft_def Let_def converted_fields) (auto simp: proxied_source_def Let_def)

lemma body_rule_source: "p \<in> set (fst (body_rule h u inp)) \<Longrightarrow> p_source p = Src_body"
  by (auto simp: body_rule_def import_predicate_def split: option.splits if_splits)

lemma header_condition_built:
  assumes "PLeaf p \<in> set (group_children (fst (buildPredicates env inp)))" and "p_source p = Src_header" and "sq_predicates inp = None"
  obtains k v where "(k, v) \<in> set (or_else_default (sq_headers inp) [])" and "js_lower k \<notin> set unmatched_headers"
    and "p_selector p = Some (js_lower k)" and "p_expected p = Some (JStr v)" and "p_operator p = Op_exact"
proof -
  let ?rules = "map (\<lambda>(k, v). (Src_header, k, v)) (header_rules (or_else_default (sq_headers inp) []))
      @ map (\<lambda>(k, v). (Src_query, k, v)) (or_else_default (sq_query inp) [])"
  let ?body = "fst (body_rule (ce_host env) (ce_uuid env (3 + length ?rules)) inp)"
  have none: "or_else_default None [] = ([] :: predicate list)" by (simp add: or_else_default_def)
  have "p \<in> (\<lambda>(i, src, k, v). import_predicate (ce_uuid env i) src (Some k) Op_exact (JStr v)) ` set (enumerate 3 ?rules) \<or> p \<in> set ?body"
    using assms(1,3) by (auto simp: buildPredicates_def Let_def none case_prod_unfold)
  then obtain i src k v where r: "(i, src, k, v) \<in> set (enumerate 3 ?rules)"
      "p = import_predicate (ce_uuid env i) src (Some k) Op_exact (JStr v)"
    using body_rule_source [of p "ce_host env" "ce_uuid env (3 + length ?rules)" inp] assms(2) by auto
  then have "(src, k, v) \<in> set ?rules" "src = Src_header"
    using enumerate_member [OF r(1)] assms(2) by (simp_all add: import_predicate_def)
  then have "(k, v) \<in> set (header_rules (or_else_default (sq_headers inp) []))" by auto
  with r(2) that show ?thesis by (auto simp: header_rules_def import_predicate_def)
qed

lemma redact_entry_secret:
  "js_lower (fst e) \<in> set names \<Longrightarrow> redacted_from ps (joined_value (snd e)) (redact_entry names ps e)"
  by (simp add: redact_entry_def redact_header_shape)

lemma variant_header_built:
  assumes "rh \<in> set (responseHeadersToVariant uuid hs names ps)"
  shows "rh_key rh \<noteq> [] \<and> js_lower (rh_key rh) \<notin> set RESPONSE_HEADER_SKIP \<and>
    (\<exists>raw. (rh_key rh, raw) \<in> set hs \<and> rh_value rh = redact_entry (map js_lower names) ps (rh_key rh, raw))"
proof -
  obtain i k v where e: "(i, k, v) \<in> set (enumerate 0 (filter (\<lambda>(k, v). k \<noteq> [] \<and> js_lower k \<notin> set RESPONSE_HEADER_SKIP)
      (recording_header_map hs names ps)))"
    and rh: "rh = \<lparr>rh_id = ''hdr-'' @ take 8 (uuid i), rh_key = k, rh_value = v, rh_enabled = True\<rparr>"
    using assms by (auto simp: responseHeadersToVariant_def)
  from enumerate_member [OF e] have k: "k \<noteq> []" "js_lower k \<notin> set RESPONSE_HEADER_SKIP"
    "(k, v) \<in> set (recording_header_map hs names ps)" by auto
  from recording_header_map_entry [OF k(3)] k(1,2) rh show ?thesis by auto
qed

text \<open>C22. A recorded draft is disabled and shows no secret: a header condition or a response header with
one of the secret names has its value replaced, except for the scheme before the first white space
where the settings keep it, and no transport header of the response is recorded.\<close>

theorem recorded_secrets_redacted:
  assumes "draft = cn_route (proxiedExchangeToDraft env req resp rd)" and "secret = set (map js_lower (rd_headerNames rd))"
  shows "\<not> rt_enabled draft \<and>
    (\<forall>p name. PLeaf p \<in> set (group_children (rt_predicates draft)) \<and> p_source p = Src_header \<and> p_selector p = Some name \<and>
       name \<in> secret \<longrightarrow> (\<exists>k vs t. (k, vs) \<in> set (rq_headers req) \<and> js_lower k = name \<and> p_expected p = Some (JStr t) \<and>
         redacted_from (rd_preserveScheme rd) (js_join '', '' vs) t)) \<and>
    (\<forall>v\<in>set (rt_responses draft). \<forall>rh\<in>set (rv_headers v).
       js_lower (rh_key rh) \<notin> set RESPONSE_HEADER_SKIP \<and>
       (js_lower (rh_key rh) \<in> secret \<longrightarrow>
         (\<exists>raw. (rh_key rh, raw) \<in> set (pc_headers resp) \<and> redacted_from (rd_preserveScheme rd) (joined_value raw) (rh_value rh))))"
proof (intro conjI allI impI ballI)
  show "\<not> rt_enabled draft" by (simp add: assms(1) draft_fields(1))
next
  fix p name
  assume a: "PLeaf p \<in> set (group_children (rt_predicates draft)) \<and> p_source p = Src_header \<and> p_selector p = Some name \<and> name \<in> secret"
  let ?inp = "proxied_source req resp rd"
  have n: "sq_predicates ?inp = None" by (simp add: proxied_source_def Let_def)
  obtain k v where k: "(k, v) \<in> set (or_else_default (sq_headers ?inp) [])" "name = js_lower k" "p_expected p = Some (JStr v)"
  proof (rule header_condition_built [OF _ _ n, of p env])
    show "PLeaf p \<in> set (group_children (fst (buildPredicates env ?inp)))" using a by (simp add: assms(1) draft_fields(4))
  qed (use a that in auto)
  then have "(k, v) \<in> set (recording_header_map (map (\<lambda>(k, vs). (k, Many_Values vs)) (rq_headers req)) (rd_headerNames rd) (rd_preserveScheme rd))"
    by (simp add: proxied_source_def Let_def or_else_default_def)
  from recording_header_map_entry [OF this] obtain vs where vs: "(k, vs) \<in> set (rq_headers req)"
    "v = redact_entry (map js_lower (rd_headerNames rd)) (rd_preserveScheme rd) (k, Many_Values vs)" by auto
  then have "redacted_from (rd_preserveScheme rd) (js_join '', '' vs) v"
    using redact_entry_secret [of "(k, Many_Values vs)"] a k(2) by (simp add: assms(2) joined_value_def)
  with vs(1) k show "\<exists>k vs t. (k, vs) \<in> set (rq_headers req) \<and> js_lower k = name \<and> p_expected p = Some (JStr t) \<and>
      redacted_from (rd_preserveScheme rd) (js_join '', '' vs) t" by blast
next
  fix v rh
  assume v: "v \<in> set (rt_responses draft)" and rh: "rh \<in> set (rv_headers v)"
  obtain uuid where "rh \<in> set (responseHeadersToVariant uuid (pc_headers resp) (rd_headerNames rd) (rd_preserveScheme rd))"
    using draft_fields(6) [of env req resp rd] v rh by (auto simp: assms(1))
  note b = variant_header_built [OF this]
  show "js_lower (rh_key rh) \<notin> set RESPONSE_HEADER_SKIP" using b by blast
  show "\<exists>raw. (rh_key rh, raw) \<in> set (pc_headers resp) \<and> redacted_from (rd_preserveScheme rd) (joined_value raw) (rh_value rh)"
    if "js_lower (rh_key rh) \<in> secret"
    using b redact_entry_secret [of "(rh_key rh, _)"] that by (fastforce simp: assms(2))
qed

lemma recorded_source_headers:
  assumes "distinct (map (js_lower \<circ> fst) (rq_headers req))"
  shows "or_else_default (sq_headers (proxied_source req resp rd)) [] =
    map (\<lambda>(k, vs). (k, redact_entry (map js_lower (rd_headerNames rd)) (rd_preserveScheme rd) (k, Many_Values vs))) (rq_headers req)"
proof -
  have "distinct (map fst (rq_headers req))" using assms by (metis distinct_map map_map)
  then show ?thesis
    by (simp add: proxied_source_def Let_def or_else_default_def recording_header_map_distinct case_prod_unfold comp_def)
qed

lemma recorded_sample_header:
  assumes "distinct (map (js_lower \<circ> fst) (rq_headers req))" and "(k, vs) \<in> set (rq_headers req)"
  shows "rec_get (rq_headers (sm_request (cn_sample (proxiedExchangeToDraft env req resp rd)))) (js_lower k) =
    Some [redact_entry (map js_lower (rd_headerNames rd)) (rd_preserveScheme rd) (k, Many_Values vs)]"
proof -
  let ?v = "\<lambda>k vs. redact_entry (map js_lower (rd_headerNames rd)) (rd_preserveScheme rd) (k, Many_Values vs)"
  let ?es = "map (\<lambda>(k, vs). (js_lower k, [?v k vs])) (rq_headers req)"
  have d: "distinct (map fst ?es)" using assms(1) by (simp add: comp_def case_prod_unfold)
  moreover have "(js_lower k, [?v k vs]) \<in> set ?es" using assms(2) by force
  ultimately have "map_of ?es (js_lower k) = Some [?v k vs]" by simp
  then show ?thesis using from_entries_distinct [OF d]
    by (simp add: draft_fields(7) source_capture_def recorded_source_headers [OF assms(1)] rec_get_def case_prod_unfold comp_def)
qed

text \<open>The scheme rule is applied to every secret header, not to the authorization headers alone: of a
cookie header the text before the first white space, that is the whole first cookie with its value,
stays in the recorded sample, although the header is one of those to redact.\<close>

theorem recorded_cookie_leaks:
  assumes "distinct (map (js_lower \<circ> fst) (rq_headers req))" and "(''cookie'', [first @ '';'' @ '' '' @ others]) \<in> set (rq_headers req)"
    and "''cookie'' \<in> set (map js_lower (rd_headerNames rd))" and "rd_preserveScheme rd" and "\<forall>c\<in>set first. \<not> js_is_space c"
  shows "rec_get (rq_headers (sm_request (cn_sample (proxiedExchangeToDraft env req resp rd)))) ''cookie'' =
    Some [first @ '';'' @ '' [REDACTED]'']"
proof -
  have l: "js_lower ''cookie'' = ''cookie''" by code_simp
  have sp: "js_is_space CHR '' ''" "\<not> js_is_space CHR '';''" by code_simp+
  have t: "takeWhile (\<lambda>c. \<not> js_is_space c) (first @ '';'' @ '' '' @ others) = first @ '';''"
    using assms(5) sp by (simp add: takeWhile_append2)
  have "scheme_of (first @ '';'' @ '' '' @ others) = Some (first @ '';'')"
    unfolding scheme_of_def t Let_def by simp
  then have "redact_entry (map js_lower (rd_headerNames rd)) True (''cookie'', Many_Values [first @ '';'' @ '' '' @ others]) =
      (first @ '';'') @ '' [REDACTED]''"
    using assms(3) unfolding redact_entry_def redact_header_def fst_conv snd_conv l joined_value_def
    by simp
  with recorded_sample_header [OF assms(1,2), of env resp rd] show ?thesis using assms(4) l by simp
qed

lemma enumerate_has: "x \<in> set xs \<Longrightarrow> \<exists>i. (i, x) \<in> set (enumerate n xs)"
  by (induction xs arbitrary: n) auto

text \<open>The conditions are recorded after the redaction: a route recorded from a request with a secret
header accepts only requests whose header is the redacted text itself, so not the request it was
recorded from.\<close>

theorem recorded_secret_rejects:
  assumes "distinct (map (js_lower \<circ> fst) (rq_headers req))" and "(k, ws) \<in> set (rq_headers req)" and "k \<noteq> []"
    and "js_lower k \<in> set (map js_lower (rd_headerNames rd))" and "js_lower k \<notin> set unmatched_headers"
    and "accepts (ce_host env) req' basePath ((cn_route (proxiedExchangeToDraft env req resp rd))\<lparr>rt_enabled := True\<rparr>)"
  shows "\<exists>vs. rec_get (rq_headers req') (js_lower k) = Some vs \<and>
    redact_header (rd_preserveScheme rd) (js_join '', '' ws) \<in> set vs"
proof -
  let ?inp = "proxied_source req resp rd" and ?v = "redact_header (rd_preserveScheme rd) (js_join '', '' ws)"
  have n: "sq_predicates ?inp = None" by (simp add: proxied_source_def Let_def)
  obtain v where v: "rt_responses (cn_route (proxiedExchangeToDraft env req resp rd)) = [v]" "rv_isDefault v"
    using draft_fields(6) [of env req resp rd] import_response_fields(2) by fastforce
  have "\<not> routeMatchesViaRulesVariant (ce_host env) ((cn_route (proxiedExchangeToDraft env req resp rd))\<lparr>rt_enabled := True\<rparr>) req' params" for params
    by (simp add: routeMatchesViaRulesVariant_def v)
  then obtain params where m: "sem_group (leaf_holds (ce_host env) req' params) (fst (buildPredicates env ?inp))"
    using assms(6) by (auto simp: accepts_def Let_def draft_fields(4))
  have "redact_entry (map js_lower (rd_headerNames rd)) (rd_preserveScheme rd) (k, Many_Values ws) = ?v"
    using assms(4) by (simp add: redact_entry_def joined_value_def)
  then have "(k, ?v) \<in> set (or_else_default (sq_headers ?inp) [])"
    unfolding recorded_source_headers [OF assms(1)] using assms(2) by force
  then have "(Src_header, js_lower k, ?v) \<in> set (source_rules ?inp)" using assms(5) by (force simp: header_rules_def)
  then obtain i where "(i, Src_header, js_lower k, ?v) \<in> set (enumerate 3 (source_rules ?inp))" using enumerate_has by metis
  then have "leaf_holds (ce_host env) req' params (import_predicate (ce_uuid env i) Src_header (Some (js_lower k)) Op_exact (JStr ?v))"
    using m unfolding built_meaning [OF n] by fast
  then show ?thesis using assms(3)
    unfolding exact_leaf by (auto simp: extractValue_def import_predicate_def anyValue_def list_ex_iff split: option.splits)
qed

section \<open>Merging drafts into a library\<close>

text \<open>A draft whose fingerprint is that of its own route.\<close>

definition coherent_draft :: "recorded_draft \<Rightarrow> bool" where
  "coherent_draft d \<longleftrightarrow> dr_fingerprint d = routeFingerprintFromRoute (dr_route d)"

lemma fingerprint_enabled [simp]: "routeFingerprintFromRoute (rt\<lparr>rt_enabled := b\<rparr>) = routeFingerprintFromRoute rt"
  by (simp add: routeFingerprintFromRoute_def split: option.split list.split)

lemma first_enabled_update:
  "i < length vs \<Longrightarrow> map_option rv_status (find rv_enabled (vs[i := (vs ! i)\<lparr>rv_headers := hs\<rparr>])) = map_option rv_status (find rv_enabled vs)"
  by (induction vs arbitrary: i) (auto split: nat.split)

lemma fingerprint_status:
  "routeFingerprintFromRoute rt = draftFingerprint (method_name (rt_method rt)) (pm_value (rt_path rt))
     (case map_option rv_status (find rv_enabled (rt_responses rt)) of Some n \<Rightarrow> n
      | None \<Rightarrow> (case map rv_status (rt_responses rt) of n # _ \<Rightarrow> n | [] \<Rightarrow> 200))"
  by (simp add: routeFingerprintFromRoute_def split: option.split list.split)

text \<open>Two routes that differ only in response headers, and only where the first has none.\<close>

definition headers_filled :: "route \<Rightarrow> route \<Rightarrow> bool" where
  "headers_filled old new \<longleftrightarrow> new = old\<lparr>rt_responses := rt_responses new\<rparr> \<and>
     length (rt_responses new) = length (rt_responses old) \<and>
     (\<forall>i < length (rt_responses old). let v = rt_responses old ! i; w = rt_responses new ! i
       in w = v\<lparr>rv_headers := rv_headers w\<rparr> \<and> (rv_headers v \<noteq> [] \<longrightarrow> w = v))"

lemma headers_filled_refl [simp]: "headers_filled rt rt"
  by (simp add: headers_filled_def)

lemma headers_filled_trans:
  assumes ab: "headers_filled a b" and bc: "headers_filled b c"
  shows "headers_filled a c"
proof -
  have "c = a\<lparr>rt_responses := rt_responses c\<rparr>"
    using ab bc by (cases a; cases b; cases c) (simp add: headers_filled_def)
  moreover have "let v = rt_responses a ! i; w = rt_responses c ! i in w = v\<lparr>rv_headers := rv_headers w\<rparr> \<and> (rv_headers v \<noteq> [] \<longrightarrow> w = v)"
    if i: "i < length (rt_responses a)" for i
  proof -
    have 1: "rt_responses b ! i = (rt_responses a ! i)\<lparr>rv_headers := rv_headers (rt_responses b ! i)\<rparr>"
      "rv_headers (rt_responses a ! i) \<noteq> [] \<longrightarrow> rt_responses b ! i = rt_responses a ! i"
      using ab i by (simp_all add: headers_filled_def Let_def)
    have 2: "rt_responses c ! i = (rt_responses b ! i)\<lparr>rv_headers := rv_headers (rt_responses c ! i)\<rparr>"
      "rv_headers (rt_responses b ! i) \<noteq> [] \<longrightarrow> rt_responses c ! i = rt_responses b ! i"
      using bc ab i by (simp_all add: headers_filled_def Let_def)
    have "rt_responses c ! i = (rt_responses a ! i)\<lparr>rv_headers := rv_headers (rt_responses c ! i)\<rparr>"
      using 1(1) 2(1) by (cases "rt_responses a ! i"; cases "rt_responses b ! i"; cases "rt_responses c ! i") simp
    then show ?thesis using 1(2) 2(2) by (auto simp: Let_def)
  qed
  ultimately show ?thesis using ab bc by (simp add: headers_filled_def)
qed

lemma filled_route:
  assumes "fillMissingResponseHeaders old incoming = Some new"
  shows "routeFingerprintFromRoute new = routeFingerprintFromRoute old" and "headers_filled old new"
proof -
  define i where "i = (case js_find_index rv_enabled (rt_responses old) of Some i \<Rightarrow> i | None \<Rightarrow> 0)"
  have "rt_responses old \<noteq> []" using assms by (auto simp: fillMissingResponseHeaders_def split: list.splits if_splits)
  then have i: "i < length (rt_responses old)"
    using js_find_index_Some [of rv_enabled "rt_responses old"] by (auto simp: i_def split: option.split)
  obtain hs where new: "rv_headers (rt_responses old ! i) = []"
    "new = old\<lparr>rt_responses := (rt_responses old)[i := (rt_responses old ! i)\<lparr>rv_headers := hs\<rparr>]\<rparr>"
    using assms by (auto simp: fillMissingResponseHeaders_def Let_def i_def split: list.splits if_splits)
  have "map rv_status ((rt_responses old)[i := (rt_responses old ! i)\<lparr>rv_headers := hs\<rparr>]) = map rv_status (rt_responses old)"
    using i by (simp add: map_update) (metis list_update_id nth_map)
  moreover have "rt_method new = rt_method old" "rt_path new = rt_path old"
    "rt_responses new = (rt_responses old)[i := (rt_responses old ! i)\<lparr>rv_headers := hs\<rparr>]" by (simp_all add: new(2))
  ultimately show "routeFingerprintFromRoute new = routeFingerprintFromRoute old"
    unfolding fingerprint_status by (simp only: first_enabled_update [OF i])
  show "headers_filled old new"
    using new i by (auto simp: headers_filled_def Let_def nth_list_update)
qed

lemma merge_draft_cases:
  obtains (skipped) "merge_draft m d = m\<lparr>mg_skipped := mg_skipped m + 1\<rparr>" and "dr_fingerprint d \<in> set (mg_seen m)"
    | (updated) i filled where "merge_draft m d = m\<lparr>mg_routes := (mg_routes m)[i := filled], mg_updated := mg_updated m + 1\<rparr>"
        and "dr_fingerprint d \<in> set (mg_seen m)" and "i < length (mg_routes m)"
        and "routeFingerprintFromRoute filled = routeFingerprintFromRoute (mg_routes m ! i)" and "headers_filled (mg_routes m ! i) filled"
    | (added) "merge_draft m d = m\<lparr>mg_seen := mg_seen m @ [dr_fingerprint d], mg_routes := mg_routes m @ [(dr_route d)\<lparr>rt_enabled := False\<rparr>],
        mg_added := mg_added m + 1\<rparr>" and "dr_fingerprint d \<notin> set (mg_seen m)"
proof (cases "dr_fingerprint d \<in> set (mg_seen m)")
  case True
  consider (none) "merge_draft m d = m\<lparr>mg_skipped := mg_skipped m + 1\<rparr>"
    | (some) i filled where "js_find_index (\<lambda>rt. routeFingerprintFromRoute rt = dr_fingerprint d) (mg_routes m) = Some i"
        "fillMissingResponseHeaders (mg_routes m ! i) (dr_route d) = Some filled"
        "merge_draft m d = m\<lparr>mg_routes := (mg_routes m)[i := filled], mg_updated := mg_updated m + 1\<rparr>"
    using True by (cases "js_find_index (\<lambda>rt. routeFingerprintFromRoute rt = dr_fingerprint d) (mg_routes m)";
      cases "fillMissingResponseHeaders (mg_routes m ! the (js_find_index (\<lambda>rt. routeFingerprintFromRoute rt = dr_fingerprint d) (mg_routes m))) (dr_route d)")
      (auto simp: merge_draft_def)
  then show ?thesis
  proof cases
    case some
    with js_find_index_Some [OF some(1)] filled_route [OF some(2)] True show ?thesis by (intro updated) auto
  qed (use True skipped in blast)
qed (use added in \<open>simp add: merge_draft_def\<close>)

text \<open>What holds between the library and a merge in progress.\<close>

definition merge_ok :: "route list \<Rightarrow> merge_state \<Rightarrow> bool" where
  "merge_ok existing m \<longleftrightarrow>
     length (mg_routes m) = length existing + mg_added m \<and>
     (\<forall>i < length existing. headers_filled (existing ! i) (mg_routes m ! i)) \<and>
     (\<forall>i < length (mg_routes m). length existing \<le> i \<longrightarrow> \<not> rt_enabled (mg_routes m ! i))"

lemma headers_filled_enabled: "headers_filled a b \<Longrightarrow> rt_enabled b = rt_enabled a"
  by (cases a; cases b) (simp add: headers_filled_def)

lemma merge_draft_ok:
  assumes "merge_ok existing m"
  shows "merge_ok existing (merge_draft m d)"
proof (cases rule: merge_draft_cases [where m = m and d = d])
  case (updated i filled)
  then show ?thesis using assms headers_filled_trans headers_filled_enabled
    by (auto simp: merge_ok_def nth_list_update)
qed (use assms in \<open>auto simp: merge_ok_def nth_append less_Suc_eq\<close>)

lemma merge_draft_count:
  "mg_added (merge_draft m d) + mg_skipped (merge_draft m d) + mg_updated (merge_draft m d) =
   Suc (mg_added m + mg_skipped m + mg_updated m)"
  by (cases rule: merge_draft_cases [where m = m and d = d]) simp_all

lemma merge_draft_seen:
  assumes "set (mg_seen m) = routeFingerprintFromRoute ` set (mg_routes m)" and "coherent_draft d"
  shows "set (mg_seen (merge_draft m d)) = routeFingerprintFromRoute ` set (mg_routes (merge_draft m d)) \<and>
    dr_fingerprint d \<in> set (mg_seen (merge_draft m d)) \<and> set (mg_seen m) \<subseteq> set (mg_seen (merge_draft m d))"
proof (cases rule: merge_draft_cases [where m = m and d = d])
  case (updated i filled)
  have "map routeFingerprintFromRoute ((mg_routes m)[i := filled]) = map routeFingerprintFromRoute (mg_routes m)"
    using updated(3,4) by (simp add: map_update) (metis list_update_id nth_map)
  then have "routeFingerprintFromRoute ` set ((mg_routes m)[i := filled]) = routeFingerprintFromRoute ` set (mg_routes m)"
    by (metis set_map)
  with updated(1,2) assms(1) show ?thesis by simp
qed (use assms in \<open>auto simp: coherent_draft_def\<close>)

lemma merge_all_seen:
  assumes "set (mg_seen m) = routeFingerprintFromRoute ` set (mg_routes m)" and "\<forall>d\<in>set ds. coherent_draft d"
  shows "set (mg_seen (foldl merge_draft m ds)) = routeFingerprintFromRoute ` set (mg_routes (foldl merge_draft m ds)) \<and>
    dr_fingerprint ` set ds \<subseteq> set (mg_seen (foldl merge_draft m ds))"
  using assms
proof (induction ds rule: rev_induct)
  case (snoc d ds)
  let ?m = "foldl merge_draft m ds"
  have IH: "set (mg_seen ?m) = routeFingerprintFromRoute ` set (mg_routes ?m)" "dr_fingerprint ` set ds \<subseteq> set (mg_seen ?m)"
    using snoc by auto
  have "coherent_draft d" using snoc.prems(2) by simp
  note merge_draft_seen [OF IH(1) this]
  with IH(2) show ?case unfolding foldl_append foldl.simps set_append image_Un by (simp only: list.set image_insert image_empty) blast
qed simp

lemma merge_known:
  assumes "dr_fingerprint ` set ds \<subseteq> set (mg_seen m)"
  shows "mg_added (foldl merge_draft m ds) = mg_added m \<and> mg_seen (foldl merge_draft m ds) = mg_seen m"
  using assms
proof (induction ds arbitrary: m)
  case (Cons d ds)
  have "mg_added (merge_draft m d) = mg_added m \<and> mg_seen (merge_draft m d) = mg_seen m"
    by (cases rule: merge_draft_cases [where m = m and d = d]) (use Cons.prems in auto)
  then show ?case using Cons by auto
qed simp

text \<open>C23. Merging drafts keeps the library: no route is lost or reordered, an existing route changes at most
in the headers of a response that had none, what is added comes after them and is disabled, and every
draft is counted once as added, skipped or updated. Merging the same drafts again adds nothing, if the
fingerprint of each is that of its route.\<close>

theorem merge_keeps_library:
  assumes "m = mergeRecordedDraftsIntoRoutes existing drafts"
  shows "length (mg_routes m) = length existing + mg_added m \<and>
    (\<forall>i < length existing. headers_filled (existing ! i) (mg_routes m ! i)) \<and>
    (\<forall>i < length (mg_routes m). length existing \<le> i \<longrightarrow> \<not> rt_enabled (mg_routes m ! i)) \<and>
    mg_added m + mg_skipped m + mg_updated m = length drafts \<and>
    ((\<forall>d\<in>set drafts. coherent_draft d) \<longrightarrow> mg_added (mergeRecordedDraftsIntoRoutes (mg_routes m) drafts) = 0)"
proof -
  let ?start = "\<lambda>rs. \<lparr>mg_seen = map routeFingerprintFromRoute rs, mg_routes = rs, mg_added = 0, mg_skipped = 0, mg_updated = 0\<rparr>"
  have "merge_ok existing (foldl merge_draft (?start existing) ds)" for ds
    by (induction ds rule: rev_induct) (simp_all add: merge_draft_ok, simp add: merge_ok_def)
  moreover have "mg_added (foldl merge_draft m ds) + mg_skipped (foldl merge_draft m ds) + mg_updated (foldl merge_draft m ds) =
      length ds + (mg_added m + mg_skipped m + mg_updated m)" for m ds
    by (induction ds rule: rev_induct) (simp_all add: merge_draft_count)
  moreover have "mg_added (mergeRecordedDraftsIntoRoutes (mg_routes m) drafts) = 0" if "\<forall>d\<in>set drafts. coherent_draft d"
  proof -
    have "dr_fingerprint ` set drafts \<subseteq> set (mg_seen (?start (mg_routes m)))"
      using merge_all_seen [of "?start existing" drafts] that by (auto simp: mergeRecordedDraftsIntoRoutes_def assms)
    from merge_known [OF this] show ?thesis by (simp add: mergeRecordedDraftsIntoRoutes_def)
  qed
  ultimately show ?thesis unfolding assms by (simp add: mergeRecordedDraftsIntoRoutes_def merge_ok_def)
qed

section \<open>Concrete exchanges\<close>

definition sample_conversion_env :: conversion_env where
  "sample_conversion_env = \<lparr>ce_host = sample_host, ce_uuid = (\<lambda>n. ''0a1b2c3d''), ce_clock = ''t''\<rparr>"

definition sample_source :: "int option \<Rightarrow> source_request" where
  "sample_source status = \<lparr>sq_method = ''get'', sq_path = ''/a'', sq_headers = Some [(''Accept'', ''x'')], sq_query = None,
     sq_cookies = None, sq_body = None, sq_contentType = None, sq_responseBody = None, sq_responseContentType = None,
     sq_priority = None, sq_status = status, sq_delayMs = None, sq_fault = None, sq_scenario = None, sq_predicates = None\<rparr>"

definition plain_options :: conversion_options where
  "plain_options = \<lparr>co_defaultPriority = None, co_defaultStatus = None, co_defaultResponseBody = None,
     co_defaultResponseContentType = None\<rparr>"

definition recorded_exchange :: "string \<Rightarrow> string \<Rightarrow> captured_request" where
  "recorded_exchange k v = (sample_request ''/a'')\<lparr>rq_headers := [(k, [v])]\<rparr>"

definition recorded_answer :: proxied_response where
  "recorded_answer = \<lparr>pc_status = 200, pc_headers = [(''X-API-Key'', One_Value ''k1'')], pc_body = [], pc_contentType = None\<rparr>"

lemma sample_lower:
  "js_lower ''Accept'' = ''accept''" "js_lower ''cookie'' = ''cookie''" "js_lower ''X-API-Key'' = ''x-api-key''"
  "js_lower ''x-api-key'' = ''x-api-key''" "js_lower ''authorization'' = ''authorization''"
  by code_simp+

lemma sample_importable: "importable (ce_host sample_conversion_env) (sample_source status)"
  by (simp add: importable_def sample_conversion_env_def sample_source_def or_else_default_def inferPathKind_def has_glob_char_def sample_host_def)

theorem imported_sample_passes_witness:
  "\<exists>si. sr_passed (fst (simulateSingle seeded_sim_env (cn_sample (convertSourceToRule sample_conversion_env (sample_source (Some 404)) plain_options))
     si None)) = Some False"
proof -
  define si where "si = (sample_input_of (sample_request ''/a''))
    \<lparr>sn_routes := [(cn_route (convertSourceToRule sample_conversion_env (sample_source (Some 404)) plain_options))\<lparr>rt_enabled := True\<rparr>],
     sn_basePath := None\<rparr>"
  have f: "sq_fault (sample_source (Some 404)) \<in> {None, Some Fault_none}" by (simp add: sample_source_def)
  have h: "se_host seeded_sim_env = ce_host sample_conversion_env" by (simp add: seeded_sim_env_def sample_conversion_env_def)
  have si: "sn_routes si = [(cn_route (convertSourceToRule sample_conversion_env (sample_source (Some 404)) plain_options))\<lparr>rt_enabled := True\<rparr>]"
    "sn_basePath si = None" by (simp_all add: si_def)
  from imported_sample_passes [OF sample_importable f refl si h refl, of None] show ?thesis
    by (auto simp: sample_source_def plain_options_def or_else_default_def)
qed

theorem recorded_secrets_redacted_witness:
  "list_all (\<lambda>v. list_all (\<lambda>rh. rh_value rh = ''[REDACTED]'') (rv_headers v))
     (rt_responses (cn_route (proxiedExchangeToDraft sample_conversion_env (sample_request ''/a'') recorded_answer
       \<lparr>rd_headerNames = [''x-api-key''], rd_jsonPaths = [], rd_preserveScheme = True\<rparr>)))"
  unfolding list_all_iff
proof (intro ballI)
  fix v rh
  let ?rd = "\<lparr>rd_headerNames = [''x-api-key''], rd_jsonPaths = [], rd_preserveScheme = True\<rparr>"
  assume v: "v \<in> set (rt_responses (cn_route (proxiedExchangeToDraft sample_conversion_env (sample_request ''/a'') recorded_answer ?rd)))"
    and rh: "rh \<in> set (rv_headers v)"
  have key: "(rh_key rh, raw) \<in> set (pc_headers recorded_answer) \<Longrightarrow> rh_key rh = ''X-API-Key'' \<and> raw = One_Value ''k1''" for raw
    by (simp add: recorded_answer_def)
  obtain uuid where "rh \<in> set (responseHeadersToVariant uuid (pc_headers recorded_answer) (rd_headerNames ?rd) (rd_preserveScheme ?rd))"
    using draft_fields(6) [of sample_conversion_env "sample_request ''/a''" recorded_answer ?rd] v rh by auto
  then have k: "rh_key rh = ''X-API-Key''" using variant_header_built key by blast
  note r = recorded_secrets_redacted [OF refl refl, of sample_conversion_env "sample_request ''/a''" recorded_answer ?rd]
  have "js_lower (rh_key rh) \<in> set (map js_lower (rd_headerNames ?rd))" by (simp add: k sample_lower)
  with r v rh obtain raw where raw: "(rh_key rh, raw) \<in> set (pc_headers recorded_answer)"
    "redacted_from (rd_preserveScheme ?rd) (joined_value raw) (rh_value rh)" by blast
  then have "redacted_from True ''k1'' (rh_value rh)" using key [OF raw(1)] by (simp add: joined_value_def)
  moreover have "scheme @ c # rest = ''k1'' \<Longrightarrow> js_is_space c \<Longrightarrow> False" for scheme c rest
    by (auto simp: Cons_eq_append_conv append_eq_Cons_conv js_is_space_def)
  ultimately show "rh_value rh = ''[REDACTED]''" unfolding redacted_from_def by metis
qed

theorem recorded_cookie_leaks_witness:
  "rec_get (rq_headers (sm_request (cn_sample (proxiedExchangeToDraft sample_conversion_env
     (recorded_exchange ''cookie'' ''sid=1; b=2'') recorded_answer (ss_redaction DEFAULT_SETTINGS))))) ''cookie'' =
   Some [''sid=1; [REDACTED]'']"
proof -
  have d: "distinct (map (js_lower \<circ> fst) (rq_headers (recorded_exchange ''cookie'' ''sid=1; b=2'')))"
    and m: "(''cookie'', [''sid=1'' @ '';'' @ '' '' @ ''b=2'']) \<in> set (rq_headers (recorded_exchange ''cookie'' ''sid=1; b=2''))"
    by (simp_all add: recorded_exchange_def)
  have n: "''cookie'' \<in> set (map js_lower (rd_headerNames (ss_redaction DEFAULT_SETTINGS)))"
    and p: "rd_preserveScheme (ss_redaction DEFAULT_SETTINGS)"
    by (simp_all add: DEFAULT_SETTINGS_def sample_lower)
  have s: "\<forall>c\<in>set ''sid=1''. \<not> js_is_space c" by code_simp
  from recorded_cookie_leaks [OF d m n p s] show ?thesis by simp
qed

theorem recorded_secret_rejects_witness:
  "\<not> accepts sample_host (recorded_exchange ''authorization'' ''Bearer abc'') []
     ((cn_route (proxiedExchangeToDraft sample_conversion_env (recorded_exchange ''authorization'' ''Bearer abc'') recorded_answer
        (ss_redaction DEFAULT_SETTINGS)))\<lparr>rt_enabled := True\<rparr>)"
proof
  let ?req = "recorded_exchange ''authorization'' ''Bearer abc''"
  assume a: "accepts sample_host ?req [] ((cn_route (proxiedExchangeToDraft sample_conversion_env ?req recorded_answer
        (ss_redaction DEFAULT_SETTINGS)))\<lparr>rt_enabled := True\<rparr>)"
  have d: "distinct (map (js_lower \<circ> fst) (rq_headers ?req))" "(''authorization'', [''Bearer abc'']) \<in> set (rq_headers ?req)"
    by (simp_all add: recorded_exchange_def)
  have n: "js_lower ''authorization'' \<in> set (map js_lower (rd_headerNames (ss_redaction DEFAULT_SETTINGS)))"
    "js_lower ''authorization'' \<notin> set unmatched_headers"
    by (simp_all add: DEFAULT_SETTINGS_def sample_lower unmatched_headers_def)
  have h: "ce_host sample_conversion_env = sample_host" by (simp add: sample_conversion_env_def)
  obtain vs where vs: "rec_get (rq_headers ?req) ''authorization'' = Some vs"
    "redact_header (rd_preserveScheme (ss_redaction DEFAULT_SETTINGS)) (js_join '', '' [''Bearer abc'']) \<in> set vs"
    using recorded_secret_rejects [OF d _ n, of sample_conversion_env ?req "[]" recorded_answer] a unfolding h sample_lower by blast
  have "vs = [''Bearer abc'']" using vs(1) by (simp add: recorded_exchange_def)
  moreover have "redact_header True ''Bearer abc'' = ''Bearer [REDACTED]''" by code_simp
  ultimately show False using vs(2) by (simp add: DEFAULT_SETTINGS_def)
qed

theorem merge_keeps_library_witness:
  "mg_added (mergeRecordedDraftsIntoRoutes (mg_routes (mergeRecordedDraftsIntoRoutes [] 
     [\<lparr>dr_id = ''d'', dr_fingerprint = routeFingerprintFromRoute (sample_route ''r'' ''/a''), dr_recordedAt = ''t'',
       dr_route = sample_route ''r'' ''/a'', dr_sample = \<lparr>sm_id = ''s'', sm_request = sample_request ''/a'', sm_expected = None\<rparr>,
       dr_diagnostics = []\<rparr>]))
     [\<lparr>dr_id = ''d'', dr_fingerprint = routeFingerprintFromRoute (sample_route ''r'' ''/a''), dr_recordedAt = ''t'',
       dr_route = sample_route ''r'' ''/a'', dr_sample = \<lparr>sm_id = ''s'', sm_request = sample_request ''/a'', sm_expected = None\<rparr>,
       dr_diagnostics = []\<rparr>]) = 0"
  (is "mg_added (mergeRecordedDraftsIntoRoutes (mg_routes (mergeRecordedDraftsIntoRoutes [] ?ds)) _) = 0")
  using merge_keeps_library [OF refl, of "[]" ?ds] by (simp add: coherent_draft_def)

end
