(* ===== verification/Callbacks.thy ===== *)
theory Callbacks
  imports Proxy Template_Engine
begin

text \<open>
  Outbound callbacks: the executor with its allowlist, its retries and their waits
  (\<open>src-server/api-mock/apiMockCallbackExecutor.ts\<close>) and its contracts
  (\<open>api-mock/callbackContracts.ts\<close>).

  The network of each attempt is an environment of its own (\<open>nets n\<close> for attempt \<open>n\<close>, from 0), as
  addresses may resolve differently from one attempt to the next; the template helpers draw from
  \<open>draws n i\<close> for header \<open>i\<close> of attempt \<open>n\<close> and from \<open>body_draws\<close> for the body. Beside its result a run
  returns the requests sent and the waits between them. The template engine never throws in this
  model, so the text itself is never delivered in its place.
\<close>

section \<open>Contracts\<close>

datatype callback_method = Cb_POST | Cb_PUT | Cb_PATCH

fun callback_method_name :: "callback_method \<Rightarrow> string" where
  "callback_method_name Cb_POST = ''POST''"
| "callback_method_name Cb_PUT = ''PUT''"
| "callback_method_name Cb_PATCH = ''PATCH''"

record api_callback =
  cl_id :: string
  cl_enabled :: bool
  cl_url :: string
  cl_method :: callback_method
  cl_headers :: "response_header list"
  cl_bodyTemplate :: string
  cl_timeoutMs :: int
  cl_maxRetries :: int

definition CALLBACK_maxRetries :: int where "CALLBACK_maxRetries = 5"
definition CALLBACK_timeoutMs :: int where "CALLBACK_timeoutMs = 60000"
definition CALLBACK_maxBodyBytes :: nat where "CALLBACK_maxBodyBytes = 262144"

definition DEFAULT_CALLBACK :: "string \<Rightarrow> api_callback" where
  "DEFAULT_CALLBACK i =
     \<lparr>cl_id = i, cl_enabled = False, cl_url = [], cl_method = Cb_POST, cl_headers = [],
      cl_bodyTemplate = ''{\"event\":\"mock.matched\",\"path\":\"{{request.path}}\"}'', cl_timeoutMs = 10000, cl_maxRetries = 3\<rparr>"

section \<open>The executor\<close>

record callback_result =
  cf_callbackId :: string
  cf_ok :: bool
  cf_attempts :: nat
  cf_status :: "int option"
  cf_error :: "string option"

record callback_run =
  cu_result :: callback_result
  cu_sent :: "proxy_request list"
  cu_waits :: "int list"

definition BACKOFF_MS :: "int list" where
  "BACKOFF_MS = [1000, 4000, 16000, 32000, 60000]"

definition backoff :: "nat \<Rightarrow> int" where
  "backoff attempt = BACKOFF_MS ! min attempt (length BACKOFF_MS - 1)"

definition buildCtxBody :: "template_env \<Rightarrow> template_context option \<Rightarrow> string \<Rightarrow> string" where
  "buildCtxBody env ctx template =
     (case ctx of None \<Rightarrow> template
      | Some c \<Rightarrow> if \<not> js_includes template ''{{'' then template else tr_output (renderTemplate env c template))"

definition callback_headers :: "(nat \<Rightarrow> template_env) \<Rightarrow> template_context option \<Rightarrow> api_callback \<Rightarrow> header_map" where
  "callback_headers envs ctx cb =
     foldl (\<lambda>out (i, hd). if \<not> rh_enabled hd \<or> rh_key hd = [] then out
              else rec_set out (rh_key hd) (One_Value (buildCtxBody (envs i) ctx (rh_value hd))))
       [(''content-type'', One_Value ''application/json'')] (enumerate 0 (cl_headers cb))"

definition callback_request :: "(nat \<Rightarrow> template_env) \<Rightarrow> template_context option \<Rightarrow> api_callback \<Rightarrow> string \<Rightarrow> string \<Rightarrow> proxy_request" where
  "callback_request envs ctx cb url body =
     \<lparr>pq_url = url, pq_method = callback_method_name (cl_method cb),
      pq_headers = flattenHeaders (addAntiRecursionHeader (callback_headers envs ctx cb)), pq_body = Some body\<rparr>"

definition fetch_error :: "fetch_result \<Rightarrow> string option" where
  "fetch_error f = (case f of Fetch_Error e \<Rightarrow> Some e
     | Fetched status _ _ \<Rightarrow> if 200 \<le> status \<and> status < 300 then None else Some (''HTTP '' @ js_int status))"

definition fetch_status :: "fetch_result \<Rightarrow> int option" where
  "fetch_status f = (case f of Fetch_Error _ \<Rightarrow> None | Fetched status _ _ \<Rightarrow> Some status)"

definition callback_failed :: "string \<Rightarrow> nat \<Rightarrow> string \<Rightarrow> callback_run" where
  "callback_failed i attempts e =
     \<lparr>cu_result = \<lparr>cf_callbackId = i, cf_ok = False, cf_attempts = attempts, cf_status = None, cf_error = Some e\<rparr>,
      cu_sent = [], cu_waits = []\<rparr>"

text \<open>What stops an attempt before anything is sent.\<close>

definition attempt_refused :: "proxy_env \<Rightarrow> string list \<Rightarrow> int list \<Rightarrow> bool \<Rightarrow> string \<Rightarrow> string option" where
  "attempt_refused net allowlist activePorts blockPrivate url =
     (case checkProxyUrl net url allowlist activePorts of
        Inl reason \<Rightarrow> Some reason
      | Inr _ \<Rightarrow> if blockPrivate then dns_check net url else None)"

fun callback_attempts ::
  "(nat \<Rightarrow> proxy_env) \<Rightarrow> (nat \<Rightarrow> string option) \<Rightarrow> (nat \<Rightarrow> proxy_request) \<Rightarrow> string \<Rightarrow> nat \<Rightarrow> nat \<Rightarrow> callback_run" where
  "callback_attempts nets refused req i attempt left =
     (case refused attempt of
        Some e \<Rightarrow> callback_failed i (attempt + 1) e
      | None \<Rightarrow>
          (let f = fetch (nets attempt) attempt (req attempt)
           in case fetch_error f of
                None \<Rightarrow> \<lparr>cu_result = \<lparr>cf_callbackId = i, cf_ok = True, cf_attempts = attempt + 1, cf_status = fetch_status f,
                           cf_error = None\<rparr>, cu_sent = [req attempt], cu_waits = []\<rparr>
              | Some e \<Rightarrow>
                  (case left of
                     0 \<Rightarrow> (callback_failed i (attempt + 1) e)\<lparr>cu_sent := [req attempt]\<rparr>
                   | Suc left' \<Rightarrow>
                       (let later = callback_attempts nets refused req i (attempt + 1) left'
                        in later\<lparr>cu_sent := req attempt # cu_sent later, cu_waits := backoff attempt # cu_waits later\<rparr>))))"

declare callback_attempts.simps [simp del]

definition retries :: "api_callback \<Rightarrow> nat" where
  "retries cb = nat (min (max 0 (cl_maxRetries cb)) CALLBACK_maxRetries)"

definition executeCallback ::
  "(nat \<Rightarrow> proxy_env) \<Rightarrow> (nat \<Rightarrow> nat \<Rightarrow> template_env) \<Rightarrow> template_env \<Rightarrow> string list \<Rightarrow> int list \<Rightarrow> template_context option \<Rightarrow> bool
     \<Rightarrow> api_callback \<Rightarrow> callback_run" where
  "executeCallback nets draws body_draws allowlist activePorts ctx blockPrivate cb =
     (let url = js_trim (cl_url cb); body = buildCtxBody body_draws ctx (cl_bodyTemplate cb)
      in if \<not> cl_enabled cb then callback_failed (cl_id cb) 0 ''disabled''
         else if url = [] then callback_failed (cl_id cb) 0 ''empty url''
         else if url \<notin> set allowlist then callback_failed (cl_id cb) 0 ''URL not in callback allowlist''
         else if CALLBACK_maxBodyBytes < utf8_length body then callback_failed (cl_id cb) 0 ''Callback body exceeds ceiling''
         else callback_attempts nets (\<lambda>n. attempt_refused (nets n) allowlist activePorts blockPrivate url)
                (\<lambda>n. callback_request (draws n) ctx cb url body) (cl_id cb) 0 (retries cb))"

text \<open>All enabled callbacks, each on its own: the results in the order of the callbacks.\<close>

definition executeCallbacks ::
  "(nat \<Rightarrow> nat \<Rightarrow> proxy_env) \<Rightarrow> (nat \<Rightarrow> nat \<Rightarrow> nat \<Rightarrow> template_env) \<Rightarrow> (nat \<Rightarrow> template_env) \<Rightarrow> string list \<Rightarrow> int list
     \<Rightarrow> template_context option \<Rightarrow> bool \<Rightarrow> api_callback list \<Rightarrow> callback_run list" where
  "executeCallbacks nets draws body_draws allowlist activePorts ctx blockPrivate callbacks =
     map (\<lambda>(i, cb). executeCallback (nets i) (draws i) (body_draws i) allowlist activePorts ctx blockPrivate cb)
       (enumerate 0 (filter cl_enabled callbacks))"

section \<open>What a run does\<close>

text \<open>The attempts from \<open>attempt\<close> on that are reached: all before are refused by nothing and failed.\<close>

definition attempt_failed :: "(nat \<Rightarrow> proxy_env) \<Rightarrow> (nat \<Rightarrow> string option) \<Rightarrow> (nat \<Rightarrow> proxy_request) \<Rightarrow> nat \<Rightarrow> bool" where
  "attempt_failed nets refused req n \<longleftrightarrow> refused n = None \<and> fetch_error (fetch (nets n) n (req n)) \<noteq> None"

lemma callback_attempts_run:
  assumes "\<forall>j<k. attempt_failed nets refused req (a + j)"
    and "k \<le> left" and "k = left \<or> \<not> attempt_failed nets refused req (a + k)"
    and "r = callback_attempts nets refused req i a left"
  shows "cf_attempts (cu_result r) = a + k + 1 \<and> cu_waits r = map backoff [a..<a + k] \<and>
    cu_sent r = map req [a..<a + k] @ (if refused (a + k) = None then [req (a + k)] else []) \<and>
    cf_callbackId (cu_result r) = i \<and>
    cf_ok (cu_result r) = (refused (a + k) = None \<and> fetch_error (fetch (nets (a + k)) (a + k) (req (a + k))) = None) \<and>
    cf_status (cu_result r) = (if cf_ok (cu_result r) then fetch_status (fetch (nets (a + k)) (a + k) (req (a + k))) else None) \<and>
    cf_error (cu_result r) = (case refused (a + k) of Some e \<Rightarrow> Some e | None \<Rightarrow> fetch_error (fetch (nets (a + k)) (a + k) (req (a + k))))"
  using assms
proof (induction left arbitrary: a k r)
  case 0
  then show ?case
    by (subst (asm) callback_attempts.simps) (auto simp: callback_failed_def Let_def attempt_failed_def split: option.splits)
next
  case (Suc left)
  show ?case
  proof (cases k)
    case 0
    with Suc.prems have "\<not> attempt_failed nets refused req a" by simp
    with 0 Suc.prems(4) show ?thesis
      by (subst (asm) callback_attempts.simps) (auto simp: callback_failed_def Let_def attempt_failed_def split: option.splits)
  next
    case (Suc k')
    have f: "attempt_failed nets refused req a" using Suc.prems(1) Suc by force
    have p: "\<forall>j<k'. attempt_failed nets refused req (a + 1 + j)" using Suc.prems(1) Suc by force
    have q: "k' \<le> left" "k' = left \<or> \<not> attempt_failed nets refused req (a + 1 + k')" using Suc.prems(2,3) Suc by auto
    note IH = Suc.IH [OF p q refl]
    have r: "r = (callback_attempts nets refused req i (a + 1) left)
        \<lparr>cu_sent := req a # cu_sent (callback_attempts nets refused req i (a + 1) left),
         cu_waits := backoff a # cu_waits (callback_attempts nets refused req i (a + 1) left)\<rparr>"
      using f Suc.prems(4) by (subst (asm) callback_attempts.simps) (auto simp: attempt_failed_def Let_def split: option.splits)
    have e: "a + 1 + k' = a + k" and u: "[a..<a + k] = a # [a + 1..<a + k]" using Suc by (simp_all add: upt_conv_Cons)
    show ?thesis using IH unfolding e r u by simp
  qed
qed

lemma first_failure_index:
  obtains k where "k \<le> left" and "\<forall>j<k. P (a + j)" and "k = left \<or> \<not> P (a + k :: nat)"
proof (cases "\<exists>k\<le>left. \<not> P (a + k)")
  case True
  then obtain k where "k \<le> left" "\<not> P (a + k)" "\<forall>j<k. P (a + j)"
    using exists_least_iff [of "\<lambda>k. k \<le> left \<and> \<not> P (a + k)"] by (metis le_trans less_imp_le)
  with that show ?thesis by blast
qed (use that [of left] in auto)

lemma anti_recursion_added: "rec_get (flattenHeaders (addAntiRecursionHeader hs)) ANTI_RECURSION_HEADER = Some ''true''"
  by (simp add: rec_get_flatten addAntiRecursionHeader_def join_values_def)

text \<open>C24. A callback goes nowhere but to its own address: every request it sends has that address, which
is in the allowlist of the settings and passes the policy of the proxy and, where private networks are
blocked, the name check at that attempt; it carries the mark against recursion and a body within the
ceiling, and there are at most six. A disabled callback sends nothing.\<close>

theorem callback_confined:
  assumes "r = executeCallback nets draws body_draws allowlist activePorts ctx blockPrivate cb"
  shows "(\<forall>n < length (cu_sent r). let q = cu_sent r ! n in
      pq_url q = js_trim (cl_url cb) \<and> pq_url q \<in> set allowlist \<and>
      (\<exists>host. checkProxyUrl (nets n) (pq_url q) allowlist activePorts = Inr host) \<and>
      (blockPrivate \<longrightarrow> dns_check (nets n) (pq_url q) = None) \<and>
      rec_get (pq_headers q) ANTI_RECURSION_HEADER = Some ''true'' \<and>
      (\<exists>body. pq_body q = Some body \<and> utf8_length body \<le> CALLBACK_maxBodyBytes)) \<and>
    length (cu_sent r) \<le> retries cb + 1 \<and> retries cb \<le> 5 \<and> (\<not> cl_enabled cb \<longrightarrow> cu_sent r = [])"
proof -
  define url body where "url = js_trim (cl_url cb)" and "body = buildCtxBody body_draws ctx (cl_bodyTemplate cb)"
  define refused where "refused = (\<lambda>n. attempt_refused (nets n) allowlist activePorts blockPrivate url)"
  define req where "req = (\<lambda>n. callback_request (draws n) ctx cb url body)"
  have five: "retries cb \<le> 5" by (simp add: retries_def CALLBACK_maxRetries_def)
  have none: "cu_sent (callback_failed i n e) = []" for i n e by (simp add: callback_failed_def)
  show ?thesis
  proof (cases "cl_enabled cb \<and> url \<noteq> [] \<and> url \<in> set allowlist \<and> utf8_length body \<le> CALLBACK_maxBodyBytes")
    case False
    then have "cu_sent r = []" unfolding assms executeCallback_def Let_def url_def body_def by (auto simp: none)
    with five show ?thesis by simp
  next
    case True
    obtain k where k: "k \<le> retries cb" "\<forall>j<k. attempt_failed nets refused req (0 + j)"
      "k = retries cb \<or> \<not> attempt_failed nets refused req (0 + k)" by (rule first_failure_index)
    have r: "r = callback_attempts nets refused req (cl_id cb) 0 (retries cb)"
      using True unfolding assms executeCallback_def Let_def url_def body_def refused_def req_def by simp
    have sent: "cu_sent r = map req [0..<k] @ (if refused k = None then [req k] else [])"
      using callback_attempts_run [OF k(2,1,3) r] by simp
    have nth: "cu_sent r ! n = req n \<and> refused n = None" if "n < length (cu_sent r)" for n
      using that k(2) unfolding sent by (auto simp: nth_append attempt_failed_def less_Suc_eq split: if_splits)
    have "let q = req n in pq_url q = url \<and> pq_url q \<in> set allowlist \<and>
      (\<exists>host. checkProxyUrl (nets n) (pq_url q) allowlist activePorts = Inr host) \<and>
      (blockPrivate \<longrightarrow> dns_check (nets n) (pq_url q) = None) \<and>
      rec_get (pq_headers q) ANTI_RECURSION_HEADER = Some ''true'' \<and>
      (\<exists>body. pq_body q = Some body \<and> utf8_length body \<le> CALLBACK_maxBodyBytes)" if "refused n = None" for n
      using that True
      by (auto simp: req_def callback_request_def refused_def attempt_refused_def anti_recursion_added split: sum.splits)
    with nth have "\<forall>n < length (cu_sent r). let q = cu_sent r ! n in
      pq_url q = js_trim (cl_url cb) \<and> pq_url q \<in> set allowlist \<and>
      (\<exists>host. checkProxyUrl (nets n) (pq_url q) allowlist activePorts = Inr host) \<and>
      (blockPrivate \<longrightarrow> dns_check (nets n) (pq_url q) = None) \<and>
      rec_get (pq_headers q) ANTI_RECURSION_HEADER = Some ''true'' \<and>
      (\<exists>body. pq_body q = Some body \<and> utf8_length body \<le> CALLBACK_maxBodyBytes)" by (simp add: url_def [symmetric])
    moreover have "length (cu_sent r) \<le> retries cb + 1" using k(1) unfolding sent by simp
    ultimately show ?thesis using five True by simp
  qed
qed

lemma total_backoff: "k \<le> 5 \<Longrightarrow> sum_list (map backoff [0..<k]) \<le> 113000"
proof -
  assume "k \<le> 5"
  then consider "k = 0" | "k = 1" | "k = 2" | "k = 3" | "k = 4" | "k = 5" by linarith
  then show ?thesis by cases (simp_all add: backoff_def BACKOFF_MS_def upt_rec)
qed

text \<open>The retries: while the policy lets the attempts through, the run stops at the first answer with
a success status and reports it, or fails with the error of the last attempt after one attempt more than
the retries allowed; it waits between the attempts only, longer each time, and never more than 113
seconds in all.\<close>

theorem callback_retries:
  assumes "cl_enabled cb" and "js_trim (cl_url cb) = url" and "url \<noteq> []" and "url \<in> set allowlist"
    and "buildCtxBody body_draws ctx (cl_bodyTemplate cb) = body" and "utf8_length body \<le> CALLBACK_maxBodyBytes"
    and "\<forall>n. attempt_refused (nets n) allowlist activePorts blockPrivate url = None"
    and "answer = (\<lambda>n. fetch (nets n) n (callback_request (draws n) ctx cb url body))"
    and "r = executeCallback nets draws body_draws allowlist activePorts ctx blockPrivate cb"
  shows "(\<forall>k \<le> retries cb. fetch_error (answer k) = None \<and> (\<forall>j<k. fetch_error (answer j) \<noteq> None) \<longrightarrow>
      cu_result r = \<lparr>cf_callbackId = cl_id cb, cf_ok = True, cf_attempts = k + 1, cf_status = fetch_status (answer k), cf_error = None\<rparr> \<and>
      cu_waits r = map backoff [0..<k]) \<and>
    ((\<forall>j \<le> retries cb. fetch_error (answer j) \<noteq> None) \<longrightarrow>
      cu_result r = \<lparr>cf_callbackId = cl_id cb, cf_ok = False, cf_attempts = retries cb + 1, cf_status = None,
        cf_error = fetch_error (answer (retries cb))\<rparr> \<and>
      cu_waits r = map backoff [0..<retries cb]) \<and>
    sum_list (cu_waits r) \<le> 113000"
proof -
  define refused where "refused = (\<lambda>n. attempt_refused (nets n) allowlist activePorts blockPrivate url)"
  define req where "req = (\<lambda>n. callback_request (draws n) ctx cb url body)"
  have r: "r = callback_attempts nets refused req (cl_id cb) 0 (retries cb)"
    using assms(1,3,4,6) unfolding assms(9) executeCallback_def Let_def assms(2,5) refused_def req_def by simp
  have admitted: "refused n = None" for n using assms(7) by (simp add: refused_def)
  have failed: "attempt_failed nets refused req n \<longleftrightarrow> fetch_error (answer n) \<noteq> None" for n
    by (simp add: attempt_failed_def admitted assms(8) req_def)
  have run: "cu_result r = \<lparr>cf_callbackId = cl_id cb, cf_ok = (fetch_error (answer k) = None), cf_attempts = k + 1,
      cf_status = (if fetch_error (answer k) = None then fetch_status (answer k) else None), cf_error = fetch_error (answer k)\<rparr> \<and>
      cu_waits r = map backoff [0..<k]"
    if k: "k \<le> retries cb" "\<forall>j<k. fetch_error (answer j) \<noteq> None" "k = retries cb \<or> fetch_error (answer k) = None" for k
    using callback_attempts_run [of k nets refused req 0 "retries cb" r "cl_id cb"] k r
    by (simp add: failed admitted) (cases "cu_result r", simp add: assms(8) req_def)
  obtain k where k: "k \<le> retries cb" "\<forall>j<k. fetch_error (answer (0 + j)) \<noteq> None" "k = retries cb \<or> \<not> fetch_error (answer (0 + k)) \<noteq> None"
    by (rule first_failure_index)
  have "sum_list (cu_waits r) \<le> 113000"
    using run [of k] k total_backoff [of k] by (simp add: retries_def CALLBACK_maxRetries_def)
  moreover have "cu_result r = \<lparr>cf_callbackId = cl_id cb, cf_ok = False, cf_attempts = retries cb + 1, cf_status = None,
        cf_error = fetch_error (answer (retries cb))\<rparr> \<and> cu_waits r = map backoff [0..<retries cb]"
    if "\<forall>j \<le> retries cb. fetch_error (answer j) \<noteq> None"
  proof -
    have "\<forall>j < retries cb. fetch_error (answer j) \<noteq> None" "fetch_error (answer (retries cb)) \<noteq> None" using that by auto
    with run [of "retries cb"] show ?thesis by simp
  qed
  ultimately show ?thesis using run by simp
qed

section \<open>A concrete callback\<close>

definition sample_net :: "nat \<Rightarrow> proxy_env" where
  "sample_net n =
     \<lparr>url_parse = (\<lambda>u. Some \<lparr>up_protocol = ''https:'', up_hostname = ''h.example'', up_port = []\<rparr>), url_resolve = (\<lambda>a b. None),
      url_target = (\<lambda>u. None), dns_check = (\<lambda>u. None),
      fetch = (\<lambda>k q. if k = 0 then Fetched 503 [] [] else Fetched 204 [] []), utf8_decode = (\<lambda>s. s)\<rparr>"

definition sample_callback :: api_callback where
  "sample_callback = (DEFAULT_CALLBACK ''c'')\<lparr>cl_enabled := True, cl_url := ''https://h.example/x'', cl_bodyTemplate := ''{}''\<rparr>"

definition plain_draws :: template_env where
  "plain_draws = \<lparr>te_host = sample_host, te_uuid = (\<lambda>n. []), te_clock = (\<lambda>n. []), te_random = (\<lambda>n. 0)\<rparr>"

lemma sample_callback_open: "attempt_refused (sample_net n) [''https://h.example/x''] [] True ''https://h.example/x'' = None"
  by (simp add: attempt_refused_def checkProxyUrl_def sample_net_def) code_simp

theorem callback_confined_witness:
  "list_all (\<lambda>q. pq_url q = ''https://h.example/x'')
     (cu_sent (executeCallback sample_net (\<lambda>n i. plain_draws) plain_draws [''https://h.example/x''] [] None True sample_callback))"
  unfolding list_all_iff
proof
  let ?r = "executeCallback sample_net (\<lambda>n i. plain_draws) plain_draws [''https://h.example/x''] [] None True sample_callback"
  fix q
  assume "q \<in> set (cu_sent ?r)"
  then obtain n where n: "n < length (cu_sent ?r)" "q = cu_sent ?r ! n" by (metis in_set_conv_nth)
  have u: "js_trim (cl_url sample_callback) = ''https://h.example/x''" by code_simp
  from callback_confined [OF refl, of sample_net "\<lambda>n i. plain_draws" plain_draws "[''https://h.example/x'']" "[]" None True sample_callback] n
  have "pq_url q = js_trim (cl_url sample_callback)" unfolding Let_def by blast
  then show "pq_url q = ''https://h.example/x''" unfolding u .
qed

theorem callback_retries_witness:
  "cf_attempts (cu_result (executeCallback sample_net (\<lambda>n i. plain_draws) plain_draws [''https://h.example/x''] [] None True sample_callback)) = 2"
proof -
  have u: "js_trim (cl_url sample_callback) = ''https://h.example/x''" by code_simp
  have e: "cl_enabled sample_callback" by (simp add: sample_callback_def)
  have b: "buildCtxBody plain_draws None (cl_bodyTemplate sample_callback) = ''{}''" by (simp add: buildCtxBody_def sample_callback_def)
  have c: "utf8_length ''{}'' \<le> CALLBACK_maxBodyBytes" by (simp add: utf8_length_def CALLBACK_maxBodyBytes_def)
  have r: "retries sample_callback = 3" by code_simp
  have m: "''https://h.example/x'' \<in> set [''https://h.example/x'']" by simp
  have ne: "''https://h.example/x'' \<noteq> []" by simp
  have admitted: "\<forall>n. attempt_refused (sample_net n) [''https://h.example/x''] [] True ''https://h.example/x'' = None"
    using sample_callback_open by blast
  note t = callback_retries [OF e u ne m b c admitted refl refl, of "\<lambda>n i. plain_draws", THEN conjunct1, THEN spec, THEN mp, THEN mp, of 1]
  let ?answer = "\<lambda>n. fetch (sample_net n) n (callback_request ((\<lambda>n i. plain_draws) n) None sample_callback ''https://h.example/x'' ''{}'')"
  have a: "fetch_error (?answer 0) \<noteq> None" "fetch_error (?answer 1) = None" by (simp_all add: sample_net_def fetch_error_def)
  have one: "1 \<le> retries sample_callback" by (simp add: r)
  have "fetch_error (?answer 1) = None \<and> (\<forall>j<1. fetch_error (?answer j) \<noteq> None)" using a by simp
  from t [OF one this] have "cf_attempts (cu_result (executeCallback sample_net (\<lambda>n i. plain_draws) plain_draws
      [''https://h.example/x''] [] None True sample_callback)) = 1 + 1" by (simp only: callback_result.select_convs simp_thms)
  then show ?thesis by simp
qed

end
