(* ===== verification/Server_Pool.thy ===== *)
theory Server_Pool
  imports Listener Recording
begin

text \<open>
  The pool of mock servers (\<open>src-server/api-mock/ApiMockServerPool.ts\<close>): listeners by server id, their
  start, stop, restart and commit, the ports they own, and the recorded drafts of each server.

  Listeners are objects: an entry refers to one by its number in \<open>pl_listeners\<close>, and a listener that no
  entry refers to any more is still there. A start and a stop wait for the operating system; what happens
  before and after the wait are two steps, between which any others may run. A port can be bound once:
  binding fails if another listener has it, or if a process outside has it (\<open>free\<close> is then false).
\<close>

section \<open>State\<close>

record pool_entry =
  pe_port :: int
  pe_state :: server_state
  pe_listener :: nat
  pe_generation :: nat

record pool_status =
  pu_serverId :: string
  pu_port :: int
  pu_state :: server_state
  pu_generation :: nat

record server_pool =
  pl_entries :: "pool_entry record_bag"
  pl_drafts :: "recorded_draft list record_bag"
  pl_hasHandler :: bool
  pl_listeners :: "listener list"
  pl_starting :: "nat list" \<comment> \<open>listeners whose start awaits the operating system\<close>
  pl_stopping :: "(string \<times> nat \<times> server_definition option) list"
    \<comment> \<open>stops that await the end of the drain, with what a restart starts next\<close>

definition new_pool :: "bool \<Rightarrow> server_pool" where
  "new_pool handler = \<lparr>pl_entries = [], pl_drafts = [], pl_hasHandler = handler, pl_listeners = [], pl_starting = [], pl_stopping = []\<rparr>"

abbreviation listener_of :: "server_pool \<Rightarrow> pool_entry \<Rightarrow> listener" where
  "listener_of p e \<equiv> pl_listeners p ! pe_listener e"

definition on_listener :: "nat \<Rightarrow> (listener \<Rightarrow> listener) \<Rightarrow> server_pool \<Rightarrow> server_pool" where
  "on_listener j f p = p\<lparr>pl_listeners := (pl_listeners p)[j := f (pl_listeners p ! j)]\<rparr>"

section \<open>Recorded drafts\<close>

definition MAX_RECORDED_DRAFTS :: nat where "MAX_RECORDED_DRAFTS = 200"

definition push_draft :: "recorded_draft list \<Rightarrow> recorded_draft \<Rightarrow> recorded_draft list" where
  "push_draft ds d =
     (if list_ex (\<lambda>x. dr_fingerprint x = dr_fingerprint d) ds then ds
      else (let ds' = ds @ [d] in drop (length ds' - MAX_RECORDED_DRAFTS) ds'))"

definition pushRecordedDraft :: "string \<Rightarrow> recorded_draft \<Rightarrow> server_pool \<Rightarrow> server_pool" where
  "pushRecordedDraft i d p =
     (let ds = rec_get_or [] (pl_drafts p) i
      in if list_ex (\<lambda>x. dr_fingerprint x = dr_fingerprint d) ds then p
         else p\<lparr>pl_drafts := rec_set (pl_drafts p) i (push_draft ds d)\<rparr>)"

definition getRecordedDrafts :: "string \<Rightarrow> server_pool \<Rightarrow> recorded_draft list" where
  "getRecordedDrafts i p = rec_get_or [] (pl_drafts p) i"

definition clearRecordedDrafts :: "string \<Rightarrow> server_pool \<Rightarrow> server_pool" where
  "clearRecordedDrafts i p = p\<lparr>pl_drafts := rec_del (pl_drafts p) i\<rparr>"

definition acknowledgeRecordedDrafts :: "string \<Rightarrow> string list \<Rightarrow> server_pool \<Rightarrow> nat \<times> server_pool" where
  "acknowledgeRecordedDrafts i ids p =
     (case rec_get (pl_drafts p) i of
        None \<Rightarrow> (0, p)
      | Some ds \<Rightarrow>
          (if ds = [] then (0, p)
           else (let next = filter (\<lambda>d. dr_id d \<notin> set ids) ds
                 in (length ds - length next,
                     p\<lparr>pl_drafts := (if next \<noteq> [] then rec_set (pl_drafts p) i next else rec_del (pl_drafts p) i)\<rparr>))))"

section \<open>Ports\<close>

text \<open>An entry owns its port while it is not stopped or its listener runs.\<close>

definition owns_port :: "server_pool \<Rightarrow> pool_entry \<Rightarrow> bool" where
  "owns_port p e = (pe_state e \<noteq> St_stopped \<or> isRunning (listener_of p e))"

definition reservedPorts :: "server_pool \<Rightarrow> int list" where
  "reservedPorts p = map pe_port (filter (owns_port p) (map snd (pl_entries p)))"

definition AUTO_PORT_RANGE :: "int list" where
  "AUTO_PORT_RANGE = map (\<lambda>i. 4600 + int i) [0..<100]"

text \<open>\<open>available\<close> is the probe of the operating system. The second look at the reserved ports may see a
later pool than the first, which waited for a probe.\<close>

definition allocatePort :: "(int \<Rightarrow> bool) \<Rightarrow> int option \<Rightarrow> int list \<Rightarrow> int list \<Rightarrow> string + int" where
  "allocatePort available preferred reserved reserved' =
     (case Option.bind preferred (\<lambda>n. if 1024 \<le> n \<and> n \<le> 65535 \<and> n \<notin> set reserved \<and> available n then Some n else None) of
        Some n \<Rightarrow> Inr n
      | None \<Rightarrow> (case find (\<lambda>k. k \<notin> set reserved' \<and> available k) AUTO_PORT_RANGE of
                  Some k \<Rightarrow> Inr k | None \<Rightarrow> Inl ''No available port in 4600-4699''))"

section \<open>Start, stop, restart, commit\<close>

definition start_refused :: "server_definition \<Rightarrow> server_pool \<Rightarrow> string option" where
  "start_refused d p =
     (case find (\<lambda>e. isRunning (listener_of p e)) (case rec_get (pl_entries p) (sd_id d) of None \<Rightarrow> [] | Some e \<Rightarrow> [e]) of
        Some e \<Rightarrow> Some (''Server \"'' @ sd_id d @ ''\" is already running on port '' @ js_int (pe_port e))
      | None \<Rightarrow>
          (case find (\<lambda>(i, e). pe_port e = sd_port d \<and> i \<noteq> sd_id d \<and> owns_port p e) (pl_entries p) of
             Some (i, e) \<Rightarrow> Some (''Port '' @ js_int (sd_port d) @ '' is owned by server \"'' @ i @ ''\"'')
           | None \<Rightarrow> None))"

text \<open>\<open>start\<close> up to its wait: the number of the new listener, or the error.\<close>

definition start_request :: "server_definition \<Rightarrow> server_pool \<Rightarrow> (string + nat) \<times> server_pool" where
  "start_request d p =
     (case start_refused d p of
        Some e \<Rightarrow> (Inl e, p)
      | None \<Rightarrow> (Inr (length (pl_listeners p)),
          p\<lparr>pl_listeners := pl_listeners p @ [new_listener (sd_id d) d (pl_hasHandler p)],
            pl_starting := pl_starting p @ [length (pl_listeners p)]\<rparr>))"

definition port_bound :: "server_pool \<Rightarrow> int \<Rightarrow> bool" where
  "port_bound p n = list_ex (\<lambda>l. ls_server l \<and> ls_port l = n) (pl_listeners p)"

text \<open>The rest of \<open>start\<close>, when the operating system has answered.\<close>

definition start_finish :: "nat \<Rightarrow> bool \<Rightarrow> server_pool \<Rightarrow> (string + pool_status) \<times> server_pool" where
  "start_finish j free p =
     (let l = pl_listeners p ! j;
          p1 = p\<lparr>pl_starting := removeAll j (pl_starting p)\<rparr>
      in case listener_start (free \<and> \<not> port_bound p (sd_port (ls_definition l))) l of
           (Inl e, l') \<Rightarrow> (Inl e, p1\<lparr>pl_listeners := (pl_listeners p)[j := l']\<rparr>)
         | (Inr (port, generation), l') \<Rightarrow>
             (Inr \<lparr>pu_serverId = ls_serverId l, pu_port = port, pu_state = St_running, pu_generation = generation\<rparr>,
              p1\<lparr>pl_listeners := (pl_listeners p)[j := l'],
                 pl_entries := rec_set (pl_entries p) (ls_serverId l)
                   \<lparr>pe_port = port, pe_state = St_running, pe_listener = j, pe_generation = generation\<rparr>\<rparr>))"

definition status_of :: "string \<Rightarrow> pool_entry \<Rightarrow> server_state \<Rightarrow> pool_status" where
  "status_of i e st = \<lparr>pu_serverId = i, pu_port = pe_port e, pu_state = st, pu_generation = pe_generation e\<rparr>"

text \<open>\<open>stop\<close> up to its wait; \<open>None\<close> where it waits.\<close>

definition stop_request :: "string \<Rightarrow> server_definition option \<Rightarrow> server_pool \<Rightarrow> (string + pool_status option) \<times> server_pool" where
  "stop_request i after p =
     (case rec_get (pl_entries p) i of
        None \<Rightarrow> (Inl (''Server \"'' @ i @ ''\" not found''), p)
      | Some e \<Rightarrow>
          (if \<not> isRunning (listener_of p e) then
             (Inr (Some (status_of i e St_stopped)), p\<lparr>pl_entries := rec_set (pl_entries p) i (e\<lparr>pe_state := St_stopped\<rparr>)\<rparr>)
           else
             (Inr None, (on_listener (pe_listener e) stop_begin p)
                \<lparr>pl_entries := rec_set (pl_entries p) i (e\<lparr>pe_state := St_draining\<rparr>),
                 pl_stopping := pl_stopping p @ [(i, pe_listener e, after)]\<rparr>)))"

text \<open>The end of the drain. The entry that is stopped is the object the stop began with, which a start
may have replaced in the map; a restart goes on to its start.\<close>

definition stop_settled :: "string \<Rightarrow> nat \<Rightarrow> nat \<Rightarrow> server_pool \<Rightarrow> server_pool" where
  "stop_settled i j k p =
     (let p1 = (on_listener j stop_end p)\<lparr>pl_stopping := take k (pl_stopping p) @ drop (Suc k) (pl_stopping p)\<rparr>
      in case rec_get (pl_entries p1) i of
           None \<Rightarrow> p1
         | Some e \<Rightarrow> if pe_listener e = j then p1\<lparr>pl_entries := rec_set (pl_entries p1) i (e\<lparr>pe_state := St_stopped\<rparr>)\<rparr> else p1)"

definition stop_finish :: "nat \<Rightarrow> server_pool \<Rightarrow> server_pool" where
  "stop_finish k p =
     (case js_nth (pl_stopping p) k of
        None \<Rightarrow> p
      | Some (i, j, after) \<Rightarrow>
          (case after of None \<Rightarrow> stop_settled i j k p | Some d \<Rightarrow> snd (start_request d (stop_settled i j k p))))"

definition restart_request :: "server_definition \<Rightarrow> server_pool \<Rightarrow> server_pool" where
  "restart_request d p =
     (case rec_get (pl_entries p) (sd_id d) of
        Some e \<Rightarrow> if isRunning (listener_of p e) then snd (stop_request (sd_id d) (Some d) p) else snd (start_request d p)
      | None \<Rightarrow> snd (start_request d p))"

definition pool_commit :: "string \<Rightarrow> server_definition \<Rightarrow> server_pool \<Rightarrow> (string + pool_status) \<times> server_pool" where
  "pool_commit i d p =
     (case rec_get (pl_entries p) i of
        None \<Rightarrow> (Inl (''Server \"'' @ i @ ''\" is not running''), p)
      | Some e \<Rightarrow>
          (if \<not> isRunning (listener_of p e) then (Inl (''Server \"'' @ i @ ''\" is not running''), p)
           else (case listener_commit d (listener_of p e) of
                   (gen, l') \<Rightarrow>
                     (Inr (status_of i (e\<lparr>pe_generation := gen\<rparr>) St_running),
                      (on_listener (pe_listener e) (\<lambda>_. l') p)
                        \<lparr>pl_entries := rec_set (pl_entries p) i (e\<lparr>pe_generation := gen\<rparr>)\<rparr>))))"

section \<open>Reading\<close>

definition pool_status :: "string \<Rightarrow> server_pool \<Rightarrow> pool_status option" where
  "pool_status i p = map_option (\<lambda>e. status_of i e (if isRunning (listener_of p e) then St_running else St_stopped))
     (rec_get (pl_entries p) i)"

definition pool_list :: "server_pool \<Rightarrow> pool_status list" where
  "pool_list p = map (\<lambda>(i, e). status_of i e (if isRunning (listener_of p e) then St_running else St_stopped)) (pl_entries p)"

definition running_listener :: "string \<Rightarrow> server_pool \<Rightarrow> listener option" where
  "running_listener i p =
     (case rec_get (pl_entries p) i of
        None \<Rightarrow> None
      | Some e \<Rightarrow> if isRunning (listener_of p e) then Some (listener_of p e) else None)"

definition getScenarioState :: "string \<Rightarrow> server_pool \<Rightarrow> scenario_state option" where
  "getScenarioState i p = map_option ls_scenario (running_listener i p)"

definition getSequenceState :: "string \<Rightarrow> server_pool \<Rightarrow> sequence_state option" where
  "getSequenceState i p = map_option ls_sequence (running_listener i p)"

definition getRuntimeState :: "string \<Rightarrow> server_pool \<Rightarrow> (scenario_state \<times> sequence_state) option" where
  "getRuntimeState i p = map_option (\<lambda>l. (ls_scenario l, ls_sequence l)) (running_listener i p)"

definition resetScenarioState :: "string \<Rightarrow> server_pool \<Rightarrow> bool \<times> server_pool" where
  "resetScenarioState i p =
     (case rec_get (pl_entries p) i of
        None \<Rightarrow> (False, p)
      | Some e \<Rightarrow> if isRunning (listener_of p e) then (True, on_listener (pe_listener e) resetScenario p) else (False, p))"

text \<open>\<open>stopAllAsync\<close>: every running server is asked to stop.\<close>

definition stop_all :: "server_pool \<Rightarrow> server_pool" where
  "stop_all p = foldl (\<lambda>q i. snd (stop_request i None q)) p
     (map fst (filter (\<lambda>(i, e). isRunning (listener_of p e)) (pl_entries p)))"

section \<open>Interleavings\<close>

datatype pool_event =
    Pool_Start server_definition
  | Pool_Started nat bool
  | Pool_Stop string
  | Pool_Stopped nat
  | Pool_Restart server_definition
  | Pool_Commit string server_definition
  | Pool_Reset string
  | Pool_Stop_All
  | Pool_Request nat request_env received
  | Pool_Fire nat nat bool
  | Pool_Complete nat nat bool proxy_env

fun pool_step :: "server_pool \<Rightarrow> pool_event \<Rightarrow> server_pool" where
  "pool_step p (Pool_Start d) = snd (start_request d p)"
| "pool_step p (Pool_Started j free) = (if j \<in> set (pl_starting p) then snd (start_finish j free p) else p)"
| "pool_step p (Pool_Stop i) = snd (stop_request i None p)"
| "pool_step p (Pool_Stopped k) = stop_finish k p"
| "pool_step p (Pool_Restart d) = restart_request d p"
| "pool_step p (Pool_Commit i d) = snd (pool_commit i d p)"
| "pool_step p (Pool_Reset i) = snd (resetScenarioState i p)"
| "pool_step p Pool_Stop_All = stop_all p"
| "pool_step p (Pool_Request j env rc) = on_listener j (processRequest env rc) p"
| "pool_step p (Pool_Fire j k gone) = on_listener j (fire_timer k gone) p"
| "pool_step p (Pool_Complete j k gone penv) = on_listener j (complete_pending k gone penv (reservedPorts p)) p"

section \<open>Traffic does not touch the life cycle\<close>

definition lifecycle :: "listener \<Rightarrow> string \<times> server_definition \<times> bool \<times> bool \<times> int \<times> nat" where
  "lifecycle l = (ls_serverId l, ls_definition l, ls_server l, ls_draining l, ls_port l, ls_generation l)"

lemma lifecycle_parts [simp]:
  "lifecycle (server_error l) = lifecycle l" "lifecycle (release_slot ep l) = lifecycle l"
  "lifecycle (recordDelivery env a b c oc f g i j k l) = lifecycle l" "lifecycle (record_delivered d l) = lifecycle l"
  "lifecycle (apply_variant_transition v l) = lifecycle l" "lifecycle (take_pending n l) = lifecycle l"
  "lifecycle (resetScenario l) = lifecycle l" "lifecycle (l\<lparr>ls_pending := x\<rparr>) = lifecycle l"
  "lifecycle (l\<lparr>ls_inFlight := y\<rparr>) = lifecycle l" "lifecycle (l\<lparr>ls_sent := z\<rparr>) = lifecycle l"
  "lifecycle (l\<lparr>ls_sequence := u\<rparr>) = lifecycle l" "lifecycle (l\<lparr>ls_diagnostics := w\<rparr>) = lifecycle l"
  "lifecycle (l\<lparr>ls_matchCounts := m\<rparr>) = lifecycle l"
  by (simp_all add: lifecycle_def server_error_def release_slot_def recordDelivery_def recordTransaction_def record_delivered_def
      apply_variant_transition_def take_pending_def resetScenario_def Let_def split: option.split prod.split)

lemma lifecycle_send: "send env st hs b l = (ok, l') \<Longrightarrow> lifecycle l' = lifecycle l"
  by (auto simp: send_def split: if_splits)

lemma lifecycle_plain_send [simp]: "lifecycle (plain_send env st hs b l) = lifecycle l"
  by (auto simp: plain_send_def dest: lifecycle_send split: prod.split bool.split)

lemma lifecycle_static_reply:
  "(\<And>l. lifecycle (f l) = lifecycle l) \<Longrightarrow> lifecycle (static_reply env raw st hs b f ep l) = lifecycle l"
  by (auto simp: static_reply_def dest: lifecycle_send split: prod.split bool.split)

lemma lifecycle_deliver: "deliver gone d l = (pr, l') \<Longrightarrow> lifecycle l' = lifecycle l"
  by (auto simp: deliver_def Let_def dest: lifecycle_send split: if_splits prod.splits bool.splits)

lemma lifecycle_start_delivery [simp]: "lifecycle (start_delivery gone ms d ep l) = lifecycle l"
  by (auto simp: start_delivery_def dest: lifecycle_deliver split: prod.split progress_of_delivery.split)

lemma lifecycle_fire_timer [simp]: "lifecycle (fire_timer k gone l) = lifecycle l"
  by (auto simp: fire_timer_def dest: lifecycle_deliver split: option.split pending.split prod.split progress_of_delivery.split)

lemma lifecycle_complete_pending [simp]: "lifecycle (complete_pending k gone penv ports l) = lifecycle l"
  by (simp add: complete_pending_def proxy_reply_def lifecycle_static_reply record_unmatched_def Let_def
      split: option.split pending.split)

lemma lifecycle_process_matched [simp]: "lifecycle (process_matched env rc c result rt l) = lifecycle l"
  unfolding process_matched_def Let_def by (simp split: prod.split)

lemma lifecycle_process_captured [simp]: "lifecycle (process_captured env rc c l) = lifecycle l"
  by (simp add: process_captured_def process_ambiguous_def process_unmatched_def lifecycle_static_reply record_unmatched_def Let_def
      split: option.split)

lemma lifecycle_processRequest [simp]: "lifecycle (processRequest env rc l) = lifecycle l"
  by (simp add: processRequest_def Let_def split: option.split prod.split sum.split)

section \<open>The invariant\<close>

definition entry_ok :: "server_pool \<Rightarrow> string \<Rightarrow> pool_entry \<Rightarrow> bool" where
  "entry_ok p i e \<longleftrightarrow> pe_listener e < length (pl_listeners p) \<and> pe_listener e \<notin> set (pl_starting p) \<and>
     ls_serverId (listener_of p e) = i \<and> pe_port e = ls_port (listener_of p e) \<and>
     pe_generation e = ls_generation (listener_of p e) \<and> (pe_state e = St_running \<longleftrightarrow> isRunning (listener_of p e))"

definition pool_ok :: "server_pool \<Rightarrow> bool" where
  "pool_ok p \<longleftrightarrow>
     (\<forall>i e. rec_get (pl_entries p) i = Some e \<longrightarrow> entry_ok p i e) \<and>
     (\<forall>j\<in>set (pl_starting p). j < length (pl_listeners p) \<and> \<not> ls_server (pl_listeners p ! j)) \<and> distinct (pl_starting p) \<and>
     (\<forall>(i, j, after)\<in>set (pl_stopping p). j \<notin> set (pl_starting p) \<and> j < length (pl_listeners p) \<and> \<not> ls_server (pl_listeners p ! j)) \<and>
     (\<forall>j < length (pl_listeners p). ls_server (pl_listeners p ! j) \<longrightarrow> \<not> ls_draining (pl_listeners p ! j)) \<and>
     (\<forall>j < length (pl_listeners p). \<forall>k < length (pl_listeners p). j \<noteq> k \<longrightarrow> ls_server (pl_listeners p ! j) \<longrightarrow>
        ls_server (pl_listeners p ! k) \<longrightarrow> ls_port (pl_listeners p ! j) \<noteq> ls_port (pl_listeners p ! k))"

lemma pool_ok_ports:
  "pool_ok p \<Longrightarrow> a < length (pl_listeners p) \<Longrightarrow> b < length (pl_listeners p) \<Longrightarrow> a \<noteq> b \<Longrightarrow> ls_server (pl_listeners p ! a) \<Longrightarrow>
   ls_server (pl_listeners p ! b) \<Longrightarrow> ls_port (pl_listeners p ! a) \<noteq> ls_port (pl_listeners p ! b)"
  unfolding pool_ok_def by blast

lemma pool_ok_stopping:
  "pool_ok p \<Longrightarrow> (i, k, a) \<in> set (pl_stopping p) \<Longrightarrow> k \<notin> set (pl_starting p) \<and> k < length (pl_listeners p) \<and> \<not> ls_server (pl_listeners p ! k)"
  unfolding pool_ok_def by blast

lemma pool_ok_entry: "pool_ok p \<Longrightarrow> rec_get (pl_entries p) i = Some e \<Longrightarrow> entry_ok p i e"
  by (simp add: pool_ok_def)

lemma same_lifecycle:
  "lifecycle l = lifecycle l' \<Longrightarrow> ls_serverId l = ls_serverId l' \<and> ls_server l = ls_server l' \<and> ls_draining l = ls_draining l' \<and>
     ls_port l = ls_port l' \<and> ls_generation l = ls_generation l' \<and> isRunning l = isRunning l'"
  by (simp add: lifecycle_def isRunning_def)

lemma on_listener_frame [simp]:
  "pl_entries (on_listener j f p) = pl_entries p" "pl_starting (on_listener j f p) = pl_starting p"
  "pl_stopping (on_listener j f p) = pl_stopping p" "pl_drafts (on_listener j f p) = pl_drafts p"
  "length (pl_listeners (on_listener j f p)) = length (pl_listeners p)"
  by (simp_all add: on_listener_def)

lemma traffic_ok:
  assumes "pool_ok p" and "\<And>l. lifecycle (f l) = lifecycle l"
  shows "pool_ok (on_listener j f p)"
proof -
  have "lifecycle (pl_listeners (on_listener j f p) ! k) = lifecycle (pl_listeners p ! k)" if "k < length (pl_listeners p)" for k
    using that assms(2) by (cases "k = j") (simp_all add: on_listener_def)
  then have "ls_serverId (pl_listeners (on_listener j f p) ! k) = ls_serverId (pl_listeners p ! k) \<and>
      ls_server (pl_listeners (on_listener j f p) ! k) = ls_server (pl_listeners p ! k) \<and>
      ls_draining (pl_listeners (on_listener j f p) ! k) = ls_draining (pl_listeners p ! k) \<and>
      ls_port (pl_listeners (on_listener j f p) ! k) = ls_port (pl_listeners p ! k) \<and>
      ls_generation (pl_listeners (on_listener j f p) ! k) = ls_generation (pl_listeners p ! k) \<and>
      isRunning (pl_listeners (on_listener j f p) ! k) = isRunning (pl_listeners p ! k)" if "k < length (pl_listeners p)" for k
    using same_lifecycle that by blast
  with assms(1) show ?thesis by (auto simp: pool_ok_def entry_ok_def)
qed

lemma start_request_ok:
  assumes "pool_ok p"
  shows "pool_ok (snd (start_request d p))"
proof (cases "start_refused d p")
  case None
  let ?q = "snd (start_request d p)"
  have q: "pl_entries ?q = pl_entries p" "pl_starting ?q = pl_starting p @ [length (pl_listeners p)]" "pl_stopping ?q = pl_stopping p"
    "pl_listeners ?q = pl_listeners p @ [new_listener (sd_id d) d (pl_hasHandler p)]"
    using None by (simp_all add: start_request_def)
  have "entry_ok ?q i e" if "rec_get (pl_entries p) i = Some e" for i e
    using pool_ok_entry [OF assms that] by (simp add: entry_ok_def q nth_append)
  moreover have "\<not> ls_server (new_listener (sd_id d) d (pl_hasHandler p))" by (simp add: new_listener_def)
  ultimately show ?thesis using assms by (auto simp: pool_ok_def q nth_append less_Suc_eq)
qed (use assms in \<open>simp add: start_request_def\<close>)

lemma port_bound_free: "\<not> port_bound p n \<Longrightarrow> k < length (pl_listeners p) \<Longrightarrow> ls_server (pl_listeners p ! k) \<Longrightarrow> ls_port (pl_listeners p ! k) \<noteq> n"
  by (auto simp: port_bound_def list_ex_length)

lemma start_finish_ok:
  assumes "pool_ok p" and "j \<in> set (pl_starting p)"
  shows "pool_ok (snd (start_finish j free p))"
proof -
  define l where "l = pl_listeners p ! j"
  define listens where "listens = (free \<and> \<not> port_bound p (sd_port (ls_definition l)))"
  define l' where "l' = snd (listener_start listens l)"
  let ?q = "snd (start_finish j free p)"
  have j: "j < length (pl_listeners p)" "\<not> ls_server l" using assms by (auto simp: pool_ok_def l_def)
  have l': "ls_serverId l' = ls_serverId l" "ls_server l' = listens" "\<not> ls_draining l'" "ls_port l' = sd_port (ls_definition l)"
    "ls_generation l' = 1" "fst (listener_start listens l) = (if listens then Inr (ls_port l', 1) else Inl ''listen failed'')"
    using j(2) by (simp_all add: l'_def listener_start_def cancelDeferredDeliveries_def Let_def)
  define new where "new = \<lparr>pe_port = ls_port l', pe_state = St_running, pe_listener = j, pe_generation = 1\<rparr>"
  have split: "listener_start listens l = (if listens then Inr (ls_port l', 1) else Inl ''listen failed'', l')"
    by (rule prod_eqI) (simp_all only: l'(6) l'_def fst_conv snd_conv)
  have q: "pl_entries ?q = (if listens then rec_set (pl_entries p) (ls_serverId l) new else pl_entries p)"
    "pl_starting ?q = removeAll j (pl_starting p)" "pl_stopping ?q = pl_stopping p" "pl_listeners ?q = (pl_listeners p)[j := l']"
    using split by (simp_all add: start_finish_def Let_def l_def [symmetric] listens_def [symmetric] new_def)
  have "entry_ok ?q i e" if "rec_get (pl_entries ?q) i = Some e" for i e
  proof (cases "listens \<and> i = ls_serverId l")
    case True
    with that have "e = new" by (simp add: q)
    then show ?thesis using True j l' by (simp add: entry_ok_def q new_def isRunning_def)
  next
    case False
    with that have e: "rec_get (pl_entries p) i = Some e" by (auto simp: q split: if_splits)
    note ok = pool_ok_entry [OF assms(1) e]
    then have "pe_listener e \<noteq> j" using assms(2) by (auto simp: entry_ok_def)
    with ok show ?thesis by (simp add: entry_ok_def q)
  qed
  moreover have "ls_port ((pl_listeners p)[j := l'] ! a) \<noteq> ls_port ((pl_listeners p)[j := l'] ! b)"
    if ab: "a < length (pl_listeners p)" "b < length (pl_listeners p)" "a \<noteq> b"
      "ls_server ((pl_listeners p)[j := l'] ! a)" "ls_server ((pl_listeners p)[j := l'] ! b)" for a b
  proof -
    have new: "ls_port (pl_listeners p ! k) \<noteq> ls_port l'"
      if "ls_server l'" "k < length (pl_listeners p)" "ls_server (pl_listeners p ! k)" for k
      using that port_bound_free [of p "sd_port (ls_definition l)" k] l'(2,4) by (simp add: listens_def)
    have old: "ls_port (pl_listeners p ! a) \<noteq> ls_port (pl_listeners p ! b)"
      if "ls_server (pl_listeners p ! a)" "ls_server (pl_listeners p ! b)"
      using pool_ok_ports [OF assms(1) ab(1-3) that] .
    show ?thesis
    proof (cases "a = j")
      case True
      with ab j(1) have "ls_server l'" "ls_server (pl_listeners p ! b)" by simp_all
      with True ab(2,3) j(1) new [of b] show ?thesis by auto
    next
      case a: False
      show ?thesis
      proof (cases "b = j")
        case True
        with ab j(1) a have "ls_server l'" "ls_server (pl_listeners p ! a)" by simp_all
        with True ab(1,3) j(1) new [of a] show ?thesis by simp
      qed (use a ab old in simp)
    qed
  qed
  moreover have "ls_server ((pl_listeners p)[j := l'] ! a) \<longrightarrow> \<not> ls_draining ((pl_listeners p)[j := l'] ! a)" if "a < length (pl_listeners p)" for a
    using assms(1) that l'(3) by (cases "a = j") (simp_all add: pool_ok_def)
  moreover have "a < length (pl_listeners p) \<and> \<not> ls_server ((pl_listeners p)[j := l'] ! a)" if "a \<in> set (pl_starting p)" "a \<noteq> j" for a
    using assms(1) that by (simp add: pool_ok_def)
  moreover have "b \<noteq> j \<and> b \<notin> set (pl_starting p) \<and> b < length (pl_listeners p) \<and> \<not> ls_server ((pl_listeners p)[j := l'] ! b)"
    if "(i, b, after) \<in> set (pl_stopping p)" for i b after
  proof -
    have "b \<notin> set (pl_starting p) \<and> b < length (pl_listeners p) \<and> \<not> ls_server (pl_listeners p ! b)" using assms(1) that by (auto simp: pool_ok_def)
    then show ?thesis using assms(2) by (cases "b = j") auto
  qed
  moreover have "distinct (removeAll j (pl_starting p))" using assms(1) by (simp add: pool_ok_def distinct_removeAll)
  ultimately show ?thesis unfolding pool_ok_def q length_list_update by fastforce
qed

text \<open>Replacing one listener by one that serves only where it did.\<close>

lemma replace_ok:
  assumes "pool_ok p" and "j < length (pl_listeners p)"
    and "ls_server l' \<longrightarrow> ls_server (pl_listeners p ! j) \<and> \<not> ls_draining l' \<and> ls_port l' = ls_port (pl_listeners p ! j)"
    and "pl_listeners q = (pl_listeners p)[j := l']" and "pl_starting q = pl_starting p"
    and "\<And>i e. rec_get (pl_entries q) i = Some e \<Longrightarrow> entry_ok q i e"
    and "\<And>i k after. (i, k, after) \<in> set (pl_stopping q) \<Longrightarrow>
      k \<notin> set (pl_starting p) \<and> k < length (pl_listeners p) \<and> \<not> ls_server (pl_listeners q ! k)"
  shows "pool_ok q"
proof -
  have serves: "ls_server (pl_listeners p ! a) \<and> ls_port (pl_listeners q ! a) = ls_port (pl_listeners p ! a) \<and> \<not> ls_draining (pl_listeners q ! a)"
    if "a < length (pl_listeners p)" "ls_server (pl_listeners q ! a)" for a
    using that assms(1-4) by (cases "a = j") (auto simp: pool_ok_def)
  have "ls_port (pl_listeners q ! a) \<noteq> ls_port (pl_listeners q ! b)"
    if "a < length (pl_listeners p)" "b < length (pl_listeners p)" "a \<noteq> b" "ls_server (pl_listeners q ! a)" "ls_server (pl_listeners q ! b)" for a b
    using serves [of a] serves [of b] that pool_ok_ports [OF assms(1) that(1-3)] by simp
  moreover have "a < length (pl_listeners p) \<and> \<not> ls_server (pl_listeners q ! a)" if "a \<in> set (pl_starting p)" for a
    using assms(1) that serves [of a] by (auto simp: pool_ok_def)
  moreover have "distinct (pl_starting p)" "length (pl_listeners q) = length (pl_listeners p)" using assms(1,4) by (simp_all add: pool_ok_def)
  ultimately show ?thesis using assms(6,7) serves unfolding pool_ok_def assms(5) by (simp add: split_beta) force
qed

lemma entry_ok_other:
  assumes "entry_ok p i e" and "pl_listeners q = (pl_listeners p)[j := l']" and "pl_starting q = pl_starting p" and "pe_listener e \<noteq> j"
  shows "entry_ok q i e"
  using assms by (simp add: entry_ok_def)

text \<open>Different servers have different listeners.\<close>

lemma entry_listener_distinct:
  "pool_ok p \<Longrightarrow> rec_get (pl_entries p) i = Some e \<Longrightarrow> rec_get (pl_entries p) i' = Some e' \<Longrightarrow> i \<noteq> i' \<Longrightarrow> pe_listener e \<noteq> pe_listener e'"
  using pool_ok_entry unfolding entry_ok_def by metis

lemma stop_request_ok:
  assumes "pool_ok p"
  shows "pool_ok (snd (stop_request i after p))"
proof (cases "rec_get (pl_entries p) i")
  case (Some e)
  note ok = pool_ok_entry [OF assms Some]
  let ?q = "snd (stop_request i after p)" and ?j = "pe_listener e"
  show ?thesis
  proof (cases "isRunning (listener_of p e)")
    case False
    have q: "pl_entries ?q = rec_set (pl_entries p) i (e\<lparr>pe_state := St_stopped\<rparr>)" "pl_listeners ?q = pl_listeners p"
      "pl_starting ?q = pl_starting p" "pl_stopping ?q = pl_stopping p"
      using False by (simp_all add: stop_request_def Some)
    have "entry_ok ?q k e'" if "rec_get (pl_entries ?q) k = Some e'" for k e'
      using that ok False pool_ok_entry [OF assms, of k e'] by (auto simp: q entry_ok_def split: if_splits)
    with assms show ?thesis by (simp add: pool_ok_def q)
  next
    case True
    have q: "pl_entries ?q = rec_set (pl_entries p) i (e\<lparr>pe_state := St_draining\<rparr>)"
      "pl_listeners ?q = (pl_listeners p)[?j := stop_begin (pl_listeners p ! ?j)]"
      "pl_starting ?q = pl_starting p" "pl_stopping ?q = pl_stopping p @ [(i, ?j, after)]"
      using True by (simp_all add: stop_request_def Some) (simp add: on_listener_def)
    have sb: "\<not> ls_server (stop_begin l)" "ls_serverId (stop_begin l) = ls_serverId l" "ls_port (stop_begin l) = ls_port l"
      "ls_generation (stop_begin l) = ls_generation l" for l
      by (simp_all add: stop_begin_def cancelDeferredDeliveries_def Let_def)
    have j: "?j < length (pl_listeners p)" "?j \<notin> set (pl_starting p)" using ok by (simp_all add: entry_ok_def)
    show ?thesis
    proof (rule replace_ok [OF assms j(1) _ q(2,3)])
      show "entry_ok ?q k e'" if k: "rec_get (pl_entries ?q) k = Some e'" for k e'
      proof (cases "k = i")
        case True
        with k have "e' = e\<lparr>pe_state := St_draining\<rparr>" by (simp add: q)
        with True ok j show ?thesis by (simp add: entry_ok_def q sb isRunning_def)
      next
        case False
        with k have e': "rec_get (pl_entries p) k = Some e'" by (simp add: q)
        show ?thesis
          by (rule entry_ok_other [OF pool_ok_entry [OF assms e'] q(2,3)]) (use entry_listener_distinct [OF assms Some e'] False in auto)
      qed
    next
      show "k \<notin> set (pl_starting p) \<and> k < length (pl_listeners p) \<and> \<not> ls_server (pl_listeners ?q ! k)"
        if "(i', k, a) \<in> set (pl_stopping ?q)" for i' k a
        using pool_ok_stopping [OF assms, of i' k a] that j sb(1) by (cases "k = ?j") (auto simp: q)
    qed (simp add: sb)
  qed
qed (use assms in \<open>simp add: stop_request_def\<close>)

lemma stopping_nth: "js_nth (pl_stopping p) k = Some t \<Longrightarrow> t \<in> set (pl_stopping p)"
  by (auto simp: js_nth_def split: if_splits)

lemma stop_settled_ok:
  assumes "pool_ok p" and "js_nth (pl_stopping p) k = Some (i, j, after)"
  shows "pool_ok (stop_settled i j k p)"
proof -
  have j: "j < length (pl_listeners p)" "\<not> ls_server (pl_listeners p ! j)" "j \<notin> set (pl_starting p)"
    using pool_ok_stopping [OF assms(1) stopping_nth [OF assms(2)]] by simp_all
  define p1 where "p1 = (on_listener j stop_end p)\<lparr>pl_stopping := take k (pl_stopping p) @ drop (Suc k) (pl_stopping p)\<rparr>"
  have p1: "pl_entries p1 = pl_entries p" "pl_listeners p1 = (pl_listeners p)[j := stop_end (pl_listeners p ! j)]"
    "pl_starting p1 = pl_starting p" "pl_stopping p1 = take k (pl_stopping p) @ drop (Suc k) (pl_stopping p)"
    by (simp_all add: p1_def) (simp add: on_listener_def)
  have se: "ls_server (stop_end l) = ls_server l" "ls_serverId (stop_end l) = ls_serverId l" "ls_port (stop_end l) = ls_port l"
    "ls_generation (stop_end l) = ls_generation l" for l
    by (simp_all add: stop_end_def)
  have "pool_ok p1"
  proof (rule replace_ok [OF assms(1) j(1) _ p1(2,3)])
    show "entry_ok p1 n e" if "rec_get (pl_entries p1) n = Some e" for n e
      using that pool_ok_entry [OF assms(1), of n e] j(1,2) by (cases "pe_listener e = j") (auto simp: entry_ok_def p1 se isRunning_def)
  next
    show "b \<notin> set (pl_starting p) \<and> b < length (pl_listeners p) \<and> \<not> ls_server (pl_listeners p1 ! b)"
      if "(a, b, c) \<in> set (pl_stopping p1)" for a b c
      using pool_ok_stopping [OF assms(1), of a b c] that se j(1) by (cases "b = j") (auto simp: p1 dest!: in_set_takeD in_set_dropD)
  qed (use j(2) se in simp)
  moreover have "\<not> isRunning (pl_listeners p1 ! j)" using j by (simp add: p1 se isRunning_def)
  ultimately show ?thesis unfolding stop_settled_def Let_def p1_def [symmetric]
    by (auto simp: pool_ok_def entry_ok_def split: option.split if_splits)
qed

lemma stop_finish_ok: "pool_ok p \<Longrightarrow> pool_ok (stop_finish k p)"
  by (auto simp: stop_finish_def intro: stop_settled_ok start_request_ok split: option.split)

lemma pool_commit_ok:
  assumes "pool_ok p"
  shows "pool_ok (snd (pool_commit i d p))"
proof (cases "\<exists>e. rec_get (pl_entries p) i = Some e \<and> isRunning (listener_of p e)")
  case True
  then obtain e where e: "rec_get (pl_entries p) i = Some e" "isRunning (listener_of p e)" by blast
  note ok = pool_ok_entry [OF assms e(1)]
  let ?q = "snd (pool_commit i d p)" and ?j = "pe_listener e" and ?l' = "snd (listener_commit d (listener_of p e))"
  have c: "ls_server (snd (listener_commit d l)) = ls_server l"
    "ls_port (snd (listener_commit d l)) = ls_port l" "ls_serverId (snd (listener_commit d l)) = ls_serverId l"
    "ls_draining (snd (listener_commit d l)) = ls_draining l" "ls_generation (snd (listener_commit d l)) = Suc (ls_generation l)" for l
    by (simp_all add: listener_commit_def Let_def)
  have q: "pl_entries ?q = rec_set (pl_entries p) i (e\<lparr>pe_generation := Suc (ls_generation (listener_of p e))\<rparr>)"
    "pl_listeners ?q = (pl_listeners p)[?j := ?l']" "pl_starting ?q = pl_starting p" "pl_stopping ?q = pl_stopping p"
    using e by (simp_all add: pool_commit_def listener_commit_def Let_def) (simp_all add: on_listener_def)
  have j: "?j < length (pl_listeners p)" using ok by (simp add: entry_ok_def)
  show ?thesis
  proof (rule replace_ok [OF assms j _ q(2,3)])
    show "entry_ok ?q k e'" if k: "rec_get (pl_entries ?q) k = Some e'" for k e'
    proof (cases "k = i")
      case True
      with k have "e' = e\<lparr>pe_generation := Suc (ls_generation (listener_of p e))\<rparr>" by (simp add: q)
      with True ok j show ?thesis by (simp add: entry_ok_def q c isRunning_def)
    next
      case False
      with k have e': "rec_get (pl_entries p) k = Some e'" by (simp add: q)
      show ?thesis
        by (rule entry_ok_other [OF pool_ok_entry [OF assms e'] q(2,3)]) (use entry_listener_distinct [OF assms e(1) e'] False in auto)
    qed
  next
    show "k \<notin> set (pl_starting p) \<and> k < length (pl_listeners p) \<and> \<not> ls_server (pl_listeners ?q ! k)"
      if "(i', k, a) \<in> set (pl_stopping ?q)" for i' k a
      using pool_ok_stopping [OF assms, of i' k a] that j by (cases "k = ?j") (simp_all add: q c)
  qed (use c e(2) in \<open>simp add: isRunning_def\<close>)
qed (use assms in \<open>auto simp: pool_commit_def split: option.split\<close>)

lemma stop_all_ok: "pool_ok p \<Longrightarrow> pool_ok (stop_all p)"
proof -
  have "pool_ok q \<Longrightarrow> pool_ok (foldl (\<lambda>q i. snd (stop_request i None q)) q is)" for q "is"
    by (induction "is" arbitrary: q) (auto intro: stop_request_ok)
  then show "pool_ok p \<Longrightarrow> pool_ok (stop_all p)" by (simp add: stop_all_def)
qed

lemma pool_step_ok: "pool_ok p \<Longrightarrow> pool_ok (pool_step p ev)"
  by (cases ev) (auto simp: restart_request_def resetScenarioState_def intro: start_request_ok start_finish_ok stop_request_ok stop_finish_ok
      pool_commit_ok stop_all_ok traffic_ok split: option.split)

lemma new_pool_ok: "pool_ok (new_pool handler)"
  by (simp add: pool_ok_def new_pool_def)

interpretation pool_runs: state_machine pool_step pool_ok
  by unfold_locales (rule pool_step_ok)

section \<open>The status is true\<close>

text \<open>C5. Whatever the order of starts, stops, restarts, commits and requests, the status of a server is
that of its listener: its port, its generation, and running exactly while the listener serves. Two
listeners that serve never share a port, and the port of a running server is among the reserved ones,
which the proxy must not call.\<close>

theorem pool_status_truthful:
  assumes "p = foldl pool_step (new_pool handler) es"
  shows "(\<forall>i st. pool_status i p = Some st \<longrightarrow> (\<exists>l\<in>set (pl_listeners p). ls_serverId l = i \<and> pu_serverId st = i \<and>
      pu_port st = ls_port l \<and> pu_generation st = ls_generation l \<and> (pu_state st = St_running \<longleftrightarrow> isRunning l))) \<and>
    (\<forall>i l. running_listener i p = Some l \<longrightarrow> ls_port l \<in> set (reservedPorts p)) \<and>
    (\<forall>j < length (pl_listeners p). \<forall>k < length (pl_listeners p). j \<noteq> k \<longrightarrow> isRunning (pl_listeners p ! j) \<longrightarrow>
      isRunning (pl_listeners p ! k) \<longrightarrow> ls_port (pl_listeners p ! j) \<noteq> ls_port (pl_listeners p ! k))"
proof (intro conjI allI impI)
  have ok: "pool_ok p" unfolding assms by (rule pool_runs.run_ok [OF new_pool_ok])
  show "\<exists>l\<in>set (pl_listeners p). ls_serverId l = i \<and> pu_serverId st = i \<and> pu_port st = ls_port l \<and>
      pu_generation st = ls_generation l \<and> (pu_state st = St_running \<longleftrightarrow> isRunning l)" if s: "pool_status i p = Some st" for i st
  proof -
    obtain e where e: "rec_get (pl_entries p) i = Some e"
      "st = status_of i e (if isRunning (listener_of p e) then St_running else St_stopped)"
      using s by (auto simp: pool_status_def)
    with pool_ok_entry [OF ok e(1)] show ?thesis by (intro bexI [of _ "listener_of p e"]) (auto simp: entry_ok_def status_of_def)
  qed
  show "ls_port l \<in> set (reservedPorts p)" if s: "running_listener i p = Some l" for i l
  proof -
    obtain e where e: "rec_get (pl_entries p) i = Some e" "isRunning (listener_of p e)" "l = listener_of p e"
      using s by (auto simp: running_listener_def split: option.splits if_splits)
    then have "e \<in> set (map snd (pl_entries p))" using rec_get_in_set by force
    moreover have "owns_port p e" "pe_port e = ls_port l"
      using e pool_ok_entry [OF ok e(1)] by (simp_all add: owns_port_def entry_ok_def)
    ultimately show ?thesis unfolding reservedPorts_def set_map set_filter by (metis (mono_tags, lifting) imageI mem_Collect_eq set_map)
  qed
  show "ls_port (pl_listeners p ! j) \<noteq> ls_port (pl_listeners p ! k)"
    if "j < length (pl_listeners p)" "k < length (pl_listeners p)" "j \<noteq> k" "isRunning (pl_listeners p ! j)" "isRunning (pl_listeners p ! k)" for j k
    using pool_ok_ports [OF ok that(1-3)] that(4,5) by (simp add: isRunning_def)
qed

section \<open>Lost listeners\<close>

text \<open>A listener that serves and that nothing in the pool refers to.\<close>

definition lost :: "nat \<Rightarrow> server_pool \<Rightarrow> bool" where
  "lost j p \<longleftrightarrow> j < length (pl_listeners p) \<and> isRunning (pl_listeners p ! j) \<and> j \<notin> set (pl_starting p) \<and>
     j \<notin> (fst \<circ> snd) ` set (pl_stopping p) \<and> (\<forall>i e. rec_get (pl_entries p) i = Some e \<longrightarrow> pe_listener e \<noteq> j)"

lemma lost_traffic: "lost j p \<Longrightarrow> (\<And>l. lifecycle (f l) = lifecycle l) \<Longrightarrow> lost j (on_listener k f p)"
  using same_lifecycle [of "f (pl_listeners p ! j)" "pl_listeners p ! j"]
  by (cases "k = j") (auto simp: lost_def on_listener_def)

lemma lost_start_request: "lost j p \<Longrightarrow> lost j (snd (start_request d p))"
  by (auto simp: lost_def start_request_def nth_append split: option.split)

lemma lost_start_finish: "lost j p \<Longrightarrow> k \<in> set (pl_starting p) \<Longrightarrow> lost j (snd (start_finish k free p))"
  by (cases "j = k") (auto simp: lost_def start_finish_def Let_def split: prod.split sum.split if_splits)

lemma lost_stop_request: "lost j p \<Longrightarrow> lost j (snd (stop_request i after p))"
  by (cases "rec_get (pl_entries p) i") (auto simp: lost_def stop_request_def on_listener_def)

lemma lost_stop_finish:
  assumes "lost j p"
  shows "lost j (stop_finish k p)"
proof -
  have "lost j (stop_settled i n k p)" if "js_nth (pl_stopping p) k = Some (i, n, after)" for i n after
  proof -
    have "n \<noteq> j" using stopping_nth [OF that] assms by (force simp: lost_def)
    then show ?thesis using assms
      by (auto simp: lost_def stop_settled_def on_listener_def Let_def dest!: in_set_takeD in_set_dropD split: option.split)
  qed
  then show ?thesis using assms by (auto simp: stop_finish_def intro: lost_start_request split: option.split)
qed

lemma lost_commit: "lost j p \<Longrightarrow> lost j (snd (pool_commit i d p))"
  by (cases "rec_get (pl_entries p) i") (auto simp: lost_def pool_commit_def on_listener_def split: prod.split)

lemma lost_stop_all: "lost j p \<Longrightarrow> lost j (stop_all p)"
proof -
  have "lost j q \<Longrightarrow> lost j (foldl (\<lambda>q i. snd (stop_request i None q)) q is)" for q "is"
    by (induction "is" arbitrary: q) (auto intro: lost_stop_request)
  then show "lost j p \<Longrightarrow> lost j (stop_all p)" by (simp add: stop_all_def)
qed

lemma lost_step: "lost j p \<Longrightarrow> lost j (pool_step p ev)"
  by (cases ev) (auto simp: restart_request_def resetScenarioState_def intro: lost_start_request lost_start_finish lost_stop_request
      lost_stop_finish lost_commit lost_stop_all lost_traffic split: option.split)

interpretation lost_listeners: latched_machine pool_step pool_ok "lost j" for j
  by unfold_locales (rule lost_step)

text \<open>Two starts of one server that overlap lose a listener: each passes the check before the other
has its entry, both bind their ports, and the second entry replaces the first. The first listener then
serves for ever: no stop, restart or stop of all servers reaches it, whatever happens later.\<close>

theorem overlapping_starts_leak:
  assumes "sd_id d1 = sd_id d2" and "sd_port d1 \<noteq> sd_port d2"
    and "p = foldl pool_step (new_pool handler) [Pool_Start d1, Pool_Start d2, Pool_Started 0 True, Pool_Started 1 True]"
  shows "isRunning (pl_listeners (foldl pool_step p es) ! 0) \<and>
    (\<forall>i e. rec_get (pl_entries (foldl pool_step p es)) i = Some e \<longrightarrow> pe_listener e \<noteq> 0)"
proof -
  define l where "l d = snd (listener_start True (new_listener (sd_id d) d handler))" for d
  have l: "listener_start True (new_listener (sd_id d) d handler) = (Inr (sd_port d, 1), l d)" "ls_server (l d)" "\<not> ls_draining (l d)"
    "ls_port (l d) = sd_port d" for d
    by (simp_all add: l_def listener_start_def new_listener_def cancelDeferredDeliveries_def Let_def)
  have n: "ls_server (new_listener i d handler) = False" "ls_definition (new_listener i d handler) = d"
    "ls_serverId (new_listener i d handler) = i" for i d
    by (simp_all add: new_listener_def)
  have 2: "foldl pool_step (new_pool handler) [Pool_Start d1, Pool_Start d2] = (new_pool handler)
      \<lparr>pl_listeners := [new_listener (sd_id d1) d1 handler, new_listener (sd_id d2) d2 handler], pl_starting := [0, 1]\<rparr>"
    by (simp add: start_request_def start_refused_def new_pool_def)
  have 3: "foldl pool_step (new_pool handler) [Pool_Start d1, Pool_Start d2, Pool_Started 0 True] = (new_pool handler)
      \<lparr>pl_listeners := [l d1, new_listener (sd_id d2) d2 handler], pl_starting := [1],
       pl_entries := [(sd_id d1, \<lparr>pe_port = sd_port d1, pe_state = St_running, pe_listener = 0, pe_generation = 1\<rparr>)]\<rparr>"
    using 2 by (simp add: start_finish_def port_bound_def n l(1) new_pool_def)
  have 4: "p = (new_pool handler)\<lparr>pl_listeners := [l d1, l d2], pl_starting := [],
       pl_entries := [(sd_id d1, \<lparr>pe_port = sd_port d2, pe_state = St_running, pe_listener = 1, pe_generation = 1\<rparr>)]\<rparr>"
    unfolding assms(3) using 3 assms(1,2) by (simp add: start_finish_def port_bound_def n l new_pool_def)
  have "pool_ok p" unfolding assms(3) by (rule pool_runs.run_ok [OF new_pool_ok])
  moreover have "lost 0 p" by (simp add: 4 lost_def new_pool_def isRunning_def l)
  ultimately have "lost 0 (foldl pool_step p es)" by (rule lost_listeners.run_latch)
  then show ?thesis by (simp add: lost_def)
qed

section \<open>No listener is lost without an overlap\<close>

text \<open>The server an event begins to start.\<close>

definition starts :: "server_pool \<Rightarrow> pool_event \<Rightarrow> string option" where
  "starts p ev = (case ev of
       Pool_Start d \<Rightarrow> Some (sd_id d)
     | Pool_Restart d \<Rightarrow> Some (sd_id d)
     | Pool_Stopped k \<Rightarrow> (case js_nth (pl_stopping p) k of Some (_, _, Some d) \<Rightarrow> Some (sd_id d) | _ \<Rightarrow> None)
     | _ \<Rightarrow> None)"

text \<open>Every event of the list that starts a server finds no other start of that server pending.\<close>

fun one_start_at_a_time :: "server_pool \<Rightarrow> pool_event list \<Rightarrow> bool" where
  "one_start_at_a_time p [] = True"
| "one_start_at_a_time p (ev # evs) =
     ((case starts p ev of None \<Rightarrow> True | Some i \<Rightarrow> \<forall>j\<in>set (pl_starting p). ls_serverId (pl_listeners p ! j) \<noteq> i) \<and>
      one_start_at_a_time (pool_step p ev) evs)"

definition tracked :: "server_pool \<Rightarrow> bool" where
  "tracked p \<longleftrightarrow>
     (\<forall>j < length (pl_listeners p). ls_server (pl_listeners p ! j) \<longrightarrow>
        (\<exists>e. rec_get (pl_entries p) (ls_serverId (pl_listeners p ! j)) = Some e \<and> pe_listener e = j)) \<and>
     (\<forall>j\<in>set (pl_starting p). \<forall>e. rec_get (pl_entries p) (ls_serverId (pl_listeners p ! j)) = Some e \<longrightarrow> \<not> ls_server (listener_of p e)) \<and>
     (\<forall>j\<in>set (pl_starting p). \<forall>k\<in>set (pl_starting p). j \<noteq> k \<longrightarrow>
        ls_serverId (pl_listeners p ! j) \<noteq> ls_serverId (pl_listeners p ! k))"

text \<open>What keeps the listeners in their places: the ids stay, none begins to serve, the starts pending stay,
and an entry that changes keeps its listener.\<close>

definition quiet :: "server_pool \<Rightarrow> server_pool \<Rightarrow> bool" where
  "quiet p q \<longleftrightarrow> length (pl_listeners q) = length (pl_listeners p) \<and> pl_starting q = pl_starting p \<and>
     (\<forall>j < length (pl_listeners p). ls_serverId (pl_listeners q ! j) = ls_serverId (pl_listeners p ! j) \<and>
        (ls_server (pl_listeners q ! j) \<longrightarrow> ls_server (pl_listeners p ! j))) \<and>
     (\<forall>i. map_option pe_listener (rec_get (pl_entries q) i) = map_option pe_listener (rec_get (pl_entries p) i))"

lemma tracked_quiet:
  assumes "quiet p q" and "tracked p" and "pool_ok p"
  shows "tracked q"
proof -
  have L: "length (pl_listeners q) = length (pl_listeners p)" "pl_starting q = pl_starting p" using assms(1) by (simp_all add: quiet_def)
  have keep: "ls_serverId (pl_listeners q ! j) = ls_serverId (pl_listeners p ! j)"
    "ls_server (pl_listeners q ! j) \<Longrightarrow> ls_server (pl_listeners p ! j)" if "j < length (pl_listeners p)" for j
    using assms(1) that by (simp_all add: quiet_def)
  have entry: "map_option pe_listener (rec_get (pl_entries q) i) = map_option pe_listener (rec_get (pl_entries p) i)" for i
    using assms(1) by (simp add: quiet_def)
  have st: "j \<in> set (pl_starting p) \<Longrightarrow> j < length (pl_listeners p)" for j using assms(3) by (auto simp: pool_ok_def)
  have "\<exists>e. rec_get (pl_entries q) (ls_serverId (pl_listeners q ! j)) = Some e \<and> pe_listener e = j"
    if j: "j < length (pl_listeners q)" "ls_server (pl_listeners q ! j)" for j
  proof -
    obtain e where "rec_get (pl_entries p) (ls_serverId (pl_listeners p ! j)) = Some e" "pe_listener e = j"
      using assms(2) j keep [of j] by (auto simp: tracked_def L)
    then show ?thesis using entry [of "ls_serverId (pl_listeners p ! j)"] keep(1) [of j] j by (auto simp: L)
  qed
  moreover have "\<not> ls_server (listener_of q e)"
    if j: "j \<in> set (pl_starting q)" "rec_get (pl_entries q) (ls_serverId (pl_listeners q ! j)) = Some e" for j e
  proof -
    have jl: "j < length (pl_listeners p)" using j(1) st L(2) by simp
    have "map_option pe_listener (rec_get (pl_entries p) (ls_serverId (pl_listeners p ! j))) = Some (pe_listener e)"
      using j(2) keep(1) [OF jl] by (simp add: entry [symmetric])
    then obtain e' where e': "rec_get (pl_entries p) (ls_serverId (pl_listeners p ! j)) = Some e'" "pe_listener e' = pe_listener e"
      by blast
    then have "\<not> ls_server (listener_of p e')" using assms(2) j(1) L(2) by (auto simp: tracked_def)
    moreover have "pe_listener e' < length (pl_listeners p)" using pool_ok_entry [OF assms(3) e'(1)] by (simp add: entry_ok_def)
    ultimately show ?thesis using keep(2) [of "pe_listener e"] e'(2) by auto
  qed
  moreover have "ls_serverId (pl_listeners q ! j) \<noteq> ls_serverId (pl_listeners q ! k)"
    if "j \<in> set (pl_starting q)" "k \<in> set (pl_starting q)" "j \<noteq> k" for j k
    using that assms(2) keep(1) st by (simp add: tracked_def L)
  ultimately show ?thesis by (simp add: tracked_def)
qed

lemma quiet_refl [simp]: "quiet p p"
  by (simp add: quiet_def)

lemma quiet_trans: "quiet p q \<Longrightarrow> quiet q r \<Longrightarrow> quiet p r"
  by (simp add: quiet_def)

lemma quiet_replace:
  assumes "pl_listeners q = (pl_listeners p)[j := l']" and "ls_serverId l' = ls_serverId (pl_listeners p ! j)"
    and "ls_server l' \<longrightarrow> ls_server (pl_listeners p ! j)" and "pl_starting q = pl_starting p"
    and "\<And>i. map_option pe_listener (rec_get (pl_entries q) i) = map_option pe_listener (rec_get (pl_entries p) i)"
  shows "quiet p q"
proof -
  have "ls_serverId (pl_listeners q ! k) = ls_serverId (pl_listeners p ! k) \<and> (ls_server (pl_listeners q ! k) \<longrightarrow> ls_server (pl_listeners p ! k))"
    if "k < length (pl_listeners p)" for k
    using that assms(1-3) by (cases "k = j") auto
  then show ?thesis using assms(1,4,5) by (simp add: quiet_def)
qed

lemma quiet_traffic: "(\<And>l. lifecycle (f l) = lifecycle l) \<Longrightarrow> quiet p (on_listener j f p)"
  using same_lifecycle [of "f (pl_listeners p ! j)" "pl_listeners p ! j"]
  by (intro quiet_replace [where j = j and l' = "f (pl_listeners p ! j)"]) (simp_all add: on_listener_def)

lemma quiet_stop_request: "quiet p (snd (stop_request i after p))"
proof (cases "rec_get (pl_entries p) i")
  case (Some e)
  show ?thesis
  proof (cases "isRunning (listener_of p e)")
    case True
    then show ?thesis
      by (intro quiet_replace [where j = "pe_listener e" and l' = "stop_begin (listener_of p e)"])
        (simp_all add: stop_request_def Some on_listener_def, simp_all add: stop_begin_def cancelDeferredDeliveries_def Let_def)
  qed (simp add: stop_request_def Some quiet_def)
qed (simp add: stop_request_def)

lemma quiet_stop_all: "quiet p (stop_all p)"
proof -
  have "quiet q (foldl (\<lambda>q i. snd (stop_request i None q)) q is)" for q "is"
    by (induction "is" arbitrary: q) (auto intro: quiet_trans quiet_stop_request)
  then show ?thesis by (simp add: stop_all_def)
qed

lemma quiet_commit: "quiet p (snd (pool_commit i d p))"
proof (cases "rec_get (pl_entries p) i")
  case (Some e)
  show ?thesis
  proof (cases "isRunning (listener_of p e)")
    case True
    then show ?thesis
      by (intro quiet_replace [where j = "pe_listener e" and l' = "snd (listener_commit d (listener_of p e))"])
        (simp_all add: pool_commit_def Some on_listener_def listener_commit_def Let_def)
  qed (simp add: pool_commit_def Some)
qed (simp add: pool_commit_def)

lemma tracked_start_request:
  assumes "tracked p" and "pool_ok p" and "\<forall>j\<in>set (pl_starting p). ls_serverId (pl_listeners p ! j) \<noteq> sd_id d"
  shows "tracked (snd (start_request d p))"
proof (cases "start_refused d p")
  case None
  let ?q = "snd (start_request d p)" and ?n = "length (pl_listeners p)"
  have q: "pl_entries ?q = pl_entries p" "pl_starting ?q = pl_starting p @ [?n]"
    "pl_listeners ?q = pl_listeners p @ [new_listener (sd_id d) d (pl_hasHandler p)]"
    using None by (simp_all add: start_request_def)
  have new: "ls_serverId (new_listener (sd_id d) d h) = sd_id d" "\<not> ls_server (new_listener (sd_id d) d h)" for h by (simp_all add: new_listener_def)
  have st: "j < ?n" if "j \<in> set (pl_starting p)" for j using assms(2) that by (simp add: pool_ok_def)
  have en: "pe_listener e < ?n" if "rec_get (pl_entries p) i = Some e" for i e
    using pool_ok_entry [OF assms(2) that] by (simp add: entry_ok_def)
  have idle: "\<not> ls_server (listener_of p e)" if e: "rec_get (pl_entries p) (sd_id d) = Some e" for e
  proof -
    have "\<not> isRunning (listener_of p e)" using None by (simp add: start_refused_def e split: if_splits option.splits)
    moreover have "ls_server (listener_of p e) \<longrightarrow> \<not> ls_draining (listener_of p e)" using assms(2) en [OF e] by (simp add: pool_ok_def)
    ultimately show ?thesis by (simp add: isRunning_def)
  qed
  have "\<exists>e. rec_get (pl_entries ?q) (ls_serverId (pl_listeners ?q ! j)) = Some e \<and> pe_listener e = j"
    if "j < length (pl_listeners ?q)" "ls_server (pl_listeners ?q ! j)" for j
    using that assms(1) new by (cases "j = ?n") (auto simp: q nth_append tracked_def less_Suc_eq)
  moreover have "\<not> ls_server (listener_of ?q e)"
    if j: "j \<in> set (pl_starting ?q)" "rec_get (pl_entries ?q) (ls_serverId (pl_listeners ?q ! j)) = Some e" for j e
  proof (cases "j = ?n")
    case True
    with j have e: "rec_get (pl_entries p) (sd_id d) = Some e" by (simp add: q new)
    then show ?thesis using idle [OF e] en [OF e] by (simp add: q nth_append)
  next
    case False
    then have "j \<in> set (pl_starting p)" "rec_get (pl_entries p) (ls_serverId (pl_listeners p ! j)) = Some e"
      using j st by (auto simp: q nth_append split: if_splits)
    then show ?thesis using assms(1) en by (simp add: tracked_def q nth_append)
  qed
  moreover have "ls_serverId (pl_listeners ?q ! j) \<noteq> ls_serverId (pl_listeners ?q ! k)"
    if "j \<in> set (pl_starting ?q)" "k \<in> set (pl_starting ?q)" "j \<noteq> k" for j k
    using that st assms(1,3) new by (auto simp: q nth_append tracked_def)
  ultimately show ?thesis by (simp add: tracked_def)
qed (use assms in \<open>simp add: start_request_def\<close>)

lemma tracked_start_finish:
  assumes "tracked p" and "pool_ok p" and j: "j \<in> set (pl_starting p)"
  shows "tracked (snd (start_finish j free p))"
proof -
  define l where "l = pl_listeners p ! j"
  let ?q = "snd (start_finish j free p)"
  have jl: "j < length (pl_listeners p)" "\<not> ls_server l" using assms(2) j by (auto simp: pool_ok_def l_def)
  obtain r l' where s: "listener_start (free \<and> \<not> port_bound p (sd_port (ls_definition l))) l = (r, l')" by fastforce
  have l': "ls_serverId l' = ls_serverId l" "ls_server l' \<longleftrightarrow> (\<exists>x. r = Inr x)"
    using s jl(2) by (auto simp: listener_start_def cancelDeferredDeliveries_def Let_def split: if_splits)
  have q: "pl_listeners ?q = (pl_listeners p)[j := l']" "pl_starting ?q = removeAll j (pl_starting p)"
    "map_option pe_listener (rec_get (pl_entries ?q) i) =
       (if ls_server l' \<and> i = ls_serverId l then Some j else map_option pe_listener (rec_get (pl_entries p) i))" for i
    using s l'(2) by (auto simp: start_finish_def Let_def l_def [symmetric] split: sum.splits)
  have ids: "ls_serverId (pl_listeners ?q ! k) = ls_serverId (pl_listeners p ! k)" for k
    using l'(1) jl(1) by (cases "k = j") (simp_all add: q l_def)
  have other: "ls_serverId (pl_listeners p ! k) \<noteq> ls_serverId l" if "k \<in> set (pl_starting p)" "k \<noteq> j" for k
    using assms(1) that j by (auto simp: tracked_def l_def)
  have "\<exists>e. rec_get (pl_entries ?q) (ls_serverId (pl_listeners ?q ! k)) = Some e \<and> pe_listener e = k"
    if k: "k < length (pl_listeners ?q)" "ls_server (pl_listeners ?q ! k)" for k
  proof (cases "k = j")
    case True
    with k(2) jl have "map_option pe_listener (rec_get (pl_entries ?q) (ls_serverId (pl_listeners ?q ! k))) = Some j"
      unfolding ids q(3) by (simp add: q l_def)
    then show ?thesis using True by auto
  next
    case False
    with k have kp: "k < length (pl_listeners p)" "ls_server (pl_listeners p ! k)" by (simp_all add: q)
    then obtain e where e: "rec_get (pl_entries p) (ls_serverId (pl_listeners p ! k)) = Some e" "pe_listener e = k"
      using assms(1) by (auto simp: tracked_def)
    have "ls_serverId (pl_listeners p ! k) \<noteq> ls_serverId l"
      using assms(1) j e kp(2) by (auto simp: tracked_def l_def)
    then have "map_option pe_listener (rec_get (pl_entries ?q) (ls_serverId (pl_listeners ?q ! k))) = Some k"
      unfolding ids q(3) using e by simp
    then show ?thesis by auto
  qed
  moreover have "\<not> ls_server (listener_of ?q e)"
    if k: "k \<in> set (pl_starting ?q)" "rec_get (pl_entries ?q) (ls_serverId (pl_listeners ?q ! k)) = Some e" for k e
  proof -
    have kp: "k \<in> set (pl_starting p)" "k \<noteq> j" using k(1) by (simp_all add: q)
    have "map_option pe_listener (rec_get (pl_entries p) (ls_serverId (pl_listeners p ! k))) = Some (pe_listener e)"
      using k(2) q(3) [of "ls_serverId (pl_listeners p ! k)"] other [OF kp] by (simp add: ids)
    then obtain e' where e': "rec_get (pl_entries p) (ls_serverId (pl_listeners p ! k)) = Some e'" "pe_listener e' = pe_listener e" by blast
    then have "\<not> ls_server (listener_of p e)" using assms(1) kp(1) by (auto simp: tracked_def)
    moreover have "pe_listener e \<noteq> j" using pool_ok_entry [OF assms(2) e'(1)] j e'(2) by (auto simp: entry_ok_def)
    ultimately show ?thesis by (simp add: q)
  qed
  moreover have "ls_serverId (pl_listeners ?q ! a) \<noteq> ls_serverId (pl_listeners ?q ! b)"
    if "a \<in> set (pl_starting ?q)" "b \<in> set (pl_starting ?q)" "a \<noteq> b" for a b
    using that assms(1) unfolding ids by (simp add: q tracked_def)
  ultimately show ?thesis by (simp add: tracked_def)
qed

lemma quiet_stop_settled: "quiet p (stop_settled i j k p)"
proof -
  have 1: "stop_settled i j k p = (on_listener j stop_end p)\<lparr>pl_stopping := take k (pl_stopping p) @ drop (Suc k) (pl_stopping p),
      pl_entries := (case rec_get (pl_entries p) i of None \<Rightarrow> pl_entries p
        | Some e \<Rightarrow> if pe_listener e = j then rec_set (pl_entries p) i (e\<lparr>pe_state := St_stopped\<rparr>) else pl_entries p)\<rparr>"
    by (simp add: stop_settled_def Let_def split: option.split)
  show ?thesis unfolding 1
    by (intro quiet_replace [where j = j and l' = "stop_end (pl_listeners p ! j)"])
      (auto simp: on_listener_def stop_end_def split: option.split)
qed

lemma tracked_step:
  assumes "tracked p" and "pool_ok p"
    and "case starts p ev of None \<Rightarrow> True | Some i \<Rightarrow> \<forall>j\<in>set (pl_starting p). ls_serverId (pl_listeners p ! j) \<noteq> i"
  shows "tracked (pool_step p ev)"
proof -
  note q = tracked_quiet [OF _ assms(1,2)]
  show ?thesis
  proof (cases ev)
    case (Pool_Stopped k)
    show ?thesis
    proof (cases "js_nth (pl_stopping p) k")
      case (Some t)
      obtain i j after where t: "t = (i, j, after)" by (cases t)
      let ?s = "stop_settled i j k p"
      have "tracked ?s" "pool_ok ?s" using q [OF quiet_stop_settled] stop_settled_ok [OF assms(2) Some [unfolded t]] by simp_all
      moreover have "pl_starting ?s = pl_starting p" "\<forall>n < length (pl_listeners p). ls_serverId (pl_listeners ?s ! n) = ls_serverId (pl_listeners p ! n)"
        using quiet_stop_settled [of p i j k] by (simp_all add: quiet_def)
      moreover have "\<forall>n\<in>set (pl_starting p). n < length (pl_listeners p)" using assms(2) by (simp add: pool_ok_def)
      ultimately show ?thesis using assms(3) Some tracked_start_request
        by (auto simp: Pool_Stopped stop_finish_def t starts_def split: option.split)
    qed (use assms(1) Pool_Stopped in \<open>simp add: stop_finish_def\<close>)
  next
    case (Pool_Restart d)
    then show ?thesis using assms tracked_start_request q [OF quiet_stop_request]
      by (auto simp: restart_request_def starts_def split: option.split)
  qed (use assms q [OF quiet_stop_request] q [OF quiet_commit] q [OF quiet_stop_all] q [OF quiet_traffic] tracked_start_request tracked_start_finish
      in \<open>auto simp: starts_def resetScenarioState_def split: option.split\<close>)
qed

text \<open>A stop of several servers leaves none of them serving.\<close>

lemma stop_request_running:
  assumes "tracked p" and "j < length (pl_listeners p)" and "isRunning (pl_listeners (snd (stop_request i after p)) ! j)"
  shows "isRunning (pl_listeners p ! j) \<and> ls_serverId (pl_listeners p ! j) \<noteq> i"
proof -
  have b: "\<not> isRunning (stop_begin l)" for l by (simp add: stop_begin_def isRunning_def cancelDeferredDeliveries_def Let_def)
  have u: "(pl_listeners p)[k := l] ! j = (if k = j then l else pl_listeners p ! j)" for k l
    using assms(2) by (cases "k = j") simp_all
  have r: "isRunning (pl_listeners p ! j)"
    using assms(3) by (auto simp: stop_request_def on_listener_def u b split: option.splits if_splits)
  have "False" if i: "ls_serverId (pl_listeners p ! j) = i"
  proof -
    obtain e where "rec_get (pl_entries p) i = Some e" "pe_listener e = j"
      using assms(1,2) r i by (auto simp: tracked_def isRunning_def)
    then show False using assms(2,3) r by (simp add: stop_request_def on_listener_def b)
  qed
  with r show ?thesis by blast
qed

lemma stop_requests_reach:
  assumes "tracked p" and "pool_ok p" and "j < length (pl_listeners p)"
    and "isRunning (pl_listeners (foldl (\<lambda>q i. snd (stop_request i None q)) p is) ! j)"
  shows "isRunning (pl_listeners p ! j) \<and> ls_serverId (pl_listeners p ! j) \<notin> set is"
  using assms
proof (induction "is" arbitrary: p)
  case (Cons i "is")
  let ?q = "snd (stop_request i None p)"
  have q: "length (pl_listeners ?q) = length (pl_listeners p)" "ls_serverId (pl_listeners ?q ! j) = ls_serverId (pl_listeners p ! j)"
    using quiet_stop_request [of p i None] Cons.prems(3) by (simp_all add: quiet_def)
  have "isRunning (pl_listeners ?q ! j)" "ls_serverId (pl_listeners ?q ! j) \<notin> set is"
    using Cons.IH [OF tracked_quiet [OF quiet_stop_request Cons.prems(1,2)] stop_request_ok [OF Cons.prems(2)]] Cons.prems(3,4)
    by (simp_all add: q(1))
  with stop_request_running [OF Cons.prems(1,3), of i None] show ?case by (simp add: q(2))
qed simp

lemma stop_all_reaches:
  assumes "tracked p" and "pool_ok p" and "l \<in> set (pl_listeners (stop_all p))"
  shows "\<not> isRunning l"
proof
  assume "isRunning l"
  moreover obtain j where j: "j < length (pl_listeners p)" "l = pl_listeners (stop_all p) ! j"
    using assms(3) quiet_stop_all [of p] by (auto simp: quiet_def in_set_conv_nth)
  ultimately have s: "isRunning (pl_listeners p ! j)"
      "ls_serverId (pl_listeners p ! j) \<notin> set (map fst (filter (\<lambda>(i, e). isRunning (listener_of p e)) (pl_entries p)))"
    using stop_requests_reach [OF assms(1,2) j(1)] unfolding stop_all_def by blast+
  then obtain e where e: "rec_get (pl_entries p) (ls_serverId (pl_listeners p ! j)) = Some e" "pe_listener e = j"
    using assms(1) j(1) by (auto simp: tracked_def isRunning_def)
  then show False using s rec_get_in_set [OF e(1)] by force
qed

text \<open>C6. While no two starts of one server overlap, no listener is lost: each one that serves is the
listener of the entry with its id, so a stop of that id ends its service, and after a stop of all servers
no listener is left that serves.\<close>

theorem serving_listeners_tracked:
  assumes "one_start_at_a_time (new_pool handler) es" and "p = foldl pool_step (new_pool handler) es"
    and "l \<in> set (pl_listeners p)" and "isRunning l"
  shows "running_listener (ls_serverId l) p = Some l \<and>
    running_listener (ls_serverId l) (snd (stop_request (ls_serverId l) None p)) = None \<and>
    (\<forall>m\<in>set (pl_listeners (pool_step p Pool_Stop_All)). \<not> isRunning m)"
proof -
  have run: "tracked (foldl pool_step q es) \<and> pool_ok (foldl pool_step q es)" if "one_start_at_a_time q es" "tracked q" "pool_ok q" for q
    using that by (induction es arbitrary: q) (auto intro: tracked_step pool_step_ok)
  have "tracked (new_pool handler)" by (simp add: tracked_def new_pool_def)
  then have p: "tracked p" "pool_ok p" using run [OF assms(1) _ new_pool_ok] assms(2) by simp_all
  obtain j where j: "j < length (pl_listeners p)" "l = pl_listeners p ! j" using assms(3) by (auto simp: in_set_conv_nth)
  then obtain e where e: "rec_get (pl_entries p) (ls_serverId l) = Some e" "pe_listener e = j"
    using p(1) assms(4) by (auto simp: tracked_def isRunning_def)
  then have "running_listener (ls_serverId l) p = Some l" using j assms(4) by (simp add: running_listener_def)
  moreover have "\<not> isRunning (stop_begin l)" for l by (simp add: stop_begin_def isRunning_def cancelDeferredDeliveries_def Let_def)
  then have "running_listener (ls_serverId l) (snd (stop_request (ls_serverId l) None p)) = None"
    using e j assms(4) by (simp add: running_listener_def stop_request_def on_listener_def)
  moreover have "\<forall>m\<in>set (pl_listeners (pool_step p Pool_Stop_All)). \<not> isRunning m" using stop_all_reaches [OF p] by simp
  ultimately show ?thesis by blast
qed

section \<open>Recorded drafts and ports\<close>

lemma get_push_draft:
  "getRecordedDrafts k (pushRecordedDraft i d p) = (if k = i then push_draft (getRecordedDrafts i p) d else getRecordedDrafts k p)"
  by (simp add: getRecordedDrafts_def pushRecordedDraft_def push_draft_def Let_def)

lemma push_draft_window:
  assumes "length ds \<le> MAX_RECORDED_DRAFTS" and "distinct (map dr_fingerprint ds)"
  shows "length (push_draft ds d) \<le> MAX_RECORDED_DRAFTS \<and> distinct (map dr_fingerprint (push_draft ds d)) \<and>
    set (push_draft ds d) \<subseteq> insert d (set ds) \<and> dr_fingerprint d \<in> dr_fingerprint ` set (push_draft ds d)"
proof (cases "list_ex (\<lambda>x. dr_fingerprint x = dr_fingerprint d) ds")
  case True
  then show ?thesis using assms by (auto simp: push_draft_def list_ex_iff intro: rev_image_eqI)
next
  case False
  have p: "push_draft ds d = drop (Suc (length ds) - MAX_RECORDED_DRAFTS) (ds @ [d])" using False by (simp add: push_draft_def)
  have n: "Suc (length ds) - MAX_RECORDED_DRAFTS \<le> length ds" using assms(1) by (simp add: MAX_RECORDED_DRAFTS_def)
  have "distinct (map dr_fingerprint (ds @ [d]))" using assms(2) False by (auto simp: list_ex_iff)
  then have "distinct (map dr_fingerprint (push_draft ds d))" unfolding p by (metis distinct_drop drop_map)
  moreover have "d \<in> set (push_draft ds d)" unfolding p using n by simp
  moreover have "set (push_draft ds d) \<subseteq> insert d (set ds)" unfolding p using set_drop_subset by fastforce
  ultimately show ?thesis unfolding p using assms(1) by auto
qed

text \<open>The drafts recorded for a server are a bounded window without duplicates: after any recordings
there are at most 200, no two of one fingerprint, all of them recorded and the last one represented; the
drafts of other servers are untouched. Acknowledging removes exactly the named drafts and reports how
many there were.\<close>

theorem recorded_drafts_window:
  assumes "getRecordedDrafts i p = []" and "q = foldl (\<lambda>p d. pushRecordedDraft i d p) p ds"
  shows "length (getRecordedDrafts i q) \<le> MAX_RECORDED_DRAFTS \<and> distinct (map dr_fingerprint (getRecordedDrafts i q)) \<and>
    set (getRecordedDrafts i q) \<subseteq> set ds \<and>
    (ds \<noteq> [] \<longrightarrow> dr_fingerprint (last ds) \<in> dr_fingerprint ` set (getRecordedDrafts i q)) \<and>
    (\<forall>k. k \<noteq> i \<longrightarrow> getRecordedDrafts k q = getRecordedDrafts k p) \<and>
    getRecordedDrafts i (snd (acknowledgeRecordedDrafts i ids q)) = filter (\<lambda>d. dr_id d \<notin> set ids) (getRecordedDrafts i q) \<and>
    fst (acknowledgeRecordedDrafts i ids q) = length (filter (\<lambda>d. dr_id d \<in> set ids) (getRecordedDrafts i q))"
proof -
  have "length (getRecordedDrafts i q) \<le> MAX_RECORDED_DRAFTS \<and> distinct (map dr_fingerprint (getRecordedDrafts i q)) \<and>
      set (getRecordedDrafts i q) \<subseteq> set ds \<and>
      (ds \<noteq> [] \<longrightarrow> dr_fingerprint (last ds) \<in> dr_fingerprint ` set (getRecordedDrafts i q)) \<and>
      (\<forall>k. k \<noteq> i \<longrightarrow> getRecordedDrafts k q = getRecordedDrafts k p)"
    unfolding assms(2)
  proof (induction ds rule: rev_induct)
    case (snoc d ds)
    let ?q = "foldl (\<lambda>p d. pushRecordedDraft i d p) p ds"
    have "length (getRecordedDrafts i ?q) \<le> MAX_RECORDED_DRAFTS" "distinct (map dr_fingerprint (getRecordedDrafts i ?q))"
      using snoc.IH by blast+
    note w = push_draft_window [OF this, of d]
    have g: "getRecordedDrafts i (foldl (\<lambda>p d. pushRecordedDraft i d p) p (ds @ [d])) = push_draft (getRecordedDrafts i ?q) d"
      by (simp add: get_push_draft)
    have "\<forall>k. k \<noteq> i \<longrightarrow> getRecordedDrafts k (foldl (\<lambda>p d. pushRecordedDraft i d p) p (ds @ [d])) = getRecordedDrafts k p"
      using snoc.IH by (simp add: get_push_draft)
    then show ?case using w snoc.IH unfolding g by auto
  qed (use assms(1) in simp)
  moreover have "length ds - length (filter (\<lambda>d. dr_id d \<notin> set ids) ds) = length (filter (\<lambda>d. dr_id d \<in> set ids) ds)" for ds
    using sum_length_filter_compl [of "\<lambda>d. dr_id d \<in> set ids" ds] by simp
  then have "getRecordedDrafts i (snd (acknowledgeRecordedDrafts i ids q)) = filter (\<lambda>d. dr_id d \<notin> set ids) (getRecordedDrafts i q) \<and>
      fst (acknowledgeRecordedDrafts i ids q) = length (filter (\<lambda>d. dr_id d \<in> set ids) (getRecordedDrafts i q))"
    by (cases "rec_get (pl_drafts q) i") (auto simp: acknowledgeRecordedDrafts_def getRecordedDrafts_def rec_get_or_def Let_def
        filter_empty_conv filter_id_conv [THEN iffD2])
  ultimately show ?thesis by blast
qed

lemma auto_range: "k \<in> set AUTO_PORT_RANGE \<longleftrightarrow> 4600 \<le> k \<and> k \<le> 4699"
proof
  assume "4600 \<le> k \<and> k \<le> 4699"
  then have "k = 4600 + int (nat (k - 4600))" "nat (k - 4600) \<in> {0..<100}" by auto
  then show "k \<in> set AUTO_PORT_RANGE" unfolding AUTO_PORT_RANGE_def set_map set_upt by blast
qed (auto simp: AUTO_PORT_RANGE_def)

text \<open>The port that is allocated is free: available, not reserved, and either the preferred one or the
least free port of the range; an error means that no port of the range is free.\<close>

theorem allocated_port_free:
  "case allocatePort available preferred reserved reserved of
     Inr n \<Rightarrow> available n \<and> n \<notin> set reserved \<and>
       (preferred = Some n \<or> (4600 \<le> n \<and> n \<le> 4699 \<and> (\<forall>k. 4600 \<le> k \<and> k < n \<longrightarrow> k \<in> set reserved \<or> \<not> available k)))
   | Inl e \<Rightarrow> \<forall>k. 4600 \<le> k \<and> k \<le> 4699 \<longrightarrow> k \<in> set reserved \<or> \<not> available k"
proof -
  let ?P = "\<lambda>k. k \<notin> set reserved \<and> available k"
  have least: "?P n \<and> 4600 \<le> n \<and> n \<le> 4699 \<and> (\<forall>k. 4600 \<le> k \<and> k < n \<longrightarrow> \<not> ?P k)" if f: "find ?P AUTO_PORT_RANGE = Some n" for n
  proof -
    obtain m where m: "m < length AUTO_PORT_RANGE" "?P (AUTO_PORT_RANGE ! m)" "n = AUTO_PORT_RANGE ! m" "\<forall>j<m. \<not> ?P (AUTO_PORT_RANGE ! j)"
      using f unfolding find_Some_iff by blast
    have nth: "AUTO_PORT_RANGE ! j = 4600 + int j" if "j < 100" for j using that by (simp add: AUTO_PORT_RANGE_def)
    have l: "length AUTO_PORT_RANGE = 100" by (simp add: AUTO_PORT_RANGE_def)
    have "\<not> ?P k" if "4600 \<le> k" "k < n" for k
    proof -
      have "nat (k - 4600) < m" "AUTO_PORT_RANGE ! nat (k - 4600) = k" using that m(1,3) l nth [of m] nth [of "nat (k - 4600)"] by auto
      then show ?thesis using m(4) by metis
    qed
    then show ?thesis using m(1-3) l nth [of m] by auto
  qed
  have none: "\<forall>k. 4600 \<le> k \<and> k \<le> 4699 \<longrightarrow> \<not> ?P k" if "find ?P AUTO_PORT_RANGE = None"
    using that auto_range unfolding find_None_iff by blast
  show ?thesis
  proof (cases "Option.bind preferred (\<lambda>n. if 1024 \<le> n \<and> n \<le> 65535 \<and> n \<notin> set reserved \<and> available n then Some n else None)")
    case (Some n)
    then have "preferred = Some n \<and> ?P n" by (cases preferred) (auto split: if_splits)
    then show ?thesis unfolding allocatePort_def Some by simp
  next
    case None
    show ?thesis
    proof (cases "find ?P AUTO_PORT_RANGE")
      case (Some n)
      from least [OF this] show ?thesis by (simp add: allocatePort_def None Some)
    next
      case none': None
      from none [OF this] show ?thesis by (simp add: allocatePort_def None none')
    qed
  qed
qed

section \<open>A concrete pool\<close>

definition pool_definition :: "int \<Rightarrow> server_definition" where
  "pool_definition port = sample_definition\<lparr>sd_port := port\<rparr>"

theorem pool_status_truthful_witness:
  "\<exists>l. ls_port l = 4600 \<and> isRunning l \<and>
     (\<exists>st. pool_status ''s'' (foldl pool_step (new_pool True) [Pool_Start sample_definition, Pool_Started 0 True]) = Some st \<and> pu_port st = ls_port l)"
proof -
  let ?p = "foldl pool_step (new_pool True) [Pool_Start sample_definition, Pool_Started 0 True]"
  obtain st where st: "pool_status ''s'' ?p = Some st" "pu_state st = St_running" "pu_port st = 4600"
    by (simp add: start_request_def start_refused_def start_finish_def new_pool_def new_listener_def listener_start_def
        cancelDeferredDeliveries_def port_bound_def sample_definition_def pool_status_def status_of_def isRunning_def Let_def)
  from pool_status_truthful [OF refl, of True "[Pool_Start sample_definition, Pool_Started 0 True]", THEN conjunct1, rule_format, OF st(1)]
  obtain l where "pu_port st = ls_port l" "pu_state st = St_running \<longleftrightarrow> isRunning l" by blast
  with st show ?thesis by (metis)
qed

theorem overlapping_starts_leak_witness:
  "isRunning (pl_listeners (foldl pool_step (foldl pool_step (new_pool True)
     [Pool_Start (pool_definition 4600), Pool_Start (pool_definition 4601), Pool_Started 0 True, Pool_Started 1 True])
     [Pool_Stop_All, Pool_Stopped 0]) ! 0)"
  using overlapping_starts_leak [OF _ _ refl, of "pool_definition 4600" "pool_definition 4601" True "[Pool_Stop_All, Pool_Stopped 0]"]
  by (simp add: pool_definition_def del: foldl.simps)

theorem serving_listeners_tracked_witness:
  "\<exists>l p. p = foldl pool_step (new_pool True) [Pool_Start sample_definition, Pool_Started 0 True] \<and>
     running_listener ''s'' p = Some l \<and> running_listener ''s'' (snd (stop_request ''s'' None p)) = None"
proof -
  let ?es = "[Pool_Start sample_definition, Pool_Started 0 True]"
  have one: "one_start_at_a_time (new_pool True) ?es" by (simp add: starts_def new_pool_def)
  define l where "l = snd (listener_start True (new_listener ''s'' sample_definition True))"
  have l: "l \<in> set (pl_listeners (foldl pool_step (new_pool True) ?es))"
    by (simp add: l_def start_request_def start_refused_def start_finish_def new_pool_def new_listener_def listener_start_def
        cancelDeferredDeliveries_def port_bound_def sample_definition_def Let_def)
  have "isRunning l" "ls_serverId l = ''s''"
    by (simp_all add: l_def listener_start_def new_listener_def cancelDeferredDeliveries_def isRunning_def Let_def)
  with serving_listeners_tracked [OF one refl l] show ?thesis by metis
qed

theorem recorded_drafts_window_witness:
  "length (getRecordedDrafts ''s'' (foldl (\<lambda>p d. pushRecordedDraft ''s'' d p) (new_pool True)
     [toRecordedDraft (convertSourceToRule sample_conversion_env (sample_source None) plain_options) ''f'' ''t'' ''i''])) \<le> MAX_RECORDED_DRAFTS"
proof -
  have e: "getRecordedDrafts ''s'' (new_pool True) = []" by (simp add: getRecordedDrafts_def new_pool_def)
  from recorded_drafts_window [OF e refl, of "[toRecordedDraft (convertSourceToRule sample_conversion_env (sample_source None) plain_options) ''f'' ''t'' ''i'']"]
  show ?thesis by blast
qed

theorem allocated_port_free_witness:
  "case allocatePort (\<lambda>n. n \<noteq> 4600) None [4601] [4601] of Inr n \<Rightarrow> n \<notin> {4600, 4601} | Inl e \<Rightarrow> False"
proof -
  have a: "allocatePort (\<lambda>n. n \<noteq> 4600) None [4601] [4601] = Inr 4602" by code_simp
  from allocated_port_free [where available = "\<lambda>n. n \<noteq> 4600" and preferred = None and reserved = "[4601]"] show ?thesis unfolding a by simp
qed

end
