(* ===== verification/Stomp.thy ===== *)
theory Stomp
  imports Prelude
begin

text \<open>
  The STOMP 1.2 codec of the WebSocket Studio
  (\<open>src/shared/websocket/protocols/stompCodec.ts\<close>): header escapes, frames, the frame builders,
  summaries and heartbeats.

  A frame is a command line, one line per header, an empty line, the body and a final null. The
  headers of a decoded frame live in a plain object and are entered with \<open>in\<close>, so a header
  with the name of an inherited property is dropped; the round trip excludes those names. The
  arrows of the summary texts are written with ASCII characters.
\<close>

section \<open>Commands and frames\<close>

definition STOMP_CLIENT_COMMANDS :: "string list" where
  "STOMP_CLIENT_COMMANDS = [''CONNECT'', ''STOMP'', ''SEND'', ''SUBSCRIBE'', ''UNSUBSCRIBE'',
     ''ACK'', ''NACK'', ''DISCONNECT'', ''BEGIN'', ''COMMIT'', ''ABORT'']"

definition STOMP_SERVER_COMMANDS :: "string list" where
  "STOMP_SERVER_COMMANDS = [''CONNECTED'', ''MESSAGE'', ''RECEIPT'', ''ERROR'']"

definition ALL_COMMANDS :: "string set" where
  "ALL_COMMANDS = set (STOMP_CLIENT_COMMANDS @ STOMP_SERVER_COMMANDS)"

record stomp_frame =
  sf_command :: string
  sf_headers :: "string record_bag"
  sf_body :: string
  sf_raw :: string

abbreviation NULL_CHAR :: char where "NULL_CHAR \<equiv> CHR 0x00"
abbreviation BSL :: char where "BSL \<equiv> CHR 0x5C"

section \<open>Header escapes\<close>

fun decodeStompHeaderValue :: "string \<Rightarrow> string" where
  "decodeStompHeaderValue (x # y # r) =
     (if x = BSL then
        (if y = BSL then BSL # decodeStompHeaderValue r
         else if y = CHR ''n'' then LF # decodeStompHeaderValue r
         else if y = CHR ''r'' then CR # decodeStompHeaderValue r
         else if y = CHR ''c'' then CHR '':'' # decodeStompHeaderValue r
         else x # decodeStompHeaderValue (y # r))
      else x # decodeStompHeaderValue (y # r))"
| "decodeStompHeaderValue s = s"

definition encodeStompHeaderValue :: "string \<Rightarrow> string" where
  "encodeStompHeaderValue v =
     js_replace_char CHR '':'' [BSL, CHR ''c''] (js_replace_char LF [BSL, CHR ''n'']
       (js_replace_char CR [BSL, CHR ''r''] (js_replace_char BSL [BSL, BSL] v)))"

section \<open>Frames\<close>

definition encode_header :: "string \<times> string \<Rightarrow> string" where
  "encode_header kv = encodeStompHeaderValue (fst kv) @ '':'' @ encodeStompHeaderValue (snd kv) @ [LF]"

definition encodeStompFrame :: "string \<Rightarrow> string record_bag \<Rightarrow> string option \<Rightarrow> string" where
  "encodeStompFrame command headers body =
     command @ [LF] @ concat (map encode_header headers) @ [LF] @
     (case body of None \<Rightarrow> [] | Some b \<Rightarrow> b) @ [NULL_CHAR]"

text \<open>The cut into header section and body: at the first empty line with line feeds, else at
the first one with carriage returns.\<close>

definition split_frame :: "string \<Rightarrow> string \<times> string" where
  "split_frame cleaned =
     (case js_index_of [LF, LF] cleaned of
        None \<Rightarrow>
          (case js_index_of [CR, LF, CR, LF] cleaned of
             Some i \<Rightarrow> (take i cleaned, drop (i + 4) cleaned)
           | None \<Rightarrow> (cleaned, []))
      | Some i \<Rightarrow> (take i cleaned, drop (i + 2) cleaned))"

definition add_header_line :: "string record_bag \<Rightarrow> string \<Rightarrow> string record_bag" where
  "add_header_line headers line =
     (case js_index_of '':'' line of
        None \<Rightarrow> headers
      | Some c \<Rightarrow>
          (if c = 0 then headers
           else let key = decodeStompHeaderValue (take c line);
                    v = decodeStompHeaderValue (drop (c + 1) line)
                in if \<not> js_in key headers then rec_set headers key v else headers))"

definition decodeStompFrame :: "string \<Rightarrow> stomp_frame" where
  "decodeStompFrame raw =
     (let cleaned = (if js_ends_with raw [NULL_CHAR] then butlast raw else raw);
          (headerSection, body) = split_frame cleaned;
          lines = js_lines headerSection
      in \<lparr>sf_command = js_upper (js_trim (hd lines)), sf_headers = foldl add_header_line [] (tl lines),
          sf_body = body, sf_raw = raw\<rparr>)"

section \<open>Frame builders\<close>

definition set_if :: "string option \<Rightarrow> string \<Rightarrow> string record_bag \<Rightarrow> string record_bag" where
  "set_if v k headers = (case v of None \<Rightarrow> headers | Some [] \<Rightarrow> headers | Some s \<Rightarrow> rec_set headers k s)"

definition encodeStompConnect ::
  "string option \<Rightarrow> string option \<Rightarrow> string option \<Rightarrow> (int \<times> int) option \<Rightarrow> string" where
  "encodeStompConnect host login passcode heartBeat =
     (let h1 = set_if host ''host'' [(''accept-version'', ''1.2'')];
          h2 = set_if login ''login'' h1;
          h3 = set_if passcode ''passcode'' h2;
          h4 = (case heartBeat of None \<Rightarrow> h3
                | Some (x, y) \<Rightarrow> rec_set h3 ''heart-beat'' (js_int x @ '','' @ js_int y))
      in encodeStompFrame ''CONNECT'' h4 None)"

definition rec_assign :: "'v record_bag \<Rightarrow> 'v record_bag \<Rightarrow> 'v record_bag" where
  "rec_assign r other = foldl (\<lambda>h (k, v). rec_set h k v) r other"

definition send_headers ::
  "string \<Rightarrow> string option \<Rightarrow> string option \<Rightarrow> string record_bag option \<Rightarrow> string record_bag" where
  "send_headers destination body contentType extraHeaders =
     (let h1 = rec_assign [(''destination'', destination)] (case extraHeaders of None \<Rightarrow> [] | Some e \<Rightarrow> e);
          h2 = set_if contentType ''content-type'' h1
      in case body of None \<Rightarrow> h2 | Some [] \<Rightarrow> h2
         | Some b \<Rightarrow> rec_set h2 ''content-length'' (js_nat (utf8_length b)))"

definition encodeStompSend ::
  "string \<Rightarrow> string option \<Rightarrow> string option \<Rightarrow> string record_bag option \<Rightarrow> string" where
  "encodeStompSend destination body contentType extraHeaders =
     encodeStompFrame ''SEND'' (send_headers destination body contentType extraHeaders) body"

datatype ack_mode = Ack_auto | Ack_client | Ack_client_individual

definition ack_name :: "ack_mode \<Rightarrow> string" where
  "ack_name a = (case a of Ack_auto \<Rightarrow> ''auto'' | Ack_client \<Rightarrow> ''client'' | Ack_client_individual \<Rightarrow> ''client-individual'')"

definition encodeStompSubscribe :: "string \<Rightarrow> string \<Rightarrow> ack_mode option \<Rightarrow> string" where
  "encodeStompSubscribe destination i ack = encodeStompFrame ''SUBSCRIBE''
     [(''destination'', destination), (''id'', i), (''ack'', ack_name (case ack of None \<Rightarrow> Ack_auto | Some a \<Rightarrow> a))] None"

definition encodeStompDisconnect :: "string option \<Rightarrow> string" where
  "encodeStompDisconnect receipt = encodeStompFrame ''DISCONNECT'' (set_if receipt ''receipt'' []) None"

section \<open>Summaries and heartbeats\<close>

definition or_else :: "string option \<Rightarrow> string \<Rightarrow> string" where
  "or_else v d = (case v of None \<Rightarrow> d | Some s \<Rightarrow> s)"

definition with_destination :: "string \<Rightarrow> string \<Rightarrow> string option \<Rightarrow> string" where
  "with_destination name arrow dest = (case dest of None \<Rightarrow> name | Some [] \<Rightarrow> name | Some d \<Rightarrow> name @ arrow @ d)"

definition getStompFrameSummary :: "stomp_frame \<Rightarrow> string" where
  "getStompFrameSummary f =
     (let h = rec_get (sf_headers f);
          dest = h ''destination'';
          id_part = (case h ''message-id'' of Some m \<Rightarrow> m | None \<Rightarrow> or_else (h ''id'') [])
      in if sf_command f = ''CONNECTED'' then ''CONNECTED (v'' @ or_else (h ''version'') ''?'' @ '')''
         else if sf_command f = ''MESSAGE'' then with_destination ''MESSAGE'' '' <- '' dest
         else if sf_command f = ''SEND'' then with_destination ''SEND'' '' -> '' dest
         else if sf_command f = ''SUBSCRIBE'' then with_destination ''SUBSCRIBE'' '' '' dest
         else if sf_command f = ''UNSUBSCRIBE'' then js_trim (''UNSUBSCRIBE '' @ or_else (h ''id'') [])
         else if sf_command f = ''RECEIPT'' then ''RECEIPT #'' @ or_else (h ''receipt-id'') ''?''
         else if sf_command f = ''ERROR'' then ''ERROR: '' @ or_else (h ''message'') (take 40 (sf_body f))
         else if sf_command f = ''DISCONNECT'' then ''DISCONNECT''
         else if sf_command f = ''CONNECT'' \<or> sf_command f = ''STOMP'' then
           ''CONNECT -> '' @ or_else (h ''host'') ''server''
         else if sf_command f = ''ACK'' then js_trim (''ACK '' @ id_part)
         else if sf_command f = ''NACK'' then js_trim (''NACK '' @ id_part)
         else sf_command f)"

definition isStompHeartbeat :: "string \<Rightarrow> bool" where
  "isStompHeartbeat raw = (length (filter (\<lambda>c. c \<noteq> CR \<and> c \<noteq> LF \<and> c \<noteq> NULL_CHAR) raw) = 0)"

definition encodeStompHeartbeat :: string where
  "encodeStompHeartbeat = [LF]"

definition isStompFrame :: "string \<Rightarrow> bool" where
  "isStompFrame raw = (js_upper (js_trim (hd (js_lines raw))) \<in> ALL_COMMANDS)"

section \<open>Escapes are inverted\<close>

text \<open>The four replacements together escape each unit on its own.\<close>

definition escape_unit :: "char \<Rightarrow> string" where
  "escape_unit x = (if x = BSL then [BSL, BSL] else if x = CR then [BSL, CHR ''r'']
     else if x = LF then [BSL, CHR ''n''] else if x = CHR '':'' then [BSL, CHR ''c''] else [x])"

lemma encode_units: "encodeStompHeaderValue v = concat (map escape_unit v)"
  by (induction v) (simp_all add: encodeStompHeaderValue_def escape_unit_def)

lemma decode_escape: "decodeStompHeaderValue (escape_unit x @ s) = x # decodeStompHeaderValue s"
  by (cases s) (simp_all add: escape_unit_def)

lemma decode_encode [simp]: "decodeStompHeaderValue (encodeStompHeaderValue v) = v"
  by (induction v) (simp_all add: encode_units decode_escape)

lemma escape_unit_plain: "LF \<notin> set (escape_unit x)" "CR \<notin> set (escape_unit x)" "CHR '':'' \<notin> set (escape_unit x)"
  by (auto simp: escape_unit_def)

lemma encoded_plain [simp]:
  "LF \<notin> set (encodeStompHeaderValue v)" "CR \<notin> set (encodeStompHeaderValue v)"
  "CHR '':'' \<notin> set (encodeStompHeaderValue v)"
  using escape_unit_plain by (auto simp: encode_units)

lemma encoded_empty [simp]: "encodeStompHeaderValue v = [] \<longleftrightarrow> v = []"
  by (cases v) (auto simp: encode_units escape_unit_def)

section \<open>Frames are inverted\<close>

text \<open>A header line without its line end, and a decoded header line.\<close>

definition header_line :: "string \<times> string \<Rightarrow> string" where
  "header_line kv = encodeStompHeaderValue (fst kv) @ CHR '':'' # encodeStompHeaderValue (snd kv)"

lemma encode_header_line: "encode_header kv = header_line kv @ [LF]"
  by (simp add: encode_header_def header_line_def)

lemma header_line_plain [simp]: "LF \<notin> set (header_line kv)" "CR \<notin> set (header_line kv)"
  by (simp_all add: header_line_def)

lemma header_line_nonempty [simp]: "header_line kv \<noteq> []"
  by (simp add: header_line_def)

lemma add_header_line_encoded:
  "k \<noteq> [] \<Longrightarrow> add_header_line hs (header_line (k, v)) = (if js_in k hs then hs else rec_set hs k v)"
  by (simp add: add_header_line_def header_line_def js_index_of_char)

lemma rec_set_new: "k \<notin> fst ` set r \<Longrightarrow> rec_set r k v = r @ [(k, v)]"
  by (induction r) auto

text \<open>Names a header may have so that a decoded frame keeps it.\<close>

definition header_names_ok :: "string record_bag \<Rightarrow> bool" where
  "header_names_ok hs = list_all (\<lambda>(k, v). k \<noteq> [] \<and> k \<notin> set inherited_names) hs"

lemma decode_headers:
  "rec_wf (hs @ r) \<Longrightarrow> header_names_ok r \<Longrightarrow> foldl add_header_line hs (map header_line r) = hs @ r"
proof (induction r arbitrary: hs)
  case (Cons kv r)
  obtain k v where kv: "kv = (k, v)" by fastforce
  with Cons.prems have "k \<noteq> []" "\<not> js_in k hs" "k \<notin> fst ` set hs"
    by (auto simp: header_names_ok_def js_in_def rec_has_def rec_wf_def)
  then have "add_header_line hs (header_line kv) = hs @ [kv]"
    by (simp add: kv add_header_line_encoded rec_set_new)
  with Cons.IH [of "hs @ [kv]"] Cons.prems show ?case by (simp add: header_names_ok_def)
qed simp

text \<open>The first empty line comes right after the header lines.\<close>

lemma index_empty_line:
  "\<forall>l\<in>set ls. l \<noteq> [] \<and> LF \<notin> set l \<Longrightarrow> ls \<noteq> [] \<Longrightarrow>
     js_index_of [LF, LF] (js_join1 LF ls @ LF # LF # s) = Some (length (js_join1 LF ls))"
proof (induction LF ls rule: js_join1.induct)
  case (2 p)
  have "LF \<notin> set p \<Longrightarrow> js_index_of [LF, LF] (p @ LF # LF # s) = Some (length p)" by (induction p) auto
  with 2 show ?case by simp
next
  case (3 p q ps)
  have skip: "LF \<notin> set p \<Longrightarrow> js_index_of [LF, LF] t = Some i \<Longrightarrow> t \<noteq> [] \<Longrightarrow> hd t \<noteq> LF \<Longrightarrow>
      js_index_of [LF, LF] (p @ LF # t) = Some (length p + Suc i)" for t i
    by (induction p) (cases t; auto)+
  have "hd (js_join1 LF (q # ps) @ LF # LF # s) \<noteq> LF"
    using 3 by (cases ps; cases q) auto
  then show ?case using 3 skip [of "js_join1 LF (q # ps) @ LF # LF # s"] by simp
qed simp

lemma js_lines_join1:
  "\<forall>l\<in>set ls. LF \<notin> set l \<and> CR \<notin> set l \<Longrightarrow> ls \<noteq> [] \<Longrightarrow> js_lines (js_join1 LF ls) = ls"
  by (induction LF ls rule: js_join1.induct) (auto simp: js_lines_plain js_lines_append_LF)

lemma encoded_frame_lines:
  "command @ [LF] @ concat (map encode_header hs) = js_join1 LF (command # map header_line hs) @ [LF]"
proof -
  have "js_join1 LF (p # map header_line hs) = p @ concat (map (\<lambda>l. LF # l) (map header_line hs))" for p
    by (induction hs arbitrary: p) auto
  moreover have "concat (map encode_header hs) @ t = t' \<Longrightarrow> LF # concat (map encode_header hs) =
      concat (map (\<lambda>l. LF # l) (map header_line hs)) @ [LF]" for t t'
    by (induction hs arbitrary: t t') (auto simp: encode_header_line)
  ultimately show ?thesis by simp
qed

text \<open>A command line the decoder gives back: not empty, one line, upper case, no outer space.\<close>

definition command_ok :: "string \<Rightarrow> bool" where
  "command_ok c = (c \<noteq> [] \<and> LF \<notin> set c \<and> CR \<notin> set c)"

lemma decode_terminated: "decodeStompFrame (s @ [NULL_CHAR]) =
  (case split_frame s of (headerSection, body) \<Rightarrow>
     \<lparr>sf_command = js_upper (js_trim (hd (js_lines headerSection))),
      sf_headers = foldl add_header_line [] (tl (js_lines headerSection)),
      sf_body = body, sf_raw = s @ [NULL_CHAR]\<rparr>)"
  by (simp add: decodeStompFrame_def js_ends_with_def suffix_def butlast_append Let_def split: prod.split)

lemma decode_encoded:
  assumes "command_ok command" and "rec_wf headers" and "header_names_ok headers"
  shows "decodeStompFrame (encodeStompFrame command headers body) =
    \<lparr>sf_command = js_upper (js_trim command), sf_headers = headers, sf_body = (case body of None \<Rightarrow> [] | Some b \<Rightarrow> b),
     sf_raw = encodeStompFrame command headers body\<rparr>"
proof -
  define b where "b = (case body of None \<Rightarrow> [] | Some b \<Rightarrow> b)"
  define ls where "ls = command # map header_line headers"
  have raw: "encodeStompFrame command headers body = (js_join1 LF ls @ LF # LF # b) @ [NULL_CHAR]"
    unfolding encodeStompFrame_def b_def [symmetric] ls_def
    using encoded_frame_lines [of command headers] by simp
  have ok: "\<forall>l\<in>set ls. l \<noteq> [] \<and> LF \<notin> set l" "\<forall>l\<in>set ls. LF \<notin> set l \<and> CR \<notin> set l" "ls \<noteq> []"
    using assms(1) by (auto simp: ls_def command_ok_def)
  have "split_frame (js_join1 LF ls @ LF # LF # b) = (js_join1 LF ls, b)"
    using index_empty_line [OF ok(1,3), of b] by (simp add: split_frame_def)
  moreover have "foldl add_header_line [] (tl ls) = headers"
    using decode_headers [of "[]" headers] assms(2,3) by (simp add: ls_def)
  moreover have "hd ls = command" by (simp add: ls_def)
  ultimately show ?thesis
    using js_lines_join1 [OF ok(2,3)]
    by (simp only: raw decode_terminated b_def [symmetric] prod.case)
qed

text \<open>C31. Encoding a frame and decoding it gives the headers in order and the body back,
whatever the header values and the body contain (line ends, colons, backslashes, nulls), and the
command trimmed and in upper case, so that every command of the protocol comes back unchanged. The
command is one non-empty line; the header names are distinct, not empty and not names of inherited
properties.\<close>

theorem stomp_frame_roundtrip:
  assumes "command_ok command" and "rec_wf headers" and "header_names_ok headers"
  shows "decodeStompFrame (encodeStompFrame command headers body) =
    \<lparr>sf_command = js_upper (js_trim command), sf_headers = headers, sf_body = (case body of None \<Rightarrow> [] | Some b \<Rightarrow> b),
     sf_raw = encodeStompFrame command headers body\<rparr>"
  by (rule decode_encoded [OF assms])

theorem stomp_frame_roundtrip_witness:
  "decodeStompFrame (encodeStompFrame ''SEND'' [(''destination'', ''/q:1'')] (Some [LF, LF, NULL_CHAR])) =
    \<lparr>sf_command = ''SEND'', sf_headers = [(''destination'', ''/q:1'')], sf_body = [LF, LF, NULL_CHAR],
     sf_raw = encodeStompFrame ''SEND'' [(''destination'', ''/q:1'')] (Some [LF, LF, NULL_CHAR])\<rparr>"
proof -
  have up: "js_upper (js_trim ''SEND'') = ''SEND''" by code_simp
  have "command_ok ''SEND''" by (simp add: command_ok_def)
  from stomp_frame_roundtrip [OF this, of "[(''destination'', ''/q:1'')]" "Some [LF, LF, NULL_CHAR]"]
  show ?thesis unfolding up by (simp add: rec_wf_def header_names_ok_def inherited_names_def)
qed

section \<open>SEND frames\<close>

lemma header_names_ok_set: "header_names_ok hs \<Longrightarrow> k \<noteq> [] \<Longrightarrow> k \<notin> set inherited_names \<Longrightarrow> header_names_ok (rec_set hs k v)"
  by (induction hs k v rule: rec_set.induct) (auto simp: header_names_ok_def)

lemma rec_assign_ok:
  "rec_wf r \<Longrightarrow> header_names_ok r \<Longrightarrow> header_names_ok e \<Longrightarrow> rec_wf (rec_assign r e) \<and> header_names_ok (rec_assign r e)"
proof (induction e arbitrary: r)
  case (Cons kv e)
  obtain k v where kv: "kv = (k, v)" by fastforce
  with Cons.prems(3) have "k \<noteq> []" "k \<notin> set inherited_names" "header_names_ok e"
    by (simp_all add: header_names_ok_def)
  with Cons.prems(2) have "header_names_ok (rec_set r k v)" "header_names_ok e"
    by (simp_all add: header_names_ok_set)
  with Cons.IH [of "rec_set r k v"] Cons.prems(1) kv show ?case by (simp add: rec_assign_def rec_wf_set)
qed (simp add: rec_assign_def)

lemma set_if_ok:
  "rec_wf r \<and> header_names_ok r \<Longrightarrow> k \<noteq> [] \<Longrightarrow> k \<notin> set inherited_names \<Longrightarrow>
     rec_wf (set_if v k r) \<and> header_names_ok (set_if v k r)"
  by (auto simp: set_if_def header_names_ok_set rec_wf_set split: option.split list.split)

lemma send_headers_ok:
  "header_names_ok (case e of None \<Rightarrow> [] | Some e \<Rightarrow> e) \<Longrightarrow>
     rec_wf (send_headers d b c e) \<and> header_names_ok (send_headers d b c e)"
proof -
  assume e: "header_names_ok (case e of None \<Rightarrow> [] | Some e \<Rightarrow> e)"
  have "header_names_ok [(''destination'', d)]" by (simp add: header_names_ok_def inherited_names_def)
  then have "rec_wf (rec_assign [(''destination'', d)] (case e of None \<Rightarrow> [] | Some e \<Rightarrow> e)) \<and>
      header_names_ok (rec_assign [(''destination'', d)] (case e of None \<Rightarrow> [] | Some e \<Rightarrow> e))"
    using e by (intro rec_assign_ok) (simp_all add: rec_wf_def)
  then have h2: "rec_wf h2 \<and> header_names_ok h2"
    if "h2 = set_if c ''content-type'' (rec_assign [(''destination'', d)] (case e of None \<Rightarrow> [] | Some e \<Rightarrow> e))" for h2
    unfolding that by (rule set_if_ok) (simp_all add: inherited_names_def)
  then show ?thesis
    by (auto simp: send_headers_def Let_def inherited_names_def
        intro!: header_names_ok_set rec_wf_set split: option.split list.split)
qed

text \<open>A SEND frame arrives as it was built: command, headers and body decode to
what was given, and a body that is not empty is announced with its length in UTF-8.\<close>

theorem send_frame_delivers:
  assumes "header_names_ok (case extra of None \<Rightarrow> [] | Some e \<Rightarrow> e)" and "b \<noteq> []"
  shows "decodeStompFrame (encodeStompSend dest (Some b) ct extra) =
      \<lparr>sf_command = ''SEND'', sf_headers = send_headers dest (Some b) ct extra, sf_body = b,
       sf_raw = encodeStompSend dest (Some b) ct extra\<rparr> \<and>
    rec_get (send_headers dest (Some b) ct extra) ''content-length'' = Some (js_nat (utf8_length b))"
proof -
  have up: "js_upper (js_trim ''SEND'') = ''SEND''" by code_simp
  have "command_ok ''SEND''" by (simp add: command_ok_def)
  from decode_encoded [OF this, of "send_headers dest (Some b) ct extra" "Some b"]
  have "decodeStompFrame (encodeStompSend dest (Some b) ct extra) =
      \<lparr>sf_command = ''SEND'', sf_headers = send_headers dest (Some b) ct extra, sf_body = b,
       sf_raw = encodeStompSend dest (Some b) ct extra\<rparr>"
    using send_headers_ok [OF assms(1), of dest "Some b" ct] by (simp add: encodeStompSend_def up)
  moreover have "rec_get (send_headers dest (Some b) ct extra) ''content-length'' = Some (js_nat (utf8_length b))"
    using assms(2) by (cases b) (simp_all add: send_headers_def Let_def)
  ultimately show ?thesis by blast
qed

theorem send_frame_delivers_witness:
  "rec_get (sf_headers (decodeStompFrame (encodeStompSend ''/q'' (Some [CHR 0xE9]) None None))) ''content-length''
     = Some ''2''"
proof -
  have "js_nat (utf8_length [CHR 0xE9]) = ''2''" by code_simp
  with send_frame_delivers [of None "[CHR 0xE9]" "''/q''" None] show ?thesis
    by (simp add: header_names_ok_def)
qed

section \<open>CRLF frames\<close>

lemma split_frame_at:
  "js_index_of [LF, LF] (u @ LF # LF # q) = Some (length u) \<Longrightarrow> split_frame (u @ LF # LF # q) = (u, q)"
  by (simp add: split_frame_def)

lemma index_of_first:
  "\<not> sublist [LF, LF] (u @ [LF]) \<Longrightarrow> js_index_of [LF, LF] (u @ LF # LF # q) = Some (length u)"
proof (induction u)
  case (Cons x u)
  then have "\<not> sublist [LF, LF] (u @ [LF])" by (simp add: sublist_Cons_right)
  with Cons have "js_index_of [LF, LF] (u @ LF # LF # q) = Some (length u)" by blast
  moreover have "\<not> prefix [LF, LF] (x # u @ LF # LF # q)"
  proof
    assume "prefix [LF, LF] (x # u @ LF # LF # q)"
    then have "x = LF" "prefix [LF] (u @ [LF])" by (cases u; simp)+
    with Cons.prems show False by (simp add: sublist_Cons_right)
  qed
  ultimately show ?case by simp
qed simp

text \<open>A frame with carriage returns at its line ends, which the decoder means to
accept, is cut at the wrong place when its body holds an empty line: the part of the body before
that line is lost from the body, for every head and every body.\<close>

theorem crlf_body_cut:
  assumes "\<not> sublist [LF, LF] (head @ [CR, LF, CR, LF] @ part @ [LF])"
  shows "sf_body (decodeStompFrame (head @ [CR, LF, CR, LF] @ part @ [LF, LF] @ rest @ [NULL_CHAR])) = rest"
proof -
  have "head @ [CR, LF, CR, LF] @ part @ [LF, LF] @ rest @ [NULL_CHAR] =
      ((head @ [CR, LF, CR, LF] @ part) @ LF # LF # rest) @ [NULL_CHAR]" by simp
  moreover have "split_frame ((head @ [CR, LF, CR, LF] @ part) @ LF # LF # rest) =
      (head @ [CR, LF, CR, LF] @ part, rest)"
    using index_of_first [of "head @ [CR, LF, CR, LF] @ part" rest] assms by (intro split_frame_at) simp
  ultimately show ?thesis by (simp only: decode_terminated prod.case stomp_frame.simps)
qed

theorem crlf_body_cut_witness:
  "sf_body (decodeStompFrame (''SEND'' @ [CR, LF, CR, LF] @ ''a'' @ [LF, LF] @ ''b'' @ [NULL_CHAR])) = ''b''"
  by (rule crlf_body_cut) (simp add: sublist_Cons_right)

section \<open>Heartbeats\<close>

lemma js_trim_subset: "set (js_trim s) \<subseteq> set s"
  by (auto simp: js_trim_def dest!: set_dropWhileD)

lemma js_lines_hd_subset: "set (hd (js_lines s)) \<subseteq> set s"
proof (induction s rule: js_lines.induct)
  case (2 x xs)
  then show ?case by (cases "js_lines xs") auto
qed simp

text \<open>A frame with a known command is not taken for a heartbeat, and the heartbeat is one.\<close>

lemma frame_not_heartbeat:
  assumes "isStompFrame raw"
  shows "\<not> isStompHeartbeat raw"
proof
  assume "isStompHeartbeat raw"
  then have "set raw \<subseteq> {CR, LF, NULL_CHAR}" by (auto simp: isStompHeartbeat_def filter_empty_conv)
  with js_trim_subset js_lines_hd_subset
  have t: "set (js_trim (hd (js_lines raw))) \<subseteq> {CR, LF, NULL_CHAR}" by blast
  have "js_upper s = s" if "set s \<subseteq> {CR, LF, NULL_CHAR}" for s
    using that by (induction s) (auto simp: js_upper_def js_upper_char_def)
  with t have "set (js_upper (js_trim (hd (js_lines raw)))) \<subseteq> {CR, LF, NULL_CHAR}" by simp
  with assms show False
    by (auto simp: isStompFrame_def ALL_COMMANDS_def STOMP_CLIENT_COMMANDS_def STOMP_SERVER_COMMANDS_def)
qed

lemma heartbeat_is_heartbeat: "isStompHeartbeat encodeStompHeartbeat"
  by (simp add: isStompHeartbeat_def encodeStompHeartbeat_def)

end
