(* ===== verification/Variables.thy ===== *)
theory Variables
  imports Request_Normalization
begin

text \<open>
  The variables of a workflow run (\<open>src/features/workflow/engine/variableContext.ts\<close>): four layers,
  the variables bound to single steps, the labels of the steps, and the substitution of
  \<open>{{...}}\<close> in texts; and the comparisons of condition and wait nodes
  (\<open>graphRunnerHelpers.ts\<close>).

  A \<open>Map\<close> is an association list in insertion order. Random draws, clock and identifiers are fields
  of \<open>expression_env\<close>, as are the number parsers of the language; the library of expression functions
  and the parser of nested expressions (\<open>expressionFunctions.ts\<close>, \<open>expressionEvaluator.ts\<close>) are
  fields too. The lemmas show which layer wins, that a child run sees the values of its parent, that a
  label stands for a step exactly when it is unique, and that every key of a snapshot can be read back.
\<close>

section \<open>Names of steps\<close>

datatype parsed_scoped = Scoped_Id string string | Scoped_Label string string

definition js_newline :: "char \<Rightarrow> bool" where
  "js_newline c = (c = CHR 0x0A \<or> c = CHR 0x0D)"

text \<open>\<open>.+\<close> up to the end.\<close>

definition rest_of_line :: "string \<Rightarrow> bool" where
  "rest_of_line s = (s \<noteq> [] \<and> (\<forall>c\<in>set s. \<not> js_newline c))"

definition parse_quoted :: "string \<Rightarrow> parsed_scoped option" where
  "parse_quoted s =
     (if js_starts_with s ''node:\"'' then
        (let body = drop 6 s; label = takeWhile (\<lambda>c. c \<noteq> CHR 0x22) body; r = drop (length label) body
         in if js_starts_with r [CHR 0x22, CHR ''.''] \<and> rest_of_line (drop 2 r)
            then Some (Scoped_Label label (drop 2 r)) else None)
      else None)"

definition parse_plain_node :: "string \<Rightarrow> parsed_scoped option" where
  "parse_plain_node s =
     (if js_starts_with s ''node:'' then
        (let body = drop 5 s; i = takeWhile (\<lambda>c. c \<noteq> CHR ''.'') body; r = drop (length i) body
         in if i \<noteq> [] \<and> r \<noteq> [] \<and> rest_of_line (tl r) then Some (Scoped_Id i (tl r)) else None)
      else None)"

definition parseNodeScopedInner :: "string \<Rightarrow> parsed_scoped option" where
  "parseNodeScopedInner s = (case parse_quoted s of Some p \<Rightarrow> Some p | None \<Rightarrow> parse_plain_node s)"

text \<open>The title of a step: its label, else the name of its scenario (\<open>workflowVariableHints.ts\<close>).\<close>

definition httpStepDisplayLabel :: "string option \<Rightarrow> string option \<Rightarrow> string" where
  "httpStepDisplayLabel label name =
     (let d = js_trim (case label of None \<Rightarrow> [] | Some l \<Rightarrow> l);
          n = js_trim (case name of None \<Rightarrow> [] | Some l \<Rightarrow> l)
      in if d \<noteq> [] then d else if n \<noteq> [] then n else ''HTTP'')"

section \<open>The store\<close>

record var_context =
  vc_extracted :: "string record_bag"
  vc_manual :: "string record_bag"
  vc_environment :: "string record_bag"
  vc_byNode :: "string record_bag record_bag"
  vc_labelToNodeId :: "string record_bag"
  vc_ambiguousLabels :: "string list"
  vc_nodeIdToLabel :: "string record_bag"

definition new_context :: "string record_bag \<Rightarrow> string record_bag \<Rightarrow> var_context" where
  "new_context initial env =
     \<lparr>vc_extracted = [], vc_manual = foldl (\<lambda>m (k, v). rec_set m k v) [] initial,
      vc_environment = foldl (\<lambda>m (k, v). rec_set m k v) [] env, vc_byNode = [],
      vc_labelToNodeId = [], vc_ambiguousLabels = [], vc_nodeIdToLabel = []\<rparr>"

text \<open>The steps that count are given with their display labels.\<close>

definition ids_by_label :: "(string \<times> string) list \<Rightarrow> string list record_bag" where
  "ids_by_label steps = foldl (\<lambda>m (i, title). rec_set m title (rec_get_or [] m title @ [i])) [] steps"

definition register_label :: "var_context \<Rightarrow> string \<times> string list \<Rightarrow> var_context" where
  "register_label c e =
     (case e of (title, ids) \<Rightarrow>
        if length ids = 1 then c\<lparr>vc_labelToNodeId := rec_set (vc_labelToNodeId c) title (hd ids)\<rparr>
        else c\<lparr>vc_ambiguousLabels := List.insert title (vc_ambiguousLabels c)\<rparr>)"

definition registerWorkflowNodes :: "(string \<times> string) list \<Rightarrow> var_context \<Rightarrow> var_context" where
  "registerWorkflowNodes steps c =
     foldl register_label
       (c\<lparr>vc_labelToNodeId := [], vc_ambiguousLabels := [],
          vc_nodeIdToLabel := foldl (\<lambda>m (i, title). rec_set m i title) [] steps\<rparr>)
       (ids_by_label steps)"

definition setForNode :: "string \<Rightarrow> string \<Rightarrow> string \<Rightarrow> var_context \<Rightarrow> var_context" where
  "setForNode nodeId name v c =
     c\<lparr>vc_byNode := rec_set (vc_byNode c) nodeId (rec_set (rec_get_or [] (vc_byNode c) nodeId) name v)\<rparr>"

definition getFromNode :: "var_context \<Rightarrow> string \<Rightarrow> string \<Rightarrow> string option" where
  "getFromNode c nodeId name = Option.bind (rec_get (vc_byNode c) nodeId) (\<lambda>m. rec_get m name)"

text \<open>An empty id is not looked up (\<open>if (!id)\<close>).\<close>

definition resolveParsedScoped :: "var_context \<Rightarrow> parsed_scoped \<Rightarrow> string option" where
  "resolveParsedScoped c p =
     (case p of
        Scoped_Id i name \<Rightarrow> getFromNode c i name
      | Scoped_Label label name \<Rightarrow>
          (if label \<in> set (vc_ambiguousLabels c) then None
           else case rec_get (vc_labelToNodeId c) label of
                  None \<Rightarrow> None
                | Some i \<Rightarrow> if i = [] then None else getFromNode c i name))"

definition set_var :: "string \<Rightarrow> string \<Rightarrow> var_context \<Rightarrow> var_context" where
  "set_var name v c = c\<lparr>vc_extracted := rec_set (vc_extracted c) name v\<rparr>"

definition delete_var :: "string \<Rightarrow> var_context \<Rightarrow> bool \<times> var_context" where
  "delete_var name c = (rec_has (vc_extracted c) name, c\<lparr>vc_extracted := rec_del (vc_extracted c) name\<rparr>)"

text \<open>\<open>a ?? b\<close>.\<close>

definition or_else :: "'a option \<Rightarrow> 'a option \<Rightarrow> 'a option" where
  "or_else a b = (case a of None \<Rightarrow> b | Some _ \<Rightarrow> a)"

definition get_layered :: "var_context \<Rightarrow> string \<Rightarrow> string option" where
  "get_layered c name =
     or_else (rec_get (vc_extracted c) name)
       (or_else (rec_get (vc_manual c) name) (rec_get (vc_environment c) name))"

definition get_var :: "var_context \<Rightarrow> string \<Rightarrow> string option" where
  "get_var c name =
     (case parseNodeScopedInner name of
        Some p \<Rightarrow> resolveParsedScoped c p
      | None \<Rightarrow> get_layered c name)"

definition child_context :: "var_context \<Rightarrow> var_context" where
  "child_context c = c\<lparr>vc_extracted := [], vc_manual := foldl (\<lambda>m (k, v). rec_set m k v) (vc_manual c) (vc_extracted c)\<rparr>"

section \<open>Snapshots\<close>

definition internalVars :: "string list" where
  "internalVars = [''__webhookInput'', ''__webhookMethod'', ''__webhookPath'', ''__webhookPayload'']"

definition snapshotKeyForNodeVar :: "var_context \<Rightarrow> string \<Rightarrow> string \<Rightarrow> string" where
  "snapshotKeyForNodeVar c nodeId varName =
     (case rec_get (vc_nodeIdToLabel c) nodeId of
        None \<Rightarrow> ''node:'' @ nodeId @ ''.'' @ varName
      | Some label \<Rightarrow>
          (if label \<noteq> [] \<and> label \<notin> set (vc_ambiguousLabels c) \<and> CHR 0x22 \<notin> set label \<and> CHR 0x0A \<notin> set label
           then ''node:\"'' @ label @ [CHR 0x22, CHR ''.''] @ varName
           else ''node:'' @ nodeId @ ''.'' @ varName))"

definition visible_layer :: "string record_bag \<Rightarrow> string record_bag" where
  "visible_layer m = filter (\<lambda>(k, _). k \<notin> set internalVars) m"

definition node_layer :: "var_context \<Rightarrow> string record_bag" where
  "node_layer c = concat (map (\<lambda>(nodeId, inner).
     map (\<lambda>(name, v). (snapshotKeyForNodeVar c nodeId name, v)) (visible_layer inner)) (vc_byNode c))"

text \<open>\<open>out[k] = v\<close> for every entry; assigning a text to \<open>__proto__\<close> has no effect.\<close>

definition assign_all :: "string record_bag \<Rightarrow> string record_bag \<Rightarrow> string record_bag" where
  "assign_all out m = foldl (\<lambda>o' (k, v). if k = ''__proto__'' then o' else rec_set o' k v) out m"

definition snapshot :: "var_context \<Rightarrow> string record_bag" where
  "snapshot c =
     assign_all (assign_all (assign_all (assign_all [] (visible_layer (vc_environment c)))
       (visible_layer (vc_manual c))) (visible_layer (vc_extracted c))) (node_layer c)"

definition context_size :: "var_context \<Rightarrow> nat" where
  "context_size c = card (set (rec_keys (vc_environment c)) \<union> set (rec_keys (vc_manual c)) \<union> set (rec_keys (vc_extracted c)) \<union>
     (\<Union>(nodeId, inner) \<in> set (vc_byNode c). snapshotKeyForNodeVar c nodeId ` set (rec_keys inner)))"

section \<open>Expressions\<close>

datatype expression_arg = Arg_Text string | Arg_Number rat | Arg_Bool bool

text \<open>What an expression gives: a value as text, nothing (\<open>null\<close>), or an exception.\<close>

datatype expression_result = Ex_Text string | Ex_Null | Ex_Error

record expression_env =
  xe_uuid :: "nat \<Rightarrow> string" \<comment> \<open>of the n-th placeholder of the text\<close>
  xe_now :: string
  xe_iso :: string
  xe_unit :: "nat \<Rightarrow> nat \<Rightarrow> rat" \<comment> \<open>\<open>Math.random()\<close>: placeholder, draw\<close>
  xe_base36 :: "rat \<Rightarrow> string" \<comment> \<open>\<open>r.toString(36).slice(2, 8)\<close>\<close>
  xe_number :: "string \<Rightarrow> rat option" \<comment> \<open>\<open>Number\<close>; \<open>None\<close> is \<open>NaN\<close>\<close>
  xe_parse_float :: "string \<Rightarrow> rat option"
  xe_functions :: "string \<Rightarrow> (expression_arg list \<Rightarrow> expression_result) option"
  xe_evaluate :: "(string \<Rightarrow> string option) \<Rightarrow> string \<Rightarrow> expression_result"
  xe_host :: js_host

text \<open>\<open>/^\$(\w+)(?:\(([^)]*)\))?$/\<close>: the name and the text between the parentheses.\<close>

definition generator_match :: "string \<Rightarrow> (string \<times> string option) option" where
  "generator_match expr =
     (case expr of
        [] \<Rightarrow> None
      | c # body \<Rightarrow>
          (let name = takeWhile js_is_word body; r = drop (length name) body
           in if c \<noteq> CHR ''$'' \<or> name = [] then None
              else if r = [] then Some (name, None)
              else if hd r = CHR ''('' \<and> last r = CHR '')'' \<and> 2 \<le> length r \<and> CHR '')'' \<notin> set (js_inner r)
              then Some (name, Some (js_inner r)) else None))"

text \<open>\<open>parseInt(args[i] ?? d, 10)\<close>.\<close>

definition int_arg :: "string list \<Rightarrow> nat \<Rightarrow> int \<Rightarrow> int option" where
  "int_arg args i d = (if i < length args then js_parse_int (args ! i) else Some d)"

definition random_chars :: string where
  "random_chars = ''ABCDEFGHIJKLMNOPQRSTUVWXYZabcdefghijklmnopqrstuvwxyz0123456789''"

definition random_char :: "rat \<Rightarrow> char" where
  "random_char r = random_chars ! nat \<lfloor>r * of_nat (length random_chars)\<rfloor>"

definition generate :: "expression_env \<Rightarrow> nat \<Rightarrow> string \<Rightarrow> string list \<Rightarrow> string option" where
  "generate env n name args =
     (if name = ''uuid'' then Some (xe_uuid env n)
      else if name = ''timestamp'' then Some (xe_now env)
      else if name = ''isoDate'' then Some (xe_iso env)
      else if name = ''randomInt'' then
        (case (int_arg args 0 0, int_arg args 1 1000) of
           (Some lo, Some hi) \<Rightarrow> Some (js_int (\<lfloor>xe_unit env n 0 * of_int (hi - lo + 1)\<rfloor> + lo))
         | _ \<Rightarrow> Some ''NaN'')
      else if name = ''randomEmail'' then Some (''user_'' @ xe_base36 env (xe_unit env n 0) @ ''@test.com'')
      else if name = ''randomString'' then
        Some (map (\<lambda>i. random_char (xe_unit env n i))
          [0..<(case int_arg args 0 8 of None \<Rightarrow> 0 | Some len \<Rightarrow> nat len)])
      else None)"

definition resolveBuiltInGenerator :: "expression_env \<Rightarrow> nat \<Rightarrow> string \<Rightarrow> string option" where
  "resolveBuiltInGenerator env n expr =
     (case generator_match expr of
        None \<Rightarrow> None
      | Some (name, rawArgs) \<Rightarrow>
          generate env n name (case rawArgs of None \<Rightarrow> [] | Some a \<Rightarrow> map js_trim (js_split CHR '','' a)))"

text \<open>A quoted argument: its value, with a backslash taking the next unit as it is, and the rest after
the closing quote.\<close>

fun quoted_arg :: "char \<Rightarrow> string \<Rightarrow> string \<times> string" where
  "quoted_arg q [] = ([], [])"
| "quoted_arg q (c # cs) =
     (if c = q then ([], cs)
      else if c = CHR 0x5C \<and> cs \<noteq> [] then (case quoted_arg q (tl cs) of (v, r) \<Rightarrow> (hd cs # v, r))
      else (case quoted_arg q cs of (v, r) \<Rightarrow> (c # v, r)))"

lemma quoted_arg_shorter: "length (snd (quoted_arg q s)) \<le> length s"
  by (induction q s rule: quoted_arg.induct) (auto split: prod.split simp: le_diff_conv)

definition bare_arg :: "expression_env \<Rightarrow> (string \<Rightarrow> string option) \<Rightarrow> string \<Rightarrow> expression_arg" where
  "bare_arg env resolveVar token =
     (if token = ''true'' then Arg_Bool True
      else if token = ''false'' then Arg_Bool False
      else case xe_number env token of
        Some n \<Rightarrow> Arg_Number n
      | None \<Rightarrow> Arg_Text (case resolveVar token of None \<Rightarrow> token | Some v \<Rightarrow> v))"

function parse_args_from :: "expression_env \<Rightarrow> (string \<Rightarrow> string option) \<Rightarrow> string \<Rightarrow> expression_arg list" where
  "parse_args_from env resolveVar [] = []"
| "parse_args_from env resolveVar (c # cs) =
     (if js_is_space c \<or> c = CHR '','' then parse_args_from env resolveVar cs
      else if c = CHR 0x22 \<or> c = CHR 0x27 then
        Arg_Text (fst (quoted_arg c cs)) # parse_args_from env resolveVar (snd (quoted_arg c cs))
      else
        (let token = js_trim (takeWhile (\<lambda>x. x \<noteq> CHR '','') (c # cs))
         in (if token = [] then [] else [bare_arg env resolveVar token]) @
            parse_args_from env resolveVar (dropWhile (\<lambda>x. x \<noteq> CHR '','') cs)))"
  by pat_completeness auto
termination
  by (relation "measure (\<lambda>(_, _, s). length s)")
    (auto simp: less_Suc_eq_le quoted_arg_shorter length_dropWhile_le)

definition parseExpressionArgs :: "expression_env \<Rightarrow> (string \<Rightarrow> string option) \<Rightarrow> string \<Rightarrow> expression_arg list" where
  "parseExpressionArgs env resolveVar raw = parse_args_from env resolveVar (js_trim raw)"

definition braces :: "string \<Rightarrow> string" where
  "braces s = ''{{'' @ s @ ''}}''"

definition expression_text :: "string \<Rightarrow> expression_result \<Rightarrow> string" where
  "expression_text expr r = (case r of Ex_Text t \<Rightarrow> t | Ex_Null \<Rightarrow> [] | Ex_Error \<Rightarrow> braces expr)"

definition resolveExpressionFunction :: "expression_env \<Rightarrow> string \<Rightarrow> (string \<Rightarrow> string option) \<Rightarrow> string" where
  "resolveExpressionFunction env expr resolveVar =
     (case generator_match expr of
        Some (name, rawArgs) \<Rightarrow>
          (case xe_functions env (CHR ''$'' # name) of
             None \<Rightarrow> braces expr
           | Some fn \<Rightarrow> expression_text expr (fn
               (case rawArgs of None \<Rightarrow> [] | Some a \<Rightarrow> if a = [] then [] else parseExpressionArgs env resolveVar a)))
      | None \<Rightarrow>
          (if \<not> js_includes expr ''('' then braces expr
           else expression_text expr (xe_evaluate env resolveVar expr)))"

definition resolveExpression :: "expression_env \<Rightarrow> var_context \<Rightarrow> nat \<Rightarrow> string \<Rightarrow> string" where
  "resolveExpression env c n expr =
     (case resolveBuiltInGenerator env n expr of
        Some t \<Rightarrow> t
      | None \<Rightarrow> resolveExpressionFunction env expr (get_var c))"

section \<open>Substitution\<close>

text \<open>\<open>/\{\{([^}]+)\}\}/\<close> at the start of a text: the key and the rest.\<close>

definition placeholder :: "string \<Rightarrow> (string \<times> string) option" where
  "placeholder s =
     (if js_starts_with s ''{{'' then
        (let run = takeWhile (\<lambda>c. c \<noteq> CHR ''}'') (drop 2 s); r = dropWhile (\<lambda>c. c \<noteq> CHR ''}'') (drop 2 s)
         in if run \<noteq> [] \<and> js_starts_with r ''}}'' then Some (run, drop 2 r) else None)
      else None)"

lemma placeholder_shorter: "placeholder s = Some (k, r) \<Longrightarrow> length r < length s"
proof -
  assume "placeholder s = Some (k, r)"
  then obtain t where t: "s = ''{{'' @ t" "r = drop 2 (dropWhile (\<lambda>c. c \<noteq> CHR ''}'') t)"
    by (auto simp: placeholder_def Let_def js_starts_with_def split: if_splits elim!: prefixE)
  have "length (dropWhile (\<lambda>c. c \<noteq> CHR ''}'') t) \<le> length t" by (rule length_dropWhile_le)
  with t show ?thesis by simp
qed

definition resolve_key :: "expression_env \<Rightarrow> var_context \<Rightarrow> nat \<Rightarrow> string \<Rightarrow> string" where
  "resolve_key env c n key =
     (let trimmed = js_trim key
      in if js_starts_with trimmed ''$'' then resolveExpression env c n trimmed
         else case get_var c trimmed of None \<Rightarrow> braces key | Some v \<Rightarrow> v)"

function substitute :: "(nat \<Rightarrow> string \<Rightarrow> string) \<Rightarrow> nat \<Rightarrow> string \<Rightarrow> string" where
  "substitute f n [] = []"
| "substitute f n (c # cs) =
     (case placeholder (c # cs) of
        None \<Rightarrow> c # substitute f n cs
      | Some (key, r) \<Rightarrow> f n key @ substitute f (Suc n) r)"
  by pat_completeness auto
termination
  by (relation "measure (\<lambda>(_, _, s). length s)") (auto dest: placeholder_shorter)

definition resolve :: "expression_env \<Rightarrow> var_context \<Rightarrow> string \<Rightarrow> string" where
  "resolve env c template = substitute (resolve_key env c) 0 template"

section \<open>Conditions\<close>

text \<open>A comparison of two texts as numbers; with \<open>NaN\<close> it is false.\<close>

definition compare_floats :: "expression_env \<Rightarrow> (rat \<Rightarrow> rat \<Rightarrow> bool) \<Rightarrow> string \<Rightarrow> string \<Rightarrow> bool" where
  "compare_floats env rel left right =
     (case (xe_parse_float env left, xe_parse_float env right) of
        (Some a, Some b) \<Rightarrow> rel a b | _ \<Rightarrow> False)"

definition compareValues :: "expression_env \<Rightarrow> string \<Rightarrow> string \<Rightarrow> string \<Rightarrow> bool" where
  "compareValues env left right operator =
     (if operator \<in> {''=='', ''===''} then left = right
      else if operator \<in> {''!='', ''!==''} then left \<noteq> right
      else if operator = ''>'' then compare_floats env (>) left right
      else if operator = ''<'' then compare_floats env (<) left right
      else if operator = ''>='' then compare_floats env (\<ge>) left right
      else if operator = ''<='' then compare_floats env (\<le>) left right
      else if operator = ''contains'' then js_includes left right
      else if operator \<in> {''not-contains'', ''!contains''} then \<not> js_includes left right
      else if operator = ''regex'' then
        (case regex_compile (xe_host env) right [] of None \<Rightarrow> False | Some test \<Rightarrow> test left)
      else False)"

definition evaluateCondition :: "expression_env \<Rightarrow> var_context \<Rightarrow> string \<Rightarrow> string \<Rightarrow> string \<Rightarrow> bool" where
  "evaluateCondition env c left operator right =
     compareValues env (resolve env c left) (resolve env c right) operator"

definition WAIT_CONDITION_OPERATORS :: "string list" where
  "WAIT_CONDITION_OPERATORS = [''=='', ''!='', ''>='', ''<='', ''>'', ''<'', ''contains'', ''!contains'']"

fun wait_comparison :: "expression_env \<Rightarrow> string list \<Rightarrow> string \<Rightarrow> bool option" where
  "wait_comparison env [] resolved = None"
| "wait_comparison env (op # ops) resolved =
     (case js_index_of ('' '' @ op @ '' '') resolved of
        None \<Rightarrow> wait_comparison env ops resolved
      | Some i \<Rightarrow> Some (compareValues env (js_trim (take i resolved)) (js_trim (drop (i + length op + 2) resolved)) op))"

definition evaluateWaitCondition :: "expression_env \<Rightarrow> var_context \<Rightarrow> string \<Rightarrow> bool" where
  "evaluateWaitCondition env c expression =
     (if js_trim expression = [] then False
      else let resolved = resolve env c expression
           in case wait_comparison env WAIT_CONDITION_OPERATORS resolved of
                Some b \<Rightarrow> b
              | None \<Rightarrow> js_lower (js_trim resolved) \<notin> {[], ''false'', ''0'', ''null'', ''undefined''})"

section \<open>Lemmas\<close>

lemma or_else_simps [simp]: "or_else None b = b" "or_else (Some v) b = Some v" "or_else a None = a"
  by (simp_all add: or_else_def split: option.split)

lemma or_else_assoc: "or_else (or_else a b) d = or_else a (or_else b d)"
  by (cases a) auto

lemma rec_get_foldl_set:
  "rec_wf m \<Longrightarrow> rec_get (foldl (\<lambda>m (k, v). rec_set m k v) out m) k = or_else (rec_get m k) (rec_get out k)"
proof (induction m arbitrary: out)
  case (Cons e m)
  obtain k' v where e: "e = (k', v)" by fastforce
  have "rec_get m k' = None" "rec_wf m"
    using Cons.prems e by (auto simp: rec_wf_def rec_get_def map_of_eq_None_iff)
  with Cons.IH [of "rec_set out k' v"] e show ?case by auto
qed simp

lemma rec_get_assign_all:
  "rec_wf m \<Longrightarrow> k \<noteq> ''__proto__'' \<Longrightarrow> rec_get (assign_all out m) k = or_else (rec_get m k) (rec_get out k)"
  unfolding assign_all_def
proof (induction m arbitrary: out)
  case (Cons e m)
  obtain k' v where e: "e = (k', v)" by fastforce
  have "rec_get m k' = None" "rec_wf m"
    using Cons.prems e by (auto simp: rec_wf_def rec_get_def map_of_eq_None_iff)
  with Cons.IH [of "if k' = ''__proto__'' then out else rec_set out k' v"] Cons.prems(2) e show ?case by auto
qed simp

text \<open>A placeholder begins here: two braces, a name that is not empty and has no closing brace, two braces.\<close>

definition begins_hole :: "string \<Rightarrow> bool" where
  "begins_hole s = (\<exists>key r. s = braces key @ r \<and> key \<noteq> [] \<and> CHR ''}'' \<notin> set key)"

lemma begins_hole_simps [simp]:
  "\<not> begins_hole []" "c \<noteq> CHR ''{'' \<Longrightarrow> \<not> begins_hole (c # s)" "d \<noteq> CHR ''{'' \<Longrightarrow> \<not> begins_hole (c # d # s)"
  by (auto simp: begins_hole_def braces_def)

lemma placeholder_braces:
  assumes "key \<noteq> []" "CHR ''}'' \<notin> set key"
  shows "placeholder (braces key @ r) = Some (key, r)"
proof -
  have "takeWhile (\<lambda>c. c \<noteq> CHR ''}'') (key @ CHR ''}'' # s) = key" for s
    using assms(2) by (induction key) auto
  moreover have "dropWhile (\<lambda>c. c \<noteq> CHR ''}'') (key @ CHR ''}'' # s) = CHR ''}'' # s" for s
    using assms(2) by (induction key) auto
  ultimately show ?thesis using assms(1) by (simp add: placeholder_def js_starts_with_def braces_def)
qed

lemma placeholder_Some:
  assumes "placeholder s = Some (key, r)"
  shows "s = braces key @ r" "key \<noteq> []" "CHR ''}'' \<notin> set key"
proof -
  let ?P = "\<lambda>c. c \<noteq> CHR ''}''"
  obtain t where t: "s = ''{{'' @ t" "key = takeWhile ?P t" "key \<noteq> []" "js_starts_with (dropWhile ?P t) ''}}''"
      "r = drop 2 (dropWhile ?P t)"
    using assms by (auto simp: placeholder_def Let_def js_starts_with_def split: if_splits elim!: prefixE)
  from t(4) obtain u where "dropWhile ?P t = ''}}'' @ u" by (auto simp: js_starts_with_def elim!: prefixE)
  with t takeWhile_dropWhile_id [of ?P t] show "s = braces key @ r" by (simp add: braces_def)
  show "key \<noteq> []" by (rule t(3))
  show "CHR ''}'' \<notin> set key" using t(2) set_takeWhileD [of _ ?P t] by blast
qed

lemma placeholder_None: "placeholder s = None \<longleftrightarrow> \<not> begins_hole s"
  using placeholder_Some [of s] placeholder_braces
  by (cases "placeholder s") (fastforce simp: begins_hole_def)+

section \<open>What a text becomes\<close>

text \<open>A text as a sequence of plain pieces, in which no placeholder begins, and placeholders.\<close>

datatype piece = Plain string | Hole string

fun piece_text :: "piece \<Rightarrow> string" where
  "piece_text (Plain t) = t"
| "piece_text (Hole key) = braces key"

definition pieces_text :: "piece list \<Rightarrow> string" where
  "pieces_text ps = concat (map piece_text ps)"

fun no_hole_in :: "string \<Rightarrow> string \<Rightarrow> bool" where
  "no_hole_in [] r = True"
| "no_hole_in (c # cs) r = (\<not> begins_hole (c # cs @ r) \<and> no_hole_in cs r)"

fun pieces_ok :: "piece list \<Rightarrow> bool" where
  "pieces_ok [] = True"
| "pieces_ok (Plain t # ps) = (no_hole_in t (pieces_text ps) \<and> pieces_ok ps)"
| "pieces_ok (Hole key # ps) = (key \<noteq> [] \<and> CHR ''}'' \<notin> set key \<and> pieces_ok ps)"

lemma pieces_text_simps [simp]:
  "pieces_text [] = []" "pieces_text (Plain t # ps) = t @ pieces_text ps"
  "pieces_text (Hole key # ps) = braces key @ pieces_text ps"
  by (simp_all add: pieces_text_def)

text \<open>What stands in the place of the \<open>n\<close>-th placeholder: the value of the variable it names; itself, where
there is no such variable; and where the name begins with a dollar sign what the generators and functions make
of the expression.\<close>

definition hole_value :: "expression_env \<Rightarrow> var_context \<Rightarrow> nat \<Rightarrow> string \<Rightarrow> string" where
  "hole_value env c n key =
     (if js_starts_with (js_trim key) ''$'' then resolveExpression env c n (js_trim key)
      else case get_var c (js_trim key) of None \<Rightarrow> braces key | Some v \<Rightarrow> v)"

fun filled :: "expression_env \<Rightarrow> var_context \<Rightarrow> nat \<Rightarrow> piece list \<Rightarrow> string" where
  "filled env c n [] = []"
| "filled env c n (Plain t # ps) = t @ filled env c n ps"
| "filled env c n (Hole key # ps) = hole_value env c n key @ filled env c (Suc n) ps"

lemma substitute_plain: "no_hole_in t r \<Longrightarrow> substitute f n (t @ r) = t @ substitute f n r"
  by (induction t) (simp_all add: placeholder_None [symmetric])

lemma substitute_braces:
  assumes "key \<noteq> []" "CHR ''}'' \<notin> set key"
  shows "substitute f n (braces key @ r) = f n key @ substitute f (Suc n) r"
  using placeholder_braces [OF assms, of r] by (simp add: braces_def)

lemma substitute_pieces: "pieces_ok ps \<Longrightarrow> substitute (resolve_key env c) n (pieces_text ps) = filled env c n ps"
  by (induction ps arbitrary: n rule: pieces_ok.induct)
    (simp_all add: substitute_plain substitute_braces resolve_key_def hole_value_def Let_def)

lemma every_text_splits: "\<exists>ps. pieces_ok ps \<and> pieces_text ps = s"
proof (induction s rule: length_induct)
  case (1 s)
  show ?case
  proof (cases "placeholder s")
    case None
    show ?thesis
    proof (cases s)
      case Nil
      then show ?thesis by (intro exI [of _ "[]"]) simp
    next
      case (Cons c cs)
      with 1 obtain ps where "pieces_ok ps" "pieces_text ps = cs" by auto
      with Cons None show ?thesis by (intro exI [of _ "Plain [c] # ps"]) (simp add: placeholder_None)
    qed
  next
    case (Some p)
    obtain key r where p: "p = (key, r)" by fastforce
    from placeholder_shorter [OF Some [unfolded p]] 1 obtain ps where "pieces_ok ps" "pieces_text ps = r" by blast
    with placeholder_Some [OF Some [unfolded p]] show ?thesis by (intro exI [of _ "Hole key # ps"]) simp
  qed
qed

text \<open>C34. Every template can be read as plain text and placeholders, where a placeholder is a name
without a closing brace between double braces, and no placeholder begins inside the plain text; single braces,
as in JSON, are plain text. Substitution keeps the plain text and replaces each placeholder by the value of the
variable it names, or leaves it as it is written when there is no such variable; a placeholder whose name
begins with a dollar sign becomes what the generators and functions make of it. A value that was put in is not
substituted again.\<close>

theorem resolve_substitutes:
  "(\<exists>ps. pieces_ok ps \<and> pieces_text ps = template) \<and>
   (\<forall>ps. pieces_ok ps \<longrightarrow> resolve env c (pieces_text ps) = filled env c 0 ps)"
  using every_text_splits [of template] substitute_pieces by (auto simp: resolve_def)

section \<open>Children\<close>

definition context_wf :: "var_context \<Rightarrow> bool" where
  "context_wf c = (rec_wf (vc_extracted c) \<and> rec_wf (vc_manual c) \<and> rec_wf (vc_environment c) \<and>
     rec_wf (vc_byNode c) \<and> list_all (\<lambda>(i, m). rec_wf m) (vc_byNode c))"

text \<open>A child run starts with the values of its parent under every name, step-scoped names included,
and what it sets stays in the child.\<close>

theorem child_sees_parent:
  assumes "context_wf c"
  shows "get_var (child_context c) name = get_var c name \<and>
    get_var (set_var n v (child_context c)) name =
      (if name = n \<and> parseNodeScopedInner n = None then Some v else get_var c name)"
proof -
  have w: "rec_wf (vc_extracted c)" using assms by (simp add: context_wf_def)
  have scoped: "resolveParsedScoped (child_context c) = resolveParsedScoped c"
    "resolveParsedScoped (set_var n v (child_context c)) = resolveParsedScoped c"
    by (simp_all add: fun_eq_iff resolveParsedScoped_def getFromNode_def child_context_def set_var_def
        split: parsed_scoped.split option.split)
  have layered: "get_layered (child_context c) name = get_layered c name"
    using rec_get_foldl_set [OF w] by (simp add: get_layered_def child_context_def or_else_assoc)
  moreover have "get_layered (set_var n v (child_context c)) name =
      (if name = n then Some v else get_layered (child_context c) name)"
    by (simp add: get_layered_def set_var_def child_context_def)
  ultimately show ?thesis using scoped by (auto simp: get_var_def split: option.split)
qed

section \<open>Labels\<close>

lemma parse_label_key:
  assumes "CHR 0x22 \<notin> set l" "rest_of_line name"
  shows "parseNodeScopedInner (''node:\"'' @ l @ [CHR 0x22, CHR ''.''] @ name) = Some (Scoped_Label l name)"
proof -
  have "takeWhile (\<lambda>c. c \<noteq> CHR 0x22) (l @ CHR 0x22 # x) = l" for x
    using assms(1) by (induction l) auto
  with assms(2) show ?thesis by (simp add: parseNodeScopedInner_def parse_quoted_def js_starts_with_def)
qed

lemma ids_by_label_get:
  "rec_get (ids_by_label steps) l =
     (case filter (\<lambda>(i, t). t = l) steps of [] \<Rightarrow> None | es \<Rightarrow> Some (map fst es))"
proof -
  have "rec_get (foldl (\<lambda>m (i, title). rec_set m title (rec_get_or [] m title @ [i])) m steps) l =
      (case filter (\<lambda>(i, t). t = l) steps of [] \<Rightarrow> rec_get m l | es \<Rightarrow> Some (rec_get_or [] m l @ map fst es))" for m
  proof (induction steps arbitrary: m)
    case (Cons e steps)
    obtain i t where e: "e = (i, t)" by fastforce
    show ?case using Cons.IH [of "rec_set m t (rec_get_or [] m t @ [i])"] e
      by (auto split: list.splits)
  qed simp
  from this [of "[]"] show ?thesis unfolding ids_by_label_def by (simp split: list.split)
qed

lemma ids_by_label_wf: "rec_wf (ids_by_label steps)"
proof -
  have "rec_wf m \<Longrightarrow> rec_wf (foldl (\<lambda>m (i, title). rec_set m title (rec_get_or [] m title @ [i])) m steps)" for m
    by (induction steps arbitrary: m) auto
  then show ?thesis by (simp add: ids_by_label_def)
qed

lemma register_labels:
  assumes "rec_wf g"
  shows "rec_get (vc_labelToNodeId (foldl register_label c g)) l =
      (case rec_get g l of Some [i] \<Rightarrow> Some i | _ \<Rightarrow> rec_get (vc_labelToNodeId c) l) \<and>
    (l \<in> set (vc_ambiguousLabels (foldl register_label c g)) \<longleftrightarrow>
      l \<in> set (vc_ambiguousLabels c) \<or> (\<exists>ids. rec_get g l = Some ids \<and> length ids \<noteq> 1)) \<and>
    vc_byNode (foldl register_label c g) = vc_byNode c \<and>
    vc_nodeIdToLabel (foldl register_label c g) = vc_nodeIdToLabel c"
  using assms
proof (induction g arbitrary: c)
  case (Cons e g)
  obtain t ids where e: "e = (t, ids)" by fastforce
  have "rec_get g t = None" "rec_wf g"
    using Cons.prems e by (auto simp: rec_wf_def rec_get_def map_of_eq_None_iff)
  with Cons.IH [of "register_label c e"] e show ?case
    by (cases ids; cases "tl ids") (auto simp: register_label_def split: list.splits option.splits)
qed simp

text \<open>A label stands for a step exactly when one step has it: \<open>node:"label".name\<close> reads the variable of
that step, and nothing when several steps share the label or none has it.\<close>

theorem labels_resolve_when_unique:
  assumes "CHR 0x22 \<notin> set l" "rest_of_line name"
  shows "get_var (registerWorkflowNodes steps c) (''node:\"'' @ l @ [CHR 0x22, CHR ''.''] @ name) =
    (case filter (\<lambda>(i, t). t = l) steps of
       [(i, _)] \<Rightarrow> if i = [] then None else getFromNode c i name
     | _ \<Rightarrow> None)"
proof -
  let ?c = "registerWorkflowNodes steps c"
  note parse = parse_label_key [OF assms]
  note r = register_labels [OF ids_by_label_wf [of steps], where l = l, unfolded ids_by_label_get]
  have by_node: "getFromNode ?c = getFromNode c"
    using r by (simp add: fun_eq_iff getFromNode_def registerWorkflowNodes_def)
  have get: "get_var ?c (''node:\"'' @ l @ [CHR 0x22, CHR ''.''] @ name) = resolveParsedScoped ?c (Scoped_Label l name)"
    unfolding get_var_def parse by simp
  consider "filter (\<lambda>(i, t). t = l) steps = []" | i t where "filter (\<lambda>(i, t). t = l) steps = [(i, t)]"
    | e e' es where "filter (\<lambda>(i, t). t = l) steps = e # e' # es"
    by (metis neq_Nil_conv surj_pair)
  then show ?thesis
  proof cases
    case 1
    with r show ?thesis unfolding get by (simp add: resolveParsedScoped_def registerWorkflowNodes_def)
  next
    case 2
    then have "rec_get (vc_labelToNodeId ?c) l = Some i" "l \<notin> set (vc_ambiguousLabels ?c)"
      using r by (simp_all add: registerWorkflowNodes_def)
    with 2 by_node show ?thesis unfolding get by (simp add: resolveParsedScoped_def)
  next
    case 3
    then have "l \<in> set (vc_ambiguousLabels ?c)" using r by (simp add: registerWorkflowNodes_def)
    with 3 show ?thesis unfolding get by (simp add: resolveParsedScoped_def)
  qed
qed

section \<open>Reading a snapshot\<close>

lemma assign_all_from:
  "rec_get (assign_all out m) k = Some v \<Longrightarrow>
     (k, v) \<in> set m \<or> rec_get out k = Some v \<and> (k \<notin> fst ` set m \<or> k = ''__proto__'')"
  unfolding assign_all_def
proof (induction m arbitrary: out)
  case (Cons e m)
  obtain k' v' where e: "e = (k', v')" by fastforce
  show ?case using Cons.IH [of "if k' = ''__proto__'' then out else rec_set out k' v'"] Cons.prems e
    by (auto split: if_splits)
qed simp

definition layer_names :: "var_context \<Rightarrow> string set" where
  "layer_names c = set (rec_keys (vc_extracted c)) \<union> set (rec_keys (vc_manual c)) \<union> set (rec_keys (vc_environment c))"

text \<open>Names that can be told apart: no plain variable looks like a step-scoped one, the ids of steps have
no dot and no leading quote, and a label that is not ambiguous leads back to its step.\<close>

definition names_ok :: "var_context \<Rightarrow> bool" where
  "names_ok c =
     ((\<forall>k\<in>layer_names c. parseNodeScopedInner k = None) \<and>
      (\<forall>(i, m)\<in>set (vc_byNode c). i \<noteq> [] \<and> hd i \<noteq> CHR 0x22 \<and> CHR ''.'' \<notin> set i \<and> (\<forall>name\<in>set (rec_keys m). rest_of_line name)) \<and>
      (\<forall>i l. rec_get (vc_nodeIdToLabel c) i = Some l \<longrightarrow> l \<notin> set (vc_ambiguousLabels c) \<longrightarrow>
         rec_get (vc_labelToNodeId c) l = Some i))"

lemma parse_id_key:
  assumes "i \<noteq> []" "hd i \<noteq> CHR 0x22" "CHR ''.'' \<notin> set i" "rest_of_line name"
  shows "parseNodeScopedInner (''node:'' @ i @ ''.'' @ name) = Some (Scoped_Id i name)"
proof -
  have "takeWhile (\<lambda>c. c \<noteq> CHR ''.'') (i @ CHR ''.'' # x) = i" for x
    using assms(3) by (induction i) auto
  moreover obtain c i' where "i = c # i'" "c \<noteq> CHR 0x22" using assms(1,2) by (cases i) auto
  ultimately show ?thesis using assms(4)
    by (simp add: parseNodeScopedInner_def parse_quoted_def parse_plain_node_def js_starts_with_def)
qed

lemma node_layer_readable:
  assumes "context_wf c" "names_ok c" "(k, v) \<in> set (node_layer c)"
  shows "get_var c k = Some v"
proof -
  from assms(3) obtain i m name where m: "(i, m) \<in> set (vc_byNode c)" "(name, v) \<in> set m"
    and k: "k = snapshotKeyForNodeVar c i name"
    by (auto simp: node_layer_def visible_layer_def)
  have ok: "i \<noteq> []" "hd i \<noteq> CHR 0x22" "CHR ''.'' \<notin> set i" "rest_of_line name"
    using assms(2) m by (force simp: names_ok_def rec_keys_def)+
  have val: "getFromNode c i name = Some v"
  proof -
    have "rec_wf (vc_byNode c)" "rec_wf m" using assms(1) m(1) by (auto simp: context_wf_def list_all_iff)
    with m have "rec_get (vc_byNode c) i = Some m" "rec_get m name = Some v" by (simp_all add: rec_wf_get_iff)
    then show ?thesis by (simp add: getFromNode_def)
  qed
  show ?thesis
  proof (cases "\<exists>l. rec_get (vc_nodeIdToLabel c) i = Some l \<and> l \<noteq> [] \<and> l \<notin> set (vc_ambiguousLabels c) \<and>
      CHR 0x22 \<notin> set l \<and> CHR 0x0A \<notin> set l")
    case True
    then obtain l where l: "rec_get (vc_nodeIdToLabel c) i = Some l" "l \<notin> set (vc_ambiguousLabels c)" "CHR 0x22 \<notin> set l"
      and key: "k = ''node:\"'' @ l @ [CHR 0x22, CHR ''.''] @ name"
      unfolding k snapshotKeyForNodeVar_def by auto
    have "rec_get (vc_labelToNodeId c) l = Some i" using assms(2) l by (auto simp: names_ok_def)
    with l ok(1) val show ?thesis
      unfolding get_var_def key parse_label_key [OF l(3) ok(4)] by (simp add: resolveParsedScoped_def)
  next
    case False
    then have key: "k = ''node:'' @ i @ ''.'' @ name"
      unfolding k snapshotKeyForNodeVar_def by (auto split: option.split)
    show ?thesis unfolding get_var_def key parse_id_key [OF ok] using val by (simp add: resolveParsedScoped_def)
  qed
qed

text \<open>Every entry of a snapshot can be read back under its key: a plain variable with the value of the
layer that wins, a step's variable through the label or the id in its key.\<close>

theorem snapshot_readable:
  assumes "context_wf c" and "names_ok c" and s: "rec_get (snapshot c) k = Some v"
  shows "get_var c k = Some v"
proof -
  have wf: "rec_wf (vc_extracted c)" "rec_wf (vc_manual c)" "rec_wf (vc_environment c)"
    using assms(1) by (simp_all add: context_wf_def)
  have layered: "get_var c k = get_layered c k" if "k \<in> layer_names c"
    using that assms(2) by (auto simp: get_var_def names_ok_def)
  have absent: "rec_get m k = None" if "k \<notin> fst ` set (visible_layer m)" "k \<notin> set internalVars" for m
    using that by (force simp: visible_layer_def rec_get_def map_of_eq_None_iff)
  have member: "rec_get m k = Some v \<and> k \<in> set (rec_keys m) \<and> k \<notin> set internalVars"
    if "(k, v) \<in> set (visible_layer m)" "rec_wf m" for m
    using that by (force simp: visible_layer_def rec_wf_get_iff rec_keys_def)
  define a where "a = assign_all [] (visible_layer (vc_environment c))"
  define b where "b = assign_all a (visible_layer (vc_manual c))"
  define d where "d = assign_all b (visible_layer (vc_extracted c))"
  note layers = assign_all_from [of a "visible_layer (vc_manual c)" k v, folded b_def]
    assign_all_from [of b "visible_layer (vc_extracted c)" k v, folded d_def]
    assign_all_from [of "[]" "visible_layer (vc_environment c)" k v, folded a_def]
  have proto: "rec_get (assign_all out m) ''__proto__'' = rec_get out ''__proto__''" for out m
    unfolding assign_all_def by (induction m arbitrary: out) auto
  have "k \<noteq> ''__proto__''" using s by (auto simp: snapshot_def proto)
  then consider "(k, v) \<in> set (node_layer c)" | "(k, v) \<in> set (visible_layer (vc_extracted c))"
    | "(k, v) \<in> set (visible_layer (vc_manual c))" "k \<notin> fst ` set (visible_layer (vc_extracted c))"
    | "(k, v) \<in> set (visible_layer (vc_environment c))" "k \<notin> fst ` set (visible_layer (vc_extracted c))"
      "k \<notin> fst ` set (visible_layer (vc_manual c))"
    using assign_all_from [of d "node_layer c" k v] s layers by (auto simp: snapshot_def d_def b_def a_def)
  then show ?thesis
  proof cases
    case 1
    then show ?thesis by (rule node_layer_readable [OF assms(1,2)])
  next
    case 2
    with member [OF _ wf(1)] have "rec_get (vc_extracted c) k = Some v" "k \<in> layer_names c"
      by (auto simp: layer_names_def)
    with layered show ?thesis by (simp add: get_layered_def)
  next
    case 3
    with member [OF 3(1) wf(2)] have "rec_get (vc_manual c) k = Some v" "k \<in> layer_names c" "k \<notin> set internalVars"
      by (auto simp: layer_names_def)
    with layered absent [OF 3(2)] show ?thesis by (simp add: get_layered_def)
  next
    case 4
    with member [OF 4(1) wf(3)] have "rec_get (vc_environment c) k = Some v" "k \<in> layer_names c" "k \<notin> set internalVars"
      by (auto simp: layer_names_def)
    with layered absent [OF 4(2)] absent [OF 4(3)] show ?thesis by (simp add: get_layered_def)
  qed
qed

section \<open>Witnesses\<close>

definition plain_env :: expression_env where
  "plain_env = \<lparr>xe_uuid = \<lambda>_. [], xe_now = ''0'', xe_iso = [], xe_unit = \<lambda>_ _. 0, xe_base36 = \<lambda>_. [],
     xe_number = \<lambda>_. None, xe_parse_float = \<lambda>_. None, xe_functions = \<lambda>_. None,
     xe_evaluate = \<lambda>_ _. Ex_Null, xe_host = sample_host\<rparr>"

definition sample_context :: var_context where
  "sample_context = setForNode ''n1'' ''status'' ''200''
     (set_var ''token'' ''t-1'' (registerWorkflowNodes [(''n1'', ''Login''), (''n2'', ''Fetch''), (''n3'', ''Fetch'')]
       (new_context [(''user'', ''ann'')] [(''baseUrl'', ''http://h'')])))"

lemma sample_context_fields:
  "sample_context = \<lparr>vc_extracted = [(''token'', ''t-1'')], vc_manual = [(''user'', ''ann'')],
     vc_environment = [(''baseUrl'', ''http://h'')], vc_byNode = [(''n1'', [(''status'', ''200'')])],
     vc_labelToNodeId = [(''Login'', ''n1'')], vc_ambiguousLabels = [''Fetch''],
     vc_nodeIdToLabel = [(''n1'', ''Login''), (''n2'', ''Fetch''), (''n3'', ''Fetch'')]\<rparr>"
  by (simp add: sample_context_def new_context_def registerWorkflowNodes_def ids_by_label_def register_label_def
      set_var_def setForNode_def rec_get_or_def)

lemma sample_names: "parseNodeScopedInner ''token'' = None" "parseNodeScopedInner ''user'' = None"
  "parseNodeScopedInner ''baseUrl'' = None"
  by (simp_all add: parseNodeScopedInner_def parse_quoted_def parse_plain_node_def js_starts_with_def)

lemma sample_context_ok: "context_wf sample_context" "names_ok sample_context"
  by (simp_all add: sample_context_fields context_wf_def names_ok_def layer_names_def rec_wf_def rec_keys_def
      sample_names rest_of_line_def js_newline_def)

theorem resolve_substitutes_witness:
  "resolve plain_env sample_context ''{{baseUrl}}/u?q={\"u\":{ {{ user }} },x:{{missing}}}'' =
     ''http://h/u?q={\"u\":{ ann },x:{{missing}}}''"
proof -
  have trims: "js_trim ''baseUrl'' = ''baseUrl''" "js_trim '' user '' = ''user''" "js_trim ''missing'' = ''missing''"
    by (simp_all add: js_trim_def js_is_space_def)
  let ?ps = "[Hole ''baseUrl'', Plain ''/u?q={\"u\":{ '', Hole '' user '', Plain '' },x:'', Hole ''missing'', Plain ''}'']"
  have ok: "pieces_ok ?ps" by (simp add: braces_def)
  have "parseNodeScopedInner ''missing'' = None"
    by (simp add: parseNodeScopedInner_def parse_quoted_def parse_plain_node_def js_starts_with_def)
  then have "filled plain_env sample_context 0 ?ps = ''http://h/u?q={\"u\":{ ann },x:{{missing}}}''"
    by (simp add: hole_value_def braces_def trims js_starts_with_def get_var_def sample_names get_layered_def sample_context_fields)
  with resolve_substitutes [THEN conjunct2, THEN spec, THEN mp, OF ok] show ?thesis by (simp add: braces_def)
qed

theorem child_sees_parent_witness:
  "get_var (child_context sample_context) ''token'' = Some ''t-1''"
  using child_sees_parent [OF sample_context_ok(1), of "''token''" "''x''" "''y''"]
  by (simp add: get_var_def sample_names get_layered_def sample_context_fields)

theorem labels_resolve_when_unique_witness:
  "get_var (registerWorkflowNodes [(''n2'', ''Fetch''), (''n3'', ''Fetch'')] sample_context)
     (''node:\"'' @ ''Fetch'' @ [CHR 0x22, CHR ''.''] @ ''status'') = None"
  by (subst labels_resolve_when_unique) (simp_all add: rest_of_line_def js_newline_def)

theorem snapshot_readable_witness:
  "get_var sample_context (''node:\"'' @ ''Login'' @ [CHR 0x22, CHR ''.''] @ ''status'') = Some ''200''"
proof (rule snapshot_readable [OF sample_context_ok])
  show "rec_get (snapshot sample_context) (''node:\"'' @ ''Login'' @ [CHR 0x22, CHR ''.''] @ ''status'') = Some ''200''"
    by (simp add: snapshot_def assign_all_def visible_layer_def internalVars_def node_layer_def snapshotKeyForNodeVar_def
        sample_context_fields)
qed

end
