(* ===== verification/Workflow_Run.thy ===== *)
theory Workflow_Run
  imports Workflow_Graph Interfaces
begin

text \<open>
  The runner of workflow graphs (\<open>src/features/workflow/engine/graphRunner.ts\<close> and the handlers of
  \<open>graphRunnerControlFlowHandlers.ts\<close>, \<open>graphRunnerLoopHandlers.ts\<close>, \<open>graphRunnerErrorHandler.ts\<close>,
  \<open>graphRunnerLogWaitHandlers.ts\<close>, \<open>graphRunnerTriggerHandlers.ts\<close> and
  \<open>graphRunnerVariableScriptHandlers.ts\<close>).

  The runner is recursive and asynchronous: \<open>visit\<close> awaits the handler of a node, which awaits the visits
  of its successors, and \<open>Promise.all\<close> runs several visits at once over the shared state. A task is the
  stack of the continuations of such a chain of awaits; a step of the run advances one task by what the
  code does between two awaits or less, so every interleaving of the code is a sequence of steps. What an
  activity reports is an argument of the step that completes it. The debugger, the log lines, the throttling
  of polls and the details of the trace are left out.
\<close>

section \<open>Steps\<close>

text \<open>What a step reads from outside: the host functions, whether the time limit of a retry or poll has
passed, the elapsed time.\<close>

record tick =
  tk_env :: expression_env
  tk_late :: bool
  tk_elapsed :: string

text \<open>What an activity reports: results, variables and variables of the step. It goes on to its outgoing edges
and has passed or failed (an HTTP step, a script, a sub-workflow, or a failed mock or gRPC node that is told to
continue); or it has failed and stops there (a failed Kafka, WebSocket or GraphQL node, a wait that timed out, a
mock or gRPC node that is not told to continue); or it throws after it had reported so much.\<close>

datatype outcome =
    Done "wf_result list" "(string \<times> string) list" "(string \<times> string) list" bool
  | Halted "wf_result list" "(string \<times> string) list" "(string \<times> string) list"
  | Threw "wf_result list" "(string \<times> string) list" "(string \<times> string) list"

text \<open>An activity that waits for a webhook, a Kafka message or a synthetic delay is cut off by an abort.\<close>

datatype graph_event =
    Advance nat tick
  | Complete nat outcome
  | Cut_off nat "(string \<times> string) list"
  | Abort

record error_config =
  ec_handlerEntryNodeId :: string
  ec_errorVariable :: string

definition set_ctx :: "(var_context \<Rightarrow> var_context) \<Rightarrow> graph_run \<Rightarrow> graph_run" where
  "set_ctx f s = s\<lparr>gr_ctx := f (gr_ctx s)\<rparr>"

definition set_vars :: "(string \<times> string) list \<Rightarrow> var_context \<Rightarrow> var_context" where
  "set_vars vs c = foldl (\<lambda>c (k, v). set_var k v c) c vs"

section \<open>Control-flow nodes\<close>

text \<open>The edges a condition takes and those it skips.\<close>

definition branch_edges :: "bool \<Rightarrow> wf_edge list \<Rightarrow> wf_edge list" where
  "branch_edges b es =
     filter (\<lambda>e. we_sourceHandle e = Some (if b then ''true'' else ''false'') \<or>
       we_label e = Some (if b then ''Yes'' else ''No'')) es"

definition switch_handle :: "string \<Rightarrow> switch_case list \<Rightarrow> string" where
  "switch_handle v cases =
     (case find (\<lambda>c. sc_value c = v) cases of None \<Rightarrow> ''default'' | Some c \<Rightarrow> ''case-'' @ sc_id c)"

definition condition_frames :: "wf_edge list \<Rightarrow> frame list" where
  "condition_frames matched = [if 1 < length matched then F_par (targets matched) else F_targets (targets matched)]"

definition handleConditionNode ::
  "wf_graph \<Rightarrow> tick \<Rightarrow> string \<Rightarrow> string \<Rightarrow> string \<Rightarrow> string \<Rightarrow> graph_run \<Rightarrow> frame list \<times> graph_run" where
  "handleConditionNode g tk n left operator right s =
     (let b = evaluateCondition (tk_env tk) (gr_ctx s) left operator right;
          matched = branch_edges b (outgoing g n); skipped = branch_edges (\<not> b) (outgoing g n)
      in (condition_frames matched,
          foldl (\<lambda>s e. on_edge e s) (markSubtreesSkipped g skipped (state_change n NS_pass s)) matched))"

definition handleSwitchNode ::
  "wf_graph \<Rightarrow> tick \<Rightarrow> string \<Rightarrow> string \<Rightarrow> switch_case list \<Rightarrow> graph_run \<Rightarrow> frame list \<times> graph_run" where
  "handleSwitchNode g tk n expression cases s =
     (let h = switch_handle (resolve (tk_env tk) (gr_ctx s) expression) cases;
          taken = by_handle h (outgoing g n);
          skipped = filter (\<lambda>e. we_sourceHandle e \<noteq> Some h) (outgoing g n)
      in ([F_edges taken], markSubtreesSkipped g skipped (state_change n NS_pass s)))"

definition handleForkNode :: "wf_graph \<Rightarrow> string \<Rightarrow> graph_run \<Rightarrow> frame list \<times> graph_run" where
  "handleForkNode g n s =
     ([F_par (targets (outgoing g n))], foldl (\<lambda>s e. on_edge e s) (state_change n NS_pass s) (outgoing g n))"

definition handleJoinNode :: "wf_graph \<Rightarrow> string \<Rightarrow> graph_run \<Rightarrow> frame list \<times> graph_run" where
  "handleJoinNode g n s = ([F_edges (outgoing g n)], state_change n NS_pass s)"

definition handleStartNode :: "wf_graph \<Rightarrow> string \<Rightarrow> string record_bag \<Rightarrow> graph_run \<Rightarrow> frame list \<times> graph_run" where
  "handleStartNode g n inputs s = ([F_edges (outgoing g n)], state_change n NS_pass (set_ctx (set_vars inputs) s))"

fun assign_vars :: "expression_env \<Rightarrow> (string \<times> string) list \<Rightarrow> var_context \<Rightarrow> var_context" where
  "assign_vars env [] c = c"
| "assign_vars env ((name, expression) # r) c =
     assign_vars env r (if name = [] then c else set_var name (resolve env c expression) c)"

definition handleSetVariableNode ::
  "wf_graph \<Rightarrow> tick \<Rightarrow> string \<Rightarrow> (string \<times> string) list \<Rightarrow> graph_run \<Rightarrow> frame list \<times> graph_run" where
  "handleSetVariableNode g tk n assignments s =
     ([F_edges (outgoing g n)], state_change n NS_pass (set_ctx (assign_vars (tk_env tk) assignments) s))"

section \<open>Bodies\<close>

definition body_edges :: "wf_graph \<Rightarrow> string \<Rightarrow> wf_edge list" where
  "body_edges g n = by_handle ''body'' (outgoing g n)"

definition done_edges :: "wf_graph \<Rightarrow> string \<Rightarrow> wf_edge list" where
  "done_edges g n = by_handle ''done'' (outgoing g n)"

definition catch_edges :: "wf_graph \<Rightarrow> string \<Rightarrow> wf_edge list" where
  "catch_edges g n = by_handle ''catch'' (outgoing g n)"

definition body_ids :: "wf_graph \<Rightarrow> string \<Rightarrow> wf_edge list \<Rightarrow> string list" where
  "body_ids g n boundary = collectReachableFromEdges g (body_edges g n) (targets boundary)"

text \<open>Forget that the nodes of a body were visited.\<close>

definition reset_body :: "string list \<Rightarrow> graph_run \<Rightarrow> graph_run" where
  "reset_body ids s =
     s\<lparr>gr_visited := filter (\<lambda>n. n \<notin> set ids) (gr_visited s),
       gr_arrived := filter (\<lambda>(n, _). n \<notin> set ids) (gr_arrived s)\<rparr>"

section \<open>Loops\<close>

definition parse_array :: "js_host \<Rightarrow> string \<Rightarrow> json list" where
  "parse_array h v = (case json_parse h v of Some (JArr vs) \<Rightarrow> vs | _ \<Rightarrow> [])"

definition loop_items :: "expression_env \<Rightarrow> var_context \<Rightarrow> loop_data \<Rightarrow> json list" where
  "loop_items env c d =
     (if lo_mode d = Loop_ForEach
      then (if lo_rows d \<noteq> [] then lo_rows d else parse_array (xe_host env) (resolve env c (lo_sourceExpression d)))
      else [])"

definition index_var :: "loop_data \<Rightarrow> string" where
  "index_var d = (if lo_indexVariable d = [] then ''i'' else lo_indexVariable d)"

definition item_var :: "loop_data \<Rightarrow> string" where
  "item_var d = (if lo_itemVariable d = [] then ''item'' else lo_itemVariable d)"

text \<open>\<open>parseInt\<close> of the count expression, 1 where it is not a number; else the count, 1 by default.\<close>

definition loop_total :: "expression_env \<Rightarrow> var_context \<Rightarrow> loop_data \<Rightarrow> int" where
  "loop_total env c d =
     (let e = (if lo_countExpression d = [] then [] else resolve env c (lo_countExpression d))
      in if e \<noteq> [] then (case js_parse_int e of None \<Rightarrow> 1 | Some k \<Rightarrow> k)
         else case lo_count d of None \<Rightarrow> 1 | Some k \<Rightarrow> k)"

definition shouldContinue :: "tick \<Rightarrow> loop_data \<Rightarrow> json list \<Rightarrow> nat \<Rightarrow> graph_run \<Rightarrow> bool" where
  "shouldContinue tk d items it s =
     (if gr_aborted s then False
      else if (case lo_maxIterations d of None \<Rightarrow> 100 | Some k \<Rightarrow> k) \<le> it then False
      else case lo_mode d of
        Loop_Count \<Rightarrow> int it < loop_total (tk_env tk) (gr_ctx s) d
      | Loop_ForEach \<Rightarrow> it < length items
      | Loop_While \<Rightarrow> (case lo_while d of (l, op, r) \<Rightarrow> evaluateCondition (tk_env tk) (gr_ctx s) l op r))"

definition item_text :: "expression_env \<Rightarrow> json \<Rightarrow> string" where
  "item_text env v = (case v of JStr t \<Rightarrow> t | _ \<Rightarrow> json_stringify (xe_host env) v)"

definition handleLoopNode :: "tick \<Rightarrow> string \<Rightarrow> loop_data \<Rightarrow> graph_run \<Rightarrow> frame list \<times> graph_run" where
  "handleLoopNode tk n d s =
     ([F_loop n d (loop_items (tk_env tk) (gr_ctx s) d) 0],
      set_ctx (set_var (index_var d) ''0'') (state_change n NS_running s))"

definition loop_test :: "wf_graph \<Rightarrow> tick \<Rightarrow> string \<Rightarrow> loop_data \<Rightarrow> json list \<Rightarrow> nat \<Rightarrow> graph_run \<Rightarrow> frame list \<times> graph_run" where
  "loop_test g tk n d items it s =
     (if shouldContinue tk d items it s
      then ([F_edges (body_edges g n), F_loop_next n d items it],
            reset_body (body_ids g n (done_edges g n))
              (set_ctx (set_vars ((index_var d, js_nat it) #
                 (if lo_mode d = Loop_ForEach \<and> it < length items
                  then [(item_var d, item_text (tk_env tk) (items ! it))] else []))) s))
      else ([F_edges (done_edges g n)], state_change n NS_pass s))"

definition loop_next :: "string \<Rightarrow> loop_data \<Rightarrow> json list \<Rightarrow> nat \<Rightarrow> graph_run \<Rightarrow> frame list \<times> graph_run" where
  "loop_next n d items it s = ([F_loop n d items (Suc it)], set_ctx (set_var (index_var d) (js_nat (Suc it))) s)"

section \<open>Error handlers\<close>

definition handler_ids :: "wf_graph \<Rightarrow> string \<Rightarrow> string list" where
  "handler_ids g n = body_ids g n (catch_edges g n @ done_edges g n)"

definition error_vars :: "wf_result \<Rightarrow> nat \<Rightarrow> (string \<times> string) list" where
  "error_vars r attempt =
     [(''error.message'', if re_errorMessage r \<noteq> [] then re_errorMessage r else re_summary r),
      (''error.statusCode'', js_int (re_httpStatus r)),
      (''error.nodeId'', re_scenarioId r),
      (''error.nodeLabel'', re_scenarioName r),
      (''error.retryCount'', js_nat (attempt - 1)),
      (''error.type'', classifyErrorType r),
      (''httpStatus'', js_int (re_httpStatus r))]"

text \<open>The three ends of the retry loop: the frames to go on with, whether the node still passes, the state.\<close>

definition handler_succeeded :: "wf_graph \<Rightarrow> string \<Rightarrow> graph_run \<Rightarrow> frame list \<times> bool \<times> graph_run" where
  "handler_succeeded g n s =
     ([F_edges (done_edges g n)], True, markSubtreesSkipped g (catch_edges g n) (state_change n NS_pass s))"

definition handler_failed ::
  "wf_graph \<Rightarrow> string \<Rightarrow> handler_data \<Rightarrow> nat \<Rightarrow> wf_result option \<Rightarrow> graph_run \<Rightarrow> frame list \<times> bool \<times> graph_run" where
  "handler_failed g n d attempt lastError s =
     (let s1 = set_ctx (set_vars (case lastError of None \<Rightarrow> [] | Some r \<Rightarrow> error_vars r attempt)) s
      in ([F_edges (catch_edges g n), F_edges (done_edges g n)], eh_continueOnError d,
          state_change n (if eh_continueOnError d then NS_pass else NS_fail) s1))"

definition handler_try ::
  "wf_graph \<Rightarrow> tick \<Rightarrow> string \<Rightarrow> handler_data \<Rightarrow> nat \<Rightarrow> wf_result option \<Rightarrow> graph_run \<Rightarrow> frame list \<times> bool \<times> graph_run" where
  "handler_try g tk n d attempt lastError s =
     (if gr_aborted s \<or> (0 < eh_retryTimeoutMs d \<and> 0 < attempt \<and> tk_late tk)
      then handler_failed g n d attempt lastError s
      else ([F_edges (body_edges g n), F_tried n d attempt (length (gr_results s))], True,
            if 0 < attempt then reset_body (handler_ids g n) s else s))"

definition handler_tried ::
  "wf_graph \<Rightarrow> string \<Rightarrow> handler_data \<Rightarrow> nat \<Rightarrow> nat \<Rightarrow> graph_run \<Rightarrow> frame list \<times> bool \<times> graph_run" where
  "handler_tried g n d attempt preResultCount s =
     (case find (\<lambda>r. \<not> re_passed r) (drop preResultCount (gr_results s)) of
        None \<Rightarrow> handler_succeeded g n s
      | Some r \<Rightarrow>
          (if \<not> matchesErrorFilter (classifyErrorType r) (eh_errorFilter d)
           then handler_failed g n d attempt (Some r) s
           else if Suc attempt \<le> eh_retryCount d then ([F_retry_wait n d (Suc attempt) r], True, s)
           else handler_failed g n d (Suc attempt) (Some r) s))"

section \<open>Waiting for a condition\<close>

definition wait_concluded ::
  "wf_graph \<Rightarrow> tick \<Rightarrow> string \<Rightarrow> bool \<Rightarrow> nat \<Rightarrow> graph_run \<Rightarrow> frame list \<times> bool \<times> graph_run" where
  "wait_concluded g tk n met attempt s =
     ([F_edges (done_edges g n)], met,
      state_change n (if met then NS_pass else NS_fail)
        (set_ctx (set_vars [(''wait.attempts'', js_nat attempt), (''wait.elapsed'', tk_elapsed tk),
           (''wait.conditionMet'', if met then ''true'' else ''false'')]) s))"

definition wait_poll :: "wf_graph \<Rightarrow> tick \<Rightarrow> string \<Rightarrow> wait_data \<Rightarrow> nat \<Rightarrow> graph_run \<Rightarrow> frame list \<times> bool \<times> graph_run" where
  "wait_poll g tk n d attempt s =
     (if gr_aborted s \<or> (0 < wc_timeoutMs d \<and> tk_late tk) \<or> (0 < wc_maxAttempts d \<and> wc_maxAttempts d \<le> attempt)
      then wait_concluded g tk n False attempt s
      else ([F_edges (body_edges g n), F_polled n d attempt], True,
            if 0 < attempt then reset_body (body_ids g n (done_edges g n)) s else s))"

definition wait_polled :: "wf_graph \<Rightarrow> tick \<Rightarrow> string \<Rightarrow> wait_data \<Rightarrow> nat \<Rightarrow> graph_run \<Rightarrow> frame list \<times> bool \<times> graph_run" where
  "wait_polled g tk n d attempt s =
     (if evaluateWaitCondition (tk_env tk) (gr_ctx s) (wc_condition d)
      then wait_concluded g tk n True (Suc attempt) s
      else ([F_poll_wait n d (Suc attempt)], True, s))"

section \<open>Visits\<close>

definition start_handler :: "wf_graph \<Rightarrow> tick \<Rightarrow> wf_node \<Rightarrow> graph_run \<Rightarrow> frame list \<times> graph_run" where
  "start_handler g tk nd s =
     (let n = wn_id nd in
      case wn_data nd of
        ND_activity http \<Rightarrow> ([F_activity n], s)
      | ND_start inputs \<Rightarrow> handleStartNode g n inputs s
      | ND_condition left operator right \<Rightarrow> handleConditionNode g tk n left operator right s
      | ND_delay \<Rightarrow> ([F_delay n], s)
      | ND_fork \<Rightarrow> handleForkNode g n s
      | ND_join \<Rightarrow> handleJoinNode g n s
      | ND_switch expression cases \<Rightarrow> handleSwitchNode g tk n expression cases s
      | ND_setVariable assignments \<Rightarrow> handleSetVariableNode g tk n assignments s
      | ND_loop d \<Rightarrow> handleLoopNode tk n d s
      | ND_errorHandler d \<Rightarrow> ([F_try n d 0 None], state_change n NS_running s)
      | ND_wait d \<Rightarrow> ([F_poll n d 0], state_change n NS_running s)
      | ND_end \<Rightarrow> ([], state_change n NS_pass s)
      | ND_other \<Rightarrow> ([], s))"

text \<open>The arrival at a join: whether it is the last one that is expected.\<close>

definition arrive :: "wf_graph \<Rightarrow> string \<Rightarrow> graph_run \<Rightarrow> bool \<times> graph_run" where
  "arrive g n s =
     (if is_join g n then
        (let a = Suc (arrived_of s n); s1 = s\<lparr>gr_arrived := rec_set (gr_arrived s) n a\<rparr>
         in if a < expected_of s n then (False, state_change n NS_running s1) else (True, s1))
      else (True, s))"

definition begin_node :: "string \<Rightarrow> graph_run \<Rightarrow> graph_run" where
  "begin_node n s = (state_change n NS_running (add_visited n s))\<lparr>gr_started := gr_started s @ [n]\<rparr>"

text \<open>\<open>visit\<close>: the frames of the handler, with the node's end below them.\<close>

definition visit :: "wf_graph \<Rightarrow> tick \<Rightarrow> string \<Rightarrow> graph_run \<Rightarrow> frame list \<times> graph_run" where
  "visit g tk n s =
     (if gr_aborted s then ([], s)
      else case nodeMap g n of
        None \<Rightarrow> ([], s)
      | Some nd \<Rightarrow>
          (case arrive g n s of (ready, s1) \<Rightarrow>
             if \<not> ready \<or> n \<in> set (gr_visited s1) then ([], s1)
             else (case start_handler g tk nd (begin_node n s1) of (fs, s2) \<Rightarrow>
               (fs @ [F_finish n (gr_allPassed s1)], s2))))"

fun visit_all :: "wf_graph \<Rightarrow> tick \<Rightarrow> string list \<Rightarrow> graph_run \<Rightarrow> frame list list \<times> graph_run" where
  "visit_all g tk [] s = ([], s)"
| "visit_all g tk (n # ns) s =
     (case visit g tk n s of (fs, s1) \<Rightarrow> (case visit_all g tk ns s1 of (fss, s2) \<Rightarrow> (fs # fss, s2)))"

section \<open>The end of a run\<close>

definition config_vars :: "error_config \<Rightarrow> wf_result list \<Rightarrow> (string \<times> string) list" where
  "config_vars cfg results =
     (case filter (\<lambda>r. \<not> re_passed r) results of
        [] \<Rightarrow> []
      | r # rs \<Rightarrow>
          [(if ec_errorVariable cfg = [] then ''error.message'' else ec_errorVariable cfg,
            if re_errorMessage r \<noteq> [] then re_errorMessage r else re_summary r),
           (''error.statusCode'', js_int (re_httpStatus r)),
           (''error.failedCount'', js_nat (length (r # rs)))])"

definition run_error_config ::
  "wf_graph \<Rightarrow> error_config option \<Rightarrow> tick \<Rightarrow> graph_run \<Rightarrow> frame list \<times> graph_run" where
  "run_error_config g config tk s =
     (case config of
        None \<Rightarrow> ([], s)
      | Some cfg \<Rightarrow>
          (let h = ec_handlerEntryNodeId cfg in
           if \<not> gr_allPassed s \<and> h \<noteq> [] \<and> nodeMap g h \<noteq> None \<and> h \<notin> set (gr_visited s)
           then visit g tk h (set_ctx (set_vars (config_vars cfg (gr_results s))) s)
           else ([], s)))"

definition end_nodes :: "wf_graph \<Rightarrow> string list" where
  "end_nodes g = map wn_id (filter (\<lambda>n. wn_data n = ND_end) (wg_nodes g))"

definition close_run :: "wf_graph \<Rightarrow> graph_run \<Rightarrow> graph_run" where
  "close_run g s =
     (foldl (\<lambda>s n. if n \<in> set (gr_visited s) then s
                   else state_change n (if gr_allPassed s then NS_pass else NS_fail) s) s (end_nodes g))
       \<lparr>gr_verdict := Some (gr_allPassed s)\<rparr>"

definition finish_node :: "string \<Rightarrow> bool \<Rightarrow> graph_run \<Rightarrow> graph_run" where
  "finish_node n passed s =
     s\<lparr>gr_allPassed := (gr_allPassed s \<and> passed), gr_completed := gr_completed s @ [(n, passed)]\<rparr>"

section \<open>The machine\<close>

text \<open>A handler that decides whether its node passes: the flag is kept in the frame that ends the node.\<close>

fun lower_flag :: "bool \<Rightarrow> frame list \<Rightarrow> frame list" where
  "lower_flag ok (F_finish n passed # rest) = F_finish n (passed \<and> ok) # rest"
| "lower_flag ok fs = fs"

text \<open>The effect of a step on its task: the frames that replace the innermost one, the frames below, the
tasks that are started, the state.\<close>

type_synonym effect = "frame list \<times> frame list \<times> frame list list \<times> graph_run"

definition resume_with :: "frame list \<Rightarrow> frame list \<Rightarrow> frame list \<times> graph_run \<Rightarrow> effect" where
  "resume_with next_frames rest r = (case r of (fs, s) \<Rightarrow> (fs @ next_frames, rest, [], s))"

definition resume_handler :: "frame list \<Rightarrow> frame list \<times> bool \<times> graph_run \<Rightarrow> effect" where
  "resume_handler rest r = (case r of (fs, ok, s) \<Rightarrow> (fs, lower_flag ok rest, [], s))"

definition start_tasks :: "frame list \<Rightarrow> frame list list \<times> graph_run \<Rightarrow> effect" where
  "start_tasks rest r =
     (case r of (fss, s) \<Rightarrow>
        ([F_all [length (gr_tasks s)..<length (gr_tasks s) + length fss]], rest, fss, s))"

text \<open>One step of the innermost continuation of a task; \<open>None\<close> where it has nothing to do yet.\<close>

fun advance_frame ::
  "wf_graph \<Rightarrow> error_config option \<Rightarrow> tick \<Rightarrow> frame \<Rightarrow> frame list \<Rightarrow> graph_run \<Rightarrow> effect option" where
  "advance_frame g config tk (F_starts []) rest s = Some ([], rest, [], s)"
| "advance_frame g config tk (F_starts (n # ns)) rest s =
     Some (if gr_aborted s then ([], rest, [], s) else resume_with [F_starts ns] rest (visit g tk n s))"
| "advance_frame g config tk F_error_config rest s = Some (resume_with [] rest (run_error_config g config tk s))"
| "advance_frame g config tk F_verdict rest s = Some ([], rest, [], close_run g s)"
| "advance_frame g config tk (F_edges []) rest s = Some ([], rest, [], s)"
| "advance_frame g config tk (F_edges (e # es)) rest s =
     Some (resume_with [F_edges es] rest (visit g tk (we_target e) (on_edge e s)))"
| "advance_frame g config tk (F_targets []) rest s = Some ([], rest, [], s)"
| "advance_frame g config tk (F_targets (n # ns)) rest s =
     Some (resume_with [F_targets ns] rest (visit g tk n s))"
| "advance_frame g config tk (F_par ns) rest s = Some (start_tasks rest (visit_all g tk ns s))"
| "advance_frame g config tk (F_all ids) rest s =
     (if list_all (\<lambda>k. gr_tasks s ! k = []) ids then Some ([], rest, [], s) else None)"
| "advance_frame g config tk (F_activity n) rest s = None"
| "advance_frame g config tk (F_delay n) rest s =
     Some ([F_edges (outgoing g n)], rest, [], state_change n NS_pass s)"
| "advance_frame g config tk (F_loop n d items it) rest s = Some (resume_with [] rest (loop_test g tk n d items it s))"
| "advance_frame g config tk (F_loop_next n d items it) rest s = Some (resume_with [] rest (loop_next n d items it s))"
| "advance_frame g config tk (F_try n d attempt lastError) rest s =
     Some (resume_handler rest (handler_try g tk n d attempt lastError s))"
| "advance_frame g config tk (F_tried n d attempt pre) rest s =
     Some (resume_handler rest (handler_tried g n d attempt pre s))"
| "advance_frame g config tk (F_retry_wait n d attempt r) rest s = Some ([F_try n d attempt (Some r)], rest, [], s)"
| "advance_frame g config tk (F_poll n d attempt) rest s = Some (resume_handler rest (wait_poll g tk n d attempt s))"
| "advance_frame g config tk (F_polled n d attempt) rest s =
     Some (resume_handler rest (wait_polled g tk n d attempt s))"
| "advance_frame g config tk (F_poll_wait n d attempt) rest s = Some ([F_poll n d attempt], rest, [], s)"
| "advance_frame g config tk (F_finish n passed) rest s = Some ([], rest, [], finish_node n passed s)"

text \<open>An activity reports. One that stops or throws ends its node as failed and visits nothing.\<close>

definition push_results ::
  "string \<Rightarrow> wf_result list \<Rightarrow> (string \<times> string) list \<Rightarrow> (string \<times> string) list \<Rightarrow> graph_run \<Rightarrow> graph_run" where
  "push_results n rs vars nodeVars s =
     set_ctx (\<lambda>c. foldl (\<lambda>c (k, v). setForNode n k v c) (set_vars vars c) nodeVars)
       (s\<lparr>gr_results := gr_results s @ rs\<rparr>)"

definition record_outcome ::
  "string \<Rightarrow> wf_result list \<Rightarrow> (string \<times> string) list \<Rightarrow> (string \<times> string) list \<Rightarrow> bool \<Rightarrow> graph_run \<Rightarrow> graph_run" where
  "record_outcome n rs vars nodeVars ok s =
     state_change n (if ok then NS_pass else NS_fail) (push_results n rs vars nodeVars s)"

text \<open>An HTTP step that throws before it had a status reports status 0.\<close>

definition status_zero :: "string \<Rightarrow> var_context \<Rightarrow> var_context" where
  "status_zero n c =
     (let z = ''0'' in
      setForNode n ''status'' z (setForNode n ''httpStatus'' z (set_vars [(''httpStatus'', z), (''status'', z)] c)))"

definition throw_node :: "wf_graph \<Rightarrow> string \<Rightarrow> graph_run \<Rightarrow> graph_run" where
  "throw_node g n s =
     (let s1 = s\<lparr>gr_allPassed := False, gr_completed := gr_completed s @ [(n, False)]\<rparr>
      in state_change n NS_fail
           (if is_http g n \<and> get_var (gr_ctx s) ''httpStatus'' = None then set_ctx (status_zero n) s1 else s1))"

fun complete_frame :: "wf_graph \<Rightarrow> outcome \<Rightarrow> frame \<Rightarrow> frame list \<Rightarrow> graph_run \<Rightarrow> effect option" where
  "complete_frame g (Done rs vars nodeVars ok) (F_activity n) rest s =
     Some ([F_edges (outgoing g n)], lower_flag ok rest, [], record_outcome n rs vars nodeVars ok s)"
| "complete_frame g (Halted rs vars nodeVars) (F_activity n) rest s =
     Some ([], lower_flag False rest, [], record_outcome n rs vars nodeVars False s)"
| "complete_frame g (Threw rs vars nodeVars) (F_activity n) rest s =
     Some ([], tl rest, [], throw_node g n (push_results n rs vars nodeVars s))"
| "complete_frame g out f rest s = None"

text \<open>An activity that the abort cuts off is shown as failed, but does not lower the flag of the run: its node
ends as if it had passed, and visits nothing.\<close>

definition show_cut :: "string \<Rightarrow> (string \<times> string) list \<Rightarrow> graph_run \<Rightarrow> graph_run" where
  "show_cut n vars s = (state_change n NS_fail (set_ctx (set_vars vars) s))\<lparr>gr_cut := gr_cut s @ [n]\<rparr>"

fun cut_frame :: "(string \<times> string) list \<Rightarrow> frame \<Rightarrow> frame list \<Rightarrow> graph_run \<Rightarrow> effect option" where
  "cut_frame vars (F_activity n) rest s = (if gr_aborted s then Some ([], rest, [], show_cut n vars s) else None)"
| "cut_frame vars f rest s = None"

definition apply_effect :: "nat \<Rightarrow> effect \<Rightarrow> graph_run" where
  "apply_effect i e = (case e of (fs, rest, fss, s) \<Rightarrow> s\<lparr>gr_tasks := (gr_tasks s @ fss)[i := fs @ rest]\<rparr>)"

definition top_step :: "(frame \<Rightarrow> frame list \<Rightarrow> graph_run \<Rightarrow> effect option) \<Rightarrow> nat \<Rightarrow> graph_run \<Rightarrow> graph_run option" where
  "top_step h i s =
     (if i < length (gr_tasks s) then
        (case gr_tasks s ! i of [] \<Rightarrow> None | f # rest \<Rightarrow> map_option (apply_effect i) (h f rest s))
      else None)"

definition graph_step ::
  "wf_graph \<Rightarrow> error_config option \<Rightarrow> graph_event \<Rightarrow> graph_run \<Rightarrow> graph_run option" where
  "graph_step g config ev s =
     (case ev of
        Advance i tk \<Rightarrow> top_step (advance_frame g config tk) i s
      | Complete i out \<Rightarrow> top_step (complete_frame g out) i s
      | Cut_off i vars \<Rightarrow> top_step (cut_frame vars) i s
      | Abort \<Rightarrow> Some (s\<lparr>gr_aborted := True\<rparr>))"

text \<open>An event that finds nothing to do is ignored.\<close>

definition graph_next :: "wf_graph \<Rightarrow> error_config option \<Rightarrow> graph_run \<Rightarrow> graph_event \<Rightarrow> graph_run" where
  "graph_next g config s ev = (case graph_step g config ev s of None \<Rightarrow> s | Some s' \<Rightarrow> s')"

text \<open>\<open>runGraph\<close> up to its first visit. A graph without a start node completes at once.\<close>

definition step_titles :: "wf_graph \<Rightarrow> (string \<times> string) list" where
  "step_titles g = List.map_filter (\<lambda>n. map_option (\<lambda>t. (wn_id n, t)) (wn_title n)) (wg_nodes g)"

definition runGraph :: "wf_graph \<Rightarrow> string record_bag \<Rightarrow> string record_bag \<Rightarrow> graph_run" where
  "runGraph g initial environment =
     \<lparr>gr_visited = [], gr_arrived = [], gr_expected = incomingCount g, gr_allPassed = True,
      gr_ctx = registerWorkflowNodes (step_titles g) (new_context initial environment), gr_results = [],
      gr_aborted = False, gr_states = [], gr_edges = [], gr_started = [], gr_completed = [], gr_cut = [],
      gr_tasks = (if findStartNodes g = [] then [] else [[F_starts (findStartNodes g), F_error_config, F_verdict]]),
      gr_verdict = (if findStartNodes g = [] then Some True else None)\<rparr>"

definition finished :: "graph_run \<Rightarrow> bool" where
  "finished s = (\<forall>fs\<in>set (gr_tasks s). fs = [])"

section \<open>What the parts leave alone\<close>

definition core :: "graph_run \<Rightarrow> frame list list \<times> bool option \<times> bool \<times> (string \<times> bool) list \<times> bool \<times> string list" where
  "core s = (gr_tasks s, gr_verdict s, gr_allPassed s, gr_completed s, gr_aborted s, gr_cut s)"

definition shown_failed :: "graph_run \<Rightarrow> bool" where
  "shown_failed s = (\<exists>n. (n, NS_fail) \<in> set (gr_states s))"

named_theorems run_frame \<open>what the parts of a handler leave alone\<close>

lemma core_updates [run_frame]:
  "core (state_change n st s) = core s" "core (on_edge e s) = core s" "core (add_visited n s) = core s"
  "core (set_ctx f s) = core s" "core (expect_less n s) = core s" "core (reset_body ids s) = core s"
  "core (begin_node n s) = core s"
  by (simp_all add: core_def state_change_def on_edge_def add_visited_def set_ctx_def expect_less_def reset_body_def
      begin_node_def)

lemma shown_updates [run_frame]:
  "shown_failed (state_change n st s) \<longleftrightarrow> st = NS_fail \<or> shown_failed s" "shown_failed (on_edge e s) = shown_failed s"
  "shown_failed (add_visited n s) = shown_failed s" "shown_failed (set_ctx f s) = shown_failed s"
  "shown_failed (expect_less n s) = shown_failed s" "shown_failed (reset_body ids s) = shown_failed s"
  "shown_failed (begin_node n s) = shown_failed s"
  by (auto simp: shown_failed_def state_change_def on_edge_def add_visited_def set_ctx_def expect_less_def
      reset_body_def begin_node_def)

lemma skip_all_frame [run_frame]: "core (skip_all g ns s) = core s" "shown_failed (skip_all g ns s) = shown_failed s"
  by (induction g ns s rule: skip_all.induct) (simp_all add: run_frame)

lemma foldl_keeps: "(\<And>s x. f (h s x) = f s) \<Longrightarrow> f (foldl h s xs) = f s"
  by (induction xs arbitrary: s) simp_all

lemma mark_frame [run_frame]:
  "core (markSubtreesSkipped g es s) = core s" "shown_failed (markSubtreesSkipped g es s) = shown_failed s"
  "core (foldl (\<lambda>s e. on_edge e s) s es) = core s" "shown_failed (foldl (\<lambda>s e. on_edge e s) s es) = shown_failed s"
  by (simp_all add: markSubtreesSkipped_def foldl_keeps run_frame)

text \<open>The frames a handler may leave: not the end of the run, none that waits for tasks.\<close>

fun plain_frame :: "frame \<Rightarrow> bool" where
  "plain_frame F_verdict = False"
| "plain_frame (F_all ids) = False"
| "plain_frame f = True"

fun needs_finish :: "frame \<Rightarrow> bool" where
  "needs_finish (F_activity n) = True"
| "needs_finish (F_try n d a r) = True"
| "needs_finish (F_tried n d a k) = True"
| "needs_finish (F_retry_wait n d a r) = True"
| "needs_finish (F_poll n d a) = True"
| "needs_finish (F_polled n d a) = True"
| "needs_finish (F_poll_wait n d a) = True"
| "needs_finish f = False"

fun stack_ok :: "frame list \<Rightarrow> bool" where
  "stack_ok [] = True"
| "stack_ok (f # fs) = (stack_ok fs \<and> (needs_finish f \<longrightarrow> (\<exists>n p r. fs = F_finish n p # r)))"

fun failing_frame :: "frame \<Rightarrow> bool" where
  "failing_frame (F_finish n passed) = (\<not> passed)"
| "failing_frame f = False"

lemma condition_frames_plain [simp]:
  "list_all plain_frame (condition_frames es)" "stack_ok (condition_frames es @ fs) = stack_ok fs"
  "\<not> list_ex failing_frame (condition_frames es)"
  by (simp_all add: condition_frames_def)

lemma start_handler_frame:
  assumes "start_handler g tk nd s = (fs, s')"
  shows "core s' = core s \<and> shown_failed s' = shown_failed s \<and> list_all plain_frame fs \<and> \<not> list_ex failing_frame fs \<and>
    (stack_ok r \<longrightarrow> stack_ok (fs @ F_finish n p # r))"
  using assms
  by (cases "wn_data nd")
    (auto simp: start_handler_def handleStartNode_def handleConditionNode_def handleForkNode_def handleJoinNode_def
      handleSwitchNode_def handleSetVariableNode_def handleLoopNode_def Let_def run_frame)

lemma arrive_frame:
  assumes "arrive g n s = (ready, s')"
  shows "core s' = core s \<and> shown_failed s' = shown_failed s \<and> gr_visited s' = gr_visited s \<and> gr_started s' = gr_started s"
  using assms by (auto simp: arrive_def Let_def core_def shown_failed_def state_change_def split: if_splits)

lemma visit_frame:
  assumes "visit g tk n s = (fs, s')"
  shows "core s' = core s \<and> shown_failed s' = shown_failed s \<and> list_all plain_frame fs \<and>
    (list_ex failing_frame fs \<longrightarrow> \<not> gr_allPassed s) \<and> (stack_ok r \<longrightarrow> stack_ok (fs @ r))"
proof (cases "gr_aborted s \<or> nodeMap g n = None")
  case True
  with assms show ?thesis by (auto simp: visit_def split: if_splits)
next
  case False
  then obtain nd where nd: "nodeMap g n = Some nd" by auto
  obtain ready s1 where a: "arrive g n s = (ready, s1)" by fastforce
  note af = arrive_frame [OF a]
  show ?thesis
  proof (cases "\<not> ready \<or> n \<in> set (gr_visited s1)")
    case True
    with assms False nd a af show ?thesis by (auto simp: visit_def)
  next
    case started: False
    obtain hs s2 where h: "start_handler g tk nd (begin_node n s1) = (hs, s2)" by fastforce
    with assms False nd a started have r: "fs = hs @ [F_finish n (gr_allPassed s1)]" "s' = s2" by (auto simp: visit_def)
    have "gr_allPassed s1 = gr_allPassed s" using af by (simp add: core_def)
    with r start_handler_frame [OF h, of r n "gr_allPassed s1"] af show ?thesis by (auto simp: run_frame)
  qed
qed

lemma visit_all_frame:
  "visit_all g tk ns s = (fss, s') \<Longrightarrow>
     core s' = core s \<and> shown_failed s' = shown_failed s \<and>
     list_all (\<lambda>fs. list_all plain_frame fs \<and> stack_ok fs \<and> (list_ex failing_frame fs \<longrightarrow> \<not> gr_allPassed s)) fss"
proof (induction ns arbitrary: s fss s')
  case (Cons n ns)
  obtain fs s1 where v: "visit g tk n s = (fs, s1)" by fastforce
  obtain gss s2 where w: "visit_all g tk ns s1 = (gss, s2)" by fastforce
  have "gr_allPassed s1 = gr_allPassed s" using visit_frame [OF v] by (simp add: core_def)
  with Cons.IH [OF w] visit_frame [OF v, of "[]"] Cons.prems v w show ?case by (auto simp: list_all_iff)
qed simp

text \<open>Handlers that decide about their node.\<close>

definition handler_ok :: "frame list \<times> bool \<times> graph_run \<Rightarrow> graph_run \<Rightarrow> bool" where
  "handler_ok r s = (case r of (fs, ok, s') \<Rightarrow>
     core s' = core s \<and> shown_failed s' = (shown_failed s \<or> \<not> ok) \<and> list_all plain_frame fs \<and> \<not> list_ex failing_frame fs \<and>
     (\<forall>n p rest. stack_ok rest \<longrightarrow> stack_ok (fs @ F_finish n p # rest)))"

lemma handlers_ok [simp]:
  "handler_ok (handler_succeeded g n s) s" "handler_ok (handler_failed g n d a e s) s" "handler_ok (wait_concluded g tk n b k s) s"
  by (simp_all add: handler_ok_def handler_succeeded_def handler_failed_def wait_concluded_def Let_def run_frame)

lemma handlers_ok2 [simp]:
  "handler_ok (handler_try g tk n d a e s) s" "handler_ok (handler_tried g n d a k s) s"
  "handler_ok (wait_poll g tk n w a s) s" "handler_ok (wait_polled g tk n w a s) s"
  by (auto simp: handler_try_def handler_tried_def wait_poll_def wait_polled_def split: option.split)
    (simp_all add: handler_ok_def run_frame)

lemma loops_frame:
  assumes "r = loop_test g tk n d items it s \<or> r = loop_next n d items it s"
  shows "core (snd r) = core s \<and> shown_failed (snd r) = shown_failed s \<and> list_all plain_frame (fst r) \<and>
    \<not> list_ex failing_frame (fst r) \<and> (stack_ok rest \<longrightarrow> stack_ok (fst r @ rest))"
  using assms by (auto simp: loop_test_def loop_next_def run_frame split: if_splits)

lemma error_config_frame:
  assumes "run_error_config g config tk s = (fs, s')"
  shows "core s' = core s \<and> shown_failed s' = shown_failed s \<and> list_all plain_frame fs \<and>
    (list_ex failing_frame fs \<longrightarrow> \<not> gr_allPassed s) \<and> (stack_ok r \<longrightarrow> stack_ok (fs @ r))"
proof -
  have "gr_allPassed (set_ctx f s) = gr_allPassed s" for f by (simp add: set_ctx_def)
  then show ?thesis
    using assms visit_frame [of g tk _ "set_ctx f s" fs s' r for f] run_frame
    by (auto simp: run_error_config_def Let_def split: option.splits if_splits)
qed

section \<open>What a step does to the tasks\<close>

fun waits :: "frame list \<Rightarrow> nat set" where
  "waits [] = {}"
| "waits (F_all ids # fs) = set ids \<union> waits fs"
| "waits (f # fs) = waits fs"

lemma waits_append [simp]: "waits (fs @ gs) = waits fs \<union> waits gs"
  by (induction fs rule: waits.induct) auto

lemma waits_plain [simp]: "list_all plain_frame fs \<Longrightarrow> waits fs = {}"
  by (induction fs rule: waits.induct) auto

lemma lower_flag_True [simp]: "lower_flag True fs = fs"
  by (cases "(True, fs)" rule: lower_flag.cases) auto

lemma lower_flag_frames [simp]:
  "waits (lower_flag ok fs) = waits fs" "stack_ok (lower_flag ok fs) = stack_ok fs"
  "(lower_flag ok fs = []) = (fs = [])"
  by (induction ok fs rule: lower_flag.induct) auto

definition main_stack :: "frame list \<Rightarrow> bool" where
  "main_stack fs = (\<exists>xs. fs = xs @ [F_verdict] \<and> F_verdict \<notin> set xs)"

lemma main_stack_Cons: "main_stack (f # fs) \<longleftrightarrow> f = F_verdict \<and> fs = [] \<or> f \<noteq> F_verdict \<and> main_stack fs"
  unfolding main_stack_def by (cases fs) (force simp: Cons_eq_append_conv)+

lemma main_stack_append: "F_verdict \<notin> set fs \<Longrightarrow> main_stack (fs @ gs) = main_stack gs"
  by (induction fs) (auto simp: main_stack_Cons)

lemma main_stack_lower [simp]: "main_stack (lower_flag ok fs) = main_stack fs"
  by (induction ok fs rule: lower_flag.induct) (auto simp: main_stack_Cons)

lemma sub_stack_lower [simp]: "F_verdict \<in> set (lower_flag ok fs) \<longleftrightarrow> F_verdict \<in> set fs"
  by (induction ok fs rule: lower_flag.induct) auto

lemma plain_no_verdict: "list_all plain_frame fs \<Longrightarrow> F_verdict \<notin> set fs"
  by (auto simp: list_all_iff)

text \<open>A step other than the verdict keeps the shape of its stack, starts well-shaped tasks, waits for
exactly these, and keeps the balance of failures: when the run has failed or the end of a failing node is
still to come, some node is shown as failed, and conversely unless an activity was cut off by an abort.\<close>

definition balanced :: "frame list \<Rightarrow> graph_run \<Rightarrow> bool" where
  "balanced fs s \<longleftrightarrow>
     (\<not> gr_allPassed s \<or> list_ex failing_frame fs \<longrightarrow> shown_failed s) \<and>
     (shown_failed s \<longrightarrow> gr_cut s \<noteq> [] \<or> \<not> gr_allPassed s \<or> list_ex failing_frame fs) \<and>
     (gr_cut s \<noteq> [] \<longrightarrow> gr_aborted s)"

definition good_effect :: "frame \<Rightarrow> frame list \<Rightarrow> graph_run \<Rightarrow> effect \<Rightarrow> bool" where
  "good_effect f rest s e = (case e of (fs, rest', fss, s') \<Rightarrow>
     gr_tasks s' = gr_tasks s \<and> gr_verdict s' = gr_verdict s \<and> gr_aborted s' = gr_aborted s \<and>
     stack_ok (fs @ rest') \<and> list_all stack_ok fss \<and>
     F_verdict \<notin> set fs \<and> list_all (list_all plain_frame) fss \<and>
     (main_stack rest \<longrightarrow> main_stack rest') \<and> (F_verdict \<in> set rest' \<longrightarrow> F_verdict \<in> set rest) \<and>
     waits rest' = waits rest \<and> waits fs = {length (gr_tasks s)..<length (gr_tasks s) + length fss} \<and>
     (\<forall>others. balanced (others @ f # rest) s \<longrightarrow> balanced (others @ concat fss @ fs @ rest') s'))"

lemma core_eqD:
  "core s' = core s \<Longrightarrow> gr_tasks s' = gr_tasks s \<and> gr_verdict s' = gr_verdict s \<and> gr_allPassed s' = gr_allPassed s \<and>
     gr_completed s' = gr_completed s \<and> gr_aborted s' = gr_aborted s \<and> gr_cut s' = gr_cut s"
  by (simp add: core_def)

text \<open>The usual effect: new frames that keep the balance by themselves.\<close>

lemma good_effect_plain:
  assumes "core s' = core s" "shown_failed s' = shown_failed s" "list_all plain_frame fs"
    "list_ex failing_frame fs \<longrightarrow> \<not> gr_allPassed s" "\<not> failing_frame f" "stack_ok (fs @ rest)"
  shows "good_effect f rest s (fs, rest, [], s')"
  using assms core_eqD [OF assms(1)] plain_no_verdict [OF assms(3)]
  by (auto simp: good_effect_def balanced_def)

lemma good_effect_handler:
  assumes "handler_ok (fs, ok, s') s" "rest = F_finish n p # r" "\<not> failing_frame f" "stack_ok rest"
  shows "good_effect f rest s (fs, lower_flag ok rest, [], s')"
  using assms core_eqD [of s' s] plain_no_verdict [of fs]
  by (auto simp: good_effect_def balanced_def handler_ok_def main_stack_Cons)

lemma resume_good:
  assumes "core (snd r) = core s" "shown_failed (snd r) = shown_failed s" "list_all plain_frame (fst r)"
    "list_ex failing_frame (fst r) \<longrightarrow> \<not> gr_allPassed s" "\<not> failing_frame f" "stack_ok (fst r @ next_frames @ rest)"
    "list_all plain_frame next_frames" "\<not> list_ex failing_frame next_frames"
  shows "good_effect f rest s (resume_with next_frames rest r)"
  using good_effect_plain [of "snd r" s "fst r @ next_frames" f rest] assms
  by (cases r) (auto simp: resume_with_def)

lemma visit_good:
  assumes "shown_failed s0 = shown_failed s" "core s0 = core s" "\<not> failing_frame f" "stack_ok (next_frames @ rest)"
    "list_all plain_frame next_frames" "\<not> list_ex failing_frame next_frames"
  shows "good_effect f rest s (resume_with next_frames rest (visit g tk n s0))"
proof -
  obtain fs s' where v: "visit g tk n s0 = (fs, s')" by fastforce
  have "gr_allPassed s0 = gr_allPassed s" using assms(2) by (simp add: core_def)
  with visit_frame [OF v, of "next_frames @ rest"] assms v show ?thesis by (intro resume_good) auto
qed

lemma start_tasks_good:
  assumes "visit_all g tk ns s = (fss, s')" "\<not> failing_frame f" "stack_ok rest"
  shows "good_effect f rest s (start_tasks rest (fss, s'))"
proof -
  note v = visit_all_frame [OF assms(1)]
  then have c: "core s' = core s" "shown_failed s' = shown_failed s" by auto
  have "list_ex failing_frame (concat fss) \<longrightarrow> \<not> gr_allPassed s"
    using v by (auto simp: list_all_iff list_ex_iff)
  with v core_eqD [OF c(1)] c(2) assms(2,3) show ?thesis
    by (auto simp: good_effect_def start_tasks_def Let_def balanced_def list_all_iff)
qed

lemma resume_handler_good:
  assumes "handler_ok r s" "\<not> failing_frame f" "stack_ok (f # rest)" "needs_finish f"
  shows "good_effect f rest s (resume_handler rest r)"
proof -
  obtain fs ok s' where r: "r = (fs, ok, s')" by (cases r)
  from assms(3,4) obtain n p rest' where "rest = F_finish n p # rest'" by auto
  with good_effect_handler [of fs ok s' s rest n p rest' f] assms r show ?thesis by (simp add: resume_handler_def)
qed

lemma finish_good: "stack_ok rest \<Longrightarrow> good_effect (F_finish n p) rest s ([], rest, [], finish_node n p s)"
  by (auto simp: good_effect_def finish_node_def balanced_def shown_failed_def)

lemma advance_good:
  assumes "advance_frame g config tk f rest s = Some e" "stack_ok (f # rest)" "f \<noteq> F_verdict" "\<forall>ids. f \<noteq> F_all ids"
  shows "good_effect f rest s e"
proof (cases f)
  case (F_starts ns)
  with assms show ?thesis
    by (cases ns) (auto intro!: good_effect_plain visit_good split: if_splits)
next
  case F_error_config
  obtain fs s' where r: "run_error_config g config tk s = (fs, s')" by fastforce
  with error_config_frame [OF r, of rest] F_error_config assms show ?thesis by (auto intro!: resume_good)
next
  case (F_edges es)
  with assms show ?thesis by (cases es) (auto intro!: good_effect_plain visit_good simp: run_frame)
next
  case (F_targets ns)
  with assms show ?thesis by (cases ns) (auto intro!: good_effect_plain visit_good)
next
  case (F_par ns)
  obtain fss s' where "visit_all g tk ns s = (fss, s')" by fastforce
  with start_tasks_good [OF this, of f rest] F_par assms show ?thesis by auto
next
  case (F_delay n)
  with assms show ?thesis by (auto intro!: good_effect_plain simp: run_frame)
next
  case (F_loop n d items it)
  with assms loops_frame [OF disjI1 [OF refl], of g tk n d items it s rest] show ?thesis by (auto intro!: resume_good)
next
  case (F_loop_next n d items it)
  with assms loops_frame [OF disjI2 [OF refl], of n d items it s rest] show ?thesis by (auto intro!: resume_good)
next
  case (F_try n d a r)
  with assms show ?thesis by (auto intro!: resume_handler_good)
next
  case (F_tried n d a k)
  with assms show ?thesis by (auto intro!: resume_handler_good)
next
  case (F_poll n d a)
  with assms show ?thesis by (auto intro!: resume_handler_good)
next
  case (F_polled n d a)
  with assms show ?thesis by (auto intro!: resume_handler_good)
qed (use assms in \<open>auto intro!: good_effect_plain finish_good\<close>)

lemma throw_frame:
  "gr_tasks (throw_node g n s) = gr_tasks s" "gr_verdict (throw_node g n s) = gr_verdict s"
  "gr_aborted (throw_node g n s) = gr_aborted s" "gr_allPassed (throw_node g n s) = False" "shown_failed (throw_node g n s)"
  "gr_cut (throw_node g n s) = gr_cut s"
  by (auto simp: throw_node_def Let_def state_change_def set_ctx_def shown_failed_def)

lemma push_results_frame [run_frame]:
  "core (push_results n rs vars nodeVars s) = core s" "shown_failed (push_results n rs vars nodeVars s) = shown_failed s"
  by (simp_all add: push_results_def run_frame) (simp_all add: core_def shown_failed_def)

lemma show_cut_frame:
  "gr_tasks (show_cut n vars s) = gr_tasks s" "gr_verdict (show_cut n vars s) = gr_verdict s"
  "gr_aborted (show_cut n vars s) = gr_aborted s" "gr_allPassed (show_cut n vars s) = gr_allPassed s"
  "shown_failed (show_cut n vars s)" "gr_cut (show_cut n vars s) \<noteq> []"
  by (auto simp: show_cut_def state_change_def set_ctx_def shown_failed_def)

lemma cut_good:
  assumes "cut_frame vars f rest s = Some e" "stack_ok (f # rest)"
  shows "good_effect f rest s e"
proof -
  from assms obtain n where f: "f = F_activity n" by (cases "(vars, f, rest, s)" rule: cut_frame.cases) auto
  with assms show ?thesis
    by (auto simp: good_effect_def balanced_def show_cut_frame split: if_splits)
qed

lemma complete_good:
  assumes "complete_frame g out f rest s = Some e" "stack_ok (f # rest)"
  shows "good_effect f rest s e"
proof -
  from assms obtain n where f: "f = F_activity n" by (cases "(g, out, f, rest, s)" rule: complete_frame.cases) auto
  with assms(2) obtain m p r where rest: "rest = F_finish m p # r" by auto
  have c: "core (record_outcome n rs vars nodeVars ok s) = core s"
    "shown_failed (record_outcome n rs vars nodeVars ok s) = (shown_failed s \<or> \<not> ok)" for rs vars nodeVars ok
    by (simp_all add: record_outcome_def run_frame)
  show ?thesis
  proof (cases out)
    case (Done rs vars nodeVars ok)
    have "handler_ok ([F_edges (outgoing g n)], ok, record_outcome n rs vars nodeVars ok s) s"
      by (simp add: handler_ok_def c)
    from good_effect_handler [OF this rest, of f] f rest assms Done show ?thesis by auto
  next
    case (Halted rs vars nodeVars)
    have "handler_ok ([], False, record_outcome n rs vars nodeVars False s) s"
      by (simp add: handler_ok_def c)
    from good_effect_handler [OF this rest, of f] f rest assms Halted show ?thesis by auto
  next
    case (Threw rs vars nodeVars)
    note p = core_eqD [OF push_results_frame(1) [of n rs vars nodeVars s]]
    from Threw f rest assms p show ?thesis
      by (auto simp: good_effect_def balanced_def throw_frame main_stack_Cons)
  qed
qed

end
