(* ===== verification/Workflow_Verdict.thy ===== *)
theory Workflow_Verdict
  imports Workflow_Run
begin

text \<open>
  What the verdict of a workflow run means. The invariant of a run: every stack of continuations has the
  shape the handlers give it, the tasks form a tree of awaits below the first one, and the failures that
  have been shown balance with the flag of the run and the node ends still to come. It is an instance of
  the contract of step machines, so it holds after every sequence of events.
\<close>

section \<open>The invariant of a run\<close>

text \<open>Stacks have their shape; the first task is the main one, and holds the end of the run until the verdict;
every other unfinished task is awaited by an earlier one; failures balance; after the verdict nothing is
left to do.\<close>

definition run_ok :: "graph_run \<Rightarrow> bool" where
  "run_ok s =
     ((\<forall>fs\<in>set (gr_tasks s). stack_ok fs) \<and> balanced (concat (gr_tasks s)) s \<and>
      (case gr_verdict s of
         None \<Rightarrow> gr_tasks s \<noteq> [] \<and> main_stack (gr_tasks s ! 0)
       | Some v \<Rightarrow> v = gr_allPassed s \<and> finished s) \<and>
      (\<forall>k. 0 < k \<longrightarrow> k < length (gr_tasks s) \<longrightarrow> F_verdict \<notin> set (gr_tasks s ! k)) \<and>
      (\<forall>i<length (gr_tasks s). \<forall>k\<in>waits (gr_tasks s ! i). i < k \<and> k < length (gr_tasks s)) \<and>
      (\<forall>k. 0 < k \<longrightarrow> k < length (gr_tasks s) \<longrightarrow> gr_tasks s ! k \<noteq> [] \<longrightarrow> (\<exists>i<k. k \<in> waits (gr_tasks s ! i))))"

lemma balanced_cong: "set fs = set gs \<Longrightarrow> balanced fs s = balanced gs s"
  by (simp add: balanced_def list_ex_iff)

lemma concat_update:
  assumes "i < length ts"
  shows "set (concat (ts[i := fs] @ fss)) = set ((concat (take i ts) @ concat (drop (Suc i) ts)) @ concat fss @ fs)"
    "set (concat ts) = set ((concat (take i ts) @ concat (drop (Suc i) ts)) @ ts ! i)"
proof -
  show "set (concat (ts[i := fs] @ fss)) = set ((concat (take i ts) @ concat (drop (Suc i) ts)) @ concat fss @ fs)"
    by (simp add: upd_conv_take_nth_drop [OF assms] Un_ac)
  have "set (concat ts) = set (concat (take i ts @ ts ! i # drop (Suc i) ts))"
    by (rule arg_cong [OF id_take_nth_drop [OF assms], of "\<lambda>t. set (concat t)"])
  then show "set (concat ts) = set ((concat (take i ts) @ concat (drop (Suc i) ts)) @ ts ! i)"
    by (simp add: Un_ac)
qed

lemma run_okD:
  assumes "run_ok s"
  shows "fs \<in> set (gr_tasks s) \<Longrightarrow> stack_ok fs" "balanced (concat (gr_tasks s)) s"
    "\<not> finished s \<Longrightarrow> gr_verdict s = None \<and> main_stack (gr_tasks s ! 0)"
    "0 < k \<Longrightarrow> k < length (gr_tasks s) \<Longrightarrow> F_verdict \<notin> set (gr_tasks s ! k)"
    "i < length (gr_tasks s) \<Longrightarrow> k \<in> waits (gr_tasks s ! i) \<Longrightarrow> i < k \<and> k < length (gr_tasks s)"
    "0 < k \<Longrightarrow> k < length (gr_tasks s) \<Longrightarrow> gr_tasks s ! k \<noteq> [] \<Longrightarrow> \<exists>i<k. k \<in> waits (gr_tasks s ! i)"
proof -
  note ok = assms [unfolded run_ok_def]
  show "fs \<in> set (gr_tasks s) \<Longrightarrow> stack_ok fs" "balanced (concat (gr_tasks s)) s"
    "0 < k \<Longrightarrow> k < length (gr_tasks s) \<Longrightarrow> F_verdict \<notin> set (gr_tasks s ! k)"
    "i < length (gr_tasks s) \<Longrightarrow> k \<in> waits (gr_tasks s ! i) \<Longrightarrow> i < k \<and> k < length (gr_tasks s)"
    "0 < k \<Longrightarrow> k < length (gr_tasks s) \<Longrightarrow> gr_tasks s ! k \<noteq> [] \<Longrightarrow> \<exists>i<k. k \<in> waits (gr_tasks s ! i)"
    using ok by blast+
  show "\<not> finished s \<Longrightarrow> gr_verdict s = None \<and> main_stack (gr_tasks s ! 0)"
    using ok by (cases "gr_verdict s") simp_all
qed

lemma run_okI:
  assumes "\<And>fs. fs \<in> set (gr_tasks s) \<Longrightarrow> stack_ok fs" "balanced (concat (gr_tasks s)) s" "gr_verdict s = None"
    "gr_tasks s \<noteq> []" "main_stack (gr_tasks s ! 0)"
    "\<And>k. 0 < k \<Longrightarrow> k < length (gr_tasks s) \<Longrightarrow> F_verdict \<notin> set (gr_tasks s ! k)"
    "\<And>i k. i < length (gr_tasks s) \<Longrightarrow> k \<in> waits (gr_tasks s ! i) \<Longrightarrow> i < k \<and> k < length (gr_tasks s)"
    "\<And>k. 0 < k \<Longrightarrow> k < length (gr_tasks s) \<Longrightarrow> gr_tasks s ! k \<noteq> [] \<Longrightarrow> \<exists>i<k. k \<in> waits (gr_tasks s ! i)"
  shows "run_ok s"
proof -
  have "\<forall>fs\<in>set (gr_tasks s). stack_ok fs"
    "\<forall>k. 0 < k \<longrightarrow> k < length (gr_tasks s) \<longrightarrow> F_verdict \<notin> set (gr_tasks s ! k)"
    "\<forall>i<length (gr_tasks s). \<forall>k\<in>waits (gr_tasks s ! i). i < k \<and> k < length (gr_tasks s)"
    "\<forall>k. 0 < k \<longrightarrow> k < length (gr_tasks s) \<longrightarrow> gr_tasks s ! k \<noteq> [] \<longrightarrow> (\<exists>i<k. k \<in> waits (gr_tasks s ! i))"
    using assms(1,6-8) by blast+
  then show ?thesis unfolding run_ok_def assms(3) option.case using assms(2,4,5) by blast
qed

lemma unfinished_task: "i < length (gr_tasks s) \<Longrightarrow> gr_tasks s ! i = f # rest \<Longrightarrow> \<not> finished s"
  unfolding finished_def by (metis nth_mem list.distinct(1))

lemma good_effect_ok:
  assumes ok: "run_ok s" and i: "i < length (gr_tasks s)" "gr_tasks s ! i = f # rest"
    and good: "good_effect f rest s e" and f: "f \<noteq> F_verdict" "\<forall>ids. f = F_all ids \<longrightarrow> (\<forall>k\<in>set ids. gr_tasks s ! k = [])"
  shows "run_ok (apply_effect i e)"
proof -
  obtain fs rest' fss s' where e: "e = (fs, rest', fss, s')" by (cases e)
  let ?ts = "gr_tasks s"
  let ?ts' = "(?ts @ fss)[i := fs @ rest']"
  note verdict = run_okD(3) [OF ok unfinished_task [OF i]]
  note stacks_ok = run_okD(1) [OF ok] and later_ok = run_okD(5) [OF ok] and awaited_ok = run_okD(6) [OF ok]
  have gt: "gr_tasks s' = ?ts" using good by (simp add: good_effect_def e)
  have g: "gr_verdict s' = gr_verdict s" "stack_ok (fs @ rest')" "list_all stack_ok fss" "F_verdict \<notin> set fs"
    "list_all (list_all plain_frame) fss" "main_stack rest \<longrightarrow> main_stack rest'"
    "F_verdict \<in> set rest' \<longrightarrow> F_verdict \<in> set rest" "waits rest' = waits rest"
    "waits fs = {length ?ts..<length ?ts + length fss}"
    "balanced (others @ f # rest) s \<longrightarrow> balanced (others @ concat fss @ fs @ rest') s'" for others
    using good by (simp_all add: good_effect_def e)
  have upd: "?ts' = ?ts[i := fs @ rest'] @ fss" using i(1) by (simp add: list_update_append1)
  have nth: "?ts' ! k = (if k = i then fs @ rest' else if k < length ?ts then ?ts ! k else fss ! (k - length ?ts))"
    if "k < length ?ts'" for k
    using that i(1) by (auto simp: upd nth_append nth_list_update)
  have wi: "waits (?ts ! i) = (case f of F_all ids \<Rightarrow> set ids | _ \<Rightarrow> {}) \<union> waits rest"
    unfolding i(2) by (cases f) auto
  have new_task: "list_all plain_frame (fss ! (k - length ?ts))" if "\<not> k < length ?ts" "k < length ?ts'" for k
    using that g(5) by (simp add: list_all_length)
  have stacks: "stack_ok x" if "x \<in> set ?ts'" for x
  proof -
    from that have "x = fs @ rest' \<or> x \<in> set ?ts \<or> x \<in> set fss"
      unfolding upd using set_update_subset_insert [of ?ts i "fs @ rest'"] by auto
    with stacks_ok g(2,3) show ?thesis by (auto simp: list_all_iff)
  qed
  have before: "balanced ((concat (take i ?ts) @ concat (drop (Suc i) ?ts)) @ f # rest) s"
    using run_okD(2) [OF ok] unfolding balanced_cong [OF concat_update(2) [OF i(1)]] i(2) .
  from g(10) [THEN mp, OF this]
  have bal: "balanced (concat ?ts') s'"
    unfolding upd balanced_cong [OF concat_update(1) [OF i(1), of "fs @ rest'" fss]] .
  have main: "main_stack (?ts' ! 0)"
  proof (cases "i = 0")
    case True
    with verdict i(2) f(1) have "main_stack rest" by (simp add: main_stack_Cons)
    with True g(4,6) nth [of 0] i(1) show ?thesis by (simp add: main_stack_append)
  qed (use verdict i(1) in \<open>auto simp: nth_append\<close>)
  have subs: "F_verdict \<notin> set (?ts' ! k)" if k: "0 < k" "k < length ?ts'" for k
  proof (cases "k < length ?ts")
    case True
    with run_okD(4) [OF ok k(1)] have "F_verdict \<notin> set (?ts ! k)" by blast
    with True g(4,7) nth [OF k(2)] i(2) show ?thesis by (cases "k = i") auto
  next
    case False
    with i(1) nth [OF k(2)] plain_no_verdict [OF new_task [OF False k(2)]] show ?thesis by auto
  qed
  have later: "j < k \<and> k < length ?ts'" if j: "j < length ?ts'" "k \<in> waits (?ts' ! j)" for j k
  proof (cases "j < length ?ts")
    case True
    then have "k \<in> waits (?ts ! j) \<or> (j = i \<and> k \<in> {length ?ts..<length ?ts + length fss})"
      using j nth [OF j(1)] g(8,9) wi by (cases "j = i") auto
    with later_ok [OF True] i(1) show ?thesis by fastforce
  next
    case False
    with i(1) j nth [OF j(1)] waits_plain [OF new_task [OF False j(1)]] show ?thesis by auto
  qed
  have awaited: "\<exists>j<k. k \<in> waits (?ts' ! j)" if k: "0 < k" "k < length ?ts'" "?ts' ! k \<noteq> []" for k
  proof (cases "k < length ?ts")
    case True
    have open_task: "?ts ! k \<noteq> []" using k(3) nth [OF k(2)] True i(2) by (cases "k = i") auto
    then obtain j where j: "j < k" "k \<in> waits (?ts ! j)" using awaited_ok [OF k(1) True] by blast
    have "k \<in> waits (?ts' ! j)"
    proof (cases "j = i")
      case True
      then have "k \<in> waits rest" using j(2) wi f(2) open_task by (auto split: frame.splits)
      then show ?thesis using True g(8) nth [of j] j(1) k(2) by simp
    qed (use j nth [of j] k(2) True in simp)
    with j(1) show ?thesis by blast
  next
    case False
    then have "k \<in> {length ?ts..<length ?ts + length fss}" using k(2) by auto
    then show ?thesis using g(9) nth [of i] i(1) False k(2) by (intro exI [of _ i]) auto
  qed
  have t: "gr_tasks (apply_effect i e) = ?ts'" "gr_verdict (apply_effect i e) = None"
    "balanced (concat ?ts') (apply_effect i e)"
    using g(1) gt verdict bal by (simp_all add: apply_effect_def e balanced_def shown_failed_def)
  have "?ts' \<noteq> []" using i(1) by auto
  with t stacks main subs later awaited show ?thesis by (intro run_okI) (unfold t(1))
qed

section \<open>The verdict\<close>

text \<open>When the end of the run is reached every other task has been awaited, so none is left.\<close>

lemma verdict_last:
  assumes ok: "run_ok s" and i: "i < length (gr_tasks s)" "gr_tasks s ! i = F_verdict # rest"
  shows "i = 0 \<and> rest = [] \<and> (\<forall>k<length (gr_tasks s). 0 < k \<longrightarrow> gr_tasks s ! k = [])"
proof -
  have "F_verdict \<in> set (gr_tasks s ! i)" using i(2) by simp
  with run_okD(4) [OF ok, of i] i(1) have i0: "i = 0" by blast
  with run_okD(3) [OF ok unfinished_task [OF i]] i(2) have rest: "rest = []" by (simp add: main_stack_Cons)
  have "gr_tasks s ! k = []" if "0 < k" "k < length (gr_tasks s)" for k
    using that
  proof (induction k rule: less_induct)
    case (less k)
    show ?case
    proof (rule ccontr)
      assume "gr_tasks s ! k \<noteq> []"
      with run_okD(6) [OF ok less.prems] obtain j where j: "j < k" "k \<in> waits (gr_tasks s ! j)" by blast
      have "waits (gr_tasks s ! j) = {}" using j(1) less i0 i(2) rest by (cases "j = 0") auto
      with j(2) show False by simp
    qed
  qed
  with i0 rest show ?thesis by blast
qed

lemma close_run_frame:
  "core (close_run g s) = (gr_tasks s, Some (gr_allPassed s), gr_allPassed s, gr_completed s, gr_aborted s, gr_cut s)"
  "shown_failed (close_run g s) \<longleftrightarrow> shown_failed s \<or> \<not> gr_allPassed s \<and> (\<exists>n\<in>set (end_nodes g). n \<notin> set (gr_visited s))"
proof -
  let ?h = "\<lambda>s n. if n \<in> set (gr_visited s) then s else state_change n (if gr_allPassed s then NS_pass else NS_fail) s"
  have *: "core (foldl ?h s ns) = core s \<and> gr_visited (foldl ?h s ns) = gr_visited s \<and>
    (shown_failed (foldl ?h s ns) \<longleftrightarrow> shown_failed s \<or> \<not> gr_allPassed s \<and> (\<exists>n\<in>set ns. n \<notin> set (gr_visited s)))" for ns
  proof (induction ns arbitrary: s)
    case (Cons n ns)
    have "core (?h s n) = core s" "gr_visited (?h s n) = gr_visited s" "gr_allPassed (?h s n) = gr_allPassed s"
      by (simp_all add: run_frame) (simp_all add: state_change_def)
    with Cons [of "?h s n"] show ?case by (auto simp: run_frame)
  qed simp
  from * [of "end_nodes g"] show "core (close_run g s) = (gr_tasks s, Some (gr_allPassed s), gr_allPassed s, gr_completed s, gr_aborted s, gr_cut s)"
    "shown_failed (close_run g s) \<longleftrightarrow> shown_failed s \<or> \<not> gr_allPassed s \<and> (\<exists>n\<in>set (end_nodes g). n \<notin> set (gr_visited s))"
    by (simp_all add: close_run_def core_def shown_failed_def)
qed

lemma all_empty_update: "\<forall>k<length ts. 0 < k \<longrightarrow> ts ! k = [] \<Longrightarrow> x \<in> set (ts[0 := []]) \<Longrightarrow> x = []"
proof -
  assume h: "\<forall>k<length ts. 0 < k \<longrightarrow> ts ! k = []" and "x \<in> set (ts[0 := []])"
  then obtain k where "k < length ts" "x = ts[0 := []] ! k" by (auto simp: in_set_conv_nth)
  with h show "x = []" by (cases "k = 0") simp_all
qed

lemma finished_ok:
  assumes "balanced (concat (gr_tasks s)) s" "gr_verdict s = Some (gr_allPassed s)" "\<And>x. x \<in> set (gr_tasks s) \<Longrightarrow> x = []"
  shows "run_ok s"
proof -
  have "gr_tasks s ! k = []" if "k < length (gr_tasks s)" for k using assms(3) nth_mem [OF that] by blast
  moreover have "stack_ok fs" if "fs \<in> set (gr_tasks s)" for fs using assms(3) [OF that] by simp
  moreover have "finished s" using assms(3) by (simp add: finished_def)
  ultimately show ?thesis using assms(1,2) by (simp add: run_ok_def)
qed

lemma verdict_ok:
  assumes ok: "run_ok s" and i: "i < length (gr_tasks s)" "gr_tasks s ! i = F_verdict # rest"
  shows "run_ok (apply_effect i ([], rest, [], close_run g s))"
proof -
  let ?ts = "gr_tasks s" and ?s = "apply_effect i ([], rest, [], close_run g s)"
  from verdict_last [OF ok i] have l: "i = 0" "rest = []" and others: "\<forall>k<length ?ts. 0 < k \<longrightarrow> ?ts ! k = []" by blast+
  have t: "gr_tasks ?s = ?ts[0 := []]" "gr_verdict ?s = Some (gr_allPassed s)" "gr_allPassed ?s = gr_allPassed s"
    "gr_cut ?s = gr_cut s" "gr_aborted ?s = gr_aborted s"
    using close_run_frame(1) [of g s] l by (simp_all add: apply_effect_def core_def)
  have sf: "shown_failed ?s = shown_failed (close_run g s)" by (simp add: apply_effect_def shown_failed_def)
  have empty: "x = []" if "x \<in> set (gr_tasks ?s)" for x using all_empty_update [OF others] that t(1) by simp
  have "concat ?ts = concat (?ts ! 0 # tl ?ts)" using i(1) by (cases ?ts) auto
  moreover have "concat (tl ?ts) = []" using others by (auto simp: in_set_conv_nth nth_tl)
  ultimately have c: "concat ?ts = [F_verdict]" using i(2) l by simp
  have "balanced [] s" using run_okD(2) [OF ok] by (simp add: balanced_def c)
  moreover have none: "concat (gr_tasks ?s) = []" using empty by auto
  ultimately have "balanced (concat (gr_tasks ?s)) ?s"
    unfolding balanced_def none t(3-5) sf close_run_frame(2) by auto
  then show ?thesis using finished_ok [of ?s] empty t(2,3) by simp
qed

lemma top_step_ok:
  assumes step: "top_step h i s = Some s'"
    and h: "\<And>f rest e. i < length (gr_tasks s) \<Longrightarrow> gr_tasks s ! i = f # rest \<Longrightarrow> h f rest s = Some e \<Longrightarrow> run_ok (apply_effect i e)"
  shows "run_ok s'"
  using step h by (auto simp: top_step_def split: if_splits list.splits)

lemma advance_ok:
  assumes ok: "run_ok s" and i: "i < length (gr_tasks s)" "gr_tasks s ! i = f # rest"
    and e: "advance_frame g config tk f rest s = Some e"
  shows "run_ok (apply_effect i e)"
proof -
  have stack: "stack_ok (f # rest)" using run_okD(1) [OF ok] nth_mem [OF i(1)] unfolding i(2) by blast
  consider "f = F_verdict" | ids where "f = F_all ids" | "f \<noteq> F_verdict" "\<forall>ids. f \<noteq> F_all ids" by blast
  then show ?thesis
  proof cases
    case 1
    with e verdict_ok [OF ok i(1), of rest g] i(2) show ?thesis by simp
  next
    case 2
    with e have "e = ([], rest, [], s)" "\<forall>k\<in>set ids. gr_tasks s ! k = []" by (auto simp: list_all_iff split: if_splits)
    with 2 stack good_effect_ok [OF ok i good_effect_plain [of s s "[]"]] show ?thesis by simp
  next
    case 3
    with good_effect_ok [OF ok i advance_good [OF e stack]] show ?thesis by blast
  qed
qed

lemma complete_ok:
  assumes ok: "run_ok s" and i: "i < length (gr_tasks s)" "gr_tasks s ! i = f # rest"
    and e: "complete_frame g out f rest s = Some e"
  shows "run_ok (apply_effect i e)"
proof -
  have stack: "stack_ok (f # rest)" using run_okD(1) [OF ok] nth_mem [OF i(1)] unfolding i(2) by blast
  from e obtain n where "f = F_activity n" by (cases "(g, out, f, rest, s)" rule: complete_frame.cases) auto
  with good_effect_ok [OF ok i complete_good [OF e stack]] show ?thesis by simp
qed

lemma cut_ok:
  assumes ok: "run_ok s" and i: "i < length (gr_tasks s)" "gr_tasks s ! i = f # rest"
    and e: "cut_frame vars f rest s = Some e"
  shows "run_ok (apply_effect i e)"
proof -
  have stack: "stack_ok (f # rest)" using run_okD(1) [OF ok] nth_mem [OF i(1)] unfolding i(2) by blast
  from e obtain n where "f = F_activity n" by (cases "(vars, f, rest, s)" rule: cut_frame.cases) auto
  with good_effect_ok [OF ok i cut_good [OF e stack]] show ?thesis by simp
qed

lemma abort_ok: "run_ok s \<Longrightarrow> run_ok (s\<lparr>gr_aborted := True\<rparr>)"
proof -
  have f: "gr_tasks (s\<lparr>gr_aborted := True\<rparr>) = gr_tasks s" "gr_verdict (s\<lparr>gr_aborted := True\<rparr>) = gr_verdict s"
    "gr_allPassed (s\<lparr>gr_aborted := True\<rparr>) = gr_allPassed s" "gr_states (s\<lparr>gr_aborted := True\<rparr>) = gr_states s"
    "gr_cut (s\<lparr>gr_aborted := True\<rparr>) = gr_cut s" "gr_aborted (s\<lparr>gr_aborted := True\<rparr>)"
    by simp_all
  assume ok: "run_ok s"
  have "balanced (concat (gr_tasks s)) (s\<lparr>gr_aborted := True\<rparr>)"
    using run_okD(2) [OF ok] by (simp only: balanced_def shown_failed_def f) blast
  with ok show "run_ok (s\<lparr>gr_aborted := True\<rparr>)" unfolding run_ok_def finished_def f by blast
qed

interpretation graph_runs: state_machine "graph_next g config" run_ok for g config
proof
  fix s e assume ok: "run_ok s"
  show "run_ok (graph_next g config s e)"
  proof (cases "graph_step g config e s")
    case (Some s')
    have "run_ok s'"
    proof (cases e)
      case (Advance i tk)
      with Some have "top_step (advance_frame g config tk) i s = Some s'" by (simp add: graph_step_def)
      then show ?thesis by (rule top_step_ok) (rule advance_ok [OF ok])
    next
      case (Complete i out)
      with Some have "top_step (complete_frame g out) i s = Some s'" by (simp add: graph_step_def)
      then show ?thesis by (rule top_step_ok) (rule complete_ok [OF ok])
    next
      case (Cut_off i vars)
      with Some have "top_step (cut_frame vars) i s = Some s'" by (simp add: graph_step_def)
      then show ?thesis by (rule top_step_ok) (rule cut_ok [OF ok])
    next
      case Abort
      with abort_ok [OF ok] Some show ?thesis by (simp add: graph_step_def)
    qed
    with Some show ?thesis by (simp add: graph_next_def)
  qed (simp add: graph_next_def ok)
qed

lemma runGraph_ok: "run_ok (runGraph g initial environment)"
  by (auto simp: run_ok_def runGraph_def balanced_def shown_failed_def finished_def main_stack_Cons)

text \<open>C7. The verdict of a workflow is given only when nothing is left running, whatever the order in which
its branches advance, their activities report, stop or throw. A failing verdict means that some node has been
shown as failed. Unless an abort has cut off an activity that was waiting, the converse holds too: the verdict
is a pass if and only if no node has been shown as failed. So a success after a retry, or an error handler
that continues on error, never turns a failure that was shown into a passing run. Only an aborted run may pass
although a node is shown as failed: the waits for a webhook, a Kafka message and a synthetic delay show their
node as failed when they are cut off, and leave the verdict as it was.\<close>

theorem verdict_truthful:
  assumes "gr_verdict (foldl (graph_next g config) (runGraph g initial environment) events) = Some v"
    and "s = foldl (graph_next g config) (runGraph g initial environment) events"
  shows "finished s \<and> (\<not> v \<longrightarrow> (\<exists>n. (n, NS_fail) \<in> set (gr_states s))) \<and>
    (gr_cut s = [] \<longrightarrow> v = (\<not> (\<exists>n. (n, NS_fail) \<in> set (gr_states s)))) \<and>
    (gr_cut s \<noteq> [] \<longrightarrow> gr_aborted s)"
proof -
  have ok: "run_ok s" unfolding assms(2) by (rule graph_runs.run_ok [OF runGraph_ok])
  then have v: "v = gr_allPassed s" "finished s" using assms by (simp_all add: run_ok_def)
  then have none: "concat (gr_tasks s) = []" by (auto simp: finished_def)
  have "balanced [] s" using run_okD(2) [OF ok] unfolding none .
  with v show ?thesis by (auto simp: balanced_def shown_failed_def)
qed

text \<open>An aborted run can pass with a node shown as failed: one that was cut off while it waited.\<close>

theorem cut_off_run_passes:
  assumes "gr_tasks s = [[F_activity n, F_finish n True, F_error_config, F_verdict]]"
    and "gr_allPassed s" and "run = foldl (graph_next g config) s
       [Abort, Cut_off 0 vars, Advance 0 tk, Advance 0 tk, Advance 0 tk]"
  shows "gr_verdict run = Some True \<and> (\<exists>m. (m, NS_fail) \<in> set (gr_states run))"
proof -
  define c where "c = (show_cut n vars (s\<lparr>gr_aborted := True\<rparr>))\<lparr>gr_tasks := [[F_finish n True, F_error_config, F_verdict]]\<rparr>"
  define d where "d = (finish_node n True c)\<lparr>gr_tasks := [[F_error_config, F_verdict]]\<rparr>"
  have cd: "gr_allPassed c" "gr_allPassed d" "shown_failed d"
    using assms(2) show_cut_frame(5) [of n vars "s\<lparr>gr_aborted := True\<rparr>"]
    by (simp_all add: c_def d_def finish_node_def show_cut_frame(4) shown_failed_def)
  have e: "run_error_config g config tk d = ([], d)" using cd(2) by (simp add: run_error_config_def split: option.split)
  have a: "graph_next g config s Abort = s\<lparr>gr_aborted := True\<rparr>" by (simp add: graph_next_def graph_step_def)
  have "graph_next g config (s\<lparr>gr_aborted := True\<rparr>) (Cut_off 0 vars) = c"
    by (simp add: graph_next_def graph_step_def top_step_def apply_effect_def assms(1) show_cut_frame c_def)
  moreover have "graph_next g config c (Advance 0 tk) = d"
    by (simp add: graph_next_def graph_step_def top_step_def apply_effect_def c_def d_def finish_node_def)
  moreover have "graph_next g config d (Advance 0 tk) = d\<lparr>gr_tasks := [[F_verdict]]\<rparr>"
    using e by (simp add: graph_next_def graph_step_def top_step_def apply_effect_def resume_with_def d_def)
  moreover have "graph_next g config (d\<lparr>gr_tasks := [[F_verdict]]\<rparr>) (Advance 0 tk) =
      (close_run g (d\<lparr>gr_tasks := [[F_verdict]]\<rparr>))\<lparr>gr_tasks := [[]]\<rparr>"
    using close_run_frame(1) [of g "d\<lparr>gr_tasks := [[F_verdict]]\<rparr>"]
    by (simp add: graph_next_def graph_step_def top_step_def apply_effect_def core_def)
  ultimately have run: "run = (close_run g (d\<lparr>gr_tasks := [[F_verdict]]\<rparr>))\<lparr>gr_tasks := [[]]\<rparr>"
    unfolding assms(3) by (simp add: a)
  show ?thesis
    using close_run_frame [of g "d\<lparr>gr_tasks := [[F_verdict]]\<rparr>"] cd(2,3) unfolding run
    by (simp add: core_def shown_failed_def)
qed

lemma advance_enabled:
  "advance_frame g config tk f rest s \<noteq> None \<or> (\<exists>n. f = F_activity n) \<or> (\<exists>ids. f = F_all ids)"
  by (cases "(g, config, tk, f, rest, s)" rule: advance_frame.cases) auto

lemma last_open_task:
  assumes "\<not> finished s"
  obtains k f rest where "k < length (gr_tasks s)" "gr_tasks s ! k = f # rest"
    "\<forall>j. k < j \<longrightarrow> j < length (gr_tasks s) \<longrightarrow> gr_tasks s ! j = []"
proof -
  let ?open = "{k. k < length (gr_tasks s) \<and> gr_tasks s ! k \<noteq> []}"
  have ne: "?open \<noteq> {}" using assms by (auto simp: finished_def in_set_conv_nth)
  have fin: "finite ?open" by simp
  from Max_in [OF fin ne] obtain f rest where "Max ?open < length (gr_tasks s)" "gr_tasks s ! Max ?open = f # rest"
    by (auto simp: neq_Nil_conv)
  moreover have "gr_tasks s ! j = []" if "Max ?open < j" "j < length (gr_tasks s)" for j
  proof (rule ccontr)
    assume "gr_tasks s ! j \<noteq> []"
    with that(2) have "j \<in> ?open" by simp
    with that(1) Max_ge [OF fin this] show False by simp
  qed
  ultimately show ?thesis using that by blast
qed

text \<open>C11. No workflow gets stuck, whatever its shape: as long as the verdict has not been given, some task can
go on by itself or waits for an activity that may report.\<close>

theorem run_never_stuck:
  assumes "gr_verdict (foldl (graph_next g config) (runGraph g initial environment) events) = None"
  shows "\<exists>i. graph_step g config (Advance i tk) (foldl (graph_next g config) (runGraph g initial environment) events) \<noteq> None \<or>
    graph_step g config (Complete i out) (foldl (graph_next g config) (runGraph g initial environment) events) \<noteq> None"
proof -
  let ?s = "foldl (graph_next g config) (runGraph g initial environment) events"
  have ok: "run_ok ?s" by (rule graph_runs.run_ok [OF runGraph_ok])
  with assms have "gr_tasks ?s \<noteq> [] \<and> main_stack (gr_tasks ?s ! 0)" by (simp add: run_ok_def)
  then obtain x xs where "gr_tasks ?s ! 0 = x # xs" "0 < length (gr_tasks ?s)"
    by (cases "gr_tasks ?s ! 0") (auto simp: main_stack_def)
  then have "\<not> finished ?s" using unfinished_task by blast
  then obtain k f rest where k: "k < length (gr_tasks ?s)" "gr_tasks ?s ! k = f # rest"
    "\<forall>j. k < j \<longrightarrow> j < length (gr_tasks ?s) \<longrightarrow> gr_tasks ?s ! j = []" by (rule last_open_task)
  consider "advance_frame g config tk f rest ?s \<noteq> None" | n where "f = F_activity n" | ids where "f = F_all ids"
    using advance_enabled by blast
  then show ?thesis
  proof cases
    case 1
    with k(1,2) have "graph_step g config (Advance k tk) ?s \<noteq> None" by (simp add: graph_step_def top_step_def)
    then show ?thesis by blast
  next
    case 2
    with k(1,2) have "graph_step g config (Complete k out) ?s \<noteq> None" by (cases out) (simp_all add: graph_step_def top_step_def)
    then show ?thesis by blast
  next
    case 3
    have "gr_tasks ?s ! j = []" if "j \<in> set ids" for j
      using run_okD(5) [OF ok k(1), of j] k(2,3) 3 that by simp
    with 3 k(1,2) have "graph_step g config (Advance k tk) ?s \<noteq> None"
      by (simp add: graph_step_def top_step_def list_all_iff)
    then show ?thesis by blast
  qed
qed

text \<open>A start node, an HTTP step and an end node; the step reports a failed result.\<close>

definition three_nodes :: wf_graph where
  "three_nodes =
     \<lparr>wg_nodes = [\<lparr>wn_id = ''s'', wn_trigger = True, wn_title = None, wn_data = ND_start []\<rparr>,
        \<lparr>wn_id = ''h'', wn_trigger = False, wn_title = None, wn_data = ND_activity True\<rparr>,
        \<lparr>wn_id = ''e'', wn_trigger = False, wn_title = None, wn_data = ND_end\<rparr>],
      wg_edges = [\<lparr>we_id = ''1'', we_source = ''s'', we_target = ''h'', we_sourceHandle = None, we_label = None\<rparr>,
        \<lparr>we_id = ''2'', we_source = ''h'', we_target = ''e'', we_sourceHandle = None, we_label = None\<rparr>]\<rparr>"

definition still :: tick where
  "still = \<lparr>tk_env = plain_env, tk_late = False, tk_elapsed = ''0''\<rparr>"

definition advances :: "nat \<Rightarrow> graph_event list" where
  "advances k = replicate k (Advance 0 still)"

definition failed_step :: "graph_event list" where
  "failed_step = advances 2 @ [Complete 0 (Done [] [] [] False)] @ advances 12"

lemmas run_eval = still_def advances_def three_nodes_def runGraph_def graph_next_def graph_step_def top_step_def
  apply_effect_def resume_with_def resume_handler_def start_tasks_def visit_def start_handler_def arrive_def begin_node_def
  handleStartNode_def handleForkNode_def handleJoinNode_def handleConditionNode_def Let_def
  nodeMap_def outgoing_def targets_def is_join_def is_http_def findStartNodes_def incomingCount_def end_nodes_def
  state_change_def on_edge_def add_visited_def set_ctx_def set_vars_def expected_of_def arrived_of_def
  run_error_config_def close_run_def finish_node_def record_outcome_def push_results_def throw_node_def step_titles_def List.map_filter_def

theorem run_never_stuck_witness:
  "\<exists>i. graph_step three_nodes None (Advance i still) (runGraph three_nodes [] []) \<noteq> None \<or>
     graph_step three_nodes None (Complete i (Threw [] [] [])) (runGraph three_nodes [] []) \<noteq> None"
proof -
  have "gr_verdict (foldl (graph_next three_nodes None) (runGraph three_nodes [] []) []) = None"
    by (simp add: runGraph_def findStartNodes_def three_nodes_def)
  from run_never_stuck [OF this] show ?thesis by simp
qed

theorem verdict_truthful_witness:
  "gr_verdict (foldl (graph_next three_nodes None) (runGraph three_nodes [] []) failed_step) = Some False \<and>
   finished (foldl (graph_next three_nodes None) (runGraph three_nodes [] []) failed_step) \<and>
   (\<exists>n. (n, NS_fail) \<in> set (gr_states (foldl (graph_next three_nodes None) (runGraph three_nodes [] []) failed_step)))"
proof -
  have v: "gr_verdict (foldl (graph_next three_nodes None) (runGraph three_nodes [] []) failed_step) = Some False"
    by (simp add: failed_step_def run_eval numeral_eq_Suc)
  from verdict_truthful [OF this refl] v show ?thesis by blast
qed

end
