(* ===== verification/Workflow_Join.thy ===== *)
theory Workflow_Join
  imports Workflow_Verdict
begin

text \<open>
  Branches and joins of workflow graphs without loops, error handlers and wait nodes, in which no node is
  run a second time. Every edge into a join is accounted for: its source has not been visited yet, or a task
  still has the visit to make, or it has arrived, or it has been given up by the marking of a branch that is
  not taken. From this follow the barrier a join is, that each node starts at most once, and, with a weight
  that every step lowers, that a run ends after a bounded number of steps. The last section shows what the
  account allows and the runner gets wrong: a branch given up after the others have arrived.
\<close>

section \<open>The account of a run\<close>

definition replay_free :: "wf_graph \<Rightarrow> bool" where
  "replay_free g = list_all (\<lambda>n. case wn_data n of
     ND_loop _ \<Rightarrow> False | ND_errorHandler _ \<Rightarrow> False | ND_wait _ \<Rightarrow> False | _ \<Rightarrow> True) (wg_nodes g)"

text \<open>The edges of a condition have one meaning; triggers, the entry of the error configuration and the
nodes without an edge that leads to them twice are not joins.\<close>

definition well_joined :: "wf_graph \<Rightarrow> error_config option \<Rightarrow> bool" where
  "well_joined g config \<longleftrightarrow>
     (\<forall>e\<in>set (wg_edges g). \<not> (e \<in> set (branch_edges True (wg_edges g)) \<and> e \<in> set (branch_edges False (wg_edges g)))) \<and>
     distinct (map wn_id (wg_nodes g)) \<and> (\<forall>n\<in>set (wg_nodes g). wn_trigger n \<longrightarrow> wn_data n \<noteq> ND_join) \<and>
     (case config of None \<Rightarrow> True | Some c \<Rightarrow> \<not> is_join g (ec_handlerEntryNodeId c))"

fun static_frame :: "frame \<Rightarrow> bool" where
  "static_frame (F_loop n d items it) = False"
| "static_frame (F_loop_next n d items it) = False"
| "static_frame (F_try n d a r) = False"
| "static_frame (F_tried n d a k) = False"
| "static_frame (F_retry_wait n d a r) = False"
| "static_frame (F_poll n d a) = False"
| "static_frame (F_polled n d a) = False"
| "static_frame (F_poll_wait n d a) = False"
| "static_frame f = True"

text \<open>The visits a frame still has to make.\<close>

fun frame_targets :: "wf_graph \<Rightarrow> frame \<Rightarrow> string list" where
  "frame_targets g (F_starts ns) = ns"
| "frame_targets g (F_edges es) = targets es"
| "frame_targets g (F_targets ns) = ns"
| "frame_targets g (F_par ns) = ns"
| "frame_targets g (F_activity n) = targets (outgoing g n)"
| "frame_targets g (F_delay n) = targets (outgoing g n)"
| "frame_targets g f = []"

definition pend :: "wf_graph \<Rightarrow> string \<Rightarrow> frame list \<Rightarrow> nat" where
  "pend g j fs = sum_list (map (\<lambda>f. count_list (frame_targets g f) j) fs)"

definition pending :: "wf_graph \<Rightarrow> graph_run \<Rightarrow> string \<Rightarrow> nat" where
  "pending g s j = sum_list (map (pend g j) (gr_tasks s))"

text \<open>The edges into a node whose source has not been visited.\<close>

definition unvisited_into :: "wf_graph \<Rightarrow> graph_run \<Rightarrow> string \<Rightarrow> nat" where
  "unvisited_into g s j = length (filter (\<lambda>e. we_target e = j \<and> we_source e \<notin> set (gr_visited s)) (wg_edges g))"

definition owed :: "wf_graph \<Rightarrow> string \<Rightarrow> graph_run \<Rightarrow> nat" where
  "owed g j s = arrived_of s j + unvisited_into g s j"

definition edges_to :: "wf_graph \<Rightarrow> string \<Rightarrow> string \<Rightarrow> nat" where
  "edges_to g n j = count_list (targets (outgoing g n)) j"

lemma pend_simps [simp]:
  "pend g j [] = 0" "pend g j (f # fs) = count_list (frame_targets g f) j + pend g j fs"
  "pend g j (fs @ gs) = pend g j fs + pend g j gs"
  by (simp_all add: pend_def)

lemma pend_lower [simp]: "pend g j (lower_flag ok fs) = pend g j fs"
  by (induction ok fs rule: lower_flag.induct) auto

text \<open>What the account reads of the state.\<close>

definition ledger :: "graph_run \<Rightarrow> string list \<times> nat record_bag \<times> nat record_bag" where
  "ledger s = (gr_visited s, gr_arrived s, gr_expected s)"

lemma ledgerD:
  assumes "ledger s' = ledger s"
  shows "gr_visited s' = gr_visited s" "arrived_of s' j = arrived_of s j"
    "expected_of s' j = expected_of s j" "owed g j s' = owed g j s"
  using assms by (simp_all add: ledger_def arrived_of_def expected_of_def owed_def unvisited_into_def)

lemma ledger_updates [simp]:
  "ledger (state_change n st s) = ledger s" "ledger (on_edge e s) = ledger s" "ledger (set_ctx f s) = ledger s"
  "ledger (finish_node n p s) = ledger s" "ledger (throw_node g n s) = ledger s"
  "ledger (record_outcome n rs vs ns ok s) = ledger s" "ledger (s\<lparr>gr_aborted := b\<rparr>) = ledger s"
  "ledger (push_results n rs vs ns s) = ledger s" "ledger (show_cut n vs s) = ledger s"
  by (simp_all add: ledger_def state_change_def on_edge_def set_ctx_def finish_node_def throw_node_def Let_def
      record_outcome_def push_results_def show_cut_def)

lemma started_updates [simp]:
  "gr_started (state_change n st s) = gr_started s" "gr_started (on_edge e s) = gr_started s"
  "gr_started (set_ctx f s) = gr_started s" "gr_started (finish_node n p s) = gr_started s"
  "gr_started (throw_node g n s) = gr_started s" "gr_started (record_outcome n rs vs ns ok s) = gr_started s"
  "gr_started (push_results n rs vs ns s) = gr_started s" "gr_started (show_cut n vs s) = gr_started s"
  by (simp_all add: state_change_def on_edge_def set_ctx_def finish_node_def throw_node_def Let_def record_outcome_def
      push_results_def show_cut_def)

lemma ledger_edges [simp]:
  "ledger (foldl (\<lambda>s e. on_edge e s) s es) = ledger s" "gr_started (foldl (\<lambda>s e. on_edge e s) s es) = gr_started s"
  by (rule foldl_keeps, simp)+

section \<open>Branches given up\<close>

lemma count_filter_le: "count_list (targets (filter P es)) j \<le> count_list (targets es) j"
  by (induction es) (auto simp: targets_def)

lemma count_filter_disjoint:
  "(\<And>e. e \<in> set es \<Longrightarrow> \<not> (P e \<and> Q e)) \<Longrightarrow>
   count_list (targets (filter P es)) j + count_list (targets (filter Q es)) j \<le> count_list (targets es) j"
proof (induction es)
  case (Cons e es)
  then have "\<not> (P e \<and> Q e)" by simp
  with Cons show ?case by (auto simp: targets_def)
qed (simp add: targets_def)

lemma filter_split_len:
  "(\<And>x. Q x \<Longrightarrow> P x) \<Longrightarrow> length (filter P xs) = length (filter Q xs) + length (filter (\<lambda>x. P x \<and> \<not> Q x) xs)"
  by (induction xs) auto

lemma edges_to_length: "edges_to g n j = length (filter (\<lambda>e. we_target e = j \<and> we_source e = n) (wg_edges g))"
proof -
  have c: "count_list (map we_target es) j = length (filter (\<lambda>e. we_target e = j) es)" for es by (induction es) auto
  show ?thesis by (simp add: edges_to_def targets_def outgoing_def c) (simp add: conj_commute)
qed

lemma unvisited_add:
  assumes "n \<notin> set (gr_visited s)"
  shows "unvisited_into g (add_visited n s) j + edges_to g n j = unvisited_into g s j"
proof -
  have split: "length (filter (\<lambda>e. we_target e = j \<and> we_source e \<notin> set (gr_visited s)) (wg_edges g)) =
    length (filter (\<lambda>e. we_target e = j \<and> we_source e = n) (wg_edges g)) +
    length (filter (\<lambda>e. (we_target e = j \<and> we_source e \<notin> set (gr_visited s)) \<and> \<not> (we_target e = j \<and> we_source e = n)) (wg_edges g))"
    using assms by (intro filter_split_len) auto
  have p: "(\<lambda>e. (we_target e = j \<and> we_source e \<notin> set (gr_visited s)) \<and> \<not> (we_target e = j \<and> we_source e = n)) =
    (\<lambda>e. we_target e = j \<and> we_source e \<notin> set (gr_visited (add_visited n s)))"
    by (auto simp: add_visited_def)
  show ?thesis using split unfolding p unvisited_into_def edges_to_length by simp
qed

lemma add_visited_frame [simp]:
  "arrived_of (add_visited n s) j = arrived_of s j" "expected_of (add_visited n s) j = expected_of s j"
  "gr_started (add_visited n s) = gr_started s" "gr_visited (add_visited n s) = n # gr_visited s"
  by (simp_all add: add_visited_def arrived_of_def expected_of_def)

lemma expect_less_frame [simp]:
  "arrived_of (expect_less n s) j = arrived_of s j" "gr_started (expect_less n s) = gr_started s"
  "unvisited_into g (expect_less n s) j = unvisited_into g s j"
  by (simp_all add: expect_less_def arrived_of_def unvisited_into_def)

lemma expected_less: "expected_of (expect_less n s) j = (if j = n \<and> 1 < expected_of s n then expected_of s n - 1 else expected_of s j)"
  by (simp add: expect_less_def expected_of_def rec_get_or_def rec_get_set)


text \<open>Giving up the edges on the stack costs a join no more than it was owed for them.\<close>

definition no_dearer :: "wf_graph \<Rightarrow> string \<Rightarrow> nat \<Rightarrow> graph_run \<Rightarrow> nat \<Rightarrow> graph_run \<Rightarrow> bool" where
  "no_dearer g j k' s' k s \<longleftrightarrow> owed g j s' + k' + expected_of s j \<le> owed g j s + k + expected_of s' j"

lemma no_dearer_trans: "no_dearer g j k1 s1 k s \<Longrightarrow> no_dearer g j k2 s2 k1 s1 \<Longrightarrow> no_dearer g j k2 s2 k s"
  by (simp add: no_dearer_def)

text \<open>Nodes stay visited, arrivals are not taken back, no more of them become expected.\<close>

definition moves_on :: "graph_run \<Rightarrow> graph_run \<Rightarrow> bool" where
  "moves_on s s' \<longleftrightarrow> gr_started s' = gr_started s \<and> set (gr_visited s) \<subseteq> set (gr_visited s') \<and>
     (\<forall>j. arrived_of s j \<le> arrived_of s' j \<and> expected_of s' j \<le> expected_of s j)"

lemma moves_on_trans: "moves_on s s1 \<Longrightarrow> moves_on s1 s2 \<Longrightarrow> moves_on s s2"
  unfolding moves_on_def by (metis order_trans)

lemma moves_on_ledger: "ledger s' = ledger s \<Longrightarrow> gr_started s' = gr_started s \<Longrightarrow> moves_on s s'"
  using ledgerD [of s' s] by (simp add: moves_on_def)

lemma moves_on_less: "moves_on s (expect_less n s)"
  by (auto simp: moves_on_def expected_less)

lemma moves_on_skip: "moves_on s (skip_all g ns s)"
proof (induction g ns s rule: skip_all.induct)
  case (2 g n ns s)
  have "moves_on s (state_change n NS_skipped (add_visited n s))"
    using ledgerD [of "state_change n NS_skipped (add_visited n s)" "add_visited n s"] by (auto simp: moves_on_def)
  with 2 moves_on_less [of s n] show ?case by (auto intro: moves_on_trans)
qed (simp add: moves_on_def)

lemma mark_simps:
  "markSubtreesSkipped g [] s = s" "markSubtreesSkipped g (e # es) s = markSubtreesSkipped g es (skip_all g [we_target e] s)"
  by (simp_all add: markSubtreesSkipped_def del: skip_all.simps)

lemma moves_on_mark: "moves_on s (markSubtreesSkipped g es s)"
  by (induction es arbitrary: s)
    (auto simp: mark_simps moves_on_ledger simp del: skip_all.simps intro: moves_on_trans [OF moves_on_skip])

lemma no_dearer_more: "no_dearer g j k' s' k s \<Longrightarrow> no_dearer g j (k' + m) s' (k + m) s"
  by (simp add: no_dearer_def)

lemma no_dearer_ledger: "ledger s' = ledger s \<Longrightarrow> k' \<le> k \<Longrightarrow> no_dearer g j k' s' k s"
  using ledgerD [of s' s] by (simp add: no_dearer_def)

lemma no_dearer_expect: "n = j \<Longrightarrow> no_dearer g j 0 (expect_less n s) 1 s" "n \<noteq> j \<Longrightarrow> no_dearer g j 0 (expect_less n s) 0 s"
  by (auto simp: no_dearer_def owed_def expected_less)

lemma no_dearer_visit:
  "n \<notin> set (gr_visited s) \<Longrightarrow> ledger s' = ledger (add_visited n s) \<Longrightarrow> no_dearer g j (edges_to g n j) s' 0 s"
  using unvisited_add [of n s g j] ledgerD [of s' "add_visited n s"]
  by (auto simp: no_dearer_def owed_def unvisited_into_def)

lemma skip_all_account:
  assumes "is_join g j"
  shows "no_dearer g j 0 (skip_all g ns s) (count_list ns j) s"
  using assms
proof (induction g ns s rule: skip_all.induct)
  case (1 g s)
  show ?case by (simp add: no_dearer_def)
next
  case (2 g n ns s)
  let ?c = "count_list ns j"
  have less: "no_dearer g j ?c (expect_less n s) (count_list (n # ns) j) s"
  proof -
    have "no_dearer g j 0 (expect_less n s) (if n = j then 1 else 0) s" using no_dearer_expect by simp
    from no_dearer_more [OF this, of ?c] show ?thesis by (simp split: if_splits)
  qed
  show ?case
  proof (cases "is_join g n \<or> 1 < expected_of s n")
    case True
    then have "skip_all g (n # ns) s = skip_all g ns (expect_less n s)" by auto
    moreover have "no_dearer g j 0 (skip_all g ns (expect_less n s)) ?c (expect_less n s)"
      using True 2(1) [OF _ 2(5)] 2(2) [OF _ _ 2(5)] by blast
    ultimately show ?thesis using no_dearer_trans [OF less] by simp
  next
    case False
    then have "n \<noteq> j" using 2(5) by blast
    show ?thesis
    proof (cases "n \<in> set (gr_visited s)")
      case True
      with False 2(3) [OF _ _ True 2(5)] \<open>n \<noteq> j\<close> show ?thesis by simp
    next
      case new: False
      let ?s = "state_change n NS_skipped (add_visited n s)"
      have "no_dearer g j (edges_to g n j + ?c) ?s (0 + ?c) s"
        by (rule no_dearer_more [OF no_dearer_visit [OF new]]) simp
      then have step: "no_dearer g j (count_list (targets (outgoing g n) @ ns) j) ?s (count_list (n # ns) j) s"
        using \<open>n \<noteq> j\<close> by (simp add: edges_to_def)
      with False new 2(4) [OF _ _ new 2(5)] no_dearer_trans [OF step] show ?thesis by simp
    qed
  qed
qed

lemma mark_account:
  assumes "is_join g j"
  shows "no_dearer g j 0 (markSubtreesSkipped g es s) (count_list (targets es) j) s"
proof (induction es arbitrary: s)
  case Nil
  show ?case by (simp add: markSubtreesSkipped_def no_dearer_def)
next
  case (Cons e es)
  let ?s = "skip_all g [we_target e] s"
  from no_dearer_more [OF skip_all_account [OF assms, of "[we_target e]" s], of "count_list (targets es) j"]
  have m: "no_dearer g j (count_list (targets es) j) ?s (count_list (targets (e # es)) j) s"
    by (simp add: targets_def split: if_splits)
  show ?case unfolding mark_simps using no_dearer_trans [OF m] Cons.IH [of ?s] by simp
qed


section \<open>Visits\<close>

definition decided :: "wf_graph \<Rightarrow> bool" where
  "decided g \<longleftrightarrow> (\<forall>e\<in>set (wg_edges g). \<not> (e \<in> set (branch_edges True (wg_edges g)) \<and> e \<in> set (branch_edges False (wg_edges g))))"

lemma branches_disjoint:
  assumes "decided g"
  shows "count_list (targets (branch_edges b (outgoing g n))) j + count_list (targets (branch_edges (\<not> b) (outgoing g n))) j
    \<le> edges_to g n j"
  unfolding edges_to_def branch_edges_def
  by (rule count_filter_disjoint) (use assms in \<open>auto simp: decided_def branch_edges_def outgoing_def split: if_splits\<close>)

definition account :: "wf_graph \<Rightarrow> frame list \<times> graph_run \<Rightarrow> string \<Rightarrow> graph_run \<Rightarrow> bool" where
  "account g r n s \<longleftrightarrow> list_all static_frame (fst r) \<and> moves_on s (snd r) \<and>
     (\<forall>j. is_join g j \<longrightarrow> no_dearer g j (pend g j (fst r)) (snd r) (edges_to g n j) s)"

lemma account_ledger:
  "list_all static_frame fs \<Longrightarrow> (\<And>j. pend g j fs \<le> edges_to g n j) \<Longrightarrow> ledger s' = ledger s \<Longrightarrow>
   gr_started s' = gr_started s \<Longrightarrow> account g (fs, s') n s"
  by (auto simp: account_def intro: moves_on_ledger no_dearer_ledger)

text \<open>A node that takes some of its edges and gives up others.\<close>

lemma account_choice:
  assumes "list_all static_frame fs" "ledger s1 = ledger s" "gr_started s1 = gr_started s"
    "ledger s' = ledger (markSubtreesSkipped g skipped s1)" "gr_started s' = gr_started (markSubtreesSkipped g skipped s1)"
    "\<And>j. pend g j fs + count_list (targets skipped) j \<le> edges_to g n j"
  shows "account g (fs, s') n s"
proof -
  have "moves_on s s'"
    using moves_on_trans [OF moves_on_ledger [OF assms(2,3)] moves_on_trans [OF moves_on_mark moves_on_ledger [OF assms(4,5)]]] .
  moreover have "no_dearer g j (pend g j fs) s' (edges_to g n j) s" if j: "is_join g j" for j
  proof -
    have "no_dearer g j (0 + pend g j fs) (markSubtreesSkipped g skipped s1) (count_list (targets skipped) j + pend g j fs) s1"
      by (rule no_dearer_more [OF mark_account [OF j]])
    moreover have "no_dearer g j (count_list (targets skipped) j + pend g j fs) s1 (edges_to g n j) s"
      using assms(2,6) by (intro no_dearer_ledger) (simp_all add: add.commute)
    ultimately show ?thesis
      using no_dearer_ledger [OF assms(4) le_refl, of g j "pend g j fs"] by (metis add_0 no_dearer_trans)
  qed
  ultimately show ?thesis using assms(1) by (simp add: account_def)
qed

lemma pend_condition [simp]: "pend g j (condition_frames es) = count_list (targets es) j"
  by (simp add: condition_frames_def)

lemma static_condition [simp]: "list_all static_frame (condition_frames es)"
  by (simp add: condition_frames_def)

lemma start_handler_account:
  assumes g: "replay_free g" "decided g" and nd: "nd \<in> set (wg_nodes g)" "wn_id nd = n"
  shows "account g (start_handler g tk nd s) n s"
proof (cases "wn_data nd")
  case (ND_condition l op r)
  then show ?thesis
    using nd(2) branches_disjoint [OF g(2)]
    by (auto simp: start_handler_def handleConditionNode_def Let_def intro!: account_choice [of _ "state_change n NS_pass s"])
next
  case (ND_switch expression cases)
  have "count_list (targets (by_handle h (outgoing g n))) j +
      count_list (targets (filter (\<lambda>e. we_sourceHandle e \<noteq> Some h) (outgoing g n))) j \<le> edges_to g n j" for h j
    unfolding edges_to_def by_handle_def by (rule count_filter_disjoint) simp
  with ND_switch nd(2) show ?thesis
    by (auto simp: start_handler_def handleSwitchNode_def Let_def intro!: account_choice [of _ "state_change n NS_pass s"])
qed (use g(1) nd in \<open>auto simp: start_handler_def handleStartNode_def handleForkNode_def handleJoinNode_def
    handleSetVariableNode_def edges_to_def replay_free_def list_all_iff intro!: account_ledger\<close>)

text \<open>What has been started is visited, is started once, and if it is a join nothing more is expected there.\<close>

definition fair :: "wf_graph \<Rightarrow> graph_run \<Rightarrow> bool" where
  "fair g s \<longleftrightarrow> distinct (gr_started s) \<and> set (gr_started s) \<subseteq> set (gr_visited s) \<and>
     (\<forall>j\<in>set (gr_started s). is_join g j \<longrightarrow> expected_of s j \<le> arrived_of s j)"

lemma fair_moves: "fair g s \<Longrightarrow> moves_on s s' \<Longrightarrow> fair g s'"
  unfolding fair_def moves_on_def by (metis order_trans)

lemma arrive_account:
  assumes "arrive g n s = (ready, s')"
  shows "moves_on s s'" "is_join g j \<Longrightarrow> no_dearer g j 0 s' (if n = j then 1 else 0) s"
    "gr_visited s' = gr_visited s" "ready \<Longrightarrow> is_join g n \<Longrightarrow> expected_of s' n \<le> arrived_of s' n"
proof -
  let ?s = "s\<lparr>gr_arrived := rec_set (gr_arrived s) n (Suc (arrived_of s n))\<rparr>"
  have a: "arrived_of ?s k = (if k = n then Suc (arrived_of s n) else arrived_of s k)" "expected_of ?s k = expected_of s k"
    "unvisited_into g ?s k = unvisited_into g s k" "gr_visited ?s = gr_visited s" "gr_started ?s = gr_started s" for k
    by (simp_all add: arrived_of_def expected_of_def unvisited_into_def)
  have l: "ledger s' = ledger (if is_join g n then ?s else s)" "gr_started s' = gr_started s"
    using assms by (auto simp: arrive_def Let_def split: if_splits)
  note d = ledgerD [OF l(1)]
  show "moves_on s s'" using d l(2) a by (auto simp: moves_on_def)
  show "is_join g j \<Longrightarrow> no_dearer g j 0 s' (if n = j then 1 else 0) s" using d a by (auto simp: no_dearer_def owed_def)
  show "gr_visited s' = gr_visited s" using d(1) a(4) by simp
  show "ready \<Longrightarrow> is_join g n \<Longrightarrow> expected_of s' n \<le> arrived_of s' n"
    using assms d a by (auto simp: arrive_def Let_def split: if_splits)
qed

lemma visit_account:
  assumes g: "replay_free g" "decided g" and v: "visit g tk n s = (fs, s')"
  shows "list_all static_frame fs" "is_join g j \<Longrightarrow> no_dearer g j (pend g j fs) s' (if n = j then 1 else 0) s"
    "fair g s \<Longrightarrow> fair g s'"
proof -
  have "list_all static_frame fs \<and> (is_join g j \<longrightarrow> no_dearer g j (pend g j fs) s' (if n = j then 1 else 0) s) \<and>
    (fair g s \<longrightarrow> fair g s')"
  proof (cases "gr_aborted s \<or> nodeMap g n = None")
    case True
    with v show ?thesis by (auto simp: visit_def no_dearer_def split: if_splits)
  next
    case False
    then obtain nd where nd: "nodeMap g n = Some nd" by auto
    obtain ready s1 where a: "arrive g n s = (ready, s1)" by fastforce
    note aa = arrive_account [OF a]
    show ?thesis
    proof (cases "\<not> ready \<or> n \<in> set (gr_visited s1)")
      case True
      with v False nd a have "fs = []" "s' = s1" by (auto simp: visit_def)
      with aa(2) [of j] fair_moves [OF _ aa(1)] show ?thesis by simp
    next
      case started: False
      let ?b = "begin_node n s1"
      obtain hs s2 where h: "start_handler g tk nd ?b = (hs, s2)" by fastforce
      with v False nd a started have r: "fs = hs @ [F_finish n (gr_allPassed s1)]" "s' = s2" by (auto simp: visit_def)
      have l: "ledger ?b = ledger (add_visited n s1)" by (simp add: ledger_def begin_node_def state_change_def)
      have acc: "account g (hs, s2) n ?b"
        using start_handler_account [OF g, of nd n tk ?b] nodeMap_Some [OF nd] h by simp
      have "no_dearer g j (pend g j fs) s' (if n = j then 1 else 0) s" if j: "is_join g j"
      proof -
        have "no_dearer g j (edges_to g n j) ?b (if n = j then 1 else 0) s"
          using no_dearer_trans [OF aa(2) [OF j] no_dearer_visit [OF _ l]] started by simp
        from no_dearer_trans [OF this] acc j r show ?thesis by (simp add: account_def)
      qed
      moreover have "fair g s'" if "fair g s"
      proof -
        have "fair g ?b" using fair_moves [OF that aa(1)] started aa(4) ledgerD [OF l]
          by (auto simp: fair_def begin_node_def)
        then show ?thesis using acc r(2) fair_moves by (auto simp: account_def)
      qed
      ultimately show ?thesis using acc r(1) by (auto simp: account_def)
    qed
  qed
  then show "list_all static_frame fs" "is_join g j \<Longrightarrow> no_dearer g j (pend g j fs) s' (if n = j then 1 else 0) s"
    "fair g s \<Longrightarrow> fair g s'" by blast+
qed

lemma visit_all_account:
  assumes g: "replay_free g" "decided g"
  shows "visit_all g tk ns s = (fss, s') \<Longrightarrow>
    list_all (list_all static_frame) fss \<and> (is_join g j \<longrightarrow> no_dearer g j (pend g j (concat fss)) s' (count_list ns j) s) \<and>
    (fair g s \<longrightarrow> fair g s')"
proof (induction ns arbitrary: s fss s')
  case Nil
  then show ?case by (simp add: no_dearer_def)
next
  case (Cons n ns)
  obtain fs s1 where v: "visit g tk n s = (fs, s1)" by fastforce
  obtain gss s2 where w: "visit_all g tk ns s1 = (gss, s2)" by fastforce
  note va = visit_account [OF g v]
  have "no_dearer g j (pend g j (concat (fs # gss))) s2 (count_list (n # ns) j) s" if j: "is_join g j"
    using va(2) [OF j] Cons.IH [OF w] j by (auto simp: no_dearer_def split: if_splits)
  with va Cons.IH [OF w] Cons.prems v w show ?case by auto
qed


section \<open>Steps\<close>

definition effect_account :: "wf_graph \<Rightarrow> frame \<Rightarrow> frame list \<Rightarrow> graph_run \<Rightarrow> effect \<Rightarrow> bool" where
  "effect_account g f rest s e = (case e of (fs, rest', fss, s') \<Rightarrow>
     list_all static_frame (fs @ rest') \<and> list_all (list_all static_frame) fss \<and> gr_tasks s' = gr_tasks s \<and>
     (fair g s \<longrightarrow> fair g s') \<and>
     (\<forall>j. is_join g j \<longrightarrow> no_dearer g j (pend g j (fs @ rest') + pend g j (concat fss)) s' (pend g j (f # rest)) s))"

lemma fair_ledger: "ledger s' = ledger s \<Longrightarrow> gr_started s' = gr_started s \<Longrightarrow> fair g s \<Longrightarrow> fair g s'"
  by (rule fair_moves [OF _ moves_on_ledger])

lemma effect_account_ledger:
  assumes "list_all static_frame (fs @ rest')" "gr_tasks s' = gr_tasks s" "ledger s' = ledger s" "gr_started s' = gr_started s"
    "\<And>j. pend g j (fs @ rest') \<le> pend g j (f # rest)"
  shows "effect_account g f rest s (fs, rest', [], s')"
  using assms fair_ledger [OF assms(3,4), of g] no_dearer_ledger [OF assms(3) assms(5)] by (auto simp: effect_account_def)

lemma no_dearer_same: "ledger s0 = ledger s \<Longrightarrow> no_dearer g j k' s' k s0 = no_dearer g j k' s' k s"
  using ledgerD [of s0 s] by (simp add: no_dearer_def)

lemma resume_visit_account:
  assumes g: "replay_free g" "decided g"
    and s0: "core s0 = core s" "ledger s0 = ledger s" "gr_started s0 = gr_started s"
    and next_frames: "list_all static_frame (next_frames @ rest)"
      "\<And>j. is_join g j \<Longrightarrow> pend g j next_frames + (if n = j then 1 else 0) \<le> count_list (frame_targets g f) j"
  shows "effect_account g f rest s (resume_with next_frames rest (visit g tk n s0))"
proof -
  obtain fs s' where v: "visit g tk n s0 = (fs, s')" by fastforce
  note a = visit_account [OF g v]
  have t: "gr_tasks s' = gr_tasks s" using visit_frame [OF v] s0(1) by (simp add: core_def)
  have "no_dearer g j (pend g j (fs @ next_frames @ rest)) s' (pend g j (f # rest)) s" if j: "is_join g j" for j
    using a(2) [OF j] next_frames(2) [OF j] unfolding no_dearer_same [OF s0(2)] by (simp add: no_dearer_def)
  then show ?thesis
    using a(1,3) fair_ledger [OF s0(2,3)] next_frames(1) t by (simp add: effect_account_def resume_with_def v add.assoc)
qed

lemma close_run_ledger: "ledger (close_run g s) = ledger s" "gr_started (close_run g s) = gr_started s"
proof -
  let ?h = "\<lambda>s n. if n \<in> set (gr_visited s) then s else state_change n (if gr_allPassed s then NS_pass else NS_fail) s"
  have "ledger (foldl ?h s ns) = ledger s" "gr_started (foldl ?h s ns) = gr_started s" for ns
    by (rule foldl_keeps, simp)+
  then show "ledger (close_run g s) = ledger s" "gr_started (close_run g s) = gr_started s"
    by (simp_all add: close_run_def ledger_def)
qed

lemma start_tasks_account:
  assumes g: "replay_free g" "decided g" and v: "visit_all g tk ns s = (fss, s')" and rest: "list_all static_frame rest"
  shows "effect_account g (F_par ns) rest s (start_tasks rest (fss, s'))"
proof -
  have "gr_tasks s' = gr_tasks s" using visit_all_frame [OF v] by (simp add: core_def)
  moreover have "no_dearer g j (pend g j rest + pend g j (concat fss)) s' (count_list ns j + pend g j rest) s"
    if "is_join g j" for j
    using visit_all_account [OF g v, of j] that by (simp add: no_dearer_def)
  ultimately show ?thesis
    using visit_all_account [OF g v] rest by (simp add: effect_account_def start_tasks_def Let_def)
qed

lemma well_joinedD: "well_joined g config \<Longrightarrow> decided g"
  by (simp add: well_joined_def decided_def)

lemma error_config_account:
  assumes g: "replay_free g" "well_joined g config" and rest: "list_all static_frame rest"
  shows "effect_account g F_error_config rest s (resume_with [] rest (run_error_config g config tk s))"
proof (cases "\<exists>c s0. config = Some c \<and> run_error_config g config tk s = visit g tk (ec_handlerEntryNodeId c) s0 \<and>
    core s0 = core s \<and> ledger s0 = ledger s \<and> gr_started s0 = gr_started s")
  case True
  then obtain c s0 where c: "config = Some c" "run_error_config g config tk s = visit g tk (ec_handlerEntryNodeId c) s0"
    "core s0 = core s" "ledger s0 = ledger s" "gr_started s0 = gr_started s" by blast
  have "\<not> is_join g (ec_handlerEntryNodeId c)" using g(2) c(1) by (simp add: well_joined_def)
  then show ?thesis
    unfolding c(2) using c(3-5) rest by (intro resume_visit_account g(1) well_joinedD [OF g(2)]) auto
next
  case False
  then have "run_error_config g config tk s = ([], s)"
    by (force simp: run_error_config_def Let_def run_frame split: option.splits if_splits)
  with rest show ?thesis by (auto simp: resume_with_def intro!: effect_account_ledger)
qed


lemma tasks_updates [simp]:
  "gr_tasks (finish_node n p s) = gr_tasks s" "gr_tasks (state_change n st s) = gr_tasks s"
  by (simp_all add: finish_node_def state_change_def)

lemma advance_account:
  assumes g: "replay_free g" "well_joined g config"
    and e: "advance_frame g config tk f rest s = Some e" and st: "list_all static_frame (f # rest)"
  shows "effect_account g f rest s e"
proof -
  note v = resume_visit_account [OF g(1) well_joinedD [OF g(2)]]
  show ?thesis
  proof (cases f)
    case (F_starts ns)
    with e st show ?thesis by (cases ns) (auto intro!: effect_account_ledger v split: if_splits)
  next
    case F_error_config
    with e st error_config_account [OF g, of rest s tk] show ?thesis by auto
  next
    case F_verdict
    have "gr_tasks (close_run g s) = gr_tasks s" using close_run_frame(1) [of g s] by (simp add: core_def)
    with F_verdict e st show ?thesis by (auto intro!: effect_account_ledger close_run_ledger)
  next
    case (F_edges es)
    with e st show ?thesis by (cases es) (auto simp: run_frame targets_def intro!: effect_account_ledger v)
  next
    case (F_targets ns)
    with e st show ?thesis by (cases ns) (auto intro!: effect_account_ledger v)
  next
    case (F_par ns)
    obtain fss s' where "visit_all g tk ns s = (fss, s')" by fastforce
    with start_tasks_account [OF g(1) well_joinedD [OF g(2)] this, of rest] F_par e st show ?thesis by auto
  next
    case (F_delay n)
    with e st show ?thesis by (auto intro!: effect_account_ledger)
  qed (use e st in \<open>auto intro!: effect_account_ledger split: if_splits\<close>)
qed

lemma static_lower [simp]: "list_all static_frame (lower_flag ok fs) = list_all static_frame fs"
  by (induction ok fs rule: lower_flag.induct) auto

lemma static_tl: "list_all static_frame fs \<Longrightarrow> list_all static_frame (tl fs)" "pend g j (tl fs) \<le> pend g j fs"
  by (cases fs; simp)+

lemma complete_account:
  assumes "complete_frame g out f rest s = Some e" "list_all static_frame (f # rest)"
  shows "effect_account g f rest s e"
proof -
  from assms obtain n where f: "f = F_activity n" by (cases "(g, out, f, rest, s)" rule: complete_frame.cases) auto
  have t: "gr_tasks (record_outcome n rs vs ns ok s) = gr_tasks s" "gr_tasks (push_results n rs vs ns s) = gr_tasks s" for rs vs ns ok
    by (simp_all add: record_outcome_def push_results_def state_change_def set_ctx_def)
  show ?thesis
  proof (cases out)
    case (Threw rs vars nodeVars)
    with assms f t static_tl(1) [of rest] static_tl(2) [of g _ rest] show ?thesis
      by (auto intro!: effect_account_ledger intro: le_trans simp: throw_frame trans_le_add2)
  qed (use assms f t in \<open>auto intro!: effect_account_ledger\<close>)
qed

lemma cut_account:
  assumes "cut_frame vars f rest s = Some e" "list_all static_frame (f # rest)"
  shows "effect_account g f rest s e"
proof -
  from assms obtain n where f: "f = F_activity n" by (cases "(vars, f, rest, s)" rule: cut_frame.cases) auto
  with assms show ?thesis by (auto intro!: effect_account_ledger simp: show_cut_frame split: if_splits)
qed

section \<open>The account is kept\<close>

definition account_ok :: "wf_graph \<Rightarrow> error_config option \<Rightarrow> graph_run \<Rightarrow> bool" where
  "account_ok g config s \<longleftrightarrow> replay_free g \<and> well_joined g config \<and> list_all (list_all static_frame) (gr_tasks s) \<and>
     fair g s \<and> (\<forall>j. is_join g j \<longrightarrow> owed g j s + pending g s j \<le> expected_of s j)"

lemma pend_concat: "pend g j (concat fss) = sum_list (map (pend g j) fss)"
  by (induction fss) simp_all

lemma sum_tasks_update:
  fixes w :: "'a \<Rightarrow> nat"
  assumes "i < length ts"
  shows "sum_list (map w ((ts @ fss)[i := x])) + w (ts ! i) = sum_list (map w ts) + sum_list (map w fss) + w x"
proof -
  have "w (ts ! i) \<le> sum_list (map w ts)"
    using assms member_le_sum_list [of "w (ts ! i)" "map w ts"] by simp
  with assms show ?thesis by (simp add: map_update sum_list_update list_update_append1)
qed

lemma effect_account_ok:
  assumes ok: "account_ok g config s" and i: "i < length (gr_tasks s)" "gr_tasks s ! i = f # rest"
    and e: "effect_account g f rest s e"
  shows "account_ok g config (apply_effect i e)"
proof -
  obtain fs rest' fss s' where e': "e = (fs, rest', fss, s')" by (cases e)
  let ?s = "apply_effect i e"
  note a = e [unfolded effect_account_def e', simplified]
  have t: "gr_tasks ?s = (gr_tasks s @ fss)[i := fs @ rest']" using a by (simp add: apply_effect_def e')
  have l: "ledger ?s = ledger s'" "gr_started ?s = gr_started s'" by (simp_all add: apply_effect_def e' ledger_def)
  have "list_all (list_all static_frame) (gr_tasks ?s)"
    unfolding t list_all_iff
  proof
    fix x assume "x \<in> set ((gr_tasks s @ fss)[i := fs @ rest'])"
    then have "x = fs @ rest' \<or> x \<in> set (gr_tasks s) \<or> x \<in> set fss"
      using set_update_subset_insert [of "gr_tasks s @ fss" i "fs @ rest'"] by auto
    with ok a show "\<forall>f\<in>set x. static_frame f" by (auto simp: account_ok_def list_all_iff)
  qed
  moreover have "fair g ?s" using ok a fair_ledger [OF l] by (simp add: account_ok_def)
  moreover have "owed g j ?s + pending g ?s j \<le> expected_of ?s j" if j: "is_join g j" for j
  proof -
    have "owed g j s + pending g s j \<le> expected_of s j" using ok j by (simp add: account_ok_def)
    moreover have "no_dearer g j (pend g j fs + pend g j rest' + pend g j (concat fss)) ?s (pend g j (f # rest)) s"
      using a j ledgerD [OF l(1)] by (simp add: no_dearer_def)
    moreover have "pending g ?s j + pend g j (f # rest) = pending g s j + pend g j (concat fss) + pend g j (fs @ rest')"
      using sum_tasks_update [OF i(1), of "pend g j" fss "fs @ rest'"] unfolding pending_def t i(2) by (simp add: pend_concat)
    ultimately show ?thesis by (simp add: no_dearer_def)
  qed
  ultimately show ?thesis using ok by (simp add: account_ok_def)
qed

lemma account_frames: "account_ok g config s \<Longrightarrow> i < length (gr_tasks s) \<Longrightarrow> list_all static_frame (gr_tasks s ! i)"
  by (auto simp: account_ok_def list_all_length)

lemma account_aborted: "account_ok g config (s\<lparr>gr_aborted := b\<rparr>) = account_ok g config s"
  using ledgerD [of "s\<lparr>gr_aborted := b\<rparr>" s] by (simp add: account_ok_def fair_def pending_def)

interpretation account_runs: state_machine "graph_next g config" "account_ok g config" for g config
proof
  fix s e assume ok: "account_ok g config s"
  then have g: "replay_free g" "well_joined g config" by (simp_all add: account_ok_def)
  show "account_ok g config (graph_next g config s e)"
  proof (cases "graph_step g config e s")
    case (Some s')
    have "account_ok g config s'"
    proof (cases e)
      case (Advance i tk)
      with Some show ?thesis
        by (auto simp: graph_step_def top_step_def split: if_splits list.splits
            intro!: effect_account_ok [OF ok] advance_account [OF g] dest: account_frames [OF ok])
    next
      case (Complete i out)
      with Some show ?thesis
        by (auto simp: graph_step_def top_step_def split: if_splits list.splits
            intro!: effect_account_ok [OF ok] complete_account dest: account_frames [OF ok])
    next
      case (Cut_off i vars)
      with Some show ?thesis
        by (auto simp: graph_step_def top_step_def split: if_splits list.splits
            intro!: effect_account_ok [OF ok] cut_account dest: account_frames [OF ok])
    next
      case Abort
      with account_aborted [of g config True s] ok Some show ?thesis by (simp add: graph_step_def)
    qed
    with Some show ?thesis by (simp add: graph_next_def)
  qed (simp add: graph_next_def ok)
qed


lemma incoming_count:
  "rec_get (foldl (\<lambda>m e. rec_set m (we_target e) (rec_get_or 0 m (we_target e) + 1)) m es) j =
     (if filter (\<lambda>e. we_target e = j) es = [] then rec_get m j
      else Some (rec_get_or 0 m j + length (filter (\<lambda>e. we_target e = j) es)))"
  by (induction es arbitrary: m) (auto simp: rec_get_or_def)

lemma count_distinct: "distinct xs \<Longrightarrow> count_list xs x \<le> 1"
  by (induction xs) auto

lemma trigger_no_join:
  assumes "well_joined g config" "is_join g j" "n \<in> set (wg_nodes g)" "wn_trigger n"
  shows "wn_id n \<noteq> j"
proof
  assume "wn_id n = j"
  obtain m where m: "nodeMap g j = Some m" "wn_data m = ND_join" using assms(2) by (auto simp: is_join_def split: option.splits)
  then have "m \<in> set (wg_nodes g)" "wn_id m = wn_id n" using nodeMap_Some \<open>wn_id n = j\<close> by blast+
  with assms(1,3) have "m = n" by (auto simp: well_joined_def distinct_map dest: inj_onD)
  with m(2) assms show False by (auto simp: well_joined_def)
qed

lemma runGraph_account:
  assumes g: "replay_free g" "well_joined g config"
  shows "account_ok g config (runGraph g initial environment)"
proof -
  let ?s = "runGraph g initial environment" and ?in = "\<lambda>j. filter (\<lambda>e. we_target e = j) (wg_edges g)"
  have "owed g j ?s + pending g ?s j \<le> expected_of ?s j" if j: "is_join g j" for j
  proof -
    have "rec_get (incomingCount g) j = (if ?in j = [] then None else Some (length (?in j)))"
      unfolding incomingCount_def incoming_count by simp
    then have e: "expected_of ?s j = (if ?in j = [] then 1 else length (?in j))"
      by (simp add: expected_of_def runGraph_def rec_get_or_def)
    have o: "owed g j ?s = length (?in j)"
      by (simp add: owed_def arrived_of_def runGraph_def unvisited_into_def)
    have p: "pending g ?s j \<le> count_list (findStartNodes g) j" by (simp add: pending_def runGraph_def)
    have "count_list (findStartNodes g) j \<le> (if ?in j = [] then 1 else 0)"
    proof (cases "filter wn_trigger (wg_nodes g) = []")
      case True
      then have f: "findStartNodes g = map wn_id (filter (\<lambda>n. wn_id n \<notin> set (targets (wg_edges g))) (wg_nodes g))"
        by (simp add: findStartNodes_def)
      have "count_list (findStartNodes g) j \<le> 1"
        unfolding f by (rule count_distinct) (use g(2) in \<open>simp add: well_joined_def distinct_map_filter\<close>)
      moreover have "j \<notin> set (findStartNodes g)" if "?in j \<noteq> []"
      proof -
        from that obtain e where "e \<in> set (wg_edges g)" "we_target e = j" by (auto simp: filter_empty_conv)
        then have "j \<in> set (targets (wg_edges g))" by (auto simp: targets_def)
        then show ?thesis unfolding f by auto
      qed
      ultimately show ?thesis by (auto simp: count_list_0_iff)
    next
      case False
      then have "findStartNodes g = map wn_id (filter wn_trigger (wg_nodes g))" by (simp add: findStartNodes_def)
      then have "j \<notin> set (findStartNodes g)" using trigger_no_join [OF g(2) j] by auto
      then show ?thesis by (simp add: count_list_0_iff)
    qed
    with e o p show ?thesis by (auto split: if_splits)
  qed
  with g show ?thesis by (auto simp: account_ok_def runGraph_def fair_def)
qed

text \<open>C8. A join is a barrier: in a graph without loops, error handlers and wait nodes, once a join has
started, whatever the order of the branches, every node with an edge into it has been visited or given up,
and no task is left that would still arrive at it. The graph must also be well joined: node ids are
distinct, no edge is both the true and the false branch of a node, no join is marked as a trigger, and the
entry of the run's error handler, where there is one, is not a join. The last condition is needed: the
jump to the handler's entry counts as one more arrival, so a join there can start although one of its
branches has never come to it.\<close>

theorem join_waits_for_all:
  assumes "replay_free g" "well_joined g config" "is_join g j"
    and "j \<in> set (gr_started (foldl (graph_next g config) (runGraph g initial environment) events))"
  shows "(\<forall>e\<in>set (wg_edges g). we_target e = j \<longrightarrow>
      we_source e \<in> set (gr_visited (foldl (graph_next g config) (runGraph g initial environment) events))) \<and>
    pending g (foldl (graph_next g config) (runGraph g initial environment) events) j = 0"
proof -
  let ?s = "foldl (graph_next g config) (runGraph g initial environment) events"
  have ok: "account_ok g config ?s" by (rule account_runs.run_ok [OF runGraph_account [OF assms(1,2)]])
  then have "expected_of ?s j \<le> arrived_of ?s j" "owed g j ?s + pending g ?s j \<le> expected_of ?s j"
    using assms(3,4) by (simp_all add: account_ok_def fair_def)
  then have "unvisited_into g ?s j = 0" "pending g ?s j = 0" by (simp_all add: owed_def)
  then show ?thesis by (auto simp: unvisited_into_def filter_empty_conv)
qed

text \<open>C9. In a graph without loops, error handlers and wait nodes no node is started twice, whichever
branches lead to it and in whatever order they do. The graph is well joined: distinct node ids, no edge
that is both the true and the false branch, and neither a trigger nor the error handler's entry is a join.\<close>

theorem nodes_start_once:
  assumes "replay_free g" "well_joined g config"
  shows "distinct (gr_started (foldl (graph_next g config) (runGraph g initial environment) events))"
proof -
  have "account_ok g config (foldl (graph_next g config) (runGraph g initial environment) events)"
    by (rule account_runs.run_ok [OF runGraph_account [OF assms]])
  then show ?thesis by (simp add: account_ok_def fair_def)
qed


section \<open>The end of a run\<close>

text \<open>What is left to do: the nodes not visited with the edges that leave them, and the open frames.\<close>

definition todo :: "wf_graph \<Rightarrow> graph_run \<Rightarrow> nat" where
  "todo g s = sum_list (map (\<lambda>n. if wn_id n \<in> set (gr_visited s) then 0 else 4 + length (outgoing g (wn_id n))) (wg_nodes g))"

fun frame_weight :: "wf_graph \<Rightarrow> frame \<Rightarrow> nat" where
  "frame_weight g (F_starts ns) = 1 + length ns"
| "frame_weight g (F_edges es) = 1 + length es"
| "frame_weight g (F_targets ns) = 1 + length ns"
| "frame_weight g (F_par ns) = 2 + length ns"
| "frame_weight g (F_activity n) = 2 + length (outgoing g n)"
| "frame_weight g (F_delay n) = 2 + length (outgoing g n)"
| "frame_weight g f = 1"

definition weight :: "wf_graph \<Rightarrow> frame list \<Rightarrow> nat" where
  "weight g fs = sum_list (map (frame_weight g) fs)"

definition run_weight :: "wf_graph \<Rightarrow> graph_run \<Rightarrow> nat" where
  "run_weight g s = todo g s + sum_list (map (weight g) (gr_tasks s))"

lemma weight_simps [simp]:
  "weight g [] = 0" "weight g (f # fs) = frame_weight g f + weight g fs" "weight g (fs @ gs) = weight g fs + weight g gs"
  by (simp_all add: weight_def)

lemma weight_lower [simp]: "weight g (lower_flag ok fs) = weight g fs"
  by (induction ok fs rule: lower_flag.induct) auto

lemma weight_condition: "weight g (condition_frames es) \<le> 2 + length es"
  by (simp add: condition_frames_def targets_def)

lemma todo_moves: "moves_on s s' \<Longrightarrow> todo g s' \<le> todo g s"
  unfolding todo_def by (rule sum_list_mono) (auto simp: moves_on_def)

lemma todo_visited: "gr_visited s' = gr_visited s \<Longrightarrow> todo g s' = todo g s"
  by (simp add: todo_def)

lemma sum_list_drop:
  fixes f h :: "'a \<Rightarrow> nat"
  shows "x \<in> set xs \<Longrightarrow> h x + c \<le> f x \<Longrightarrow> (\<And>y. y \<in> set xs \<Longrightarrow> h y \<le> f y) \<Longrightarrow> sum_list (map h xs) + c \<le> sum_list (map f xs)"
proof (induction xs)
  case (Cons a xs)
  then have "sum_list (map h xs) \<le> sum_list (map f xs)" by (intro sum_list_mono) auto
  with Cons show ?case by (cases "x = a") (auto simp: add.assoc add_mono intro: add_mono_thms_linordered_semiring(1))
qed simp

lemma todo_begin:
  assumes "nodeMap g n = Some nd" "n \<notin> set (gr_visited s)" "gr_visited s' = n # gr_visited s"
  shows "todo g s' + (4 + length (outgoing g n)) \<le> todo g s"
  unfolding todo_def
  by (rule sum_list_drop [of nd]) (use assms nodeMap_Some [OF assms(1)] in auto)

lemma moves_on_choice:
  assumes "ledger s' = ledger (markSubtreesSkipped g es (state_change n st s))"
    "gr_started s' = gr_started (markSubtreesSkipped g es (state_change n st s))"
  shows "moves_on s s'"
proof -
  have "moves_on s (state_change n st s)" by (rule moves_on_ledger) simp_all
  from moves_on_trans [OF this moves_on_trans [OF moves_on_mark moves_on_ledger [OF assms]]] show ?thesis .
qed

lemma start_handler_moves: "moves_on s (snd (start_handler g tk nd s))"
proof (cases "wn_data nd")
  case (ND_condition l op r)
  then show ?thesis
    by (auto simp: start_handler_def handleConditionNode_def Let_def
        intro!: moves_on_choice [where es = "branch_edges _ _" and n = "wn_id nd" and st = NS_pass])
next
  case (ND_switch expression cases)
  then show ?thesis
    by (auto simp: start_handler_def handleSwitchNode_def Let_def intro: moves_on_choice [OF refl refl])
qed (auto simp: start_handler_def handleStartNode_def handleForkNode_def handleJoinNode_def handleSetVariableNode_def
      handleLoopNode_def Let_def intro!: moves_on_ledger)

lemma weight_branch: "weight g (condition_frames (branch_edges b es)) \<le> 2 + length es"
  using weight_condition [of g "branch_edges b es"] unfolding branch_edges_def by (meson add_left_mono le_trans length_filter_le)

lemma start_handler_weight:
  assumes "replay_free g" "nd \<in> set (wg_nodes g)"
  shows "weight g (fst (start_handler g tk nd s)) \<le> 2 + length (outgoing g (wn_id nd))"
  using assms weight_branch [of g _ "outgoing g (wn_id nd)"]
  by (cases "wn_data nd")
    (auto simp: start_handler_def handleStartNode_def handleForkNode_def handleJoinNode_def handleSetVariableNode_def
      handleConditionNode_def handleSwitchNode_def Let_def targets_def by_handle_def replay_free_def
      list_all_iff intro: le_trans [OF length_filter_le])


lemma todo_updates [simp]:
  "todo g (state_change n st s) = todo g s" "todo g (on_edge e s) = todo g s" "todo g (set_ctx f s) = todo g s"
  "todo g (finish_node n p s) = todo g s" "todo g (throw_node g' n s) = todo g s"
  "todo g (record_outcome n rs vs ns ok s) = todo g s" "todo g (push_results n rs vs ns s) = todo g s"
  "todo g (show_cut n vs s) = todo g s"
  by (rule todo_visited, rule ledgerD(1), simp)+

lemma visit_weight:
  assumes "replay_free g" "visit g tk n s = (fs, s')"
  shows "todo g s' + weight g fs \<le> todo g s"
proof (cases "gr_aborted s \<or> nodeMap g n = None")
  case True
  with assms show ?thesis by (auto simp: visit_def split: if_splits)
next
  case False
  then obtain nd where nd: "nodeMap g n = Some nd" by auto
  obtain ready s1 where a: "arrive g n s = (ready, s1)" by fastforce
  have v: "gr_visited s1 = gr_visited s" by (rule arrive_account(3) [OF a])
  show ?thesis
  proof (cases "\<not> ready \<or> n \<in> set (gr_visited s1)")
    case True
    with assms False nd a have "fs = []" "s' = s1" by (auto simp: visit_def)
    with todo_visited [OF v, of g] show ?thesis by simp
  next
    case started: False
    let ?b = "begin_node n s1"
    obtain hs s2 where h: "start_handler g tk nd ?b = (hs, s2)" by fastforce
    with assms False nd a started have r: "fs = hs @ [F_finish n (gr_allPassed s1)]" "s' = s2" by (auto simp: visit_def)
    have "gr_visited ?b = n # gr_visited s" using v by (simp add: begin_node_def state_change_def)
    with todo_begin [OF nd] started v have "todo g ?b + (4 + length (outgoing g n)) \<le> todo g s" by simp
    moreover have "todo g s2 \<le> todo g ?b" using todo_moves [OF start_handler_moves [of ?b g tk nd]] h by simp
    moreover have "weight g hs \<le> 2 + length (outgoing g n)"
      using start_handler_weight [OF assms(1), of nd tk ?b] nodeMap_Some [OF nd] h by simp
    ultimately show ?thesis using r by simp
  qed
qed

lemma visit_all_weight:
  assumes "replay_free g"
  shows "visit_all g tk ns s = (fss, s') \<Longrightarrow> todo g s' + sum_list (map (weight g) fss) \<le> todo g s"
proof (induction ns arbitrary: s fss s')
  case (Cons n ns)
  obtain fs s1 where v: "visit g tk n s = (fs, s1)" by fastforce
  obtain gss s2 where w: "visit_all g tk ns s1 = (gss, s2)" by fastforce
  from visit_weight [OF assms v] Cons.IH [OF w] Cons.prems v w show ?case by auto
qed simp

text \<open>A step lowers the weight of the run.\<close>

definition lighter :: "wf_graph \<Rightarrow> frame \<Rightarrow> frame list \<Rightarrow> graph_run \<Rightarrow> effect \<Rightarrow> bool" where
  "lighter g f rest s e = (case e of (fs, rest', fss, s') \<Rightarrow>
     todo g s' + weight g (fs @ rest') + sum_list (map (weight g) fss) < todo g s + weight g (f # rest))"

lemma resume_visit_lighter:
  assumes "replay_free g" "weight g next_frames < frame_weight g f" "todo g s0 \<le> todo g s"
  shows "lighter g f rest s (resume_with next_frames rest (visit g tk n s0))"
proof -
  obtain fs s' where v: "visit g tk n s0 = (fs, s')" by fastforce
  from visit_weight [OF assms(1) v] assms(2,3) show ?thesis by (simp add: lighter_def resume_with_def v)
qed

lemma light_ledger:
  "ledger s' = ledger s \<Longrightarrow> weight g fs < frame_weight g f \<Longrightarrow> lighter g f rest s (fs, rest, [], s')"
  using todo_visited [OF ledgerD(1), of s' s g] by (simp add: lighter_def)

lemma weight_tl: "weight g (tl fs) \<le> weight g fs"
  by (cases fs) simp_all

lemma advance_lighter:
  assumes g: "replay_free g" and e: "advance_frame g config tk f rest s = Some e" and f: "static_frame f"
  shows "lighter g f rest s e"
proof -
  note v = resume_visit_lighter [OF g]
  note l = light_ledger
  show ?thesis
  proof (cases f)
    case (F_starts ns)
    with e show ?thesis by (cases ns) (auto intro!: l v split: if_splits)
  next
    case F_error_config
    have "lighter g f rest s (resume_with [] rest (run_error_config g config tk s))"
      using F_error_config v [of "[]" f] l [of s s g "[]" f rest]
      by (cases config) (simp_all add: run_error_config_def Let_def resume_with_def [of "[]" rest "([], s)"])
    with F_error_config e show ?thesis by simp
  next
    case F_verdict
    with e show ?thesis by (auto intro!: l close_run_ledger)
  next
    case (F_edges es)
    with e show ?thesis by (cases es) (auto intro!: l v)
  next
    case (F_targets ns)
    with e show ?thesis by (cases ns) (auto intro!: l v)
  next
    case (F_par ns)
    obtain fss s' where w: "visit_all g tk ns s = (fss, s')" by fastforce
    with visit_all_weight [OF g w] F_par e show ?thesis by (auto simp: lighter_def start_tasks_def Let_def)
  qed (use e f in \<open>auto intro!: l split: if_splits\<close>)
qed

lemma complete_lighter:
  assumes "complete_frame g out f rest s = Some e"
  shows "lighter g f rest s e"
proof -
  from assms obtain n where f: "f = F_activity n" by (cases "(g, out, f, rest, s)" rule: complete_frame.cases) auto
  show ?thesis
  proof (cases out)
    case (Threw rs vars nodeVars)
    with assms f weight_tl [of g rest] show ?thesis by (auto simp: lighter_def)
  qed (use assms f in \<open>auto simp: lighter_def\<close>)
qed

lemma cut_lighter:
  assumes "cut_frame vars f rest s = Some e"
  shows "lighter g f rest s e"
proof -
  from assms obtain n where f: "f = F_activity n" by (cases "(vars, f, rest, s)" rule: cut_frame.cases) auto
  with assms show ?thesis by (auto simp: lighter_def split: if_splits)
qed

lemma apply_lighter:
  assumes i: "i < length (gr_tasks s)" "gr_tasks s ! i = f # rest" and e: "lighter g f rest s e"
    and t: "gr_tasks (snd (snd (snd e))) = gr_tasks s"
  shows "run_weight g (apply_effect i e) < run_weight g s"
proof -
  obtain fs rest' fss s' where e': "e = (fs, rest', fss, s')" by (cases e)
  note sum_tasks_update [OF i(1), of "weight g" fss "fs @ rest'", unfolded i(2)]
  with e t show ?thesis by (simp add: lighter_def e' run_weight_def apply_effect_def todo_def)
qed

lemma step_lighter:
  assumes ok: "account_ok g config s" and step: "graph_step g config ev s = Some s'" and ev: "ev \<noteq> Abort"
  shows "run_weight g s' < run_weight g s"
proof -
  have g: "replay_free g" "well_joined g config" using ok by (simp_all add: account_ok_def)
  have "\<exists>i h. top_step h i s = Some s' \<and>
      (\<exists>tk out vars. h = advance_frame g config tk \<or> h = complete_frame g out \<or> h = cut_frame vars)"
    using step ev unfolding graph_step_def by (cases ev) (simp_all, blast+)
  then obtain i h tk out vars where h: "top_step h i s = Some s'"
    "h = advance_frame g config tk \<or> h = complete_frame g out \<or> h = cut_frame vars"
    by blast
  then obtain f rest e where f: "i < length (gr_tasks s)" "gr_tasks s ! i = f # rest" "h f rest s = Some e" "s' = apply_effect i e"
    by (auto simp: top_step_def split: if_splits list.splits)
  have st: "list_all static_frame (f # rest)" using account_frames [OF ok f(1)] f(2) by simp
  from h(2) have "lighter g f rest s e \<and> effect_account g f rest s e"
  proof (elim disjE)
    assume a: "h = advance_frame g config tk"
    from advance_lighter [OF g(1) f(3) [unfolded a]] advance_account [OF g f(3) [unfolded a] st] st show ?thesis by simp
  next
    assume c: "h = complete_frame g out"
    from complete_lighter [OF f(3) [unfolded c]] complete_account [OF f(3) [unfolded c] st] show ?thesis by simp
  next
    assume c: "h = cut_frame vars"
    from cut_lighter [OF f(3) [unfolded c]] cut_account [OF f(3) [unfolded c] st] show ?thesis by simp
  qed
  then show ?thesis unfolding f(4) by (intro apply_lighter [OF f(1,2)]) (auto simp: effect_account_def)
qed

fun steps_taken :: "wf_graph \<Rightarrow> error_config option \<Rightarrow> graph_run \<Rightarrow> graph_event list \<Rightarrow> nat" where
  "steps_taken g config s [] = 0"
| "steps_taken g config s (ev # evs) =
     (if ev \<noteq> Abort \<and> graph_step g config ev s \<noteq> None then 1 else 0) + steps_taken g config (graph_next g config s ev) evs"

lemma steps_lighter:
  "account_ok g config s \<Longrightarrow> steps_taken g config s evs + run_weight g (foldl (graph_next g config) s evs) \<le> run_weight g s"
proof (induction evs arbitrary: s)
  case (Cons ev evs)
  note IH = Cons.IH [OF account_runs.step_ok [OF Cons.prems, of ev]]
  show ?case
  proof (cases "graph_step g config ev s")
    case None
    with IH show ?thesis by (simp add: graph_next_def)
  next
    case (Some s')
    show ?thesis
    proof (cases "ev = Abort")
      case True
      with Some IH show ?thesis
        by (auto simp: graph_next_def graph_step_def run_weight_def todo_def)
    next
      case False
      from step_lighter [OF Cons.prems Some False] Some False IH show ?thesis by (simp add: graph_next_def)
    qed
  qed
qed simp

lemma edges_from_distinct:
  "distinct is \<Longrightarrow> sum_list (map (\<lambda>i. length (filter (\<lambda>e. we_source e = i) es)) is) \<le> length es"
proof (induction es)
  case (Cons e es)
  have "sum_list (map (\<lambda>i. length (filter (\<lambda>e. we_source e = i) (e # es))) is) =
      count_list is (we_source e) + sum_list (map (\<lambda>i. length (filter (\<lambda>e. we_source e = i) es)) is)" for "is"
    by (induction "is") auto
  with Cons count_distinct [OF Cons.prems, of "we_source e"] show ?case by simp
qed simp

lemma initial_weight:
  assumes "well_joined g config"
  shows "run_weight g (runGraph g initial environment) \<le> 5 * length (wg_nodes g) + length (wg_edges g) + 3"
proof -
  have "sum_list (map (\<lambda>i. length (outgoing g i)) (map wn_id (wg_nodes g))) \<le> length (wg_edges g)"
    unfolding outgoing_def by (rule edges_from_distinct) (use assms in \<open>simp add: well_joined_def\<close>)
  moreover have "todo g (runGraph g initial environment) =
    4 * length (wg_nodes g) + sum_list (map (\<lambda>i. length (outgoing g i)) (map wn_id (wg_nodes g)))"
    by (simp add: todo_def runGraph_def sum_list_addf sum_list_triv o_def)
  moreover have "length (findStartNodes g) \<le> length (wg_nodes g)" by (simp add: findStartNodes_def Let_def)
  ultimately show ?thesis by (simp add: run_weight_def) (simp add: runGraph_def)
qed

text \<open>C10. A workflow without loops, error handlers and wait nodes ends: whatever the order in which its
branches advance and its activities report, the run takes at most five steps for each node, one for each edge
and three more. (That there is always a next step until the verdict is given is shown for all workflows.)
The graph is well joined: distinct node ids, no edge that is both the true and the false branch, and
neither a trigger nor the error handler's entry is a join.\<close>

theorem workflow_ends:
  assumes "replay_free g" "well_joined g config"
  shows "steps_taken g config (runGraph g initial environment) events \<le> 5 * length (wg_nodes g) + length (wg_edges g) + 3"
  using steps_lighter [OF runGraph_account [OF assms], of initial environment events]
    initial_weight [OF assms(2), of initial environment] by linarith


section \<open>A branch given up too late\<close>

text \<open>A fork into the steps \<open>a\<close> and \<open>b\<close>; \<open>a\<close> leads to the join, \<open>b\<close> to a condition that leads to the join
or to an end node of its own.\<close>

definition edge :: "string \<Rightarrow> string \<Rightarrow> string \<Rightarrow> string option \<Rightarrow> wf_edge" where
  "edge i s t h = \<lparr>we_id = i, we_source = s, we_target = t, we_sourceHandle = h, we_label = None\<rparr>"

definition plain_node :: "string \<Rightarrow> node_data \<Rightarrow> wf_node" where
  "plain_node i d = \<lparr>wn_id = i, wn_trigger = (i = ''s''), wn_title = None, wn_data = d\<rparr>"

definition late_skip :: wf_graph where
  "late_skip =
     \<lparr>wg_nodes = [plain_node ''s'' (ND_start []), plain_node ''f'' ND_fork, plain_node ''a'' (ND_activity True),
        plain_node ''b'' (ND_activity True), plain_node ''c'' (ND_condition ''1'' ''=='' ''2''),
        plain_node ''j'' ND_join, plain_node ''x'' ND_end, plain_node ''e'' ND_end],
      wg_edges = [edge ''1'' ''s'' ''f'' None, edge ''2'' ''f'' ''a'' None, edge ''3'' ''f'' ''b'' None, edge ''4'' ''a'' ''j'' None,
        edge ''5'' ''b'' ''c'' None, edge ''6'' ''c'' ''j'' (Some ''true''), edge ''7'' ''c'' ''x'' (Some ''false''),
        edge ''8'' ''j'' ''e'' None]\<rparr>"

definition task :: "nat \<Rightarrow> nat \<Rightarrow> graph_event list" where
  "task i k = replicate k (Advance i still)"

definition reports :: "nat \<Rightarrow> graph_event list" where
  "reports i = [Complete i (Done [] [] [] True)]"

definition first_a :: "graph_event list" where
  "first_a = task 0 4 @ reports 1 @ task 1 4 @ reports 2 @ task 2 8 @ task 0 10"

definition first_b :: "graph_event list" where
  "first_b = task 0 4 @ reports 2 @ task 2 8 @ reports 1 @ task 1 8 @ task 0 10"

lemma late_skip_shape: "replay_free late_skip" "well_joined late_skip None"
  by (code_simp, code_simp)

lemma first_b_run:
  "gr_verdict (foldl (graph_next late_skip None) (runGraph late_skip [] []) first_b) = Some True \<and>
   ''j'' \<in> set (gr_started (foldl (graph_next late_skip None) (runGraph late_skip [] []) first_b)) \<and>
   ''e'' \<in> set (gr_started (foldl (graph_next late_skip None) (runGraph late_skip [] []) first_b))"
  by code_simp

lemma first_a_run:
  "gr_verdict (foldl (graph_next late_skip None) (runGraph late_skip [] []) first_a) = Some True \<and>
   ''j'' \<notin> set (gr_started (foldl (graph_next late_skip None) (runGraph late_skip [] []) first_a)) \<and>
   ''e'' \<notin> set (gr_visited (foldl (graph_next late_skip None) (runGraph late_skip [] []) first_a)) \<and>
   (''e'', NS_pass) \<in> set (gr_states (foldl (graph_next late_skip None) (runGraph late_skip [] []) first_a))"
  by code_simp

text \<open>Giving up a branch lowers what a join expects but does not look at the join again. Here the same
steps report the same results in two orders: with \<open>b\<close> first the join runs and so does what follows it; with
\<open>a\<close> first the join has its only remaining arrival already, is never visited again, and everything behind
it is silently left out, while the run passes and the end node that was never reached is shown as passed.\<close>

theorem late_skip_starves_join:
  "gr_verdict (foldl (graph_next late_skip None) (runGraph late_skip [] []) first_a) = Some True \<and>
   ''j'' \<notin> set (gr_started (foldl (graph_next late_skip None) (runGraph late_skip [] []) first_a)) \<and>
   ''e'' \<notin> set (gr_visited (foldl (graph_next late_skip None) (runGraph late_skip [] []) first_a)) \<and>
   (''e'', NS_pass) \<in> set (gr_states (foldl (graph_next late_skip None) (runGraph late_skip [] []) first_a)) \<and>
   gr_verdict (foldl (graph_next late_skip None) (runGraph late_skip [] []) first_b) = Some True \<and>
   ''j'' \<in> set (gr_started (foldl (graph_next late_skip None) (runGraph late_skip [] []) first_b)) \<and>
   ''e'' \<in> set (gr_started (foldl (graph_next late_skip None) (runGraph late_skip [] []) first_b))"
  using first_a_run first_b_run by blast

section \<open>Witnesses\<close>

theorem join_waits_for_all_witness:
  "''a'' \<in> set (gr_visited (foldl (graph_next late_skip None) (runGraph late_skip [] []) first_b)) \<and>
   pending late_skip (foldl (graph_next late_skip None) (runGraph late_skip [] []) first_b) ''j'' = 0"
proof -
  have "is_join late_skip ''j''" "edge ''4'' ''a'' ''j'' None \<in> set (wg_edges late_skip)"
    by (simp_all add: is_join_def nodeMap_def late_skip_def plain_node_def)
  moreover have "we_target (edge ''4'' ''a'' ''j'' None) = ''j''" "we_source (edge ''4'' ''a'' ''j'' None) = ''a''"
    by (simp_all add: edge_def)
  ultimately show ?thesis
    using join_waits_for_all [OF late_skip_shape, of "''j''" "[]" "[]" first_b] first_b_run by metis
qed

theorem nodes_start_once_witness:
  "distinct (gr_started (foldl (graph_next late_skip None) (runGraph late_skip [] []) first_b))"
  by (rule nodes_start_once [OF late_skip_shape])

theorem workflow_ends_witness:
  "steps_taken late_skip None (runGraph late_skip [] []) first_b \<le> 51"
  using workflow_ends [OF late_skip_shape, of "[]" "[]" first_b] by (simp add: late_skip_def)

end
