(* ===== verification/Validation.thy ===== *)
theory Validation
  imports Json_Model
begin

text \<open>
  The comparisons a response is validated with (\<open>src/engine/core/\<close>): whole bodies
  (\<open>deepCompare.ts\<close>), subsets (\<open>validatorSubsetMatch.ts\<close>), field operators
  (\<open>fieldOperatorEvaluation.ts\<close>), status patterns and header operators (\<open>validatorHttpHelpers.ts\<close>).

  A text that may be \<open>undefined\<close>, as what \<open>JSON.stringify\<close> gives for \<open>undefined\<close>, is an option.
  Number conversions are fields of the environment, as are the parts of the host of \<open>js_host\<close>.
  The lemmas show that a whole-body comparison finds a difference exactly where the canonical forms
  differ, except that an expected object accepts an array with the same keys; that what must be
  contained is contained in itself; and for which patterns a status match returns at all.
\<close>

section \<open>Environment and failures\<close>

record check_env =
  ce_host :: js_host
  ce_number :: "string \<Rightarrow> rat option" \<comment> \<open>\<open>Number\<close> of a text, \<open>None\<close> for NaN\<close>
  ce_number_of :: "json \<Rightarrow> rat option" \<comment> \<open>\<open>Number\<close> of any value\<close>

record failure =
  fd_path :: string
  fd_expected :: "string option"
  fd_actual :: "string option"

definition fail :: "string \<Rightarrow> string \<Rightarrow> string \<Rightarrow> failure" where
  "fail path expected actual = \<lparr>fd_path = path, fd_expected = Some expected, fd_actual = Some actual\<rparr>"

definition json_text :: "js_host \<Rightarrow> json \<Rightarrow> string option" where
  "json_text h v = (if v = JUndef then None else Some (json_stringify h v))"

definition js_typeof :: "json \<Rightarrow> string" where
  "js_typeof v = (case v of
     JUndef \<Rightarrow> ''undefined'' | JBool _ \<Rightarrow> ''boolean'' | JNum _ \<Rightarrow> ''number'' | JStr _ \<Rightarrow> ''string'' | _ \<Rightarrow> ''object'')"

definition or_root :: "string \<Rightarrow> string" where
  "or_root path = (if path = [] then ''(root)'' else path)"

definition index_path :: "string \<Rightarrow> nat \<Rightarrow> string" where
  "index_path path i = path @ ''['' @ js_nat i @ '']''"

definition field_path :: "string \<Rightarrow> string \<Rightarrow> string" where
  "field_path path k = (if path = [] then k else path @ ''.'' @ k)"

section \<open>Whole bodies\<close>

definition different :: "js_host \<Rightarrow> json \<Rightarrow> json \<Rightarrow> string \<Rightarrow> failure" where
  "different h expected actual path =
     \<lparr>fd_path = or_root path, fd_expected = json_text h expected, fd_actual = json_text h actual\<rparr>"

definition own_keys :: "json \<Rightarrow> string list" where
  "own_keys v = (case v of JObj fs \<Rightarrow> rec_keys fs | JArr vs \<Rightarrow> map js_nat [0..<length vs] | _ \<Rightarrow> [])"

text \<open>\<open>deepCompare(undefined, actual, \<dots>)\<close>.\<close>

definition unexpected :: "js_host \<Rightarrow> json \<Rightarrow> string \<Rightarrow> failure list" where
  "unexpected h actual path = (if actual = JUndef then [] else [different h JUndef actual path])"

fun unexpected_items :: "js_host \<Rightarrow> json list \<Rightarrow> string \<Rightarrow> nat \<Rightarrow> failure list" where
  "unexpected_items h [] path i = []"
| "unexpected_items h (a # as) path i = unexpected h a (index_path path i) @ unexpected_items h as path (Suc i)"

fun deepCompare :: "js_host \<Rightarrow> json \<Rightarrow> json \<Rightarrow> string \<Rightarrow> failure list"
  and deepCompare_items :: "js_host \<Rightarrow> json list \<Rightarrow> json list \<Rightarrow> string \<Rightarrow> nat \<Rightarrow> failure list"
  and deepCompare_fields :: "js_host \<Rightarrow> json record_bag \<Rightarrow> json \<Rightarrow> string \<Rightarrow> failure list" where
  "deepCompare h (JArr es) actual path =
     (if is_nullish actual \<or> js_typeof actual \<noteq> ''object'' then [different h (JArr es) actual path]
      else case actual of
        JArr as \<Rightarrow> deepCompare_items h es as path 0
      | _ \<Rightarrow> [fail path ''array'' (js_typeof actual)])"
| "deepCompare h (JObj fs) actual path =
     (if is_nullish actual \<or> js_typeof actual \<noteq> ''object'' then [different h (JObj fs) actual path]
      else deepCompare_fields h fs actual path @
        concat (map (\<lambda>k. unexpected h (read_prop actual k) (field_path path k))
          (filter (\<lambda>k. k \<notin> set (rec_keys fs)) (own_keys actual))))"
| "deepCompare h expected actual path = (if expected = actual then [] else [different h expected actual path])"
| "deepCompare_items h [] as path i = unexpected_items h as path i"
| "deepCompare_items h (e # es) as path i =
     (case as of
        [] \<Rightarrow> deepCompare h e JUndef (index_path path i) @ deepCompare_items h es [] path (Suc i)
      | a # as' \<Rightarrow> deepCompare h e a (index_path path i) @ deepCompare_items h es as' path (Suc i))"
| "deepCompare_fields h [] actual path = []"
| "deepCompare_fields h ((k, e) # fs) actual path =
     deepCompare h e (read_prop actual k) (field_path path k) @ deepCompare_fields h fs actual path"

section \<open>Subsets\<close>

text \<open>\<open>None\<close> where the value matches, else where it does not.\<close>

function deepSubsetMatch :: "js_host \<Rightarrow> json \<Rightarrow> json \<Rightarrow> string \<Rightarrow> failure option"
  and subset_items :: "js_host \<Rightarrow> json list \<Rightarrow> json list \<Rightarrow> string \<Rightarrow> nat \<Rightarrow> failure option"
  and subset_fields :: "js_host \<Rightarrow> json record_bag \<Rightarrow> json record_bag \<Rightarrow> string \<Rightarrow> failure option" where
  "deepSubsetMatch h actual (JArr es) path =
     (case actual of JArr as \<Rightarrow> subset_items h as es path 0
      | _ \<Rightarrow> Some (fail (or_root path) ''array'' (js_typeof actual)))"
| "deepSubsetMatch h actual (JObj fs) path =
     (case actual of
        JArr as \<Rightarrow>
          (if list_ex (\<lambda>item. deepSubsetMatch h item (JObj fs) [] = None) as then None
           else Some (fail (or_root path) (json_stringify h (JObj fs)) ''no matching element in array''))
      | JObj gs \<Rightarrow> subset_fields h gs fs path
      | JNull \<Rightarrow> Some (fail (or_root path) ''object'' ''null'')
      | _ \<Rightarrow> Some (fail (or_root path) ''object'' (js_typeof actual)))"
| "deepSubsetMatch h actual JNull path =
     (if actual = JNull then None
      else Some (\<lparr>fd_path = or_root path, fd_expected = Some ''null'', fd_actual = json_text h actual\<rparr>))"
| "deepSubsetMatch h actual JUndef path = (if actual = JUndef then None else Some (different h JUndef actual path))"
| "deepSubsetMatch h actual (JBool b) path = (if actual = JBool b then None else Some (different h (JBool b) actual path))"
| "deepSubsetMatch h actual (JNum n) path = (if actual = JNum n then None else Some (different h (JNum n) actual path))"
| "deepSubsetMatch h actual (JStr t) path = (if actual = JStr t then None else Some (different h (JStr t) actual path))"
| "subset_items h as [] path i = None"
| "subset_items h as (e # es) path i =
     (if list_ex (\<lambda>item. deepSubsetMatch h item e [] = None) as then subset_items h as es path (Suc i)
      else Some \<lparr>fd_path = index_path path i, fd_expected = json_text h e, fd_actual = Some ''not found in array''\<rparr>)"
| "subset_fields h gs [] path = None"
| "subset_fields h gs ((k, e) # fs) path =
     (if \<not> js_in k gs
      then Some \<lparr>fd_path = field_path path k, fd_expected = json_text h e, fd_actual = Some ''missing key''\<rparr>
      else case deepSubsetMatch h (prop_or_undef gs k) e (field_path path k) of
        None \<Rightarrow> subset_fields h gs fs path
      | Some f \<Rightarrow> Some f)"
  by pat_completeness auto
termination by lexicographic_order

section \<open>Lemmas on whole bodies\<close>

text \<open>Texts of JSON hold no \<open>undefined\<close>; wherever the expected value has an object the actual one has no array.\<close>

fun defined :: "json \<Rightarrow> bool"
  and defined_list :: "json list \<Rightarrow> bool"
  and defined_fields :: "json record_bag \<Rightarrow> bool" where
  "defined JUndef = False"
| "defined (JArr vs) = defined_list vs"
| "defined (JObj fs) = defined_fields fs"
| "defined v = True"
| "defined_list [] = True"
| "defined_list (v # vs) = (defined v \<and> defined_list vs)"
| "defined_fields [] = True"
| "defined_fields ((k, v) # fs) = (defined v \<and> defined_fields fs)"

fun no_array_for_object :: "json \<Rightarrow> json \<Rightarrow> bool"
  and no_array_list :: "json list \<Rightarrow> json list \<Rightarrow> bool"
  and no_array_fields :: "json record_bag \<Rightarrow> json \<Rightarrow> bool" where
  "no_array_for_object (JArr es) a = (case a of JArr as \<Rightarrow> no_array_list es as | _ \<Rightarrow> True)"
| "no_array_for_object (JObj fs) a = (\<not> is_array a \<and> no_array_fields fs a)"
| "no_array_for_object e a = True"
| "no_array_list [] as = True"
| "no_array_list (e # es) as = (case as of [] \<Rightarrow> True | a # as' \<Rightarrow> no_array_for_object e a \<and> no_array_list es as')"
| "no_array_fields [] a = True"
| "no_array_fields ((k, e) # fs) a = (no_array_for_object e (read_prop a k) \<and> no_array_fields fs a)"

lemma defined_list_all [simp]: "defined_list vs = (\<forall>v\<in>set vs. defined v)"
  by (induction vs) auto

lemma defined_fields_all [simp]: "defined_fields fs = (\<forall>(k, v)\<in>set fs. defined v)"
  by (induction fs) auto

lemma no_array_fields_all [simp]: "no_array_fields fs a = (\<forall>(k, e)\<in>set fs. no_array_for_object e (read_prop a k))"
  by (induction fs) auto

lemma no_array_list_nth [simp]: "no_array_list es as = (\<forall>i<length es. i < length as \<longrightarrow> no_array_for_object (es ! i) (as ! i))"
proof (induction es as rule: list_induct2')
  case (4 e es a as)
  then show ?case by (auto simp: nth_Cons split: nat.splits)
qed auto

lemma unexpected_items_nil: "unexpected_items h as path i = [] \<longleftrightarrow> (\<forall>a\<in>set as. a = JUndef)"
  by (induction as arbitrary: i) (auto simp: unexpected_def)

lemma deepCompare_undefined: "defined e \<Longrightarrow> deepCompare h e JUndef path \<noteq> [] \<and> \<not> deepStrictEqual e JUndef"
  by (cases e) (auto simp: is_nullish_def)

lemma unexpected_nil: "unexpected h a path = [] \<longleftrightarrow> a = JUndef"
  by (simp add: unexpected_def)

lemma read_prop_defined:
  assumes "json_wf (JObj gs)" "defined (JObj gs)"
  shows "if k \<in> set (rec_keys gs) then json_wf (read_prop (JObj gs) k) \<and> defined (read_prop (JObj gs) k)
    else read_prop (JObj gs) k = JUndef"
  using assms rec_get_in_set [of gs k] rec_get_keys [of gs k]
  by (auto simp: read_prop_def prop_or_undef_def rec_get_def rec_keys_def map_of_eq_None_iff split: option.splits)

definition comparable :: "json \<Rightarrow> json \<Rightarrow> bool" where
  "comparable e a \<longleftrightarrow> json_wf e \<and> defined e \<and> json_wf a \<and> defined a \<and> no_array_for_object e a"

lemma compare_items_nil:
  assumes "\<And>e a p. e \<in> set es \<Longrightarrow> comparable e a \<Longrightarrow> (deepCompare h e a p = []) = deepStrictEqual e a"
    and "\<forall>e\<in>set es. json_wf e \<and> defined e" "\<forall>a\<in>set as. json_wf a \<and> defined a"
    and "\<forall>i<length es. i < length as \<longrightarrow> no_array_for_object (es ! i) (as ! i)"
  shows "deepCompare_items h es as path i = [] \<longleftrightarrow> list_all2 deepStrictEqual es as"
  using assms
proof (induction es arbitrary: as i)
  case Nil
  then show ?case by (cases as) (auto simp: unexpected_nil)
next
  case (Cons e es)
  show ?case
  proof (cases as)
    case Nil
    with deepCompare_undefined [of e] Cons.prems(2) show ?thesis by simp
  next
    case (Cons a as')
    have hd: "no_array_for_object e a" using Cons.prems(4) Cons by force
    have tl: "\<forall>i<length es. i < length as' \<longrightarrow> no_array_for_object (es ! i) (as' ! i)"
      using Cons.prems(4) Cons by (auto simp: nth_Cons split: nat.splits)
    have "comparable e a" using Cons.prems(2,3) Cons hd by (simp add: comparable_def)
    with Cons.prems(1) Cons.IH [OF _ _ _ tl] Cons.prems(2,3) Cons show ?thesis by simp
  qed
qed

lemma compare_fields_nil:
  assumes "\<And>k e a p. (k, e) \<in> set fs \<Longrightarrow> comparable e a \<Longrightarrow> (deepCompare h e a p = []) = deepStrictEqual e a"
    and "\<forall>(k, e)\<in>set fs. json_wf e \<and> defined e \<and> no_array_for_object e (read_prop (JObj gs) k)"
    and gs: "json_wf (JObj gs)" "defined (JObj gs)"
  shows "deepCompare_fields h fs (JObj gs) path = [] \<longleftrightarrow>
    set (rec_keys fs) \<subseteq> set (rec_keys gs) \<and> deepStrictEqual_fields fs gs"
  using assms(1,2)
proof (induction fs)
  case (Cons p fs)
  obtain k e where p: "p = (k, e)" by fastforce
  have IH: "deepCompare_fields h fs (JObj gs) path = [] \<longleftrightarrow>
    set (rec_keys fs) \<subseteq> set (rec_keys gs) \<and> deepStrictEqual_fields fs gs"
    by (rule Cons.IH) (use Cons.prems in auto)
  show ?case
  proof (cases "k \<in> set (rec_keys gs)")
    case True
    with read_prop_defined [OF gs, of k] Cons.prems(2) p have "comparable e (read_prop (JObj gs) k)" by (simp add: comparable_def)
    with Cons.prems(1) [of k e] p IH True show ?thesis by (auto simp: rec_keys_def read_prop_def)
  next
    case False
    with read_prop_defined [OF gs, of k] deepCompare_undefined [of e] Cons.prems(2) p show ?thesis
      by (auto simp: rec_keys_def)
  qed
qed (simp add: rec_keys_def)

lemma deepCompare_strict:
  "comparable e a \<Longrightarrow> deepCompare h e a path = [] \<longleftrightarrow> deepStrictEqual e a"
proof (induction e arbitrary: a path)
  case (JArr es)
  show ?case
  proof (cases a)
    case (JArr as)
    have "deepCompare_items h es as path 0 = [] \<longleftrightarrow> list_all2 deepStrictEqual es as"
      by (rule compare_items_nil) (use JArr.IH JArr.prems JArr in \<open>auto simp: comparable_def\<close>)
    moreover have "list_all2 deepStrictEqual es as \<longleftrightarrow> length es = length as \<and> deepStrictEqual_list es as"
      using deepStrictEqual_list_iff list_all2_lengthD by blast
    ultimately show ?thesis using JArr by (simp add: is_nullish_def js_typeof_def)
  qed (auto simp: is_nullish_def js_typeof_def)
next
  case (JObj fs)
  show ?case
  proof (cases a)
    case (JArr as)
    with JObj.prems show ?thesis by (simp add: comparable_def is_array_def)
  next
    case (JObj gs)
    have gs: "json_wf (JObj gs)" "defined (JObj gs)" using JObj.prems JObj by (auto simp: comparable_def)
    have "deepCompare_fields h fs (JObj gs) path = [] \<longleftrightarrow>
        set (rec_keys fs) \<subseteq> set (rec_keys gs) \<and> deepStrictEqual_fields fs gs"
      by (rule compare_fields_nil [OF _ _ gs]) (use JObj.IH JObj.prems JObj in \<open>auto simp: comparable_def\<close>)
    moreover have "concat (map (\<lambda>k. unexpected h (read_prop a k) (field_path path k))
        (filter (\<lambda>k. k \<notin> set (rec_keys fs)) (own_keys a))) = [] \<longleftrightarrow> set (rec_keys gs) \<subseteq> set (rec_keys fs)"
      using read_prop_defined [OF gs] JObj by (auto simp: own_keys_def unexpected_nil) (metis defined.simps(1))
    moreover have "sort (rec_keys fs) = sort (rec_keys gs) \<longleftrightarrow> set (rec_keys fs) = set (rec_keys gs)"
      using sorted_keys_eq_iff [of fs gs] JObj.prems gs by (auto simp: comparable_def rec_keys_def)
    ultimately show ?thesis using JObj by (auto simp: is_nullish_def js_typeof_def)
  qed (auto simp: is_nullish_def js_typeof_def)
qed (auto simp: comparable_def)

text \<open>C17. A whole-body comparison reports a difference if and only if the two values differ as JSON values, that
is up to the order of the keys of objects, wherever an expected object does not meet an array.\<close>

theorem deepCompare_exact:
  assumes "json_wf expected" "defined expected" "json_wf actual" "defined actual" "no_array_for_object expected actual"
  shows "deepCompare h expected actual path = [] \<longleftrightarrow> sortObjectKeys expected = sortObjectKeys actual"
  using deepCompare_strict [of expected actual h path] deepStrictEqual_canonical [of expected actual] assms
  by (simp add: comparable_def)

theorem deepCompare_exact_witness:
  "let expected = JObj [(''a'', JArr [JNum 1, JNull]), (''b'', JStr ''x'')]; actual = JObj [(''b'', JStr ''x''), (''a'', JArr [JNum 1, JNull])]
   in \<forall>h path. deepCompare h expected actual path = []"
proof (unfold Let_def, intro allI)
  fix h path
  let ?e = "JObj [(''a'', JArr [JNum 1, JNull]), (''b'', JStr ''x'')]"
  let ?a = "JObj [(''b'', JStr ''x''), (''a'', JArr [JNum 1, JNull])]"
  have "json_wf ?e" "defined ?e" "json_wf ?a" "defined ?a" "no_array_for_object ?e ?a" "sortObjectKeys ?e = sortObjectKeys ?a"
    by code_simp+
  then show "deepCompare h ?e ?a path = []" using deepCompare_exact [of ?e ?a h path] by blast
qed

lemma js_nat_0: "js_nat 0 = ''0''"
  by code_simp

text \<open>Only an expected array is told from an object: an expected object accepts an array with the same
keys, so the empty object accepts the empty array, and an object with the key 0 an array of one item.\<close>

theorem object_accepts_array:
  "deepCompare h (JObj []) (JArr []) path = [] \<and> deepCompare h (JObj [(''0'', JNum n)]) (JArr [JNum n]) path = [] \<and>
   deepCompare h (JArr []) (JObj []) path \<noteq> []"
  by (simp add: is_nullish_def js_typeof_def own_keys_def read_prop_def array_index_def all_digits_def digits_value_def
      js_is_digit_def elem_or_undef_def rec_keys_def js_nat_0)

section \<open>Lemmas on subsets\<close>

abbreviation contains_value :: "js_host \<Rightarrow> json \<Rightarrow> json \<Rightarrow> bool" where
  "contains_value h a e \<equiv> deepSubsetMatch h a e [] = None"

lemma subset_items_none:
  "subset_items h as es path i = None \<longleftrightarrow> (\<forall>e\<in>set es. \<exists>x\<in>set as. contains_value h x e)"
  by (induction es arbitrary: i) (auto simp: list_ex_iff)

lemma subset_fields_none:
  "subset_fields h gs fs path = None \<longleftrightarrow>
     (\<forall>(k, e)\<in>set fs. js_in k gs \<and> deepSubsetMatch h (prop_or_undef gs k) e (field_path path k) = None)"
  by (induction fs) (auto split: option.splits if_splits)

text \<open>Where a difference is found depends on the path only in its text.\<close>

lemma subset_path: "deepSubsetMatch h a e path = None \<longleftrightarrow> contains_value h a e"
proof (induction e arbitrary: a path)
  case (JArr es)
  show ?case by (cases a) (simp_all add: subset_items_none)
next
  case (JObj fs)
  have IH: "deepSubsetMatch h v e p = None \<longleftrightarrow> contains_value h v e" if "(k, e) \<in> set fs" for k e v p
    by (rule JObj.IH [OF that]) simp
  have "subset_fields h gs fs path = None \<longleftrightarrow> subset_fields h gs fs [] = None" for gs
    unfolding subset_fields_none using IH by blast
  then show ?case by (cases a) simp_all
qed simp_all

lemma contains_array: "contains_value h a (JArr es) \<longleftrightarrow> (\<exists>as. a = JArr as \<and> (\<forall>e\<in>set es. \<exists>x\<in>set as. contains_value h x e))"
  by (cases a) (simp_all add: subset_items_none)

lemma contains_object:
  "contains_value h a (JObj fs) \<longleftrightarrow> (\<exists>as. a = JArr as \<and> (\<exists>x\<in>set as. contains_value h x (JObj fs))) \<or>
     (\<exists>gs. a = JObj gs \<and> (\<forall>(k, e)\<in>set fs. js_in k gs \<and> contains_value h (prop_or_undef gs k) e))"
proof (cases a)
  case (JObj gs)
  then show ?thesis by (simp add: subset_fields_none subset_path [of h _ _ "field_path [] _"])
qed (simp_all add: list_ex_iff)

declare deepSubsetMatch.simps(1,2) [simp del]

lemma contains_refl: "json_wf v \<Longrightarrow> contains_value h v v"
proof (induction v)
  case (JArr vs)
  then show ?case by (auto simp: contains_array)
next
  case (JObj fs)
  have "js_in k fs \<and> contains_value h (prop_or_undef fs k) e" if e: "(k, e) \<in> set fs" for k e
  proof -
    have k: "k \<in> fst ` set fs" using e by force
    then have "prop_or_undef fs k = e" using JObj.prems e prop_or_undef_iff [of fs k e] by simp
    moreover have "contains_value h e e" using JObj.IH [OF e, of e] JObj.prems e by auto
    ultimately show ?thesis using k by (simp add: js_in_def rec_has_def)
  qed
  then have "\<forall>(k, e)\<in>set fs. js_in k fs \<and> contains_value h (prop_or_undef fs k) e" by blast
  then show ?case by (subst contains_object) blast
qed simp_all

lemma size_field: "(k, v) \<in> set fs \<Longrightarrow> size v < size (JObj fs)"
  by (induction fs) auto

lemma size_item: "v \<in> set vs \<Longrightarrow> size v < size (JArr vs)"
  by (induction vs) auto

lemma size_prop: "size (prop_or_undef fs k) < size (JObj fs)"
  using size_field [of k _ fs] rec_get_in_set [of fs k] by (auto simp: prop_or_undef_def split: option.split)

lemma undefined_contains: "defined e \<Longrightarrow> \<not> contains_value h JUndef e"
  by (cases e) (simp_all add: deepSubsetMatch.simps(1,2))

lemma contains_trans_object:
  assumes IH: "\<And>x y e. size x + size y + size e < size a + size b + size (JObj fs) \<Longrightarrow> json_wf y \<Longrightarrow> defined e \<Longrightarrow>
      contains_value h x y \<Longrightarrow> contains_value h y e \<Longrightarrow> contains_value h x e"
    and wf: "json_wf b" "defined (JObj fs)" and ab: "contains_value h a b" and bc: "contains_value h b (JObj fs)"
  shows "contains_value h a (JObj fs)"
proof -
  from bc consider bs x where "b = JArr bs" "x \<in> set bs" "contains_value h x (JObj fs)"
    | gs where "b = JObj gs" "\<forall>(k, e)\<in>set fs. js_in k gs \<and> contains_value h (prop_or_undef gs k) e"
    by (subst (asm) contains_object) blast
  then show ?thesis
  proof cases
    case 1
    from ab 1(1) obtain as where as: "a = JArr as" "\<forall>e\<in>set bs. \<exists>y\<in>set as. contains_value h y e" by (auto simp: contains_array)
    then obtain y where y: "y \<in> set as" "contains_value h y x" using 1(2) by blast
    have "contains_value h y (JObj fs)"
      by (rule IH [OF _ _ wf(2) y(2) 1(3)]) (use 1 as y wf(1) size_item [OF y(1)] size_item [OF 1(2)] in auto)
    with as(1) y(1) show ?thesis by (subst contains_object) blast
  next
    case 2
    from ab 2(1) have "contains_value h a (JObj gs)" by simp
    from contains_object [THEN iffD1, OF this] consider as y where "a = JArr as" "y \<in> set as" "contains_value h y (JObj gs)"
      | hs where "a = JObj hs" "\<forall>(k, v)\<in>set gs. js_in k hs \<and> contains_value h (prop_or_undef hs k) v" by blast
    then show ?thesis
    proof cases
      case a: 1
      have "contains_value h y (JObj fs)"
        by (rule IH [OF _ wf(1) wf(2)]) (use a 2(1) bc size_item [OF a(2)] in auto)
      with a show ?thesis by (subst contains_object) blast
    next
      case a: 2
      have "js_in k hs \<and> contains_value h (prop_or_undef hs k) e" if e: "(k, e) \<in> set fs" for k e
      proof -
        have d: "defined e" using wf(2) e by auto
        have g: "contains_value h (prop_or_undef gs k) e" using 2(2) e by blast
        then have "prop_or_undef gs k \<noteq> JUndef" using undefined_contains [OF d] by metis
        then have kv: "(k, prop_or_undef gs k) \<in> set gs"
          using rec_get_in_set [of gs k] by (auto simp: prop_or_undef_def split: option.splits)
        then have v: "js_in k hs" "contains_value h (prop_or_undef hs k) (prop_or_undef gs k)" using a(2) by auto
        have "json_wf (prop_or_undef gs k)" using wf(1) 2(1) kv by auto
        then have "contains_value h (prop_or_undef hs k) e"
          using IH [OF _ _ d v(2) g] size_prop [of hs k] size_prop [of gs k] size_field [OF e] a(1) 2(1) by simp
        with v(1) show ?thesis by blast
      qed
      then have "\<forall>(k, e)\<in>set fs. js_in k hs \<and> contains_value h (prop_or_undef hs k) e" by blast
      with a(1) show ?thesis by (subst contains_object) blast
    qed
  qed
qed

lemma contains_trans:
  "json_wf b \<Longrightarrow> defined c \<Longrightarrow> contains_value h a b \<Longrightarrow> contains_value h b c \<Longrightarrow> contains_value h a c"
proof (induction "size a + size b + size c" arbitrary: a b c rule: less_induct)
  case less
  show ?case
  proof (cases c)
    case (JArr cs)
    with less.prems(4) obtain bs where b: "b = JArr bs" "\<forall>e\<in>set cs. \<exists>x\<in>set bs. contains_value h x e" by (auto simp: contains_array)
    with less.prems(3) obtain as where a: "a = JArr as" "\<forall>e\<in>set bs. \<exists>x\<in>set as. contains_value h x e" by (auto simp: contains_array)
    have "\<exists>y\<in>set as. contains_value h y e" if e: "e \<in> set cs" for e
    proof -
      from b(2) e obtain x where x: "x \<in> set bs" "contains_value h x e" by blast
      with a(2) obtain y where y: "y \<in> set as" "contains_value h y x" by blast
      have "contains_value h y e"
        using less.hyps [of y x e] less.prems(1,2) JArr a(1) b(1) e x y size_item [OF e] size_item [OF x(1)] size_item [OF y(1)] by simp
      with y(1) show ?thesis by blast
    qed
    then show ?thesis using a(1) JArr by (simp add: contains_array)
  next
    case (JObj fs)
    show ?thesis
      unfolding JObj by (rule contains_trans_object [of a b fs h]) (use less JObj in auto)
  qed (use less.prems in \<open>auto split: if_splits\<close>)
qed

text \<open>To be contained in a value is a preorder: every value contains itself, and what is contained in a
part of a value, however deep in arrays and objects, is contained in the value.\<close>

theorem subset_preorder:
  "(json_wf v \<longrightarrow> deepSubsetMatch h v v path = None) \<and>
   (json_wf b \<and> defined c \<and> deepSubsetMatch h a b path = None \<and> deepSubsetMatch h b c path = None \<longrightarrow>
      deepSubsetMatch h a c path = None)"
  using contains_refl [of v h] contains_trans [of b c h a] unfolding subset_path [of h _ _ path] by blast

section \<open>Status patterns\<close>

text \<open>\<open>/^\d+\s*-\s*\d+$/\<close> and \<open>/^\dxx$/i\<close> on a trimmed text.\<close>

definition status_range :: "string \<Rightarrow> (nat \<times> nat) option" where
  "status_range p = (case js_split CHR ''-'' p of
     [lo, hi] \<Rightarrow> (if all_digits (js_trim lo) \<and> all_digits (js_trim hi)
        then Some (digits_value (js_trim lo), digits_value (js_trim hi)) else None)
   | _ \<Rightarrow> None)"

definition status_class :: "string \<Rightarrow> nat option" where
  "status_class p = (case p of
     [d, x, y] \<Rightarrow> (if js_is_digit d \<and> js_lower_char x = CHR ''x'' \<and> js_lower_char y = CHR ''x''
        then Some (digits_value [d]) else None)
   | _ \<Rightarrow> None)"

text \<open>The forms that are decided at once.\<close>

definition status_form :: "int \<Rightarrow> string \<Rightarrow> bool option" where
  "status_form status p =
     (if all_digits p then Some (status = int (digits_value p))
      else case status_range p of
        Some (lo, hi) \<Rightarrow> Some (int lo \<le> status \<and> status \<le> int hi)
      | None \<Rightarrow> map_option (\<lambda>d. status div 100 = int d) (status_class p))"

text \<open>\<open>Array.prototype.some\<close> with a callback that may not return.\<close>

fun some_of :: "('a \<Rightarrow> bool option) \<Rightarrow> 'a list \<Rightarrow> bool option" where
  "some_of f [] = Some False"
| "some_of f (x # xs) = Option.bind (f x) (\<lambda>b. if b then Some True else some_of f xs)"

lemma some_of_mono [partial_function_mono]:
  "(\<And>x. mono_option (\<lambda>f. F f x)) \<Longrightarrow> mono_option (\<lambda>f. some_of (F f) xs)"
proof (induction xs)
  case Nil
  show ?case by (simp add: option.const_mono)
next
  case (Cons x xs)
  then show ?case by (auto intro!: bind_mono option.const_mono if_mono)
qed

text \<open>\<open>None\<close>: the recursion does not return.\<close>

partial_function (option) matchesStatusPattern :: "int \<Rightarrow> string \<Rightarrow> bool option" where
  "matchesStatusPattern status pattern =
     (let p = js_trim pattern
      in case status_form status p of
        Some b \<Rightarrow> Some b
      | None \<Rightarrow> some_of (matchesStatusPattern status) (js_split CHR '','' p))"

lemma trimmed_subset: "set (js_trim s) \<subseteq> set s"
  by (auto simp: js_trim_def dest!: set_dropWhileD)

lemma dropWhile_last: "xs \<noteq> [] \<Longrightarrow> \<not> P (last xs) \<Longrightarrow> dropWhile P xs \<noteq> [] \<and> last (dropWhile P xs) = last xs"
  by (induction xs) (auto split: if_splits)

lemma dropWhile_trimmed: "(s \<noteq> [] \<Longrightarrow> \<not> P (hd s)) \<Longrightarrow> dropWhile P s = s"
  by (cases s) auto

lemma trimmed_idem: "js_trim (js_trim s) = js_trim s"
proof -
  let ?d = "dropWhile js_is_space"
  have hd_ok: "\<not> js_is_space (hd (js_trim s))" if "js_trim s \<noteq> []"
  proof -
    have n: "?d s \<noteq> []" using that by (cases "?d s") (simp_all add: js_trim_def del: dropWhile_eq_Nil_conv)
    then have "\<not> js_is_space (last (rev (?d s)))" using hd_dropWhile [OF n] by (simp add: last_rev)
    then have "last (?d (rev (?d s))) = last (rev (?d s))" using n dropWhile_last [of "rev (?d s)" js_is_space] by simp
    then show ?thesis using n hd_dropWhile [OF n] that by (simp add: js_trim_def hd_rev last_rev)
  qed
  have last_ok: "\<not> js_is_space (last (js_trim s))" if "js_trim s \<noteq> []"
    using that hd_dropWhile [of js_is_space "rev (?d s)"] by (simp add: js_trim_def last_rev)
  have "?d (js_trim s) = js_trim s" by (rule dropWhile_trimmed) (use hd_ok in blast)
  moreover have "?d (rev (js_trim s)) = rev (js_trim s)" by (rule dropWhile_trimmed) (use last_ok in \<open>simp add: hd_rev\<close>)
  ultimately show ?thesis by (simp add: js_trim_def [of "js_trim s"])
qed

text \<open>What the parts of a list give, up to the first one that decides.\<close>

fun parts_result :: "int \<Rightarrow> string list \<Rightarrow> bool option" where
  "parts_result status [] = Some False"
| "parts_result status (p # ps) = Option.bind (status_form status (js_trim p)) (\<lambda>b. if b then Some True else parts_result status ps)"

lemma returns_only_forms:
  assumes "matchesStatusPattern status q = Some b" "CHR '','' \<notin> set q"
  shows "status_form status (js_trim q) \<noteq> None"
proof -
  have "CHR '','' \<notin> set q \<longrightarrow> status_form status (js_trim q) \<noteq> None"
  proof (rule matchesStatusPattern.raw_induct [OF _ assms(1)])
    fix f status pattern y
    assume IH: "\<And>status q y. f status q = Some y \<Longrightarrow> CHR '','' \<notin> set q \<longrightarrow> status_form status (js_trim q) \<noteq> None"
      and step: "(let p = js_trim pattern in case status_form status p of
          Some b \<Rightarrow> Some b | None \<Rightarrow> some_of (f status) (js_split CHR '','' p)) = Some y"
    show "CHR '','' \<notin> set pattern \<longrightarrow> status_form status (js_trim pattern) \<noteq> None"
    proof (intro impI notI)
      assume c: "CHR '','' \<notin> set pattern" and n: "status_form status (js_trim pattern) = None"
      have ct: "CHR '','' \<notin> set (js_trim pattern)" using c trimmed_subset by blast
      then have "js_split CHR '','' (js_trim pattern) = [js_trim pattern]" by (simp add: js_split_no_sep)
      with step n obtain y' where "f status (js_trim pattern) = Some y'" by (auto simp: Let_def bind_eq_Some_conv)
      with IH ct have "status_form status (js_trim (js_trim pattern)) \<noteq> None" by blast
      with n show False by (simp add: trimmed_idem)
    qed
  qed
  with assms(2) show ?thesis by blast
qed

lemma part_result: "CHR '','' \<notin> set q \<Longrightarrow> matchesStatusPattern status q = status_form status (js_trim q)"
proof (cases "status_form status (js_trim q)")
  case None
  assume "CHR '','' \<notin> set q"
  with returns_only_forms [of status q] None show ?thesis by (cases "matchesStatusPattern status q") auto
qed (simp add: matchesStatusPattern.simps [of status q] Let_def)

lemma some_of_parts:
  "\<forall>q\<in>set qs. CHR '','' \<notin> set q \<Longrightarrow> some_of (matchesStatusPattern status) qs = parts_result status qs"
  by (induction qs) (auto simp: part_result split: bind_split)

lemma status_pattern_parts:
  "matchesStatusPattern status pattern =
     (case status_form status (js_trim pattern) of
        Some b \<Rightarrow> Some b
      | None \<Rightarrow> parts_result status (js_split CHR '','' (js_trim pattern)))"
  using some_of_parts [of "js_split CHR '','' (js_trim pattern)" status] js_split_parts [of _ "CHR '',''" "js_trim pattern"]
  by (subst matchesStatusPattern.simps) (auto simp: Let_def split: option.split)

text \<open>A status pattern as a list of parts, each with blanks around it.\<close>

datatype status_part = Exact nat | Between nat nat | Class_of nat

fun part_holds :: "int \<Rightarrow> status_part \<Rightarrow> bool" where
  "part_holds status (Exact n) = (status = int n)"
| "part_holds status (Between lo hi) = (int lo \<le> status \<and> status \<le> int hi)"
| "part_holds status (Class_of d) = (100 * int d \<le> status \<and> status < 100 * int d + 100)"

fun part_text :: "status_part \<Rightarrow> string" where
  "part_text (Exact n) = js_nat n"
| "part_text (Between lo hi) = js_nat lo @ ''-'' @ js_nat hi"
| "part_text (Class_of d) = js_nat d @ ''xx''"

fun part_ok :: "status_part \<Rightarrow> bool" where
  "part_ok (Class_of d) = (d < 10)"
| "part_ok p = True"

definition blank :: "string \<Rightarrow> bool" where
  "blank s = (\<forall>c\<in>set s. js_is_space c)"

text \<open>A part between blanks.\<close>

type_synonym written_part = "string \<times> status_part \<times> string"

fun written_text :: "written_part \<Rightarrow> string" where
  "written_text (l, p, r) = l @ part_text p @ r"

fun written_ok :: "written_part \<Rightarrow> bool" where
  "written_ok (l, p, r) = (blank l \<and> part_ok p \<and> blank r)"

definition any_holds :: "int \<Rightarrow> written_part list \<Rightarrow> bool" where
  "any_holds status ws = list_ex (\<lambda>(l, p, r). part_holds status p) ws"

lemma digit_unit: "(n :: nat) < 10 \<Longrightarrow> js_is_digit (char_of (48 + n))"
  by (simp add: js_is_digit_def Let_def)

lemma js_nat_digits: "all_digits (js_nat n) \<and> digits_value (js_nat n) = n"
proof (induction n rule: js_nat.induct)
  case (1 n)
  show ?case
  proof (cases "n < 10")
    case True
    then show ?thesis by (simp add: js_nat.simps [of n] all_digits_def digits_value_def digit_unit)
  next
    case False
    with 1 have IH: "all_digits (js_nat (n div 10))" "digits_value (js_nat (n div 10)) = n div 10" by blast+
    have "js_nat n = js_nat (n div 10) @ [char_of (48 + n mod 10)]" using False by (simp add: js_nat.simps [of n])
    then show ?thesis using IH digit_unit [of "n mod 10"] by (auto simp: all_digits_def digits_value_def)
  qed
qed

lemma digit_not: "js_is_digit c \<Longrightarrow> \<not> js_is_space c \<and> c \<noteq> CHR ''-'' \<and> c \<noteq> CHR '','' \<and> c \<noteq> CHR ''x''"
  by (auto simp: js_is_digit_def js_is_space_def Let_def)

lemma js_nat_units: "c \<in> set (js_nat n) \<Longrightarrow> js_is_digit c"
  using js_nat_digits [of n] by (simp add: all_digits_def)

lemma trim_nat: "js_trim (js_nat n) = js_nat n"
  by (rule js_trim_no_space) (use js_nat_units digit_not in blast)

lemma trim_left: "blank l \<Longrightarrow> js_trim (l @ s) = js_trim s"
  by (simp add: js_trim_def blank_def dropWhile_append2)

lemma dropWhile_blank: "blank s \<Longrightarrow> dropWhile js_is_space s = []"
  by (simp add: blank_def)

lemma trim_right: "blank r \<Longrightarrow> js_trim (s @ r) = js_trim s"
proof (cases "blank s")
  case True
  moreover assume "blank r"
  ultimately have "blank (s @ r)" "blank s" by (auto simp: blank_def)
  then show ?thesis by (simp add: js_trim_def dropWhile_blank del: dropWhile_eq_Nil_conv)
next
  case False
  assume r: "blank r"
  have "dropWhile js_is_space (s @ r) = dropWhile js_is_space s @ r"
    using False by (auto simp: blank_def intro: dropWhile_append1)
  moreover have "dropWhile js_is_space (rev r @ t) = dropWhile js_is_space t" for t
    using r by (intro dropWhile_append2) (simp add: blank_def)
  ultimately show ?thesis by (simp add: js_trim_def)
qed

lemma trim_decompose: "\<exists>l r. s = l @ js_trim s @ r \<and> blank l \<and> blank r"
proof -
  let ?d = "dropWhile js_is_space" and ?t = "takeWhile js_is_space"
  have "s = ?t s @ ?d s" by simp
  moreover have "rev (rev (?d s)) = rev (?t (rev (?d s)) @ ?d (rev (?d s)))" by (simp only: takeWhile_dropWhile_id)
  then have "?d s = rev (?d (rev (?d s))) @ rev (?t (rev (?d s)))" by (simp only: rev_append rev_rev_ident)
  ultimately have "s = ?t s @ js_trim s @ rev (?t (rev (?d s)))" by (simp add: js_trim_def)
  moreover have "blank (?t u)" for u by (auto simp: blank_def dest: set_takeWhileD)
  ultimately show ?thesis by (metis blank_def set_rev)
qed

lemma part_no_comma: "CHR '','' \<notin> set (part_text p)" "blank s \<Longrightarrow> CHR '','' \<notin> set s"
  using js_nat_units digit_not by (cases p) (fastforce, fastforce, fastforce, (auto simp: blank_def js_is_space_def Let_def))

lemma part_trim: "js_trim (part_text p) = part_text p"
proof (rule js_trim_no_space)
  have "\<not> js_is_space c" if "c \<in> set (js_nat n)" for c n using that js_nat_units digit_not by blast
  then show "\<forall>c\<in>set (part_text p). \<not> js_is_space c" by (cases p) (auto simp: js_is_space_def Let_def)
qed

lemma written_trim: "written_ok (l, p, r) \<Longrightarrow> js_trim (written_text (l, p, r)) = part_text p"
  by (simp add: trim_left trim_right part_trim)

lemma written_no_comma: "written_ok w \<Longrightarrow> CHR '','' \<notin> set (written_text w)"
  by (cases w) (simp add: part_no_comma)

lemma part_form: "part_ok p \<Longrightarrow> status_form status (part_text p) = Some (part_holds status p)"
proof (cases p)
  case (Exact n)
  then show ?thesis using js_nat_digits [of n] by (simp add: status_form_def)
next
  case (Between lo hi)
  have no: "\<not> all_digits (part_text p)" using Between by (auto simp: all_digits_def js_is_digit_def)
  have m: "CHR ''-'' \<notin> set (js_nat k)" for k using js_nat_units digit_not by blast
  have "js_split CHR ''-'' (part_text p) = [js_nat lo, js_nat hi]"
    using Between js_split_append_sep [OF m [of lo], of "js_nat hi"] js_split_no_sep [OF m [of hi]] by simp
  then have "status_range (part_text p) = Some (lo, hi)"
    using js_nat_digits [of lo] js_nat_digits [of hi] by (simp add: status_range_def trim_nat)
  with no Between show ?thesis by (simp add: status_form_def)
next
  case (Class_of d)
  assume "part_ok p"
  with Class_of have d: "js_nat d = [char_of (48 + d)]" "d < 10" by (simp_all add: js_nat.simps [of d])
  have u: "js_is_digit (char_of (48 + d))" using d(2) by (rule digit_unit)
  have no: "\<not> all_digits (part_text p)" using Class_of by (auto simp: all_digits_def js_is_digit_def)
  have "CHR ''-'' \<notin> set (part_text p)" using Class_of d(1) digit_not [OF u] by auto
  then have "status_range (part_text p) = None" by (simp add: status_range_def js_split_no_sep)
  moreover have "status_class (part_text p) = Some d"
    using Class_of d u js_nat_digits [of d] by (simp add: status_class_def js_lower_char_def Let_def)
  moreover have "status div 100 = int d \<longleftrightarrow> 100 * int d \<le> status \<and> status < 100 * int d + 100" by linarith
  ultimately show ?thesis using no Class_of by (simp add: status_form_def)
qed

lemma trim_keeps: "c \<in> set s \<Longrightarrow> \<not> js_is_space c \<Longrightarrow> c \<in> set (js_trim s)"
  using trim_decompose [of s] by (metis blank_def Un_iff set_append)

lemma form_no_comma:
  assumes "CHR '','' \<in> set p"
  shows "status_form status p = None"
proof -
  have sp: "\<not> js_is_space CHR '',''" by (simp add: js_is_space_def)
  have no: "\<not> all_digits q" if "CHR '','' \<in> set q" for q using that digit_not by (auto simp: all_digits_def)
  have "status_range p = None"
  proof (rule ccontr)
    assume "status_range p \<noteq> None"
    then obtain a b where ab: "js_split CHR ''-'' p = [a, b]" "all_digits (js_trim a)" "all_digits (js_trim b)"
      by (auto simp: status_range_def split: list.splits if_splits)
    then have "p = a @ ''-'' @ b" using js_join1_split [of "CHR ''-''" p] by simp
    with assms have "CHR '','' \<in> set a \<or> CHR '','' \<in> set b" by auto
    with ab(2,3) no trim_keeps [OF _ sp] show False by blast
  qed
  moreover have "status_class p = None"
    using assms by (auto simp: status_class_def js_is_digit_def js_lower_char_def Let_def split: list.splits)
  ultimately show ?thesis using no [OF assms] by (simp add: status_form_def)
qed

lemma split_append_left: "c \<notin> set l \<Longrightarrow> js_split c (l @ s) = (l @ hd (js_split c s)) # tl (js_split c s)"
  by (induction l) auto

lemma split_append_right: "c \<notin> set r \<Longrightarrow> js_split c (s @ r) = butlast (js_split c s) @ [last (js_split c s) @ r]"
proof (induction s)
  case Nil
  then show ?case by (simp add: js_split_no_sep)
next
  case (Cons x s)
  obtain p ps where "js_split c s = p # ps" by (cases "js_split c s") simp_all
  with Cons show ?case by (cases ps) auto
qed

lemma split_trimmed: "map js_trim (js_split CHR '','' (js_trim s)) = map js_trim (js_split CHR '','' s)"
proof -
  obtain l r where s: "s = l @ js_trim s @ r" "blank l" "blank r" using trim_decompose by blast
  let ?X = "js_split CHR '','' (js_trim s @ r)" and ?Y = "js_split CHR '','' (js_trim s)"
  have "js_split CHR '','' s = (l @ hd ?X) # tl ?X"
    using split_append_left [OF part_no_comma(2) [OF s(2)], of "js_trim s @ r"] s(1) by simp
  then have "map js_trim (js_split CHR '','' s) = map js_trim ?X"
    using trim_left [OF s(2), of "hd ?X"] by (cases ?X) simp_all
  also have "?X = butlast ?Y @ [last ?Y @ r]" by (rule split_append_right [OF part_no_comma(2) [OF s(3)]])
  also have "map js_trim \<dots> = map js_trim (butlast ?Y @ [last ?Y])" using trim_right [OF s(3)] by (simp del: append_butlast_last_id)
  finally show ?thesis by simp
qed

lemma parts_result_trim: "map js_trim ps = map js_trim qs \<Longrightarrow> parts_result status ps = parts_result status qs"
proof (induction ps arbitrary: qs)
  case (Cons p ps)
  then obtain q qs' where "qs = q # qs'" "js_trim p = js_trim q" "map js_trim ps = map js_trim qs'" by (cases qs) auto
  with Cons.IH [of qs'] show ?case by (simp cong: if_cong)
qed simp

lemma pattern_list:
  assumes "CHR '','' \<in> set pattern"
  shows "matchesStatusPattern status pattern = parts_result status (js_split CHR '','' pattern)"
proof -
  have "CHR '','' \<in> set (js_trim pattern)" by (rule trim_keeps [OF assms]) (simp add: js_is_space_def)
  from form_no_comma [OF this] show ?thesis
    unfolding status_pattern_parts using parts_result_trim [OF split_trimmed [of pattern], of status] by simp
qed

lemma written_parts:
  "list_all written_ok ws \<Longrightarrow> parts_result status (map written_text ws @ qs) =
     (if any_holds status ws then Some True else parts_result status qs)"
proof (induction ws)
  case (Cons w ws)
  obtain l p r where w: "w = (l, p, r)" by (cases w)
  then have ok: "written_ok (l, p, r)" "part_ok p" "list_all written_ok ws" using Cons.prems by simp_all
  have "status_form status (js_trim (written_text w)) = Some (part_holds status p)"
    using part_form [OF ok(2)] written_trim [OF ok(1)] w by simp
  with Cons.IH [OF ok(3)] w show ?case by (simp add: any_holds_def del: written_text.simps)
qed (simp add: any_holds_def)

lemma comma_in_join: "1 < length ps \<Longrightarrow> c \<in> set (js_join1 c ps)"
  by (cases "(c, ps)" rule: js_join1.cases) auto

text \<open>C36. A status pattern is a list of parts between commas, each with blanks around it if one likes: a
number, a range of numbers, or a class such as 2xx. It accepts a status exactly when one of its parts does: the
status is the number, lies between the bounds, or between the hundred of the class and the next.\<close>

theorem status_pattern_meaning:
  assumes "ws \<noteq> []" and "list_all written_ok ws"
  shows "matchesStatusPattern status (js_join1 CHR '','' (map written_text ws)) = Some (any_holds status ws)"
proof (cases "1 < length ws")
  case True
  have "js_split CHR '','' (js_join1 CHR '','' (map written_text ws)) = map written_text ws"
    using assms written_no_comma by (intro js_split_join1) (auto simp: list_all_iff)
  moreover have "1 < length (map written_text ws)" using True by simp
  ultimately show ?thesis using pattern_list [OF comma_in_join] written_parts [OF assms(2), of status "[]"]
    by simp
next
  case False
  with assms(1) obtain w where ws: "ws = [w]" by (cases ws) (auto simp: Suc_less_eq2)
  obtain l p r where w: "w = (l, p, r)" by (cases w)
  then have ok: "written_ok (l, p, r)" "part_ok p" using assms(2) ws by simp_all
  with ws w part_form [OF ok(2)] written_trim [OF ok(1)] show ?thesis
    by (simp add: status_pattern_parts any_holds_def del: written_text.simps)
qed

text \<open>C37. An empty part, as a comma at the end of a pattern leaves it, or an empty pattern, sends the match
into an endless recursion for every status that the parts before it do not accept, whatever comes after it.\<close>

theorem open_pattern_diverges:
  assumes "list_all written_ok ws" and "blank s" and "\<forall>q\<in>set rest. CHR '','' \<notin> set q"
  shows "matchesStatusPattern status (js_join1 CHR '','' (map written_text ws @ s # rest)) =
    (if any_holds status ws then Some True else None)"
proof -
  have e: "status_form status [] = None" by (simp add: status_form_def all_digits_def status_range_def status_class_def)
  have t: "js_trim s = []" using trim_right [OF assms(2), of "[]"] by (simp add: js_trim_def)
  let ?ps = "map written_text ws @ s # rest"
  show ?thesis
  proof (cases "1 < length ?ps")
    case True
    have "js_split CHR '','' (js_join1 CHR '','' ?ps) = ?ps"
      using assms written_no_comma part_no_comma(2) by (intro js_split_join1) (auto simp: list_all_iff)
    with pattern_list [OF comma_in_join [OF True]] written_parts [OF assms(1), of status "s # rest"] e t
    show ?thesis by simp
  next
    case False
    then have "ws = []" "rest = []" by simp_all
    with e t show ?thesis by (simp add: status_pattern_parts any_holds_def js_trim_def [of "[]"])
  qed
qed

theorem status_pattern_meaning_witness:
  "matchesStatusPattern 304 ''2xx, 300-310'' = Some True"
proof -
  let ?ws = "[([], Class_of 2, []), ('' '', Between 300 310, [])]"
  have n: "js_nat 2 = ''2''" "js_nat 300 = ''300''" "js_nat 310 = ''310''" by code_simp+
  have ok: "list_all written_ok ?ws" by (simp add: blank_def js_is_space_def)
  show ?thesis using status_pattern_meaning [OF _ ok, of 304] by (simp add: n any_holds_def)
qed

theorem open_pattern_diverges_witness:
  "matchesStatusPattern 404 ''200,'' = None \<and> matchesStatusPattern 200 ''200,'' = Some True \<and>
   matchesStatusPattern 404 [] = None"
proof -
  let ?ws = "[([], Exact 200, [])]"
  have n: "js_nat 200 = ''200''" by code_simp
  have ok: "list_all written_ok ?ws" "blank []" by (simp_all add: blank_def)
  have "matchesStatusPattern status ''200,'' = (if status = 200 then Some True else None)" for status
    using open_pattern_diverges [OF ok, of "[]" status] by (simp add: n any_holds_def)
  moreover have "matchesStatusPattern 404 [] = None"
    using open_pattern_diverges [OF _ ok(2), of "[]" "[]" 404] by (simp add: any_holds_def)
  ultimately show ?thesis by simp
qed

section \<open>Headers\<close>

definition findHeader :: "string record_bag \<Rightarrow> string \<Rightarrow> string option" where
  "findHeader headers name = map_option snd (find (\<lambda>(k, v). js_lower k = js_lower name) headers)"

datatype assertion_operator = AO_exists | AO_equals | AO_contains | AO_regex

record check_result =
  cr_pass :: bool
  cr_expected :: string
  cr_actual :: string

definition result :: "bool \<Rightarrow> string \<Rightarrow> string \<Rightarrow> check_result" where
  "result pass expected actual = \<lparr>cr_pass = pass, cr_expected = expected, cr_actual = actual\<rparr>"

definition or_empty :: "string option \<Rightarrow> string" where
  "or_empty t = (case t of None \<Rightarrow> [] | Some s \<Rightarrow> s)"

definition evaluateHeaderOp :: "js_host \<Rightarrow> string option \<Rightarrow> assertion_operator \<Rightarrow> string option \<Rightarrow> check_result" where
  "evaluateHeaderOp h headerVal operator expected =
     (let actual = (case headerVal of None \<Rightarrow> ''(not present)'' | Some v \<Rightarrow> v) in
      case operator of
        AO_exists \<Rightarrow> result (headerVal \<noteq> None) ''header exists'' actual
      | AO_equals \<Rightarrow> result (headerVal = expected) (or_empty expected) actual
      | AO_contains \<Rightarrow>
          result (case headerVal of None \<Rightarrow> False | Some v \<Rightarrow> js_includes v (or_empty expected))
            (''contains \"'' @ or_empty expected @ ''\"'') actual
      | AO_regex \<Rightarrow>
          (let shown = (case expected of None \<Rightarrow> ''undefined'' | Some e \<Rightarrow> e) in
           case regex_compile h (or_empty expected) [] of
             None \<Rightarrow> result False (''valid regex /'' @ shown @ ''/'') ''invalid regex pattern''
           | Some test \<Rightarrow>
               result (case headerVal of None \<Rightarrow> False | Some v \<Rightarrow> test v) (''matches /'' @ shown @ ''/'') actual))"

section \<open>Field operators\<close>

datatype field_operator =
    FO_equals | FO_not_equals | FO_greater_than | FO_greater_than_or_equal | FO_less_than | FO_less_than_or_equal
  | FO_contains | FO_not_contains | FO_starts_with | FO_ends_with | FO_regex | FO_is_true | FO_is_false
  | FO_is_null | FO_is_not_null | FO_is_empty | FO_is_not_empty | FO_exists | FO_not_exists | FO_is_type
  | FO_in | FO_not_in | FO_between | FO_close_to

definition toNumber :: "check_env \<Rightarrow> json \<Rightarrow> rat option" where
  "toNumber env v = (case v of
     JNum n \<Rightarrow> Some n
   | JStr t \<Rightarrow> if js_trim t = [] then None else ce_number env t
   | _ \<Rightarrow> None)"

definition stringify :: "js_host \<Rightarrow> json \<Rightarrow> string" where
  "stringify h v = (case v of JUndef \<Rightarrow> ''undefined'' | JStr t \<Rightarrow> t | _ \<Rightarrow> json_stringify h v)"

definition stripQuotes :: "string \<Rightarrow> string" where
  "stripQuotes s =
     (if (js_starts_with s [CHR 0x22] \<and> js_ends_with s [CHR 0x22]) \<or> (js_starts_with s [CHR 0x27] \<and> js_ends_with s [CHR 0x27])
      then js_inner s else s)"

definition parseListItems :: "js_host \<Rightarrow> string \<Rightarrow> json list" where
  "parseListItems h raw = (case json_parse h raw of
     Some (JArr vs) \<Rightarrow> vs
   | _ \<Rightarrow> map (\<lambda>s. JStr (stripQuotes (js_trim s))) (js_split CHR '','' raw))"

text \<open>\<open>split(/\s+/)\<close>.\<close>

fun split_spaces :: "string \<Rightarrow> string list" where
  "split_spaces [] = [[]]"
| "split_spaces (c # cs) =
     (if js_is_space c then (if cs \<noteq> [] \<and> js_is_space (hd cs) then split_spaces cs else [] # split_spaces cs)
      else (case split_spaces cs of [] \<Rightarrow> [[c]] | w # ws \<Rightarrow> (c # w) # ws))"

definition bounds_of :: "string \<Rightarrow> string list" where
  "bounds_of raw = (if js_includes raw '','' then map js_trim (js_split CHR '','' raw) else split_spaces (js_trim raw))"

definition nth_number :: "check_env \<Rightarrow> string list \<Rightarrow> nat \<Rightarrow> rat option" where
  "nth_number env parts i = (if i < length parts then ce_number env (parts ! i) else None)"

definition number_text :: "js_host \<Rightarrow> rat option \<Rightarrow> string" where
  "number_text h n = (case n of None \<Rightarrow> ''NaN'' | Some q \<Rightarrow> num_to_string h q)"

text \<open>What an expected text stands for: its JSON value, or itself.\<close>

definition expected_json :: "js_host \<Rightarrow> string \<Rightarrow> string option" where
  "expected_json h raw = json_text h (case json_parse h raw of Some v \<Rightarrow> v | None \<Rightarrow> JStr raw)"

definition text_of :: "js_host \<Rightarrow> json \<Rightarrow> string" where
  "text_of h v = (case v of JStr t \<Rightarrow> t | _ \<Rightarrow> or_empty (json_text h v))"

definition number_check :: "check_env \<Rightarrow> (rat \<Rightarrow> rat \<Rightarrow> bool) \<Rightarrow> string \<Rightarrow> json \<Rightarrow> string \<Rightarrow> check_result" where
  "number_check env cmp sign v raw =
     (case (toNumber env v, toNumber env (JStr raw)) of
        (Some a, Some b) \<Rightarrow> result (cmp a b) (sign @ num_to_string (ce_host env) b) (num_to_string (ce_host env) a)
      | _ \<Rightarrow> result False (sign @ raw) (stringify (ce_host env) v))"

definition is_empty_value :: "json \<Rightarrow> bool" where
  "is_empty_value v = (v = JStr [] \<or> v = JNull \<or> v = JUndef \<or> v = JArr [] \<or> v = JObj [])"

definition type_of :: "json \<Rightarrow> string" where
  "type_of v = (case v of JNull \<Rightarrow> ''null'' | JArr _ \<Rightarrow> ''array'' | _ \<Rightarrow> js_typeof v)"

definition list_text :: "js_host \<Rightarrow> json list \<Rightarrow> string" where
  "list_text h items = js_join '', '' (map (\<lambda>v. or_empty (json_text h v)) items)"

definition evaluateFieldOperator ::
  "check_env \<Rightarrow> json \<Rightarrow> field_operator \<Rightarrow> string option \<Rightarrow> string \<Rightarrow> check_result" where
  "evaluateFieldOperator env v operator operatorValue expectedValue =
     (let h = ce_host env; raw = (case operatorValue of None \<Rightarrow> expectedValue | Some t \<Rightarrow> t);
          actual = stringify h v; shown = (case json_text h v of None \<Rightarrow> ''undefined'' | Some t \<Rightarrow> t);
          same = (json_text h v = expected_json h raw); inside = (json_text h v \<in> set (map (json_text h) (parseListItems h raw)));
          listed = list_text h (parseListItems h raw); parts = bounds_of raw
      in case operator of
        FO_equals \<Rightarrow> result same (''equals '' @ raw) shown
      | FO_not_equals \<Rightarrow> result (\<not> same) (''not equals '' @ raw) shown
      | FO_greater_than \<Rightarrow> number_check env (\<lambda>a b. a > b) ''> '' v raw
      | FO_greater_than_or_equal \<Rightarrow> number_check env (\<lambda>a b. a \<ge> b) ''>= '' v raw
      | FO_less_than \<Rightarrow> number_check env (\<lambda>a b. a < b) ''< '' v raw
      | FO_less_than_or_equal \<Rightarrow> number_check env (\<lambda>a b. a \<le> b) ''<= '' v raw
      | FO_contains \<Rightarrow> result (js_includes (text_of h v) raw) (''contains \"'' @ raw @ ''\"'') actual
      | FO_not_contains \<Rightarrow> result (\<not> js_includes (text_of h v) raw) (''not contains \"'' @ raw @ ''\"'') actual
      | FO_starts_with \<Rightarrow> result (js_starts_with (text_of h v) raw) (''starts with \"'' @ raw @ ''\"'') actual
      | FO_ends_with \<Rightarrow> result (js_ends_with (text_of h v) raw) (''ends with \"'' @ raw @ ''\"'') actual
      | FO_regex \<Rightarrow>
          (if raw = [] then result False ''non-empty regex pattern'' ''empty pattern''
           else case regex_compile h raw [] of
             None \<Rightarrow> result False (''valid regex /'' @ raw @ ''/'') ''invalid regex pattern''
           | Some test \<Rightarrow> result (test (text_of h v)) (''matches /'' @ raw @ ''/'') actual)
      | FO_is_true \<Rightarrow> result (v = JBool True \<or> v = JStr ''true'') ''is true'' actual
      | FO_is_false \<Rightarrow> result (v = JBool False \<or> v = JStr ''false'') ''is false'' actual
      | FO_is_null \<Rightarrow> result (v = JNull) ''is null'' actual
      | FO_is_not_null \<Rightarrow> result (\<not> is_nullish v) ''is not null'' actual
      | FO_is_empty \<Rightarrow> result (is_empty_value v) ''is empty'' actual
      | FO_is_not_empty \<Rightarrow> result (\<not> is_empty_value v) ''is not empty'' actual
      | FO_exists \<Rightarrow> result (v \<noteq> JUndef) ''exists'' actual
      | FO_not_exists \<Rightarrow> result (v = JUndef) ''not exists'' actual
      | FO_is_type \<Rightarrow> result (type_of v = js_lower raw) (''is type '' @ js_lower raw) (''type: '' @ type_of v)
      | FO_in \<Rightarrow> result inside (''in ['' @ listed @ '']'') actual
      | FO_not_in \<Rightarrow> result (\<not> inside) (''not in ['' @ listed @ '']'') actual
      | FO_between \<Rightarrow>
          (let lo = nth_number env parts 0; hi = nth_number env parts 1;
               expected = ''between '' @ number_text h lo @ '' and '' @ number_text h hi
           in case (toNumber env v, lo, hi) of
                (Some a, Some l, Some u) \<Rightarrow> result (l \<le> a \<and> a \<le> u) expected (num_to_string h a)
              | _ \<Rightarrow> result False expected actual)
      | FO_close_to \<Rightarrow>
          (let target = nth_number env parts 0;
               tolerance = (if 1 < length parts then nth_number env parts 1 else Some (1 / 100));
               expected = ''close to '' @ number_text h target @ '' +-'' @ number_text h tolerance
           in case (toNumber env v, target) of
                (Some a, Some t) \<Rightarrow>
                  result (case tolerance of None \<Rightarrow> False | Some d \<Rightarrow> \<bar>a - t\<bar> \<le> d) expected (num_to_string h a)
              | _ \<Rightarrow> result False expected actual))"

text \<open>The operators that negate each other.\<close>

fun opposite :: "field_operator \<Rightarrow> field_operator option" where
  "opposite FO_equals = Some FO_not_equals"
| "opposite FO_contains = Some FO_not_contains"
| "opposite FO_is_empty = Some FO_is_not_empty"
| "opposite FO_exists = Some FO_not_exists"
| "opposite FO_in = Some FO_not_in"
| "opposite operator = None"

lemma opposite_operators:
  "opposite operator = Some operator' \<Longrightarrow>
     cr_pass (evaluateFieldOperator env v operator' w e) = (\<not> cr_pass (evaluateFieldOperator env v operator w e))"
  by (cases operator) (auto simp: evaluateFieldOperator_def Let_def result_def)

end
