(* ===== verification/Field_Rules.thy ===== *)
theory Field_Rules
  imports Validation
begin

text \<open>
  The field rules of a scenario (\<open>validate\<close> and its helpers in \<open>src/engine/core/validator.ts\<close>): each
  rule at its own path, or, with unordered arrays, the rules of one array item at any index of the
  array, and the guesses at other paths when none of the paths exists.

  The lemmas show that accepted unordered rules hold at distinct indices of their arrays, that rows
  listed in ascending order lose nothing against the ordered check, and two ways in which the
  unordered check rejects what the ordered one accepts.
\<close>

section \<open>Rules\<close>

record expected_field =
  ef_jsonPath :: string
  ef_expectedValue :: string
  ef_operator :: "field_operator option"
  ef_operatorValue :: "string option"
  ef_negate :: bool

datatype validation_mode = VM_none | VM_full | VM_selective

record validation_config =
  vc_mode :: validation_mode
  vc_expectedJson :: "string option"
  vc_expectedFields :: "expected_field list"
  vc_unorderedArrays :: bool

definition field_operator_result :: "check_env \<Rightarrow> expected_field \<Rightarrow> field_operator \<Rightarrow> json \<Rightarrow> check_result" where
  "field_operator_result env f operator v =
     evaluateFieldOperator env v operator (ef_operatorValue f) (ef_expectedValue f)"

definition field_passes :: "check_env \<Rightarrow> expected_field \<Rightarrow> json \<Rightarrow> bool" where
  "field_passes env f v =
     (let pass = (case ef_operator f of
            Some operator \<Rightarrow> cr_pass (field_operator_result env f operator v)
          | None \<Rightarrow> json_text (ce_host env) v = expected_json (ce_host env) (ef_expectedValue f))
      in if ef_negate f then \<not> pass else pass)"

definition field_actual :: "check_env \<Rightarrow> expected_field \<Rightarrow> json \<Rightarrow> string" where
  "field_actual env f v =
     (case ef_operator f of
        Some operator \<Rightarrow> cr_actual (field_operator_result env f operator v)
      | None \<Rightarrow> (case json_text (ce_host env) v of None \<Rightarrow> ''undefined'' | Some t \<Rightarrow> t))"

definition field_expected :: "check_env \<Rightarrow> expected_field \<Rightarrow> json \<Rightarrow> string" where
  "field_expected env f v =
     (case ef_operator f of
        Some operator \<Rightarrow> (if ef_negate f then ''NOT '' else []) @ cr_expected (field_operator_result env f operator v)
      | None \<Rightarrow> (if ef_negate f then ''NOT equals '' else []) @ ef_expectedValue f)"

definition validateFields :: "check_env \<Rightarrow> expected_field list \<Rightarrow> json \<Rightarrow> failure list" where
  "validateFields env rules body =
     List.map_filter (\<lambda>f. let v = getByPath body (ef_jsonPath f) in
       if field_passes env f v then None
       else Some (fail (ef_jsonPath f) (field_expected env f v) (field_actual env f v))) rules"

section \<open>Unordered arrays\<close>

text \<open>Does a text end with an index in brackets? \<open>.\<close> in a pattern matches no line break.\<close>

definition is_row :: "string \<Rightarrow> bool" where
  "is_row p =
     (let r = rev p; t = tl r; rest = dropWhile js_is_digit t in
      r \<noteq> [] \<and> hd r = CHR '']'' \<and> takeWhile js_is_digit t \<noteq> [] \<and> rest \<noteq> [] \<and> hd rest = CHR ''['' \<and>
      LF \<notin> set p \<and> CR \<notin> set p)"

text \<open>\<open>/^(.*\[\d+\])/\<close>: the longest such row.\<close>

definition row_prefix :: "string \<Rightarrow> string option" where
  "row_prefix path = (case filter is_row (prefixes path) of [] \<Rightarrow> None | ps \<Rightarrow> Some (last ps))"

definition index_here :: "string \<Rightarrow> bool" where
  "index_here cs =
     (let rest = dropWhile js_is_digit cs in takeWhile js_is_digit cs \<noteq> [] \<and> rest \<noteq> [] \<and> hd rest = CHR '']'')"

lemma after_index_shorter [termination_simp]: "length (dropWhile P cs) - Suc 0 < Suc (length cs)"
  using length_dropWhile_le [of P cs] by simp

text \<open>\<open>replace(/\[(\d+)\]/g, by)\<close>.\<close>

fun replace_indices :: "string \<Rightarrow> string \<Rightarrow> string" where
  "replace_indices by [] = []"
| "replace_indices by (c # cs) =
     (if c = CHR ''['' \<and> index_here cs then by @ replace_indices by (tl (dropWhile js_is_digit cs))
      else c # replace_indices by cs)"

definition array_path :: "string \<Rightarrow> string" where
  "array_path pattern = (if js_ends_with pattern ''[*]'' then take (length pattern - 3) pattern else pattern)"

definition push_group :: "(string \<times> 'a list) list \<Rightarrow> string \<Rightarrow> 'a \<Rightarrow> (string \<times> 'a list) list" where
  "push_group m k x = rec_set m k (rec_get_or [] m k @ [x])"

text \<open>The rules without an index, and the rows with their rules.\<close>

definition row_groups :: "expected_field list \<Rightarrow> expected_field list \<times> (string \<times> expected_field list) list" where
  "row_groups rules = foldl (\<lambda>(plain, rows) f.
     case row_prefix (ef_jsonPath f) of Some p \<Rightarrow> (plain, push_group rows p f) | None \<Rightarrow> (plain @ [f], rows)) ([], []) rules"

definition array_groups ::
  "(string \<times> expected_field list) list \<Rightarrow> (string \<times> (string \<times> expected_field list) list) list" where
  "array_groups rows = foldl (\<lambda>m row. push_group m (replace_indices ''[*]'' (fst row)) row) [] rows"

definition candidate_path :: "string \<Rightarrow> nat \<Rightarrow> expected_field \<Rightarrow> string" where
  "candidate_path row i f = replace_indices (''['' @ js_nat i @ '']'') row @ drop (length row) (ef_jsonPath f)"

definition passes_at :: "check_env \<Rightarrow> json \<Rightarrow> string \<Rightarrow> nat \<Rightarrow> expected_field \<Rightarrow> bool" where
  "passes_at env body row i f = field_passes env f (getByPath body (candidate_path row i f))"

definition row_holds :: "check_env \<Rightarrow> json \<Rightarrow> string \<Rightarrow> expected_field list \<Rightarrow> nat \<Rightarrow> bool" where
  "row_holds env body row fs i = list_all (passes_at env body row i) fs"

definition match_count :: "check_env \<Rightarrow> json \<Rightarrow> string \<Rightarrow> expected_field list \<Rightarrow> nat \<Rightarrow> nat" where
  "match_count env body row fs i = length (filter (passes_at env body row i) fs)"

datatype row_outcome = Row_matched nat | Row_partial nat | Row_none

text \<open>The indices in turn; \<open>best\<close> is the first index with most of the rules, when it has any.\<close>

fun scan_row :: "(nat \<Rightarrow> bool) \<Rightarrow> (nat \<Rightarrow> nat) \<Rightarrow> nat list \<Rightarrow> nat option \<Rightarrow> row_outcome" where
  "scan_row holds hits [] best = (case best of None \<Rightarrow> Row_none | Some i \<Rightarrow> Row_partial i)"
| "scan_row holds hits (i # is) best =
     (if holds i then Row_matched i
      else scan_row holds hits is
        (if hits i > (case best of None \<Rightarrow> 0 | Some j \<Rightarrow> hits j) then Some i else best))"

definition strip_end_quotes :: "string \<Rightarrow> string" where
  "strip_end_quotes s =
     (let t = (if js_starts_with s [CHR 0x22] then tl s else s)
      in if js_ends_with t [CHR 0x22] then butlast t else t)"

definition drop_dot :: "string \<Rightarrow> string" where
  "drop_dot s = (if js_starts_with s ''.'' then tl s else s)"

definition partial_failures ::
  "check_env \<Rightarrow> json \<Rightarrow> string \<Rightarrow> expected_field list \<Rightarrow> nat \<Rightarrow> failure list" where
  "partial_failures env body row fs i =
     (let context = js_join '', '' (map (\<lambda>f. drop_dot (drop (length row) (ef_jsonPath f)) @ ''='' @ ef_expectedValue f)
            (filter (passes_at env body row i) fs))
      in map (\<lambda>f. fail (ef_jsonPath f) (ef_expectedValue f)
             (strip_end_quotes (field_actual env f (getByPath body (candidate_path row i f))) @
                '' (matched by '' @ context @ '' at ['' @ js_nat i @ ''])''))
           (filter (\<lambda>f. \<not> passes_at env body row i f) fs))"

fun match_rows ::
  "check_env \<Rightarrow> json \<Rightarrow> nat \<Rightarrow> nat list \<Rightarrow> (string \<times> expected_field list) list \<Rightarrow> failure list" where
  "match_rows env body len used [] = []"
| "match_rows env body len used ((row, fs) # rows) =
     (case scan_row (row_holds env body row fs) (match_count env body row fs)
             (filter (\<lambda>i. i \<notin> set used) [0..<len]) None of
        Row_matched i \<Rightarrow> match_rows env body len (i # used) rows
      | Row_partial i \<Rightarrow> partial_failures env body row fs i @ match_rows env body len used rows
      | Row_none \<Rightarrow>
          map (\<lambda>f. fail (ef_jsonPath f) (ef_expectedValue f) ''no matching item found in array'') fs @
            match_rows env body len used rows)"

definition array_length :: "json \<Rightarrow> string \<Rightarrow> nat" where
  "array_length body pattern =
     (case (if array_path pattern \<noteq> [] then getByPath body (array_path pattern) else body) of
        JArr vs \<Rightarrow> length vs | _ \<Rightarrow> 0)"

definition array_failures ::
  "check_env \<Rightarrow> json \<Rightarrow> string \<times> (string \<times> expected_field list) list \<Rightarrow> failure list" where
  "array_failures env body g =
     (if array_length body (fst g) = 0 then concat (map (\<lambda>(row, fs). validateFields env fs body) (snd g))
      else match_rows env body (array_length body (fst g)) [] (snd g))"

definition validateFieldsUnordered :: "check_env \<Rightarrow> expected_field list \<Rightarrow> json \<Rightarrow> failure list" where
  "validateFieldsUnordered env rules body =
     validateFields env (fst (row_groups rules)) body @
       concat (map (array_failures env body) (array_groups (snd (row_groups rules))))"

section \<open>Other paths, and the verdict on a body\<close>

definition path_missing :: "failure \<Rightarrow> bool" where
  "path_missing f = (fd_actual f = Some ''undefined'' \<or> fd_actual f = None)"

definition conclusive :: "failure list \<Rightarrow> bool" where
  "conclusive failures = (failures = [] \<or> \<not> list_all path_missing failures)"

fun join_brackets :: "string \<Rightarrow> string" where
  "join_brackets (c # d # cs) =
     (if c = CHR ''.'' \<and> d = CHR ''['' then d # join_brackets cs else c # join_brackets (d # cs))"
| "join_brackets s = s"

definition first_segment :: "expected_field list \<Rightarrow> string" where
  "first_segment rules = (case rules of [] \<Rightarrow> [] | f # _ \<Rightarrow> takeWhile (\<lambda>c. \<not> path_stop c) (ef_jsonPath f))"

fun first_key :: "((json \<Rightarrow> expected_field list \<Rightarrow> failure list)) \<Rightarrow> expected_field list \<Rightarrow> json \<Rightarrow> json record_bag \<Rightarrow> failure list option" where
  "first_key check rules body [] = None"
| "first_key check rules body ((k, v) # kvs) =
     (if is_object v then
        (let prefixed = check body (map (\<lambda>f. f\<lparr>ef_jsonPath := join_brackets (k @ ''.'' @ ef_jsonPath f)\<rparr>) rules);
             direct = check v rules
         in if conclusive prefixed then Some prefixed
            else if conclusive direct then Some direct
            else first_key check rules body kvs)
      else first_key check rules body kvs)"

definition tryRemapPaths :: "check_env \<Rightarrow> expected_field list \<Rightarrow> json \<Rightarrow> bool \<Rightarrow> failure list option" where
  "tryRemapPaths env rules body unordered =
     (let check = (\<lambda>b fs. if unordered then validateFieldsUnordered env fs b else validateFields env fs b) in
      case body of
        JArr vs \<Rightarrow>
          (let seg = first_segment rules;
               stripped = check body (map (\<lambda>f. f\<lparr>ef_jsonPath := drop_dot (drop (length seg) (ef_jsonPath f))\<rparr>) rules)
           in if seg \<noteq> [] \<and> list_all (\<lambda>f. js_starts_with (ef_jsonPath f) seg) rules \<and> conclusive stripped
              then Some stripped else None)
      | JObj fs \<Rightarrow> first_key check rules body fs
      | _ \<Rightarrow> None)"

definition validate :: "check_env \<Rightarrow> validation_config \<Rightarrow> json \<Rightarrow> failure list" where
  "validate env config body =
     (case vc_mode config of
        VM_none \<Rightarrow> []
      | VM_full \<Rightarrow>
          (case vc_expectedJson config of
             None \<Rightarrow> []
           | Some t \<Rightarrow>
               (if t = [] then []
                else case json_parse (ce_host env) t of
                  None \<Rightarrow> [fail ''(parse)'' ''valid JSON'' ''parse error in expected JSON'']
                | Some expected \<Rightarrow> deepCompare (ce_host env) expected body []))
      | VM_selective \<Rightarrow>
          (let rules = vc_expectedFields config;
               failures = (if vc_unorderedArrays config then validateFieldsUnordered env rules body
                 else validateFields env rules body)
           in if rules = [] then []
              else if failures \<noteq> [] \<and> list_all path_missing failures
              then (case tryRemapPaths env rules body (vc_unorderedArrays config) of Some r \<Rightarrow> r | None \<Rightarrow> failures)
              else failures))"

section \<open>Groups\<close>

lemma group_get:
  "rec_get_or [] (foldl (\<lambda>m x. push_group m (key x) x) m xs) k = rec_get_or [] m k @ filter (\<lambda>x. key x = k) xs"
  by (induction xs arbitrary: m) (simp_all add: push_group_def)

lemma group_wf: "rec_wf m \<Longrightarrow> rec_wf (foldl (\<lambda>m x. push_group m (key x) x) m xs)"
  by (induction xs arbitrary: m) (simp_all add: push_group_def)

lemma group_keys: "fst ` set (foldl (\<lambda>m x. push_group m (key x) x) m xs) = fst ` set m \<union> key ` set xs"
  by (induction xs arbitrary: m) (auto simp: push_group_def)

lemma group_member:
  assumes "(k, ys) \<in> set (foldl (\<lambda>m x. push_group m (key x) x) [] xs)"
  shows "ys = filter (\<lambda>x. key x = k) xs \<and> ys \<noteq> []"
proof -
  let ?m = "foldl (\<lambda>m x. push_group m (key x) x) [] xs"
  have "rec_get ?m k = Some ys" using assms rec_wf_get_iff [OF group_wf [of "[]" key xs]] by simp
  then have ys: "ys = filter (\<lambda>x. key x = k) xs" using group_get [of key "[]" xs k] by (simp add: rec_get_or_def)
  moreover have "k \<in> key ` set xs" using assms group_keys [of key "[]" xs] by force
  ultimately show ?thesis by (auto simp: filter_empty_conv)
qed

lemma group_present:
  assumes "x \<in> set xs"
  shows "(key x, filter (\<lambda>y. key y = key x) xs) \<in> set (foldl (\<lambda>m x. push_group m (key x) x) [] xs)"
proof -
  have "key x \<in> fst ` set (foldl (\<lambda>m x. push_group m (key x) x) [] xs)"
    using assms group_keys [of key "[]" xs] by simp
  then obtain ys where "(key x, ys) \<in> set (foldl (\<lambda>m x. push_group m (key x) x) [] xs)" by auto
  moreover from this have "ys = filter (\<lambda>y. key y = key x) xs" using group_member [of "key x" ys key xs] by blast
  ultimately show ?thesis by simp
qed

definition rule_row :: "expected_field \<Rightarrow> string option" where
  "rule_row f = row_prefix (ef_jsonPath f)"


definition row_pattern :: "string \<Rightarrow> string" where
  "row_pattern p = replace_indices ''[*]'' p"

lemma row_groups_split:
  "row_groups rules = (filter (\<lambda>f. rule_row f = None) rules,
     foldl (\<lambda>m f. push_group m (the (rule_row f)) f) [] (filter (\<lambda>f. rule_row f \<noteq> None) rules))"
proof -
  have "foldl (\<lambda>(plain, rows) f. case row_prefix (ef_jsonPath f) of
          Some p \<Rightarrow> (plain, push_group rows p f) | None \<Rightarrow> (plain @ [f], rows)) (plain, rows) rules =
      (plain @ filter (\<lambda>f. rule_row f = None) rules,
       foldl (\<lambda>m f. push_group m (the (rule_row f)) f) rows (filter (\<lambda>f. rule_row f \<noteq> None) rules))" for plain rows
    by (induction rules arbitrary: plain rows) (auto simp: rule_row_def split: option.split)
  then show ?thesis by (simp add: row_groups_def)
qed

lemma row_fields:
  "filter (\<lambda>f. the (rule_row f) = p) (filter (\<lambda>f. rule_row f \<noteq> None) rules) = filter (\<lambda>f. rule_row f = Some p) rules"
  by (induction rules) auto

lemma row_member:
  assumes "(p, fs) \<in> set (snd (row_groups rules))"
  shows "fs = filter (\<lambda>f. rule_row f = Some p) rules \<and> fs \<noteq> []"
  using group_member [OF assms [unfolded row_groups_split snd_conv]] unfolding row_fields .

lemma row_present:
  assumes "f \<in> set rules" "rule_row f = Some p"
  shows "(p, filter (\<lambda>f. rule_row f = Some p) rules) \<in> set (snd (row_groups rules))"
proof -
  have "f \<in> set (filter (\<lambda>f. rule_row f \<noteq> None) rules)" using assms by simp
  from group_present [OF this, of "\<lambda>f. the (rule_row f)"] show ?thesis
    unfolding row_groups_split snd_conv assms(2) option.sel row_fields .
qed

lemma rows_distinct: "distinct (map fst (snd (row_groups rules)))"
  using group_wf [of "[]"] by (simp add: row_groups_split rec_wf_def)


lemma array_groups_present:
  "row \<in> set rs \<Longrightarrow>
     (row_pattern (fst row), filter (\<lambda>r. row_pattern (fst r) = row_pattern (fst row)) rs) \<in> set (array_groups rs)"
  using group_present [of row rs "\<lambda>row. row_pattern (fst row)"] by (simp add: array_groups_def row_pattern_def)

section \<open>Matching rows\<close>

lemma scan_matched: "scan_row holds hits is best = Row_matched i \<Longrightarrow> i \<in> set is \<and> holds i"
  by (induction "holds" hits "is" best rule: scan_row.induct) (auto split: option.splits if_splits)

lemma scan_partial:
  "scan_row holds hits is best = Row_partial i \<Longrightarrow> (\<forall>j. best = Some j \<longrightarrow> \<not> holds j) \<Longrightarrow> \<not> holds i"
  by (induction "holds" hits "is" best rule: scan_row.induct) (auto split: option.splits if_splits)

lemma scan_finds:
  "sorted is \<Longrightarrow> r \<in> set is \<Longrightarrow> holds r \<Longrightarrow> \<exists>i. scan_row holds hits is best = Row_matched i \<and> i \<le> r"
proof (induction "holds" hits "is" best rule: scan_row.induct)
  case (2 "holds" hits i "is" best)
  show ?case
  proof (cases "holds i")
    case True
    then show ?thesis using "2.prems" by auto
  next
    case False
    then have "r \<in> set is" using "2.prems" by auto
    then show ?thesis using False "2.IH" "2.prems" by simp
  qed
qed simp

lemma partial_failures_some: "\<not> row_holds env body p fs i \<Longrightarrow> partial_failures env body p fs i \<noteq> []"
  by (auto simp: partial_failures_def row_holds_def list_all_iff Let_def filter_empty_conv)

lemma match_rows_sound:
  assumes "match_rows env body len used rows = []" "distinct (map fst rows)" "\<forall>(p, fs)\<in>set rows. fs \<noteq> []"
  shows "\<exists>ix. inj_on ix (fst ` set rows) \<and>
    (\<forall>(p, fs)\<in>set rows. ix p < len \<and> ix p \<notin> set used \<and> row_holds env body p fs (ix p))"
  using assms
proof (induction rows arbitrary: used)
  case (Cons row rows)
  obtain p fs where row: "row = (p, fs)" by (cases row)
  let ?scan = "scan_row (row_holds env body p fs) (match_count env body p fs) (filter (\<lambda>i. i \<notin> set used) [0..<len]) None"
  have "\<not> row_holds env body p fs i" if "?scan = Row_partial i" for i using scan_partial [OF that] by simp
  then obtain i where i: "?scan = Row_matched i" "match_rows env body len (i # used) rows = []"
    using Cons.prems partial_failures_some [of env body p fs] by (auto simp: row split: row_outcome.splits)
  obtain ix where ix: "inj_on ix (fst ` set rows)"
    "\<forall>(p, fs)\<in>set rows. ix p < len \<and> ix p \<notin> set (i # used) \<and> row_holds env body p fs (ix p)"
    using Cons.IH [OF i(2)] Cons.prems by auto
  have p: "p \<notin> fst ` set rows" using Cons.prems row by simp
  have free: "i < len \<and> i \<notin> set used \<and> row_holds env body p fs i" using scan_matched [OF i(1)] by auto
  have fresh: "i \<notin> ix ` fst ` set rows" using ix(2) by fastforce
  have "inj_on (ix(p := i)) (fst ` set (row # rows))"
    using ix(1) p fresh by (auto simp: row inj_on_def)
  moreover have "\<forall>(q, gs)\<in>set (row # rows). (ix(p := i)) q < len \<and> (ix(p := i)) q \<notin> set used \<and>
      row_holds env body q gs ((ix(p := i)) q)"
    using ix(2) free p by (force simp: row)
  ultimately show ?case by blast
qed auto


section \<open>What the unordered check accepts\<close>

lemma validateFields_nil:
  "validateFields env rules body = [] \<longleftrightarrow> (\<forall>f\<in>set rules. field_passes env f (getByPath body (ef_jsonPath f)))"
  by (auto simp: validateFields_def Let_def List.map_filter_def filter_empty_conv split: if_splits)

lemma unordered_nil:
  "validateFieldsUnordered env rules body = [] \<longleftrightarrow>
     (\<forall>f\<in>set rules. rule_row f = None \<longrightarrow> field_passes env f (getByPath body (ef_jsonPath f))) \<and>
     (\<forall>g\<in>set (array_groups (snd (row_groups rules))). array_failures env body g = [])"
  by (auto simp: validateFieldsUnordered_def validateFields_nil row_groups_split)

definition row_length :: "json \<Rightarrow> string \<Rightarrow> nat" where
  "row_length body p = array_length body (row_pattern p)"

lemma group_sound:
  assumes "validateFieldsUnordered env rules body = []" "array_length body pattern \<noteq> 0"
  shows "\<exists>ix. \<forall>f\<in>set rules. \<forall>p. rule_row f = Some p \<and> row_pattern p = pattern \<longrightarrow>
    ix p < array_length body pattern \<and> passes_at env body p (ix p) f \<and>
    (\<forall>g\<in>set rules. \<forall>q. rule_row g = Some q \<and> row_pattern q = pattern \<and> ix q = ix p \<longrightarrow> q = p)"
proof (cases "\<exists>f\<in>set rules. \<exists>p. rule_row f = Some p \<and> row_pattern p = pattern")
  case True
  let ?rows = "filter (\<lambda>r. row_pattern (fst r) = pattern) (snd (row_groups rules))"
  have member: "(p, filter (\<lambda>f. rule_row f = Some p) rules) \<in> set ?rows"
    if "f \<in> set rules" "rule_row f = Some p" "row_pattern p = pattern" for f p
    using row_present [OF that(1,2)] that(3) by simp
  obtain f p where "f \<in> set rules" "rule_row f = Some p" "row_pattern p = pattern" using True by blast
  then have "(pattern, ?rows) \<in> set (array_groups (snd (row_groups rules)))"
    using array_groups_present [of "(p, filter (\<lambda>f. rule_row f = Some p) rules)" "snd (row_groups rules)"] row_present by simp
  then have "array_failures env body (pattern, ?rows) = []" using assms(1) unfolding unordered_nil by blast
  then have none: "match_rows env body (array_length body pattern) [] ?rows = []"
    using assms(2) by (simp add: array_failures_def)
  have "\<forall>(p, fs)\<in>set ?rows. fs \<noteq> []" using row_member by fastforce
  moreover have "distinct (map fst ?rows)" using rows_distinct by (rule distinct_map_filter)
  ultimately obtain ix where ix: "inj_on ix (fst ` set ?rows)"
    "\<forall>(p, fs)\<in>set ?rows. ix p < array_length body pattern \<and> ix p \<notin> set [] \<and> row_holds env body p fs (ix p)"
    using match_rows_sound [OF none] by blast
  show ?thesis
  proof (intro exI [of _ ix] ballI allI impI)
    fix f p assume f: "f \<in> set rules" and p: "rule_row f = Some p \<and> row_pattern p = pattern"
    have holds: "ix p < array_length body pattern" "row_holds env body p (filter (\<lambda>f. rule_row f = Some p) rules) (ix p)"
      using bspec [OF ix(2) member [OF f]] p by auto
    moreover have "passes_at env body p (ix p) f" using holds(2) f p by (auto simp: row_holds_def list_all_iff)
    moreover have "q = p" if "g \<in> set rules" "rule_row g = Some q \<and> row_pattern q = pattern \<and> ix q = ix p" for g q
      using inj_onD [OF ix(1), of q p] member [of f p] member [of g q] f p that by (metis fst_conv image_eqI)
    ultimately show "ix p < array_length body pattern \<and> passes_at env body p (ix p) f \<and>
      (\<forall>g\<in>set rules. \<forall>q. rule_row g = Some q \<and> row_pattern q = pattern \<and> ix q = ix p \<longrightarrow> q = p)" by blast
  qed
qed blast

definition rule_at :: "string \<Rightarrow> field_operator \<Rightarrow> expected_field" where
  "rule_at path operator =
     \<lparr>ef_jsonPath = path, ef_expectedValue = [], ef_operator = Some operator, ef_operatorValue = None, ef_negate = False\<rparr>"

text \<open>C16. An accepted unordered check is witnessed by the response: every rule without an index holds at
  its own path, and every row of rules has an index inside its array at which all its rules hold, no
  two rows of one array sharing an index; where the array is missing or empty the rules hold at their
  own paths.
\<close>

theorem unordered_rules_sound:
  assumes "validateFieldsUnordered env rules body = []"
  shows "\<exists>index. \<forall>f\<in>set rules. case rule_row f of
      None \<Rightarrow> field_passes env f (getByPath body (ef_jsonPath f))
    | Some p \<Rightarrow>
        if row_length body p = 0 then field_passes env f (getByPath body (ef_jsonPath f))
        else index p < row_length body p \<and> passes_at env body p (index p) f \<and>
          (\<forall>g\<in>set rules. \<forall>q. rule_row g = Some q \<and> row_pattern q = row_pattern p \<and> index q = index p \<longrightarrow> q = p)"
proof -
  let ?ok = "\<lambda>pattern ix. \<forall>f\<in>set rules. \<forall>p. rule_row f = Some p \<and> row_pattern p = pattern \<longrightarrow>
    ix p < array_length body pattern \<and> passes_at env body p (ix p) f \<and>
    (\<forall>g\<in>set rules. \<forall>q. rule_row g = Some q \<and> row_pattern q = pattern \<and> ix q = ix p \<longrightarrow> q = p)"
  have "\<forall>pattern. \<exists>ix. array_length body pattern \<noteq> 0 \<longrightarrow> ?ok pattern ix"
  proof
    fix pattern
    show "\<exists>ix. array_length body pattern \<noteq> 0 \<longrightarrow> ?ok pattern ix"
    proof (cases "array_length body pattern = 0")
      case False
      from group_sound [OF assms this] obtain ix where "?ok pattern ix" by (rule exE)
      then have "array_length body pattern \<noteq> 0 \<longrightarrow> ?ok pattern ix" by (rule impI)
      then show ?thesis by (rule exI [of _ ix])
    qed simp
  qed
  from choice [OF this] obtain IX where IX: "\<forall>pattern. array_length body pattern \<noteq> 0 \<longrightarrow> ?ok pattern (IX pattern)"
    by (rule exE)
  have plain: "field_passes env f (getByPath body (ef_jsonPath f))"
    if "f \<in> set rules" "rule_row f = Some p" "row_length body p = 0" for f p
  proof -
    have "array_failures env body (row_pattern p, filter (\<lambda>r. row_pattern (fst r) = row_pattern p) (snd (row_groups rules))) = []"
      using assms array_groups_present [OF row_present [OF that(1,2)]] unfolding unordered_nil by simp
    then have "validateFields env (filter (\<lambda>f. rule_row f = Some p) rules) body = []"
      using row_present [OF that(1,2)] that(3) by (fastforce simp: array_failures_def row_length_def)
    then show ?thesis using that by (simp add: validateFields_nil)
  qed
  show ?thesis
  proof (intro exI [of _ "\<lambda>p. IX (row_pattern p) p"] ballI)
    fix f assume f: "f \<in> set rules"
    show "case rule_row f of None \<Rightarrow> field_passes env f (getByPath body (ef_jsonPath f))
      | Some p \<Rightarrow> if row_length body p = 0 then field_passes env f (getByPath body (ef_jsonPath f))
          else IX (row_pattern p) p < row_length body p \<and> passes_at env body p (IX (row_pattern p) p) f \<and>
            (\<forall>g\<in>set rules. \<forall>q. rule_row g = Some q \<and> row_pattern q = row_pattern p \<and>
               IX (row_pattern q) q = IX (row_pattern p) p \<longrightarrow> q = p)"
    proof (cases "rule_row f")
      case None
      then show ?thesis using assms f by (simp add: unordered_nil)
    next
      case (Some p)
      show ?thesis
      proof (cases "row_length body p = 0")
        case False
        then have "array_length body (row_pattern p) \<noteq> 0" by (simp add: row_length_def)
        from mp [OF spec [OF IX, of "row_pattern p"] this] have "?ok (row_pattern p) (IX (row_pattern p))" .
        from mp [OF spec [OF bspec [OF this f], of p] conjI [OF Some refl]]
        have own: "IX (row_pattern p) p < array_length body (row_pattern p)" "passes_at env body p (IX (row_pattern p) p) f"
          and alone: "\<And>g q. g \<in> set rules \<Longrightarrow> rule_row g = Some q \<Longrightarrow> row_pattern q = row_pattern p \<Longrightarrow>
            IX (row_pattern p) q = IX (row_pattern p) p \<Longrightarrow> q = p" by blast+
        have others: "\<forall>g\<in>set rules. \<forall>q. rule_row g = Some q \<and> row_pattern q = row_pattern p \<and>
            IX (row_pattern q) q = IX (row_pattern p) p \<longrightarrow> q = p"
        proof (intro ballI allI impI, elim conjE)
          fix g q assume g: "g \<in> set rules" "rule_row g = Some q" "row_pattern q = row_pattern p"
            and same: "IX (row_pattern q) q = IX (row_pattern p) p"
          show "q = p" using same unfolding g(3) by (rule alone [OF g])
        qed
        show ?thesis unfolding Some option.case row_length_def if_not_P [OF False [unfolded row_length_def]]
          using own others by (intro conjI)
      qed (use plain [OF f Some] Some in simp)
    qed
  qed
qed

theorem unordered_rules_sound_witness:
  "let rules = [rule_at ''[0].a'' FO_is_true, rule_at ''[1].a'' FO_exists];
       items = JArr [JObj [(''a'', JNull)], JObj [(''a'', JBool True)]]
   in \<forall>env. validateFieldsUnordered env rules items = [] \<and>
        (\<exists>index :: string \<Rightarrow> nat. index ''[0]'' < 2 \<and> index ''[1]'' < 2 \<and> index ''[0]'' \<noteq> index ''[1]'' \<and>
           passes_at env items ''[0]'' (index ''[0]'') (rules ! 0))"
proof (unfold Let_def, intro allI conjI)
  fix env
  let ?rules = "[rule_at ''[0].a'' FO_is_true, rule_at ''[1].a'' FO_exists]"
  let ?items = "JArr [JObj [(''a'', JNull)], JObj [(''a'', JBool True)]]"
  show none: "validateFieldsUnordered env ?rules ?items = []" by code_simp
  have rows: "rule_row (rule_at ''[0].a'' FO_is_true) = Some ''[0]'' \<and> rule_row (rule_at ''[1].a'' FO_exists) = Some ''[1]'' \<and>
    row_length ?items ''[0]'' = 2 \<and> row_length ?items ''[1]'' = 2 \<and> row_pattern ''[1]'' = row_pattern ''[0]''" by code_simp
  from unordered_rules_sound [OF none] rows
  show "\<exists>index :: string \<Rightarrow> nat. index ''[0]'' < 2 \<and> index ''[1]'' < 2 \<and> index ''[0]'' \<noteq> index ''[1]'' \<and>
      passes_at env ?items ''[0]'' (index ''[0]'') (?rules ! 0)"
  proof (elim exE, goal_cases)
    case (1 index)
    then show ?case by (intro exI [of _ index]) auto
  qed
qed



text \<open>C39. In any other order a row may be starved: a row takes the first free index at which its rules
hold, although others would do, and is never moved. When that index is the only one left for the next row, the
array is reported as failing.\<close>

theorem first_fit_starves_row:
  assumes "i < len" and "i \<notin> set used" and "row_holds env body p fs i"
    and "\<forall>k<i. k \<in> set used \<or> \<not> row_holds env body p fs k"
    and "\<forall>k<len. k \<in> set used \<or> k = i \<or> \<not> row_holds env body q gs k" and "gs \<noteq> []"
  shows "match_rows env body len used ((p, fs) # (q, gs) # rows) \<noteq> []"
proof -
  let ?free = "\<lambda>used. filter (\<lambda>i. i \<notin> set used) [0..<len]"
  have "i \<in> set (?free used)" "sorted (?free used)" using assms(1,2) by (simp_all add: sorted_wrt_filter)
  then obtain j where j: "scan_row (row_holds env body p fs) (match_count env body p fs) (?free used) None = Row_matched j" "j \<le> i"
    using scan_finds [of "?free used" i "row_holds env body p fs"] assms(3) by blast
  with scan_matched [OF j(1)] assms(4) have "j = i" by (cases "j < i") auto
  note first = j(1) [unfolded this]
  let ?scan = "scan_row (row_holds env body q gs) (match_count env body q gs) (?free (i # used)) None"
  have "?scan \<noteq> Row_matched k" for k using scan_matched [of _ _ "?free (i # used)" None k] assms(5) by fastforce
  moreover have "\<not> row_holds env body q gs k" if "?scan = Row_partial k" for k using scan_partial [OF that] by simp
  ultimately have "match_rows env body len (i # used) ((q, gs) # rows) \<noteq> []"
    using assms(6) partial_failures_some [of env body q gs] by (cases ?scan) auto
  with first show ?thesis by simp
qed

theorem first_fit_starves_row_witness:
  "\<forall>env. match_rows env (JArr [JBool True, JBool False]) 2 []
     [(''[1]'', [rule_at ''[1]'' FO_is_not_null]), (''[0]'', [rule_at ''[0]'' FO_is_true])] \<noteq> []"
proof (rule allI, rule first_fit_starves_row [where i = 0])
  fix env
  let ?items = "JArr [JBool True, JBool False]"
  show "row_holds env ?items ''[1]'' [rule_at ''[1]'' FO_is_not_null] 0" by code_simp
  have "\<not> row_holds env ?items ''[0]'' [rule_at ''[0]'' FO_is_true] 1" by code_simp
  then show "\<forall>k<2. k \<in> set [] \<or> k = 0 \<or> \<not> row_holds env ?items ''[0]'' [rule_at ''[0]'' FO_is_true] k"
    by (simp add: less_2_cases_iff)
qed simp_all

text \<open>So two responses that satisfy every rule at its own path are rejected when arrays are unordered; and in
an array inside an array the same index is put at every level, so an item off the diagonal is never looked at.\<close>

theorem unordered_rejects_ordered:
  "let rows = [rule_at ''[1]'' FO_is_not_null, rule_at ''[0]'' FO_is_true]; items = JArr [JBool True, JBool False];
       nested = [rule_at ''[0][1]'' FO_is_true]; table = JArr [JArr [JBool False, JBool True]]
   in validateFields env rows items = [] \<and> validateFieldsUnordered env rows items \<noteq> [] \<and>
      validateFields env nested table = [] \<and> validateFieldsUnordered env nested table \<noteq> []"
  by code_simp

end
