(* ===== verification/Assertions.thy ===== *)
theory Assertions
  imports Field_Rules
begin

text \<open>
  The assertions of a scenario and the verdict on a response (\<open>src/engine/core/\<close>): one handler for each
  kind of assertion (\<open>validatorAssertionHandlers.ts\<close>), their evaluation with negation
  (\<open>evaluateAssertions\<close> in \<open>validator.ts\<close>) and the result of a request (\<open>validationResult.ts\<close>).

  The clock and \<open>Date\<close>, the schema validator (a package) and the expression evaluator of the workflow
  editor are fields of the environment. A handler that does not return, or throws, gives \<open>None\<close>. The
  lemmas show what a negated assertion means, that the order of the assertions does not matter for the
  verdict, and when a request passes.
\<close>

section \<open>Assertions and their context\<close>

datatype comparison_operator = CO_eq | CO_ne | CO_gt | CO_ge | CO_lt | CO_le

datatype date_reference = Date_today bool \<comment> \<open>UTC\<close> | Date_fixed string

datatype date_precision = DP_day | DP_hour | DP_minute | DP_second | DP_millisecond

datatype contains_mode = CM_any | CM_all | CM_only | CM_none

datatype size_unit = SU_bytes | SU_kb | SU_mb

datatype assertion_kind =
    A_status string
  | A_responseTime rat
  | A_header string assertion_operator "string option"
  | A_regex string string
  | A_arrayLength string comparison_operator rat
  | A_numeric string comparison_operator rat
  | A_date string comparison_operator date_reference
  | A_typeCheck string string
  | A_existence string bool
  | A_arrayContains string string contains_mode
  | A_each string string field_operator "string option"
  | A_containsSubset string string
  | A_jsonSchema string
  | A_bodySize comparison_operator rat size_unit
  | A_datePrecise string comparison_operator string date_precision
  | A_custom string "string option"
  | A_kafkaField string assertion_operator "string option"
  | A_wsField string assertion_operator "string option"
  | A_wsNumericField string comparison_operator rat

record assertion =
  as_kind :: assertion_kind
  as_negate :: bool

record assertion_context =
  ac_httpStatus :: int
  ac_responseTimeMs :: rat
  ac_responseHeaders :: "string record_bag"
  ac_responseBody :: json
  ac_rawBody :: "string option"
  ac_kafkaContext :: "json record_bag" \<comment> \<open>empty when absent\<close>
  ac_wsContext :: "json record_bag"

datatype custom_result = Cu_Value json string \<comment> \<open>with its formatted text\<close> | Cu_Error string | Cu_Throws string

record assertion_env = check_env +
  ae_today :: "bool \<Rightarrow> string"
  ae_iso_day :: "rat \<Rightarrow> string option" \<comment> \<open>\<open>None\<close> where \<open>toISOString\<close> throws\<close>
  ae_instant :: "string \<Rightarrow> rat option" \<comment> \<open>\<open>new Date(text).getTime()\<close>\<close>
  ae_string :: "json \<Rightarrow> string" \<comment> \<open>\<open>String\<close> of a value\<close>
  ae_schema :: "string \<Rightarrow> json \<Rightarrow> string + (string \<times> string option \<times> string) list"
    \<comment> \<open>parsing, compiling and validating: the message of an exception, or the violations\<close>
  ae_evaluate :: "string \<Rightarrow> (string \<Rightarrow> json) \<Rightarrow> custom_result"

section \<open>Helpers\<close>

fun compare_op :: "comparison_operator \<Rightarrow> rat \<Rightarrow> rat \<Rightarrow> bool" where
  "compare_op CO_eq a e = (a = e)"
| "compare_op CO_ne a e = (a \<noteq> e)"
| "compare_op CO_gt a e = (a > e)"
| "compare_op CO_ge a e = (a \<ge> e)"
| "compare_op CO_lt a e = (a < e)"
| "compare_op CO_le a e = (a \<le> e)"

fun formatOp :: "comparison_operator \<Rightarrow> string" where
  "formatOp CO_eq = ''=''"
| "formatOp CO_ne = ''!=''"
| "formatOp CO_gt = ''>''"
| "formatOp CO_ge = ''>=''"
| "formatOp CO_lt = ''<''"
| "formatOp CO_le = ''<=''"

definition path_label :: "string \<Rightarrow> string \<Rightarrow> string" where
  "path_label kind path = ''('' @ kind @ '':'' @ path @ '')''"

definition getSerializedContextBody :: "js_host \<Rightarrow> assertion_context \<Rightarrow> json" where
  "getSerializedContextBody h ctx = (case ac_rawBody ctx of
     Some t \<Rightarrow> JStr t
   | None \<Rightarrow> (case ac_responseBody ctx of
       JStr t \<Rightarrow> JStr t
     | v \<Rightarrow> (case json_text h v of None \<Rightarrow> JUndef | Some t \<Rightarrow> JStr t)))"

definition header_field :: "string \<Rightarrow> assertion_context \<Rightarrow> json" where
  "header_field name ctx =
     (if js_starts_with name ''header.''
      then (case findHeader (ac_responseHeaders ctx) (drop 7 name) of None \<Rightarrow> JUndef | Some v \<Rightarrow> JStr v)
      else JUndef)"

definition resolveKafkaContextField :: "js_host \<Rightarrow> string \<Rightarrow> assertion_context \<Rightarrow> json" where
  "resolveKafkaContextField h name ctx =
     (if name = ''body'' then getSerializedContextBody h ctx
      else if name \<in> set [''key'', ''partition'', ''offset'', ''topic''] then prop_or_undef (ac_kafkaContext ctx) name
      else header_field name ctx)"

definition resolveWsContextField :: "js_host \<Rightarrow> string \<Rightarrow> assertion_context \<Rightarrow> json" where
  "resolveWsContextField h name ctx =
     (if name = ''body'' then getSerializedContextBody h ctx
      else if name = ''type'' then prop_or_undef (ac_wsContext ctx) ''frameType''
      else if name = ''size'' then prop_or_undef (ac_wsContext ctx) ''messageSize''
      else if name \<in> set [''protocol'', ''connectionId'', ''latencyMs'', ''url''] then prop_or_undef (ac_wsContext ctx) name
      else header_field name ctx)"

definition field_text :: "assertion_env \<Rightarrow> json \<Rightarrow> string option" where
  "field_text env v = (case v of JUndef \<Rightarrow> None | JStr t \<Rightarrow> Some t | _ \<Rightarrow> Some (ae_string env v))"

definition host_of :: "assertion_env \<Rightarrow> js_host" where
  "host_of env = ce_host env"

definition number :: "assertion_env \<Rightarrow> rat \<Rightarrow> string" where
  "number env n = num_to_string (host_of env) n"

section \<open>Dates\<close>

fun day_shape :: "string \<Rightarrow> bool" where
  "day_shape [y1, y2, y3, y4, a, m1, m2, b, d1, d2] =
     (list_all js_is_digit [y1, y2, y3, y4, m1, m2, d1, d2] \<and> a = CHR ''-'' \<and> b = CHR ''-'')"
| "day_shape s = False"

text \<open>\<open>None\<close> where the conversion throws.\<close>

definition toDayString :: "assertion_env \<Rightarrow> json \<Rightarrow> string option option" where
  "toDayString env v = (case v of
     JStr t \<Rightarrow> Some (if day_shape (take 10 t) then Some (take 10 t) else None)
   | JNum n \<Rightarrow> map_option Some (ae_iso_day env n)
   | _ \<Rightarrow> Some None)"

definition resolveDate :: "assertion_env \<Rightarrow> date_reference \<Rightarrow> string" where
  "resolveDate env r = (case r of Date_fixed d \<Rightarrow> take 10 d | Date_today utc \<Rightarrow> ae_today env utc)"

fun truncateToUnit :: "rat \<Rightarrow> date_precision \<Rightarrow> rat" where
  "truncateToUnit t DP_millisecond = t"
| "truncateToUnit t DP_second = of_int \<lfloor>t / 1000\<rfloor>"
| "truncateToUnit t DP_minute = of_int \<lfloor>t / 60000\<rfloor>"
| "truncateToUnit t DP_hour = of_int \<lfloor>t / 3600000\<rfloor>"
| "truncateToUnit t DP_day = of_int \<lfloor>t / 86400000\<rfloor>"

fun precision_text :: "date_precision \<Rightarrow> string" where
  "precision_text DP_day = ''day''"
| "precision_text DP_hour = ''hour''"
| "precision_text DP_minute = ''minute''"
| "precision_text DP_second = ''second''"
| "precision_text DP_millisecond = ''millisecond''"

section \<open>Custom expressions\<close>

definition isTruthy :: "json \<Rightarrow> bool" where
  "isTruthy v = (v \<notin> {JBool False, JNum 0, JStr [], JNull, JUndef})"

definition path_char :: "char \<Rightarrow> bool" where
  "path_char c = (js_is_word c \<or> c \<in> set ''.[*]-'')"

fun quoted_part :: "char \<Rightarrow> string \<Rightarrow> string \<times> string" where
  "quoted_part q [] = ([], [])"
| "quoted_part q (c # cs) =
     (if c = q then ([c], cs)
      else if c = CHR 0x5C \<and> cs \<noteq> [] then (case quoted_part q (tl cs) of (s, r) \<Rightarrow> (c # hd cs # s, r))
      else (case quoted_part q cs of (s, r) \<Rightarrow> (c # s, r)))"

fun braced_part :: "nat \<Rightarrow> string \<Rightarrow> string \<times> string" where
  "braced_part 0 s = ([], s)"
| "braced_part (Suc d) [] = ([], [])"
| "braced_part (Suc d) (c # cs) =
     (if c = CHR ''{'' \<and> js_starts_with cs ''{''
      then (case braced_part (Suc (Suc d)) (tl cs) of (t, r) \<Rightarrow> (''{{'' @ t, r))
      else if c = CHR ''}'' \<and> js_starts_with cs ''}''
      then (case braced_part d (tl cs) of (t, r) \<Rightarrow> (''}}'' @ t, r))
      else (case braced_part (Suc d) cs of (t, r) \<Rightarrow> (c # t, r)))"

lemma quoted_part_shorter [termination_simp]: "length (snd (quoted_part q s)) < Suc (length s)"
  by (induction q s rule: quoted_part.induct) (auto split: prod.splits)

lemma braced_part_shorter: "length (snd (braced_part d s)) \<le> length s"
  by (induction d s rule: braced_part.induct) (auto split: prod.splits)

lemma braced_rest_shorter [termination_simp]: "length (snd (braced_part d (tl cs))) < Suc (length cs)"
  using braced_part_shorter [of d "tl cs"] by simp

lemma path_rest_shorter [termination_simp]: "length (dropWhile P (tl cs)) < Suc (length cs)"
  using length_dropWhile_le [of P "tl cs"] by simp

fun wrapCustomExprDollarPaths :: "string \<Rightarrow> string" where
  "wrapCustomExprDollarPaths [] = []"
| "wrapCustomExprDollarPaths (c # cs) =
     (if c = CHR 0x22 \<or> c = CHR 0x27
      then c # fst (quoted_part c cs) @ wrapCustomExprDollarPaths (snd (quoted_part c cs))
      else if c = CHR ''{'' \<and> js_starts_with cs ''{''
      then ''{{'' @ fst (braced_part 1 (tl cs)) @ wrapCustomExprDollarPaths (snd (braced_part 1 (tl cs)))
      else if c = CHR ''$'' \<and> js_starts_with cs ''.''
      then ''{{$.'' @ takeWhile path_char (tl cs) @ ''}}'' @ wrapCustomExprDollarPaths (dropWhile path_char (tl cs))
      else if c = CHR ''$'' \<and> (cs = [] \<or> hd cs \<in> {CHR '')'', CHR '',''} \<or> js_is_space (hd cs))
      then ''{{$}}'' @ wrapCustomExprDollarPaths cs
      else c # wrapCustomExprDollarPaths cs)"

definition resolveVariable :: "assertion_env \<Rightarrow> assertion_context \<Rightarrow> string \<Rightarrow> json" where
  "resolveVariable env ctx name =
     (let h = host_of env in
      if name \<in> set [''$.body'', ''$''] then ac_responseBody ctx
      else if name = ''$.status'' then JNum (of_int (ac_httpStatus ctx))
      else if name = ''$.responseTime'' then JNum (ac_responseTimeMs ctx)
      else if name = ''$.headers'' then JObj (map (\<lambda>(k, v). (k, JStr v)) (ac_responseHeaders ctx))
      else if name = ''$.rawBody'' then JStr (or_empty (ac_rawBody ctx))
      else if js_starts_with name ''$.body.'' then getByPath (ac_responseBody ctx) (''$.'' @ drop 7 name)
      else if js_starts_with name ''$.headers.''
      then (case findHeader (ac_responseHeaders ctx) (drop 10 name) of None \<Rightarrow> JUndef | Some v \<Rightarrow> JStr v)
      else if js_starts_with name ''$.'' then getByPath (ac_responseBody ctx) name
      else if js_starts_with name ''kafka.'' then resolveKafkaContextField h (drop 6 name) ctx
      else if js_starts_with name ''ws.'' then resolveWsContextField h (drop 3 name) ctx
      else JUndef)"

section \<open>Handlers\<close>

definition header_failures :: "string \<Rightarrow> check_result \<Rightarrow> failure list" where
  "header_failures path r = (if cr_pass r then [] else [fail path (cr_expected r) (cr_actual r)])"

definition handleStatus :: "assertion_env \<Rightarrow> assertion_context \<Rightarrow> string \<Rightarrow> failure list option" where
  "handleStatus env ctx expected =
     map_option (\<lambda>ok. if ok then [] else [fail ''(status)'' expected (js_int (ac_httpStatus ctx))])
       (matchesStatusPattern (ac_httpStatus ctx) expected)"

definition handleResponseTime :: "assertion_env \<Rightarrow> assertion_context \<Rightarrow> rat \<Rightarrow> failure list" where
  "handleResponseTime env ctx maxMs =
     (if ac_responseTimeMs ctx > maxMs
      then [fail ''(responseTime)'' (''<= '' @ number env maxMs @ ''ms'') (number env (ac_responseTimeMs ctx) @ ''ms'')]
      else [])"

definition handleHeader ::
  "assertion_env \<Rightarrow> assertion_context \<Rightarrow> string \<Rightarrow> assertion_operator \<Rightarrow> string option \<Rightarrow> failure list" where
  "handleHeader env ctx name operator v =
     header_failures (path_label ''header'' name)
       (evaluateHeaderOp (host_of env) (findHeader (ac_responseHeaders ctx) name) operator v)"

definition handleRegex :: "assertion_env \<Rightarrow> assertion_context \<Rightarrow> string \<Rightarrow> string \<Rightarrow> failure list" where
  "handleRegex env ctx path pattern =
     (let str = stringify (host_of env) (getByPath (ac_responseBody ctx) path); label = path_label ''regex'' path in
      case regex_compile (host_of env) pattern [] of
        None \<Rightarrow> [fail label (''valid regex /'' @ pattern @ ''/'') ''invalid regex pattern'']
      | Some test \<Rightarrow>
          (if test str then []
           else [fail label (''matches /'' @ pattern @ ''/'') (if 200 < length str then take 200 str @ ''...'' else str)]))"

definition handleArrayLength ::
  "assertion_env \<Rightarrow> assertion_context \<Rightarrow> string \<Rightarrow> comparison_operator \<Rightarrow> rat \<Rightarrow> failure list" where
  "handleArrayLength env ctx path operator n =
     (let label = path_label ''arrayLength'' path; wanted = formatOp operator @ '' '' @ number env n in
      case getByPath (ac_responseBody ctx) path of
        JArr vs \<Rightarrow>
          (if compare_op operator (of_nat (length vs)) n then []
           else [fail label (''length '' @ wanted) (''length '' @ js_nat (length vs))])
      | v \<Rightarrow> [fail label (''array with length '' @ wanted)
                (if v = JUndef then ''undefined'' else ''not an array ('' @ js_typeof v @ '')'')])"

definition handleNumeric ::
  "assertion_env \<Rightarrow> assertion_context \<Rightarrow> string \<Rightarrow> comparison_operator \<Rightarrow> rat \<Rightarrow> failure list" where
  "handleNumeric env ctx path operator n =
     (let raw = getByPath (ac_responseBody ctx) path; label = path_label ''numeric'' path;
          wanted = formatOp operator @ '' '' @ number env n
      in if raw = JUndef then [fail label (''numeric value '' @ wanted) ''undefined'']
         else case (case raw of JNum q \<Rightarrow> Some q | _ \<Rightarrow> ce_number_of env raw) of
           None \<Rightarrow> [fail label (''numeric value '' @ wanted) (''not a number: '' @ json_stringify (host_of env) raw)]
         | Some q \<Rightarrow> if compare_op operator q n then [] else [fail label wanted (number env q)])"

definition handleDate ::
  "assertion_env \<Rightarrow> assertion_context \<Rightarrow> string \<Rightarrow> comparison_operator \<Rightarrow> date_reference \<Rightarrow> failure list option" where
  "handleDate env ctx path operator reference =
     (let raw = getByPath (ac_responseBody ctx) path; label = path_label ''date'' path; ref = resolveDate env reference;
          wanted = formatOp operator @ '' '' @ ref
      in map_option (\<lambda>day.
           if raw = JUndef then [fail label (''date '' @ wanted) ''undefined'']
           else case day of
             None \<Rightarrow> [fail label (''date '' @ wanted) (''not a date: '' @ json_stringify (host_of env) raw)]
           | Some d \<Rightarrow>
               if compare_op operator (of_int (locale_compare (host_of env) d ref)) 0 then [] else [fail label wanted d])
         (toDayString env raw))"

definition handleDatePrecise ::
  "assertion_env \<Rightarrow> assertion_context \<Rightarrow> string \<Rightarrow> comparison_operator \<Rightarrow> string \<Rightarrow> date_precision \<Rightarrow> failure list" where
  "handleDatePrecise env ctx path operator reference precision =
     (let raw = getByPath (ac_responseBody ctx) path; label = path_label ''datePrecise'' path;
          wanted = ''date '' @ formatOp operator @ '' '' @ reference; unit = precision_text precision
      in if raw = JUndef then [fail label (wanted @ '' ('' @ unit @ '')'') ''undefined'']
         else case (ae_instant env (ae_string env raw), ae_instant env reference) of
           (None, _) \<Rightarrow> [fail label ''valid date'' (''invalid date: '' @ ae_string env raw)]
         | (Some _, None) \<Rightarrow> [fail label ''valid reference date'' (''invalid reference: '' @ reference)]
         | (Some a, Some r) \<Rightarrow>
             if compare_op operator (truncateToUnit a precision) (truncateToUnit r precision) then []
             else [fail label (wanted @ '' (precision: '' @ unit @ '')'') (ae_string env raw)])"

definition getJsonTypeName :: "json \<Rightarrow> string" where
  "getJsonTypeName v = (if v = JUndef then ''string'' else type_of v)"

definition handleTypeCheck :: "assertion_env \<Rightarrow> assertion_context \<Rightarrow> string \<Rightarrow> string \<Rightarrow> failure list" where
  "handleTypeCheck env ctx path expectedType =
     (let v = getByPath (ac_responseBody ctx) path; label = path_label ''typeCheck'' path in
      if v = JUndef then [fail label (''type '' @ expectedType) ''path not found'']
      else if getJsonTypeName v \<noteq> expectedType then [fail label (''type '' @ expectedType) (''type '' @ getJsonTypeName v)]
      else [])"

definition handleExistence :: "assertion_env \<Rightarrow> assertion_context \<Rightarrow> string \<Rightarrow> bool \<Rightarrow> failure list" where
  "handleExistence env ctx path expectExists =
     (let found = (getByPath (ac_responseBody ctx) path \<noteq> JUndef) in
      if found \<noteq> expectExists
      then [fail (path_label ''existence'' path)
              (if expectExists then ''field exists'' else ''field does not exist'')
              (if found then ''field exists'' else ''field not found'')]
      else [])"

text \<open>A value, or where it is no JSON the text itself.\<close>

definition parseJsonOrRaw :: "js_host \<Rightarrow> string \<Rightarrow> json" where
  "parseJsonOrRaw h t = (case json_parse h t of Some v \<Rightarrow> v | None \<Rightarrow> JStr t)"

definition item_matches :: "js_host \<Rightarrow> json \<Rightarrow> json \<Rightarrow> bool" where
  "item_matches h parsed item =
     (if is_object parsed then deepSubsetMatch h item parsed [] = None
      else (\<not> is_object item \<and> item = parsed) \<or> json_text h item = json_text h parsed)"

definition no_array_text :: "json \<Rightarrow> string" where
  "no_array_text v = (if v = JUndef then ''undefined'' else ''not an array ('' @ js_typeof v @ '')'')"

definition only_failures :: "js_host \<Rightarrow> string \<Rightarrow> json list \<Rightarrow> json list \<Rightarrow> failure list" where
  "only_failures h label wanted items =
     (let unmatched = filter (\<lambda>e. \<not> list_ex (\<lambda>a. deepSubsetMatch h a e [] = None) items) wanted;
          extras = filter (\<lambda>a. \<not> list_ex (\<lambda>e. deepSubsetMatch h a e [] = None) wanted) items;
          parts = (if unmatched \<noteq> [] then [''missing: '' @ json_stringify h (JArr unmatched)] else []) @
            (if extras \<noteq> [] then [''extras: '' @ json_stringify h (JArr extras)] else [])
      in if parts \<noteq> []
         then [fail label (''exactly '' @ js_nat (length wanted) @ '' items (unordered)'') (js_join ''; '' parts)] else [])"

text \<open>The items are compared as sets: how often a value occurs does not matter.\<close>

lemma only_ignores_counts:
  assumes "set wanted = set items" "\<And>v. v \<in> set items \<Longrightarrow> json_wf v"
  shows "only_failures h label wanted items = []"
proof -
  have "\<exists>x\<in>set items. deepSubsetMatch h v x [] = None" "\<exists>x\<in>set items. deepSubsetMatch h x v [] = None" if "v \<in> set items" for v
    using contains_refl [OF assms(2) [OF that], of h] that by blast+
  then show ?thesis by (simp add: only_failures_def filter_empty_conv list_ex_iff Let_def assms(1))
qed

definition handleArrayContains ::
  "assertion_env \<Rightarrow> assertion_context \<Rightarrow> string \<Rightarrow> string \<Rightarrow> contains_mode \<Rightarrow> failure list" where
  "handleArrayContains env ctx path v mode =
     (let h = host_of env; label = path_label ''arrayContains'' path; parsed = parseJsonOrRaw h v;
          matches = item_matches h parsed
      in case getByPath (ac_responseBody ctx) path of
        JArr items \<Rightarrow>
          (let n = js_nat (length items) in case mode of
             CM_any \<Rightarrow>
               (if list_ex matches items then []
                else [fail label (''array contains '' @ v) (''no matching item in '' @ n @ '' items'')])
           | CM_all \<Rightarrow>
               (let failed = length (filter (\<lambda>x. \<not> matches x) items) in
                if 0 < failed
                then [fail label (''all '' @ n @ '' items match '' @ v) (js_nat failed @ '' of '' @ n @ '' items did not match'')]
                else [])
           | CM_only \<Rightarrow> only_failures h label (case parsed of JArr ps \<Rightarrow> ps | p \<Rightarrow> [p]) items
           | CM_none \<Rightarrow>
               (case js_find_index matches items of
                  None \<Rightarrow> []
                | Some i \<Rightarrow> [fail label (''no items match '' @ v) (''item at index '' @ js_nat i @ '' matched'')]))
      | a \<Rightarrow> [fail label ''array containing value'' (no_array_text a)])"

fun operator_text :: "field_operator \<Rightarrow> string" where
  "operator_text FO_equals = ''equals''"
| "operator_text FO_not_equals = ''not_equals''"
| "operator_text FO_greater_than = ''greater_than''"
| "operator_text FO_greater_than_or_equal = ''greater_than_or_equal''"
| "operator_text FO_less_than = ''less_than''"
| "operator_text FO_less_than_or_equal = ''less_than_or_equal''"
| "operator_text FO_contains = ''contains''"
| "operator_text FO_not_contains = ''not_contains''"
| "operator_text FO_starts_with = ''starts_with''"
| "operator_text FO_ends_with = ''ends_with''"
| "operator_text FO_regex = ''regex''"
| "operator_text FO_is_true = ''is_true''"
| "operator_text FO_is_false = ''is_false''"
| "operator_text FO_is_null = ''is_null''"
| "operator_text FO_is_not_null = ''is_not_null''"
| "operator_text FO_is_empty = ''is_empty''"
| "operator_text FO_is_not_empty = ''is_not_empty''"
| "operator_text FO_exists = ''exists''"
| "operator_text FO_not_exists = ''not_exists''"
| "operator_text FO_is_type = ''is_type''"
| "operator_text FO_in = ''in''"
| "operator_text FO_not_in = ''not_in''"
| "operator_text FO_between = ''between''"
| "operator_text FO_close_to = ''close_to''"

definition each_failure ::
  "assertion_env \<Rightarrow> string \<Rightarrow> field_operator \<Rightarrow> string option \<Rightarrow> nat \<times> json \<Rightarrow> string option" where
  "each_failure env fieldPath operator v p =
     (case p of (i, elem) \<Rightarrow>
        (let r = evaluateFieldOperator (check_env.truncate env) (if fieldPath \<noteq> [] then getByPath elem fieldPath else elem) operator v (or_empty v)
         in if cr_pass r then None
            else Some (''['' @ js_nat i @ '']'' @ (if fieldPath \<noteq> [] then ''.'' @ fieldPath else []) @
              '': expected '' @ cr_expected r @ '', got '' @ cr_actual r)))"

definition handleEach ::
  "assertion_env \<Rightarrow> assertion_context \<Rightarrow> string \<Rightarrow> string \<Rightarrow> field_operator \<Rightarrow> string option \<Rightarrow> failure list" where
  "handleEach env ctx path fieldPath operator v =
     (let label = path_label ''each'' path in
      case getByPath (ac_responseBody ctx) path of
        JArr items \<Rightarrow>
          (let failed = List.map_filter (each_failure env fieldPath operator v) (enumerate 0 items);
               summary = (if length failed \<le> 3 then js_join ''; '' failed
                 else js_join ''; '' (take 3 failed) @ '' ... and '' @ js_nat (length failed - 3) @ '' more'')
           in if failed = [] then []
              else [fail label
                (''all '' @ js_nat (length items) @ '' items: '' @ (if fieldPath \<noteq> [] then fieldPath @ '' '' else []) @
                   operator_text operator @ (case v of None \<Rightarrow> [] | Some t \<Rightarrow> if t = [] then [] else '' '' @ t))
                (js_nat (length failed) @ '' of '' @ js_nat (length items) @ '' failed - '' @ summary)])
      | a \<Rightarrow> [fail label ''array where every element satisfies condition'' (no_array_text a)])"

definition handleContainsSubset :: "assertion_env \<Rightarrow> assertion_context \<Rightarrow> string \<Rightarrow> string \<Rightarrow> failure list" where
  "handleContainsSubset env ctx path expected =
     (let h = host_of env; v = getByPath (ac_responseBody ctx) path in
      if v = JUndef then [fail (path_label ''containsSubset'' path) (''contains subset '' @ expected) ''undefined'']
      else case json_parse h expected of
        None \<Rightarrow> [fail (path_label ''containsSubset'' path) ''valid JSON subset'' ''invalid JSON in expected'']
      | Some e \<Rightarrow>
          (case deepSubsetMatch h v e [] of
             None \<Rightarrow> []
           | Some f \<Rightarrow>
               [fail (path_label ''containsSubset'' (path @ (if fd_path f \<noteq> [] then ''.'' @ fd_path f else [])))
                 (case fd_expected f of None \<Rightarrow> expected | Some t \<Rightarrow> t)
                 (case fd_actual f of None \<Rightarrow> json_stringify h v | Some t \<Rightarrow> t)]))"

definition handleJsonSchema :: "assertion_env \<Rightarrow> assertion_context \<Rightarrow> nat \<Rightarrow> string \<Rightarrow> failure list" where
  "handleJsonSchema env ctx index schema =
     (let label = ''(jsonSchema#'' @ js_nat index in
      case ae_schema env schema (ac_responseBody ctx) of
        Inl message \<Rightarrow> [fail (label @ '')'') ''valid JSON Schema'' message]
      | Inr violations \<Rightarrow>
          map (\<lambda>(path, message, keyword).
            (let shown = (if path = [] then ''/'' else path) in
             fail (label @ '':'' @ shown @ '')'') (case message of None \<Rightarrow> ''schema validation'' | Some m \<Rightarrow> m)
               (''violation at '' @ shown @ '': '' @ keyword))) (take 10 violations))"

definition handleBodySize :: "assertion_env \<Rightarrow> assertion_context \<Rightarrow> comparison_operator \<Rightarrow> rat \<Rightarrow> size_unit \<Rightarrow> failure list" where
  "handleBodySize env ctx operator threshold unit =
     (let raw = (case ac_rawBody ctx of Some t \<Rightarrow> t
            | None \<Rightarrow> if is_nullish (ac_responseBody ctx) then [] else json_stringify (host_of env) (ac_responseBody ctx));
          divisor = (case unit of SU_bytes \<Rightarrow> 1 | SU_kb \<Rightarrow> 1024 | SU_mb \<Rightarrow> 1024 * 1024);
          size = of_nat (utf8_length raw) / divisor;
          label = (case unit of SU_bytes \<Rightarrow> ''B'' | SU_kb \<Rightarrow> ''KB'' | SU_mb \<Rightarrow> ''MB'')
      in if compare_op operator size threshold then []
         else [fail ''(bodySize)'' (''body size '' @ formatOp operator @ '' '' @ number env threshold @ '' '' @ label)
                 (number env (of_int \<lfloor>size * 100 + 1 / 2\<rfloor> / 100) @ '' '' @ label)])"

definition handleKafkaField ::
  "assertion_env \<Rightarrow> assertion_context \<Rightarrow> string \<Rightarrow> assertion_operator \<Rightarrow> string option \<Rightarrow> failure list" where
  "handleKafkaField env ctx target operator v =
     header_failures (path_label ''kafkaField'' target)
       (evaluateHeaderOp (host_of env) (field_text env (resolveKafkaContextField (host_of env) (drop 6 target) ctx)) operator v)"

definition handleWsField ::
  "assertion_env \<Rightarrow> assertion_context \<Rightarrow> string \<Rightarrow> assertion_operator \<Rightarrow> string option \<Rightarrow> failure list" where
  "handleWsField env ctx target operator v =
     (let h = host_of env;
          actual = (if js_starts_with target ''ws.$.''
            then (let j = getByPath (ac_responseBody ctx) (''$.'' @ drop 5 target)
                  in if j = JUndef then None else Some (stringify h j))
            else field_text env (resolveWsContextField h (drop 3 target) ctx))
      in header_failures (path_label ''wsField'' target) (evaluateHeaderOp h actual operator v))"

definition handleWsNumericField ::
  "assertion_env \<Rightarrow> assertion_context \<Rightarrow> string \<Rightarrow> comparison_operator \<Rightarrow> rat \<Rightarrow> failure list" where
  "handleWsNumericField env ctx target operator n =
     (let label = path_label ''wsNumericField'' target; wanted = formatOp operator @ '' '' @ number env n;
          v = (if target = ''ws.latencyMs'' then prop_or_undef (ac_wsContext ctx) ''latencyMs''
            else if target = ''ws.size'' then prop_or_undef (ac_wsContext ctx) ''messageSize'' else JUndef)
      in case v of
        JNum q \<Rightarrow> (if compare_op operator q n then [] else [fail label wanted (number env q)])
      | _ \<Rightarrow> [fail label (''numeric value '' @ wanted) ''undefined''])"

definition handleCustom ::
  "assertion_env \<Rightarrow> assertion_context \<Rightarrow> string \<Rightarrow> string option \<Rightarrow> string \<Rightarrow> failure list" where
  "handleCustom env ctx expression description negPrefix =
     (let expr = js_trim expression; label = ''(custom)'' in
      if expr = [] then [fail label (negPrefix @ ''custom predicate to evaluate'') ''empty expression'']
      else case ae_evaluate env (wrapCustomExprDollarPaths expr) (resolveVariable env ctx) of
        Cu_Throws m \<Rightarrow> [fail label (negPrefix @ ''expression to evaluate'') (''runtime error: '' @ m)]
      | Cu_Error m \<Rightarrow> [fail label (negPrefix @ ''expression to evaluate without error'') (''expression error: '' @ m)]
      | Cu_Value v shown \<Rightarrow>
          (if isTruthy v then []
           else [fail label
             (negPrefix @ ''custom predicate to pass'' @
                (case description of None \<Rightarrow> [] | Some d \<Rightarrow> if d = [] then [] else '' ('' @ d @ '')'')) shown]))"

section \<open>Evaluation\<close>

fun type_text :: "assertion_kind \<Rightarrow> string" where
  "type_text (A_status _) = ''status''"
| "type_text (A_responseTime _) = ''responseTime''"
| "type_text (A_header _ _ _) = ''header''"
| "type_text (A_regex _ _) = ''regex''"
| "type_text (A_arrayLength _ _ _) = ''arrayLength''"
| "type_text (A_numeric _ _ _) = ''numeric''"
| "type_text (A_date _ _ _) = ''date''"
| "type_text (A_typeCheck _ _) = ''typeCheck''"
| "type_text (A_existence _ _) = ''existence''"
| "type_text (A_arrayContains _ _ _) = ''arrayContains''"
| "type_text (A_each _ _ _ _) = ''each''"
| "type_text (A_containsSubset _ _) = ''containsSubset''"
| "type_text (A_jsonSchema _) = ''jsonSchema''"
| "type_text (A_bodySize _ _ _) = ''bodySize''"
| "type_text (A_datePrecise _ _ _ _) = ''datePrecise''"
| "type_text (A_custom _ _) = ''custom''"
| "type_text (A_kafkaField _ _ _) = ''kafkaField''"
| "type_text (A_wsField _ _ _) = ''wsField''"
| "type_text (A_wsNumericField _ _ _) = ''wsNumericField''"

definition neg_text :: "bool \<Rightarrow> string" where
  "neg_text negated = (if negated then ''NOT '' else [])"

fun run_handler :: "assertion_env \<Rightarrow> assertion_context \<Rightarrow> nat \<Rightarrow> bool \<Rightarrow> assertion_kind \<Rightarrow> failure list option" where
  "run_handler env ctx index negated (A_status e) = handleStatus env ctx e"
| "run_handler env ctx index negated (A_responseTime m) = Some (handleResponseTime env ctx m)"
| "run_handler env ctx index negated (A_header n op v) = Some (handleHeader env ctx n op v)"
| "run_handler env ctx index negated (A_regex p r) = Some (handleRegex env ctx p r)"
| "run_handler env ctx index negated (A_arrayLength p op n) = Some (handleArrayLength env ctx p op n)"
| "run_handler env ctx index negated (A_numeric p op n) = Some (handleNumeric env ctx p op n)"
| "run_handler env ctx index negated (A_date p op r) = handleDate env ctx p op r"
| "run_handler env ctx index negated (A_typeCheck p t) = Some (handleTypeCheck env ctx p t)"
| "run_handler env ctx index negated (A_existence p e) = Some (handleExistence env ctx p e)"
| "run_handler env ctx index negated (A_arrayContains p v m) = Some (handleArrayContains env ctx p v m)"
| "run_handler env ctx index negated (A_each p fp op v) = Some (handleEach env ctx p fp op v)"
| "run_handler env ctx index negated (A_containsSubset p e) = Some (handleContainsSubset env ctx p e)"
| "run_handler env ctx index negated (A_jsonSchema s) = Some (handleJsonSchema env ctx index s)"
| "run_handler env ctx index negated (A_bodySize op t u) = Some (handleBodySize env ctx op t u)"
| "run_handler env ctx index negated (A_datePrecise p op r u) = Some (handleDatePrecise env ctx p op r u)"
| "run_handler env ctx index negated (A_custom e d) = Some (handleCustom env ctx e d (neg_text negated))"
| "run_handler env ctx index negated (A_kafkaField t op v) = Some (handleKafkaField env ctx t op v)"
| "run_handler env ctx index negated (A_wsField t op v) = Some (handleWsField env ctx t op v)"
| "run_handler env ctx index negated (A_wsNumericField t op n) = Some (handleWsNumericField env ctx t op n)"

definition config_error :: "failure \<Rightarrow> bool" where
  "config_error f =
     (let actual = or_empty (fd_actual f) in
      actual \<in> set [''invalid regex pattern'', ''invalid JSON in expected'', ''empty expression''] \<or>
      js_starts_with actual ''expression error:'' \<or> js_starts_with actual ''runtime error:'' \<or>
      js_starts_with actual ''invalid date:'' \<or> js_starts_with actual ''invalid reference:'' \<or>
      fd_expected f = Some ''valid JSON Schema'' \<or> fd_expected f = Some ''valid JSON subset'')"

definition negated_failures :: "string \<Rightarrow> failure list \<Rightarrow> failure list" where
  "negated_failures kind failures =
     (let errors = filter config_error failures in
      if errors \<noteq> [] then errors
      else if failures = []
      then [fail (''('' @ kind @ '')'') ''NOT (assertion to fail)'' ''assertion passed (negated -> fail)'']
      else [])"

definition assertion_failures :: "assertion_env \<Rightarrow> assertion_context \<Rightarrow> nat \<Rightarrow> assertion \<Rightarrow> failure list option" where
  "assertion_failures env ctx index a =
     map_option (if as_negate a then negated_failures (type_text (as_kind a)) else id)
       (run_handler env ctx index (as_negate a) (as_kind a))"

fun failures_from :: "assertion_env \<Rightarrow> assertion_context \<Rightarrow> nat \<Rightarrow> assertion list \<Rightarrow> failure list option" where
  "failures_from env ctx i [] = Some []"
| "failures_from env ctx i (a # as) =
     Option.bind (assertion_failures env ctx i a) (\<lambda>fs. map_option ((@) fs) (failures_from env ctx (Suc i) as))"

definition asserts_status :: "assertion \<Rightarrow> bool" where
  "asserts_status a = (case as_kind a of A_status _ \<Rightarrow> True | _ \<Rightarrow> False)"

definition evaluateAssertions ::
  "assertion_env \<Rightarrow> assertion list \<Rightarrow> assertion_context \<Rightarrow> (failure list \<times> bool) option" where
  "evaluateAssertions env as ctx = map_option (\<lambda>fs. (fs, list_ex asserts_status as)) (failures_from env ctx 0 as)"

section \<open>The verdict on a response\<close>

record validation_input =
  vi_httpStatus :: int
  vi_responseTimeMs :: rat
  vi_responseHeaders :: "string record_bag"
  vi_responseBody :: string
  vi_responseObj :: json
  vi_errorMessage :: "string option"
  vi_validation :: validation_config
  vi_assertions :: "assertion list"
  vi_kafkaContext :: "json record_bag"
  vi_wsContext :: "json record_bag"
  vi_transportType :: "string option"

record validation_output =
  vo_failureDetails :: "failure list"
  vo_passed :: bool
  vo_errorMessage :: "string option"

definition http_transport :: "validation_input \<Rightarrow> bool" where
  "http_transport input = (or_empty (vi_transportType input) \<in> {[], ''http''})"

definition context_of :: "validation_input \<Rightarrow> assertion_context" where
  "context_of input =
     \<lparr>ac_httpStatus = vi_httpStatus input, ac_responseTimeMs = vi_responseTimeMs input,
      ac_responseHeaders = vi_responseHeaders input, ac_responseBody = vi_responseObj input,
      ac_rawBody = Some (vi_responseBody input), ac_kafkaContext = vi_kafkaContext input, ac_wsContext = vi_wsContext input\<rparr>"

definition http_ok :: "int \<Rightarrow> bool" where
  "http_ok status = (0 < status \<and> status < 400)"

definition json_failures :: "assertion_env \<Rightarrow> validation_input \<Rightarrow> bool \<Rightarrow> failure list \<Rightarrow> failure list" where
  "json_failures env input statusAsserted failures =
     (let statusOk = (if statusAsserted then list_all (\<lambda>f. fd_path f \<noteq> ''(status)'') failures else http_ok (vi_httpStatus input))
      in if vc_mode (vi_validation input) \<noteq> VM_none \<and> statusOk
         then validate (check_env.truncate env) (vi_validation input) (vi_responseObj input) else [])"

definition buildValidationResult :: "assertion_env \<Rightarrow> validation_input \<Rightarrow> validation_output option" where
  "buildValidationResult env input =
     map_option (\<lambda>(assertionFailures, statusAsserted).
       (let status = vi_httpStatus input; message = or_empty (vi_errorMessage input); http = http_transport input;
            actual = (if message \<noteq> [] then message else if status = 0 then ''network error'' else ''HTTP '' @ js_int status);
            details =
              (if http \<and> \<not> statusAsserted \<and> (400 \<le> status \<or> status = 0)
               then fail ''(http)'' ''2xx'' actual # assertionFailures
               else assertionFailures @ json_failures env input statusAsserted assertionFailures);
            networkError = (http \<and> status = 0 \<and> \<not> statusAsserted);
            nonHttpError = (\<not> http \<and> (message \<noteq> [] \<or> status = 0))
        in \<lparr>vo_failureDetails = details, vo_passed = (\<not> networkError \<and> \<not> nonHttpError \<and> details = []),
            vo_errorMessage = vi_errorMessage input\<rparr>))
       (evaluateAssertions env (vi_assertions input) (context_of input))"

section \<open>What an assertion means\<close>

definition assertion_passes :: "assertion_env \<Rightarrow> assertion_context \<Rightarrow> assertion \<Rightarrow> bool" where
  "assertion_passes env ctx a = (map_option fst (evaluateAssertions env [a] ctx) = Some [])"

lemma negated_nil: "negated_failures kind fs = [] \<longleftrightarrow> fs \<noteq> [] \<and> \<not> list_ex config_error fs"
  by (auto simp: negated_failures_def Let_def filter_empty_conv list_ex_iff)

lemma config_error_fail: "config_error (fail p e a) = config_error (fail q e a)"
  by (simp add: config_error_def fail_def)

text \<open>Neither the place in the list nor the negation changes what a handler finds.\<close>

definition same_findings :: "failure list \<Rightarrow> failure list \<Rightarrow> bool" where
  "same_findings fs gs \<longleftrightarrow> (fs = [] \<longleftrightarrow> gs = []) \<and> list_ex config_error fs = list_ex config_error gs"

lemma schema_findings: "same_findings (handleJsonSchema env ctx i s) (handleJsonSchema env ctx j s)"
proof (cases "ae_schema env s (ac_responseBody ctx)")
  case (Inr violations)
  then show ?thesis
    by (auto simp: handleJsonSchema_def same_findings_def list_ex_iff Let_def config_error_def fail_def split: prod.splits)
qed (simp add: handleJsonSchema_def same_findings_def Let_def config_error_def fail_def)

lemma custom_findings: "same_findings (handleCustom env ctx e d (neg_text m)) (handleCustom env ctx e d (neg_text n))"
  by (cases "ae_evaluate env (wrapCustomExprDollarPaths (js_trim e)) (resolveVariable env ctx)")
    (auto simp: handleCustom_def same_findings_def Let_def config_error_def fail_def neg_text_def)

lemma handler_findings:
  "rel_option same_findings (run_handler env ctx i m k) (run_handler env ctx j n k)"
  using schema_findings custom_findings
  by (cases k) (auto simp: same_findings_def intro: option.rel_refl)

lemma assertion_nil:
  "assertion_failures env ctx i a = Some [] \<longleftrightarrow>
     (case run_handler env ctx i (as_negate a) (as_kind a) of None \<Rightarrow> False
      | Some fs \<Rightarrow> if as_negate a then fs \<noteq> [] \<and> \<not> list_ex config_error fs else fs = [])"
  by (auto simp: assertion_failures_def negated_nil split: option.splits)

lemma assertion_anywhere: "assertion_failures env ctx i a = Some [] \<longleftrightarrow> assertion_failures env ctx j a = Some []"
  using handler_findings [of env ctx i "as_negate a" "as_kind a" j "as_negate a"] unfolding assertion_nil
  by (auto simp: same_findings_def split: option.splits elim!: option.rel_cases)

lemma passes_alone: "assertion_passes env ctx a \<longleftrightarrow> assertion_failures env ctx 0 a = Some []"
  by (auto simp: assertion_passes_def evaluateAssertions_def bind_eq_Some_conv)

lemma failures_nil:
  "failures_from env ctx i as = Some [] \<longleftrightarrow> list_all (assertion_passes env ctx) as"
proof (induction as arbitrary: i)
  case (Cons a as)
  then show ?case
    using assertion_anywhere [of env ctx i a 0] by (auto simp: passes_alone bind_eq_Some_conv)
qed simp

text \<open>A list of assertions finds nothing exactly when each assertion alone finds nothing: neither the
  order nor repetitions matter, and one assertion that does not return takes the verdict with it.
\<close>

theorem assertions_verdict:
  "map_option fst (evaluateAssertions env as ctx) = Some [] \<longleftrightarrow> list_all (assertion_passes env ctx) as"
  by (simp add: evaluateAssertions_def option.map_comp o_def failures_nil)

text \<open>C15. A negated assertion passes exactly when the assertion itself returns, finds something, and
  nothing it finds is taken for an error of its configuration; so an assertion and its negation never
  both pass.
\<close>

theorem negated_assertion:
  "assertion_passes env ctx \<lparr>as_kind = k, as_negate = True\<rparr> \<longleftrightarrow>
     (case evaluateAssertions env [\<lparr>as_kind = k, as_negate = False\<rparr>] ctx of None \<Rightarrow> False
      | Some (fs, _) \<Rightarrow> fs \<noteq> [] \<and> \<not> list_ex config_error fs)"
  using handler_findings [of env ctx 0 True k 0 False]
  by (auto simp: passes_alone evaluateAssertions_def assertion_failures_def same_findings_def negated_nil
      split: option.splits elim!: option.rel_cases)

text \<open>The texts that are taken for a message of the validator itself.\<close>

definition reads_like_error :: "string \<Rightarrow> bool" where
  "reads_like_error t \<longleftrightarrow>
     t \<in> {''invalid regex pattern'', ''invalid JSON in expected'', ''empty expression''} \<or>
     (\<exists>m \<in> {''expression error:'', ''runtime error:'', ''invalid date:'', ''invalid reference:''}. \<exists>rest. t = m @ rest)"

definition negated_header :: "string \<Rightarrow> assertion_operator \<Rightarrow> string option \<Rightarrow> assertion" where
  "negated_header name operator v = \<lparr>as_kind = A_header name operator v, as_negate = True\<rparr>"

lemma config_error_text:
  "config_error (fail p e a) \<longleftrightarrow> reads_like_error a \<or> e \<in> {''valid JSON Schema'', ''valid JSON subset''}"
  by (auto simp: config_error_def fail_def reads_like_error_def or_empty_def js_starts_with_def prefix_def Let_def)

lemma negated_header_passes:
  "assertion_passes env ctx (negated_header name operator v) \<longleftrightarrow>
     (let r = evaluateHeaderOp (host_of env) (findHeader (ac_responseHeaders ctx) name) operator v
      in \<not> cr_pass r \<and> \<not> reads_like_error (cr_actual r) \<and> cr_expected r \<notin> {''valid JSON Schema'', ''valid JSON subset''})"
  by (auto simp: passes_alone assertion_nil negated_header_def handleHeader_def header_failures_def config_error_text Let_def)

text \<open>C40. What a negated header assertion accepts. A header that must not be there is accepted exactly when it is
missing. A header that must not equal a text, or must not contain one, is accepted when it does not, but not when
its value reads like a message of the validator itself: one of three fixed texts, or a text that begins like an
error message, as \<open>runtime error:\<close> or \<open>invalid date:\<close> do. Then, and when the unwanted value is one of two
phrases of the schema check, the assertion fails although the header is not the unwanted one: a failure is
recognised as an error of the configuration by its text, and that is text of the response.\<close>

theorem error_text_defeats_negation:
  "(assertion_passes env ctx (negated_header name AO_exists v) \<longleftrightarrow> findHeader (ac_responseHeaders ctx) name = None) \<and>
   (assertion_passes env ctx (negated_header name AO_equals (Some unwanted)) \<longleftrightarrow>
      findHeader (ac_responseHeaders ctx) name \<noteq> Some unwanted \<and>
      unwanted \<notin> {''valid JSON Schema'', ''valid JSON subset''} \<and>
      (case findHeader (ac_responseHeaders ctx) name of None \<Rightarrow> True | Some t \<Rightarrow> \<not> reads_like_error t)) \<and>
   (assertion_passes env ctx (negated_header name AO_contains (Some unwanted)) \<longleftrightarrow>
      (case findHeader (ac_responseHeaders ctx) name of None \<Rightarrow> True
       | Some t \<Rightarrow> \<not> js_includes t unwanted \<and> \<not> reads_like_error t))"
proof -
  have m: "\<not> reads_like_error ''(not present)''" by (simp add: reads_like_error_def)
  show ?thesis
    by (cases "findHeader (ac_responseHeaders ctx) name")
      (auto simp: negated_header_passes evaluateHeaderOp_def result_def or_empty_def m Let_def)
qed

section \<open>What a passed request means\<close>

text \<open>C14. A response passes exactly when the assertions find nothing and, over HTTP, either a status
  assertion took the place of the status check or the status is one of success, over another
  transport, no error was reported and the status is not 0; and the validation of the body finds
  nothing, which is left out only for a status that is no success and was not asserted.
\<close>

theorem verdict_on_response:
  "map_option vo_passed (buildValidationResult env input) =
     map_option (\<lambda>(failures, asserted).
       (let status = vi_httpStatus input;
            body_ok = (validate (check_env.truncate env) (vi_validation input) (vi_responseObj input) = [])
        in failures = [] \<and>
          (if http_transport input then asserted \<or> (status \<noteq> 0 \<and> status < 400)
           else or_empty (vi_errorMessage input) = [] \<and> status \<noteq> 0) \<and>
          (if asserted \<or> http_ok status then body_ok else True)))
     (evaluateAssertions env (vi_assertions input) (context_of input))"
proof (cases "evaluateAssertions env (vi_assertions input) (context_of input)")
  case (Some r)
  obtain fs asserted where "r = (fs, asserted)" by (cases r)
  moreover have "validate e c b = []" if "vc_mode c = VM_none" for e c b using that by (simp add: validate_def)
  ultimately show ?thesis using Some by (auto simp: buildValidationResult_def json_failures_def Let_def http_ok_def)
qed (simp add: buildValidationResult_def)

end
