(* ===== verification/Load_Runner.thy ===== *)
theory Load_Runner
  imports Load_Control
begin

text \<open>
  The runners of a test run as event systems: the load-profile runner
  (\<open>runLoadProfile\<close> of \<open>engine/load/loadProfileRunner.ts\<close>) and the sequential, batch and
  pool runners of \<open>engine/core/requestExecution.ts\<close>.

  A promise that a runner has started is an entry of \<open>lr_pending\<close>; an event completes one of them,
  with the result the request produced or with the error it was rejected with. Timers are
  events too: \<open>Tick\<close> is the 100 ms interval, \<open>Fill\<close> a scheduled refill (after a think time
  or \<open>setTimeout(fillPool, 0)\<close>), each with the reading of \<open>performance.now()\<close> since the
  start; readings never go back. \<open>prep_ok\<close> says for which scenarios \<open>prepareScenario\<close>
  returns: it throws where the address of a scenario cannot be parsed (\<open>new URL\<close> in
  \<open>buildUrl\<close>).
\<close>

section \<open>Results of failed executions\<close>

text \<open>The result identity and the time come from a counter and the clock.\<close>

definition buildErrorResult :: "string \<Rightarrow> int \<Rightarrow> load_scenario \<Rightarrow> string \<Rightarrow> request_result" where
  "buildErrorResult i ts sc msg = \<lparr>rr_id = i, rr_scenarioId = ls_id sc, rr_scenarioName = ls_name sc,
     rr_url = ls_url sc, rr_method = ls_method sc, rr_httpStatus = 0, rr_responseTimeMs = 0,
     rr_responseBody = [], rr_timestamp = ts, rr_passed = False, rr_validationMode = ls_validationMode sc,
     rr_failureDetails = [\<lparr>fd_path = ''(error)'', fd_expected = ''success'', fd_actual = msg\<rparr>],
     rr_errorMessage = Some msg,
     rr_dataRowId = (case ls_dataRowId sc of Some [] \<Rightarrow> None | d \<Rightarrow> d),
     rr_dataRowLabel = (case ls_dataRowLabel sc of Some [] \<Rightarrow> None | d \<Rightarrow> d),
     rr_cancelled = False,
     rr_transportType = (case ls_actionType sc of None \<Rightarrow> None
       | Some t \<Rightarrow> if t = [] \<or> t = ''http'' then None else Some t)\<rparr>"

text \<open>How a started execution ended: with a result, or rejected (identity and time of the error
result, and the message).\<close>

datatype completion = Returned request_result | Rejected string int string

fun completion_result :: "load_scenario \<Rightarrow> completion \<Rightarrow> request_result" where
  "completion_result sc (Returned r) = r"
| "completion_result sc (Rejected i ts msg) = buildErrorResult i ts sc msg"

section \<open>The load-profile runner\<close>

record progress_report =
  pr_completed :: nat
  pr_elapsedMs :: rat
  pr_target :: int
  pr_inFlight :: nat

record load_run =
  lr_inFlight :: nat
  lr_pending :: "load_scenario list"
  lr_calls :: nat
  lr_results :: "request_result list"
  lr_breaker :: circuit_breaker
  lr_aborted :: bool
  lr_timerStopped :: bool
  lr_ticker :: bool
  lr_fills :: nat
  lr_clock :: rat
  lr_lastProgress :: rat
  lr_reports :: "progress_report list"
  lr_resolved :: bool
  lr_rejected :: bool

record load_setup =
  profile :: load_profile
  pool :: "load_scenario list"
  prep_ok :: "load_scenario \<Rightarrow> bool"

definition durationMs :: "load_setup \<Rightarrow> rat" where
  "durationMs u = of_int (durationSec (profile u)) * 1000"

definition finish :: "load_setup \<Rightarrow> load_run \<Rightarrow> load_run" where
  "finish u st = (if lr_resolved st then st
     else st\<lparr>lr_resolved := True, lr_timerStopped := True, lr_ticker := False,
             lr_reports := lr_reports st @ [\<lparr>pr_completed = length (lr_results st), pr_elapsedMs = durationMs u,
               pr_target = getTargetConcurrency (profile u) (durationMs u), pr_inFlight = 0\<rparr>]\<rparr>)"

definition stop_now :: "load_run \<Rightarrow> bool" where
  "stop_now st = (lr_aborted st \<or> shouldStop (lr_breaker st))"

text \<open>\<open>timerStopped = true; if (inFlight === 0) finish()\<close>.\<close>

definition stop_and_finish :: "load_setup \<Rightarrow> load_run \<Rightarrow> load_run" where
  "stop_and_finish u st = (let st1 = st\<lparr>lr_timerStopped := True\<rparr>
     in if lr_inFlight st1 = 0 then finish u st1 else st1)"

text \<open>\<open>launchOne\<close>; the flag says that it returned. It counts the request before it prepares
it, so a preparation that throws leaves the count raised.\<close>

definition launchOne :: "load_setup \<Rightarrow> load_run \<Rightarrow> bool \<times> load_run" where
  "launchOne u st =
     (let st1 = st\<lparr>lr_calls := lr_calls st + 1, lr_inFlight := lr_inFlight st + 1\<rparr>
      in case nextScenario (pool u) (lr_calls st) of
           None \<Rightarrow> (False, st1)
         | Some sc \<Rightarrow> if prep_ok u sc then (True, st1\<lparr>lr_pending := lr_pending st1 @ [sc]\<rparr>) else (False, st1))"

function launch_while :: "load_setup \<Rightarrow> int \<Rightarrow> load_run \<Rightarrow> bool \<times> load_run" where
  "launch_while u target st =
     (if int (lr_inFlight st) < target \<and> \<not> stop_now st then
        (case launchOne u st of (True, st') \<Rightarrow> launch_while u target st' | (False, st') \<Rightarrow> (False, st'))
      else (True, st))"
  by pat_completeness auto
termination
  by (relation "measure (\<lambda>(u, target, st). nat (target - int (lr_inFlight st)))")
     (auto simp: launchOne_def Let_def split: option.splits if_splits)

declare launch_while.simps [simp del]

definition fillPool :: "load_setup \<Rightarrow> load_run \<Rightarrow> bool \<times> load_run" where
  "fillPool u st =
     (if stop_now st then (True, stop_and_finish u st)
      else if durationMs u \<le> lr_clock st then (True, stop_and_finish u st)
      else launch_while u (getTargetConcurrency (profile u) (lr_clock st)) st)"

text \<open>The interval callback. Where the refill throws, the rest of the callback is skipped.\<close>

definition ticker_fires :: "load_setup \<Rightarrow> load_run \<Rightarrow> load_run" where
  "ticker_fires u st =
     (if stop_now st \<or> durationMs u \<le> lr_clock st then
        (let st1 = st\<lparr>lr_timerStopped := True, lr_ticker := False\<rparr>
         in if lr_inFlight st1 = 0 then finish u st1 else st1)
      else (case fillPool u st of
          (False, st1) \<Rightarrow> st1
        | (True, st1) \<Rightarrow>
            if 500 \<le> lr_clock st1 - lr_lastProgress st1 then
              st1\<lparr>lr_lastProgress := lr_clock st1,
                  lr_reports := lr_reports st1 @ [\<lparr>pr_completed = length (lr_results st1),
                    pr_elapsedMs = lr_clock st1,
                    pr_target = getTargetConcurrency (profile u) (lr_clock st1),
                    pr_inFlight = lr_inFlight st1\<rparr>]\<rparr>
            else st1))"

text \<open>A promise settles: its result is recorded, then the \<open>finally\<close> handler runs.\<close>

definition settle :: "load_setup \<Rightarrow> nat \<Rightarrow> completion \<Rightarrow> load_run \<Rightarrow> load_run" where
  "settle u k c st = (if length (lr_pending st) \<le> k then st else
     let r = completion_result (lr_pending st ! k) c;
         st1 = st\<lparr>lr_pending := take k (lr_pending st) @ drop (Suc k) (lr_pending st),
                  lr_results := lr_results st @ [r],
                  lr_breaker := breaker_record (lr_breaker st) r,
                  lr_inFlight := lr_inFlight st - 1\<rparr>
     in if stop_now st1 then stop_and_finish u st1
        else if lr_timerStopped st1 \<and> lr_inFlight st1 = 0 then finish u st1
        else if \<not> lr_timerStopped st1 then st1\<lparr>lr_fills := lr_fills st1 + 1\<rparr>
        else st1)"

datatype run_event = Tick rat | Fill rat | Settle nat completion | Abort

fun load_step :: "load_setup \<Rightarrow> load_run \<Rightarrow> run_event \<Rightarrow> load_run" where
  "load_step u st (Tick now) = (let st1 = st\<lparr>lr_clock := max (lr_clock st) now\<rparr>
     in if lr_ticker st1 then ticker_fires u st1 else st1)"
| "load_step u st (Fill now) = (let st1 = st\<lparr>lr_clock := max (lr_clock st) now\<rparr>
     in if lr_fills st1 = 0 then st1 else snd (fillPool u (st1\<lparr>lr_fills := lr_fills st1 - 1\<rparr>)))"
| "load_step u st (Settle k c) = settle u k c st"
| "load_step u st Abort = st\<lparr>lr_aborted := True\<rparr>"

text \<open>The start: the interval is set, then the pool is filled for the first time. A throw there
rejects the returned promise, since it happens inside the promise's executor.\<close>

definition load_start :: "load_setup \<Rightarrow> circuit_breaker \<Rightarrow> bool \<Rightarrow> load_run" where
  "load_start u b already_aborted =
     (let st = \<lparr>lr_inFlight = 0, lr_pending = [], lr_calls = 0, lr_results = [], lr_breaker = b,
                lr_aborted = already_aborted, lr_timerStopped = False, lr_ticker = True, lr_fills = 0,
                lr_clock = 0, lr_lastProgress = 0, lr_reports = [], lr_resolved = False, lr_rejected = False\<rparr>
      in case fillPool u st of (True, st1) \<Rightarrow> st1 | (False, st1) \<Rightarrow> st1\<lparr>lr_rejected := True\<rparr>)"

subsection \<open>Invariant\<close>

text \<open>Every launch is accounted for; the peak is respected; the timer stops only for a reason,
and a run that has stopped its timer but is not resolved still waits for a request.\<close>

definition stop_due :: "load_setup \<Rightarrow> load_run \<Rightarrow> bool" where
  "stop_due u st = (stop_now st \<or> durationMs u \<le> lr_clock st)"

definition load_inv :: "load_setup \<Rightarrow> load_run \<Rightarrow> bool" where
  "load_inv u st = (lr_calls st = lr_inFlight st + length (lr_results st) \<and>
     length (lr_pending st) \<le> lr_inFlight st \<and>
     int (lr_inFlight st) \<le> peak_concurrency (profile u) \<and>
     (lr_timerStopped st \<longrightarrow> stop_due u st) \<and>
     (lr_resolved st \<longrightarrow> lr_timerStopped st \<and> \<not> lr_ticker st \<and> lr_inFlight st = 0) \<and>
     (\<not> lr_ticker st \<longrightarrow> lr_timerStopped st) \<and>
     (lr_timerStopped st \<and> \<not> lr_resolved st \<longrightarrow> 0 < lr_inFlight st))"

text \<open>What a launch leaves alone.\<close>

lemma launchOne_frame:
  "launchOne u st = (b, st') \<Longrightarrow>
     lr_results st' = lr_results st \<and> lr_breaker st' = lr_breaker st \<and> lr_aborted st' = lr_aborted st \<and>
     lr_timerStopped st' = lr_timerStopped st \<and> lr_ticker st' = lr_ticker st \<and> lr_clock st' = lr_clock st \<and>
     lr_resolved st' = lr_resolved st \<and> lr_inFlight st' = Suc (lr_inFlight st) \<and>
     lr_calls st' = Suc (lr_calls st) \<and> length (lr_pending st') \<le> Suc (length (lr_pending st)) \<and>
     (b \<longrightarrow> length (lr_pending st') = Suc (length (lr_pending st))) \<and>
     (\<not> b \<longrightarrow> lr_pending st' = lr_pending st)"
  by (auto simp: launchOne_def Let_def split: option.splits if_splits)

text \<open>Whatever one launch keeps, the launch loop keeps.\<close>

lemma launch_while_rule:
  "launch_while u target st = (b, st') \<Longrightarrow> P st \<Longrightarrow>
   (\<And>s c s'. P s \<Longrightarrow> int (lr_inFlight s) < target \<Longrightarrow> \<not> stop_now s \<Longrightarrow> launchOne u s = (c, s') \<Longrightarrow> P s') \<Longrightarrow>
   P st'"
proof (induction u target st arbitrary: b st' rule: launch_while.induct)
  case (1 u target st)
  show ?case
  proof (cases "int (lr_inFlight st) < target \<and> \<not> stop_now st")
    case False
    with 1 show ?thesis by (subst (asm) launch_while.simps) auto
  next
    case True
    obtain c s1 where l: "launchOne u st = (c, s1)" by (cases "launchOne u st")
    then have P: "P s1" using 1(3,4) True by blast
    have w: "(case launchOne u st of (True, s) \<Rightarrow> launch_while u target s | (False, s) \<Rightarrow> (False, s)) = (b, st')"
      using 1(2) True by (subst (asm) launch_while.simps) simp
    show ?thesis
    proof (cases c)
      case c: True
      with w l have "launch_while u target s1 = (b, st')" by simp
      then show ?thesis using 1(1) [OF True l [symmetric]] c P 1(4) by blast
    next
      case False
      with w l P show ?thesis by simp
    qed
  qed
qed

lemma launch_while_inv:
  "launch_while u target st = (b, st') \<Longrightarrow> target \<le> peak_concurrency (profile u) \<Longrightarrow>
   \<not> lr_timerStopped st \<Longrightarrow> load_inv u st \<Longrightarrow>
   load_inv u st'"
proof (induction u target st arbitrary: b st' rule: launch_while.induct)
  case (1 u target st)
  show ?case
  proof (cases "int (lr_inFlight st) < target \<and> \<not> stop_now st")
    case False
    with 1 show ?thesis by (subst (asm) launch_while.simps) auto
  next
    case True
    obtain c s1 where l: "launchOne u st = (c, s1)" by (cases "launchOne u st")
    note fr = launchOne_frame [OF l]
    have inv1: "load_inv u s1"
      using 1(5) fr True 1(3,4) by (auto simp: load_inv_def stop_due_def stop_now_def)
    have stop: "stop_now s1 = stop_now st" using fr by (simp add: stop_now_def)
    show ?thesis
    proof (cases c)
      case True
      then have "launch_while u target s1 = (b, st')"
        using 1(2) \<open>int (lr_inFlight st) < target \<and> \<not> stop_now st\<close> l
        by (subst (asm) launch_while.simps) simp
      then show ?thesis
        using 1(1) [OF \<open>int (lr_inFlight st) < target \<and> \<not> stop_now st\<close> l [symmetric]] True 1(3,4) inv1 fr stop
        by simp
    next
      case False
      then have "b = False \<and> st' = s1"
        using 1(2) \<open>int (lr_inFlight st) < target \<and> \<not> stop_now st\<close> l
        by (subst (asm) launch_while.simps) simp
      with inv1 fr stop show ?thesis by simp
    qed
  qed
qed

lemma stop_and_finish_inv: "load_inv u st \<Longrightarrow> stop_due u st \<Longrightarrow> load_inv u (stop_and_finish u st)"
  by (cases "lr_resolved st"; cases "lr_inFlight st = 0")
     (simp_all add: load_inv_def stop_and_finish_def finish_def stop_due_def stop_now_def)

lemma target_le_peak: "1 \<le> maxConcurrency p \<Longrightarrow> 0 \<le> t \<Longrightarrow> getTargetConcurrency p t \<le> peak_concurrency p"
  using target_running [of p t] target_after [of p t]
  by (cases "t < of_int (durationSec p) * 1000") (auto simp: peak_concurrency_def)

lemma fillPool_inv:
  assumes "fillPool u st = (b, st')" and "load_inv u st" and "1 \<le> maxConcurrency (profile u)" and "0 \<le> lr_clock st"
  shows "load_inv u st'"
proof (cases "stop_due u st")
  case True
  then show ?thesis using assms(1,2) stop_and_finish_inv
    by (auto simp: fillPool_def stop_due_def split: if_splits)
next
  case False
  then have "\<not> lr_timerStopped st" using assms(2) by (auto simp: load_inv_def)
  moreover have "launch_while u (getTargetConcurrency (profile u) (lr_clock st)) st = (b, st')"
    using False assms(1) by (simp add: fillPool_def stop_due_def)
  ultimately show ?thesis
    using launch_while_inv target_le_peak [OF assms(3,4)] assms(2) by blast
qed

definition load_ok :: "load_setup \<Rightarrow> load_run \<Rightarrow> bool" where
  "load_ok u st = (load_inv u st \<and> 0 \<le> lr_clock st \<and> 1 \<le> maxConcurrency (profile u))"

lemma launch_while_clock: "launch_while u target st = (b, st') \<Longrightarrow> lr_clock st' = lr_clock st"
  by (erule launch_while_rule [where P = "\<lambda>s. lr_clock s = lr_clock st"])
     (auto dest: launchOne_frame)

lemma stop_and_finish_clock [simp]: "lr_clock (stop_and_finish u st) = lr_clock st"
  by (simp add: stop_and_finish_def finish_def Let_def)

lemma finish_clock [simp]: "lr_clock (finish u st) = lr_clock st"
  by (simp add: finish_def)

lemma fillPool_clock: "fillPool u st = (b, st') \<Longrightarrow> lr_clock st' = lr_clock st"
  by (auto simp: fillPool_def launch_while_clock split: if_splits)

lemma fillPool_ok: "fillPool u st = (b, st') \<Longrightarrow> load_ok u st \<Longrightarrow> load_ok u st'"
  using fillPool_inv [of u st b st'] by (auto simp: load_ok_def fillPool_clock)

lemma load_inv_ignores [simp]:
  "load_inv u (st\<lparr>lr_lastProgress := t, lr_reports := rs\<rparr>) = load_inv u st"
  "load_inv u (st\<lparr>lr_fills := n\<rparr>) = load_inv u st"
  by (simp_all add: load_inv_def stop_due_def stop_now_def)

lemma load_inv_stop:
  "load_inv u st \<Longrightarrow> stop_due u st \<Longrightarrow> 0 < lr_inFlight st \<Longrightarrow>
     load_inv u (st\<lparr>lr_timerStopped := True, lr_ticker := False\<rparr>)"
  by (simp add: load_inv_def stop_due_def stop_now_def)

lemma load_inv_finish:
  "load_inv u st \<Longrightarrow> stop_due u st \<Longrightarrow> lr_inFlight st = 0 \<Longrightarrow>
     load_inv u (finish u (st\<lparr>lr_timerStopped := True, lr_ticker := False\<rparr>))"
  by (cases "lr_resolved st") (simp_all add: load_inv_def finish_def stop_due_def stop_now_def)

lemma ticker_fires_ok: "load_ok u st \<Longrightarrow> load_ok u (ticker_fires u st)"
proof (cases "stop_due u st")
  case True
  assume ok: "load_ok u st"
  have "ticker_fires u st = (if lr_inFlight st = 0
      then finish u (st\<lparr>lr_timerStopped := True, lr_ticker := False\<rparr>)
      else st\<lparr>lr_timerStopped := True, lr_ticker := False\<rparr>)"
    using True by (simp add: ticker_fires_def stop_due_def Let_def)
  with True ok load_inv_stop load_inv_finish show ?thesis by (simp add: load_ok_def)
next
  case False
  assume ok: "load_ok u st"
  obtain b s1 where f: "fillPool u st = (b, s1)" by (cases "fillPool u st")
  from fillPool_ok [OF f ok] False f show ?thesis
    by (cases b) (simp_all add: ticker_fires_def stop_due_def load_ok_def)
qed

text \<open>The state a settled promise leaves to its \<open>finally\<close> handler.\<close>

definition settled_state :: "load_run \<Rightarrow> nat \<Rightarrow> completion \<Rightarrow> load_run" where
  "settled_state st k c =
     (let r = completion_result (lr_pending st ! k) c
      in st\<lparr>lr_pending := take k (lr_pending st) @ drop (Suc k) (lr_pending st),
            lr_results := lr_results st @ [r],
            lr_breaker := breaker_record (lr_breaker st) r,
            lr_inFlight := lr_inFlight st - 1\<rparr>)"

lemma settle_cases:
  "settle u k c st = (if length (lr_pending st) \<le> k then st
     else let s1 = settled_state st k c in
       if stop_now s1 then stop_and_finish u s1
       else if lr_timerStopped s1 \<and> lr_inFlight s1 = 0 then finish u s1
       else if \<not> lr_timerStopped s1 then s1\<lparr>lr_fills := lr_fills s1 + 1\<rparr> else s1)"
  by (simp add: settle_def settled_state_def Let_def)

lemma stop_now_settled: "stop_now st \<Longrightarrow> stop_now (settled_state st k c)"
  by (auto simp: stop_now_def settled_state_def Let_def breaker_record_latch)

lemma settled_frame [simp]:
  "lr_timerStopped (settled_state st k c) = lr_timerStopped st" "lr_ticker (settled_state st k c) = lr_ticker st"
  "lr_resolved (settled_state st k c) = lr_resolved st" "lr_clock (settled_state st k c) = lr_clock st"
  "lr_inFlight (settled_state st k c) = lr_inFlight st - 1" "lr_calls (settled_state st k c) = lr_calls st"
  "lr_aborted (settled_state st k c) = lr_aborted st" "lr_fills (settled_state st k c) = lr_fills st"
  "length (lr_results (settled_state st k c)) = Suc (length (lr_results st))"
  "lr_pending (settled_state st k c) = take k (lr_pending st) @ drop (Suc k) (lr_pending st)"
  by (simp_all add: settled_state_def Let_def)

text \<open>Only the last conjunct of the invariant can break when a promise settles; the handler
restores it by finishing.\<close>

lemma settle_ok: "load_ok u st \<Longrightarrow> load_ok u (settle u k c st)"
proof (cases "length (lr_pending st) \<le> k")
  case True
  then show "load_ok u st \<Longrightarrow> ?thesis" by (simp add: settle_cases)
next
  case False
  assume ok: "load_ok u st"
  let ?s = "settled_state st k c"
  have pos: "0 < lr_inFlight st" and nr: "\<not> lr_resolved st"
    using ok False by (auto simp: load_ok_def load_inv_def)
  have due: "lr_timerStopped st \<Longrightarrow> stop_due u ?s"
    using ok stop_now_settled [of st k c] by (auto simp: load_ok_def load_inv_def stop_due_def)
  have base: "lr_calls ?s = lr_inFlight ?s + length (lr_results ?s)"
      "length (lr_pending ?s) \<le> lr_inFlight ?s" "int (lr_inFlight ?s) \<le> peak_concurrency (profile u)"
      "\<not> lr_ticker ?s \<longrightarrow> lr_timerStopped ?s"
    using ok False pos by (auto simp: load_ok_def load_inv_def)
  consider (stop) "stop_now ?s" | (last) "\<not> stop_now ?s" "lr_timerStopped ?s" "lr_inFlight ?s = 0"
    | (running) "\<not> stop_now ?s" "\<not> lr_timerStopped ?s"
    | (waiting) "\<not> stop_now ?s" "lr_timerStopped ?s" "lr_inFlight ?s \<noteq> 0" by blast
  then have "load_inv u (settle u k c st)"
  proof cases
    case stop
    then have d: "stop_due u ?s" by (simp add: stop_due_def)
    show ?thesis
    proof (cases "lr_inFlight ?s = 0")
      case True
      with stop d base nr False show ?thesis
        by (simp add: settle_cases Let_def stop_and_finish_def finish_def load_inv_def stop_due_def stop_now_def)
    next
      case f: False
      with stop d base nr False show ?thesis
        by (simp add: settle_cases Let_def stop_and_finish_def load_inv_def stop_due_def stop_now_def)
    qed
  next
    case last
    with due base nr False show ?thesis
      by (simp add: settle_cases Let_def finish_def load_inv_def stop_due_def stop_now_def)
  next
    case running
    with base nr False show ?thesis by (simp add: settle_cases Let_def load_inv_def)
  next
    case waiting
    with due base nr False show ?thesis by (simp add: settle_cases Let_def load_inv_def)
  qed
  moreover have "lr_clock (settle u k c st) = lr_clock st"
    by (simp add: settle_cases Let_def)
  ultimately show ?thesis using ok by (simp add: load_ok_def)
qed

lemma load_ok_clock: "load_ok u st \<Longrightarrow> load_ok u (st\<lparr>lr_clock := max (lr_clock st) now\<rparr>)"
  by (auto simp: load_ok_def load_inv_def stop_due_def stop_now_def le_max_iff_disj)

lemma load_ok_fills: "load_ok u st \<Longrightarrow> load_ok u (st\<lparr>lr_fills := n\<rparr>)"
  by (simp add: load_ok_def)

lemma load_ok_abort: "load_ok u st \<Longrightarrow> load_ok u (st\<lparr>lr_aborted := True\<rparr>)"
  by (simp add: load_ok_def load_inv_def stop_due_def stop_now_def)

lemma load_step_ok [inv_intros]: "load_ok u st \<Longrightarrow> load_ok u (load_step u st e)"
proof (cases e)
  case (Fill now)
  assume ok: "load_ok u st"
  let ?s = "st\<lparr>lr_clock := max (lr_clock st) now\<rparr>"
  let ?t = "?s\<lparr>lr_fills := lr_fills ?s - 1\<rparr>"
  obtain b s1 where f: "fillPool u ?t = (b, s1)" by (cases "fillPool u ?t")
  have "load_ok u ?t" by (intro load_ok_fills load_ok_clock ok)
  from fillPool_ok [OF f this] f load_ok_clock [OF ok, of now] show ?thesis
    by (simp only: Fill load_step.simps Let_def snd_conv split: if_split) simp
qed (simp_all only: load_step.simps Let_def settle_ok load_ok_abort load_ok_clock ticker_fires_ok split: if_split, simp_all)

interpretation load_runs: state_machine "load_step u" "load_ok u"
  by unfold_locales (rule load_step_ok)

lemma load_start_ok: "1 \<le> maxConcurrency (profile u) \<Longrightarrow> load_ok u (load_start u b a)"
proof -
  assume mc: "1 \<le> maxConcurrency (profile u)"
  let ?s = "\<lparr>lr_inFlight = 0, lr_pending = [], lr_calls = 0, lr_results = [], lr_breaker = b,
             lr_aborted = a, lr_timerStopped = False, lr_ticker = True, lr_fills = 0,
             lr_clock = 0, lr_lastProgress = 0, lr_reports = [], lr_resolved = False, lr_rejected = False\<rparr>"
  have "load_ok u ?s" using mc by (simp add: load_ok_def load_inv_def peak_concurrency_def)
  moreover obtain c s1 where f: "fillPool u ?s = (c, s1)" by (cases "fillPool u ?s")
  ultimately have "load_ok u s1" using fillPool_ok by blast
  with f show ?thesis
    by (cases c) (simp_all add: load_start_def load_ok_def load_inv_def stop_due_def stop_now_def)
qed

text \<open>C25. A load-profile run with a concurrency of at least one keeps its books under every interleaving of timers, completions,
failures and aborts: never more requests in flight than the profile's peak, every launched
request is either in flight or has one result, and when the run resolves nothing is in flight, so
there is a result for each launch.\<close>

theorem load_run_accounting:
  assumes "1 \<le> maxConcurrency (profile u)" and "st = foldl (load_step u) (load_start u b aborted) es"
  shows "int (lr_inFlight st) \<le> peak_concurrency (profile u) \<and>
    lr_calls st = lr_inFlight st + length (lr_results st) \<and>
    (lr_resolved st \<longrightarrow> lr_inFlight st = 0 \<and> length (lr_results st) = lr_calls st)"
  using load_runs.run_ok [OF load_start_ok [OF assms(1)], of b aborted es] assms(2)
  by (auto simp: load_ok_def load_inv_def)

subsection \<open>Liveness\<close>

definition load_full :: "load_run \<Rightarrow> bool" where
  "load_full st = (lr_inFlight st = length (lr_pending st))"

definition all_prepared :: "load_setup \<Rightarrow> bool" where
  "all_prepared u = (pool u \<noteq> [] \<and> list_all (prep_ok u) (pool u))"

lemma launchOne_full: "all_prepared u \<Longrightarrow> load_full s \<Longrightarrow> launchOne u s = (c, s') \<Longrightarrow> load_full s' \<and> c"
  by (auto simp: launchOne_def nextScenario_def all_prepared_def load_full_def Let_def list_all_length
      split: if_splits)

lemma finish_frame [simp]:
  "lr_inFlight (finish u st) = lr_inFlight st" "lr_pending (finish u st) = lr_pending st"
  "stop_now (finish u st) = stop_now st" "lr_resolved (finish u st)" "lr_rejected (finish u st) = lr_rejected st"
  by (simp_all add: finish_def stop_now_def)

lemma stop_and_finish_frame [simp]:
  "lr_inFlight (stop_and_finish u st) = lr_inFlight st" "lr_pending (stop_and_finish u st) = lr_pending st"
  "stop_now (stop_and_finish u st) = stop_now st" "lr_rejected (stop_and_finish u st) = lr_rejected st"
  by (simp_all add: stop_and_finish_def Let_def) (simp_all add: stop_now_def)

lemma settle_pending:
  "lr_pending (settle u k c st) = take k (lr_pending st) @ drop (Suc k) (lr_pending st)"
  "lr_inFlight (settle u k c st) = (if length (lr_pending st) \<le> k then lr_inFlight st else lr_inFlight st - 1)"
  by (auto simp: settle_cases Let_def)

lemma fillPool_full: "all_prepared u \<Longrightarrow> load_full st \<Longrightarrow> fillPool u st = (c, st') \<Longrightarrow> load_full st'"
proof -
  assume a: "all_prepared u" "load_full st" "fillPool u st = (c, st')"
  show ?thesis
  proof (cases "stop_now st \<or> durationMs u \<le> lr_clock st")
    case True
    with a(2,3) show ?thesis by (auto simp: fillPool_def load_full_def split: if_splits)
  next
    case False
    then have "launch_while u (getTargetConcurrency (profile u) (lr_clock st)) st = (c, st')"
      using a(3) by (simp add: fillPool_def)
    then show ?thesis
      by (rule launch_while_rule) (use a launchOne_full in blast)+
  qed
qed

lemma load_full_ignores [simp]:
  "load_full (st\<lparr>lr_clock := t\<rparr>) = load_full st" "load_full (st\<lparr>lr_fills := n\<rparr>) = load_full st"
  "load_full (st\<lparr>lr_aborted := a\<rparr>) = load_full st" "load_full (st\<lparr>lr_rejected := a\<rparr>) = load_full st"
  "load_full (st\<lparr>lr_timerStopped := a, lr_ticker := c\<rparr>) = load_full st"
  "load_full (st\<lparr>lr_lastProgress := t, lr_reports := rs\<rparr>) = load_full st"
  "load_full (finish u st) = load_full st"
  by (simp_all add: load_full_def)

lemma load_step_full: "all_prepared u \<Longrightarrow> load_full st \<Longrightarrow> load_full (load_step u st e)"
proof (cases e)
  case (Tick now)
  assume a: "all_prepared u" "load_full st"
  let ?s = "st\<lparr>lr_clock := max (lr_clock st) now\<rparr>"
  obtain b s1 where f: "fillPool u ?s = (b, s1)" by (cases "fillPool u ?s")
  have "load_full s1" using fillPool_full [OF a(1) _ f] a(2) by simp
  with a f Tick show ?thesis by (cases b) (simp_all add: ticker_fires_def Let_def)
next
  case (Fill now)
  assume a: "all_prepared u" "load_full st"
  let ?t = "st\<lparr>lr_clock := max (lr_clock st) now, lr_fills := lr_fills st - 1\<rparr>"
  obtain b s1 where f: "fillPool u ?t = (b, s1)" by (cases "fillPool u ?t")
  have "load_full s1" using fillPool_full [OF a(1) _ f] a(2) by simp
  with a f Fill show ?thesis by (simp add: Let_def)
next
  case (Settle k c)
  assume "load_full st"
  with Settle show ?thesis by (auto simp: load_full_def settle_pending)
qed simp

lemma load_start_full: "all_prepared u \<Longrightarrow> load_full (load_start u b a)"
proof -
  assume a: "all_prepared u"
  let ?s = "\<lparr>lr_inFlight = 0, lr_pending = [], lr_calls = 0, lr_results = [], lr_breaker = b,
             lr_aborted = a, lr_timerStopped = False, lr_ticker = True, lr_fills = 0,
             lr_clock = 0, lr_lastProgress = 0, lr_reports = [], lr_resolved = False, lr_rejected = False\<rparr>"
  obtain c s1 where f: "fillPool u ?s = (c, s1)" by (cases "fillPool u ?s")
  have "load_full s1" using fillPool_full [OF a _ f] by (simp add: load_full_def)
  with f show ?thesis by (cases c) (simp_all add: load_start_def)
qed

lemma stop_due_settle: "stop_due u st \<Longrightarrow> stop_due u (settle u k c st)"
proof -
  assume d: "stop_due u st"
  have "stop_now st \<Longrightarrow> stop_now (settle u k c st)"
    using stop_now_settled [of st k c] by (simp add: settle_cases Let_def)
  moreover have "lr_clock (settle u k c st) = lr_clock st" by (simp add: settle_cases Let_def)
  ultimately show ?thesis using d by (auto simp: stop_due_def)
qed

lemma drain:
  "load_ok u st \<Longrightarrow> load_full st \<Longrightarrow> stop_due u st \<Longrightarrow> length cs = length (lr_pending st) \<Longrightarrow>
   let st' = foldl (load_step u) st (map (Settle 0) cs)
   in load_ok u st' \<and> stop_due u st' \<and> lr_inFlight st' = 0"
proof (induction cs arbitrary: st)
  case Nil
  then show ?case by (simp add: load_full_def)
next
  case (Cons c cs)
  let ?s = "settle u 0 c st"
  have "load_full ?s" using Cons.prems by (auto simp: load_full_def settle_pending)
  moreover have "length cs = length (lr_pending ?s)" using Cons.prems by (auto simp: settle_pending)
  ultimately show ?case
    using Cons.IH [of ?s] settle_ok [OF Cons.prems(1)] stop_due_settle [OF Cons.prems(3)] by simp
qed

lemma tick_resolves:
  assumes "load_ok u st" "stop_due u st" "lr_inFlight st = 0"
  shows "lr_resolved (load_step u st (Tick now))"
proof (cases "lr_resolved st")
  case True
  with assms show ?thesis by (auto simp: load_ok_def load_inv_def Let_def)
next
  case False
  then have "lr_ticker st" using assms by (auto simp: load_ok_def load_inv_def)
  with assms(2,3) show ?thesis
    by (auto simp: Let_def ticker_fires_def stop_due_def stop_now_def le_max_iff_disj)
qed

text \<open>C27. A load-profile run comes to an end: when the concurrency is at least one, there are
scenarios and each of them can be prepared, from any
reachable state in which the run was aborted, the breaker tripped or the duration is over, the run
resolves once the requests still in flight have completed, in whatever way, and the interval has
fired once more.\<close>

theorem load_run_resolves:
  assumes "1 \<le> maxConcurrency (profile u)" and "all_prepared u"
    and "st = foldl (load_step u) (load_start u b aborted) es" and "stop_due u st"
    and "length cs = length (lr_pending st)"
  shows "lr_resolved (load_step u (foldl (load_step u) st (map (Settle 0) cs)) (Tick now))"
proof -
  have "load_ok u st" using load_runs.run_ok [OF load_start_ok [OF assms(1)]] assms(3) by simp
  moreover have "load_full st"
    unfolding assms(3) by (induction es rule: rev_induct)
      (simp_all add: load_start_full load_step_full assms(2))
  ultimately show ?thesis using drain [of u st cs] assms(4,5) tick_resolves by (simp add: Let_def)
qed

text \<open>A request counted but without a promise stays counted for ever.\<close>

definition load_leaked :: "load_run \<Rightarrow> bool" where
  "load_leaked st = (length (lr_pending st) < lr_inFlight st \<and> \<not> lr_rejected st)"

lemma launchOne_leaked: "load_leaked s \<Longrightarrow> launchOne u s = (c, s') \<Longrightarrow> load_leaked s'"
  by (auto simp: launchOne_def load_leaked_def Let_def split: option.splits if_splits)

lemma fillPool_leaked: "load_leaked st \<Longrightarrow> fillPool u st = (c, st') \<Longrightarrow> load_leaked st'"
proof -
  assume a: "load_leaked st" "fillPool u st = (c, st')"
  show ?thesis
  proof (cases "stop_now st \<or> durationMs u \<le> lr_clock st")
    case True
    with a show ?thesis by (auto simp: fillPool_def load_leaked_def split: if_splits)
  next
    case False
    then have "launch_while u (getTargetConcurrency (profile u) (lr_clock st)) st = (c, st')"
      using a(2) by (simp add: fillPool_def)
    then show ?thesis by (rule launch_while_rule) (use a launchOne_leaked in blast)+
  qed
qed

lemma load_leaked_ignores [simp]:
  "load_leaked (st\<lparr>lr_clock := t\<rparr>) = load_leaked st" "load_leaked (st\<lparr>lr_fills := n\<rparr>) = load_leaked st"
  "load_leaked (st\<lparr>lr_aborted := a\<rparr>) = load_leaked st"
  "load_leaked (st\<lparr>lr_timerStopped := a, lr_ticker := d\<rparr>) = load_leaked st"
  "load_leaked (st\<lparr>lr_lastProgress := t, lr_reports := rs\<rparr>) = load_leaked st"
  "load_leaked (finish u st) = load_leaked st" "load_leaked (stop_and_finish u st) = load_leaked st"
  by (simp_all add: load_leaked_def)

lemma settle_rejected [simp]: "lr_rejected (settle u k c st) = lr_rejected st"
  by (simp add: settle_cases Let_def) (simp add: settled_state_def Let_def)

lemma load_step_leaked: "load_leaked st \<Longrightarrow> load_leaked (load_step u st e)"
proof (cases e)
  case (Tick now)
  assume a: "load_leaked st"
  let ?s = "st\<lparr>lr_clock := max (lr_clock st) now\<rparr>"
  obtain b s1 where f: "fillPool u ?s = (b, s1)" by (cases "fillPool u ?s")
  have "load_leaked s1" using fillPool_leaked [OF _ f] a by simp
  with a f Tick show ?thesis by (cases b) (simp_all add: ticker_fires_def Let_def)
next
  case (Fill now)
  assume a: "load_leaked st"
  let ?t = "st\<lparr>lr_clock := max (lr_clock st) now, lr_fills := lr_fills st - 1\<rparr>"
  obtain b s1 where f: "fillPool u ?t = (b, s1)" by (cases "fillPool u ?t")
  have "load_leaked s1" using fillPool_leaked [OF _ f] a by simp
  with a f Fill show ?thesis by (simp add: Let_def)
next
  case (Settle k c)
  assume "load_leaked st"
  with Settle show ?thesis by (auto simp: load_leaked_def settle_pending)
qed simp

lemma leaked_never_resolves:
  assumes "load_ok u st" "load_leaked st"
  shows "\<not> lr_resolved (foldl (load_step u) st es) \<and> \<not> lr_rejected (foldl (load_step u) st es)"
proof -
  have "load_leaked (foldl (load_step u) st es)"
    using assms(2) by (induction es rule: rev_induct) (simp_all add: load_step_leaked)
  moreover have "load_ok u (foldl (load_step u) st es)" using load_runs.run_ok assms(1) .
  ultimately show ?thesis by (auto simp: load_ok_def load_inv_def load_leaked_def)
qed

text \<open>A scenario that cannot be prepared hangs a load-profile run. When the interval wants
to launch a request and its preparation throws (an address that cannot be parsed), the request has
already been counted as in flight and nothing will count it down: whatever happens afterwards, end
of the duration and abort included, the run's promise is neither resolved nor rejected.\<close>

theorem unprepared_scenario_hangs:
  assumes "1 \<le> maxConcurrency (profile u)" and "st = foldl (load_step u) (load_start u b aborted) es"
    and "\<not> lr_rejected st" and "lr_ticker st" and "t = max (lr_clock st) now"
    and "\<not> stop_now st" and "t < durationMs u"
    and "int (lr_inFlight st) < getTargetConcurrency (profile u) t"
    and "nextScenario (pool u) (lr_calls st) = Some sc" and "\<not> prep_ok u sc"
  shows "\<not> lr_resolved (foldl (load_step u) st (Tick now # later)) \<and>
         \<not> lr_rejected (foldl (load_step u) st (Tick now # later))"
proof -
  let ?s = "st\<lparr>lr_clock := t\<rparr>"
  have ok: "load_ok u st" using load_runs.run_ok [OF load_start_ok [OF assms(1)]] assms(2) by simp
  have l: "launchOne u ?s = (False, ?s\<lparr>lr_calls := lr_calls st + 1, lr_inFlight := lr_inFlight st + 1\<rparr>)"
    using assms(9,10) by (simp add: launchOne_def)
  have "fillPool u ?s = (False, ?s\<lparr>lr_calls := lr_calls st + 1, lr_inFlight := lr_inFlight st + 1\<rparr>)"
    using assms(6,7,8) l by (simp add: fillPool_def stop_now_def launch_while.simps)
  moreover have "\<not> durationMs u \<le> max (lr_clock st) now" using assms(5,7) by linarith
  ultimately have "load_step u st (Tick now) = ?s\<lparr>lr_calls := lr_calls st + 1, lr_inFlight := lr_inFlight st + 1\<rparr>"
    using assms(4,5,6) by (simp add: ticker_fires_def stop_now_def Let_def le_max_iff_disj)
  then have "load_leaked (load_step u st (Tick now))"
    using ok assms(3) by (simp add: load_leaked_def load_ok_def load_inv_def)
  with leaked_never_resolves [OF load_step_ok [OF ok]] show ?thesis by (simp del: load_step.simps)
qed

subsection \<open>A concrete run\<close>

definition sample_setup :: "(string \<Rightarrow> bool) \<Rightarrow> load_setup" where
  "sample_setup ok = \<lparr>profile = \<lparr>lp_type = Ramp_Up, durationSec = 10, maxConcurrency = 2, rampUpSec = Some 1,
       spikeConcurrency = None, spikeStartSec = None, spikeDurationSec = None\<rparr>,
     pool = [sample_scenario ''a'', sample_scenario ''b''], prep_ok = (\<lambda>s. ok (ls_id s))\<rparr>"

definition sample_breaker :: circuit_breaker where
  "sample_breaker = new_breaker Continue 10 50 10"

lemmas sample_run_defs = sample_setup_def sample_breaker_def new_breaker_def load_start_def fillPool_def
  launch_while.simps launchOne_def nextScenario_def stop_now_def shouldStop_def durationMs_def
  getTargetConcurrency_def

theorem load_run_accounting_witness:
  "lr_calls (load_start (sample_setup (\<lambda>_. True)) sample_breaker False) = 1 \<and>
   int (lr_inFlight (load_start (sample_setup (\<lambda>_. True)) sample_breaker False)) \<le>
     peak_concurrency (profile (sample_setup (\<lambda>_. True)))"
proof -
  have "1 \<le> maxConcurrency (profile (sample_setup (\<lambda>_. True)))" by (simp add: sample_setup_def)
  from load_run_accounting [OF this, of "load_start (sample_setup (\<lambda>_. True)) sample_breaker False" sample_breaker False "[]"]
  show ?thesis by (simp add: sample_run_defs Let_def)
qed

theorem load_run_resolves_witness:
  "lr_resolved (load_step (sample_setup (\<lambda>_. True))
     (foldl (load_step (sample_setup (\<lambda>_. True)))
       (foldl (load_step (sample_setup (\<lambda>_. True))) (load_start (sample_setup (\<lambda>_. True)) sample_breaker False) [Abort])
       (map (Settle 0) [Rejected ''r-1'' 0 ''reset''])) (Tick 100))"
proof (rule load_run_resolves [OF _ _ refl])
  show "1 \<le> maxConcurrency (profile (sample_setup (\<lambda>_. True)))" by (simp add: sample_setup_def)
  show "all_prepared (sample_setup (\<lambda>_. True))" by (simp add: sample_setup_def all_prepared_def)
qed (simp_all add: sample_run_defs stop_due_def Let_def)

theorem unprepared_scenario_hangs_witness:
  "let st = foldl (load_step (sample_setup (\<lambda>i. i = ''a''))) (load_start (sample_setup (\<lambda>i. i = ''a'')) sample_breaker False)
       (Tick 500 # [Settle 0 (Returned (sample_result ''r-1'' True)), Tick 20000, Abort, Tick 20100])
   in lr_inFlight st = 1 \<and> lr_pending st = [] \<and> \<not> lr_ticker st \<and> \<not> lr_resolved st \<and> \<not> lr_rejected st"
proof -
  let ?u = "sample_setup (\<lambda>i. i = ''a'')"
  let ?s = "load_start ?u sample_breaker False"
  let ?es = "Tick 500 # [Settle 0 (Returned (sample_result ''r-1'' True)), Tick 20000, Abort, Tick 20100]"
  have "\<not> lr_resolved (foldl (load_step ?u) ?s ?es) \<and> \<not> lr_rejected (foldl (load_step ?u) ?s ?es)"
  proof (rule unprepared_scenario_hangs [where es = "[]" and sc = "sample_scenario ''b''" and t = 500])
    show "1 \<le> maxConcurrency (profile ?u)" by (simp add: sample_setup_def)
    show "?s = foldl (load_step ?u) (load_start ?u sample_breaker False) []" by simp
  qed (simp_all add: sample_run_defs Let_def)
  moreover have "lr_inFlight (foldl (load_step ?u) ?s ?es) = 1 \<and> lr_pending (foldl (load_step ?u) ?s ?es) = [] \<and>
      \<not> lr_ticker (foldl (load_step ?u) ?s ?es)"
    by (simp add: sample_run_defs ticker_fires_def settle_def breaker_record_def sample_result_def
        stop_and_finish_def Let_def)
  ultimately show ?thesis by (simp only: Let_def simp_thms)
qed

end
