(* ===== verification/Load_Queue.thy ===== *)
theory Load_Queue
  imports Load_Runner
begin

text \<open>
  The queue runners of \<open>engine/core/requestExecution.ts\<close>: \<open>runSequential\<close>, \<open>runBatch\<close> and
  \<open>runPool\<close>, with the retries of \<open>executeWithRetry\<close>.

  The outside of a run is a parameter: \<open>attempt\<close> is what executing a scenario gives (a result,
  or \<open>None\<close> where its promise is rejected), \<open>aborted n\<close> whether the abort signal is set at the
  \<open>n\<close>-th check. The sequential runner is a recursion over the queue; the batch loop advances
  by the concurrency, which may be zero, so it is a partial function, where \<open>None\<close> is a loop that
  does not end; the pool runner is an event system.
\<close>

section \<open>Retries\<close>

text \<open>\<open>executeWithRetry\<close>: the first attempt, then further ones while the result has not passed
and retries are left. \<open>attempt n\<close> is the result of the \<open>n\<close>-th attempt, from 0.\<close>

function retry_loop :: "(nat \<Rightarrow> request_result) \<Rightarrow> nat \<Rightarrow> nat \<Rightarrow> request_result \<Rightarrow> request_result \<times> nat" where
  "retry_loop attempt retryCount n r =
     (if \<not> rr_passed r \<and> n < retryCount then retry_loop attempt retryCount (n + 1) (attempt (n + 1)) else (r, n))"
  by pat_completeness auto
termination by (relation "measure (\<lambda>(a, c, n, r). c - n)") auto

declare retry_loop.simps [simp del]

definition executeWithRetry :: "(nat \<Rightarrow> request_result) \<Rightarrow> nat \<Rightarrow> request_result" where
  "executeWithRetry attempt retryCount =
     (let (r, n) = retry_loop attempt retryCount 0 (attempt 0)
      in if 0 < n then
           r\<lparr>rr_errorMessage := (if rr_passed r then None
              else Some ((case rr_errorMessage r of None \<Rightarrow> ''Failed'' | Some m \<Rightarrow> m) @
                         '' (after '' @ js_nat (n + 1) @ '' attempts)''))\<rparr>
         else r)"

lemma retry_loop_result:
  "retry_loop attempt c n (attempt n) = (r, m) \<Longrightarrow> n \<le> c \<Longrightarrow>
   n \<le> m \<and> m \<le> c \<and> r = attempt m \<and> (\<forall>i. n \<le> i \<and> i < m \<longrightarrow> \<not> rr_passed (attempt i)) \<and>
   (rr_passed r \<or> m = c)"
proof (induction "c - n" arbitrary: n)
  case 0
  then show ?case by (subst (asm) retry_loop.simps) auto
next
  case (Suc k)
  show ?case
  proof (cases "rr_passed (attempt n)")
    case True
    with Suc.prems show ?thesis by (subst (asm) retry_loop.simps) auto
  next
    case False
    have "n < c" using Suc.hyps(2) by linarith
    then have l: "retry_loop attempt c (Suc n) (attempt (Suc n)) = (r, m)"
      using False Suc.prems(1) retry_loop.simps [of attempt c n "attempt n"] by simp
    have "k = c - Suc n" "Suc n \<le> c" using Suc.hyps(2) by linarith+
    from Suc.hyps(1) [OF this(1) l this(2)]
    have *: "Suc n \<le> m \<and> m \<le> c \<and> r = attempt m \<and> (\<forall>i. Suc n \<le> i \<and> i < m \<longrightarrow> \<not> rr_passed (attempt i)) \<and>
        (rr_passed r \<or> m = c)" .
    have "\<not> rr_passed (attempt i)" if "n \<le> i" "i < m" for i
      using that * False by (cases "i = n") auto
    with * show ?thesis by auto
  qed
qed

text \<open>Retrying stops at the first attempt that passes and never makes more than the configured
number of extra attempts; the outcome is that of the last attempt made, and its error message is
cleared on a late success or carries the number of attempts on failure.\<close>

theorem retry_until_passed:
  "\<exists>n\<le>c. (\<forall>i<n. \<not> rr_passed (attempt i)) \<and> (rr_passed (attempt n) \<or> n = c) \<and>
     rr_passed (executeWithRetry attempt c) = rr_passed (attempt n) \<and>
     (n = 0 \<longrightarrow> executeWithRetry attempt c = attempt 0) \<and>
     (0 < n \<and> rr_passed (attempt n) \<longrightarrow> executeWithRetry attempt c = (attempt n)\<lparr>rr_errorMessage := None\<rparr>) \<and>
     (0 < n \<and> \<not> rr_passed (attempt n) \<longrightarrow> (\<exists>m. rr_errorMessage (executeWithRetry attempt c) =
        Some (m @ '' (after '' @ js_nat (n + 1) @ '' attempts)'')))"
proof -
  obtain r m where l: "retry_loop attempt c 0 (attempt 0) = (r, m)" by fastforce
  have m: "m \<le> c" "r = attempt m" "\<forall>i<m. \<not> rr_passed (attempt i)" "rr_passed (attempt m) \<or> m = c"
    using retry_loop_result [OF l] by auto
  then have e: "executeWithRetry attempt c = (if 0 < m then (attempt m)\<lparr>rr_errorMessage := (if rr_passed (attempt m) then None
      else Some ((case rr_errorMessage (attempt m) of None \<Rightarrow> ''Failed'' | Some t \<Rightarrow> t) @
         '' (after '' @ js_nat (m + 1) @ '' attempts)''))\<rparr> else attempt m)"
    using l by (simp add: executeWithRetry_def)
  show ?thesis
    by (intro exI [of _ m] conjI m) (use e in simp_all)
qed

theorem retry_until_passed_witness:
  "executeWithRetry (\<lambda>n. sample_result ''r'' (2 \<le> n)) 5 = (sample_result ''r'' True)\<lparr>rr_errorMessage := None\<rparr>"
proof -
  let ?a = "\<lambda>n. sample_result ''r'' (2 \<le> n)"
  obtain n :: nat where n: "rr_passed (?a n) \<or> n = 5"
      "0 < n \<and> rr_passed (?a n) \<longrightarrow> executeWithRetry ?a 5 = (?a n)\<lparr>rr_errorMessage := None\<rparr>"
    by (rule exE [OF retry_until_passed [of 5 ?a]], elim conjE, rule that)
  have p: "rr_passed (?a i) \<longleftrightarrow> 2 \<le> i" for i :: nat by (simp add: sample_result_def)
  have "2 \<le> n" using n(1) p [of n] by linarith
  with n(2) p [of n] show ?thesis by simp
qed

section \<open>Sequential and batch runs\<close>

text \<open>\<open>None\<close>: the promise of the run is rejected.\<close>

fun run_sequential_from :: "(nat \<Rightarrow> bool) \<Rightarrow> (nat \<Rightarrow> load_scenario \<Rightarrow> request_result option) \<Rightarrow> nat \<Rightarrow>
    circuit_breaker \<Rightarrow> request_result list \<Rightarrow> load_scenario list \<Rightarrow> request_result list option" where
  "run_sequential_from aborted exec i b rs [] = Some rs"
| "run_sequential_from aborted exec i b rs (sc # queue) =
     (if aborted i \<or> shouldStop b then Some rs
      else case exec i sc of
        None \<Rightarrow> None
      | Some r \<Rightarrow> run_sequential_from aborted exec (i + 1) (breaker_record b r) (rs @ [r]) queue)"

definition runSequential where
  "runSequential aborted exec b queue = run_sequential_from aborted exec 0 b [] queue"

text \<open>\<open>Promise.all\<close> over a batch: every result in order, or rejected.\<close>

fun all_settled :: "(nat \<Rightarrow> load_scenario \<Rightarrow> request_result option) \<Rightarrow> nat \<Rightarrow> load_scenario list \<Rightarrow> request_result list option" where
  "all_settled exec i [] = Some []"
| "all_settled exec i (sc # scs) = (case exec i sc of None \<Rightarrow> None
     | Some r \<Rightarrow> map_option (\<lambda>rs. r # rs) (all_settled exec (i + 1) scs))"

text \<open>The loop of \<open>runBatch\<close>; \<open>n\<close> counts the checks of the abort signal. The outer option is
the end of the loop, the inner one the settling of the run's promise.\<close>

partial_function (option) run_batch_from :: "(nat \<Rightarrow> bool) \<Rightarrow> (nat \<Rightarrow> load_scenario \<Rightarrow> request_result option) \<Rightarrow>
    nat \<Rightarrow> load_scenario list \<Rightarrow> nat \<Rightarrow> nat \<Rightarrow> circuit_breaker \<Rightarrow> request_result list \<Rightarrow>
    request_result list option option" where
  "run_batch_from aborted exec concurrency queue n i b rs =
     (if length queue \<le> i then Some (Some rs)
      else if aborted n \<or> shouldStop b then Some (Some rs)
      else case all_settled exec i (take concurrency (drop i queue)) of
        None \<Rightarrow> Some None
      | Some batch \<Rightarrow> run_batch_from aborted exec concurrency queue (n + 1) (i + concurrency)
                        (foldl breaker_record b batch) (rs @ batch))"

definition runBatch where
  "runBatch aborted exec b concurrency queue = run_batch_from aborted exec concurrency queue 0 0 b []"

declare run_batch_from.simps [code]

text \<open>With at least one request per batch the loop ends; a batch of none never advances.\<close>

lemma run_batch_ends: "0 < c \<Longrightarrow> \<exists>r. run_batch_from aborted exec c queue n i b rs = Some r"
proof (induction "length queue - i" arbitrary: n i b rs rule: less_induct)
  case less
  show ?case
  proof (cases "length queue \<le> i \<or> aborted n \<or> shouldStop b")
    case True
    then show ?thesis by (subst run_batch_from.simps) auto
  next
    case False
    show ?thesis
    proof (cases "all_settled exec i (take c (drop i queue))")
      case None
      with False show ?thesis by (subst run_batch_from.simps) auto
    next
      case (Some batch)
      have "length queue - (i + c) < length queue - i" using False less.prems by auto
      from less.hyps [OF this less.prems] Some False show ?thesis
        by (subst run_batch_from.simps) auto
    qed
  qed
qed

definition batch_stuck :: "(nat \<Rightarrow> bool) \<Rightarrow> nat \<Rightarrow> load_scenario list \<Rightarrow> nat \<Rightarrow> circuit_breaker \<Rightarrow> bool" where
  "batch_stuck aborted c queue i b = (c = 0 \<and> i < length queue \<and> \<not> shouldStop b \<and> (\<forall>k. \<not> aborted k))"

lemma run_batch_stuck:
  assumes "run_batch_from aborted exec c queue n i b rs = Some r"
  shows "\<not> batch_stuck aborted c queue i b"
proof (rule run_batch_from.raw_induct [OF _ assms,
    where P = "\<lambda>aborted exec c queue n i b rs r. \<not> batch_stuck aborted c queue i b"])
  fix run aborted exec c queue n i b rs r
  assume IH: "\<And>aborted exec c queue n i b rs r.
      run aborted exec c queue n i b rs = Some r \<Longrightarrow> \<not> batch_stuck aborted c queue i b"
    and eq: "(if length queue \<le> i then Some (Some rs)
      else if aborted n \<or> shouldStop b then Some (Some rs)
      else case all_settled exec i (take c (drop i queue)) of
        None \<Rightarrow> Some None
      | Some batch \<Rightarrow> run aborted exec c queue (n + 1) (i + c) (foldl breaker_record b batch) (rs @ batch)) = Some r"
  show "\<not> batch_stuck aborted c queue i b"
  proof
    assume a: "batch_stuck aborted c queue i b"
    with eq have "run aborted exec c queue (n + 1) (i + c) (foldl breaker_record b []) (rs @ []) = Some r"
      by (simp add: batch_stuck_def)
    moreover have "batch_stuck aborted c queue (i + c) (foldl breaker_record b [])"
      using a by (simp add: batch_stuck_def)
    ultimately show False using IH by blast
  qed
qed

text \<open>A batch run ends for every positive batch size, whatever the requests return, and for
none: with a batch size of zero and something to run, unless it is stopped before it starts, the
loop does not advance and the run never ends.\<close>

theorem batch_run_termination:
  "(0 < c \<longrightarrow> runBatch aborted exec b c queue \<noteq> None) \<and>
   (queue \<noteq> [] \<and> \<not> shouldStop b \<and> (\<forall>k. \<not> aborted k) \<longrightarrow> runBatch aborted exec b 0 queue = None)"
proof (intro conjI impI)
  assume "0 < c"
  with run_batch_ends [OF this] show "runBatch aborted exec b c queue \<noteq> None"
    unfolding runBatch_def by fastforce
next
  assume a: "queue \<noteq> [] \<and> \<not> shouldStop b \<and> (\<forall>k. \<not> aborted k)"
  show "runBatch aborted exec b 0 queue = None"
  proof (cases "runBatch aborted exec b 0 queue")
    case (Some r)
    with a run_batch_stuck [of aborted exec 0 queue 0 0 b "[]" r] show ?thesis
      by (simp add: runBatch_def batch_stuck_def)
  qed
qed

theorem batch_run_termination_witness:
  "runBatch (\<lambda>_. False) (\<lambda>_ _. None) sample_breaker 0 [sample_scenario ''a''] = None \<and>
   runBatch (\<lambda>_. False) (\<lambda>_ _. None) sample_breaker 1 [sample_scenario ''a''] \<noteq> None"
  using batch_run_termination [of 1 "\<lambda>_. False" "\<lambda>_ _. None" sample_breaker "[sample_scenario ''a'']"]
  by (simp add: sample_breaker_def new_breaker_def shouldStop_def)

subsection \<open>Agreement of the runners\<close>

lemma map_append_option [simp]:
  "map_option ((@) []) z = z" "map_option ((@) (x # xs)) z = map_option (\<lambda>ys. x # xs @ ys) z"
  "map_option ((@) (xs @ ys)) z = map_option (\<lambda>zs. xs @ ys @ zs) z"
  by (cases z; simp)+

lemma all_settled_append:
  "all_settled exec i (xs @ ys) = (case all_settled exec i xs of None \<Rightarrow> None
     | Some rs \<Rightarrow> map_option ((@) rs) (all_settled exec (i + length xs) ys))"
  by (induction exec i xs rule: all_settled.induct)
     (auto split: option.splits simp: option.map_comp comp_def option.map_ident)

lemma continue_never_stops:
  "policy b = Continue \<Longrightarrow> \<not> shouldStop b \<Longrightarrow> \<not> shouldStop (foldl breaker_record b rs)"
  by (induction rs arbitrary: b) (auto simp: breaker_record_def shouldStop_def Let_def)

lemma sequential_continue:
  "policy b = Continue \<Longrightarrow> \<not> shouldStop b \<Longrightarrow> (\<forall>k. \<not> aborted k) \<Longrightarrow>
   run_sequential_from aborted exec i b rs queue = map_option ((@) rs) (all_settled exec i queue)"
proof (induction aborted exec i b rs queue rule: run_sequential_from.induct)
  case (2 aborted exec i b rs sc queue)
  have "\<not> shouldStop (breaker_record b r)" for r
    using continue_never_stops [of b "[r]"] 2(2,3) by simp
  with 2 show ?case by (auto split: option.splits simp: option.map_comp comp_def)
qed simp

lemma batch_continue:
  "0 < c \<Longrightarrow> policy b = Continue \<Longrightarrow> \<not> shouldStop b \<Longrightarrow> (\<forall>k. \<not> aborted k) \<Longrightarrow>
   run_batch_from aborted exec c queue n i b rs = Some (map_option ((@) rs) (all_settled exec i (drop i queue)))"
proof (induction "length queue - i" arbitrary: n i b rs rule: less_induct)
  case less
  show ?case
  proof (cases "length queue \<le> i")
    case True
    then show ?thesis by (subst run_batch_from.simps) simp
  next
    case False
    have split: "drop i queue = take c (drop i queue) @ drop (i + c) queue"
      by (metis append_take_drop_id drop_drop add.commute)
    show ?thesis
    proof (cases "all_settled exec i (take c (drop i queue))")
      case None
      then have "all_settled exec i (drop i queue) = None"
        by (subst split) (simp add: all_settled_append)
      with None False less.prems show ?thesis by (subst run_batch_from.simps) simp
    next
      case (Some batch)
      let ?b = "foldl breaker_record b batch"
      have "length queue - (i + c) < length queue - i" using False less.prems by auto
      then have IH: "run_batch_from aborted exec c queue (n + 1) (i + c) ?b (rs @ batch) =
          Some (map_option ((@) (rs @ batch)) (all_settled exec (i + c) (drop (i + c) queue)))"
        using less.hyps less.prems continue_never_stops [of b batch] by simp
      have "all_settled exec i (drop i queue) =
          map_option ((@) batch) (all_settled exec (i + length (take c (drop i queue))) (drop (i + c) queue))"
        by (subst split) (simp add: all_settled_append Some)
      moreover have "all_settled exec (i + length (take c (drop i queue))) (drop (i + c) queue) =
          all_settled exec (i + c) (drop (i + c) queue)"
        by (cases "i + c \<le> length queue") (auto simp: min_def)
      ultimately show ?thesis using IH Some False less.prems
        by (subst run_batch_from.simps) (simp add: option.map_comp comp_def)
    qed
  qed
qed

text \<open>C35. Batching changes the timing, not the outcome: when nothing stops the run early (the breaker's
policy is to continue, it has not tripped, and the run is not aborted), a batch run of any positive size settles with the results of the sequential run, in queue order, and is
rejected exactly when that is.\<close>

theorem batch_equals_sequential:
  assumes "0 < c" and "policy b = Continue" and "\<not> shouldStop b" and "\<forall>k. \<not> aborted k"
  shows "runBatch aborted exec b c queue = Some (runSequential aborted exec b queue)"
  using batch_continue [OF assms] sequential_continue [OF assms(2-4)]
  by (simp add: runBatch_def runSequential_def)

theorem batch_equals_sequential_witness:
  "runBatch (\<lambda>_. False) (\<lambda>i sc. Some (sample_result (ls_id sc) True)) sample_breaker 2
     [sample_scenario ''a'', sample_scenario ''b'', sample_scenario ''c''] =
   Some (Some [sample_result ''a'' True, sample_result ''b'' True, sample_result ''c'' True])"
proof -
  have b: "policy sample_breaker = Continue" "\<not> shouldStop sample_breaker"
    by (simp_all add: sample_breaker_def new_breaker_def shouldStop_def)
  have r: "\<not> shouldStop (breaker_record x y)" if "policy x = Continue" "\<not> shouldStop x" for x y
    using continue_never_stops [of x "[y]"] that by simp
  show ?thesis
    using batch_equals_sequential [OF _ b, of 2 "\<lambda>_. False" "\<lambda>i sc. Some (sample_result (ls_id sc) True)"
        "[sample_scenario ''a'', sample_scenario ''b'', sample_scenario ''c'']"]
    by (simp add: runSequential_def b r)
qed

section \<open>The pool runner\<close>

text \<open>\<open>po_thinking\<close> counts the refills that wait for a think time; a think time ends early when
the run is aborted. \<open>po_resolved\<close> says that the run's promise has been resolved,
\<open>po_rejected\<close> that it was rejected (a preparation that throws in the first, synchronous, fill).\<close>

record pool_run =
  po_queue :: "load_scenario list"
  po_nextIdx :: nat
  po_inFlight :: nat
  po_pending :: "load_scenario list"
  po_results :: "request_result list"
  po_breaker :: circuit_breaker
  po_aborted :: bool
  po_thinking :: nat
  po_resolved :: bool
  po_rejected :: bool

definition pool_stop :: "pool_run \<Rightarrow> bool" where
  "pool_stop st = (po_aborted st \<or> shouldStop (po_breaker st))"

text \<open>The loop of \<open>launch\<close>; the flag says that no preparation threw.\<close>

function pool_launch_while :: "(load_scenario \<Rightarrow> bool) \<Rightarrow> nat \<Rightarrow> pool_run \<Rightarrow> bool \<times> pool_run" where
  "pool_launch_while prep concurrency st =
     (if po_inFlight st < concurrency \<and> po_nextIdx st < length (po_queue st) \<and> \<not> pool_stop st then
        (let sc = po_queue st ! po_nextIdx st;
             st1 = st\<lparr>po_nextIdx := po_nextIdx st + 1, po_inFlight := po_inFlight st + 1\<rparr>
         in if prep sc then pool_launch_while prep concurrency (st1\<lparr>po_pending := po_pending st1 @ [sc]\<rparr>)
            else (False, st1))
      else (True, st))"
  by pat_completeness auto
termination
  by (relation "measure (\<lambda>(prep, c, st). length (po_queue st) - po_nextIdx st)") auto

declare pool_launch_while.simps [simp del]

definition pool_launch :: "(load_scenario \<Rightarrow> bool) \<Rightarrow> nat \<Rightarrow> pool_run \<Rightarrow> bool \<times> pool_run" where
  "pool_launch prep concurrency st = (case pool_launch_while prep concurrency st of
     (False, st1) \<Rightarrow> (False, st1)
   | (True, st1) \<Rightarrow> (True, if length (po_queue st1) \<le> po_nextIdx st1 \<and> po_inFlight st1 = 0
                           then st1\<lparr>po_resolved := True\<rparr> else st1))"

definition pool_settle :: "nat \<Rightarrow> completion \<Rightarrow> pool_run \<Rightarrow> pool_run" where
  "pool_settle k c st = (if length (po_pending st) \<le> k then st else
     let r = completion_result (po_pending st ! k) c;
         st1 = st\<lparr>po_pending := take k (po_pending st) @ drop (Suc k) (po_pending st),
                  po_results := po_results st @ [r],
                  po_breaker := breaker_record (po_breaker st) r,
                  po_inFlight := po_inFlight st - 1\<rparr>
     in if length (po_queue st1) \<le> length (po_results st1) \<or> pool_stop st1 then st1\<lparr>po_resolved := True\<rparr>
        else st1\<lparr>po_thinking := po_thinking st1 + 1\<rparr>)"

datatype pool_event = Pool_Settle nat completion | Pool_Refill | Pool_Abort

fun pool_step :: "(load_scenario \<Rightarrow> bool) \<Rightarrow> nat \<Rightarrow> pool_run \<Rightarrow> pool_event \<Rightarrow> pool_run" where
  "pool_step prep n st (Pool_Settle k c) = pool_settle k c st"
| "pool_step prep n st Pool_Refill = (if po_thinking st = 0 then st
     else snd (pool_launch prep n (st\<lparr>po_thinking := po_thinking st - 1\<rparr>)))"
| "pool_step prep n st Pool_Abort = st\<lparr>po_aborted := True\<rparr>"

definition pool_start :: "(load_scenario \<Rightarrow> bool) \<Rightarrow> nat \<Rightarrow> circuit_breaker \<Rightarrow> bool \<Rightarrow> load_scenario list \<Rightarrow> pool_run" where
  "pool_start prep n b already_aborted queue =
     (let st = \<lparr>po_queue = queue, po_nextIdx = 0, po_inFlight = 0, po_pending = [], po_results = [],
                po_breaker = b, po_aborted = already_aborted, po_thinking = 0, po_resolved = False, po_rejected = False\<rparr>
      in case pool_launch prep n st of (True, st1) \<Rightarrow> st1 | (False, st1) \<Rightarrow> st1\<lparr>po_rejected := True\<rparr>)"

text \<open>An event that can happen next, the abort aside.\<close>

fun pool_enabled :: "pool_run \<Rightarrow> pool_event \<Rightarrow> bool" where
  "pool_enabled st (Pool_Settle k c) = (k < length (po_pending st))"
| "pool_enabled st Pool_Refill = (0 < po_thinking st)"
| "pool_enabled st Pool_Abort = False"

text \<open>A run of events, each possible when it happens.\<close>

inductive pool_path :: "(load_scenario \<Rightarrow> bool) \<Rightarrow> nat \<Rightarrow> pool_run \<Rightarrow> pool_event list \<Rightarrow> pool_run \<Rightarrow> bool"
  for prep n where
  path_done: "pool_path prep n st [] st"
| path_step: "pool_enabled st e \<Longrightarrow> pool_path prep n (pool_step prep n st e) es st' \<Longrightarrow>
    pool_path prep n st (e # es) st'"

code_pred (modes: i \<Rightarrow> i \<Rightarrow> i \<Rightarrow> i \<Rightarrow> o \<Rightarrow> bool) pool_path .

inductive_cases path_NilE: "pool_path prep n st [] st'"
inductive_cases path_ConsE: "pool_path prep n st (e # es) st'"

text \<open>Books of a pool run in which every scenario can be prepared and nothing is aborted: while it
is not resolved something is under way or about to be.\<close>

definition pool_inv :: "nat \<Rightarrow> pool_run \<Rightarrow> bool" where
  "pool_inv n st = (po_inFlight st = length (po_pending st) \<and> po_inFlight st \<le> n \<and>
     po_nextIdx st = po_inFlight st + length (po_results st) \<and> po_nextIdx st \<le> length (po_queue st) \<and>
     \<not> po_aborted st \<and>
     (\<not> po_resolved st \<longrightarrow> \<not> pool_stop st \<and> (0 < po_inFlight st \<or> 0 < po_thinking st) \<and>
        length (po_results st) < length (po_queue st)) \<and>
     (po_resolved st \<longrightarrow> length (po_results st) = length (po_queue st)))"

text \<open>What the launch loop leaves, given that everything can be prepared.\<close>

lemma pool_launch_while_done:
  "pool_launch_while prep n st = (c, st') \<Longrightarrow> list_all prep (po_queue st) \<Longrightarrow>
   po_nextIdx st = po_inFlight st + length (po_results st) \<Longrightarrow> po_nextIdx st \<le> length (po_queue st) \<Longrightarrow>
   po_inFlight st = length (po_pending st) \<Longrightarrow> po_inFlight st \<le> n \<Longrightarrow> 0 < n \<Longrightarrow>
   c \<and> po_queue st' = po_queue st \<and> po_results st' = po_results st \<and> po_breaker st' = po_breaker st \<and>
   po_aborted st' = po_aborted st \<and> po_thinking st' = po_thinking st \<and> po_resolved st' = po_resolved st \<and>
   po_nextIdx st' = po_inFlight st' + length (po_results st) \<and> po_nextIdx st' \<le> length (po_queue st) \<and>
   po_inFlight st' = length (po_pending st') \<and> po_inFlight st' \<le> n \<and> po_rejected st' = po_rejected st \<and>
   (\<not> pool_stop st \<longrightarrow> po_inFlight st' = n \<or> po_nextIdx st' = length (po_queue st))"
proof (induction prep n st arbitrary: c st' rule: pool_launch_while.induct)
  case (1 prep n st)
  show ?case
  proof (cases "po_inFlight st < n \<and> po_nextIdx st < length (po_queue st) \<and> \<not> pool_stop st")
    case False
    then have "pool_launch_while prep n st = (True, st)"
      by (subst pool_launch_while.simps) (rule if_not_P)
    with 1(2-8) False show ?thesis by auto
  next
    case True
    let ?sc = "po_queue st ! po_nextIdx st"
    let ?s1 = "st\<lparr>po_nextIdx := po_nextIdx st + 1, po_inFlight := po_inFlight st + 1\<rparr>"
    let ?s2 = "?s1\<lparr>po_pending := po_pending ?s1 @ [?sc]\<rparr>"
    have p: "prep ?sc" using 1(3) True by (simp add: list_all_length)
    then have l: "pool_launch_while prep n ?s2 = (c, st')"
      using 1(2) True pool_launch_while.simps [of prep n st] by (simp add: Let_def)
    have st2: "pool_stop ?s2 = pool_stop st" by (simp add: pool_stop_def)
    from 1(1) [OF True refl refl p l] 1(3-8) True st2 show ?thesis by auto
  qed
qed

lemma pool_launch_inv:
  assumes "pool_launch prep n st = (c, st')" and "list_all prep (po_queue st)" and "0 < n"
    and "po_nextIdx st = po_inFlight st + length (po_results st)" and "po_nextIdx st \<le> length (po_queue st)"
    and "po_inFlight st = length (po_pending st)" and "po_inFlight st \<le> n" and "\<not> po_aborted st"
    and "\<not> po_resolved st \<longrightarrow> \<not> pool_stop st"
    and "po_resolved st \<longrightarrow> length (po_results st) = length (po_queue st)"
  shows "c \<and> pool_inv n st' \<and> po_queue st' = po_queue st \<and> po_results st' = po_results st \<and>
    po_thinking st' = po_thinking st \<and> po_rejected st' = po_rejected st"
proof -
  obtain d s1 where l: "pool_launch_while prep n st = (d, s1)" by (cases "pool_launch_while prep n st")
  note f = pool_launch_while_done [OF l assms(2,4-7,3)]
  have stop: "pool_stop s1 = pool_stop st" using f by (simp add: pool_stop_def)
  have d using f by blast
  then have pl: "pool_launch prep n st = (True, if length (po_queue s1) \<le> po_nextIdx s1 \<and> po_inFlight s1 = 0
      then s1\<lparr>po_resolved := True\<rparr> else s1)"
    using l by (simp add: pool_launch_def)
  show ?thesis
  proof (cases "length (po_queue s1) \<le> po_nextIdx s1 \<and> po_inFlight s1 = 0")
    case True
    then have "st' = s1\<lparr>po_resolved := True\<rparr>" "c" using assms(1) pl by (simp_all only: if_P prod.inject)
    moreover have "length (po_results st) = length (po_queue st)" using True f by auto
    moreover have "po_inFlight s1 = 0" using True by blast
    ultimately show ?thesis using f assms(8) by (auto simp: pool_inv_def)
  next
    case False
    then have s: "st' = s1" "c" using assms(1) pl by (simp_all only: if_not_P prod.inject if_False)
    have "\<not> po_resolved st \<longrightarrow> 0 < po_inFlight s1 \<and> length (po_results s1) < length (po_queue s1)"
    proof
      assume "\<not> po_resolved st"
      then have "po_inFlight s1 = n \<or> po_nextIdx s1 = length (po_queue s1)" using f assms(9) by auto
      then have "0 < po_inFlight s1" using False assms(3) by auto
      moreover have "po_inFlight s1 + length (po_results s1) \<le> length (po_queue s1)" using f by simp
      ultimately show "0 < po_inFlight s1 \<and> length (po_results s1) < length (po_queue s1)" by linarith
    qed
    with s f stop assms(8-10) show ?thesis by (simp add: pool_inv_def)
  qed
qed

text \<open>Events left before the run must be over: two per scenario without a result, one per
refill.\<close>

definition pool_measure :: "pool_run \<Rightarrow> nat" where
  "pool_measure st = 2 * (length (po_queue st) - length (po_results st)) + po_thinking st"

definition pool_good :: "(load_scenario \<Rightarrow> bool) \<Rightarrow> nat \<Rightarrow> pool_run \<Rightarrow> bool" where
  "pool_good prep n st = (pool_inv n st \<and> list_all prep (po_queue st) \<and> policy (po_breaker st) = Continue \<and>
     \<not> shouldStop (po_breaker st))"

lemma pool_launch_while_breaker:
  "pool_launch_while prep n st = (c, st') \<Longrightarrow> po_breaker st' = po_breaker st"
proof (induction prep n st arbitrary: c st' rule: pool_launch_while.induct)
  case (1 prep n st)
  then show ?case
    by (subst (asm) (2) pool_launch_while.simps) (auto simp: Let_def split: if_splits)
qed

lemma pool_launch_breaker: "pool_launch prep n st = (c, st') \<Longrightarrow> po_breaker st' = po_breaker st"
  by (auto simp: pool_launch_def split: prod.splits bool.splits if_splits dest: pool_launch_while_breaker)

lemma pool_step_good:
  assumes "pool_good prep n st" "0 < n" "pool_enabled st e"
  shows "pool_good prep n (pool_step prep n st e) \<and> pool_measure (pool_step prep n st e) < pool_measure st"
proof (cases e)
  case (Pool_Settle k c)
  with assms(3) have k: "k < length (po_pending st)" by simp
  let ?r = "completion_result (po_pending st ! k) c"
  have "\<not> shouldStop (breaker_record (po_breaker st) ?r)"
    using continue_never_stops [of "po_breaker st" "[?r]"] assms(1) by (simp add: pool_good_def)
  with assms(1) k Pool_Settle show ?thesis
    by (auto simp: pool_settle_def Let_def pool_good_def pool_inv_def pool_measure_def pool_stop_def)
next
  case Pool_Refill
  with assms(3) have t: "0 < po_thinking st" by simp
  let ?s = "st\<lparr>po_thinking := po_thinking st - 1\<rparr>"
  obtain c s1 where l: "pool_launch prep n ?s = (c, s1)" by (cases "pool_launch prep n ?s")
  have "c \<and> pool_inv n s1 \<and> po_queue s1 = po_queue ?s \<and> po_results s1 = po_results ?s \<and>
      po_thinking s1 = po_thinking ?s \<and> po_rejected s1 = po_rejected ?s"
    by (rule pool_launch_inv [OF l]) (use assms in \<open>simp_all add: pool_good_def pool_inv_def pool_stop_def\<close>)
  with pool_launch_breaker [OF l] l t assms(1) Pool_Refill show ?thesis
    by (simp add: pool_good_def pool_measure_def)
qed (use assms in simp)

lemma pool_path_good:
  "pool_path prep n st es st' \<Longrightarrow> pool_good prep n st \<Longrightarrow> 0 < n \<Longrightarrow>
   pool_good prep n st' \<and> length es + pool_measure st' \<le> pool_measure st"
proof (induction rule: pool_path.induct)
  case (path_step st e es st')
  from pool_step_good [OF path_step.prems path_step.hyps(1)] path_step.IH path_step.prems(2)
  show ?case by fastforce
qed simp

lemma pool_start_good:
  assumes "list_all prep queue" "0 < n" "policy b = Continue" "\<not> shouldStop b"
  shows "pool_good prep n (pool_start prep n b False queue) \<and>
    pool_measure (pool_start prep n b False queue) = 2 * length queue"
proof -
  let ?s = "\<lparr>po_queue = queue, po_nextIdx = 0, po_inFlight = 0, po_pending = [], po_results = [],
             po_breaker = b, po_aborted = False, po_thinking = 0, po_resolved = False, po_rejected = False\<rparr>"
  obtain c s1 where l: "pool_launch prep n ?s = (c, s1)" by (cases "pool_launch prep n ?s")
  from pool_launch_inv [OF l] pool_launch_breaker [OF l] assms l
  show ?thesis by (simp add: pool_start_def pool_good_def pool_stop_def pool_measure_def)
qed

text \<open>A pool run that is not disturbed comes to an end with everything done: when every
scenario can be prepared and no policy stops it, no run of completions and refills is longer than
two events per scenario, and one that cannot go on has resolved, with one result per scenario.\<close>

theorem pool_run_completes:
  assumes "list_all prep queue" and "0 < n" and "policy b = Continue" and "\<not> shouldStop b"
    and "pool_path prep n (pool_start prep n b False queue) es st"
  shows "length es \<le> 2 * length queue \<and>
    ((\<forall>e. \<not> pool_enabled st e) \<longrightarrow> po_resolved st \<and> length (po_results st) = length (po_queue st))"
proof -
  note g = pool_path_good [OF assms(5)] pool_start_good [OF assms(1-4)]
  have "po_resolved st \<and> length (po_results st) = length (po_queue st)" if "\<forall>e. \<not> pool_enabled st e"
  proof -
    have "\<not> pool_enabled st (Pool_Settle 0 c)" "\<not> pool_enabled st Pool_Refill" for c
      using that by blast+
    then have "po_pending st = []" "po_thinking st = 0" by simp_all
    with g assms(2) show ?thesis by (auto simp: pool_good_def pool_inv_def)
  qed
  with g assms(2) show ?thesis by fastforce
qed

theorem pool_run_completes_witness:
  "let st = pool_step (\<lambda>_. True) 1 (pool_start (\<lambda>_. True) 1 sample_breaker False [sample_scenario ''a''])
              (Pool_Settle 0 (Returned (sample_result ''r-1'' True)))
   in po_resolved st \<and> length (po_results st) = 1"
proof -
  let ?q = "[sample_scenario ''a'']"
  let ?s0 = "pool_start (\<lambda>_. True) 1 sample_breaker False ?q"
  let ?e = "Pool_Settle 0 (Returned (sample_result ''r-1'' True))"
  let ?s1 = "pool_step (\<lambda>_. True) 1 ?s0 ?e"
  note d = pool_start_def pool_launch_def pool_launch_while.simps pool_settle_def breaker_record_def
    sample_breaker_def new_breaker_def pool_stop_def shouldStop_def Let_def
  have "pool_enabled ?s0 ?e" by (simp add: d)
  then have "pool_path (\<lambda>_. True) 1 ?s0 [?e] ?s1" by (intro path_step path_done)
  moreover have "\<not> pool_enabled ?s1 e" for e by (cases e) (simp_all add: d)
  moreover have "po_queue ?s1 = ?q" by (simp add: d)
  ultimately show ?thesis
    using pool_run_completes [of "\<lambda>_. True" ?q 1 sample_breaker "[?e]" ?s1]
    by (simp add: sample_breaker_def new_breaker_def shouldStop_def list_all_iff Let_def)
qed

text \<open>A pool run aborted while it only thinks never resolves: with no request in flight, work
left, and every refill still waiting for its think time, the abort makes each refill return at once
without launching anything, and no later event settles the run's promise.\<close>

theorem pool_abort_while_thinking_hangs:
  assumes "po_inFlight st = 0" and "po_pending st = []" and "po_nextIdx st < length (po_queue st)"
    and "\<not> po_resolved st" and "\<not> po_rejected st"
  shows "\<not> po_resolved (foldl (pool_step prep n) st (Pool_Abort # es)) \<and>
         \<not> po_rejected (foldl (pool_step prep n) st (Pool_Abort # es))"
proof -
  let ?P = "\<lambda>s. po_aborted s \<and> po_inFlight s = 0 \<and> po_pending s = [] \<and> po_nextIdx s < length (po_queue s) \<and>
      \<not> po_resolved s \<and> \<not> po_rejected s"
  have "?P (pool_step prep n s e)" if "?P s" for s e
    using that by (cases e) (auto simp: pool_settle_def pool_launch_def pool_launch_while.simps pool_stop_def)
  then have "?P s \<Longrightarrow> ?P (foldl (pool_step prep n) s es)" for s
    by (induction es arbitrary: s) auto
  from this [of "st\<lparr>po_aborted := True\<rparr>"] assms show ?thesis by simp
qed

theorem pool_abort_while_thinking_hangs_witness:
  "\<not> po_resolved (foldl (pool_step (\<lambda>_. True) 1)
      (pool_step (\<lambda>_. True) 1 (pool_start (\<lambda>_. True) 1 sample_breaker False [sample_scenario ''a'', sample_scenario ''b''])
        (Pool_Settle 0 (Returned (sample_result ''r-1'' True))))
      (Pool_Abort # [Pool_Refill]))"
proof -
  note d = pool_start_def pool_launch_def pool_launch_while.simps pool_settle_def breaker_record_def
    sample_breaker_def new_breaker_def pool_stop_def shouldStop_def Let_def
  let ?st = "pool_step (\<lambda>_. True) 1 (pool_start (\<lambda>_. True) 1 sample_breaker False [sample_scenario ''a'', sample_scenario ''b''])
        (Pool_Settle 0 (Returned (sample_result ''r-1'' True)))"
  have "po_inFlight ?st = 0" "po_pending ?st = []" "po_nextIdx ?st < length (po_queue ?st)"
    "\<not> po_resolved ?st" "\<not> po_rejected ?st" by (simp_all add: d)
  from pool_abort_while_thinking_hangs [OF this, of "\<lambda>_. True" 1 "[Pool_Refill]"] show ?thesis by blast
qed

end
