(* ===== verification/Load_Workers.thy ===== *)
theory Load_Workers
  imports Load_Control
begin

text \<open>
  Running a test in web workers: the progress messages of a worker
  (\<open>engine/core/executionWorker.ts\<close>) and the aggregation and splitting on the main thread
  (\<open>engine/core/workerBridge.ts\<close>). Messages between a worker and the main thread keep their
  order; those of different workers interleave. The HTTP relay messages are not part of the model.
\<close>

section \<open>Progress messages of a worker\<close>

datatype worker_message =
  Progress nat int "request_result list"
| Done "request_result list"
| Worker_Error string

fun new_results :: "worker_message \<Rightarrow> request_result list" where
  "new_results (Progress c t rs) = rs"
| "new_results (Done rs) = rs"
| "new_results (Worker_Error e) = []"

record worker_sender =
  lastSentCount :: nat
  lastProgressPost :: "rat option"
  pendingNewResults :: "request_result list"
  hasPending :: bool
  pendingCompleted :: nat
  pendingTotal :: int

definition sender_start :: worker_sender where
  "sender_start = \<lparr>lastSentCount = 0, lastProgressPost = None, pendingNewResults = [], hasPending = False,
     pendingCompleted = 0, pendingTotal = 0\<rparr>"

text \<open>A call of the progress callback: the time, the counts and the results so far. Messages are
at least 250 ms apart; what comes in between is held back.\<close>

type_synonym progress_call = "rat \<times> nat \<times> int \<times> request_result list"

definition on_progress :: "worker_sender \<Rightarrow> progress_call \<Rightarrow> worker_sender \<times> worker_message list" where
  "on_progress s c = (case c of (now, completed, goal, allResults) \<Rightarrow>
     (let newResults = drop (lastSentCount s) allResults;
          s1 = s\<lparr>lastSentCount := length allResults\<rparr>
      in if (case lastProgressPost s1 of None \<Rightarrow> True | Some t \<Rightarrow> 250 \<le> now - t) then
           (s1\<lparr>lastProgressPost := Some now, hasPending := False, pendingNewResults := []\<rparr>,
            [Progress completed goal (if hasPending s1 then pendingNewResults s1 @ newResults else newResults)])
         else (s1\<lparr>pendingNewResults := pendingNewResults s1 @ newResults, hasPending := True,
                  pendingCompleted := completed, pendingTotal := goal\<rparr>, [])))"

definition on_finished :: "worker_sender \<Rightarrow> request_result list \<Rightarrow> worker_message list" where
  "on_finished s results =
     (if hasPending s then [Progress (pendingCompleted s) (pendingTotal s) (pendingNewResults s)] else []) @
     [Done (drop (lastSentCount s) results)]"

fun sender_run :: "worker_sender \<Rightarrow> progress_call list \<Rightarrow> request_result list \<Rightarrow> worker_message list" where
  "sender_run s [] results = on_finished s results"
| "sender_run s (c # cs) results = (let (s1, msgs) = on_progress s c in msgs @ sender_run s1 cs results)"

text \<open>The array a worker reports is one array that only grows.\<close>

fun grows_to :: "request_result list \<Rightarrow> progress_call list \<Rightarrow> request_result list \<Rightarrow> bool" where
  "grows_to xs [] results = prefix xs results"
| "grows_to xs ((now, c, t, ys) # cs) results = (prefix xs ys \<and> grows_to ys cs results)"

lemma grows_to_prefix: "grows_to xs cs results \<Longrightarrow> prefix xs results"
  by (induction xs cs results rule: grows_to.induct) (auto intro: prefix_order.trans)

lemma sender_run_delivers:
  "grows_to xs cs results \<Longrightarrow> lastSentCount s = length xs \<Longrightarrow> (\<not> hasPending s \<longrightarrow> pendingNewResults s = []) \<Longrightarrow>
   concat (map new_results (sender_run s cs results)) = pendingNewResults s @ drop (length xs) results \<and>
   (\<exists>ms rs. sender_run s cs results = ms @ [Done rs] \<and> list_all (\<lambda>m. case m of Progress _ _ _ \<Rightarrow> True | _ \<Rightarrow> False) ms)"
proof (induction xs cs results arbitrary: s rule: grows_to.induct)
  case (1 xs results)
  then show ?case by (auto simp: on_finished_def)
next
  case (2 xs now c t ys cs results)
  obtain s1 msgs where o: "on_progress s (now, c, t, ys) = (s1, msgs)" by fastforce
  have pre: "prefix xs ys" "grows_to ys cs results" using "2.prems"(1) by auto
  have s1: "lastSentCount s1 = length ys" "\<not> hasPending s1 \<longrightarrow> pendingNewResults s1 = []"
    "concat (map new_results msgs) @ pendingNewResults s1 = pendingNewResults s @ drop (length xs) ys"
    "list_all (\<lambda>m. case m of Progress _ _ _ \<Rightarrow> True | _ \<Rightarrow> False) msgs"
    using o "2.prems"(2,3) by (auto simp: on_progress_def Let_def split: if_splits option.splits)
  note IH = "2.IH" [OF pre(2) s1(1,2)]
  have "drop (length xs) results = drop (length xs) ys @ drop (length ys) results"
    using pre(1) grows_to_prefix [OF pre(2)] by (auto simp: prefix_def)
  with IH s1 o show ?case
    by (auto simp: Let_def)
qed

text \<open>The main thread with one worker: it appends what arrives.\<close>

datatype bridge_outcome = Resolved "request_result list" | Failed string

fun single_receive :: "request_result list \<Rightarrow> worker_message list \<Rightarrow> bridge_outcome option" where
  "single_receive acc [] = None"
| "single_receive acc (Progress c t rs # ms) = single_receive (acc @ rs) ms"
| "single_receive acc (Done rs # ms) = Some (Resolved (acc @ rs))"
| "single_receive acc (Worker_Error e # ms) = Some (Failed e)"

lemma single_receive_progress:
  "list_all (\<lambda>m. case m of Progress _ _ _ \<Rightarrow> True | _ \<Rightarrow> False) ms \<Longrightarrow>
   single_receive acc (ms @ [Done rs]) = Some (Resolved (acc @ concat (map new_results ms) @ rs))"
proof (induction ms arbitrary: acc)
  case (Cons m ms)
  then show ?case by (cases m) auto
qed simp

text \<open>A worker loses and repeats nothing: however its progress reports are timed and throttled,
the main thread resolves with exactly the results of the run, in order.\<close>

theorem worker_results_delivered:
  assumes "grows_to [] calls results"
  shows "single_receive [] (sender_run sender_start calls results) = Some (Resolved results)"
proof -
  have "lastSentCount sender_start = length []" "\<not> hasPending sender_start \<longrightarrow> pendingNewResults sender_start = []"
    by (simp_all add: sender_start_def)
  from sender_run_delivers [OF assms this] obtain ms rs where
    m: "sender_run sender_start calls results = ms @ [Done rs]"
       "list_all (\<lambda>m. case m of Progress _ _ _ \<Rightarrow> True | _ \<Rightarrow> False) ms"
       "concat (map new_results (ms @ [Done rs])) = results"
    by (auto simp: sender_start_def)
  from single_receive_progress [OF m(2), of "[]" rs] m(1,3) show ?thesis by simp
qed

theorem worker_results_delivered_witness:
  "single_receive [] (sender_run sender_start
     [(0, 1, 3, [sample_result ''1'' True]), (100, 2, 3, [sample_result ''1'' True, sample_result ''2'' True])]
     [sample_result ''1'' True, sample_result ''2'' True, sample_result ''3'' True]) =
   Some (Resolved [sample_result ''1'' True, sample_result ''2'' True, sample_result ''3'' True])"
  by (rule worker_results_delivered) simp

section \<open>Splitting a run over workers\<close>

text \<open>\<open>Math.floor\<close> share of worker \<open>i\<close>, at least one.\<close>

definition worker_share :: "int \<Rightarrow> int \<Rightarrow> int \<Rightarrow> int" where
  "worker_share amount n i = (let base = amount div n; extra = amount - base * n
     in max 1 (base + (if i < extra then 1 else 0)))"

definition getWorkerCount :: "int option \<Rightarrow> int" where
  "getWorkerCount hardwareConcurrency = (let cores = or_default hardwareConcurrency 2 in max 1 (min (cores - 1) 8))"

text \<open>\<open>scenarios.slice(a, b)\<close> for indices in range.\<close>

definition chunk_at :: "nat \<Rightarrow> nat \<Rightarrow> 'a list \<Rightarrow> 'a list" where
  "chunk_at c i xs = take c (drop (i * c) xs)"

definition split_chunks :: "nat \<Rightarrow> 'a list \<Rightarrow> 'a list list" where
  "split_chunks n xs = (let chunkSize = nat \<lceil>of_nat (length xs) / (of_nat n :: rat)\<rceil>
     in filter (\<lambda>c. c \<noteq> []) (map (\<lambda>i. chunk_at chunkSize i xs) [0..<n]))"

definition MIN_SCENARIOS_FOR_MULTI :: nat where
  "MIN_SCENARIOS_FOR_MULTI = 8"

text \<open>The chunks of \<open>runTestMultiWorker\<close>; \<open>None\<close> where it falls back to a single worker.\<close>

definition worker_chunks :: "int option \<Rightarrow> bool \<Rightarrow> bool \<Rightarrow> int option \<Rightarrow> 'a list \<Rightarrow> 'a list list option" where
  "worker_chunks hw isLoadProfile hasWorkflow concurrency scenarios =
     (let n = getWorkerCount hw in
      if n \<le> 1 \<or> hasWorkflow \<or> (\<not> isLoadProfile \<and> length scenarios < MIN_SCENARIOS_FOR_MULTI) then None
      else let actual = (if isLoadProfile then min n (or_default concurrency 1) else n);
               chunks = (if isLoadProfile then replicate (nat actual) scenarios else split_chunks (nat actual) scenarios)
           in if length chunks \<le> 1 then None else Some chunks)"

lemma concat_chunks: "concat (map (\<lambda>i. chunk_at c i xs) [0..<n]) = take (n * c) xs"
proof (induction n)
  case (Suc n)
  then show ?case
    by (simp add: chunk_at_def) (metis add.commute take_add)
qed simp

lemma concat_filter_nonempty: "concat (filter (\<lambda>c. c \<noteq> []) xss) = concat xss"
  by (induction xss) auto

lemma chunk_total: "0 < n \<Longrightarrow> length xs \<le> n * nat \<lceil>of_nat (length xs) / (of_nat n :: rat)\<rceil>"
proof -
  assume n: "0 < n"
  let ?q = "of_nat (length xs) / (of_nat n :: rat)"
  have "?q \<le> of_int \<lceil>?q\<rceil>" by (rule le_of_int_ceiling)
  then have "?q * of_nat n \<le> of_int \<lceil>?q\<rceil> * (of_nat n :: rat)" by (rule mult_right_mono) simp
  then have "of_nat (length xs) \<le> (of_nat n :: rat) * of_int \<lceil>?q\<rceil>" using n by (simp add: mult.commute)
  also have "\<dots> = of_int (int n * \<lceil>?q\<rceil>)" by simp
  finally have "int (length xs) \<le> int n * \<lceil>?q\<rceil>" by (metis of_int_le_iff of_int_of_nat_eq)
  moreover have "0 \<le> ?q" by simp
  then have "- 1 < ?q" by linarith
  then have "0 \<le> \<lceil>?q\<rceil>" by simp
  ultimately show ?thesis by (metis int_nat_eq of_nat_le_iff of_nat_mult)
qed

text \<open>Splitting a run over workers partitions it: each scenario goes to exactly one worker, in
order, no worker gets nothing and there are at most as many chunks as workers.\<close>

theorem worker_chunks_partition:
  assumes "worker_chunks hw False w c scenarios = Some chunks"
  shows "concat chunks = scenarios \<and> [] \<notin> set chunks \<and> 1 < length chunks \<and> int (length chunks) \<le> getWorkerCount hw"
proof -
  have n: "1 < getWorkerCount hw" and ch: "chunks = split_chunks (nat (getWorkerCount hw)) scenarios"
    and l: "1 < length chunks"
    using assms by (auto simp: worker_chunks_def Let_def split: if_splits)
  have "length chunks \<le> nat (getWorkerCount hw)"
    unfolding ch split_chunks_def Let_def by (rule order_trans [OF length_filter_le]) simp
  moreover have "concat chunks = scenarios"
    using chunk_total [of "nat (getWorkerCount hw)" scenarios] n
    unfolding ch split_chunks_def Let_def concat_filter_nonempty concat_chunks by simp
  ultimately show ?thesis using l n by (auto simp: ch split_chunks_def Let_def)
qed

theorem worker_chunks_partition_witness:
  "worker_chunks (Some 3) False False None [1 .. 9 :: int] = Some [[1, 2, 3, 4, 5], [6, 7, 8, 9]] \<and>
   concat [[1, 2, 3, 4, 5], [6, 7, 8, 9]] = [1 .. 9 :: int]"
proof -
  have q: "\<lceil>9 / 2 :: rat\<rceil> = 5" by (rule ceiling_unique) simp_all
  have "worker_chunks (Some 3) False False None [1 .. 9 :: int] = Some [[1, 2, 3, 4, 5], [6, 7, 8, 9]]"
    by (simp add: worker_chunks_def getWorkerCount_def or_default_def MIN_SCENARIOS_FOR_MULTI_def split_chunks_def
        chunk_at_def upto_rec1 q eval_nat_numeral)
  with worker_chunks_partition [OF this] show ?thesis by simp
qed

text \<open>Shares of a total over \<open>n\<close> workers.\<close>

lemma sum_indicator: "0 \<le> e \<Longrightarrow> e \<le> int n \<Longrightarrow> (\<Sum>i<n. if int i < e then 1 else 0) = e"
proof (induction n arbitrary: e)
  case (Suc n)
  show ?case
  proof (cases "e \<le> int n")
    case True
    with Suc show ?thesis by simp
  next
    case False
    with Suc.prems have "e = int n + 1" by simp
    then have "(\<Sum>i<Suc n. if int i < e then 1 else 0) = (\<Sum>i<Suc n. (1 :: int))" by (intro sum.cong) auto
    with \<open>e = int n + 1\<close> show ?thesis by simp
  qed
qed simp

text \<open>The concurrency of a run split over n workers: no worker gets less than one or differs from
another by more than one, and the shares add up to the total as long as it is at least n. Below
that, every worker still gets one, so the workers together run n requests at a time, more than was
configured.\<close>

theorem worker_shares:
  assumes "0 < n" and "0 \<le> amount"
  shows "(\<Sum>i<n. worker_share amount (int n) (int i)) = max amount (int n) \<and>
    1 \<le> worker_share amount (int n) i \<and> worker_share amount (int n) i \<le> worker_share amount (int n) j + 1"
proof -
  let ?b = "amount div int n"
  have ex: "amount - ?b * int n = amount mod int n" by (simp add: minus_div_mult_eq_mod)
  have m: "0 \<le> amount mod int n" "amount mod int n \<le> int n"
    using assms(1) by (simp_all add: less_imp_le)
  have share: "worker_share amount (int n) k = max 1 (?b + (if k < amount mod int n then 1 else 0))" for k
    by (simp add: worker_share_def Let_def ex)
  have "(\<Sum>i<n. worker_share amount (int n) (int i)) = max amount (int n)"
  proof (cases "int n \<le> amount")
    case True
    then have "1 \<le> ?b" using assms(1) by (simp add: pos_imp_zdiv_pos_iff int_one_le_iff_zero_less)
    then have "(\<Sum>i<n. worker_share amount (int n) (int i)) = (\<Sum>i<n. ?b + (if int i < amount mod int n then 1 else 0))"
      by (intro sum.cong) (auto simp: share)
    also have "\<dots> = int n * ?b + amount mod int n" using sum_indicator [OF m] by (simp add: sum.distrib)
    also have "\<dots> = amount" by simp
    finally show ?thesis using True by simp
  next
    case False
    then have "?b = 0" using assms(2) by simp
    then have "(\<Sum>i<n. worker_share amount (int n) (int i)) = (\<Sum>i<n. (1 :: int))"
      by (intro sum.cong) (auto simp: share)
    with False show ?thesis by simp
  qed
  moreover have "1 \<le> worker_share amount (int n) i" by (simp add: share)
  moreover have "worker_share amount (int n) i \<le> worker_share amount (int n) j + 1" by (auto simp: share max_def)
  ultimately show ?thesis by simp
qed

theorem worker_shares_witness:
  "(\<Sum>i<8. worker_share 2 (int 8) (int i)) = 8 \<and> (\<Sum>i<8. worker_share 19 (int 8) (int i)) = 19"
  using worker_shares [of 8 2 0 0] worker_shares [of 8 19 0 0] by simp

section \<open>Aggregating several workers\<close>

record bridge =
  br_results :: "request_result list"
  br_completed :: "nat list"
  br_totals :: "int list"
  br_done :: nat
  br_settled :: "bridge_outcome option"
  br_aborts :: nat
  br_reports :: "(nat \<times> int \<times> nat) list"

definition bridge_start :: "nat \<Rightarrow> bridge" where
  "bridge_start n = \<lparr>br_results = [], br_completed = replicate n 0, br_totals = replicate n 0, br_done = 0,
     br_settled = None, br_aborts = 0, br_reports = []\<rparr>"

text \<open>The handler of worker \<open>i\<close>'s messages among \<open>n\<close> workers. A failure aborts and terminates
every worker (\<open>br_aborts\<close> counts the abort broadcasts); a report carries the aggregated counts
and the number of results so far.\<close>

definition bridge_receive :: "bool \<Rightarrow> nat \<Rightarrow> bridge \<Rightarrow> nat \<times> worker_message \<Rightarrow> bridge" where
  "bridge_receive isLoadProfile n b im = (case im of (i, msg) \<Rightarrow>
     (if br_settled b \<noteq> None then b
      else case msg of
        Progress c t rs \<Rightarrow>
          (let b1 = b\<lparr>br_results := br_results b @ rs, br_completed := (br_completed b)[i := c],
                      br_totals := (br_totals b)[i := t]\<rparr>
           in b1\<lparr>br_reports := br_reports b1 @ [(sum_list (br_completed b1),
                if isLoadProfile then - 1 else sum_list (br_totals b1), length (br_results b1))]\<rparr>)
      | Done rs \<Rightarrow>
          (let b1 = b\<lparr>br_results := br_results b @ rs, br_done := br_done b + 1\<rparr>
           in if n \<le> br_done b1 then b1\<lparr>br_settled := Some (Resolved (br_results b1))\<rparr> else b1)
      | Worker_Error e \<Rightarrow> b\<lparr>br_settled := Some (Failed e), br_aborts := br_aborts b + 1\<rparr>))"

text \<open>What worker \<open>i\<close> sent, within the interleaving.\<close>

definition sent_by :: "nat \<Rightarrow> (nat \<times> worker_message) list \<Rightarrow> worker_message list" where
  "sent_by i es = map snd (filter (\<lambda>e. fst e = i) es)"

definition is_done :: "worker_message \<Rightarrow> bool" where
  "is_done m = (case m of Done _ \<Rightarrow> True | _ \<Rightarrow> False)"

definition is_error :: "worker_message \<Rightarrow> bool" where
  "is_error m = (case m of Worker_Error _ \<Rightarrow> True | _ \<Rightarrow> False)"

lemma message_kinds [simp]:
  "is_done (Done rs)" "\<not> is_done (Progress c t rs)" "\<not> is_done (Worker_Error x)"
  "\<not> is_error (Done rs)" "\<not> is_error (Progress c t rs)" "is_error (Worker_Error x)"
  by (simp_all add: is_done_def is_error_def)

lemma bridge_run:
  "br_settled b = None \<Longrightarrow> list_all (\<lambda>e. \<not> is_error (snd e)) es \<Longrightarrow> br_done b < n \<Longrightarrow>
   br_done b + length (filter (\<lambda>e. is_done (snd e)) es) \<le> n \<Longrightarrow>
   (es \<noteq> [] \<and> br_done b + length (filter (\<lambda>e. is_done (snd e)) es) = n \<longrightarrow> is_done (snd (last es))) \<Longrightarrow>
   let b' = foldl (bridge_receive lp n) b es in
     br_results b' = br_results b @ concat (map (\<lambda>e. new_results (snd e)) es) \<and>
     br_settled b' = (if br_done b + length (filter (\<lambda>e. is_done (snd e)) es) = n
                      then Some (Resolved (br_results b')) else None)"
proof (induction es arbitrary: b)
  case (Cons e es)
  obtain i m where e: "e = (i, m)" by (cases e)
  let ?b1 = "bridge_receive lp n b e"
  show ?case
  proof (cases m)
    case (Progress c t rs)
    then have b1: "br_settled ?b1 = None" "br_done ?b1 = br_done b" "br_results ?b1 = br_results b @ rs"
      using Cons.prems(1) e by (simp_all add: bridge_receive_def Let_def)
    show ?thesis
      using Cons.IH [of ?b1] Cons.prems b1 e Progress
      by (cases "es = []") (auto simp: Let_def)
  next
    case (Done rs)
    show ?thesis
    proof (cases "br_done b + 1 = n")
      case True
      have "br_done b + 1 + length (filter (\<lambda>e. is_done (snd e)) es) \<le> n"
        using Cons.prems(4) Done e by simp
      with True have "length (filter (\<lambda>e. is_done (snd e)) es) = 0" by linarith
      then have f: "filter (\<lambda>e. is_done (snd e)) es = []" by (simp only: length_0_conv)
      have "es \<noteq> [] \<Longrightarrow> is_done (snd (last es))"
        using Cons.prems(5) True Done e f by simp
      with f have "es = []" by (metis filter_empty_conv last_in_set)
      with True Done e Cons.prems(1) show ?thesis
        by (simp add: bridge_receive_def Let_def)
    next
      case False
      then have b1: "br_settled ?b1 = None" "br_done ?b1 = br_done b + 1" "br_results ?b1 = br_results b @ rs"
        using Cons.prems(1,3) Done e by (simp_all add: bridge_receive_def Let_def)
      show ?thesis
        using Cons.IH [of ?b1] Cons.prems b1 e Done False
        by (cases "es = []") (auto simp: Let_def)
    qed
  next
    case (Worker_Error x)
    with Cons.prems(2) e show ?thesis by simp
  qed
qed simp

lemma mset_by_worker:
  "list_all (\<lambda>e. fst e < n) es \<Longrightarrow>
   mset (concat (map (\<lambda>e. f (snd e)) es)) = (\<Sum>i<n. mset (concat (map f (sent_by i es))))"
proof (induction es)
  case (Cons e es)
  have "(\<Sum>i<n. mset (concat (map f (sent_by i (e # es))))) =
      (\<Sum>i<n. (if i = fst e then mset (f (snd e)) else {#}) + mset (concat (map f (sent_by i es))))"
    by (intro sum.cong) (auto simp: sent_by_def)
  also have "\<dots> = mset (f (snd e)) + (\<Sum>i<n. mset (concat (map f (sent_by i es))))"
    using Cons.prems by (simp add: sum.distrib)
  finally show ?case using Cons by simp
qed (simp add: sent_by_def)

lemma count_by_worker:
  "list_all (\<lambda>e. fst e < n) es \<Longrightarrow>
   length (filter (\<lambda>e. P (snd e)) es) = (\<Sum>i<n. length (filter P (sent_by i es)))"
proof (induction es)
  case (Cons e es)
  have "(\<Sum>i<n. length (filter P (sent_by i (e # es)))) =
      (\<Sum>i<n. (if i = fst e then (if P (snd e) then 1 else 0) else 0) + length (filter P (sent_by i es)))"
    by (intro sum.cong) (auto simp: sent_by_def)
  also have "\<dots> = (if P (snd e) then 1 else 0) + (\<Sum>i<n. length (filter P (sent_by i es)))"
    using Cons.prems by (simp add: sum.distrib)
  finally show ?case using Cons by simp
qed (simp add: sent_by_def)

text \<open>One worker's messages: progress messages, then the last one, which says it is done.\<close>

definition worker_complete :: "worker_message list \<Rightarrow> request_result list \<Rightarrow> bool" where
  "worker_complete ms rs = (single_receive [] ms = Some (Resolved rs) \<and> ms \<noteq> [] \<and>
     is_done (last ms) \<and> list_all (\<lambda>m. \<not> is_done m \<and> \<not> is_error m) (butlast ms))"

lemma worker_complete_results: "worker_complete ms rs \<Longrightarrow> concat (map new_results ms) = rs \<and>
    length (filter is_done ms) = 1 \<and> list_all (\<lambda>m. \<not> is_error m) ms"
proof -
  assume w: "worker_complete ms rs"
  then obtain ps x where ms: "ms = ps @ [Done x]"
    by (metis worker_complete_def append_butlast_last_id is_done_def worker_message.exhaust worker_message.simps(10,12))
  have "list_all (\<lambda>m. case m of Progress _ _ _ \<Rightarrow> True | _ \<Rightarrow> False) ps"
    using w ms by (auto simp: worker_complete_def list_all_iff is_done_def is_error_def split: worker_message.splits)
  from single_receive_progress [OF this, of "[]" x] w ms show ?thesis
    by (auto simp: worker_complete_def list_all_iff filter_empty_conv)
qed

lemma bridge_no_abort:
  "list_all (\<lambda>e. \<not> is_error (snd e)) es \<Longrightarrow> br_aborts (foldl (bridge_receive lp n) b es) = br_aborts b"
proof (induction es arbitrary: b)
  case (Cons e es)
  have "br_aborts (bridge_receive lp n b e) = br_aborts b"
    using Cons.prems by (cases e; cases "snd e") (auto simp: bridge_receive_def Let_def)
  with Cons show ?case by simp
qed simp

text \<open>C28. A run over several workers resolves with everyone's results: when every worker completes,
in whatever interleaving its messages arrive, the bridge settles at the last completion, and the
results it resolves with are those of all workers, each exactly once.\<close>

theorem bridge_collects_all_results:
  assumes "0 < n" and "list_all (\<lambda>e. fst e < n) es"
    and "\<forall>i<n. worker_complete (sent_by i es) (results i)"
    and "b = foldl (bridge_receive lp n) (bridge_start n) es"
  shows "br_settled b = Some (Resolved (br_results b)) \<and> mset (br_results b) = (\<Sum>i<n. mset (results i)) \<and>
    br_aborts b = 0"
proof -
  have wc: "concat (map new_results (sent_by i es)) = results i \<and> length (filter is_done (sent_by i es)) = 1 \<and>
      list_all (\<lambda>m. \<not> is_error m) (sent_by i es)" if "i < n" for i
    using worker_complete_results assms(3) that by blast
  have in_sent: "snd e \<in> set (sent_by (fst e) es)" "fst e < n" if "e \<in> set es" for e
    using that assms(2) by (auto simp: sent_by_def list_all_iff)
  have noerr: "list_all (\<lambda>e. \<not> is_error (snd e)) es"
    using wc in_sent unfolding list_all_iff by metis
  have dones: "length (filter (\<lambda>e. is_done (snd e)) es) = n"
    using count_by_worker [OF assms(2), of is_done] wc by simp
  have last: "is_done (snd (last es))"
  proof -
    have "es \<noteq> []" using dones assms(1) by auto
    then obtain fs i m where es: "es = fs @ [(i, m)]" by (metis append_butlast_last_id surj_pair)
    then have "i < n" using assms(2) by simp
    then have "is_done (last (sent_by i es))" using assms(3) by (auto simp: worker_complete_def)
    then show ?thesis using es by (simp add: sent_by_def)
  qed
  have run: "br_results b = concat (map (\<lambda>e. new_results (snd e)) es)" "br_settled b = Some (Resolved (br_results b))"
    using bridge_run [of "bridge_start n" es n lp] noerr dones last assms(1,4)
    by (simp_all add: bridge_start_def Let_def)
  have "mset (br_results b) = (\<Sum>i<n. mset (concat (map new_results (sent_by i es))))"
    using mset_by_worker [OF assms(2), of new_results] run(1) by simp
  also have "\<dots> = (\<Sum>i<n. mset (results i))" using wc by (intro sum.cong) auto
  finally show ?thesis using run(2) bridge_no_abort [OF noerr, of lp n "bridge_start n"] assms(4)
    by (simp add: bridge_start_def)
qed

theorem bridge_collects_all_results_witness:
  "br_settled (foldl (bridge_receive False 2) (bridge_start 2)
     [(1, Progress 1 1 [sample_result ''b'' True]), (0, Done [sample_result ''a'' True]), (1, Done [])]) =
   Some (Resolved [sample_result ''b'' True, sample_result ''a'' True])"
proof -
  let ?es = "[(1, Progress 1 1 [sample_result ''b'' True]), (0, Done [sample_result ''a'' True]), (1 :: nat, Done [])]"
  have "\<forall>i<2. worker_complete (sent_by i ?es) (if i = 0 then [sample_result ''a'' True] else [sample_result ''b'' True])"
    by (auto simp: worker_complete_def sent_by_def less_2_cases_iff)
  from bridge_collects_all_results [OF _ _ this refl, of False] show ?thesis
    by (simp add: bridge_start_def bridge_receive_def Let_def)
qed

end
