(* ===== verification/Spec2Isabelle.thy ===== *)
theory Spec2Isabelle
  imports
    Prelude Interfaces Mock_Types
    Pattern_Cache Path_Matcher Json_Model Predicates Predicate_Tree
    Near_Miss Routing Scenario Journal Conflicts
    Request_Normalization Template_Engine Response_Renderer Cors Proxy Fault_Executor Diagnostics Listener Simulation
    Recording Callbacks Server_Pool Stomp Variables Workflow_Graph Workflow_Run Workflow_Verdict Workflow_Join Validation Field_Rules Assertions
    Load_Control Load_Runner Load_Queue Load_Results Load_Workers
begin

text \<open>
  A verification development of RedFireForge, a workbench for testing APIs. It covers the parts
  of the program that carry its own logic: the API mock server, which answers requests from a
  library of routes, the load engine, which runs scenarios against a target, the validation of
  responses, and the runner of workflow graphs. Paths below are
  relative to \<open>src/\<close> of the repository; \<open>api-mock/\<close> is \<open>src/shared/api-mock/\<close> and \<open>server/\<close> is
  \<open>src-server/api-mock/\<close>.

  \<^bold>\<open>The mock server.\<close> A network listener receives a request, normalises it, selects a route by
  evaluating the predicates of all routes, selects one of the route's response variants (by rules,
  sequence, weight or scenario state), renders its templates, transforms it and delivers it, perhaps
  late or with a fault. An unmatched request gets a fallback, a debug body or an answer from an
  upstream proxy. Every delivery is a transaction, which the journal redacts, truncates and keeps.

  \<^item> \<open>Mock_Types\<close>: the data model (\<open>api-mock/contracts.ts\<close>, \<open>proxyContracts.ts\<close>,
    \<open>callbackContracts.ts\<close>), field by field, and \<open>js_host\<close>, the parts of the JavaScript host the
    code relies on.
  \<^item> \<open>Pattern_Cache\<close> (\<open>perfBudgets.ts\<close>, \<open>patternCache.ts\<close>), \<open>Path_Matcher\<close> (\<open>pathMatcher.ts\<close>),
    \<open>Json_Model\<close> (\<open>src/shared/utils/jsonPath.ts\<close> and the comparisons of the evaluator),
    \<open>Predicates\<close> (\<open>predicateEvaluator.ts\<close>, \<open>predicateEvaluatorHelpers.ts\<close>), \<open>Predicate_Tree\<close>
    (\<open>predicateTree.ts\<close>): does a request satisfy the conditions of a route? The evaluation, with its
    result rows, computes the boolean meaning of the tree; globs have their intended language; the
    cache cannot be noticed.
  \<^item> \<open>Near_Miss\<close> (\<open>nearMissRanking.ts\<close>) and \<open>Routing\<close> (\<open>routeSelector.ts\<close>, \<open>fallbackBody.ts\<close>): the
    winner is the best accepting route, whatever the order of the library; the near misses are
    complete and explained; the edit distance is the least cost of an edit script.
  \<^item> \<open>Scenario\<close> (\<open>scenarioRuntime.ts\<close>, \<open>responseSelector.ts\<close>, \<open>faultPreview.ts\<close>, \<open>defaults.ts\<close>): guarded
    transitions, the four response modes, eligibility, delays and fault previews.
  \<^item> \<open>Request_Normalization\<close>, \<open>Template_Engine\<close>, \<open>Response_Renderer\<close>, \<open>Cors\<close>, \<open>Diagnostics\<close> (files of the
    same names, \<open>templateFaker.ts\<close>, \<open>responseTransforms.ts\<close>, \<open>closestMatchDebug.ts\<close>,
    \<open>corsHeaders.ts\<close>, \<open>localDiagnostics.ts\<close>): the stages of the pipeline, each with what it promises
    to the next.
  \<^item> \<open>Proxy\<close> (\<open>proxyPolicy.ts\<close>, \<open>server/apiMockProxyExecutor.ts\<close>): whatever the network answers, the
    requests sent stay within the policy and carry no credential that was not allowed.
  \<^item> \<open>Listener\<close> (\<open>server/ApiMockNetworkListener.ts\<close>): the composition of all the above, over
    sequences of requests, timers, completions, commits, stops and restarts.
  \<^item> \<open>Fault_Executor\<close> (\<open>server/apiMockFaultExecutor.ts\<close>): the seven faults as runs over the actions they
    take on the connection; each settles exactly once and delivers what the preview promised.
  \<^item> \<open>Simulation\<close> (\<open>simulation.ts\<close>): a batch of samples keeps the run-time state the listener would
    keep, and a simulated response is the live one, except for transforms.
  \<^item> \<open>Recording\<close> (\<open>sourceToRule.ts\<close>, \<open>proxyRecording.ts\<close>): sources and proxied exchanges become
    disabled routes that accept what they were made from, with the secrets taken out, and merging
    them keeps the library.
  \<^item> \<open>Callbacks\<close> (\<open>server/apiMockCallbackExecutor.ts\<close>, \<open>callbackContracts.ts\<close>): what is sent after a
    response stays within the policy, and how often it is retried.
  \<^item> \<open>Server_Pool\<close> (\<open>server/ApiMockServerPool.ts\<close>): starts and stops of many listeners, each in two
    steps around an await, over a heap of listeners and the ports of the operating system.
  \<^item> \<open>Journal\<close> (\<open>server/ApiMockTransactionJournal.ts\<close>, \<open>apiMockJournalPersist.ts\<close>): a ring buffer that
    refines a bounded list; what is stored is redacted and bounded.
  \<^item> \<open>Conflicts\<close> (\<open>conflictAnalyzer.ts\<close>): pairs of routes reported as overlapping, shadowed or disjoint,
    and how far these verdicts can be trusted.

  \<^bold>\<open>The load engine\<close> and protocols.

  \<^item> \<open>Load_Control\<close> (\<open>src/engine/core/circuitBreaker.ts\<close>, \<open>allocationEngine.ts\<close>, \<open>thinkTime.ts\<close>,
    \<open>src/shared/utils/semaphore.ts\<close>), \<open>Load_Runner\<close> (\<open>src/engine/load/loadProfileRunner.ts\<close>),
    \<open>Load_Queue\<close> (the sequential, batch and pool runners of \<open>requestExecution.ts\<close>): launches stay
    within the target, every launch is accounted for, runs end, and where they do not.
  \<^item> \<open>Load_Results\<close> (\<open>percentiles.ts\<close>, \<open>metrics.ts\<close>, \<open>rerunMerge.ts\<close>, \<open>grpcHarnessRowIdentity.ts\<close>),
    \<open>Load_Workers\<close> (\<open>executionWorker.ts\<close>, \<open>workerBridge.ts\<close>): no result is lost or counted twice
    between workers and summary.
  \<^item> \<open>Stomp\<close> (\<open>src/shared/websocket/protocols/stompCodec.ts\<close>): encoding and decoding of frames.

  \<^bold>\<open>Validation of responses\<close> (\<open>src/engine/core/\<close>), shared by the load engine and the workflow runner.

  \<^item> \<open>Validation\<close> (\<open>deepCompare.ts\<close>, \<open>validatorSubsetMatch.ts\<close>, \<open>fieldOperatorEvaluation.ts\<close>,
    \<open>validatorHttpHelpers.ts\<close>): whole bodies, subsets, field operators and status patterns; a whole-body
    comparison is equality of canonical forms, except for one case; which status patterns return.
  \<^item> \<open>Field_Rules\<close> (\<open>validator.ts\<close>): rules at their own paths, at any index of an array, and at guessed
    paths; what the greedy matching of rows accepts and what it misses.
  \<^item> \<open>Assertions\<close> (\<open>validatorAssertionHandlers.ts\<close>, \<open>validator.ts\<close>, \<open>validationResult.ts\<close>): the nineteen
    kinds of assertion, their negation, and when a response passes.

  \<^bold>\<open>The workflow engine\<close> (\<open>src/features/workflow/engine/\<close>). A workflow is a graph of nodes; a run visits
  it from the start nodes, with several branches at once between a fork and a join, over shared
  variables.

  \<^item> \<open>Variables\<close> (\<open>variableContext.ts\<close>, conditions of \<open>graphRunnerHelpers.ts\<close>): the layers of variables,
    variables scoped to a step, placeholders and generators; a template whose holes are names is
    substituted piece by piece; a snapshot can be read back.
  \<^item> \<open>Workflow_Graph\<close> (\<open>types/workflow\<close>, \<open>graphRunnerHelpers.ts\<close>): graphs, the state of a run, the body of a
    loop (what can be reached without entering a boundary), the branches given up.
  \<^item> \<open>Workflow_Run\<close> (\<open>graphRunner.ts\<close> and the handlers of its nodes): the recursion with its awaits as a
    machine on stacks of continuations, one stack for each branch of a \<open>Promise.all\<close>; an activity
    (HTTP step, script, client of a protocol) is an event that reports its outcome: it goes on, stops as
    failed, throws, or is cut off by an abort.
  \<^item> \<open>Workflow_Verdict\<close>: the invariant of all runs, what the verdict means, and that no run gets stuck.
  \<^item> \<open>Workflow_Join\<close>: the account of every edge into a join, the barrier, single starts and the end of runs
    without loops, error handlers and wait nodes; a branch given up too late.

  \<^item> \<open>Prelude\<close> holds the JavaScript library the code uses (split, trim, stable sort, index search,
    objects as insertion-ordered records) with its lemmas; \<open>Interfaces\<close> holds the contracts as
    locales: \<open>state_machine\<close> (interpreted by the cache, the journal, the breaker, the semaphore, the
    load run, the pool run, the listener, the fault runs, the server pool and, for two invariants, the
    workflow run), \<open>latched_machine\<close> (a condition that stays once it holds: the lost listeners of the
    pool), \<open>bounded_window\<close> (journal, duration window), \<open>keyed_cache\<close> (pattern cache); \<open>comparator\<close> of the prelude is the contract of a sort order.

  \<^bold>\<open>Modelling decisions.\<close> A string is a list of code units below 256; typographic characters of
  messages are written in ASCII. Numbers are \<open>int\<close>, and \<open>rat\<close> where the code computes fractions; the
  32-bit hashes are \<open>32 word\<close>. An object is an association list in insertion order; names inherited from
  \<open>Object.prototype\<close> (\<open>constructor\<close>, \<open>__proto__\<close> and so on) are modelled where the normalisation of requests,
  the codec of frames, the scenario runtime (states and counters) and the template engine read a plain object
  by a name that comes from outside; elsewhere objects are read by other names only. The
  regular-expression engine, the JSON codec, \<open>localeCompare\<close>, URI and form decoding are fields of
  \<open>js_host\<close>; theorems that sort by \<open>localeCompare\<close> assume that it is a total preorder. XML, schema,
  multipart and digest matchers, dates, the evaluator of expressions, the URL parser, the DNS check and the network are parameters. Clock,
  identifiers and random draws are arguments. What a program part does between two awaits is one step;
  a promise that is not resolved is an entry of the state, and a timer is an event with the clock it
  fires at, so a property of all event lists is a property of all interleavings. An exception is an
  \<open>Inl\<close> or \<open>None\<close>. The snapshot file of the journal is a field of its state.

  \<^bold>\<open>Bounds and fuel.\<close> No definition runs on fuel: loops are structural or have a measure, and
  the batch loop, which need not end, is a \<open>partial_function\<close> whose termination is characterised
  exactly. Runs are lists of events of any length; where a run ends, the bound on its steps is proved. The ceilings (bodies, operations, redirects, journal entries, delays) are the constants of
  \<open>defaults.ts\<close> and \<open>proxyContracts.ts\<close>.

  \<^bold>\<open>Not modelled.\<close> The user interface and its stores (React), the desktop shell (Rust), the
  demonstration hub, the command line, storage in the browser, TLS and sockets, the HTTP, gRPC, Kafka,
  GraphQL and WebSocket clients themselves: they move data between the operating system, the browser
  and the parts above. Of the workflow engine: the debugger, log lines, the details of the trace,
  the throttling of polls and the clients behind the activities. Import and export of foreign formats
  are left out.
\<close>

end
